(* ===== verification/Prelude.thy ===== *)
theory Prelude
  imports Complex_Main "HOL-Library.AList" "HOL-Library.Sublist"
begin

text \<open>
  Shared vocabulary of the development: the C and C++ library operations the engine's
  sources use on strings and maps, the engine's error enumeration, and the generic lemmas
  the component theories rely on.

  A C++ \<open>std::string\<close> is a \<^typ>\<open>string\<close>: a list of bytes. An \<open>unordered_map\<close> is an
  association list updated with \<^const>\<open>AList.update\<close>; the theorems hold for every list
  with distinct keys, so for every iteration order the container may choose.
\<close>

named_theorems entropic_defs \<open>definitions unfolded by the component proofs\<close>
named_theorems inv_intros \<open>every operation keeps its component's invariant\<close>

subsection \<open>Bytes and strings\<close>

abbreviation byte :: "char \<Rightarrow> nat" where
  "byte c \<equiv> of_char c"

text \<open>The six white-space bytes of the C locale.\<close>

definition c_isspace :: "char \<Rightarrow> bool" where
  "c_isspace c \<longleftrightarrow> byte c = 32 \<or> (9 \<le> byte c \<and> byte c \<le> 13)"

definition c_tolower :: "char \<Rightarrow> char" where
  "c_tolower c = (if 65 \<le> byte c \<and> byte c \<le> 90 then char_of (byte c + 32) else c)"

text \<open>\<open>s.rfind(p, 0) == 0\<close>, the source's idiom for a prefix test.\<close>

definition starts_with :: "string \<Rightarrow> string \<Rightarrow> bool" where
  "starts_with p s \<longleftrightarrow> take (length p) s = p"

text \<open>\<open>s.find(c)\<close> with \<open>npos\<close> as \<^const>\<open>None\<close>.\<close>

fun find_char :: "char \<Rightarrow> string \<Rightarrow> nat option" where
  "find_char c [] = None"
| "find_char c (x # xs) = (if x = c then Some 0 else map_option Suc (find_char c xs))"

text \<open>\<open>s.find(p)\<close> for a substring: the first position where \<open>p\<close> starts.\<close>

fun find_str :: "string \<Rightarrow> string \<Rightarrow> nat option" where
  "find_str p [] = (if p = [] then Some 0 else None)"
| "find_str p (x # xs) =
     (if starts_with p (x # xs) then Some 0 else map_option Suc (find_str p xs))"

text \<open>What is left of a \<open>std::string\<close> that crosses the C interface: it ends at the first NUL.\<close>

definition c_string :: "string \<Rightarrow> string" where
  "c_string s = takeWhile (\<lambda>c. c \<noteq> CHR 0x00) s"

text \<open>Text in double and in single quotes, and the UTF-8 bytes of an em dash.\<close>

definition quoted :: "string \<Rightarrow> string" where
  "quoted s = [CHR 0x22] @ s @ [CHR 0x22]"

definition squoted :: "string \<Rightarrow> string" where
  "squoted s = [CHR 0x27] @ s @ [CHR 0x27]"

definition em_dash :: string where
  "em_dash = [CHR 0xE2, CHR 0x80, CHR 0x94]"

text \<open>\<open>std::to_string\<close> on unsigned and signed integers.\<close>

definition digit :: "nat \<Rightarrow> char" where
  "digit d = char_of (48 + d)"

fun to_string_nat :: "nat \<Rightarrow> string" where
  "to_string_nat n =
     (if n < 10 then [digit n] else to_string_nat (n div 10) @ [digit (n mod 10)])"

declare to_string_nat.simps [simp del]

definition to_string_int :: "int \<Rightarrow> string" where
  "to_string_int i = (if i < 0 then CHR ''-'' # to_string_nat (nat (- i)) else to_string_nat (nat i))"

lemma to_string_nat_nonempty [simp]: "to_string_nat n \<noteq> []"
  by (subst to_string_nat.simps) simp

lemma starts_with_append [simp]: "starts_with p (p @ s)"
  by (simp add: starts_with_def)

lemma starts_with_iff_prefix: "starts_with p s \<longleftrightarrow> prefix p s"
  by (metis append_eq_conv_conj append_take_drop_id prefixI prefix_def starts_with_def)

lemma find_char_None: "find_char c s = None \<longleftrightarrow> c \<notin> set s"
  by (induction s) auto

lemma find_char_Some:
  "find_char c s = Some i \<Longrightarrow> i < length s \<and> s ! i = c \<and> c \<notin> set (take i s)"
  by (induction s arbitrary: i) (auto split: if_splits)

lemma find_str_None: "find_str p s = None \<Longrightarrow> \<not> sublist p s"
proof (induction s)
  case (Cons x s)
  then show ?case by (auto simp: starts_with_iff_prefix sublist_Cons_right split: if_splits)
qed (simp split: if_splits)

lemma find_str_Some: "find_str p s = Some i \<Longrightarrow> s = take i s @ p @ drop (i + length p) s"
proof (induction s arbitrary: i)
  case (Cons x s)
  then show ?case
    by (cases "starts_with p (x # s)") (auto simp: starts_with_iff_prefix prefix_def)
qed (simp split: if_splits)

lemma find_str_first: "find_str p s = Some i \<Longrightarrow> p \<noteq> [] \<Longrightarrow> \<not> sublist p (take i s)"
proof (induction s arbitrary: i)
  case (Cons x s)
  then show ?case
    by (cases "starts_with p (x # s)") (auto simp: starts_with_iff_prefix sublist_Cons_right take_is_prefix intro: prefix_order.trans)
qed (simp split: if_splits)

lemma find_str_len: "find_str p s = Some i \<Longrightarrow> i + length p \<le> length s"
proof (induction s arbitrary: i)
  case (Cons x s)
  then show ?case by (auto simp: starts_with_iff_prefix dest: prefix_length_le split: if_splits)
qed (simp split: if_splits)

lemma find_str_append: "find_str p (a @ p) = Some (length a) \<Longrightarrow> find_str p (a @ p @ b) = Some (length a)"
proof (induction a)
  case Nil
  then show ?case by (cases "p @ b"; cases p) (auto simp: starts_with_def)
next
  case (Cons x a)
  have "starts_with p (x # a @ p @ b) \<longleftrightarrow> starts_with p (x # a @ p)"
    by (simp add: starts_with_def take_Cons')
  with Cons show ?case by (auto split: if_splits)
qed

text \<open>Searching for a tag, a text that has its first character nowhere else.\<close>

definition is_tag :: "char \<Rightarrow> string \<Rightarrow> bool" where
  "is_tag c p \<longleftrightarrow> (\<exists>p'. p = c # p' \<and> c \<notin> set p')"

lemma starts_with_Cons: "starts_with (c # p) (x # s) \<longleftrightarrow> x = c \<and> starts_with p s"
  by (auto simp: starts_with_def)

lemma starts_with_Nil: "starts_with [] s" "starts_with p [] \<longleftrightarrow> p = []"
  by (auto simp: starts_with_def)

lemma find_head_skip: "c \<notin> set x \<Longrightarrow> find_str (c # p) (x @ y) = map_option (\<lambda>i. i + length x) (find_str (c # p) y)"
  by (induction x) (auto simp: starts_with_Cons option.map_comp comp_def option.map_ident)

lemma find_tag_skip: "is_tag c p \<Longrightarrow> c \<notin> set x \<Longrightarrow> find_str p (x @ y) = map_option (\<lambda>i. i + length x) (find_str p y)"
  by (auto simp: is_tag_def find_head_skip)

lemma find_tag_other:
  "is_tag c p \<Longrightarrow> \<not> starts_with p (c # x @ y) \<Longrightarrow> c \<notin> set x \<Longrightarrow>
   find_str p (c # x @ y) = map_option (\<lambda>i. Suc (i + length x)) (find_str p y)"
  by (simp add: find_tag_skip option.map_comp comp_def)

lemma starts_with_crossing:
  "c \<notin> set p \<Longrightarrow> starts_with p (v @ c # y) \<longleftrightarrow> starts_with p v"
proof (induction p arbitrary: v)
  case (Cons d p)
  then show ?case by (cases v) (auto simp: starts_with_Cons starts_with_Nil)
qed (simp add: starts_with_Nil)

lemma find_tag_text:
  "is_tag c p \<Longrightarrow> \<not> sublist p v \<Longrightarrow> find_str p (v @ c # y) = map_option (\<lambda>i. i + length v) (find_str p (c # y))"
proof (induction v)
  case Nil
  then show ?case by (simp add: option.map_ident)
next
  case (Cons x v)
  obtain p' where p: "p = c # p'" "c \<notin> set p'" using Cons.prems(1) by (auto simp: is_tag_def)
  then have "\<not> starts_with p (x # v @ c # y)"
    using Cons.prems(2) starts_with_crossing [of c p' v y] by (auto simp: starts_with_Cons starts_with_iff_prefix sublist_Cons_right)
  moreover have "\<not> sublist p v" using Cons.prems(2) by (auto simp: sublist_Cons_right)
  ultimately show ?case using Cons by (simp add: option.map_comp comp_def)
qed

text \<open>
  \<open>strtol(s, 10)\<close>: white space, an optional sign, the longest run of digits. \<open>std::stoi\<close>
  throws when there is no digit or the value is not an \<open>int\<close>; \<open>std::atoi\<close> gives zero when
  there is no digit (its result is undefined outside the range of \<open>int\<close>).
\<close>

definition is_digit :: "char \<Rightarrow> bool" where
  "is_digit c \<longleftrightarrow> 48 \<le> byte c \<and> byte c \<le> 57"

definition digits_value :: "string \<Rightarrow> nat" where
  "digits_value ds = foldl (\<lambda>n c. 10 * n + (byte c - 48)) 0 ds"

definition read_unsigned :: "string \<Rightarrow> nat option" where
  "read_unsigned s = (let ds = takeWhile is_digit s in if ds = [] then None else Some (digits_value ds))"

definition strtol10 :: "string \<Rightarrow> int option" where
  "strtol10 s =
     (case dropWhile c_isspace s of
        [] \<Rightarrow> None
      | c # cs \<Rightarrow>
          if c = CHR ''-'' then map_option (\<lambda>n. - int n) (read_unsigned cs)
          else if c = CHR ''+'' then map_option int (read_unsigned cs)
          else map_option int (read_unsigned (c # cs)))"

definition stoi :: "string \<Rightarrow> int option" where
  "stoi s = (case strtol10 s of None \<Rightarrow> None
     | Some v \<Rightarrow> if - (2 ^ 31) \<le> v \<and> v < 2 ^ 31 then Some v else None)"

definition atoi :: "string \<Rightarrow> int" where
  "atoi s = (case strtol10 s of None \<Rightarrow> 0 | Some v \<Rightarrow> v)"

lemma byte_digit: "d < 10 \<Longrightarrow> byte (digit d) = 48 + d"
  by (simp add: digit_def)

lemma is_digit_digit [simp]: "d < 10 \<Longrightarrow> is_digit (digit d)"
  by (simp add: is_digit_def byte_digit)

lemma digits_value_snoc: "digits_value (ds @ [c]) = 10 * digits_value ds + (byte c - 48)"
  by (simp add: digits_value_def)

lemma to_string_nat_digits: "list_all is_digit (to_string_nat n)"
  by (induction n rule: to_string_nat.induct) (subst to_string_nat.simps, simp)

lemma digits_value_to_string [simp]: "digits_value (to_string_nat n) = n"
proof (induction n rule: to_string_nat.induct)
  case (1 n)
  then show ?case
    by (subst to_string_nat.simps) (simp add: digits_value_snoc byte_digit digits_value_def)
qed

lemma read_unsigned_to_string: "read_unsigned (to_string_nat n) = Some n"
proof -
  have "takeWhile is_digit (to_string_nat n) = to_string_nat n"
    using to_string_nat_digits [of n] by (simp add: takeWhile_eq_all_conv list_all_iff)
  then show ?thesis by (simp add: read_unsigned_def Let_def del: takeWhile_eq_all_conv)
qed

lemma digit_no_space: "is_digit c \<Longrightarrow> \<not> c_isspace c \<and> c \<noteq> CHR ''-'' \<and> c \<noteq> CHR ''+''"
  by (auto simp: is_digit_def c_isspace_def)

lemma strtol10_to_string [simp]: "strtol10 (to_string_int i) = Some i"
proof (cases "i < 0")
  case True
  then show ?thesis
    by (simp add: strtol10_def to_string_int_def read_unsigned_to_string c_isspace_def)
next
  case False
  obtain c cs where e: "to_string_nat (nat i) = c # cs"
    using to_string_nat_nonempty [of "nat i"] by (cases "to_string_nat (nat i)") auto
  with to_string_nat_digits [of "nat i"] have "is_digit c" by simp
  then have "\<not> c_isspace c" "c \<noteq> CHR ''-''" "c \<noteq> CHR ''+''" using digit_no_space by auto
  with False e read_unsigned_to_string [of "nat i"] show ?thesis
    by (simp add: strtol10_def to_string_int_def)
qed

lemma atoi_to_string [simp]: "atoi (to_string_int i) = i"
  by (simp add: atoi_def)

lemma to_string_int_nonempty [simp]: "to_string_int i \<noteq> []"
  by (simp add: to_string_int_def)

text \<open>
  Floating-point arithmetic: a \<open>float\<close> or \<open>double\<close> is the rational it denotes, and every
  operation rounds its exact result to 24 or 53 significant bits, ties to even. The engine's
  numbers are counts, times and byte sizes of at most \<open>2\<^sup>3\<^sup>1\<close> and fractions of them, so overflow and subnormal numbers do not arise.
\<close>

fun bits :: "nat \<Rightarrow> nat" where
  "bits n = (if n = 0 then 0 else Suc (bits (n div 2)))"

declare bits.simps [simp del]

definition pow2 :: "int \<Rightarrow> rat" where
  "pow2 e = (if e \<ge> 0 then 2 ^ nat e else 1 / 2 ^ nat (- e))"

definition round_even :: "rat \<Rightarrow> int" where
  "round_even x =
     (let n = \<lfloor>x\<rfloor>; r = x - of_int n in
      if r < 1 / 2 then n else if r > 1 / 2 then n + 1 else if even n then n else n + 1)"

definition round_sig :: "nat \<Rightarrow> rat \<Rightarrow> rat" where
  "round_sig b x =
     (if x = 0 then 0 else
      let (p, q) = quotient_of \<bar>x\<bar>;
          e0 = int (bits (nat p)) - int (bits (nat q)) - int b;
          e = (if \<bar>x\<bar> / pow2 e0 < 2 ^ b then e0 else e0 + 1);
          e' = (if \<bar>x\<bar> / pow2 e < 2 ^ (b - 1) then e - 1 else e)
      in of_int (round_even (x / pow2 e')) * pow2 e')"

definition f32 :: "rat \<Rightarrow> rat" where
  "f32 x = round_sig 24 x"

definition f64 :: "rat \<Rightarrow> rat" where
  "f64 x = round_sig 53 x"

text \<open>\<open>std::to_string\<close> of a float: six decimals.\<close>

definition to_string_float :: "rat \<Rightarrow> string" where
  "to_string_float x =
     (let n = nat (round_even (\<bar>x\<bar> * 1000000)); frac = to_string_nat (n mod 1000000)
      in (if x < 0 then ''-'' else []) @ to_string_nat (n div 1000000) @ ''.'' @ replicate (6 - length frac) (CHR ''0'') @ frac)"

text \<open>\<open>static_cast<int>\<close> of a \<open>float\<close>: towards zero.\<close>

definition trunc_int :: "rat \<Rightarrow> int" where
  "trunc_int x = (if x \<ge> 0 then \<lfloor>x\<rfloor> else - \<lfloor>- x\<rfloor>)"

subsection \<open>Texts of the C interface\<close>

lemma c_string_append: "CHR 0x00 \<notin> set x \<Longrightarrow> c_string (x @ y) = x @ c_string y"
  by (induction x) (auto simp: c_string_def)

lemma c_string_whole: "CHR 0x00 \<notin> set x \<Longrightarrow> c_string x = x"
  using c_string_append [of x "[]"] by (simp add: c_string_def)

subsection \<open>Association lists as maps\<close>

lemma map_of_AList_update [simp]: "map_of (AList.update k v m) = (map_of m)(k \<mapsto> v)"
  by (rule AList.update_conv')

lemma map_of_AList_delete [simp]: "map_of (AList.delete k m) = (map_of m)(k := None)"
  by (simp add: AList.delete_conv')

lemma AList_update_new: "k \<notin> fst ` set m \<Longrightarrow> AList.update k v m = m @ [(k, v)]"
  by (induction m) auto

lemma distinct_AList_update [simp]:
  "distinct (map fst m) \<Longrightarrow> distinct (map fst (AList.update k v m))"
  by (rule AList.distinct_update)

lemma distinct_AList_delete [simp]:
  "distinct (map fst m) \<Longrightarrow> distinct (map fst (AList.delete k m))"
  by (rule AList.distinct_delete)

lemma fst_set_update: "fst ` set (AList.update k v m) = insert k (fst ` set m)"
  by (simp add: dom_map_of_conv_image_fst [symmetric])

lemma fst_set_delete: "fst ` set (AList.delete k m) = fst ` set m - {k}"
  by (auto simp: AList.delete_eq)

lemma set_AList_update_dist:
  "distinct (map fst m) \<Longrightarrow> set (AList.update k v m) = insert (k, v) {p \<in> set m. fst p \<noteq> k}"
  by (induction m) (auto simp: image_iff)

lemma set_AList_delete_filter: "set (AList.delete k m) = {p \<in> set m. fst p \<noteq> k}"
  by (auto simp: AList.delete_eq)

text \<open>
  A \<open>std::map\<close>: the association list in the order of its keys. \<open>m[k] = v\<close> replaces the entry or
  inserts it at its place.
\<close>

fun omap_put :: "'k::linorder \<Rightarrow> 'v \<Rightarrow> ('k \<times> 'v) list \<Rightarrow> ('k \<times> 'v) list" where
  "omap_put k v [] = [(k, v)]"
| "omap_put k v ((l, w) # m) =
     (if k = l then (k, v) # m else if k < l then (k, v) # (l, w) # m else (l, w) # omap_put k v m)"

definition omap_of :: "('k::linorder \<times> 'v) list \<Rightarrow> ('k \<times> 'v) list" where
  "omap_of kvs = foldl (\<lambda>m (k, v). omap_put k v m) [] kvs"

lemma map_of_omap_put [simp]: "map_of (omap_put k v m) = (map_of m)(k \<mapsto> v)"
  by (induction k v m rule: omap_put.induct) (auto simp: fun_eq_iff)

lemma omap_put_keys: "set (map fst (omap_put k v m)) = insert k (set (map fst m))"
  by (induction k v m rule: omap_put.induct) auto

lemma omap_put_sorted: "sorted_wrt (<) (map fst m) \<Longrightarrow> sorted_wrt (<) (map fst (omap_put k v m))"
proof (induction k v m rule: omap_put.induct)
  case (2 k v l w m)
  then show ?case using omap_put_keys [of k v m] by (auto simp: image_iff)
qed simp

lemma map_of_omap_fold:
  "map_of (foldl (\<lambda>m (k, v). omap_put k v m) m kvs) = map_of m ++ map_of (rev kvs)"
  by (induction kvs arbitrary: m) (auto simp: fun_eq_iff map_add_def split: option.split)

lemma map_of_omap_of: "map_of (omap_of kvs) = map_of (rev kvs)"
  by (simp add: omap_of_def map_of_omap_fold)

lemmas alist_simps = map_of_AList_update map_of_AList_delete
  distinct_AList_update distinct_AList_delete

subsection \<open>Error codes\<close>

text \<open>\<open>entropic_error_t\<close>, in the order of the enumeration.\<close>

datatype (plugins only: code size) entropic_error =
  ENTROPIC_OK
| ENTROPIC_ERROR_INVALID_ARGUMENT
| ENTROPIC_ERROR_INVALID_CONFIG
| ENTROPIC_ERROR_INVALID_STATE
| ENTROPIC_ERROR_MODEL_NOT_FOUND
| ENTROPIC_ERROR_LOAD_FAILED
| ENTROPIC_ERROR_GENERATE_FAILED
| ENTROPIC_ERROR_TOOL_NOT_FOUND
| ENTROPIC_ERROR_PERMISSION_DENIED
| ENTROPIC_ERROR_PLUGIN_VERSION_MISMATCH
| ENTROPIC_ERROR_PLUGIN_LOAD_FAILED
| ENTROPIC_ERROR_TIMEOUT
| ENTROPIC_ERROR_CANCELLED
| ENTROPIC_ERROR_OUT_OF_MEMORY
| ENTROPIC_ERROR_IO
| ENTROPIC_ERROR_INTERNAL
| ENTROPIC_ERROR_SERVER_ALREADY_EXISTS
| ENTROPIC_ERROR_SERVER_NOT_FOUND
| ENTROPIC_ERROR_CONNECTION_FAILED
| ENTROPIC_ERROR_INVALID_HANDLE
| ENTROPIC_ERROR_TOOL_EXECUTION_FAILED
| ENTROPIC_ERROR_STORAGE_FAILED
| ENTROPIC_ERROR_IDENTITY_NOT_FOUND
| ENTROPIC_ERROR_ALREADY_RUNNING
| ENTROPIC_ERROR_NOT_RUNNING
| ENTROPIC_ERROR_NOT_IMPLEMENTED
| ENTROPIC_ERROR_INTERRUPTED
| ENTROPIC_ERROR_ADAPTER_NOT_FOUND
| ENTROPIC_ERROR_ADAPTER_LOAD_FAILED
| ENTROPIC_ERROR_ADAPTER_SWAP_FAILED
| ENTROPIC_ERROR_ADAPTER_CANCELLED
| ENTROPIC_ERROR_GRAMMAR_NOT_FOUND
| ENTROPIC_ERROR_GRAMMAR_INVALID
| ENTROPIC_ERROR_MCP_KEY_DENIED
| ENTROPIC_ERROR_LIMIT_REACHED
| ENTROPIC_ERROR_ALREADY_EXISTS
| ENTROPIC_ERROR_IN_USE
| ENTROPIC_ERROR_PROFILE_NOT_FOUND
| ENTROPIC_ERROR_TIME_LIMIT_EXCEEDED
| ENTROPIC_ERROR_VALIDATION_FAILED
| ENTROPIC_ERROR_COMPACTION_FAILED
| ENTROPIC_ERROR_MODEL_NOT_ACTIVE
| ENTROPIC_ERROR_EVAL_CONTEXT_FULL
| ENTROPIC_ERROR_EVAL_FAILED
| ENTROPIC_ERROR_IMAGE_LOAD_FAILED
| ENTROPIC_ERROR_IMAGE_TOO_LARGE
| ENTROPIC_ERROR_MMPROJ_LOAD_FAILED
| ENTROPIC_ERROR_UNSUPPORTED_URL
| ENTROPIC_ERROR_NOT_SUPPORTED
| ENTROPIC_ERROR_STATE_INCOMPATIBLE
| ENTROPIC_ERROR_NO_VISION_TIER
| ENTROPIC_ERROR_QUEUE_FULL
| ENTROPIC_ERROR_SPECULATIVE_INCOMPATIBLE_ARCH
| ENTROPIC_ERROR_TIER_MODEL_TOO_LARGE
| ENTROPIC_ERROR_SPECULATIVE_INCOMPATIBLE_CONFIG
| ENTROPIC_ERROR_MLOCK_LIMIT_EXCEEDED
| ENTROPIC_ERROR_TURN_FAILED

end
