(* ===== verification/Core_Types.thy ===== *)
theory Core_Types
  imports Prelude
begin

text \<open>
  The data that crosses the engine's libraries (\<open>include/entropic/types\<close>): messages and
  their multimodal parts, tool calls, agent states and access levels, with the small
  functions of \<open>src/types\<close> on them. A message's metadata is an \<open>unordered_map\<close>, so an
  association list.
\<close>

datatype content_part_type = TEXT | IMAGE

record content_part =
  part_type :: content_part_type
  part_text :: string
  image_path :: string
  image_url :: string
  part_width :: int
  part_height :: int

record message =
  role :: string
  content :: string
  content_parts :: "content_part list"
  metadata :: "(string \<times> string) list"

record tool_call =
  call_id :: string
  call_name :: string
  call_arguments :: "(string \<times> string) list"
  arguments_json :: string

definition text_message :: "string \<Rightarrow> string \<Rightarrow> message" where
  "text_message r c = \<lparr>role = r, content = c, content_parts = [], metadata = []\<rparr>"

definition meta :: "message \<Rightarrow> string \<Rightarrow> string option" where
  "meta m k = map_of (metadata m) k"

fun extract_text_loop :: "string \<Rightarrow> content_part list \<Rightarrow> string" where
  "extract_text_loop result [] = result"
| "extract_text_loop result (p # ps) =
     (if part_type p \<noteq> TEXT then extract_text_loop result ps
      else extract_text_loop ((if result \<noteq> [] then result @ '' '' else result) @ part_text p) ps)"

definition extract_text :: "content_part list \<Rightarrow> string" where
  "extract_text parts = extract_text_loop [] parts"

definition has_images :: "content_part list \<Rightarrow> bool" where
  "has_images parts = list_ex (\<lambda>p. part_type p = IMAGE) parts"

lemma has_images_iff: "has_images parts \<longleftrightarrow> \<not> list_all (\<lambda>p. part_type p = TEXT) parts"
  by (induction parts) (auto simp: has_images_def, (metis content_part_type.exhaust)+)

subsection \<open>Agent states\<close>

datatype agent_state =
  IDLE | PLANNING | EXECUTING | WAITING_TOOL | VERIFYING | DELEGATING
| COMPLETE | ERROR | INTERRUPTED | PAUSED

subsection \<open>Access levels\<close>

datatype mcp_access_level = NONE | READ | WRITE

text \<open>The enumerators' values 0, 1, 2 order the levels.\<close>

fun level_value :: "mcp_access_level \<Rightarrow> nat" where
  "level_value NONE = 0"
| "level_value READ = 1"
| "level_value WRITE = 2"

lemma level_value_inject [simp]: "level_value a = level_value b \<longleftrightarrow> a = b"
  by (cases a; cases b) simp_all

instantiation mcp_access_level :: linorder
begin

definition less_eq_mcp_access_level :: "mcp_access_level \<Rightarrow> mcp_access_level \<Rightarrow> bool" where
  "less_eq_mcp_access_level a b \<longleftrightarrow> level_value a \<le> level_value b"

definition less_mcp_access_level :: "mcp_access_level \<Rightarrow> mcp_access_level \<Rightarrow> bool" where
  "less_mcp_access_level a b \<longleftrightarrow> level_value a < level_value b"

instance
  by standard (auto simp: less_eq_mcp_access_level_def less_mcp_access_level_def)

end

lemma NONE_least [simp]: "NONE \<le> l"
  by (simp add: less_eq_mcp_access_level_def)

definition mcp_access_level_name :: "mcp_access_level \<Rightarrow> string" where
  "mcp_access_level_name l = [''NONE'', ''READ'', ''WRITE''] ! level_value l"

fun level_table_lookup :: "string \<Rightarrow> (string \<times> mcp_access_level) list \<Rightarrow> mcp_access_level option" where
  "level_table_lookup name [] = None"
| "level_table_lookup name ((s, l) # es) = (if name = s then Some l else level_table_lookup name es)"

definition parse_mcp_access_level :: "string \<Rightarrow> mcp_access_level option" where
  "parse_mcp_access_level name =
     level_table_lookup name [(''WRITE'', WRITE), (''READ'', READ), (''NONE'', NONE)]"

lemma parse_level_name [simp]: "parse_mcp_access_level (mcp_access_level_name l) = Some l"
  by (cases l) (simp_all add: parse_mcp_access_level_def mcp_access_level_name_def)

end
