(* ===== verification/Engine_Types.thy ===== *)
theory Engine_Types
  imports Core_Types
begin

text \<open>
  The engine's shared state (\<open>include/entropic/core/engine_types.h\<close>): the loop configuration,
  the loop metrics, pending delegations and pipelines, and the loop context every part of the
  agentic loop reads and updates. Times are \<open>double\<close> seconds; the model keeps the rational they
  denote.
\<close>

datatype interrupt_mode = CANCEL | PAUSE | INJECT

datatype tool_approval = DENY | ALLOW | ALWAYS_DENY | ALWAYS_ALLOW

datatype budget_mode = budget_off | budget_tokens | budget_wall_clock

record loop_config =
  max_iterations :: int
  max_consecutive_errors :: int
  max_tool_calls_per_turn :: int
  idle_timeout_seconds :: int
  context_length :: int
  require_plan_for_complex :: bool
  stream_output :: bool
  speculative_enabled :: bool
  delegation_isolation :: bool
  auto_approve_tools :: bool
  max_consecutive_same_tool :: int
  max_consecutive_same_tool_hard_block :: int
  max_identical_failures :: int
  max_consecutive_failed_delegations :: int
  max_tool_result_bytes :: int
  message_queue_capacity :: int
  budget_mode :: budget_mode
  budget_limit :: int

definition default_loop_config :: loop_config where
  "default_loop_config = \<lparr>max_iterations = 15, max_consecutive_errors = 3,
     max_tool_calls_per_turn = 10, idle_timeout_seconds = 300, context_length = 16384,
     require_plan_for_complex = True, stream_output = True, speculative_enabled = False,
     delegation_isolation = False, auto_approve_tools = False, max_consecutive_same_tool = 5,
     max_consecutive_same_tool_hard_block = - 1, max_identical_failures = 3,
     max_consecutive_failed_delegations = 2, max_tool_result_bytes = 16384,
     message_queue_capacity = 8, budget_mode = budget_off, budget_limit = 0\<rparr>"

record loop_metrics =
  iterations :: int
  tool_calls :: int
  tokens_used :: int
  errors :: int
  start_time :: rat
  end_time :: rat

definition default_metrics :: loop_metrics where
  "default_metrics = \<lparr>iterations = 0, tool_calls = 0, tokens_used = 0, errors = 0,
     start_time = 0, end_time = 0\<rparr>"

record context_ref =
  ref_path :: string
  ref_lines :: string
  ref_note :: string

record pending_delegation =
  target :: string
  task :: string
  max_turns :: int
  resume_from_delegation_id :: string
  delegation_context :: "context_ref list"
  resume_by_target :: bool

record pending_pipeline =
  stages :: "string list"
  pipeline_task :: string
  pipeline_context :: "context_ref list"

record child_context_info =
  info_system_prompt :: string
  allowed_tools :: "string list"
  explicit_completion :: bool
  completion_instructions :: string
  info_valid :: bool
  max_iterations_override :: int
  max_tool_calls_per_turn_override :: int
  max_consecutive_empty_turns_override :: int

definition default_child_info :: child_context_info where
  "default_child_info = \<lparr>info_system_prompt = [], allowed_tools = [], explicit_completion = False,
     completion_instructions = [], info_valid = False, max_iterations_override = - 1,
     max_tool_calls_per_turn_override = - 1, max_consecutive_empty_turns_override = - 1\<rparr>"

record loop_context =
  messages :: "message list"
  pending_tool_calls :: "tool_call list"
  ctx_state :: agent_state
  metrics :: loop_metrics
  consecutive_errors :: int
  consecutive_duplicate_attempts :: int
  effective_tool_calls :: int
  has_pending_tool_results :: bool
  locked_tier :: string
  task_id :: string
  session_key :: string
  active_root :: string
  conversation_id :: string
  ctx_source :: string
  base_system :: string
  ctx_metadata :: "(string \<times> string) list"
  delegation_depth :: int
  delegation_ancestor_tiers :: "string list"
  parent_conversation_id :: string
  child_conversation_ids :: "string list"
  active_phase :: string
  recent_tool_calls :: "(string \<times> string) list"
  failed_tool_calls :: "(string \<times> int) list"
  ctx_pending_delegation :: "pending_delegation option"
  ctx_pending_pipeline :: "pending_pipeline option"
  effective_max_iterations :: int
  effective_max_tool_calls_per_turn :: int
  delegated_max_turns :: int
  pending_validation_feedback :: string
  pending_anti_spiral_warning :: string
  last_tool_name :: string
  consecutive_same_tool_calls :: int
  budget_tokens_since_tool :: int
  budget_window_start_s :: rat
  budget_completion_nudged :: bool
  last_failed_delegation_target :: string
  consecutive_failed_delegations :: int

definition default_context :: loop_context where
  "default_context = \<lparr>messages = [], pending_tool_calls = [], ctx_state = IDLE,
     metrics = default_metrics, consecutive_errors = 0, consecutive_duplicate_attempts = 0,
     effective_tool_calls = 0, has_pending_tool_results = False, locked_tier = [], task_id = [],
     session_key = [], active_root = [], conversation_id = [], ctx_source = ''human'',
     base_system = [], ctx_metadata = [], delegation_depth = 0, delegation_ancestor_tiers = [],
     parent_conversation_id = [], child_conversation_ids = [], active_phase = ''default'',
     recent_tool_calls = [], failed_tool_calls = [], ctx_pending_delegation = None,
     ctx_pending_pipeline = None, effective_max_iterations = - 1,
     effective_max_tool_calls_per_turn = - 1, delegated_max_turns = - 1,
     pending_validation_feedback = [], pending_anti_spiral_warning = [], last_tool_name = [],
     consecutive_same_tool_calls = 0, budget_tokens_since_tool = 0, budget_window_start_s = 0,
     budget_completion_nudged = False, last_failed_delegation_target = [],
     consecutive_failed_delegations = 0\<rparr>"

text \<open>\<open>ctx.metadata.find(key)\<close> and \<open>ctx.metadata[key] = v\<close>.\<close>

definition ctx_meta :: "loop_context \<Rightarrow> string \<Rightarrow> string option" where
  "ctx_meta c k = map_of (ctx_metadata c) k"

definition set_ctx_meta :: "string \<Rightarrow> string \<Rightarrow> loop_context \<Rightarrow> loop_context" where
  "set_ctx_meta k v c = c\<lparr>ctx_metadata := AList.update k v (ctx_metadata c)\<rparr>"

definition push_message :: "message \<Rightarrow> loop_context \<Rightarrow> loop_context" where
  "push_message m c = c\<lparr>messages := messages c @ [m]\<rparr>"

lemma ctx_meta_set [simp]: "ctx_meta (set_ctx_meta k v c) k' = (if k' = k then Some v else ctx_meta c k')"
  by (simp add: ctx_meta_def set_ctx_meta_def)

lemma ctx_meta_messages [simp]: "ctx_meta (c\<lparr>messages := ms\<rparr>) k = ctx_meta c k"
  by (simp add: ctx_meta_def)

lemma push_message_meta [simp]: "ctx_meta (push_message m c) k = ctx_meta c k"
  by (simp add: ctx_meta_def push_message_def)

text \<open>The source's \<open>is_terminal_state\<close>.\<close>

definition is_terminal_state :: "loop_context \<Rightarrow> bool" where
  "is_terminal_state c \<longleftrightarrow> ctx_state c = COMPLETE \<or> ctx_state c = ERROR \<or> ctx_state c = INTERRUPTED"

subsection \<open>Directives\<close>

text \<open>
  The structs of \<open>include/entropic/core/directives.h\<close> are the constructors of a datatype, each
  under the type tag its constructor sets.
\<close>

datatype directive_data =
  StopProcessing
| TierChange string string
| Delegate pending_delegation
| Pipeline pending_pipeline
| Complete string bool string "string list"
| ClearSelfTodos
| InjectContext string string
| PruneMessages int
| ContextAnchor string string
| PhaseChange string
| NotifyPresenter string string

fun directive_type :: "directive_data \<Rightarrow> int" where
  "directive_type StopProcessing = 0"
| "directive_type (TierChange _ _) = 1"
| "directive_type (Delegate _) = 2"
| "directive_type (Pipeline _) = 3"
| "directive_type (Complete _ _ _ _) = 4"
| "directive_type ClearSelfTodos = 5"
| "directive_type (InjectContext _ _) = 6"
| "directive_type (PruneMessages _) = 7"
| "directive_type (ContextAnchor _ _) = 8"
| "directive_type (PhaseChange _) = 9"
| "directive_type (NotifyPresenter _ _) = 10"

end
