(* ===== verification/Hooks.thy ===== *)
theory Hooks
  imports Core_Types
begin

text \<open>
  The hook registry (\<open>src/core/hook_registry.cpp\<close>) and the directive processor that consults
  it (\<open>src/core/directives.cpp\<close>).

  A registered callback is code outside the engine: a C function pointer with a user-data
  pointer. The model takes its behaviour as a parameter \<open>run\<close>, which from the state \<open>'w\<close> of
  the outside world, the entry, the hook point and the input JSON gives the new world and the
  outcome: the callback threw, or returned a code and possibly a replacement JSON.
\<close>

subsection \<open>The registry\<close>

record hook_entry =
  callback :: nat
  user_data :: nat
  priority :: int

type_synonym hook_registry = "hook_entry list list"

datatype hook_outcome = Threw | Returned int "string option"

type_synonym 'w hook_run = "'w \<Rightarrow> hook_entry \<Rightarrow> int \<Rightarrow> string \<Rightarrow> 'w \<times> hook_outcome"

definition hook_count_max :: int where
  "hook_count_max = 24"

definition empty_registry :: hook_registry where
  "empty_registry = replicate (nat hook_count_max) []"

definition is_valid_point :: "int \<Rightarrow> bool" where
  "is_valid_point point \<longleftrightarrow> point \<ge> 0 \<and> point < hook_count_max"

text \<open>\<open>std::lower_bound\<close> by priority on a vector sorted by priority, then \<open>insert\<close>.\<close>

definition insert_hook :: "hook_entry \<Rightarrow> hook_entry list \<Rightarrow> hook_entry list" where
  "insert_hook e vec =
     takeWhile (\<lambda>a. priority a < priority e) vec @ [e] @ dropWhile (\<lambda>a. priority a < priority e) vec"

definition register_hook ::
  "hook_registry \<Rightarrow> int \<Rightarrow> nat \<Rightarrow> nat \<Rightarrow> int \<Rightarrow> entropic_error \<times> hook_registry" where
  "register_hook reg point cb ud prio =
     (if \<not> is_valid_point point then (ENTROPIC_ERROR_INVALID_CONFIG, reg)
      else
        let idx = nat point;
            entry = \<lparr>callback = cb, user_data = ud, priority = prio\<rparr>
        in (ENTROPIC_OK, reg[idx := insert_hook entry (reg ! idx)]))"

text \<open>\<open>std::find_if\<close> followed by \<open>erase\<close>: the first entry with both pointers is removed.\<close>

fun erase_hook :: "nat \<Rightarrow> nat \<Rightarrow> hook_entry list \<Rightarrow> hook_entry list" where
  "erase_hook cb ud [] = []"
| "erase_hook cb ud (e # es) =
     (if callback e = cb \<and> user_data e = ud then es else e # erase_hook cb ud es)"

definition deregister_hook ::
  "hook_registry \<Rightarrow> int \<Rightarrow> nat \<Rightarrow> nat \<Rightarrow> entropic_error \<times> hook_registry" where
  "deregister_hook reg point cb ud =
     (if \<not> is_valid_point point then (ENTROPIC_ERROR_INVALID_CONFIG, reg)
      else (ENTROPIC_OK, reg[nat point := erase_hook cb ud (reg ! nat point)]))"

definition snapshot :: "hook_registry \<Rightarrow> int \<Rightarrow> hook_entry list" where
  "snapshot reg point = reg ! nat point"

text \<open>The dispatch loop of \<open>fire_pre\<close>, with \<open>acc\<close> the accumulated replacement.\<close>

fun fire_pre_loop ::
  "'w hook_run \<Rightarrow> int \<Rightarrow> string \<Rightarrow> 'w \<Rightarrow> string option \<Rightarrow> hook_entry list \<Rightarrow>
   'w \<times> int \<times> string option" where
  "fire_pre_loop run point ctx w acc [] = (w, 0, acc)"
| "fire_pre_loop run point ctx w acc (e # es) =
     (let input = (case acc of None \<Rightarrow> ctx | Some a \<Rightarrow> a) in
      case run w e point input of
        (w', Threw) \<Rightarrow> fire_pre_loop run point ctx w' acc es
      | (w', Returned rc modified) \<Rightarrow>
          if rc \<noteq> 0 then (w', rc, None)
          else fire_pre_loop run point ctx w'
                 (case modified of None \<Rightarrow> acc | Some m \<Rightarrow> Some m) es)"

definition fire_pre ::
  "'w hook_run \<Rightarrow> hook_registry \<Rightarrow> 'w \<Rightarrow> int \<Rightarrow> string \<Rightarrow> 'w \<times> int \<times> string option" where
  "fire_pre run reg w point ctx =
     (if \<not> is_valid_point point then (w, 0, None)
      else fire_pre_loop run point ctx w None (snapshot reg point))"

fun fire_post_loop ::
  "'w hook_run \<Rightarrow> int \<Rightarrow> string \<Rightarrow> 'w \<Rightarrow> string option \<Rightarrow> hook_entry list \<Rightarrow> 'w \<times> string option" where
  "fire_post_loop run point ctx w acc [] = (w, acc)"
| "fire_post_loop run point ctx w acc (e # es) =
     (let input = (case acc of None \<Rightarrow> ctx | Some a \<Rightarrow> a) in
      case run w e point input of
        (w', Threw) \<Rightarrow> fire_post_loop run point ctx w' acc es
      | (w', Returned rc modified) \<Rightarrow>
          fire_post_loop run point ctx w' (case modified of None \<Rightarrow> acc | Some m \<Rightarrow> Some m) es)"

definition fire_post ::
  "'w hook_run \<Rightarrow> hook_registry \<Rightarrow> 'w \<Rightarrow> int \<Rightarrow> string \<Rightarrow> 'w \<times> string option" where
  "fire_post run reg w point ctx =
     (if \<not> is_valid_point point then (w, None)
      else if snapshot reg point = [] then (w, None)
      else fire_post_loop run point ctx w None (snapshot reg point))"

fun fire_info_loop :: "'w hook_run \<Rightarrow> int \<Rightarrow> string \<Rightarrow> 'w \<Rightarrow> hook_entry list \<Rightarrow> 'w" where
  "fire_info_loop run point ctx w [] = w"
| "fire_info_loop run point ctx w (e # es) =
     fire_info_loop run point ctx (fst (run w e point ctx)) es"

definition fire_info :: "'w hook_run \<Rightarrow> hook_registry \<Rightarrow> 'w \<Rightarrow> int \<Rightarrow> string \<Rightarrow> 'w" where
  "fire_info run reg w point ctx =
     (if \<not> is_valid_point point then w else fire_info_loop run point ctx w (snapshot reg point))"

definition hook_count :: "hook_registry \<Rightarrow> int \<Rightarrow> nat" where
  "hook_count reg point = (if \<not> is_valid_point point then 0 else length (reg ! nat point))"

subsection \<open>Registry invariant\<close>

definition registry_inv :: "hook_registry \<Rightarrow> bool" where
  "registry_inv reg \<longleftrightarrow>
     length reg = nat hook_count_max \<and> list_all (\<lambda>vec. sorted (map priority vec)) reg"

lemma valid_point_index: "is_valid_point p \<Longrightarrow> registry_inv reg \<Longrightarrow> nat p < length reg"
  by (simp add: is_valid_point_def registry_inv_def)

lemma registry_inv_nth: "registry_inv reg \<Longrightarrow> i < length reg \<Longrightarrow> sorted (map priority (reg ! i))"
  by (simp add: registry_inv_def list_all_length)

lemma registry_inv_update:
  "registry_inv reg \<Longrightarrow> sorted (map priority v) \<Longrightarrow> registry_inv (reg[i := v])"
  by (cases "i < length reg")
     (auto simp: registry_inv_def list_all_length nth_list_update)

lemma sorted_insert_hook: "sorted (map priority vec) \<Longrightarrow> sorted (map priority (insert_hook e vec))"
proof -
  assume "sorted (map priority vec)"
  moreover have "map priority (insert_hook e vec) =
      takeWhile (\<lambda>p. p < priority e) (map priority vec) @ [priority e] @
      dropWhile (\<lambda>p. p < priority e) (map priority vec)"
    by (simp add: insert_hook_def takeWhile_map dropWhile_map o_def)
  moreover have "sorted xs \<Longrightarrow>
      sorted (takeWhile (\<lambda>p. p < x) xs @ [x] @ dropWhile (\<lambda>p. p < x) xs)" for x :: int and xs
    by (induction xs) (auto dest: set_takeWhileD set_dropWhileD)
  ultimately show ?thesis by simp
qed

lemma notin_erase_hook: "e \<in> set (erase_hook cb ud vec) \<Longrightarrow> e \<in> set vec"
  by (induction vec) (auto split: if_splits)

lemma sorted_erase_hook: "sorted (map priority vec) \<Longrightarrow> sorted (map priority (erase_hook cb ud vec))"
  by (induction vec) (auto dest: notin_erase_hook)

lemma empty_registry_inv [inv_intros]: "registry_inv empty_registry"
  by (simp add: registry_inv_def empty_registry_def list_all_iff)

lemma register_hook_inv [inv_intros]:
  "registry_inv reg \<Longrightarrow> registry_inv (snd (register_hook reg p cb ud prio))"
  using valid_point_index registry_inv_nth sorted_insert_hook registry_inv_update
  by (simp add: register_hook_def Let_def)

lemma deregister_hook_inv [inv_intros]:
  "registry_inv reg \<Longrightarrow> registry_inv (snd (deregister_hook reg p cb ud))"
  using valid_point_index registry_inv_nth sorted_erase_hook registry_inv_update
  by (simp add: deregister_hook_def)


subsection \<open>Firing a pre hook: a chain of callbacks\<close>

text \<open>
  A callback passes when it throws or returns zero. \<open>pass_step\<close> is one passing callback: it
  receives the latest replacement, or the original context when there is none.
\<close>

definition pass_step ::
  "'w hook_run \<Rightarrow> int \<Rightarrow> string \<Rightarrow> 'w \<times> string option \<Rightarrow> hook_entry \<Rightarrow> ('w \<times> string option) option" where
  "pass_step run point ctx s e =
     (case run (fst s) e point (case snd s of None \<Rightarrow> ctx | Some a \<Rightarrow> a) of
        (w', Threw) \<Rightarrow> Some (w', snd s)
      | (w', Returned rc m) \<Rightarrow>
          if rc = 0 then Some (w', case m of None \<Rightarrow> snd s | Some x \<Rightarrow> Some x) else None)"

fun pass_all ::
  "'w hook_run \<Rightarrow> int \<Rightarrow> string \<Rightarrow> 'w \<times> string option \<Rightarrow> hook_entry list \<Rightarrow> ('w \<times> string option) option" where
  "pass_all run point ctx s [] = Some s"
| "pass_all run point ctx s (e # es) =
     (case pass_step run point ctx s e of None \<Rightarrow> None | Some s' \<Rightarrow> pass_all run point ctx s' es)"

definition cancels ::
  "'w hook_run \<Rightarrow> int \<Rightarrow> string \<Rightarrow> 'w \<times> string option \<Rightarrow> hook_entry \<Rightarrow> 'w \<Rightarrow> int \<Rightarrow> bool" where
  "cancels run point ctx s e w' rc \<longleftrightarrow> rc \<noteq> 0 \<and>
     (\<exists>m. run (fst s) e point (case snd s of None \<Rightarrow> ctx | Some a \<Rightarrow> a) = (w', Returned rc m))"

lemma pass_or_cancel:
  "(\<exists>s'. pass_step run point ctx s e = Some s') \<noteq> (\<exists>w' rc. cancels run point ctx s e w' rc)"
  by (auto simp: pass_step_def cancels_def split: prod.splits hook_outcome.splits)

lemma fire_pre_loop_pass:
  "pass_step run point ctx (w, acc) e = Some (w', acc') \<Longrightarrow>
   fire_pre_loop run point ctx w acc (e # es) = fire_pre_loop run point ctx w' acc' es"
  by (auto simp: pass_step_def Let_def split: prod.splits hook_outcome.splits if_splits option.splits)

lemma fire_pre_loop_cancel:
  "cancels run point ctx (w, acc) e w' rc \<Longrightarrow>
   fire_pre_loop run point ctx w acc (e # es) = (w', rc, None)"
  by (auto simp: cancels_def)

lemma fire_pre_loop_spec:
  "fire_pre_loop run point ctx w acc es = (w', rc, out) \<Longrightarrow>
   (rc = 0 \<and> pass_all run point ctx (w, acc) es = Some (w', out)) \<or>
   (rc \<noteq> 0 \<and> out = None \<and> (\<exists>pre e post s. es = pre @ e # post \<and>
      pass_all run point ctx (w, acc) pre = Some s \<and> cancels run point ctx s e w' rc))"
proof (induction es arbitrary: w acc)
  case Nil
  then show ?case by simp
next
  case (Cons e es)
  show ?case
  proof (cases "pass_step run point ctx (w, acc) e")
    case None
    then obtain w1 rc1 where c: "cancels run point ctx (w, acc) e w1 rc1"
      using pass_or_cancel by (metis option.distinct(1))
    with Cons.prems have "w' = w1" "rc = rc1" "out = None"
      by (simp_all add: fire_pre_loop_cancel del: fire_pre_loop.simps)
    with c show ?thesis
      by (intro disjI2 conjI exI [of _ "[]"] exI [of _ e] exI [of _ es]) (auto simp: cancels_def)
  next
    case (Some s)
    obtain w1 acc1 where s: "s = (w1, acc1)" by (cases s)
    with Some Cons.prems have "fire_pre_loop run point ctx w1 acc1 es = (w', rc, out)"
      by (simp add: fire_pre_loop_pass del: fire_pre_loop.simps)
    from Cons.IH [OF this] show ?thesis
    proof (elim disjE conjE exE)
      assume "rc = 0" "pass_all run point ctx (w1, acc1) es = Some (w', out)"
      with Some s show ?thesis by simp
    next
      fix pre e' post s'
      assume "rc \<noteq> 0" "out = None" "es = pre @ e' # post"
        "pass_all run point ctx (w1, acc1) pre = Some s'" "cancels run point ctx s' e' w' rc"
      with Some s show ?thesis
        by (intro disjI2 conjI exI [of _ "e # pre"] exI [of _ e'] exI [of _ post] exI [of _ s']) simp_all
    qed
  qed
qed

subsection \<open>The contract a client of the registry relies on\<close>

text \<open>
  What the directive processor and the context manager need of the hook interface they are
  given: a silent point (no callback) always lets the operation proceed without touching the
  world, and a cancelled operation carries no replacement.
\<close>

locale pre_hook =
  fixes fire :: "'w \<Rightarrow> int \<Rightarrow> string \<Rightarrow> 'w \<times> int \<times> string option"
    and silent :: "int \<Rightarrow> bool"
  assumes silent_proceeds: "silent p \<Longrightarrow> fire w p c = (w, 0, None)"
    and cancel_no_output: "fire w p c = (w', rc, out) \<Longrightarrow> rc \<noteq> 0 \<Longrightarrow> out = None"
begin

lemma cancelled_not_silent: "fire w p c = (w', rc, out) \<Longrightarrow> rc \<noteq> 0 \<Longrightarrow> \<not> silent p"
  using silent_proceeds by auto

end

interpretation registry: pre_hook "fire_pre run reg" "\<lambda>p. hook_count reg p = 0"
  for run :: "'w hook_run" and reg
proof
  fix p w c
  assume "hook_count reg p = 0"
  then show "fire_pre run reg w p c = (w, 0, None)"
    by (auto simp: hook_count_def fire_pre_def snapshot_def split: if_splits)
next
  fix w p c w' rc out
  assume "fire_pre run reg w p c = (w', rc, out)" "rc \<noteq> 0"
  then show "out = None"
    by (auto simp: fire_pre_def dest: fire_pre_loop_spec split: if_splits)
qed


subsection \<open>The directive processor\<close>

record directive_result =
  stop_processing :: bool
  tier_changed :: bool
  injected_messages :: "message list"

definition default_directive_result :: directive_result where
  "default_directive_result =
     \<lparr>stop_processing = False, tier_changed = False, injected_messages = []\<rparr>"

text \<open>A directive is its type tag and its payload; a handler updates the context and the result.\<close>

type_synonym 'd directive = "int \<times> 'd"
type_synonym ('c, 'd) directive_handler = "'c \<Rightarrow> 'd directive \<Rightarrow> directive_result \<Rightarrow> 'c \<times> directive_result"
type_synonym 'w fire_pre_fn = "'w \<Rightarrow> int \<Rightarrow> string \<Rightarrow> 'w \<times> int \<times> string option"

definition ENTROPIC_HOOK_ON_DIRECTIVE :: int where
  "ENTROPIC_HOOK_ON_DIRECTIVE = 18"

definition ENTROPIC_HOOK_ON_CUSTOM_DIRECTIVE :: int where
  "ENTROPIC_HOOK_ON_CUSTOM_DIRECTIVE = 19"

definition register_handler ::
  "(int \<times> ('c, 'd) directive_handler) list \<Rightarrow> int \<Rightarrow> ('c, 'd) directive_handler \<Rightarrow>
   (int \<times> ('c, 'd) directive_handler) list" where
  "register_handler handlers dtype h = AList.update dtype h handlers"

text \<open>\<open>fire_directive_hook\<close>; \<^const>\<open>None\<close> is the interface without a \<open>fire_pre\<close> pointer.\<close>

definition fire_directive_hook ::
  "'w fire_pre_fn option \<Rightarrow> 'w \<Rightarrow> 'd directive \<Rightarrow> bool \<Rightarrow> 'w \<times> bool" where
  "fire_directive_hook fire w d has_handler =
     (case fire of None \<Rightarrow> (w, True)
      | Some f \<Rightarrow>
          let point = (if has_handler then ENTROPIC_HOOK_ON_DIRECTIVE
                       else ENTROPIC_HOOK_ON_CUSTOM_DIRECTIVE);
              json = ''{'' @ [CHR 0x22] @ ''type'' @ [CHR 0x22] @ '':'' @ to_string_int (fst d) @ ''}''
          in case f w point json of (w', rc, _) \<Rightarrow> (w', rc = 0))"

fun process_directives ::
  "'w fire_pre_fn option \<Rightarrow> (int \<times> ('c, 'd) directive_handler) list \<Rightarrow> 'w \<Rightarrow> 'c \<Rightarrow>
   directive_result \<Rightarrow> 'd directive option list \<Rightarrow> 'w \<times> 'c \<times> directive_result" where
  "process_directives fire handlers w c result [] = (w, c, result)"
| "process_directives fire handlers w c result (None # ds) =
     process_directives fire handlers w c result ds"
| "process_directives fire handlers w c result (Some d # ds) =
     (let h = map_of handlers (fst d) in
      case fire_directive_hook fire w d (h \<noteq> None) of
        (w', False) \<Rightarrow> process_directives fire handlers w' c result ds
      | (w', True) \<Rightarrow>
          (case h of
             None \<Rightarrow> process_directives fire handlers w' c result ds
           | Some f \<Rightarrow>
               (case f c d result of (c', result') \<Rightarrow>
                  if stop_processing result' then (w', c', result')
                  else process_directives fire handlers w' c' result' ds)))"

definition process ::
  "'w fire_pre_fn option \<Rightarrow> (int \<times> ('c, 'd) directive_handler) list \<Rightarrow> 'w \<Rightarrow> 'c \<Rightarrow>
   'd directive option list \<Rightarrow> 'w \<times> 'c \<times> directive_result" where
  "process fire handlers w c ds = process_directives fire handlers w c default_directive_result ds"

text \<open>Processing without hooks: the handlers in order, up to the first that asks to stop.\<close>

fun run_handlers ::
  "(int \<times> ('c, 'd) directive_handler) list \<Rightarrow> 'c \<Rightarrow> directive_result \<Rightarrow> 'd directive list \<Rightarrow>
   'c \<times> directive_result" where
  "run_handlers handlers c result [] = (c, result)"
| "run_handlers handlers c result (d # ds) =
     (case map_of handlers (fst d) of
        None \<Rightarrow> run_handlers handlers c result ds
      | Some f \<Rightarrow> (case f c d result of (c', result') \<Rightarrow>
          if stop_processing result' then (c', result') else run_handlers handlers c' result' ds))"

lemma process_no_hooks:
  "process_directives None handlers w c result ds =
     (let (c', r') = run_handlers handlers c result (List.map_filter (\<lambda>x. x) ds) in (w, c', r'))"
  by (induction ds arbitrary: c result rule: list.induct)
     (auto simp: fire_directive_hook_def List.map_filter_simps Let_def split: option.splits prod.splits)

context pre_hook
begin

text \<open>With both directive points silent, a registered hook interface changes nothing.\<close>

lemma silent_directive_hook:
  assumes "silent ENTROPIC_HOOK_ON_DIRECTIVE" "silent ENTROPIC_HOOK_ON_CUSTOM_DIRECTIVE"
  shows "fire_directive_hook (Some fire) w d h = (w, True)"
  using assms silent_proceeds by (simp add: fire_directive_hook_def Let_def)

lemma silent_process:
  assumes "silent ENTROPIC_HOOK_ON_DIRECTIVE" "silent ENTROPIC_HOOK_ON_CUSTOM_DIRECTIVE"
  shows "process_directives (Some fire) handlers w c result ds = process_directives None handlers w c result ds"
proof (induction ds arbitrary: c result)
  case (Cons d ds)
  then show ?case
    by (cases d) (simp_all add: silent_directive_hook [OF assms] fire_directive_hook_def [of None]
        Let_def split: option.split prod.split)
qed simp

end

subsection \<open>Properties\<close>

text \<open>The operations a consumer performs on the registry, as data.\<close>

datatype registry_op = Register int nat nat int | Deregister int nat nat

fun registry_step :: "hook_registry \<Rightarrow> registry_op \<Rightarrow> hook_registry" where
  "registry_step reg (Register p cb ud prio) = snd (register_hook reg p cb ud prio)"
| "registry_step reg (Deregister p cb ud) = snd (deregister_hook reg p cb ud)"

lemma registry_step_inv [inv_intros]: "registry_inv reg \<Longrightarrow> registry_inv (registry_step reg op)"
  by (cases op) (simp_all add: inv_intros)

lemma registry_run_inv: "registry_inv reg \<Longrightarrow> registry_inv (foldl registry_step reg ops)"
  by (induction ops arbitrary: reg) (simp_all add: inv_intros)

text \<open>
  Claim C18. The registry stays well formed: starting empty, after any sequence of registrations
  and deregistrations (valid points or not) there is one vector per hook point and each is sorted
  by ascending priority, which is the order in which dispatch runs the callbacks.
\<close>

theorem registry_sorted:
  "registry_inv (foldl registry_step empty_registry ops)"
  by (rule registry_run_inv [OF empty_registry_inv])

text \<open>
  Pre-hook dispatch is a cancellable pipeline. Callbacks run in priority order, each on
  the latest replacement; a throwing callback is skipped. Either all of them pass and the caller
  gets code 0 with the last replacement, or the first callback that returns non-zero decides: the
  caller gets that code and no replacement, and no later callback runs.
\<close>

lemma fire_pre_pipeline:
  assumes "is_valid_point point" "fire_pre run reg w point ctx = (w', rc, out)"
  shows "(rc = 0 \<and> pass_all run point ctx (w, None) (snapshot reg point) = Some (w', out)) \<or>
    (rc \<noteq> 0 \<and> out = None \<and> (\<exists>pre e post s. snapshot reg point = pre @ e # post \<and>
      pass_all run point ctx (w, None) pre = Some s \<and> cancels run point ctx s e w' rc))"
  using assms by (intro fire_pre_loop_spec) (simp add: fire_pre_def)

lemma fire_pre_pipeline_witness:
  "let run = (\<lambda>w e p c. (w @ [callback e], if callback e = 2 then Returned 7 None else Returned 0 (Some ''m'')));
       reg = foldl registry_step empty_registry [Register 3 2 0 5, Register 3 1 0 0, Register 3 9 0 9]
   in fire_pre run reg [] 3 ''x'' = ([1, 2], 7, None)"
proof -
  let ?run = "\<lambda>w e p c. (w @ [callback e], if callback e = 2 then Returned 7 None else Returned 0 (Some ''m''))"
  let ?reg = "foldl registry_step empty_registry [Register 3 2 0 5, Register 3 1 0 0, Register 3 9 0 9]"
  have v: "is_valid_point 3" by (simp add: is_valid_point_def hook_count_max_def)
  have r: "fire_pre ?run ?reg [] 3 ''x'' = ([1, 2], 7, None)" by code_simp
  from fire_pre_pipeline [OF v r] r show ?thesis by simp
qed

text \<open>
  Directive processing with the real registry: when no hook is registered on the two
  directive points, the processor runs exactly the registered handlers in directive order (null
  directives and unknown types skipped) up to and including the first that sets
  \<open>stop_processing\<close>, and the hook callbacks' world is untouched.
\<close>

lemma process_without_hooks:
  assumes "hook_count reg ENTROPIC_HOOK_ON_DIRECTIVE = 0"
    and "hook_count reg ENTROPIC_HOOK_ON_CUSTOM_DIRECTIVE = 0"
  shows "process (Some (fire_pre run reg)) handlers w c ds =
    (let (c', r') = run_handlers handlers c default_directive_result (List.map_filter (\<lambda>x. x) ds)
     in (w, c', r'))"
  unfolding process_def
  by (simp only: registry.silent_process [OF assms] process_no_hooks)

lemma process_without_hooks_witness:
  "process (Some (fire_pre (\<lambda>w e p c. (w, Threw)) empty_registry))
     [(1::int, \<lambda>(c::nat) d r. (c + snd d, r\<lparr>stop_processing := c > 3\<rparr>))] () 0
     [Some (1, 2), None, Some (5, 9), Some (1, 4), Some (1, 1)] =
   ((), 7, \<lparr>stop_processing = True, tier_changed = False, injected_messages = []\<rparr>)"
proof -
  have h: "hook_count empty_registry ENTROPIC_HOOK_ON_DIRECTIVE = 0"
      "hook_count empty_registry ENTROPIC_HOOK_ON_CUSTOM_DIRECTIVE = 0"
    by code_simp+
  show ?thesis
    by (subst process_without_hooks [OF h]) (simp add: List.map_filter_simps default_directive_result_def)
qed

end
