(* ===== verification/Compaction.thy ===== *)
theory Compaction
  imports Engine_Types Hooks
begin

text \<open>
  Context compaction: the token counter and the compaction manager
  (\<open>src/core/compaction.cpp\<close>) and the context manager that drives them from the agentic loop
  (\<open>src/core/context_manager.cpp\<close>).

  Storage, hooks and callbacks are outside code: their effect is a parameter on the state \<open>'w\<close>
  of the outside world, \<^const>\<open>None\<close> standing for a null function pointer. The token cache
  that \<open>clear_cache\<close> once emptied no longer exists, so the call has no effect. Token counts are
  \<open>int\<close>s; a conversation of \<open>2\<^sup>3\<^sup>1\<close> bytes, where they would overflow, is out of reach.
\<close>

subsection \<open>Token counter\<close>

definition count_text :: "string \<Rightarrow> int" where
  "count_text text = (if text = [] then 0 else int (length text) div 4 + 1)"

definition count_message :: "message \<Rightarrow> int" where
  "count_message msg = count_text (content msg) + 4"

fun count_messages_loop :: "int \<Rightarrow> message list \<Rightarrow> int" where
  "count_messages_loop n [] = n"
| "count_messages_loop n (m # ms) = count_messages_loop (n + count_message m) ms"

definition count_messages :: "message list \<Rightarrow> int" where
  "count_messages ms = count_messages_loop 0 ms"

definition usage_percent :: "int \<Rightarrow> message list \<Rightarrow> rat" where
  "usage_percent max_tokens ms =
     (if max_tokens = 0 then 0
      else f32 (f32 (of_int (count_messages ms)) / f32 (of_int max_tokens)))"

subsection \<open>Compaction manager\<close>

record compaction_config =
  enabled :: bool
  threshold_percent :: rat
  preserve_recent_turns :: int
  summary_max_tokens :: int
  notify_user :: bool
  save_full_history :: bool
  tool_result_ttl :: int
  warning_threshold_percent :: rat

record compaction_result =
  compacted :: bool
  old_token_count :: int
  new_token_count :: int
  result_summary :: string
  preserved_messages :: int
  messages_summarized :: int
  result_messages :: "message list"
  result_identity :: string
  compactor_source :: string
  custom_compactor_used :: bool

definition default_result :: compaction_result where
  "default_result = \<lparr>compacted = False, old_token_count = 0, new_token_count = 0,
     result_summary = [], preserved_messages = 0, messages_summarized = 0, result_messages = [],
     result_identity = [], compactor_source = [], custom_compactor_used = False\<rparr>"

text \<open>The test \<open>partition_messages\<close> applies: the message carries \<open>source = user\<close>.\<close>

definition user_tagged :: "message \<Rightarrow> bool" where
  "user_tagged m \<longleftrightarrow> meta m ''source'' = Some ''user''"

fun partition_messages ::
  "message list \<Rightarrow> message list \<Rightarrow> message list \<Rightarrow> int \<Rightarrow> message list \<times> message list \<times> int" where
  "partition_messages [] us as n = (us, as, n)"
| "partition_messages (m # ms) us as n =
     (if user_tagged m then partition_messages ms (us @ [m]) as n
      else if role m = ''assistant'' then partition_messages ms us (as @ [m]) n
      else partition_messages ms us as (n + 1))"

definition assemble_compacted ::
  "message option \<Rightarrow> message \<Rightarrow> message list \<Rightarrow> message list \<Rightarrow> message list" where
  "assemble_compacted system_msg summary_msg user_msgs assistant_msgs =
     (case system_msg of None \<Rightarrow> [] | Some s \<Rightarrow> [s]) @ [summary_msg] @ user_msgs @
     (if assistant_msgs \<noteq> [] then [last assistant_msgs] else [])"

definition is_tool_result :: "message \<Rightarrow> bool" where
  "is_tool_result msg \<longleftrightarrow>
     starts_with (''Tool '' @ [CHR 0x60]) (content msg) \<or> meta msg ''source'' = Some ''tool''"

fun find_tagged :: "message list \<Rightarrow> string \<Rightarrow> string" where
  "find_tagged [] src = []"
| "find_tagged (m # ms) src = (if meta m ''source'' = Some src then content m else find_tagged ms src)"

fun find_first_user_task :: "message list \<Rightarrow> string" where
  "find_first_user_task [] = []"
| "find_first_user_task (m # ms) =
     (if role m \<noteq> ''user'' \<or> content m = [] then find_first_user_task ms
      else if is_tool_result m then find_first_user_task ms
      else content m)"

definition extract_original_task :: "message list \<Rightarrow> string" where
  "extract_original_task ms =
     (let t0 = find_tagged ms ''user'';
          t = (if t0 = [] then find_first_user_task ms else t0)
      in if t = [] then ''(no user message found)''
         else if length t > 500 then take 500 t @ ''...''
         else t)"

fun extract_tool_log :: "message list \<Rightarrow> (string \<times> string) list" where
  "extract_tool_log [] = []"
| "extract_tool_log (m # ms) =
     (case meta m ''tool_name'' of
        None \<Rightarrow> extract_tool_log ms
      | Some name \<Rightarrow>
          if starts_with ''[Previous:'' (content m) then (name, ''(pruned)'') # extract_tool_log ms
          else
            let n = (case find_char (CHR 0x0A) (content m) of None \<Rightarrow> 100 | Some nl \<Rightarrow> min nl 100)
            in (name, take n (content m)) # extract_tool_log ms)"

fun tool_log_lines :: "(string \<times> string) list \<Rightarrow> string" where
  "tool_log_lines [] = []"
| "tool_log_lines ((name, brief) # es) =
     [CHR 0x0A] @ ''- '' @ name @ '': '' @ brief @ tool_log_lines es"

definition structured_summary :: "message list \<Rightarrow> string" where
  "structured_summary ms =
     (let tool_log = extract_tool_log ms in
      ''Original task: '' @ extract_original_task ms @
      (if tool_log \<noteq> []
       then [CHR 0x0A, CHR 0x0A] @ ''Tool calls made (oldest first):'' @ tool_log_lines tool_log
       else []))"

definition format_summary :: "string \<Rightarrow> int \<Rightarrow> string" where
  "format_summary summary message_count =
     ''[CONVERSATION SUMMARY]'' @ [CHR 0x0A] @ ''The following summarizes '' @
     to_string_int message_count @
     '' previous messages that have been compacted to save context space.'' @ [CHR 0x0A, CHR 0x0A] @
     summary @ [CHR 0x0A, CHR 0x0A] @ ''[END SUMMARY - Recent conversation continues below]''"

definition compact :: "message list \<Rightarrow> message list \<times> string \<times> int" where
  "compact ms =
     (let has_system = (ms \<noteq> [] \<and> role (hd ms) = ''system'');
          system_msg = (if has_system then Some (hd ms) else None);
          working = (if has_system then tl ms else ms);
          (user_msgs, assistant_msgs, stripped) = partition_messages working [] [] 0;
          summary = structured_summary working;
          summary_msg = text_message ''user'' (format_summary summary (int (length working)))
      in (assemble_compacted system_msg summary_msg user_msgs assistant_msgs, summary, stripped))"

definition compact_messages :: "message list \<Rightarrow> compaction_result" where
  "compact_messages ms =
     (let old_count = count_messages ms;
          (out, summary, stripped) = compact ms
      in default_result\<lparr>compacted := True, old_token_count := old_count,
           new_token_count := count_messages out, result_summary := summary,
           preserved_messages := int (length out) - 1, messages_summarized := stripped,
           result_messages := out, compactor_source := ''default''\<rparr>)"

fun json_escape :: "string \<Rightarrow> string" where
  "json_escape [] = []"
| "json_escape (c # cs) =
     (if c = CHR 0x22 then [CHR 0x5C, CHR 0x22]
      else if c = CHR 0x5C then [CHR 0x5C, CHR 0x5C]
      else if c = CHR 0x0A then [CHR 0x5C, CHR ''n'']
      else [c]) @ json_escape cs"

fun serialize_messages_loop :: "bool \<Rightarrow> message list \<Rightarrow> string" where
  "serialize_messages_loop first [] = []"
| "serialize_messages_loop first (m # ms) =
     (if first then [] else '','') @
     ''{'' @ [CHR 0x22] @ ''role'' @ [CHR 0x22] @ '':'' @ [CHR 0x22] @ role m @
     [CHR 0x22] @ '','' @ [CHR 0x22] @ ''content'' @ [CHR 0x22] @ '':'' @ [CHR 0x22] @
     json_escape (content m) @ [CHR 0x22] @ ''}'' @ serialize_messages_loop False ms"

definition serialize_messages_json :: "message list \<Rightarrow> string" where
  "serialize_messages_json ms = ''['' @ serialize_messages_loop True ms @ '']''"

type_synonym 'w storage_save = "('w \<Rightarrow> string \<Rightarrow> string \<Rightarrow> 'w) option"

definition save_snapshot :: "'w storage_save \<Rightarrow> 'w \<Rightarrow> string \<Rightarrow> message list \<Rightarrow> 'w" where
  "save_snapshot storage w conv ms =
     (case storage of None \<Rightarrow> w | Some save \<Rightarrow> save w conv (serialize_messages_json ms))"

definition compaction_threshold :: "compaction_config \<Rightarrow> int \<Rightarrow> int" where
  "compaction_threshold cfg max_tokens =
     trunc_int (f32 (f32 (of_int max_tokens) * threshold_percent cfg))"

definition check_and_compact ::
  "compaction_config \<Rightarrow> int \<Rightarrow> 'w storage_save \<Rightarrow> 'w \<Rightarrow> message list \<Rightarrow> bool \<Rightarrow> string \<Rightarrow>
   'w \<times> message list \<times> compaction_result" where
  "check_and_compact cfg max_tokens storage w ms force conv =
     (let current = count_messages ms;
          unchanged = default_result\<lparr>old_token_count := current, new_token_count := current\<rparr>
      in
      if \<not> force \<and> current < compaction_threshold cfg max_tokens then (w, ms, unchanged)
      else if \<not> enabled cfg then (w, ms, unchanged)
      else
        let w' = (if save_full_history cfg \<and> conv \<noteq> [] then save_snapshot storage w conv ms else w);
            (out, summary, stripped) = compact ms
        in (w', out, default_result\<lparr>compacted := True, old_token_count := current,
              new_token_count := count_messages out, result_summary := summary,
              preserved_messages := int (length out) - 1, messages_summarized := stripped\<rparr>))"

subsection \<open>Context manager\<close>

definition refresh_context_limit :: "int \<Rightarrow> int \<Rightarrow> int" where
  "refresh_context_limit max_tokens new_length =
     (if new_length \<le> 0 then max_tokens
      else if new_length \<noteq> max_tokens then new_length else max_tokens)"

text \<open>The stub that replaces a pruned result; the dash is U+2014 in UTF-8.\<close>

definition prune_stub :: "string \<Rightarrow> int \<Rightarrow> string" where
  "prune_stub name chars =
     ''[Previous: '' @ name @ '' result '' @ [CHR 0xE2, CHR 0x80, CHR 0x94] @ '' '' @
     to_string_int chars @ '' chars, pruned]''"

definition is_stub :: "message \<Rightarrow> bool" where
  "is_stub m \<longleftrightarrow> starts_with ''[Previous:'' (content m)"

fun tool_indices :: "nat \<Rightarrow> message list \<Rightarrow> nat list" where
  "tool_indices i [] = []"
| "tool_indices i (m # ms) =
     (if meta m ''tool_name'' \<noteq> None then i # tool_indices (Suc i) ms else tool_indices (Suc i) ms)"

fun prune_loop :: "nat list \<Rightarrow> message list \<Rightarrow> int \<Rightarrow> int \<Rightarrow> message list \<times> int \<times> int" where
  "prune_loop [] ms pruned freed = (ms, pruned, freed)"
| "prune_loop (j # js) ms pruned freed =
     (let msg = ms ! j in
      if is_stub msg then prune_loop js ms pruned freed
      else
        let name = (case meta msg ''tool_name'' of None \<Rightarrow> ''unknown'' | Some n \<Rightarrow> n);
            chars = int (length (content msg))
        in prune_loop js (ms[j := msg\<lparr>content := prune_stub name chars\<rparr>])
             (pruned + 1) (freed + chars))"

definition prune_tool_results :: "loop_context \<Rightarrow> int \<Rightarrow> loop_context \<times> int \<times> int" where
  "prune_tool_results ctx keep_recent =
     (let indices = tool_indices 0 (messages ctx) in
      if keep_recent > 0 \<and> int (length indices) > keep_recent
      then
        let cut = length indices - nat keep_recent;
            (ms, pruned, freed) = prune_loop (take cut indices) (messages ctx) 0 0
        in (ctx\<lparr>messages := ms\<rparr>, pruned, freed)
      else (ctx, 0, 0))"

text \<open>
  One message of \<open>prune_old_tool_results\<close>: the guards in the code's order, then the original is
  kept under \<open>original_content\<close> and the content replaced by a stub.
\<close>

definition prune_old_message :: "int \<Rightarrow> int \<Rightarrow> message \<Rightarrow> message" where
  "prune_old_message current ttl msg =
     (case meta msg ''tool_name'' of
        None \<Rightarrow> msg
      | Some name \<Rightarrow>
          if is_stub msg then msg
          else case meta msg ''added_at_iteration'' of
            None \<Rightarrow> msg
          | Some ai \<Rightarrow>
              (case stoi ai of
                 None \<Rightarrow> msg
               | Some added \<Rightarrow>
                   if current - added < ttl then msg
                   else msg\<lparr>metadata := AList.update ''original_content'' (content msg) (metadata msg),
                            content := prune_stub name (int (length (content msg)))\<rparr>))"

definition prune_old_tool_results :: "compaction_config \<Rightarrow> int \<Rightarrow> loop_context \<Rightarrow> loop_context" where
  "prune_old_tool_results cfg max_tokens ctx =
     (if usage_percent max_tokens (messages ctx) < warning_threshold_percent cfg then ctx
      else ctx\<lparr>messages :=
             map (prune_old_message (iterations (metrics ctx)) (tool_result_ttl cfg)) (messages ctx)\<rparr>)"

definition inject_context_warning :: "compaction_config \<Rightarrow> int \<Rightarrow> loop_context \<Rightarrow> loop_context" where
  "inject_context_warning cfg max_tok ctx =
     (let usage = usage_percent max_tok (messages ctx);
          iter_str = to_string_int (iterations (metrics ctx))
      in
      if usage < warning_threshold_percent cfg then ctx
      else if ctx_meta ctx ''last_warning_iteration'' = Some iter_str then ctx
      else
        let cur_tok = count_messages (messages ctx);
            pct = trunc_int (f32 (usage * 100));
            warning = text_message ''user''
              (''[CONTEXT WARNING] Context at '' @ to_string_int pct @ ''% capacity ('' @
               to_string_int cur_tok @ ''/'' @ to_string_int max_tok @
               '' tokens). Capture findings with entropic.todo if needed,'' @
               '' then call entropic.prune_context.'')
        in set_ctx_meta ''last_warning_iteration'' iter_str (push_message warning ctx))"

definition ENTROPIC_HOOK_ON_PRE_COMPACT :: int where
  "ENTROPIC_HOOK_ON_PRE_COMPACT = 11"

definition ENTROPIC_HOOK_ON_POST_COMPACT :: int where
  "ENTROPIC_HOOK_ON_POST_COMPACT = 12"

text \<open>A JSON object of two members, as the hook payloads are spelled: quoted keys, raw values.\<close>

definition json_pair :: "string \<Rightarrow> string \<Rightarrow> string \<Rightarrow> string \<Rightarrow> string" where
  "json_pair k1 v1 k2 v2 =
     ''{'' @ [CHR 0x22] @ k1 @ [CHR 0x22] @ '':'' @ v1 @ '','' @ [CHR 0x22] @ k2 @ [CHR 0x22] @ '':'' @
     v2 @ ''}''"

definition fire_pre_compact_hook ::
  "'w fire_pre_fn option \<Rightarrow> 'w \<Rightarrow> loop_context \<Rightarrow> bool \<Rightarrow> 'w \<times> bool" where
  "fire_pre_compact_hook fire w ctx force =
     (case fire of None \<Rightarrow> (w, False)
      | Some f \<Rightarrow>
          let json = json_pair ''token_count'' (to_string_int (count_messages (messages ctx)))
                       ''force'' (if force then ''true'' else ''false'')
          in case f w ENTROPIC_HOOK_ON_PRE_COMPACT json of (w', rc, _) \<Rightarrow> (w', rc \<noteq> 0))"

text \<open>
  The outside code the context manager calls: the hook interface, the \<open>on_compaction\<close> callback,
  the \<open>after_compaction\<close> hook (which may edit the context) and the storage.
\<close>

record 'w compaction_env =
  env_fire_pre :: "'w fire_pre_fn option"
  env_fire_post :: "('w \<Rightarrow> int \<Rightarrow> string \<Rightarrow> 'w) option"
  env_on_compaction :: "('w \<Rightarrow> string \<Rightarrow> 'w) option"
  env_after_compaction :: "('w \<Rightarrow> loop_context \<Rightarrow> 'w \<times> loop_context) option"
  env_storage :: "'w storage_save"

definition fire_post_compact_hooks ::
  "'w compaction_env \<Rightarrow> 'w \<Rightarrow> loop_context \<Rightarrow> int \<Rightarrow> int \<Rightarrow> 'w \<times> loop_context" where
  "fire_post_compact_hooks env w ctx old_count new_count =
     (let w1 = (case env_on_compaction env of None \<Rightarrow> w
                | Some cb \<Rightarrow> cb w (json_pair ''old'' (to_string_int old_count) ''new'' (to_string_int new_count)));
          w2 = (case env_fire_post env of None \<Rightarrow> w1
                | Some f \<Rightarrow> f w1 ENTROPIC_HOOK_ON_POST_COMPACT
                     (json_pair ''tokens_before'' (to_string_int old_count)
                        ''tokens_after'' (to_string_int new_count)))
      in case env_after_compaction env of None \<Rightarrow> (w2, ctx) | Some f \<Rightarrow> f w2 ctx)"

definition check_compaction ::
  "compaction_config \<Rightarrow> int \<Rightarrow> 'w compaction_env \<Rightarrow> 'w \<Rightarrow> loop_context \<Rightarrow> bool \<Rightarrow> 'w \<times> loop_context" where
  "check_compaction cfg max_tokens env w ctx force =
     (case fire_pre_compact_hook (env_fire_pre env) w ctx force of
        (w1, True) \<Rightarrow> (w1, ctx)
      | (w1, False) \<Rightarrow>
          (case check_and_compact cfg max_tokens (env_storage env) w1 (messages ctx) force
                  (conversation_id ctx) of
             (w2, ms, result) \<Rightarrow>
               if compacted result
               then fire_post_compact_hooks env w2 (ctx\<lparr>messages := ms\<rparr>)
                      (old_token_count result) (new_token_count result)
               else (w2, ctx\<lparr>messages := ms\<rparr>)))"

subsection \<open>What compaction keeps\<close>

lemma partition_messages_eq:
  "partition_messages ms us as n =
     (us @ filter user_tagged ms,
      as @ filter (\<lambda>m. \<not> user_tagged m \<and> role m = ''assistant'') ms,
      n + int (length (filter (\<lambda>m. \<not> user_tagged m \<and> role m \<noteq> ''assistant'') ms)))"
  by (induction ms arbitrary: us as n) auto

lemma count_messages_loop_sum: "count_messages_loop n ms = n + sum_list (map count_message ms)"
  by (induction ms arbitrary: n) auto

lemma count_messages_sum: "count_messages ms = sum_list (map count_message ms)"
  by (simp add: count_messages_def count_messages_loop_sum)

lemma count_text_nonneg [simp]: "count_text t \<ge> 0"
  by (simp add: count_text_def)

lemma count_messages_nonneg: "count_messages ms \<ge> 0"
  by (auto simp: count_messages_sum count_message_def intro!: sum_list_nonneg)

lemma text_message_not_tagged [simp]: "\<not> user_tagged (text_message r c)"
  by (simp add: user_tagged_def meta_def text_message_def)

text \<open>The system prompt, if the conversation starts with one, and the messages after it.\<close>

definition system_part :: "message list \<Rightarrow> message list" where
  "system_part ms = (if ms \<noteq> [] \<and> role (hd ms) = ''system'' then [hd ms] else [])"

definition working_part :: "message list \<Rightarrow> message list" where
  "working_part ms = (if ms \<noteq> [] \<and> role (hd ms) = ''system'' then tl ms else ms)"

definition last_reply :: "message list \<Rightarrow> message list" where
  "last_reply ms =
     (let as = filter (\<lambda>m. \<not> user_tagged m \<and> role m = ''assistant'') ms
      in if as = [] then [] else [last as])"

definition summary_message :: "message list \<Rightarrow> message" where
  "summary_message ms =
     text_message ''user'' (format_summary (structured_summary ms) (int (length ms)))"

lemma system_working: "system_part ms @ working_part ms = ms"
  by (cases ms) (auto simp: system_part_def working_part_def)

lemma compact_parts:
  "compact ms =
     (system_part ms @ [summary_message (working_part ms)] @ filter user_tagged (working_part ms) @
        last_reply (working_part ms),
      structured_summary (working_part ms),
      int (length (filter (\<lambda>m. \<not> user_tagged m \<and> role m \<noteq> ''assistant'') (working_part ms))))"
proof (cases "ms \<noteq> [] \<and> role (hd ms) = ''system''")
  case True
  then show ?thesis
    by (simp add: compact_def Let_def partition_messages_eq assemble_compacted_def system_part_def
        working_part_def last_reply_def summary_message_def)
next
  case False
  then have "system_part ms = []" "working_part ms = ms"
    by (simp_all only: system_part_def working_part_def False if_False)
  with False show ?thesis
    by (simp only: compact_def Let_def if_False partition_messages_eq)
       (simp add: assemble_compacted_def last_reply_def summary_message_def Let_def)
qed

lemma last_filter: "filter P xs \<noteq> [] \<Longrightarrow> P (last (filter P xs))"
  by (induction xs) (auto split: if_splits)

lemma last_reply_untagged: "filter user_tagged (last_reply ms) = []"
proof -
  let ?as = "filter (\<lambda>m. \<not> user_tagged m \<and> role m = ''assistant'') ms"
  have "?as \<noteq> [] \<Longrightarrow> \<not> user_tagged (last ?as)" using last_filter by blast
  then show ?thesis by (cases "?as = []") (simp_all add: last_reply_def Let_def del: filter_empty_conv)
qed

lemma compact_keeps_tagged: "filter user_tagged (fst (compact ms)) = filter user_tagged ms"
proof -
  have "filter user_tagged ms = filter user_tagged (system_part ms) @ filter user_tagged (working_part ms)"
    by (metis filter_append system_working)
  then show ?thesis
    by (simp add: compact_parts last_reply_untagged summary_message_def)
qed

lemma compact_keeps_system: "system_part (fst (compact ms)) = system_part ms"
  by (auto simp: compact_parts system_part_def summary_message_def text_message_def)

lemma check_and_compact_cases:
  "check_and_compact cfg mx st w ms force conv = (w', out, r) \<Longrightarrow>
     (out = ms \<and> \<not> compacted r) \<or> (out = fst (compact ms) \<and> compacted r)"
  by (auto simp: check_and_compact_def Let_def default_result_def split: if_splits prod.splits)

lemma last_reply_fixed: "last_reply (xs @ last_reply ms) = last_reply ms"
  if "filter (\<lambda>m. \<not> user_tagged m \<and> role m = ''assistant'') xs = []"
proof -
  let ?P = "\<lambda>m. \<not> user_tagged m \<and> role m = ''assistant''"
  have "filter ?P (last_reply ms) = last_reply ms"
  proof (cases "filter ?P ms = []")
    case False
    then have "?P (last (filter ?P ms))" by (rule last_filter)
    with False show ?thesis by (simp add: last_reply_def Let_def del: filter_empty_conv)
  qed (simp add: last_reply_def)
  moreover have "last_reply ms = [] \<or> (\<exists>m. last_reply ms = [m])"
    by (auto simp: last_reply_def Let_def)
  moreover have "last_reply (xs @ last_reply ms) =
      (let as = filter ?P (last_reply ms) in if as = [] then [] else [last as])"
    by (simp only: last_reply_def [of "xs @ last_reply ms"] filter_append that append_Nil)
  ultimately show ?thesis by (auto simp: Let_def)
qed

lemma compact_keeps_reply: "last_reply (working_part (fst (compact ms))) = last_reply (working_part ms)"
proof -
  let ?W = "working_part ms"
  have "working_part (fst (compact ms)) =
      ([summary_message ?W] @ filter user_tagged ?W) @ last_reply ?W"
    by (auto simp: compact_parts working_part_def system_part_def summary_message_def text_message_def)
  then show ?thesis
    by (simp only:) (rule last_reply_fixed, simp add: summary_message_def text_message_def filter_empty_conv)
qed

lemmas compact_keeps = compact_keeps_tagged compact_keeps_system compact_keeps_reply

subsection \<open>Pruning\<close>

lemma is_stub_prune_stub [simp]: "is_stub (m\<lparr>content := prune_stub n c\<rparr>)"
  by (simp add: is_stub_def prune_stub_def starts_with_def)

text \<open>
  Reference definition of \<open>prune_tool_results\<close>: a tool result is replaced by a stub, unless it is
  one already, when at least \<open>keep\<close> tool results follow it.
\<close>

abbreviation is_tool :: "message \<Rightarrow> bool" where
  "is_tool m \<equiv> meta m ''tool_name'' \<noteq> None"

definition tool_count :: "message list \<Rightarrow> nat" where
  "tool_count ms = length (filter is_tool ms)"

definition stubbed :: "message \<Rightarrow> message" where
  "stubbed m = (if is_stub m then m
     else m\<lparr>content := prune_stub (the (meta m ''tool_name'')) (int (length (content m)))\<rparr>)"

fun prune_ref :: "nat \<Rightarrow> message list \<Rightarrow> message list" where
  "prune_ref keep [] = []"
| "prune_ref keep (m # ms) =
     (if is_tool m \<and> keep \<le> tool_count ms then stubbed m else m) # prune_ref keep ms"

lemma tool_count_simps [simp]:
  "tool_count [] = 0"
  "tool_count (m # ms) = (if is_tool m then Suc (tool_count ms) else tool_count ms)"
  by (simp_all add: tool_count_def)

lemma length_tool_indices [simp]: "length (tool_indices i ms) = tool_count ms"
  by (induction ms arbitrary: i) auto

lemma prune_ref_few: "tool_count ms \<le> keep \<Longrightarrow> prune_ref keep ms = ms"
  by (induction ms) (auto split: if_splits)

lemma prune_loop_step:
  assumes "is_tool m"
  shows "\<exists>p' f'. prune_loop (length pre # js) (pre @ m # ms) p f =
    prune_loop js ((pre @ [stubbed m]) @ ms) p' f'"
proof -
  obtain n where "meta m ''tool_name'' = Some n" using assms by auto
  then show ?thesis by (auto simp: stubbed_def Let_def)
qed

lemma prune_loop_ref:
  "fst (prune_loop (take (tool_count ms - keep) (tool_indices (length pre) ms)) (pre @ ms) p f) =
     pre @ prune_ref keep ms"
proof (induction ms arbitrary: pre p f)
  case Nil
  show ?case by simp
next
  case (Cons m ms)
  show ?case
  proof (cases "is_tool m")
    case False
    then show ?thesis
      using Cons.IH [of "pre @ [m]" p f] by simp
  next
    case True
    show ?thesis
    proof (cases "keep \<le> tool_count ms")
      case False
      then have "prune_ref keep (m # ms) = m # ms"
        by (simp add: prune_ref_few)
      moreover have "tool_count (m # ms) - keep = 0" using True False by simp
      ultimately show ?thesis by simp
    next
      case keep: True
      let ?js = "take (tool_count ms - keep) (tool_indices (Suc (length pre)) ms)"
      have js: "take (tool_count (m # ms) - keep) (tool_indices (length pre) (m # ms)) = length pre # ?js"
        using True keep by (simp add: Suc_diff_le)
      obtain p' f' where "prune_loop (length pre # ?js) (pre @ m # ms) p f =
          prune_loop ?js ((pre @ [stubbed m]) @ ms) p' f'"
        using prune_loop_step [OF True] by blast
      then show ?thesis
        using Cons.IH [of "pre @ [stubbed m]" p' f'] js True keep
        by (simp del: tool_indices.simps tool_count_simps prune_loop.simps)
    qed
  qed
qed

lemma tool_count_map: "(\<And>m. is_tool (g m) = is_tool m) \<Longrightarrow> tool_count (map g ms) = tool_count ms"
  by (induction ms) auto

lemma meta_stubbed [simp]: "meta (stubbed m) k = meta m k"
  by (simp add: stubbed_def meta_def)

lemma stubbed_idem [simp]: "stubbed (stubbed m) = stubbed m"
  by (simp add: stubbed_def)

lemma tool_count_prune_ref [simp]: "tool_count (prune_ref keep ms) = tool_count ms"
  by (induction ms) auto

lemma prune_ref_idem: "prune_ref keep (prune_ref keep ms) = prune_ref keep ms"
  by (induction ms) auto

lemma prune_tool_results_ref:
  assumes "keep > 0"
  shows "messages (fst (prune_tool_results ctx keep)) = prune_ref (nat keep) (messages ctx)"
proof (cases "int (tool_count (messages ctx)) > keep")
  case True
  then show ?thesis
    using assms prune_loop_ref [of "messages ctx" "nat keep" "[]" 0 0]
    by (auto simp: prune_tool_results_def Let_def split: prod.split)
next
  case False
  then show ?thesis
    using assms by (simp add: prune_tool_results_def Let_def prune_ref_few)
qed

lemma prune_old_idem: "prune_old_message cur ttl (prune_old_message cur ttl m) = prune_old_message cur ttl m"
proof (cases "prune_old_message cur ttl m = m")
  case False
  then obtain name ai where "prune_old_message cur ttl m =
      m\<lparr>metadata := AList.update ''original_content'' (content m) (metadata m),
        content := prune_stub name (int (length (content m)))\<rparr>"
    by (auto simp: prune_old_message_def split: option.splits if_splits)
  then have "is_stub (prune_old_message cur ttl m)"
    by (simp add: is_stub_def prune_stub_def starts_with_def)
  then show ?thesis
    by (subst prune_old_message_def) (simp split: option.split)
qed simp

lemma prune_tool_results_frame:
  "fst (prune_tool_results ctx keep) = ctx\<lparr>messages := messages (fst (prune_tool_results ctx keep))\<rparr>"
  by (simp add: prune_tool_results_def Let_def split: prod.split)

lemma prune_tool_results_spec:
  "fst (prune_tool_results ctx keep) =
     (if keep > 0 then ctx\<lparr>messages := prune_ref (nat keep) (messages ctx)\<rparr> else ctx)"
proof (cases "keep > 0")
  case True
  then show ?thesis
    by (subst prune_tool_results_frame) (simp add: prune_tool_results_ref)
qed (simp add: prune_tool_results_def Let_def)

subsection \<open>The compaction hook\<close>

context pre_hook
begin

lemma silent_pre_compact:
  "silent ENTROPIC_HOOK_ON_PRE_COMPACT \<Longrightarrow> fire_pre_compact_hook (Some fire) w ctx force = (w, False)"
  using silent_proceeds by (simp add: fire_pre_compact_hook_def Let_def)

lemma silent_check_compaction:
  "silent ENTROPIC_HOOK_ON_PRE_COMPACT \<Longrightarrow> env_fire_pre env = Some fire \<Longrightarrow>
     check_compaction cfg mx env w ctx force = check_compaction cfg mx (env\<lparr>env_fire_pre := None\<rparr>) w ctx force"
  using silent_pre_compact
  by (simp add: check_compaction_def fire_pre_compact_hook_def [of None] fire_post_compact_hooks_def Let_def
      split: prod.split)

end

subsection \<open>Properties\<close>

text \<open>
  Claim C13. Compaction never loses what must survive it: the messages tagged \<open>source = user\<close> are
  kept, in order and unchanged, a leading system prompt stays first, and the last untagged
  assistant reply stays the last one. It happens exactly when it is enabled and forced or over
  the threshold; otherwise the messages and the outside world are untouched. When it happens and
  history is kept, the snapshot is taken of the messages as they were before.
\<close>

theorem compaction_preserves:
  assumes "check_and_compact cfg mx st w ms force conv = (w', out, r)"
  shows "(filter user_tagged out = filter user_tagged ms) \<and>
    (system_part out = system_part ms) \<and>
    (last_reply (working_part out) = last_reply (working_part ms)) \<and>
    (compacted r \<longleftrightarrow> enabled cfg \<and> (force \<or> compaction_threshold cfg mx \<le> count_messages ms)) \<and>
    (\<not> compacted r \<longrightarrow> out = ms \<and> w' = w) \<and>
    (compacted r \<longrightarrow> w' = (if save_full_history cfg \<and> conv \<noteq> [] then save_snapshot st w conv ms else w))"
proof -
  have "filter user_tagged out = filter user_tagged ms"
    and "system_part out = system_part ms"
    and "last_reply (working_part out) = last_reply (working_part ms)"
    and "compacted r \<longleftrightarrow> enabled cfg \<and> (force \<or> compaction_threshold cfg mx \<le> count_messages ms)"
    and "\<not> compacted r \<Longrightarrow> out = ms \<and> w' = w"
    and "compacted r \<Longrightarrow> w' = (if save_full_history cfg \<and> conv \<noteq> [] then save_snapshot st w conv ms else w)"
  proof -
    have out: "out = ms \<or> out = fst (compact ms)"
      using check_and_compact_cases [OF assms] by blast
    then show "filter user_tagged out = filter user_tagged ms"
      "system_part out = system_part ms"
      "last_reply (working_part out) = last_reply (working_part ms)"
      by (auto simp: compact_keeps)
    show "compacted r \<longleftrightarrow> enabled cfg \<and> (force \<or> compaction_threshold cfg mx \<le> count_messages ms)"
      "\<not> compacted r \<Longrightarrow> out = ms \<and> w' = w"
      "compacted r \<Longrightarrow> w' = (if save_full_history cfg \<and> conv \<noteq> [] then save_snapshot st w conv ms else w)"
      using assms
      by (auto simp: check_and_compact_def Let_def default_result_def split: if_splits prod.splits)
  qed
  then show ?thesis by blast
qed

definition sample_config :: compaction_config where
  "sample_config = \<lparr>enabled = True, threshold_percent = 3 / 4, preserve_recent_turns = 2,
     summary_max_tokens = 1500, notify_user = True, save_full_history = True, tool_result_ttl = 10,
     warning_threshold_percent = f32 (3 / 5)\<rparr>"

definition sample_messages :: "message list" where
  "sample_messages =
     [text_message ''system'' ''S'',
      (text_message ''user'' ''task'')\<lparr>metadata := [(''source'', ''user'')]\<rparr>,
      text_message ''assistant'' ''a1'',
      (text_message ''user'' ''big'')\<lparr>metadata := [(''tool_name'', ''fs.read''), (''added_at_iteration'', ''1'')]\<rparr>,
      text_message ''assistant'' ''a2'']"

theorem compaction_preserves_witness:
  "\<exists>w' out r. check_and_compact sample_config 16 (Some (\<lambda>w c j. w @ [c])) [] sample_messages False ''c1''
       = (w', out, r) \<and>
     filter user_tagged out = [sample_messages ! 1] \<and> w' = [''c1''] \<and> compacted r"
proof -
  obtain w' out r where c:
      "check_and_compact sample_config 16 (Some (\<lambda>w c j. w @ [c])) [] sample_messages False ''c1'' = (w', out, r)"
    using prod_cases3 by blast
  have t: "compaction_threshold sample_config 16 \<le> count_messages sample_messages" by code_simp
  have u: "filter user_tagged sample_messages = [sample_messages ! 1]" by code_simp
  have e: "enabled sample_config" "save_full_history sample_config"
    by (simp_all add: sample_config_def)
  have r: "compacted r" using compaction_preserves [OF c, THEN conjunct2, THEN conjunct2, THEN conjunct2, THEN conjunct1] t e by simp
  with compaction_preserves [OF c, THEN conjunct2, THEN conjunct2, THEN conjunct2, THEN conjunct2, THEN conjunct2, THEN mp, OF r] e have "w' = [''c1'']" by (simp add: save_snapshot_def)
  with c compaction_preserves [OF c, THEN conjunct1] u r show ?thesis by simp
qed

text \<open>
  Without the \<open>source = user\<close> tag the user's words do not survive. No code under
  \<open>src/\<close> sets that tag (the engine pushes a user turn with empty metadata), and on an untagged
  conversation a compaction keeps only the system prompt, the generated summary and the last
  assistant reply: every user message, the one being answered included, is dropped.
\<close>

lemma compaction_drops_untagged_users:
  assumes "list_all (\<lambda>m. metadata m = []) ms"
  shows "(fst (compact ms) =
    system_part ms @ [summary_message (working_part ms)] @ last_reply (working_part ms)) \<and>
    (m \<in> set (fst (compact ms)) \<longrightarrow> role m = ''user'' \<longrightarrow> m = summary_message (working_part ms))"
proof -
  have "fst (compact ms) =
    system_part ms @ [summary_message (working_part ms)] @ last_reply (working_part ms)"
    and "m \<in> set (fst (compact ms)) \<Longrightarrow> role m = ''user'' \<Longrightarrow> m = summary_message (working_part ms)"
  proof -
    have "filter user_tagged (working_part ms) = []"
      using assms
      by (auto simp: filter_empty_conv user_tagged_def meta_def list_all_iff working_part_def
          dest: list.set_sel(2) split: if_splits)
    then show e: "fst (compact ms) =
        system_part ms @ [summary_message (working_part ms)] @ last_reply (working_part ms)"
      by (simp add: compact_parts)
    have sys: "list_all (\<lambda>x. role x \<noteq> ''user'') (system_part ms)"
      by (auto simp: system_part_def)
    have "list_all (\<lambda>x. role x \<noteq> ''user'') (last_reply (working_part ms))"
      using last_filter [of "\<lambda>m. \<not> user_tagged m \<and> role m = ''assistant''" "working_part ms"]
      by (auto simp: last_reply_def Let_def)
    with e sys show "m \<in> set (fst (compact ms)) \<Longrightarrow> role m = ''user'' \<Longrightarrow> m = summary_message (working_part ms)"
      by (auto simp: list_all_iff)
  qed
  then show ?thesis by blast
qed

lemma compaction_drops_untagged_users_witness:
  "text_message ''user'' ''now answer this'' \<notin>
     set (fst (compact [text_message ''system'' ''S'', text_message ''user'' ''now answer this'']))"
proof
  let ?ms = "[text_message ''system'' ''S'', text_message ''user'' ''now answer this'']"
  let ?m = "text_message ''user'' ''now answer this''"
  assume m: "?m \<in> set (fst (compact ?ms))"
  have a: "list_all (\<lambda>m. metadata m = []) ?ms" by (simp add: text_message_def)
  have r: "role ?m = ''user''" by (simp add: text_message_def)
  have "content (summary_message (working_part ?ms)) \<noteq> content ?m"
    by (simp add: summary_message_def text_message_def format_summary_def)
  with compaction_drops_untagged_users [OF a, THEN conjunct2, THEN mp, THEN mp, OF m r] show False by simp
qed

text \<open>
  \<open>prune_tool_results\<close> equals its reference definition: with a positive \<open>keep_recent\<close>
  exactly the tool results followed by at least that many others become stubs (those already
  stubs stay), the newest ones and every other message and field are untouched, and pruning
  again changes nothing; with a non-positive one it does nothing.
\<close>

lemma prune_keeps_recent:
  "fst (prune_tool_results ctx keep) =
     (if keep > 0 then ctx\<lparr>messages := prune_ref (nat keep) (messages ctx)\<rparr> else ctx) \<and>
   fst (prune_tool_results (fst (prune_tool_results ctx keep)) keep) = fst (prune_tool_results ctx keep)"
  by (simp add: prune_tool_results_spec prune_ref_idem)

text \<open>
  Age-based pruning is lossless and idempotent: a message it changes was a tool result
  at least \<open>tool_result_ttl\<close> iterations old, becomes a stub, and its full text stays under
  \<open>original_content\<close>; running it again in the same iteration changes nothing.
\<close>

lemma prune_old_lossless:
  assumes "out = prune_old_tool_results cfg mx ctx" "i < length (messages ctx)"
  shows "(length (messages out) = length (messages ctx)) \<and>
    (messages out ! i = messages ctx ! i \<or>
      (is_stub (messages out ! i) \<and> is_tool (messages ctx ! i) \<and>
       meta (messages out ! i) ''original_content'' = Some (content (messages ctx ! i)) \<and>
       (\<exists>s a. meta (messages ctx ! i) ''added_at_iteration'' = Some s \<and> stoi s = Some a \<and>
          a + tool_result_ttl cfg \<le> iterations (metrics ctx)))) \<and>
    (prune_old_tool_results cfg mx out = out)"
proof -
  have "length (messages out) = length (messages ctx)"
    and "messages out ! i = messages ctx ! i \<or>
      (is_stub (messages out ! i) \<and> is_tool (messages ctx ! i) \<and>
       meta (messages out ! i) ''original_content'' = Some (content (messages ctx ! i)) \<and>
       (\<exists>s a. meta (messages ctx ! i) ''added_at_iteration'' = Some s \<and> stoi s = Some a \<and>
          a + tool_result_ttl cfg \<le> iterations (metrics ctx)))"
    and "prune_old_tool_results cfg mx out = out"
  proof -
    let ?g = "prune_old_message (iterations (metrics ctx)) (tool_result_ttl cfg)"
    have cases: "out = ctx \<or> out = ctx\<lparr>messages := map ?g (messages ctx)\<rparr>"
      using assms(1) by (simp add: prune_old_tool_results_def)
    then show "length (messages out) = length (messages ctx)" by auto
    have "?g m = m \<or> (is_stub (?g m) \<and> is_tool m \<and> meta (?g m) ''original_content'' = Some (content m) \<and>
        (\<exists>s a. meta m ''added_at_iteration'' = Some s \<and> stoi s = Some a \<and>
            a + tool_result_ttl cfg \<le> iterations (metrics ctx)))" for m
      by (auto simp: prune_old_message_def meta_def is_stub_def prune_stub_def starts_with_def
          split: option.splits if_splits)
    with cases assms(2) show "messages out ! i = messages ctx ! i \<or>
        (is_stub (messages out ! i) \<and> is_tool (messages ctx ! i) \<and>
         meta (messages out ! i) ''original_content'' = Some (content (messages ctx ! i)) \<and>
         (\<exists>s a. meta (messages ctx ! i) ''added_at_iteration'' = Some s \<and> stoi s = Some a \<and>
            a + tool_result_ttl cfg \<le> iterations (metrics ctx)))"
      by (elim disjE) simp_all
    show "prune_old_tool_results cfg mx out = out"
      using cases assms(1)
      by (elim disjE) (simp_all add: prune_old_tool_results_def prune_old_idem)
  qed
  then show ?thesis by blast
qed

lemma prune_old_lossless_witness:
  "is_stub (messages (prune_old_tool_results sample_config 16
      (default_context\<lparr>messages := sample_messages, metrics := default_metrics\<lparr>iterations := 11\<rparr>\<rparr>)) ! 3)"
proof -
  let ?c = "default_context\<lparr>messages := sample_messages, metrics := default_metrics\<lparr>iterations := 11\<rparr>\<rparr>"
  have i: "3 < length (messages ?c)" by (simp add: sample_messages_def)
  have "messages (prune_old_tool_results sample_config 16 ?c) ! 3 \<noteq> messages ?c ! 3" by code_simp
  with prune_old_lossless [OF refl i, of sample_config 16, THEN conjunct2, THEN conjunct1] show ?thesis by blast
qed

text \<open>
  The pre-compaction hook decides: when it cancels, the conversation is unchanged and
  no snapshot is written, whatever the configuration; and with the real registry and no hook on
  that point, checking compaction behaves as with no hook interface at all.
\<close>

lemma compaction_hook:
  shows "(env_fire_pre env = Some fire \<longrightarrow>
     fire_pre_compact_hook (Some fire) w ctx force = (w', True) \<longrightarrow>
     check_compaction cfg mx env w ctx force = (w', ctx)) \<and>
    (hook_count reg ENTROPIC_HOOK_ON_PRE_COMPACT = 0 \<longrightarrow> env_fire_pre env = Some (fire_pre run reg) \<longrightarrow>
     check_compaction cfg mx env w ctx force =
       check_compaction cfg mx (env\<lparr>env_fire_pre := None\<rparr>) w ctx force)"
proof -
  have "env_fire_pre env = Some fire \<Longrightarrow>
     fire_pre_compact_hook (Some fire) w ctx force = (w', True) \<Longrightarrow>
     check_compaction cfg mx env w ctx force = (w', ctx)"
    and "hook_count reg ENTROPIC_HOOK_ON_PRE_COMPACT = 0 \<Longrightarrow> env_fire_pre env = Some (fire_pre run reg) \<Longrightarrow>
     check_compaction cfg mx env w ctx force =
       check_compaction cfg mx (env\<lparr>env_fire_pre := None\<rparr>) w ctx force"
    by (simp add: check_compaction_def) (rule registry.silent_check_compaction)
  then show ?thesis by blast
qed

definition cancel_env :: "nat compaction_env" where
  "cancel_env = \<lparr>env_fire_pre = Some (\<lambda>w p c. (w + 1, 1, None)), env_fire_post = None,
     env_on_compaction = None, env_after_compaction = None, env_storage = None\<rparr>"

lemma compaction_hook_witness:
  "check_compaction sample_config 16 cancel_env 4 (default_context\<lparr>messages := sample_messages\<rparr>) True =
     (5, default_context\<lparr>messages := sample_messages\<rparr>) \<and>
   check_compaction sample_config 16 (cancel_env\<lparr>env_fire_pre := Some (fire_pre (\<lambda>w e p c. (w, Threw)) empty_registry)\<rparr>)
       4 default_context True =
     check_compaction sample_config 16 (cancel_env\<lparr>env_fire_pre := None\<rparr>) 4 default_context True"
proof
  show "check_compaction sample_config 16 cancel_env 4 (default_context\<lparr>messages := sample_messages\<rparr>) True =
     (5, default_context\<lparr>messages := sample_messages\<rparr>)"
    by (rule compaction_hook [where fire = "\<lambda>w p c. (w + 1, 1, None)", THEN conjunct1, THEN mp, THEN mp])
       (simp_all add: cancel_env_def fire_pre_compact_hook_def)
  have h: "hook_count empty_registry ENTROPIC_HOOK_ON_PRE_COMPACT = 0" by code_simp
  let ?env = "cancel_env\<lparr>env_fire_pre := Some (fire_pre (\<lambda>w e p c. (w, Threw)) empty_registry)\<rparr>"
  have "env_fire_pre ?env = Some (fire_pre (\<lambda>w e p c. (w, Threw)) empty_registry)" by simp
  from compaction_hook [THEN conjunct2, THEN mp, THEN mp, OF h this, of sample_config 16 4 default_context True]
  show "check_compaction sample_config 16 ?env 4 default_context True =
     check_compaction sample_config 16 (cancel_env\<lparr>env_fire_pre := None\<rparr>) 4 default_context True" by simp
qed

end
