(* ===== verification/Utf8_Sanitize.thy ===== *)
theory Utf8_Sanitize
  imports Prelude "HOL-Library.Word"
begin

text \<open>
  The UTF-8 sanitizer every tool result passes through before it reaches the JSON layer
  (\<open>src/mcp/utf8_sanitize.cpp\<close>). Bytes are \<open>uint8_t\<close>, so \<^typ>\<open>8 word\<close>; the pointer pair
  \<open>p\<close>, \<open>end\<close> is the list of the bytes from \<open>p\<close> up to \<open>end\<close>.
\<close>

unbundle bit_operations_syntax

type_synonym u8 = "8 word"

definition kReplacement :: "u8 list" where
  "kReplacement = [0xEF, 0xBF, 0xBD]"

definition is_cont :: "u8 \<Rightarrow> bool" where
  "is_cont b \<longleftrightarrow> b AND 0xC0 = 0x80"

definition follow_count :: "u8 \<Rightarrow> int" where
  "follow_count b =
     (if b < 0x80 then 0
      else if b \<ge> 0xC2 \<and> b < 0xE0 then 1
      else if b \<ge> 0xE0 \<and> b < 0xF0 then 2
      else if b \<ge> 0xF0 \<and> b < 0xF5 then 3
      else - 1)"

definition first_cont_in_range :: "u8 \<Rightarrow> u8 \<Rightarrow> bool" where
  "first_cont_in_range lead c1 \<longleftrightarrow>
     (if lead = 0xE0 then is_cont c1 \<and> c1 \<ge> 0xA0
      else if lead = 0xED then is_cont c1 \<and> c1 \<le> 0x9F
      else if lead = 0xF0 then is_cont c1 \<and> c1 \<ge> 0x90
      else if lead = 0xF4 then is_cont c1 \<and> c1 \<le> 0x8F
      else is_cont c1)"

text \<open>The loop over the remaining continuation bytes \<open>p[2] .. p[n]\<close>.\<close>

definition rest_cont :: "u8 list \<Rightarrow> nat \<Rightarrow> bool" where
  "rest_cont p n \<longleftrightarrow> list_all (\<lambda>i. is_cont (p ! i)) [2..<Suc n]"

definition valid_seq_len :: "u8 list \<Rightarrow> nat" where
  "valid_seq_len p =
     (case p of [] \<Rightarrow> 0
      | lead # _ \<Rightarrow>
        let n = follow_count lead in
        let ok = n \<ge> 0 \<and> (n = 0 \<or> (nat n < length p \<and> first_cont_in_range lead (p ! 1))) in
        if ok \<and> rest_cont p (nat n) then nat (n + 1) else 0)"

function sanitize_utf8 :: "u8 list \<Rightarrow> u8 list" where
  "sanitize_utf8 [] = []"
| "sanitize_utf8 (b # bs) =
     (let len = valid_seq_len (b # bs) in
      if len > 0 then take len (b # bs) @ sanitize_utf8 (drop len (b # bs))
      else kReplacement @ sanitize_utf8 bs)"
  by pat_completeness auto
termination
  by (relation "measure length") auto

declare sanitize_utf8.simps(2) [simp del]

text \<open>\<open>mcp::sanitize_utf8\<close> on a \<open>std::string\<close>.\<close>

definition sanitize :: "string \<Rightarrow> string" where
  "sanitize s = map (\<lambda>b. char_of (unat b)) (sanitize_utf8 (map (\<lambda>c. word_of_nat (byte c)) s))"

subsection \<open>UTF-8 as an encoding of Unicode scalar values\<close>

definition scalar :: "nat \<Rightarrow> bool" where
  "scalar cp \<longleftrightarrow> cp < 0x110000 \<and> \<not> (0xD800 \<le> cp \<and> cp < 0xE000)"

definition utf8_encode :: "nat \<Rightarrow> u8 list" where
  "utf8_encode cp = map of_nat
     (if cp < 0x80 then [cp]
      else if cp < 0x800 then [192 + cp div 64, 128 + cp mod 64]
      else if cp < 0x10000 then [224 + cp div 4096, 128 + cp div 64 mod 64, 128 + cp mod 64]
      else [240 + cp div 262144, 128 + cp div 4096 mod 64, 128 + cp div 64 mod 64, 128 + cp mod 64])"

lemma is_cont_table:
  "list_all (\<lambda>n. is_cont (of_nat n) \<longleftrightarrow> 128 \<le> n \<and> n < 192) [0..<256]"
  unfolding is_cont_def by code_simp

lemma is_cont_iff: "is_cont b \<longleftrightarrow> 128 \<le> unat b \<and> unat b < 192"
proof -
  have "unat b < 256" using unsigned_less [of b] by simp
  then have "unat b \<in> set [0..<256]" by simp
  with is_cont_table have "is_cont (of_nat (unat b)) \<longleftrightarrow> 128 \<le> unat b \<and> unat b < 192"
    by (rule bspec [OF iffD1 [OF list_all_iff]])
  then show ?thesis by simp
qed

lemmas byte_simps = word_less_nat_alt word_le_nat_alt

lemma follow_count_unat:
  "follow_count b =
     (if unat b < 128 then 0 else if 194 \<le> unat b \<and> unat b < 224 then 1
      else if 224 \<le> unat b \<and> unat b < 240 then 2 else if 240 \<le> unat b \<and> unat b < 245 then 3
      else - 1)"
  by (simp add: follow_count_def byte_simps)

lemma first_cont_unat:
  "first_cont_in_range l c \<longleftrightarrow> 128 \<le> unat c \<and> unat c < 192 \<and>
     (unat l = 224 \<longrightarrow> 160 \<le> unat c) \<and> (unat l = 237 \<longrightarrow> unat c < 160) \<and>
     (unat l = 240 \<longrightarrow> 144 \<le> unat c) \<and> (unat l = 244 \<longrightarrow> unat c < 144)"
  by (auto simp: first_cont_in_range_def is_cont_iff byte_simps word_unat_eq_iff)

lemma rest_cont_simps:
  "rest_cont p 0" "rest_cont p (Suc 0)"
  "rest_cont p (Suc (Suc 0)) \<longleftrightarrow> is_cont (p ! 2)"
  "rest_cont p (Suc (Suc (Suc 0))) \<longleftrightarrow> is_cont (p ! 2) \<and> is_cont (p ! 3)"
  by (simp_all add: rest_cont_def upt_rec numeral_eq_Suc)

lemma length_utf8_encode:
  "length (utf8_encode cp) = (if cp < 0x80 then 1 else if cp < 0x800 then 2 else if cp < 0x10000 then 3 else 4)"
  by (simp add: utf8_encode_def)

text \<open>What \<open>valid_seq_len\<close> accepts, by the class of the lead byte.\<close>

lemma valid_seq_len_1: "unat b < 128 \<Longrightarrow> valid_seq_len (b # r) = 1"
  by (simp add: valid_seq_len_def follow_count_unat rest_cont_simps)

lemma valid_seq_len_2:
  "194 \<le> unat b \<Longrightarrow> unat b < 224 \<Longrightarrow> valid_seq_len (b # r) =
     (case r of c # _ \<Rightarrow> if first_cont_in_range b c then 2 else 0 | [] \<Rightarrow> 0)"
  by (simp add: valid_seq_len_def follow_count_unat rest_cont_simps split: list.split)

lemma valid_seq_len_3:
  "224 \<le> unat b \<Longrightarrow> unat b < 240 \<Longrightarrow> valid_seq_len (b # r) =
     (case r of c # d # _ \<Rightarrow> if first_cont_in_range b c \<and> is_cont d then 3 else 0 | _ \<Rightarrow> 0)"
  by (simp add: valid_seq_len_def follow_count_unat rest_cont_simps eval_nat_numeral split: list.split)

lemma valid_seq_len_4:
  "240 \<le> unat b \<Longrightarrow> unat b < 245 \<Longrightarrow> valid_seq_len (b # r) =
     (case r of c # d # e # _ \<Rightarrow>
        if first_cont_in_range b c \<and> is_cont d \<and> is_cont e then 4 else 0 | _ \<Rightarrow> 0)"
  by (simp add: valid_seq_len_def follow_count_unat rest_cont_simps eval_nat_numeral split: list.split)

lemma valid_seq_len_0:
  "128 \<le> unat b \<Longrightarrow> unat b < 194 \<or> 245 \<le> unat b \<Longrightarrow> valid_seq_len (b # r) = 0"
  by (auto simp: valid_seq_len_def follow_count_unat)

lemma unat_small: "n < 256 \<Longrightarrow> unat (of_nat n :: u8) = n"
  by (simp add: unat_of_nat take_bit_eq_mod)

lemma cp_digits3: "(cp::nat) = cp div 4096 * 4096 + cp div 64 mod 64 * 64 + cp mod 64"
proof -
  have "cp div 64 = cp div 64 div 64 * 64 + cp div 64 mod 64" by simp
  moreover have "cp div 64 div 64 = cp div 4096" by (simp flip: div_mult2_eq)
  moreover have "cp = cp div 64 * 64 + cp mod 64" by simp
  ultimately show ?thesis by linarith
qed

lemma cp_digits4:
  "(cp::nat) = cp div 262144 * 262144 + cp div 4096 mod 64 * 4096 + cp div 64 mod 64 * 64 + cp mod 64"
proof -
  have "cp div 4096 = cp div 4096 div 64 * 64 + cp div 4096 mod 64" by simp
  moreover have "cp div 4096 div 64 = cp div 262144" by (simp flip: div_mult2_eq)
  ultimately show ?thesis using cp_digits3 [of cp] by linarith
qed

text \<open>The table of \<open>valid_seq_len\<close> accepts the encoding of every scalar value ...\<close>

lemma valid_seq_len_encode:
  assumes "scalar cp"
  shows "valid_seq_len (utf8_encode cp @ r) = length (utf8_encode cp)"
proof -
  consider "cp < 128" | "128 \<le> cp" "cp < 2048" | "2048 \<le> cp" "cp < 65536" | "65536 \<le> cp"
    by linarith
  then show ?thesis
  proof cases
    case 1
    then show ?thesis by (simp add: utf8_encode_def valid_seq_len_1 unat_small)
  next
    case 2
    then have "cp div 64 < 32" "2 \<le> cp div 64" by auto
    with 2 show ?thesis
      by (simp add: utf8_encode_def valid_seq_len_2 first_cont_unat unat_small del: of_nat_add)
  next
    case 3
    have b: "cp div 4096 < 16" "cp div 64 mod 64 < 64" "cp mod 64 < 64" using 3 by auto
    have "cp div 4096 = 0 \<longrightarrow> 32 \<le> cp div 64 mod 64"
      and "cp div 4096 = 13 \<longrightarrow> cp div 64 mod 64 < 32"
      using 3 assms cp_digits3 [of cp] b unfolding scalar_def by linarith+
    with 3 b show ?thesis
      by (auto simp: utf8_encode_def valid_seq_len_3 first_cont_unat is_cont_iff unat_small
          simp del: of_nat_add)
  next
    case 4
    have b: "cp div 262144 < 5" "cp div 4096 mod 64 < 64" "cp div 64 mod 64 < 64" "cp mod 64 < 64"
      using assms by (auto simp: scalar_def)
    have "cp div 262144 = 0 \<longrightarrow> 16 \<le> cp div 4096 mod 64"
      and "cp div 262144 = 4 \<longrightarrow> cp div 4096 mod 64 < 16"
      using 4 assms cp_digits4 [of cp] b unfolding scalar_def by linarith+
    with 4 b show ?thesis
      by (auto simp: utf8_encode_def valid_seq_len_4 first_cont_unat is_cont_iff unat_small
          simp del: of_nat_add)
  qed
qed


text \<open>... and nothing else: what it accepts is the encoding of one scalar value.\<close>

lemma low_digit: "(c + 64 * k) div 64 = k" "(c + 64 * k) mod 64 = c" if "c < 64" for c k :: nat
  using that by simp_all

lemma utf8_encode_2:
  "2 \<le> a \<Longrightarrow> a < 32 \<Longrightarrow> b < 64 \<Longrightarrow> utf8_encode (a * 64 + b) = map of_nat [192 + a, 128 + b]"
  by (simp add: utf8_encode_def)

lemma utf8_encode_3:
  assumes "b < 64" "c < 64" "2048 \<le> a * 4096 + b * 64 + c" "a < 16"
  shows "utf8_encode (a * 4096 + b * 64 + c) = map of_nat [224 + a, 128 + b, 128 + c]"
proof -
  let ?cp = "a * 4096 + b * 64 + c"
  have eq: "?cp = c + 64 * (a * 64 + b)" by simp
  have "?cp div 64 = a * 64 + b" "?cp mod 64 = c"
    unfolding eq by (rule low_digit [OF assms(2)])+
  moreover from this have "?cp div 4096 = a" "?cp div 64 mod 64 = b"
    using assms(1,2) by auto
  moreover have "?cp < 65536" using assms by linarith
  ultimately show ?thesis using assms(3) by (simp only: utf8_encode_def) simp
qed

lemma utf8_encode_4:
  assumes "b < 64" "c < 64" "d < 64" "65536 \<le> a * 262144 + b * 4096 + c * 64 + d"
  shows "utf8_encode (a * 262144 + b * 4096 + c * 64 + d) =
    map of_nat [240 + a, 128 + b, 128 + c, 128 + d]"
proof -
  let ?cp = "a * 262144 + b * 4096 + c * 64 + d"
  have eq: "?cp = d + 64 * (a * 4096 + b * 64 + c)" by simp
  have "?cp div 64 = a * 4096 + b * 64 + c" "?cp mod 64 = d"
    unfolding eq by (rule low_digit [OF assms(3)])+
  moreover have "(a * 4096 + b * 64 + c) div 64 = a * 64 + b" "(a * 4096 + b * 64 + c) mod 64 = c"
    using low_digit [OF assms(2), of "a * 64 + b"] by (simp_all add: algebra_simps)
  moreover have "?cp div 4096 = ?cp div 64 div 64" "?cp div 262144 = ?cp div 64 div 64 div 64"
    by (simp_all flip: div_mult2_eq)
  moreover have "(a * 64 + b) div 64 = a" "(a * 64 + b) mod 64 = b"
    using assms(1) by simp_all
  ultimately show ?thesis using assms(4) by (simp only: utf8_encode_def) simp
qed

lemma byte_offset: "k \<le> unat b \<Longrightarrow> of_nat (k + (unat b - k)) = (b :: u8)"
  by simp

lemma valid_seq_len_sound:
  assumes "valid_seq_len (b # bs) > 0"
  shows "\<exists>cp. scalar cp \<and> take (valid_seq_len (b # bs)) (b # bs) = utf8_encode cp"
proof -
  have b256: "unat b < 256" using unsigned_less [of b] by simp
  consider "unat b < 128" | "194 \<le> unat b" "unat b < 224" | "224 \<le> unat b" "unat b < 240"
    | "240 \<le> unat b" "unat b < 245"
    using assms valid_seq_len_0 [of b bs] b256 by (metis linorder_not_less less_irrefl)
  then show ?thesis
  proof cases
    case 1
    then have "scalar (unat b)" "utf8_encode (unat b) = [b]"
      by (simp_all add: scalar_def utf8_encode_def)
    with 1 show ?thesis by (auto simp: valid_seq_len_1)
  next
    case 2
    with assms obtain c r where c: "bs = c # r" "first_cont_in_range b c" "valid_seq_len (b # bs) = 2"
      by (auto simp: valid_seq_len_2 split: list.splits if_splits)
    let ?cp = "(unat b - 192) * 64 + (unat c - 128)"
    have "utf8_encode ?cp = map of_nat [192 + (unat b - 192), 128 + (unat c - 128)]"
      using 2 c(2) by (intro utf8_encode_2) (auto simp: first_cont_unat)
    moreover have "scalar ?cp" using 2 c(2) by (auto simp: scalar_def first_cont_unat)
    ultimately show ?thesis using 2 c by (auto simp: first_cont_unat byte_offset simp del: of_nat_add)
  next
    case 3
    with assms obtain c d r where c: "bs = c # d # r" "first_cont_in_range b c" "is_cont d"
        "valid_seq_len (b # bs) = 3"
      by (auto simp: valid_seq_len_3 split: list.splits if_splits)
    let ?cp = "(unat b - 224) * 4096 + (unat c - 128) * 64 + (unat d - 128)"
    have r: "unat b - 224 = 0 \<longrightarrow> 32 \<le> unat c - 128" "unat b - 224 = 13 \<longrightarrow> unat c - 128 < 32"
        "unat c - 128 < 64" "unat d - 128 < 64"
      using 3 c(2,3) by (auto simp: first_cont_unat is_cont_iff)
    have "utf8_encode ?cp = map of_nat [224 + (unat b - 224), 128 + (unat c - 128), 128 + (unat d - 128)]"
      using 3 r by (intro utf8_encode_3) linarith+
    moreover have "scalar ?cp"
    proof -
      consider "unat b - 224 \<le> 12" | "unat b - 224 = 13" | "14 \<le> unat b - 224" by linarith
      then show ?thesis using 3 r by cases (simp_all add: scalar_def)
    qed
    ultimately show ?thesis using 3 c
      by (auto simp: first_cont_unat is_cont_iff byte_offset simp del: of_nat_add)
  next
    case 4
    with assms obtain c d e r where c: "bs = c # d # e # r" "first_cont_in_range b c" "is_cont d" "is_cont e"
        "valid_seq_len (b # bs) = 4"
      by (auto simp: valid_seq_len_4 split: list.splits if_splits)
    let ?cp = "(unat b - 240) * 262144 + (unat c - 128) * 4096 + (unat d - 128) * 64 + (unat e - 128)"
    have r: "unat b - 240 = 0 \<longrightarrow> 16 \<le> unat c - 128" "unat b - 240 = 4 \<longrightarrow> unat c - 128 < 16"
        "unat c - 128 < 64" "unat d - 128 < 64" "unat e - 128 < 64"
      using 4 c(2,3,4) by (auto simp: first_cont_unat is_cont_iff)
    have "utf8_encode ?cp = map of_nat [240 + (unat b - 240), 128 + (unat c - 128),
        128 + (unat d - 128), 128 + (unat e - 128)]"
      using 4 r by (intro utf8_encode_4) linarith+
    moreover have "scalar ?cp" using 4 r unfolding scalar_def by linarith
    ultimately show ?thesis using 4 c
      by (auto simp: first_cont_unat is_cont_iff byte_offset simp del: of_nat_add)
  qed
qed

definition encode_all :: "nat list \<Rightarrow> u8 list" where
  "encode_all cps = concat (map utf8_encode cps)"

lemma kReplacement_encode: "kReplacement = utf8_encode 0xFFFD" "scalar 0xFFFD"
  by (simp_all add: kReplacement_def utf8_encode_def scalar_def)

lemma sanitize_utf8_sound: "\<exists>cps. list_all scalar cps \<and> sanitize_utf8 bs = encode_all cps"
proof (induction bs rule: sanitize_utf8.induct)
  case 1
  show ?case by (intro exI [of _ "[]"]) (simp add: encode_all_def)
next
  case (2 b bs)
  show ?case
  proof (cases "valid_seq_len (b # bs) > 0")
    case True
    with 2 obtain cps where "list_all scalar cps"
      "sanitize_utf8 (drop (valid_seq_len (b # bs)) (b # bs)) = encode_all cps" by auto
    moreover obtain cp where "scalar cp" "take (valid_seq_len (b # bs)) (b # bs) = utf8_encode cp"
      using valid_seq_len_sound [OF True] by auto
    ultimately show ?thesis using True
      by (intro exI [of _ "cp # cps"]) (simp add: sanitize_utf8.simps(2) Let_def encode_all_def)
  next
    case False
    with 2 obtain cps where "list_all scalar cps" "sanitize_utf8 bs = encode_all cps" by auto
    then show ?thesis using False
      by (intro exI [of _ "0xFFFD # cps"])
        (simp add: sanitize_utf8.simps(2) Let_def encode_all_def kReplacement_encode)
  qed
qed

lemma sanitize_utf8_encode:
  assumes "scalar cp"
  shows "sanitize_utf8 (utf8_encode cp @ r) = utf8_encode cp @ sanitize_utf8 r"
proof -
  have "utf8_encode cp \<noteq> []" by (simp add: utf8_encode_def)
  then obtain b bs where b: "utf8_encode cp @ r = b # bs" by (cases "utf8_encode cp") auto
  have "valid_seq_len (b # bs) = length (utf8_encode cp)"
    using valid_seq_len_encode [OF assms, of r] b by simp
  moreover have "length (utf8_encode cp) > 0" using length_utf8_encode [of cp] by simp
  ultimately have "sanitize_utf8 (b # bs)
      = take (length (utf8_encode cp)) (utf8_encode cp @ r) @
        sanitize_utf8 (drop (length (utf8_encode cp)) (utf8_encode cp @ r))"
    unfolding b by (simp add: sanitize_utf8.simps(2) Let_def)
  then show ?thesis unfolding b [symmetric] by simp
qed

lemma sanitize_utf8_id: "list_all scalar cps \<Longrightarrow> sanitize_utf8 (encode_all cps) = encode_all cps"
  by (induction cps) (simp_all add: encode_all_def sanitize_utf8_encode)

subsection \<open>Properties\<close>

text \<open>
  Claim C16. Whatever bytes a tool returned, the sanitized result is well-formed UTF-8 in the
  sense of RFC 3629: it is the encoding of a sequence of Unicode scalar values (no overlong
  form, no surrogate, nothing above U+10FFFF), so the JSON layer never throws on it.
\<close>

theorem sanitize_well_formed:
  "\<exists>cps. list_all scalar cps \<and> sanitize_utf8 bs = encode_all cps"
  by (rule sanitize_utf8_sound)

text \<open>
  Sanitizing is the identity on the encoding of any sequence of scalar values, so a
  well-formed result is never altered and sanitizing twice is sanitizing once.
\<close>

lemma sanitize_identity:
  "(list_all scalar cps \<longrightarrow> sanitize_utf8 (encode_all cps) = encode_all cps) \<and>
   sanitize_utf8 (sanitize_utf8 bs) = sanitize_utf8 bs"
proof -
  obtain cs where "list_all scalar cs" "sanitize_utf8 bs = encode_all cs"
    using sanitize_utf8_sound by blast
  then show ?thesis using sanitize_utf8_id by metis
qed

lemma sanitize_identity_witness:
  "sanitize_utf8 (encode_all [0x41, 0xE9, 0x20AC, 0x1F600]) = encode_all [0x41, 0xE9, 0x20AC, 0x1F600] \<and>
   sanitize_utf8 (sanitize_utf8 [0xC0, 0x80]) = sanitize_utf8 [0xC0, 0x80]"
  using sanitize_identity [of "[0x41, 0xE9, 0x20AC, 0x1F600]" "[0xC0, 0x80]"]
  by (simp add: scalar_def)

end
