(* ===== verification/Json.thy ===== *)
theory Json
  imports Core_Types "HOL-Library.List_Lexorder" "HOL-Library.Char_ord"
begin

text \<open>
  The data model of the JSON library the sources use. Parsing and printing stay the library's:
  they are parameters \<open>parse\<close> and \<open>dump\<close> of the definitions that use them. What the sources do
  with a parsed value is modelled here: member lookup, the checked conversions and the iteration
  of a value, with \<^const>\<open>None\<close> for every exception the library throws.

  An object's members are listed in the order of their keys, as the \<open>std::map\<close> of the library
  keeps them. A number is an integer or a \<open>double\<close>, kept as the rational it denotes.
\<close>

datatype json =
  JNull
| JBool bool
| JNum int
| JFloat rat
| JString string
| JArray "json list"
| JObject "(string \<times> json) list"

definition json_contains :: "json \<Rightarrow> string \<Rightarrow> bool" where
  "json_contains j k = (case j of JObject kvs \<Rightarrow> map_of kvs k \<noteq> None | _ \<Rightarrow> False)"

text \<open>\<open>j.at(k)\<close>: a member that must be there.\<close>

definition json_at :: "json \<Rightarrow> string \<Rightarrow> json option" where
  "json_at j k = (case j of JObject kvs \<Rightarrow> map_of kvs k | _ \<Rightarrow> None)"

text \<open>\<open>get<std::string>()\<close>, \<open>get<bool>()\<close>, \<open>get<int>()\<close> and \<open>get<double>()\<close>.\<close>

definition get_string :: "json \<Rightarrow> string option" where
  "get_string j = (case j of JString s \<Rightarrow> Some s | _ \<Rightarrow> None)"

definition get_bool :: "json \<Rightarrow> bool option" where
  "get_bool j = (case j of JBool b \<Rightarrow> Some b | _ \<Rightarrow> None)"

text \<open>The conversion of an integer to a 32-bit \<open>int\<close>.\<close>

definition to_int32 :: "int \<Rightarrow> int" where
  "to_int32 i = (i + 2 ^ 31) mod 2 ^ 32 - 2 ^ 31"

lemma to_int32_id: "- (2 ^ 31) \<le> i \<Longrightarrow> i < 2 ^ 31 \<Longrightarrow> to_int32 i = i"
  by (simp add: to_int32_def)

definition get_int :: "json \<Rightarrow> int option" where
  "get_int j = (case j of JNum i \<Rightarrow> Some (to_int32 i) | JFloat r \<Rightarrow> Some (trunc_int r)
     | JBool b \<Rightarrow> Some (if b then 1 else 0) | _ \<Rightarrow> None)"

definition get_double :: "json \<Rightarrow> rat option" where
  "get_double j = (case j of JNum i \<Rightarrow> Some (f64 (of_int i)) | JFloat r \<Rightarrow> Some r | _ \<Rightarrow> None)"

text \<open>\<open>j[k].get<std::string>()\<close>: \<^const>\<open>None\<close> is the library's \<open>type_error\<close> exception.\<close>

definition json_get_string :: "json \<Rightarrow> string \<Rightarrow> string option" where
  "json_get_string j k =
     (case j of JObject kvs \<Rightarrow> (case map_of kvs k of Some (JString s) \<Rightarrow> Some s | _ \<Rightarrow> None) | _ \<Rightarrow> None)"

text \<open>
  \<open>j.value(k, d)\<close>: an exception when \<open>j\<close> is no object or the member has another type, the
  default when there is no member.
\<close>

definition json_value :: "(json \<Rightarrow> 'a option) \<Rightarrow> json \<Rightarrow> string \<Rightarrow> 'a \<Rightarrow> 'a option" where
  "json_value get j k d =
     (case j of JObject kvs \<Rightarrow> (case map_of kvs k of None \<Rightarrow> Some d | Some v \<Rightarrow> get v) | _ \<Rightarrow> None)"

definition json_value_string :: "json \<Rightarrow> string \<Rightarrow> string option" where
  "json_value_string j k =
     (case j of JObject kvs \<Rightarrow>
        (case map_of kvs k of None \<Rightarrow> Some [] | Some (JString t) \<Rightarrow> Some t | Some _ \<Rightarrow> None)
      | _ \<Rightarrow> None)"

lemma json_value_string_conv: "json_value_string j k = json_value get_string j k []"
  by (simp add: json_value_string_def json_value_def get_string_def split: json.split option.split)

text \<open>
  A range-based \<open>for\<close> over a value: the elements of an array, the values of an object, nothing
  for null, and any other value once.
\<close>

definition json_elements :: "json \<Rightarrow> json list" where
  "json_elements j = (case j of JArray xs \<Rightarrow> xs | JObject kvs \<Rightarrow> map snd kvs | JNull \<Rightarrow> [] | _ \<Rightarrow> [j])"

definition is_object :: "json \<Rightarrow> bool" where
  "is_object j = (case j of JObject _ \<Rightarrow> True | _ \<Rightarrow> False)"

definition is_array :: "json \<Rightarrow> bool" where
  "is_array j = (case j of JArray _ \<Rightarrow> True | _ \<Rightarrow> False)"

definition is_string :: "json \<Rightarrow> bool" where
  "is_string j = (case j of JString _ \<Rightarrow> True | _ \<Rightarrow> False)"

definition is_boolean :: "json \<Rightarrow> bool" where
  "is_boolean j = (case j of JBool _ \<Rightarrow> True | _ \<Rightarrow> False)"

definition is_number_integer :: "json \<Rightarrow> bool" where
  "is_number_integer j = (case j of JNum _ \<Rightarrow> True | _ \<Rightarrow> False)"

definition is_number :: "json \<Rightarrow> bool" where
  "is_number j = (case j of JNum _ \<Rightarrow> True | JFloat _ \<Rightarrow> True | _ \<Rightarrow> False)"

lemmas json_kind_defs = is_object_def is_array_def is_string_def is_boolean_def
  is_number_integer_def is_number_def

text \<open>\<open>operator==\<close>: an integer and a \<open>double\<close> compare as \<open>double\<close>s.\<close>

fun json_eq :: "json \<Rightarrow> json \<Rightarrow> bool" and
    json_eq_list :: "json list \<Rightarrow> json list \<Rightarrow> bool" and
    json_eq_members :: "(string \<times> json) list \<Rightarrow> (string \<times> json) list \<Rightarrow> bool" where
  "json_eq JNull JNull = True"
| "json_eq (JBool a) (JBool b) = (a = b)"
| "json_eq (JNum a) (JNum b) = (a = b)"
| "json_eq (JNum a) (JFloat b) = (f64 (of_int a) = b)"
| "json_eq (JFloat a) (JNum b) = (a = f64 (of_int b))"
| "json_eq (JFloat a) (JFloat b) = (a = b)"
| "json_eq (JString a) (JString b) = (a = b)"
| "json_eq (JArray a) (JArray b) = json_eq_list a b"
| "json_eq (JObject a) (JObject b) = json_eq_members a b"
| "json_eq _ _ = False"
| "json_eq_list [] [] = True"
| "json_eq_list (x # xs) (y # ys) = (json_eq x y \<and> json_eq_list xs ys)"
| "json_eq_list _ _ = False"
| "json_eq_members [] [] = True"
| "json_eq_members ((k, x) # xs) ((l, y) # ys) = (k = l \<and> json_eq x y \<and> json_eq_members xs ys)"
| "json_eq_members _ _ = False"

lemma json_eq_list_refl: "(\<And>x. x \<in> set xs \<Longrightarrow> json_eq x x) \<Longrightarrow> json_eq_list xs xs"
  by (induction xs) auto

lemma json_eq_members_refl: "(\<And>x. x \<in> snd ` set ms \<Longrightarrow> json_eq x x) \<Longrightarrow> json_eq_members ms ms"
  by (induction ms) auto

lemma json_eq_refl [simp]: "json_eq j j"
proof (induction j)
  case (JArray xs)
  then show ?case by (simp add: json_eq_list_refl)
next
  case (JObject ms)
  have "json_eq x x" if "x \<in> snd ` set ms" for x
    using JObject that by fastforce
  then show ?case using json_eq_members_refl [of ms] by simp
qed simp_all

lemma json_eq_string [simp]: "json_eq (JString s) j \<longleftrightarrow> j = JString s"
  by (cases j) auto

text \<open>Converting every element of a sequence: the first exception ends it.\<close>

fun get_all :: "('a \<Rightarrow> 'b option) \<Rightarrow> 'a list \<Rightarrow> 'b list option" where
  "get_all g [] = Some []"
| "get_all g (x # xs) =
     (case g x of None \<Rightarrow> None | Some y \<Rightarrow> map_option ((#) y) (get_all g xs))"

lemma get_all_Some: "get_all g xs = Some ys \<longleftrightarrow> map g xs = map Some ys"
  by (induction xs arbitrary: ys) (auto split: option.split)

lemma get_all_length: "get_all g xs = Some ys \<Longrightarrow> length ys = length xs"
  by (auto simp: get_all_Some dest: map_eq_imp_length_eq)

text \<open>The object \<open>{"directives": ds, "result": text}\<close> every tool answer is wrapped in.\<close>

definition response_json :: "string \<Rightarrow> json list \<Rightarrow> json" where
  "response_json text ds = JObject [(''directives'', JArray ds), (''result'', JString text)]"

end
