(* ===== verification/Access_Control.thy ===== *)
theory Access_Control
  imports Json "HOL-Library.Multiset"
begin

text \<open>
  Tool authorization: the per-identity key sets (\<open>src/mcp/mcp_key_set.cpp\<close>), the manager that
  owns them (\<open>src/mcp/mcp_authorization.cpp\<close>) and the allow/deny permission manager
  (\<open>src/mcp/permission_manager.cpp\<close>). Every public method locks the object's mutex for its
  whole body, so each is one atomic step on the state.
\<close>

subsection \<open>Key sets\<close>

type_synonym key_set = "(string \<times> mcp_access_level) list"

definition key_grant :: "key_set \<Rightarrow> string \<Rightarrow> mcp_access_level \<Rightarrow> key_set" where
  "key_grant keys pattern level = AList.update pattern level keys"

definition key_revoke :: "key_set \<Rightarrow> string \<Rightarrow> bool \<times> key_set" where
  "key_revoke keys pattern =
     (case map_of keys pattern of None \<Rightarrow> (False, keys) | Some _ \<Rightarrow> (True, AList.delete pattern keys))"

definition server_wildcard :: "string \<Rightarrow> string" where
  "server_wildcard tool_name =
     (case find_char (CHR ''.'') tool_name of None \<Rightarrow> [] | Some dot \<Rightarrow> take dot tool_name @ ''.*'')"

definition find_best_match :: "key_set \<Rightarrow> string \<Rightarrow> mcp_access_level" where
  "find_best_match keys tool_name =
     (case map_of keys tool_name of
        Some l \<Rightarrow> l
      | None \<Rightarrow>
          let wc = server_wildcard tool_name in
          if wc \<noteq> [] \<and> map_of keys wc \<noteq> None then the (map_of keys wc)
          else (case map_of keys ''*'' of Some l \<Rightarrow> l | None \<Rightarrow> NONE))"

definition has_access :: "key_set \<Rightarrow> string \<Rightarrow> mcp_access_level \<Rightarrow> bool" where
  "has_access keys tool_name required \<longleftrightarrow> level_value (find_best_match keys tool_name) \<ge> level_value required"

definition key_list :: "key_set \<Rightarrow> (string \<times> mcp_access_level) list" where
  "key_list keys = keys"

definition key_size :: "key_set \<Rightarrow> nat" where
  "key_size keys = length keys"

definition key_clear :: "key_set \<Rightarrow> key_set" where
  "key_clear keys = []"

definition keyset_json :: "key_set \<Rightarrow> json" where
  "keyset_json keys = JArray (map (\<lambda>(pattern, level).
     JObject [(''level'', JString (mcp_access_level_name level)), (''pattern'', JString pattern)]) keys)"

definition key_serialize :: "(json \<Rightarrow> string) \<Rightarrow> key_set \<Rightarrow> string" where
  "key_serialize dump keys = dump (keyset_json keys)"

datatype deserialize_result = Restored | Rejected | JsonTypeError

fun restore_entries :: "key_set \<Rightarrow> json list \<Rightarrow> deserialize_result \<times> key_set" where
  "restore_entries keys [] = (Restored, keys)"
| "restore_entries keys (entry # es) =
     (if \<not> json_contains entry ''pattern'' \<or> \<not> json_contains entry ''level''
      then restore_entries keys es
      else case json_get_string entry ''level'' of
          None \<Rightarrow> (JsonTypeError, keys)
        | Some level_str \<Rightarrow>
           (case parse_mcp_access_level level_str of
              None \<Rightarrow> restore_entries keys es
            | Some level \<Rightarrow>
               (case json_get_string entry ''pattern'' of
                  None \<Rightarrow> (JsonTypeError, keys)
                | Some pattern \<Rightarrow> restore_entries (AList.update pattern level keys) es)))"

definition key_deserialize ::
  "(string \<Rightarrow> json option) \<Rightarrow> key_set \<Rightarrow> string \<Rightarrow> deserialize_result \<times> key_set" where
  "key_deserialize parse keys text =
     (case parse text of
        None \<Rightarrow> (Rejected, keys)
      | Some (JArray arr) \<Rightarrow> restore_entries [] arr
      | Some _ \<Rightarrow> (Rejected, keys))"

subsection \<open>The contract of a key set\<close>

text \<open>
  What the authorization manager relies on: a granted pattern decides its own name, tools the
  pattern does not cover keep their level, and a covered tool's level is its old one or the
  granted one.
\<close>

locale key_store =
  fixes grant :: "'k \<Rightarrow> string \<Rightarrow> 'l::linorder \<Rightarrow> 'k"
    and level :: "'k \<Rightarrow> string \<Rightarrow> 'l"
    and covers :: "string \<Rightarrow> string \<Rightarrow> bool"
  assumes grant_self: "level (grant k p l) p = l"
    and grant_frame: "\<not> covers p t \<Longrightarrow> level (grant k p l) t = level k t"
    and grant_either: "level (grant k p l) t = level k t \<or> level (grant k p l) t = l"
begin

lemma grant_upper: "level k t \<le> m \<Longrightarrow> l \<le> m \<Longrightarrow> level (grant k p l) t \<le> m"
  using grant_either [of k p l t] by auto

lemma grants_upper:
  "level k t \<le> m \<Longrightarrow> \<forall>(p, l) \<in> set gs. l \<le> m \<Longrightarrow> level (foldl (\<lambda>k (p, l). grant k p l) k gs) t \<le> m"
  by (induction gs arbitrary: k) (auto intro: grant_upper)

lemma grants_frame:
  "\<forall>(p, l) \<in> set gs. \<not> covers p t \<Longrightarrow> level (foldl (\<lambda>k (p, l). grant k p l) k gs) t = level k t"
  by (induction gs arbitrary: k) (auto simp: grant_frame)

end

text \<open>A pattern covers its own name, the tools of its server, or everything.\<close>

definition key_covers :: "string \<Rightarrow> string \<Rightarrow> bool" where
  "key_covers pattern tool \<longleftrightarrow>
     pattern = tool \<or> (pattern \<noteq> [] \<and> pattern = server_wildcard tool) \<or> pattern = ''*''"

interpretation keys: key_store key_grant find_best_match key_covers
proof
  fix k p l t
  show "find_best_match (key_grant k p l) p = l"
    by (simp add: find_best_match_def key_grant_def)
  show "find_best_match (key_grant k p l) t = find_best_match k t \<or>
      find_best_match (key_grant k p l) t = l"
    by (auto simp: find_best_match_def key_grant_def Let_def split: option.splits if_splits)
  assume "\<not> key_covers p t"
  then show "find_best_match (key_grant k p l) t = find_best_match k t"
    by (auto simp: find_best_match_def key_grant_def key_covers_def Let_def split: option.splits)
qed

lemma has_access_le: "has_access k t l \<longleftrightarrow> l \<le> find_best_match k t"
  by (simp add: has_access_def less_eq_mcp_access_level_def)

subsection \<open>The authorization manager\<close>

type_synonym auth_state = "(string \<times> key_set) list"

definition register_identity :: "auth_state \<Rightarrow> string \<Rightarrow> auth_state" where
  "register_identity st name = (if map_of st name = None then AList.update name [] st else st)"

definition unregister_identity :: "auth_state \<Rightarrow> string \<Rightarrow> auth_state" where
  "unregister_identity st name = AList.delete name st"

definition is_enforced :: "auth_state \<Rightarrow> string \<Rightarrow> bool" where
  "is_enforced st name \<longleftrightarrow> map_of st name \<noteq> None"

definition auth_grant ::
  "auth_state \<Rightarrow> string \<Rightarrow> string \<Rightarrow> mcp_access_level \<Rightarrow> entropic_error \<times> auth_state" where
  "auth_grant st name pattern level =
     (case map_of st name of
        None \<Rightarrow> (ENTROPIC_ERROR_IDENTITY_NOT_FOUND, st)
      | Some ks \<Rightarrow> (ENTROPIC_OK, AList.update name (key_grant ks pattern level) st))"

definition auth_revoke :: "auth_state \<Rightarrow> string \<Rightarrow> string \<Rightarrow> entropic_error \<times> auth_state" where
  "auth_revoke st name pattern =
     (case map_of st name of
        None \<Rightarrow> (ENTROPIC_ERROR_IDENTITY_NOT_FOUND, st)
      | Some ks \<Rightarrow> (ENTROPIC_OK, AList.update name (snd (key_revoke ks pattern)) st))"

definition check_access :: "auth_state \<Rightarrow> string \<Rightarrow> string \<Rightarrow> mcp_access_level \<Rightarrow> bool" where
  "check_access st name tool required =
     (case map_of st name of None \<Rightarrow> True | Some ks \<Rightarrow> has_access ks tool required)"

definition grant_from ::
  "auth_state \<Rightarrow> string \<Rightarrow> string \<Rightarrow> string \<Rightarrow> mcp_access_level \<Rightarrow> entropic_error \<times> auth_state" where
  "grant_from st granter grantee pattern level =
     (case (map_of st granter, map_of st grantee) of
        (Some gr, Some ge) \<Rightarrow>
          (if \<not> has_access gr pattern level then (ENTROPIC_ERROR_PERMISSION_DENIED, st)
           else (ENTROPIC_OK, AList.update grantee (key_grant ge pattern level) st))
      | _ \<Rightarrow> (ENTROPIC_ERROR_IDENTITY_NOT_FOUND, st))"

definition list_keys :: "auth_state \<Rightarrow> string \<Rightarrow> (string \<times> mcp_access_level) list" where
  "list_keys st name = (case map_of st name of None \<Rightarrow> [] | Some ks \<Rightarrow> key_list ks)"

text \<open>
  \<open>serialize_all\<close>: each key set is printed and parsed again, then the object of all of them
  is printed. The parse throws (\<^const>\<open>None\<close>) only if the library cannot read what it printed.
\<close>

fun all_json :: "(json \<Rightarrow> string) \<Rightarrow> (string \<Rightarrow> json option) \<Rightarrow> auth_state \<Rightarrow> (string \<times> json) list option" where
  "all_json dump parse [] = Some []"
| "all_json dump parse ((name, ks) # st) =
     (case (parse (key_serialize dump ks), all_json dump parse st) of
        (Some j, Some rest) \<Rightarrow> Some ((name, j) # rest)
      | _ \<Rightarrow> None)"

definition serialize_all :: "(json \<Rightarrow> string) \<Rightarrow> (string \<Rightarrow> json option) \<Rightarrow> auth_state \<Rightarrow> string option" where
  "serialize_all dump parse st = map_option (\<lambda>kvs. dump (JObject kvs)) (all_json dump parse st)"

fun restore_sets ::
  "(json \<Rightarrow> string) \<Rightarrow> (string \<Rightarrow> json option) \<Rightarrow> auth_state \<Rightarrow> (string \<times> json) list \<Rightarrow>
   deserialize_result \<times> auth_state" where
  "restore_sets dump parse st [] = (Restored, st)"
| "restore_sets dump parse st ((name, arr) # rest) =
     (let ks = (case map_of st name of None \<Rightarrow> [] | Some k \<Rightarrow> k) in
      case key_deserialize parse ks (dump arr) of
        (JsonTypeError, ks') \<Rightarrow> (JsonTypeError, AList.update name ks' st)
      | (_, ks') \<Rightarrow> restore_sets dump parse (AList.update name ks' st) rest)"

definition deserialize_all ::
  "(json \<Rightarrow> string) \<Rightarrow> (string \<Rightarrow> json option) \<Rightarrow> auth_state \<Rightarrow> string \<Rightarrow> deserialize_result \<times> auth_state" where
  "deserialize_all dump parse st text =
     (case parse text of
        None \<Rightarrow> (Rejected, st)
      | Some (JObject kvs) \<Rightarrow> restore_sets dump parse [] kvs
      | Some _ \<Rightarrow> (Rejected, st))"

subsection \<open>Permission patterns\<close>

text \<open>
  \<open>fnmatch\<close> with flags 0 is the C library's; it is the parameter \<open>fnm\<close> (pattern, then string).
\<close>

record permissions =
  allow_list :: "string list"
  deny_list :: "string list"

definition pattern_matches :: "(string \<Rightarrow> string \<Rightarrow> bool) \<Rightarrow> string \<Rightarrow> string \<Rightarrow> string \<Rightarrow> bool" where
  "pattern_matches fnm tool_name full_pattern permission_pattern =
     (let colon = find_char (CHR '':'') permission_pattern;
          pattern_tool = (case colon of Some i \<Rightarrow> take i permission_pattern | None \<Rightarrow> permission_pattern)
      in if \<not> fnm pattern_tool tool_name then False
         else if colon = None then True
         else fnm permission_pattern full_pattern)"

definition is_denied :: "(string \<Rightarrow> string \<Rightarrow> bool) \<Rightarrow> permissions \<Rightarrow> string \<Rightarrow> string \<Rightarrow> bool" where
  "is_denied fnm p tool pattern = list_ex (pattern_matches fnm tool pattern) (deny_list p)"

definition is_allowed :: "(string \<Rightarrow> string \<Rightarrow> bool) \<Rightarrow> permissions \<Rightarrow> string \<Rightarrow> string \<Rightarrow> bool" where
  "is_allowed fnm p tool pattern = list_ex (pattern_matches fnm tool pattern) (allow_list p)"

definition add_permission :: "permissions \<Rightarrow> string \<Rightarrow> bool \<Rightarrow> permissions" where
  "add_permission p pattern allow =
     (if allow
      then (if pattern \<in> set (allow_list p) then p else p\<lparr>allow_list := allow_list p @ [pattern]\<rparr>)
      else (if pattern \<in> set (deny_list p) then p else p\<lparr>deny_list := deny_list p @ [pattern]\<rparr>))"

lemma add_permission_sets:
  "set (allow_list (add_permission p pat True)) = insert pat (set (allow_list p))"
  "set (deny_list (add_permission p pat False)) = insert pat (set (deny_list p))"
  "deny_list (add_permission p pat True) = deny_list p"
  "allow_list (add_permission p pat False) = allow_list p"
  by (auto simp: add_permission_def)


subsection \<open>Delegated grants\<close>

text \<open>An exact pattern is a tool name: neither \<open>*\<close> nor of the form \<open>server.*\<close>.\<close>

definition exact_pattern :: "string \<Rightarrow> bool" where
  "exact_pattern p \<longleftrightarrow> p \<noteq> ''*'' \<and> \<not> suffix ''.*'' p"

lemma exact_covers: "exact_pattern p \<Longrightarrow> key_covers p t \<Longrightarrow> t = p"
  by (auto simp: exact_pattern_def key_covers_def server_wildcard_def suffix_def split: option.splits)

lemma grant_from_OK:
  assumes "grant_from st g h p l = (ENTROPIC_OK, st')"
  obtains kg kh where "map_of st g = Some kg" "map_of st h = Some kh" "l \<le> find_best_match kg p"
    "st' = AList.update h (key_grant kh p l) st"
  using assms
  by (auto simp: grant_from_def has_access_le split: option.splits if_splits)

lemma grant_from_error:
  "grant_from st g h p l = (e, st') \<Longrightarrow> e \<noteq> ENTROPIC_OK \<Longrightarrow> st' = st"
  by (auto simp: grant_from_def split: option.splits if_splits)

lemma check_access_le:
  "map_of st n = Some ks \<Longrightarrow> check_access st n t r \<longleftrightarrow> r \<le> find_best_match ks t"
  by (simp add: check_access_def has_access_le)

subsection \<open>Round trips\<close>

lemma json_entry [simp]:
  "json_contains (JObject [(''level'', a), (''pattern'', b)]) ''pattern''"
  "json_contains (JObject [(''level'', a), (''pattern'', b)]) ''level''"
  "json_get_string (JObject [(''level'', JString s), (''pattern'', JString p)]) ''level'' = Some s"
  "json_get_string (JObject [(''level'', JString s), (''pattern'', JString p)]) ''pattern'' = Some p"
  by (simp_all add: json_contains_def json_get_string_def)

lemma restore_entries_keyset:
  "distinct (map fst (acc @ keys)) \<Longrightarrow>
   restore_entries acc (map (\<lambda>(pattern, level). JObject
     [(''level'', JString (mcp_access_level_name level)), (''pattern'', JString pattern)]) keys)
   = (Restored, acc @ keys)"
proof (induction keys arbitrary: acc)
  case (Cons k keys)
  obtain pat l where k: "k = (pat, l)" by (cases k)
  then have "pat \<notin> fst ` set acc" using Cons.prems by auto
  with Cons k show ?case by (simp add: AList_update_new)
qed simp

lemma key_deserialize_serialize:
  assumes "distinct (map fst keys)" "parse (dump (keyset_json keys)) = Some (keyset_json keys)"
  shows "key_deserialize parse old (dump (keyset_json keys)) = (Restored, keys)"
  using assms restore_entries_keyset [of "[]" keys]
  by (simp add: key_deserialize_def keyset_json_def)

definition auth_inv :: "auth_state \<Rightarrow> bool" where
  "auth_inv st \<longleftrightarrow> distinct (map fst st) \<and> (\<forall>(n, ks) \<in> set st. distinct (map fst ks))"

lemma all_json_Some:
  "\<forall>(n, ks) \<in> set st. parse (dump (keyset_json ks)) = Some (keyset_json ks) \<Longrightarrow>
   all_json dump parse st = Some (map (\<lambda>(n, ks). (n, keyset_json ks)) st)"
  by (induction st) (auto simp: key_serialize_def)

lemma restore_sets_all:
  assumes "\<forall>(n, ks) \<in> set st. distinct (map fst ks) \<and> parse (dump (keyset_json ks)) = Some (keyset_json ks)"
    and "distinct (map fst (acc @ st))"
  shows "restore_sets dump parse acc (map (\<lambda>(n, ks). (n, keyset_json ks)) st) = (Restored, acc @ st)"
  using assms
proof (induction st arbitrary: acc)
  case (Cons x st)
  obtain n ks where x: "x = (n, ks)" by (cases x)
  then have "n \<notin> fst ` set acc" using Cons.prems by auto
  with Cons x show ?case
    by (simp add: key_deserialize_serialize AList_update_new Let_def)
qed simp

subsection \<open>Every operation keeps the state well formed\<close>

lemma auth_inv_lookup: "auth_inv st \<Longrightarrow> map_of st n = Some ks \<Longrightarrow> distinct (map fst ks)"
  by (auto simp: auth_inv_def dest: map_of_SomeD)

lemma set_AList_update: "x \<in> set (AList.update k v m) \<Longrightarrow> x \<in> set m \<or> x = (k, v)"
  by (induction m) (auto split: if_splits)

lemma set_AList_delete: "x \<in> set (AList.delete k m) \<Longrightarrow> x \<in> set m"
  by (simp add: AList.delete_eq)

lemma auth_inv_update:
  "auth_inv st \<Longrightarrow> distinct (map fst ks) \<Longrightarrow> auth_inv (AList.update n ks st)"
  by (auto simp: auth_inv_def dest: set_AList_update)

lemma auth_ops_inv [inv_intros]:
  assumes "auth_inv st"
  shows "auth_inv (register_identity st n)" "auth_inv (unregister_identity st n)"
    "auth_inv (snd (auth_grant st n p l))" "auth_inv (snd (auth_revoke st n p))"
    "auth_inv (snd (grant_from st g n p l))"
proof -
  show "auth_inv (register_identity st n)"
    using assms by (simp add: register_identity_def auth_inv_update)
  show "auth_inv (unregister_identity st n)"
    using assms set_AList_delete by (fastforce simp: unregister_identity_def auth_inv_def)
  show "auth_inv (snd (auth_grant st n p l))" "auth_inv (snd (auth_revoke st n p))"
    "auth_inv (snd (grant_from st g n p l))"
    using assms auth_inv_lookup [OF assms]
    by (auto simp: auth_grant_def auth_revoke_def grant_from_def key_grant_def key_revoke_def
        intro!: auth_inv_update split: option.splits)
qed

subsection \<open>Properties\<close>

text \<open>
  Claim C17. A delegated grant of a tool's own key never escalates: when \<open>grant_from\<close> succeeds for
  an exact tool name, whatever the grantee may use afterwards it could use before or the granter
  may use, and every other identity's access decisions are unchanged. When it fails, with either
  error, the state is unchanged.
\<close>

theorem grant_from_no_escalation:
  assumes "exact_pattern p" "grant_from st g h p l = (e, st')"
  shows "(check_access st' h t r \<longrightarrow> check_access st h t r \<or> check_access st g t r) \<and>
    (n \<noteq> h \<longrightarrow> check_access st' n t r = check_access st n t r) \<and>
    (e \<noteq> ENTROPIC_OK \<longrightarrow> st' = st)"
proof (cases "e = ENTROPIC_OK")
  case False
  with assms show ?thesis using grant_from_error by blast
next
  case True
  with assms obtain kg kh where k: "map_of st g = Some kg" "map_of st h = Some kh"
    "l \<le> find_best_match kg p" "st' = AList.update h (key_grant kh p l) st"
    by (metis grant_from_OK)
  have "find_best_match (key_grant kh p l) t \<le> max (find_best_match kh t) (find_best_match kg t)"
  proof (cases "t = p")
    case True
    with k(3) show ?thesis by (simp add: keys.grant_self le_max_iff_disj)
  next
    case False
    then have "\<not> key_covers p t" using assms(1) exact_covers by blast
    then show ?thesis by (simp add: keys.grant_frame)
  qed
  then have "r \<le> find_best_match (key_grant kh p l) t \<Longrightarrow>
      r \<le> find_best_match kh t \<or> r \<le> find_best_match kg t"
    by (auto simp: le_max_iff_disj dest: order_trans)
  with k True show ?thesis by (auto simp: check_access_le check_access_def has_access_le)
qed

theorem grant_from_no_escalation_witness:
  "let st = [(''lead'', [(''fs.*'', WRITE)]), (''eng'', [(''fs.read'', READ)])];
       st' = [(''lead'', [(''fs.*'', WRITE)]), (''eng'', [(''fs.read'', WRITE)])]
   in (check_access st' ''eng'' ''fs.read'' WRITE \<longrightarrow>
        check_access st ''eng'' ''fs.read'' WRITE \<or> check_access st ''lead'' ''fs.read'' WRITE) \<and>
      check_access st' ''eng'' ''fs.read'' WRITE"
proof -
  let ?st = "[(''lead'', [(''fs.*'', WRITE)]), (''eng'', [(''fs.read'', READ)])]"
  let ?st' = "[(''lead'', [(''fs.*'', WRITE)]), (''eng'', [(''fs.read'', WRITE)])]"
  have e: "exact_pattern ''fs.read''" by code_simp
  have g: "grant_from ?st ''lead'' ''eng'' ''fs.read'' WRITE = (ENTROPIC_OK, ?st')" by code_simp
  have "check_access ?st' ''eng'' ''fs.read'' WRITE" by code_simp
  with grant_from_no_escalation [OF e g, of "''fs.read''" WRITE] show ?thesis by simp
qed

text \<open>
  A server wildcard is checked against the granter's own entry for that wildcard only: a
  granter with a per-tool exception can hand on the wildcard without the exception.
\<close>

lemma grant_from_wildcard_loses_exception:
  "let st = [(''lead'', [(''fs.*'', WRITE), (''fs.rm'', NONE)]), (''eng'', [])];
       st' = snd (grant_from st ''lead'' ''eng'' ''fs.*'' WRITE)
   in \<not> check_access st ''lead'' ''fs.rm'' READ \<and> check_access st' ''eng'' ''fs.rm'' WRITE"
  by code_simp

text \<open>
  Saving and restoring authorizations is lossless: for a well-formed state, if the JSON
  library reads back what it printed for each key set and reads the printed object of all of them
  as an object with the same members (in any order), then \<open>deserialize_all\<close> of the text
  \<open>serialize_all\<close> returned succeeds and every identity has exactly its key set again.
\<close>

lemma auth_roundtrip:
  assumes "auth_inv st"
    and "\<forall>(n, ks) \<in> set st. parse (dump (keyset_json ks)) = Some (keyset_json ks)"
    and "mset st' = mset st"
    and "parse (dump (JObject (map (\<lambda>(n, ks). (n, keyset_json ks)) st))) =
         Some (JObject (map (\<lambda>(n, ks). (n, keyset_json ks)) st'))"
  shows "\<exists>text. serialize_all dump parse st = Some text \<and>
    (\<exists>new. deserialize_all dump parse old text = (Restored, new) \<and> map_of new = map_of st)"
proof (intro exI conjI)
  let ?text = "dump (JObject (map (\<lambda>(n, ks). (n, keyset_json ks)) st))"
  show "serialize_all dump parse st = Some ?text"
    using assms(2) by (simp add: serialize_all_def all_json_Some)
  have "set st' = set st" "distinct (map fst st')"
    using assms(1,3) by (auto simp: auth_inv_def dest: mset_eq_setD)
      (metis distinct_map mset_eq_imp_distinct_iff mset_eq_setD)
  with assms(1,2) have "restore_sets dump parse [] (map (\<lambda>(n, ks). (n, keyset_json ks)) st') = (Restored, [] @ st')"
    by (intro restore_sets_all) (auto simp: auth_inv_def)
  then show "deserialize_all dump parse old ?text = (Restored, st')"
    using assms(4) by (simp add: deserialize_all_def)
  show "map_of st' = map_of st"
    using assms(1) \<open>set st' = set st\<close> \<open>distinct (map fst st')\<close>
    by (intro map_of_inject_set [THEN iffD2]) (auto simp: auth_inv_def)
qed


lemma auth_roundtrip_witness:
  "let st = [(''lead'', [(''fs.*'', WRITE), (''*'', READ)])];
       dump = (\<lambda>j. case j of JArray _ \<Rightarrow> ''array'' | _ \<Rightarrow> ''object'');
       parse = (\<lambda>t. if t = ''array'' then Some (keyset_json [(''fs.*'', WRITE), (''*'', READ)])
                 else Some (JObject [(''lead'', keyset_json [(''fs.*'', WRITE), (''*'', READ)])]))
   in \<exists>text. serialize_all dump parse st = Some text \<and>
        (\<exists>new. deserialize_all dump parse [] text = (Restored, new) \<and> map_of new = map_of st)"
  unfolding Let_def
  by (rule auth_roundtrip [where st' = "[(''lead'', [(''fs.*'', WRITE), (''*'', READ)])]"])
     (simp_all add: auth_inv_def keyset_json_def)

end
