(* ===== verification/Delegation.thy ===== *)
theory Delegation
  imports Engine_Types Utf8_Sanitize Access_Control "HOL-Library.Monad_Syntax"
begin

text \<open>
  The delegation manager (\<open>src/core/delegation.cpp\<close>): building a child's loop context, running
  the child, turning its final context into a delegation result, and the sandbox the child may
  run in.

  Consumer callbacks, storage, todo lists, the sandbox on disk and the child's loop are
  parameters acting on the outside world \<open>'w\<close>; \<^const>\<open>None\<close> in a field stands for a null
  pointer. A definition that runs a child returns an \<^typ>\<open>'a option\<close>: \<^const>\<open>None\<close> when
  the child's loop does not return or a JSON exception propagates.
\<close>

subsection \<open>Types and environment\<close>

record delegation_result =
  summary :: string
  success :: bool
  result_tier :: string
  result_task :: string
  turns_used :: int
  child_messages :: "message list"
  terminal_reason :: string
  coverage_gap :: bool
  gap_description :: string
  suggested_files :: "string list"

definition default_delegation_result :: delegation_result where
  "default_delegation_result = \<lparr>summary = [], success = False, result_tier = [], result_task = [],
     turns_used = 0, child_messages = [], terminal_reason = [], coverage_gap = False,
     gap_description = [], suggested_files = []\<rparr>"

definition failed_delegation :: "string \<Rightarrow> string \<Rightarrow> string \<Rightarrow> delegation_result" where
  "failed_delegation why tier tsk = default_delegation_result
     \<lparr>summary := why, success := False, result_tier := tier, result_task := tsk\<rparr>"

datatype decision = ACCEPT | REJECT

record sandbox_info =
  sandbox_id :: string
  sandbox_path :: string

record sandbox_result =
  patch :: string
  files_touched :: "string list"

text \<open>\<open>SandboxManager\<close>, as far as delegations use it.\<close>

record 'w sandbox_ops =
  sb_next_id :: "'w \<Rightarrow> string \<Rightarrow> 'w \<times> string"
  sb_create :: "'w \<Rightarrow> string \<Rightarrow> 'w \<times> sandbox_info option"
  sb_finalize :: "'w \<Rightarrow> sandbox_info \<Rightarrow> 'w \<times> sandbox_result option"
  sb_discard :: "'w \<Rightarrow> sandbox_info \<Rightarrow> 'w"
  sb_write_pending :: "'w \<Rightarrow> string \<Rightarrow> string \<Rightarrow> 'w"

text \<open>A callback that throws gives \<^const>\<open>None\<close> as its decision.\<close>

record 'w delegation_env =
  resolve_tier :: "(string \<Rightarrow> child_context_info) option"
  start_cb :: "('w \<Rightarrow> string \<Rightarrow> string \<Rightarrow> string \<Rightarrow> int \<Rightarrow> bool \<Rightarrow> 'w \<times> decision option) option"
  complete_cb :: "('w \<Rightarrow> sandbox_info \<Rightarrow> sandbox_result \<Rightarrow> delegation_result \<Rightarrow> 'w \<times> decision option) option"
  sandbox_mgr :: "'w sandbox_ops option"
  swap_dir :: "('w \<Rightarrow> string \<Rightarrow> string \<Rightarrow> bool \<Rightarrow> 'w) option"
  repo_dir :: string
  create_delegation :: "('w \<Rightarrow> string \<Rightarrow> string \<Rightarrow> string \<Rightarrow> string \<Rightarrow> int \<Rightarrow> 'w \<times> string \<times> string) option"
  complete_delegation :: "('w \<Rightarrow> string \<Rightarrow> string \<Rightarrow> string \<Rightarrow> 'w) option"
  todo_save :: "('w \<Rightarrow> 'w \<times> string) option"
  todo_fresh :: "('w \<Rightarrow> 'w) option"
  todo_restore :: "('w \<Rightarrow> string \<Rightarrow> 'w) option"
  env_json_parse :: "string \<Rightarrow> json option"
  child_loop :: "'w \<Rightarrow> loop_context \<Rightarrow> ('w \<times> loop_context) option"

subsection \<open>Sandbox and consumer callbacks\<close>

definition mint_delegation_id :: "'w delegation_env \<Rightarrow> 'w \<Rightarrow> string \<Rightarrow> 'w \<times> string" where
  "mint_delegation_id env w pre =
     (case sandbox_mgr env of None \<Rightarrow> (w, pre) | Some sb \<Rightarrow> sb_next_id sb w pre)"

definition restore_root_for :: "'w delegation_env \<Rightarrow> loop_context \<Rightarrow> string" where
  "restore_root_for env parent_ctx =
     (if active_root parent_ctx \<noteq> [] then active_root parent_ctx else repo_dir env)"

definition fire_start_cb ::
  "'w delegation_env \<Rightarrow> 'w \<Rightarrow> string \<Rightarrow> string \<Rightarrow> string \<Rightarrow> int \<Rightarrow> bool \<Rightarrow> 'w \<times> decision" where
  "fire_start_cb env w del_id target_tier tsk depth is_pipeline =
     (case start_cb env of None \<Rightarrow> (w, ACCEPT)
      | Some cb \<Rightarrow> (case cb w del_id target_tier tsk depth is_pipeline of
          (w', Some d) \<Rightarrow> (w', d)
        | (w', None) \<Rightarrow> (w', REJECT)))"

definition invoke_complete_cb ::
  "('w \<Rightarrow> sandbox_info \<Rightarrow> sandbox_result \<Rightarrow> delegation_result \<Rightarrow> 'w \<times> decision option) \<Rightarrow>
   'w \<Rightarrow> sandbox_info \<Rightarrow> sandbox_result \<Rightarrow> delegation_result \<Rightarrow> 'w \<times> decision" where
  "invoke_complete_cb cb w sb_info sb_result result =
     (case cb w sb_info sb_result result of (w', Some d) \<Rightarrow> (w', d) | (w', None) \<Rightarrow> (w', REJECT))"

definition persist_pending_patch ::
  "'w sandbox_ops \<Rightarrow> 'w \<Rightarrow> sandbox_info \<Rightarrow> sandbox_result \<Rightarrow> 'w" where
  "persist_pending_patch sb w sb_info sb_result =
     sb_write_pending sb w (sandbox_id sb_info) (patch sb_result)"

definition deliver_sandbox_result ::
  "'w delegation_env \<Rightarrow> 'w sandbox_ops \<Rightarrow> 'w \<Rightarrow> sandbox_info \<Rightarrow> sandbox_result \<Rightarrow> delegation_result \<Rightarrow> 'w" where
  "deliver_sandbox_result env sb w sb_info sb_result result =
     (case complete_cb env of
        None \<Rightarrow> persist_pending_patch sb w sb_info sb_result
      | Some cb \<Rightarrow>
          (case invoke_complete_cb cb w sb_info sb_result result of
             (w', REJECT) \<Rightarrow> persist_pending_patch sb w' sb_info sb_result
           | (w', ACCEPT) \<Rightarrow> w'))"

definition finalize_sandbox_for ::
  "'w delegation_env \<Rightarrow> 'w \<Rightarrow> sandbox_info option \<Rightarrow> delegation_result \<Rightarrow> 'w" where
  "finalize_sandbox_for env w sb_info result =
     (case (sb_info, sandbox_mgr env) of
        (Some info, Some sb) \<Rightarrow>
          let w' = (if success result
                    then (case sb_finalize sb w info of
                            (w1, Some pr) \<Rightarrow> deliver_sandbox_result env sb w1 info pr result
                          | (w1, None) \<Rightarrow> w1)
                    else w)
          in sb_discard sb w' info
      | _ \<Rightarrow> w)"

definition check_delegation_preconditions ::
  "'w delegation_env \<Rightarrow> 'w \<Rightarrow> child_context_info \<Rightarrow> string \<Rightarrow> string \<Rightarrow> string \<Rightarrow> int \<Rightarrow>
   'w \<times> delegation_result option \<times> sandbox_info option" where
  "check_delegation_preconditions env w info target_tier tsk del_id depth =
     (if \<not> info_valid info
      then (w, Some (failed_delegation (''Unknown tier: '' @ target_tier) target_tier tsk), None)
      else case fire_start_cb env w del_id target_tier tsk depth False of
        (w1, REJECT) \<Rightarrow>
          (w1, Some (failed_delegation ''Delegation rejected by consumer'' target_tier tsk), None)
      | (w1, ACCEPT) \<Rightarrow>
          (case sandbox_mgr env of
             None \<Rightarrow> (w1, None, None)
           | Some sb \<Rightarrow>
               (case sb_create sb w1 del_id of
                  (w2, Some sbi) \<Rightarrow> (w2, None, Some sbi)
                | (w2, None) \<Rightarrow>
                    (w2, Some (failed_delegation ''(DELEGATION FAILED: session sandbox unavailable)''
                                 target_tier tsk), None))))"

subsection \<open>Child contexts\<close>

fun format_refs :: "context_ref list \<Rightarrow> string" where
  "format_refs [] = []"
| "format_refs (r # rs) =
     ''- '' @ ref_path r @
     (if ref_lines r \<noteq> [] then '' (lines '' @ ref_lines r @ '')'' else []) @
     (if ref_note r \<noteq> [] then '' '' @ [CHR 0xE2, CHR 0x80, CHR 0x94] @ '' '' @ ref_note r else []) @
     [CHR 0x0A] @ format_refs rs"

definition format_context_block :: "context_ref list \<Rightarrow> string" where
  "format_context_block refs =
     (if refs = [] then []
      else ''[CONTEXT] The lead already located these files. Read them '' @
           ''directly instead of searching:'' @ [CHR 0x0A] @ format_refs refs @ [CHR 0x0A])"

definition with_instructions :: "child_context_info \<Rightarrow> string \<Rightarrow> string" where
  "with_instructions info text =
     (if completion_instructions info \<noteq> []
      then text @ [CHR 0x0A, CHR 0x0A] @ completion_instructions info else text)"

definition build_child_context ::
  "loop_context \<Rightarrow> child_context_info \<Rightarrow> string \<Rightarrow> context_ref list \<Rightarrow> loop_context" where
  "build_child_context parent_ctx info tsk refs = default_context
     \<lparr>delegation_depth := delegation_depth parent_ctx + 1,
      parent_conversation_id := conversation_id parent_ctx,
      session_key := session_key parent_ctx,
      delegation_ancestor_tiers := delegation_ancestor_tiers parent_ctx @
        (if locked_tier parent_ctx \<noteq> [] then [locked_tier parent_ctx] else []),
      locked_tier := (if info_system_prompt info = [] then locked_tier parent_ctx else []),
      active_phase := ''default'',
      messages := [text_message ''system'' (info_system_prompt info),
        text_message ''user'' (with_instructions info (format_context_block refs @ tsk))]\<rparr>"

definition build_resumed_child_context ::
  "loop_context \<Rightarrow> child_context_info \<Rightarrow> string \<Rightarrow> string \<Rightarrow> message list \<Rightarrow> loop_context" where
  "build_resumed_child_context parent_ctx info target_tier tsk seed_history =
     (let has_system = (seed_history \<noteq> [] \<and> role (hd seed_history) = ''system'');
          with_sys = (if \<not> has_system \<and> info_system_prompt info \<noteq> []
                      then text_message ''system'' (info_system_prompt info) # seed_history
                      else seed_history)
      in default_context
           \<lparr>delegation_depth := delegation_depth parent_ctx + 1,
            delegation_ancestor_tiers := delegation_ancestor_tiers parent_ctx @ [target_tier],
            parent_conversation_id := conversation_id parent_ctx,
            session_key := session_key parent_ctx,
            active_phase := ''default'',
            locked_tier := target_tier,
            messages := with_sys @ [text_message ''user'' (with_instructions info tsk)]\<rparr>)"

subsection \<open>Running a child\<close>

fun last_assistant :: "message list \<Rightarrow> string option" where
  "last_assistant [] = None"
| "last_assistant (m # rev_ms) =
     (if role m = ''assistant'' \<and> content m \<noteq> [] then Some (content m) else last_assistant rev_ms)"

definition extract_summary :: "loop_context \<Rightarrow> string" where
  "extract_summary child_ctx =
     (case ctx_meta child_ctx ''explicit_completion_summary'' of
        Some (c # cs) \<Rightarrow> sanitize (c # cs)
      | _ \<Rightarrow> (case last_assistant (rev (messages child_ctx)) of
                Some t \<Rightarrow> sanitize t
              | None \<Rightarrow> ''(No response from delegate)''))"

definition create_storage_record ::
  "'w delegation_env \<Rightarrow> 'w \<Rightarrow> loop_context \<Rightarrow> string \<Rightarrow> string \<Rightarrow> int option \<Rightarrow> 'w \<times> loop_context \<times> string" where
  "create_storage_record env w child_ctx target_tier tsk mt =
     (case create_delegation env of
        None \<Rightarrow> (w, child_ctx, [])
      | Some f \<Rightarrow>
          let src_tier = (if locked_tier child_ctx = [] then ''root'' else locked_tier child_ctx)
          in case f w (parent_conversation_id child_ctx) src_tier target_tier tsk
                    (case mt of None \<Rightarrow> 0 | Some n \<Rightarrow> n) of
            (w', del_id, child_conv_id) \<Rightarrow> (w', child_ctx\<lparr>conversation_id := child_conv_id\<rparr>, del_id))"

definition complete_storage_record ::
  "'w delegation_env \<Rightarrow> 'w \<Rightarrow> string \<Rightarrow> delegation_result \<Rightarrow> 'w" where
  "complete_storage_record env w del_id result =
     (case complete_delegation env of
        None \<Rightarrow> w
      | Some f \<Rightarrow> if del_id = [] then w
          else f w del_id (if success result then ''completed'' else ''failed'') (summary result))"

text \<open>\<open>parsed.get<std::vector<std::string>>()\<close> throws on an element that is not a string.\<close>

fun json_strings :: "json list \<Rightarrow> string list option" where
  "json_strings [] = Some []"
| "json_strings (JString s # js) = map_option ((#) s) (json_strings js)"
| "json_strings (_ # js) = None"

definition parse_suggested_files :: "'w delegation_env \<Rightarrow> loop_context \<Rightarrow> string list option" where
  "parse_suggested_files env child_ctx =
     (case ctx_meta child_ctx ''suggested_files_json'' of
        None \<Rightarrow> Some []
      | Some s \<Rightarrow> (case env_json_parse env s of
          Some (JArray js) \<Rightarrow> json_strings js
        | _ \<Rightarrow> Some []))"

definition build_child_result ::
  "'w delegation_env \<Rightarrow> string \<Rightarrow> string \<Rightarrow> loop_context \<Rightarrow> delegation_result option" where
  "build_child_result env target_tier tsk child_ctx =
     (let tr = (case ctx_meta child_ctx ''terminal_reason'' of None \<Rightarrow> [] | Some r \<Rightarrow> r);
          base = default_delegation_result
            \<lparr>result_tier := target_tier, result_task := tsk, terminal_reason := tr,
             success := (ctx_state child_ctx = COMPLETE \<and> tr = []),
             turns_used := iterations (metrics child_ctx),
             summary := extract_summary child_ctx,
             child_messages := messages child_ctx\<rparr>
      in if ctx_meta child_ctx ''coverage_gap'' = Some ''true'' then
           do { files \<leftarrow> parse_suggested_files env child_ctx;
                Some (base\<lparr>coverage_gap := True,
                  gap_description := (case ctx_meta child_ctx ''gap_description'' of None \<Rightarrow> [] | Some g \<Rightarrow> g),
                  suggested_files := files\<rparr>) }
         else Some base)"

definition run_child ::
  "'w delegation_env \<Rightarrow> 'w \<Rightarrow> loop_context \<Rightarrow> string \<Rightarrow> string \<Rightarrow> int option \<Rightarrow>
   ('w \<times> delegation_result) option" where
  "run_child env w child_ctx target_tier tsk mt =
     (let (w1, saved) = (case todo_save env of None \<Rightarrow> (w, []) | Some f \<Rightarrow> f w);
          w2 = (case todo_fresh env of None \<Rightarrow> w1 | Some f \<Rightarrow> f w1);
          (w3, c1, del_id) = create_storage_record env w2 child_ctx target_tier tsk mt;
          c2 = (case mt of Some n \<Rightarrow> if n > 0 then c1\<lparr>delegated_max_turns := n\<rparr> else c1 | None \<Rightarrow> c1)
      in do {
           (w4, c3) \<leftarrow> child_loop env w3 c2;
           let w5 = (case todo_restore env of None \<Rightarrow> w4
                     | Some f \<Rightarrow> if saved \<noteq> [] then f w4 saved else w4);
           result \<leftarrow> build_child_result env target_tier tsk c3;
           Some (complete_storage_record env w5 del_id result, result) })"

text \<open>
  Running inside the sandbox: the session's tool root is moved to the sandbox for the child's
  turns and moved back by the destructor of \<open>ScopedSandbox\<close>.
\<close>

definition run_child_scoped ::
  "'w delegation_env \<Rightarrow> 'w \<Rightarrow> loop_context \<Rightarrow> loop_context \<Rightarrow> sandbox_info option \<Rightarrow> string \<Rightarrow> string \<Rightarrow>
   int option \<Rightarrow> ('w \<times> delegation_result) option" where
  "run_child_scoped env w parent_ctx child_ctx sb_info target_tier tsk mt =
     (case (sb_info, swap_dir env) of
        (Some sbi, Some swap) \<Rightarrow>
          do { (w2, result) \<leftarrow> run_child env (swap w (session_key parent_ctx) (sandbox_path sbi) True)
                 (child_ctx\<lparr>active_root := sandbox_path sbi\<rparr>) target_tier tsk mt;
               Some (swap w2 (session_key parent_ctx) (restore_root_for env parent_ctx) False, result) }
      | _ \<Rightarrow> run_child env w child_ctx target_tier tsk mt)"

definition tier_info_for :: "'w delegation_env \<Rightarrow> string \<Rightarrow> child_context_info" where
  "tier_info_for env tier = (case resolve_tier env of None \<Rightarrow> default_child_info | Some f \<Rightarrow> f tier)"

definition execute_delegation ::
  "'w delegation_env \<Rightarrow> 'w \<Rightarrow> loop_context \<Rightarrow> string \<Rightarrow> string \<Rightarrow> int option \<Rightarrow> context_ref list \<Rightarrow>
   ('w \<times> delegation_result) option" where
  "execute_delegation env w parent_ctx target_tier tsk mt refs =
     (let info = tier_info_for env target_tier;
          depth = delegation_depth parent_ctx + 1;
          (w1, del_id) = mint_delegation_id env w (''d'' @ to_string_int depth)
      in case check_delegation_preconditions env w1 info target_tier tsk del_id depth of
           (w2, Some early, _) \<Rightarrow> Some (w2, early)
         | (w2, None, sb_info) \<Rightarrow>
             do { let child_ctx = (build_child_context parent_ctx info tsk refs)\<lparr>locked_tier := target_tier\<rparr>;
                  (w3, result) \<leftarrow> run_child_scoped env w2 parent_ctx child_ctx sb_info target_tier
                                     (format_context_block refs @ tsk) mt;
                  Some (finalize_sandbox_for env w3 sb_info result, result) })"

definition execute_resume_delegation ::
  "'w delegation_env \<Rightarrow> 'w \<Rightarrow> loop_context \<Rightarrow> string \<Rightarrow> string \<Rightarrow> message list \<Rightarrow> int option \<Rightarrow>
   context_ref list \<Rightarrow> ('w \<times> delegation_result) option" where
  "execute_resume_delegation env w parent_ctx target_tier tsk seed_history mt refs =
     (let info = tier_info_for env target_tier;
          depth = delegation_depth parent_ctx + 1;
          (w1, del_id) = mint_delegation_id env w (''d'' @ to_string_int depth @ ''r'')
      in case check_delegation_preconditions env w1 info target_tier tsk del_id depth of
           (w2, Some early, _) \<Rightarrow> Some (w2, early)
         | (w2, None, sb_info) \<Rightarrow>
             do { let recorded = format_context_block refs @ tsk;
                  let child_ctx = build_resumed_child_context parent_ctx info target_tier recorded seed_history;
                  (w3, result) \<leftarrow> run_child_scoped env w2 parent_ctx child_ctx sb_info target_tier recorded mt;
                  Some (finalize_sandbox_for env w3 sb_info result, result) })"

subsection \<open>Pipelines\<close>

definition pipeline_context_text :: "nat \<Rightarrow> string list \<Rightarrow> string \<Rightarrow> string" where
  "pipeline_context_text stage_idx all_stages prior_output =
     ''[PIPELINE CONTEXT]'' @ [CHR 0x0A] @
     ''Stage '' @ to_string_nat (stage_idx + 1) @ '' of '' @ to_string_nat (length all_stages) @ [CHR 0x0A] @
     ''Role: '' @ (all_stages ! stage_idx) @ [CHR 0x0A] @
     ''Stay within your role. Do not perform work outside your stage'' @ [CHR 0x27] @
     ''s responsibility.'' @ [CHR 0x0A] @
     (if prior_output \<noteq> []
      then [CHR 0x0A] @ ''[PRIOR STAGE OUTPUT]'' @ [CHR 0x0A] @ prior_output @ [CHR 0x0A] else []) @
     [CHR 0x0A]"

text \<open>One stage; the flag says whether the pipeline goes on.\<close>

definition run_pipeline_stage ::
  "'w delegation_env \<Rightarrow> 'w \<Rightarrow> loop_context \<Rightarrow> string list \<Rightarrow> nat \<Rightarrow> string \<Rightarrow> sandbox_info option \<Rightarrow>
   delegation_result list \<Rightarrow> delegation_result \<Rightarrow>
   ('w \<times> delegation_result list \<times> delegation_result \<times> bool) option" where
  "run_pipeline_stage env w parent_ctx all_stages idx tsk shared_sb stage_log last_result =
     (let tier_name = all_stages ! idx;
          prior = (if idx = 0 then [] else summary last_result);
          stage_task = pipeline_context_text idx all_stages prior @ tsk;
          info = tier_info_for env tier_name
      in if \<not> info_valid info
         then Some (w, stage_log,
                last_result\<lparr>success := False, summary := ''Unknown tier: '' @ tier_name\<rparr>, False)
         else do {
           let child_ctx = (build_child_context parent_ctx info stage_task [])\<lparr>locked_tier := tier_name\<rparr>;
           (w2, result) \<leftarrow> run_child_scoped env w parent_ctx child_ctx shared_sb tier_name stage_task None;
           Some (w2, stage_log @ [result], result, success result) })"

function pipeline_loop ::
  "'w delegation_env \<Rightarrow> 'w \<Rightarrow> loop_context \<Rightarrow> string list \<Rightarrow> nat \<Rightarrow> string \<Rightarrow> sandbox_info option \<Rightarrow>
   delegation_result list \<Rightarrow> delegation_result \<Rightarrow> ('w \<times> delegation_result list \<times> delegation_result) option" where
  "pipeline_loop env w parent_ctx all_stages i tsk shared_sb stage_log last_result =
     (if i \<ge> length all_stages then Some (w, stage_log, last_result)
      else case run_pipeline_stage env w parent_ctx all_stages i tsk shared_sb stage_log last_result of
        None \<Rightarrow> None
      | Some (w', log', result, go_on) \<Rightarrow>
          if go_on then pipeline_loop env w' parent_ctx all_stages (Suc i) tsk shared_sb log' result
          else Some (w', log', result))"
  by pat_completeness auto
termination by (relation "measure (\<lambda>(env, w, p, ss, i, t, sb, l, r). length ss - i)") auto

declare pipeline_loop.simps [simp del]

definition execute_pipeline ::
  "'w delegation_env \<Rightarrow> 'w \<Rightarrow> loop_context \<Rightarrow> string list \<Rightarrow> string \<Rightarrow> context_ref list \<Rightarrow>
   ('w \<times> delegation_result list \<times> delegation_result) option" where
  "execute_pipeline env w parent_ctx all_stages tsk refs =
     (let first = (if all_stages = [] then [] else hd all_stages) in
      case fire_start_cb env w ''pipeline'' first tsk (delegation_depth parent_ctx + 1) True of
        (w1, REJECT) \<Rightarrow> Some (w1, [], failed_delegation ''Pipeline rejected by consumer'' first tsk)
      | (w1, ACCEPT) \<Rightarrow>
          let start = default_delegation_result\<lparr>result_task := tsk\<rparr>;
              run = (\<lambda>w' shared_sb. do {
                 (w3, stage_log, result) \<leftarrow>
                    pipeline_loop env w' parent_ctx all_stages 0 (format_context_block refs @ tsk) shared_sb [] start;
                 Some (finalize_sandbox_for env w3 shared_sb result, stage_log, result) })
          in case sandbox_mgr env of
               None \<Rightarrow> run w1 None
             | Some sb \<Rightarrow>
                 (case mint_delegation_id env w1 ''pipeline'' of (w2, pid) \<Rightarrow>
                    case sb_create sb w2 pid of
                      (w3, Some sbi) \<Rightarrow> run w3 (Some sbi)
                    | (w3, None) \<Rightarrow>
                        Some (w3, [], failed_delegation ''(DELEGATION FAILED: session sandbox unavailable)''
                                first tsk)))"

subsection \<open>The chain of tiers\<close>

text \<open>The tiers from the root loop down to this one, as the cycle guard sees them.\<close>

definition tier_chain :: "loop_context \<Rightarrow> string list" where
  "tier_chain c = delegation_ancestor_tiers c @ [locked_tier c]"

lemma child_chain:
  "locked_tier parent \<noteq> [] \<Longrightarrow>
     tier_chain ((build_child_context parent info tsk refs)\<lparr>locked_tier := t\<rparr>) = tier_chain parent @ [t]"
  by (simp add: tier_chain_def build_child_context_def default_context_def)

lemma resumed_chain:
  "tier_chain (build_resumed_child_context parent info t tsk hist) =
     delegation_ancestor_tiers parent @ [t, t]"
  by (simp add: tier_chain_def build_resumed_child_context_def default_context_def Let_def)

lemma child_depth [simp]:
  "delegation_depth (build_child_context parent info tsk refs) = delegation_depth parent + 1"
  "delegation_depth (build_resumed_child_context parent info t tsk hist) = delegation_depth parent + 1"
  by (simp_all add: build_child_context_def build_resumed_child_context_def default_context_def Let_def)

subsection \<open>Pipelines stop at the first failure\<close>

lemma stage_result:
  assumes "run_pipeline_stage env w p ss i tsk sb lg r0 = Some (w', lg', r, go_on)"
  shows "(lg' = lg @ [r] \<and> go_on = success r) \<or> (lg' = lg \<and> \<not> success r \<and> \<not> go_on)"
  using assms
  by (auto simp: run_pipeline_stage_def Let_def split: if_splits option.splits Option.bind_splits)

lemma pipeline_loop_spec:
  assumes "pipeline_loop env w p ss i tsk sb lg r0 = Some (w', lg', r)"
    and "i \<le> length ss" "length lg = i" "list_all success lg" "lg = [] \<or> r0 = last lg" "lg = [] \<Longrightarrow> \<not> success r0"
  shows "prefix lg lg'" "length lg' \<le> length ss" "list_all success (butlast lg')"
    and "success r \<longleftrightarrow> length lg' = length ss \<and> ss \<noteq> [] \<and> list_all success lg'"
    and "success r \<Longrightarrow> r = last lg'"
proof -
  have "prefix lg lg' \<and> length lg' \<le> length ss \<and> list_all success (butlast lg') \<and>
    (success r \<longleftrightarrow> length lg' = length ss \<and> ss \<noteq> [] \<and> list_all success lg') \<and> (success r \<longrightarrow> r = last lg')"
    using assms
  proof (induction env w p ss i tsk sb lg r0 rule: pipeline_loop.induct)
    case (1 env w p ss i tsk sb lg r0)
    show ?case
    proof (cases "i \<ge> length ss")
      case True
      with "1.prems"(1) have e: "lg' = lg" "r = r0"
        by (subst (asm) pipeline_loop.simps, simp)+
      have "lg \<noteq> [] \<Longrightarrow> last lg \<in> set lg" by (rule last_in_set)
      with e True "1.prems"(2-) show ?thesis
        by (cases "lg = []") (auto simp: list_all_iff dest: in_set_butlastD)
    next
      case False
      then obtain w1 lg1 r1 go where st:
          "run_pipeline_stage env w p ss i tsk sb lg r0 = Some (w1, lg1, r1, go)"
          "(if go then pipeline_loop env w1 p ss (Suc i) tsk sb lg1 r1 else Some (w1, lg1, r1)) =
             Some (w', lg', r)"
        using "1.prems"(1) by (subst (asm) pipeline_loop.simps) (auto split: option.splits)
      from stage_result [OF st(1)] show ?thesis
      proof (elim disjE conjE)
        assume a: "lg1 = lg @ [r1]" "go = success r1"
        show ?thesis
        proof (cases go)
          case True
          with st a have "prefix lg1 lg' \<and> length lg' \<le> length ss \<and> list_all success (butlast lg') \<and>
              (success r \<longleftrightarrow> length lg' = length ss \<and> ss \<noteq> [] \<and> list_all success lg') \<and> (success r \<longrightarrow> r = last lg')"
            using False "1.prems"(3,4) by (intro "1.IH" [OF False st(1) refl refl refl True]) auto
          with a(1) show ?thesis by (auto dest: append_prefixD)
        next
          case no: False
          with st a have "lg' = lg @ [r]" "\<not> success r" by auto
          with False "1.prems"(3,4) show ?thesis by (auto simp: list_all_iff)
        qed
      next
        assume a: "lg1 = lg" "\<not> success r1" "\<not> go"
        with st have "lg' = lg" "\<not> success r" by auto
        with False "1.prems"(3,4) show ?thesis
          by (auto simp: list_all_iff dest: in_set_butlastD)
      qed
    qed
  qed
  then show "prefix lg lg'" "length lg' \<le> length ss" "list_all success (butlast lg')"
    "success r \<longleftrightarrow> length lg' = length ss \<and> ss \<noteq> [] \<and> list_all success lg'"
    "success r \<Longrightarrow> r = last lg'" by auto
qed

lemma execute_pipeline_cases:
  assumes "execute_pipeline env w p ss tsk refs = Some (w', lg, r)"
  shows "(lg = [] \<and> \<not> success r) \<or>
    (\<exists>w1 w2 sb. pipeline_loop env w1 p ss 0 (format_context_block refs @ tsk) sb []
       (default_delegation_result\<lparr>result_task := tsk\<rparr>) = Some (w2, lg, r))"
  using assms
  by (auto simp: execute_pipeline_def Let_def failed_delegation_def default_delegation_result_def
      split: prod.splits decision.splits option.splits Option.bind_splits)

subsection \<open>Properties\<close>

text \<open>
  Claim C20. A pipeline runs its stages in order and stops at the first that fails: the log never
  holds more results than stages, all but the last of them succeeded, and the pipeline reports
  success exactly when there is at least one stage and every stage ran and succeeded; its result
  is then the last stage's.
\<close>

theorem pipeline_stops_at_failure:
  assumes "execute_pipeline env w p ss tsk refs = Some (w', lg, r)"
  shows "(length lg \<le> length ss) \<and>
    (list_all success (butlast lg)) \<and>
    (success r \<longleftrightarrow> ss \<noteq> [] \<and> length lg = length ss \<and> list_all success lg) \<and>
    (success r \<longrightarrow> r = last lg)"
proof -
  have "length lg \<le> length ss"
    and "list_all success (butlast lg)"
    and "success r \<longleftrightarrow> ss \<noteq> [] \<and> length lg = length ss \<and> list_all success lg"
    and "success r \<Longrightarrow> r = last lg"
  proof -
    have "length lg \<le> length ss \<and> list_all success (butlast lg) \<and>
      (success r \<longleftrightarrow> ss \<noteq> [] \<and> length lg = length ss \<and> list_all success lg) \<and> (success r \<longrightarrow> r = last lg)"
      using execute_pipeline_cases [OF assms]
    proof (elim disjE exE conjE)
      fix w1 w2 sb
      assume a: "pipeline_loop env w1 p ss 0 (format_context_block refs @ tsk) sb []
         (default_delegation_result\<lparr>result_task := tsk\<rparr>) = Some (w2, lg, r)"
      have n: "\<not> success (default_delegation_result\<lparr>result_task := tsk\<rparr>)"
        by (simp add: default_delegation_result_def)
      show ?thesis
        using pipeline_loop_spec [OF a] n by auto
    qed auto
    then show "length lg \<le> length ss" "list_all success (butlast lg)"
      "success r \<longleftrightarrow> ss \<noteq> [] \<and> length lg = length ss \<and> list_all success lg"
      "success r \<Longrightarrow> r = last lg" by auto
  qed
  then show ?thesis by blast
qed

text \<open>An environment with no callbacks, in which the tiers \<open>a\<close> and \<open>b\<close> exist and only \<open>a\<close> completes.\<close>

definition plain_env :: "nat delegation_env" where
  "plain_env = \<lparr>resolve_tier = Some (\<lambda>t. default_child_info\<lparr>info_valid := t \<in> {''a'', ''b''}\<rparr>),
     start_cb = None, complete_cb = None, sandbox_mgr = None, swap_dir = None, repo_dir = [],
     create_delegation = None, complete_delegation = None, todo_save = None, todo_fresh = None,
     todo_restore = None, env_json_parse = (\<lambda>_. None),
     child_loop = (\<lambda>w c. Some (w + 1, c\<lparr>ctx_state := if locked_tier c = ''a'' then COMPLETE else ERROR\<rparr>))\<rparr>"

theorem pipeline_stops_at_failure_witness:
  "\<exists>w' lg r. execute_pipeline plain_env 0 default_context [''a'', ''b'', ''a''] ''t'' [] = Some (w', lg, r) \<and>
     length lg = 2 \<and> \<not> success r"
proof -
  have e: "map_option (\<lambda>(w', lg, r). (w', length lg)) (execute_pipeline plain_env 0 default_context
      [''a'', ''b'', ''a''] ''t'' []) = Some (2, 2)" by code_simp
  then obtain w' lg r where c:
      "execute_pipeline plain_env 0 default_context [''a'', ''b'', ''a''] ''t'' [] = Some (w', lg, r)"
    and l: "length lg = 2" by auto
  from pipeline_stops_at_failure [OF c, THEN conjunct2, THEN conjunct2, THEN conjunct1] l have "\<not> success r" by simp
  with c l show ?thesis by blast
qed

text \<open>
  Sandboxed work is never silently lost. When a delegation succeeds and its sandbox
  yields a patch, the patch has either been accepted by the consumer's callback or been written
  to the pending directory (no callback, a rejection or a callback that throws) before the
  sandbox is discarded; a failed delegation delivers nothing; the sandbox is always discarded.
\<close>

lemma sandbox_patch_delivered:
  assumes "sandbox_mgr env = Some sb"
  shows "(success r \<longrightarrow> sb_finalize sb w info = (w1, Some pr) \<longrightarrow>
      (\<exists>cb w2. complete_cb env = Some cb \<and> cb w1 info pr r = (w2, Some ACCEPT) \<and>
         finalize_sandbox_for env w (Some info) r = sb_discard sb w2 info) \<or>
      (\<exists>w2. finalize_sandbox_for env w (Some info) r =
         sb_discard sb (sb_write_pending sb w2 (sandbox_id info) (patch pr)) info)) \<and>
    (\<not> success r \<longrightarrow> finalize_sandbox_for env w (Some info) r = sb_discard sb w info)"
proof -
  have "success r \<Longrightarrow> sb_finalize sb w info = (w1, Some pr) \<Longrightarrow>
      (\<exists>cb w2. complete_cb env = Some cb \<and> cb w1 info pr r = (w2, Some ACCEPT) \<and>
         finalize_sandbox_for env w (Some info) r = sb_discard sb w2 info) \<or>
      (\<exists>w2. finalize_sandbox_for env w (Some info) r =
         sb_discard sb (sb_write_pending sb w2 (sandbox_id info) (patch pr)) info)"
    and "\<not> success r \<Longrightarrow> finalize_sandbox_for env w (Some info) r = sb_discard sb w info"
    using assms
    by (auto simp: finalize_sandbox_for_def deliver_sandbox_result_def invoke_complete_cb_def
        persist_pending_patch_def Let_def split: option.splits prod.splits decision.splits)
  then show ?thesis by blast
qed

definition trace_sandbox :: "string list sandbox_ops" where
  "trace_sandbox = \<lparr>sb_next_id = (\<lambda>w p. (w, p @ ''-1'')),
     sb_create = (\<lambda>w i. (w @ [''create''], Some \<lparr>sandbox_id = i, sandbox_path = ''/tmp/s''\<rparr>)),
     sb_finalize = (\<lambda>w i. (w @ [''finalize''], Some \<lparr>patch = ''diff'', files_touched = []\<rparr>)),
     sb_discard = (\<lambda>w i. w @ [''discard'']), sb_write_pending = (\<lambda>w i p. w @ [''pending'', p])\<rparr>"

definition trace_env :: "string list delegation_env" where
  "trace_env = \<lparr>resolve_tier = None, start_cb = None, complete_cb = None,
     sandbox_mgr = Some trace_sandbox, swap_dir = None, repo_dir = [],
     create_delegation = None, complete_delegation = None, todo_save = None, todo_fresh = None,
     todo_restore = None, env_json_parse = (\<lambda>_. None), child_loop = (\<lambda>w c. Some (w, c))\<rparr>"

lemma sandbox_patch_delivered_witness:
  "\<exists>w2. finalize_sandbox_for trace_env [] (Some \<lparr>sandbox_id = ''d1'', sandbox_path = ''/tmp/s''\<rparr>)
     (default_delegation_result\<lparr>success := True\<rparr>) = w2 @ [''pending'', ''diff'', ''discard'']"
proof -
  have a: "sandbox_mgr trace_env = Some trace_sandbox" by (simp add: trace_env_def)
  have b: "success (default_delegation_result\<lparr>success := True\<rparr>)" by simp
  have c: "sb_finalize trace_sandbox [] \<lparr>sandbox_id = ''d1'', sandbox_path = ''/tmp/s''\<rparr> =
      ([''finalize''], Some \<lparr>patch = ''diff'', files_touched = []\<rparr>)"
    by (simp add: trace_sandbox_def)
  from sandbox_patch_delivered [OF a, THEN conjunct1, THEN mp, THEN mp, OF b c] show ?thesis
    by (auto simp: trace_env_def trace_sandbox_def)
qed

end
