(* ===== verification/Engine.thy ===== *)
theory Engine
  imports Compaction Delegation
begin

text \<open>
  The agentic loop (\<open>src/core/engine.cpp\<close>): one iteration of generation, tool processing and
  decisions, the loop around it with its limits, the thinking budget, pending delegations and
  pipelines, and the result the engine carries out of a stopped loop.

  Everything the engine calls through a function pointer is a field of the environment: hooks,
  callbacks, the response generator, the tool executor, the model adapter, the JSON library,
  storage and the clock. Each may change the whole engine state \<^verbatim>\<open>'w engine\<close>, since a callback
  can call back into the engine (an interrupt, a queued message), and the response generator and
  the tool executor may also change the loop context. Code that can end in an exception the
  engine does not catch (a JSON type error, say), or whose child loop does not return, is
  option-valued: \<^const>\<open>None\<close> means that it does not return normally.
\<close>

subsection \<open>State and environment\<close>

record 'w engine =
  outer :: 'w
  queue_capacity :: int
  context_anchors :: "(string \<times> string) list"
  interrupt_flag :: bool
  pause_flag :: bool
  running_flag :: bool
  concurrent_sessions :: bool
  active_runs :: "(string \<times> bool) list"
  claimed_key :: "string option"
  bound_session :: "string option"
  shared_session_key :: string
  conversations :: "(string \<times> message list) list"
  last_metrics :: loop_metrics
  per_tier_metrics :: "(string \<times> loop_metrics) list"
  turn_failures :: "(string \<times> string) list"
  failed_turns :: "(string \<times> message list) list"
  user_message_queue :: "string list"
  system_prompt :: string
  workspace_prompts :: "(string \<times> string \<times> (string \<times> string) list) list"
  session_workspace :: "(string \<times> string) list"
  tier_info :: "(string \<times> child_context_info) list"
  handoff_rules :: "(string \<times> string list) list"
  relay_single_delegate_tiers :: "string list"

record generate_result =
  gen_content :: string
  gen_tool_calls_json :: string
  finish_reason :: string

record 's engine_env =
  loop_cfg :: loop_config
  comp_cfg :: compaction_config
  comp_max_tokens :: int
  hook_pre :: "'s fire_pre_fn option"
  hook_post :: "('s \<Rightarrow> int \<Rightarrow> string \<Rightarrow> 's \<times> string option) option"
  hook_info :: "('s \<Rightarrow> int \<Rightarrow> string \<Rightarrow> 's) option"
  on_compaction :: "('s \<Rightarrow> string \<Rightarrow> 's) option"
  on_state_change :: "('s \<Rightarrow> int \<Rightarrow> 's) option"
  state_observer :: "('s \<Rightarrow> int \<Rightarrow> 's) option"
  on_delegation_start :: "('s \<Rightarrow> string \<Rightarrow> string \<Rightarrow> 's) option"
  on_delegation_complete :: "('s \<Rightarrow> string \<Rightarrow> string \<Rightarrow> bool \<Rightarrow> 's) option"
  get_tier_param :: "(string \<Rightarrow> string \<Rightarrow> string) option"
  adapter_is_complete :: "(string \<Rightarrow> string \<Rightarrow> bool) option"
  generate_response :: "'s \<Rightarrow> loop_context \<Rightarrow> 's \<times> loop_context \<times> generate_result"
  adapter_parse :: "(string \<Rightarrow> int \<times> string option \<times> string option) option"
  parse_json :: "string \<Rightarrow> json option"
  dump_json :: "json \<Rightarrow> string"
  string_hash :: "string \<Rightarrow> nat"
  process_tool_calls :: "('s \<Rightarrow> loop_context \<Rightarrow> tool_call list \<Rightarrow> 's \<times> loop_context \<times> message list) option"
  history_json :: "('s \<Rightarrow> nat \<Rightarrow> 's \<times> string option) option"
  validation_provider :: "('s \<Rightarrow> 's \<times> string option) option"
  clock :: "'s \<Rightarrow> 's \<times> rat"
  unsafe_external_tools :: "(string \<Rightarrow> string list \<Rightarrow> string list) option"
  external_interrupt :: "('s \<Rightarrow> 's) option"
  external_reset :: "('s \<Rightarrow> 's) option"
  storage_snapshot :: "'s storage_save"
  create_conversation :: "('s \<Rightarrow> 's \<times> bool \<times> string) option"
  load_delegation :: "('s \<Rightarrow> string \<Rightarrow> 's \<times> string option) option"
  latest_delegation :: "('s \<Rightarrow> string \<Rightarrow> 's \<times> string option) option"
  delegation :: "'s delegation_env"

text \<open>A call through a nullable pointer with one argument.\<close>

definition opt_call :: "('s \<Rightarrow> 'a \<Rightarrow> 's) option \<Rightarrow> 's \<Rightarrow> 'a \<Rightarrow> 's" where
  "opt_call f s x = (case f of None \<Rightarrow> s | Some g \<Rightarrow> g s x)"

definition agent_state_value :: "agent_state \<Rightarrow> int" where
  "agent_state_value s = (case s of IDLE \<Rightarrow> 0 | PLANNING \<Rightarrow> 1 | EXECUTING \<Rightarrow> 2 | WAITING_TOOL \<Rightarrow> 3
     | VERIFYING \<Rightarrow> 4 | DELEGATING \<Rightarrow> 5 | COMPLETE \<Rightarrow> 6 | ERROR \<Rightarrow> 7 | INTERRUPTED \<Rightarrow> 8 | PAUSED \<Rightarrow> 9)"

definition agent_state_name :: "agent_state \<Rightarrow> string" where
  "agent_state_name s = [''IDLE'', ''PLANNING'', ''EXECUTING'', ''WAITING_TOOL'', ''VERIFYING'',
     ''DELEGATING'', ''COMPLETE'', ''ERROR'', ''INTERRUPTED'', ''PAUSED''] ! nat (agent_state_value s)"

definition fire_hook_info :: "'s engine_env \<Rightarrow> 's \<Rightarrow> int \<Rightarrow> string \<Rightarrow> 's" where
  "fire_hook_info env s point json = (case hook_info env of None \<Rightarrow> s | Some f \<Rightarrow> f s point json)"

definition fire_loop_start_hook :: "'s engine_env \<Rightarrow> 's \<Rightarrow> loop_context \<Rightarrow> 's" where
  "fire_loop_start_hook env s c = fire_hook_info env s 20
     (json_pair ''message_count'' (to_string_nat (length (messages c)))
        ''delegation_depth'' (to_string_int (delegation_depth c)))"

definition fire_loop_end_hook :: "'s engine_env \<Rightarrow> 's \<Rightarrow> loop_context \<Rightarrow> 's" where
  "fire_loop_end_hook env s c = fire_hook_info env s 21
     (json_pair ''final_state'' (quoted (agent_state_name (ctx_state c)))
        ''iterations'' (to_string_int (iterations (metrics c))))"

definition fire_loop_iteration_hook :: "'s engine_env \<Rightarrow> 's \<Rightarrow> loop_context \<Rightarrow> 's" where
  "fire_loop_iteration_hook env s c = fire_hook_info env s 5
     (''{'' @ quoted ''iteration'' @ '':'' @ to_string_int (iterations (metrics c)) @ '','' @
      quoted ''state'' @ '':'' @ quoted (agent_state_name (ctx_state c)) @ '','' @
      quoted ''consecutive_errors'' @ '':'' @ to_string_int (consecutive_errors c) @ ''}'')"

definition fire_context_assemble_hook :: "'s engine_env \<Rightarrow> 's \<Rightarrow> loop_context \<Rightarrow> 's" where
  "fire_context_assemble_hook env s c = fire_hook_info env s 10
     (''{'' @ quoted ''message_count'' @ '':'' @ to_string_nat (length (messages c)) @ ''}'')"

definition set_state :: "'s engine_env \<Rightarrow> 's \<Rightarrow> loop_context \<Rightarrow> agent_state \<Rightarrow> 's \<times> loop_context" where
  "set_state env s c st =
     (let prev = ctx_state c;
          c' = c\<lparr>ctx_state := st\<rparr>;
          s1 = opt_call (on_state_change env) s (agent_state_value st);
          s2 = opt_call (state_observer env) s1 (agent_state_value st);
          s3 = fire_hook_info env s2 6
                 (json_pair ''previous'' (quoted (agent_state_name prev))
                    ''current'' (quoted (agent_state_name st)));
          s4 = (if st = ERROR
                then fire_hook_info env s3 7
                  (''{'' @ quoted ''error_code'' @ '':'' @ quoted ''STATE_ERROR'' @ '','' @
                   quoted ''iteration'' @ '':'' @ to_string_int (iterations (metrics c)) @ '','' @
                   quoted ''consecutive'' @ '':'' @ to_string_int (consecutive_errors c) @ ''}'')
                else s3)
      in (s4, c'))"

lemma set_state_ctx [simp]: "snd (set_state env s c st) = c\<lparr>ctx_state := st\<rparr>"
  by (simp add: set_state_def Let_def)

subsection \<open>Limits\<close>

definition apply_identity_overrides :: "'s engine_env \<Rightarrow> loop_context \<Rightarrow> loop_context" where
  "apply_identity_overrides env c =
     (case get_tier_param env of
        None \<Rightarrow> c
      | Some param \<Rightarrow>
          if locked_tier c = [] then c
          else
            let mi = param (locked_tier c) ''max_iterations'';
                c1 = (if mi \<noteq> [] then c\<lparr>effective_max_iterations := atoi mi\<rparr> else c);
                mt = param (locked_tier c) ''max_tool_calls_per_turn''
            in if mt \<noteq> [] then c1\<lparr>effective_max_tool_calls_per_turn := atoi mt\<rparr> else c1)"

definition resolve_max_iterations :: "loop_config \<Rightarrow> loop_context \<Rightarrow> int" where
  "resolve_max_iterations cfg c =
     (let operator_limit = (if effective_max_iterations c \<ge> 0 then effective_max_iterations c
                            else max_iterations cfg)
      in if delegated_max_turns c < 1 then operator_limit
         else min operator_limit (delegated_max_turns c))"

definition resolve_max_tool_calls :: "loop_config \<Rightarrow> loop_context \<Rightarrow> int" where
  "resolve_max_tool_calls cfg c =
     (if effective_max_tool_calls_per_turn c \<ge> 0 then effective_max_tool_calls_per_turn c
      else max_tool_calls_per_turn cfg)"

definition should_stop :: "'s engine_env \<Rightarrow> loop_context \<Rightarrow> bool" where
  "should_stop env c \<longleftrightarrow>
     is_terminal_state c \<or>
     iterations (metrics c) \<ge> resolve_max_iterations (loop_cfg env) c \<or>
     consecutive_duplicate_attempts c \<ge> 3"

text \<open>
  \<open>run_interrupted\<close>: the engine-wide flag, or the flag of the run the executing thread has
  claimed.
\<close>

definition run_interrupted :: "'w engine \<Rightarrow> bool" where
  "run_interrupted e \<longleftrightarrow> interrupt_flag e \<or>
     (case claimed_key e of None \<Rightarrow> False
      | Some k \<Rightarrow> (case map_of (active_runs e) k of None \<Rightarrow> False | Some f \<Rightarrow> f))"

subsection \<open>Carrying output out of a stopped loop\<close>

definition blank :: "string \<Rightarrow> bool" where
  "blank s \<longleftrightarrow> list_all (\<lambda>ch. ch \<in> {CHR '' '', CHR 0x09, CHR 0x0D, CHR 0x0A}) s"

fun find_substantive :: "message list \<Rightarrow> string" where
  "find_substantive [] = []"
| "find_substantive (m # rev_ms) =
     (if role m = ''assistant'' \<and> \<not> blank (content m) then content m else find_substantive rev_ms)"

definition last_substantive_assistant :: "loop_context \<Rightarrow> string" where
  "last_substantive_assistant c = find_substantive (rev (messages c))"

definition annotate_hard_stop :: "string \<Rightarrow> string \<Rightarrow> string \<Rightarrow> string" where
  "annotate_hard_stop carried reason stop_noun =
     (if carried = []
      then ''['' @ reason @ '' '' @ em_dash @ '' no substantive output was produced before the '' @
           stop_noun @ '']''
      else carried @ [CHR 0x0A, CHR 0x0A] @ ''['' @ reason @ '' '' @ em_dash @
           '' the text above is the agent'' @ [CHR 0x27] @
           ''s last substantive output; it did not signal completion]'')"

definition finish_with_carried_output ::
  "'s engine_env \<Rightarrow> 's \<Rightarrow> loop_context \<Rightarrow> string \<Rightarrow> string \<Rightarrow> string \<Rightarrow> 's \<times> loop_context" where
  "finish_with_carried_output env s c reason stop_noun terminal =
     (let carried = last_substantive_assistant c;
          c1 = push_message (text_message ''assistant'' (annotate_hard_stop carried reason stop_noun)) c;
          c2 = set_ctx_meta ''terminal_reason'' terminal c1;
          c3 = set_ctx_meta ''cap_carried_content'' (if carried = [] then ''false'' else ''true'') c2
      in set_state env s c3 COMPLETE)"

definition force_iteration_cap_completion ::
  "'s engine_env \<Rightarrow> 's \<Rightarrow> loop_context \<Rightarrow> 's \<times> loop_context" where
  "force_iteration_cap_completion env s c =
     finish_with_carried_output env s c
       (''iteration cap reached after '' @ to_string_int (iterations (metrics c)) @ '' iterations'')
       ''cap'' ''budget_exhausted''"

subsection \<open>The thinking budget\<close>

definition budget_units_consumed ::
  "'s engine_env \<Rightarrow> 's \<Rightarrow> loop_context \<Rightarrow> nat \<Rightarrow> 's \<times> loop_context \<times> int" where
  "budget_units_consumed env e c content_len =
     (if budget_mode (loop_cfg env) = budget_tokens then
        let c' = c\<lparr>budget_tokens_since_tool := budget_tokens_since_tool c + int (content_len div 4)\<rparr>
        in (e, c', budget_tokens_since_tool c')
      else
        let (e1, c') = (if budget_window_start_s c = 0
                        then (case clock env e of (e', t) \<Rightarrow> (e', c\<lparr>budget_window_start_s := t\<rparr>))
                        else (e, c));
            (e2, t2) = clock env e1
        in (e2, c', trunc_int (t2 - budget_window_start_s c')))"

definition nudge_budget_completion ::
  "'s engine_env \<Rightarrow> 's \<Rightarrow> loop_context \<Rightarrow> 's \<times> loop_context" where
  "nudge_budget_completion env e c =
     (let (e1, t) = (if budget_mode (loop_cfg env) = budget_wall_clock then clock env e else (e, 0));
          c1 = c\<lparr>budget_completion_nudged := True, budget_tokens_since_tool := 0,
                 budget_window_start_s := t\<rparr>;
          nudge = text_message ''user''
            (''[engine] thinking budget reached '' @ em_dash @ '' emit entropic.complete now '' @
             ''with your best current answer. Further deliberation without a '' @
             ''tool call will be cut off.'')
      in (e1, push_message nudge c1))"

definition hard_cut_budget :: "'s engine_env \<Rightarrow> 's \<Rightarrow> loop_context \<Rightarrow> 's \<times> loop_context" where
  "hard_cut_budget env s c =
     finish_with_carried_output env s c
       (''thinking budget exhausted after the completion nudge went '' @
        ''unheeded; no tool call was emitted'')
       ''cut'' ''budget_exhausted_thinking''"

definition charge_thinking_budget ::
  "'s engine_env \<Rightarrow> 's \<Rightarrow> loop_context \<Rightarrow> nat \<Rightarrow> bool \<Rightarrow> 's \<times> loop_context" where
  "charge_thinking_budget env e c content_len made_tool_call =
     (if budget_mode (loop_cfg env) = budget_off then (e, c)
      else if made_tool_call then
        (e, c\<lparr>budget_tokens_since_tool := 0, budget_window_start_s := 0, budget_completion_nudged := False\<rparr>)
      else
        case budget_units_consumed env e c content_len of
          (e1, c1, units) \<Rightarrow>
            if units < budget_limit (loop_cfg env) then (e1, c1)
            else if \<not> budget_completion_nudged c1 then nudge_budget_completion env e1 c1
            else hard_cut_budget env e1 c1)"

subsection \<open>What a hard stop leaves behind\<close>

lemma finish_ctx:
  "snd (finish_with_carried_output env s c reason noun tr) =
     (let carried = last_substantive_assistant c in
      (set_ctx_meta ''cap_carried_content'' (if carried = [] then ''false'' else ''true'')
        (set_ctx_meta ''terminal_reason'' tr
          (push_message (text_message ''assistant'' (annotate_hard_stop carried reason noun)) c)))
       \<lparr>ctx_state := COMPLETE\<rparr>)"
  by (simp add: finish_with_carried_output_def Let_def)

lemma finish_state [simp]: "ctx_state (snd (finish_with_carried_output env s c reason noun tr)) = COMPLETE"
  by (simp add: finish_ctx Let_def)

lemma finish_reason_meta [simp]:
  "ctx_meta (snd (finish_with_carried_output env s c reason noun tr)) ''terminal_reason'' = Some tr"
  by (simp add: finish_ctx Let_def ctx_meta_def set_ctx_meta_def)

lemma finish_messages:
  "messages (snd (finish_with_carried_output env s c reason noun tr)) =
     messages c @ [text_message ''assistant'' (annotate_hard_stop (last_substantive_assistant c) reason noun)]"
  by (simp add: finish_ctx Let_def set_ctx_meta_def push_message_def)

lemma find_substantive_member:
  "find_substantive ms = [] \<or> (\<exists>m\<in>set ms. role m = ''assistant'' \<and> content m = find_substantive ms)"
  by (induction ms) auto

lemma find_substantive_Nil:
  "find_substantive ms = [] \<longleftrightarrow> list_all (\<lambda>m. role m = ''assistant'' \<longrightarrow> blank (content m)) ms"
  by (induction ms) (auto simp: blank_def)

subsection \<open>The budget as a two-phase counter\<close>

text \<open>Charging a sequence of responses that make no tool call.\<close>

fun charge_seq ::
  "'s engine_env \<Rightarrow> 's \<Rightarrow> loop_context \<Rightarrow> nat list \<Rightarrow> 's \<times> loop_context" where
  "charge_seq env e c [] = (e, c)"
| "charge_seq env e c (l # ls) =
     (case charge_thinking_budget env e c l False of (e', c') \<Rightarrow> charge_seq env e' c' ls)"

lemma charge_seq_append:
  "charge_seq env e c (xs @ ys) = (case charge_seq env e c xs of (e', c') \<Rightarrow> charge_seq env e' c' ys)"
  by (induction xs arbitrary: e c) (auto split: prod.split)

lemma charge_tokens:
  assumes "budget_mode (loop_cfg env) = budget_tokens"
  shows "charge_thinking_budget env e c l False =
    (let c1 = c\<lparr>budget_tokens_since_tool := budget_tokens_since_tool c + int (l div 4)\<rparr> in
     if budget_tokens_since_tool c1 < budget_limit (loop_cfg env) then (e, c1)
     else if \<not> budget_completion_nudged c then nudge_budget_completion env e c1
     else hard_cut_budget env e c1)"
  using assms by (simp add: charge_thinking_budget_def budget_units_consumed_def Let_def)

lemma nudge_tokens:
  assumes "budget_mode (loop_cfg env) = budget_tokens"
  shows "\<exists>m. nudge_budget_completion env e c =
    (e, push_message m (c\<lparr>budget_completion_nudged := True, budget_tokens_since_tool := 0,
                           budget_window_start_s := 0\<rparr>))"
  using assms by (auto simp: nudge_budget_completion_def Let_def)

text \<open>
  Responses of at least one token each reach the limit after at most as many responses as
  tokens are left; until then only the counter moves.
\<close>

lemma charge_phase:
  assumes "budget_mode (loop_cfg env) = budget_tokens" "list_all (\<lambda>l. 4 \<le> l) ls"
    and "max 1 (nat (budget_limit (loop_cfg env) - budget_tokens_since_tool c)) \<le> length ls"
  shows "\<exists>pre l post t. ls = pre @ l # post \<and>
    Suc (length pre) \<le> max 1 (nat (budget_limit (loop_cfg env) - budget_tokens_since_tool c)) \<and>
    charge_seq env e c pre = (e, c\<lparr>budget_tokens_since_tool := t\<rparr>) \<and>
    budget_limit (loop_cfg env) \<le> t + int (l div 4)"
  using assms
proof (induction ls arbitrary: c)
  case Nil
  then show ?case by simp
next
  case (Cons l ls)
  let ?t = "budget_tokens_since_tool c" and ?L = "budget_limit (loop_cfg env)"
  show ?case
  proof (cases "?L \<le> ?t + int (l div 4)")
    case True
    then show ?thesis
      by (intro exI [of _ "[]"] exI [of _ l] exI [of _ ls] exI [of _ ?t]) simp
  next
    case False
    let ?c1 = "c\<lparr>budget_tokens_since_tool := ?t + int (l div 4)\<rparr>"
    have step: "charge_thinking_budget env e c l False = (e, ?c1)"
      using False Cons.prems(1) by (simp add: charge_tokens Let_def)
    have "1 \<le> l div 4" using Cons.prems(2) by auto
    then have smaller: "Suc (max 1 (nat (?L - budget_tokens_since_tool ?c1))) \<le> max 1 (nat (?L - ?t))"
      using False by (simp add: nat_diff_distrib' max_def) linarith
    from le_trans [OF smaller Cons.prems(3)]
    have "max 1 (nat (?L - budget_tokens_since_tool ?c1)) \<le> length ls"
      by (simp only: list.size Suc_le_mono add_Suc_right add_0_right)
    from Cons.IH [OF Cons.prems(1) _ this] Cons.prems(2)
    obtain pre l' post t where ih: "ls = pre @ l' # post"
        "Suc (length pre) \<le> max 1 (nat (?L - budget_tokens_since_tool ?c1))"
        "charge_seq env e ?c1 pre = (e, ?c1\<lparr>budget_tokens_since_tool := t\<rparr>)" "?L \<le> t + int (l' div 4)"
      by auto
    have "Suc (length (l # pre)) \<le> max 1 (nat (?L - ?t))"
      by (rule le_trans [OF _ smaller]) (use ih(2) in \<open>simp only: list.size Suc_le_mono add_Suc_right add_0_right\<close>)
    moreover have "charge_seq env e c (l # pre) = (e, c\<lparr>budget_tokens_since_tool := t\<rparr>)"
      using ih(3) step by simp
    moreover have "l # ls = (l # pre) @ l' # post" using ih(1) by simp
    ultimately show ?thesis using ih(4) by blast
  qed
qed

lemma charge_crossing:
  assumes "budget_mode (loop_cfg env) = budget_tokens"
    and "budget_limit (loop_cfg env) \<le> budget_tokens_since_tool c + int (l div 4)"
  shows "\<not> budget_completion_nudged c \<Longrightarrow>
      \<exists>m. charge_thinking_budget env e c l False =
        (e, push_message m (c\<lparr>budget_completion_nudged := True, budget_tokens_since_tool := 0,
                               budget_window_start_s := 0\<rparr>))"
    and "budget_completion_nudged c \<Longrightarrow>
      ctx_state (snd (charge_thinking_budget env e c l False)) = COMPLETE \<and>
      ctx_meta (snd (charge_thinking_budget env e c l False)) ''terminal_reason'' =
        Some ''budget_exhausted_thinking''"
proof -
  let ?c1 = "c\<lparr>budget_tokens_since_tool := budget_tokens_since_tool c + int (l div 4)\<rparr>"
  assume "\<not> budget_completion_nudged c"
  with assms have "charge_thinking_budget env e c l False = nudge_budget_completion env e ?c1"
    by (simp add: charge_tokens Let_def)
  then show "\<exists>m. charge_thinking_budget env e c l False =
        (e, push_message m (c\<lparr>budget_completion_nudged := True, budget_tokens_since_tool := 0,
                               budget_window_start_s := 0\<rparr>))"
    using nudge_tokens [OF assms(1), of e ?c1] by auto
next
  assume "budget_completion_nudged c"
  with assms have "charge_thinking_budget env e c l False = hard_cut_budget env e
      (c\<lparr>budget_tokens_since_tool := budget_tokens_since_tool c + int (l div 4)\<rparr>)"
    by (simp add: charge_tokens Let_def)
  then show "ctx_state (snd (charge_thinking_budget env e c l False)) = COMPLETE \<and>
      ctx_meta (snd (charge_thinking_budget env e c l False)) ''terminal_reason'' =
        Some ''budget_exhausted_thinking''"
    by (simp add: hard_cut_budget_def)
qed

subsection \<open>Properties\<close>

text \<open>
  The token budget stops a model that deliberates without acting: from a fresh window,
  after at most twice as many responses as the limit has tokens (each of at least one token,
  none with an effective tool call) the turn is cut, complete with the terminal reason
  \<open>budget_exhausted_thinking\<close>. The first crossing only nudges; the second one cuts.
\<close>

lemma thinking_budget_cut:
  assumes "budget_mode (loop_cfg env) = budget_tokens"
    and "\<not> budget_completion_nudged c" "budget_tokens_since_tool c = 0"
    and "list_all (\<lambda>l. 4 \<le> l) ls" "length ls = 2 * max 1 (nat (budget_limit (loop_cfg env)))"
  shows "\<exists>n \<le> length ls. ctx_state (snd (charge_seq env e c (take n ls))) = COMPLETE \<and>
    ctx_meta (snd (charge_seq env e c (take n ls))) ''terminal_reason'' = Some ''budget_exhausted_thinking''"
proof -
  let ?K = "max 1 (nat (budget_limit (loop_cfg env)))"
  have "max 1 (nat (budget_limit (loop_cfg env) - budget_tokens_since_tool c)) \<le> length ls"
    using assms(3,5) by simp
  from charge_phase [OF assms(1,4) this, of e]
  obtain pre l post t where p1: "ls = pre @ l # post" "Suc (length pre) \<le> ?K"
      "charge_seq env e c pre = (e, c\<lparr>budget_tokens_since_tool := t\<rparr>)"
      "budget_limit (loop_cfg env) \<le> t + int (l div 4)"
    using assms(3) by auto
  let ?cp = "c\<lparr>budget_tokens_since_tool := t\<rparr>"
  have "budget_limit (loop_cfg env) \<le> budget_tokens_since_tool ?cp + int (l div 4)"
    "\<not> budget_completion_nudged ?cp" using p1(4) assms(2) by simp_all
  from charge_crossing(1) [OF assms(1) this] obtain m where n1:
      "charge_thinking_budget env e ?cp l False =
        (e, push_message m (?cp\<lparr>budget_completion_nudged := True, budget_tokens_since_tool := 0,
                               budget_window_start_s := 0\<rparr>))" by blast
  define c2 where "c2 = push_message m (?cp\<lparr>budget_completion_nudged := True,
      budget_tokens_since_tool := 0, budget_window_start_s := 0\<rparr>)"
  have c2: "budget_completion_nudged c2" "budget_tokens_since_tool c2 = 0"
    by (simp_all add: c2_def push_message_def)
  have s2: "charge_seq env e c (pre @ [l]) = (e, c2)"
    using p1(3) n1 by (simp add: charge_seq_append c2_def)
  have "max 1 (nat (budget_limit (loop_cfg env) - budget_tokens_since_tool c2)) \<le> length post"
    using p1(1,2) assms(5) c2(2) by simp
  moreover have "list_all (\<lambda>l. 4 \<le> l) post" using assms(4) p1(1) by simp
  ultimately obtain pre2 l2 post2 t2 where p2: "post = pre2 @ l2 # post2"
      "charge_seq env e c2 pre2 = (e, c2\<lparr>budget_tokens_since_tool := t2\<rparr>)"
      "budget_limit (loop_cfg env) \<le> t2 + int (l2 div 4)"
    using charge_phase [OF assms(1), of post c2 e] by blast
  let ?n = "length (pre @ l # pre2 @ [l2])"
  have seq: "charge_seq env e c (take ?n ls) =
      charge_thinking_budget env e (c2\<lparr>budget_tokens_since_tool := t2\<rparr>) l2 False"
  proof -
    have "take ?n ls = (pre @ [l]) @ (pre2 @ [l2])" using p1(1) p2(1) by simp
    then show ?thesis
      using s2 p2(2) by (simp only: charge_seq_append) (simp add: charge_seq_append split: prod.split)
  qed
  have "?n \<le> length ls" using p1(1) p2(1) by simp
  moreover have "ctx_state (snd (charge_seq env e c (take ?n ls))) = COMPLETE \<and>
      ctx_meta (snd (charge_seq env e c (take ?n ls))) ''terminal_reason'' = Some ''budget_exhausted_thinking''"
    unfolding seq using charge_crossing(2) [OF assms(1)] p2(3) c2(1) by simp
  ultimately show ?thesis by blast
qed

text \<open>
  A forced stop delivers what the agent had: the loop context becomes complete with the
  given terminal reason, exactly one assistant message is added at the end, and it starts with
  the last assistant text that was not blank; only when every assistant text was blank does it
  carry no text. The same holds for the iteration cap and for the budget cut, both of which are
  calls of this function.
\<close>

lemma hard_stop_carries_output:
  assumes "finish_with_carried_output env s c reason noun tr = (s', c')"
  shows "(ctx_state c' = COMPLETE) \<and>
    (ctx_meta c' ''terminal_reason'' = Some tr) \<and>
    (\<exists>m. messages c' = messages c @ [m] \<and> role m = ''assistant'' \<and>
      prefix (last_substantive_assistant c) (content m)) \<and>
    (last_substantive_assistant c = [] \<longleftrightarrow>
      list_all (\<lambda>m. role m = ''assistant'' \<longrightarrow> blank (content m)) (messages c))"
proof -
  have "ctx_state c' = COMPLETE"
    and "ctx_meta c' ''terminal_reason'' = Some tr"
    and "\<exists>m. messages c' = messages c @ [m] \<and> role m = ''assistant'' \<and>
      prefix (last_substantive_assistant c) (content m)"
    and "last_substantive_assistant c = [] \<longleftrightarrow>
      list_all (\<lambda>m. role m = ''assistant'' \<longrightarrow> blank (content m)) (messages c)"
  proof -
    have c': "c' = snd (finish_with_carried_output env s c reason noun tr)" using assms by simp
    show "ctx_state c' = COMPLETE" "ctx_meta c' ''terminal_reason'' = Some tr" unfolding c' by simp_all
    show "\<exists>m. messages c' = messages c @ [m] \<and> role m = ''assistant'' \<and>
        prefix (last_substantive_assistant c) (content m)"
      unfolding c' finish_messages by (auto simp: text_message_def annotate_hard_stop_def)
    show "last_substantive_assistant c = [] \<longleftrightarrow>
        list_all (\<lambda>m. role m = ''assistant'' \<longrightarrow> blank (content m)) (messages c)"
      by (simp add: last_substantive_assistant_def find_substantive_Nil list_all_iff)
  qed
  then show ?thesis by blast
qed

text \<open>A silent environment around the given parts, for examples.\<close>

definition quiet_delegation :: "'s delegation_env" where
  "quiet_delegation = \<lparr>resolve_tier = None, start_cb = None, complete_cb = None,
     sandbox_mgr = None, swap_dir = None, repo_dir = [],
     create_delegation = None, complete_delegation = None, todo_save = None, todo_fresh = None,
     todo_restore = None, env_json_parse = (\<lambda>_. None), child_loop = (\<lambda>w c. Some (w, c))\<rparr>"

definition quiet_env :: "'s engine_env" where
  "quiet_env = \<lparr>loop_cfg = default_loop_config, comp_cfg = sample_config, comp_max_tokens = 16384, hook_pre = None, hook_post = None,
     hook_info = None, on_compaction = None, on_state_change = None, state_observer = None,
     on_delegation_start = None, on_delegation_complete = None, get_tier_param = None,
     adapter_is_complete = None,
     generate_response = (\<lambda>s c. (s, c, \<lparr>gen_content = ''hello'', gen_tool_calls_json = ''[]'',
       finish_reason = ''stop''\<rparr>)),
     adapter_parse = None, parse_json = (\<lambda>_. None), dump_json = (\<lambda>_. []), string_hash = length,
     process_tool_calls = None, history_json = None, validation_provider = None,
     clock = (\<lambda>s. (s, 1)), unsafe_external_tools = None, external_interrupt = None, external_reset = None,
     storage_snapshot = None, create_conversation = None,
     load_delegation = None, latest_delegation = None, delegation = quiet_delegation\<rparr>"

definition fresh_engine :: "loop_config \<Rightarrow> 'w \<Rightarrow> 'w engine" where
  "fresh_engine cfg w = \<lparr>outer = w, queue_capacity = message_queue_capacity cfg, context_anchors = [], interrupt_flag = False,
     pause_flag = False, running_flag = False, concurrent_sessions = False, active_runs = [],
     claimed_key = None, bound_session = None, shared_session_key = [], conversations = [([], [])],
     last_metrics = default_metrics, per_tier_metrics = [], turn_failures = [], failed_turns = [],
     user_message_queue = [], system_prompt = [], workspace_prompts = [], session_workspace = [],
     tier_info = [], handoff_rules = [], relay_single_delegate_tiers = []\<rparr>"

lemma hard_stop_carries_output_witness:
  "\<exists>m. messages (snd (finish_with_carried_output quiet_env (fresh_engine default_loop_config ())
       (default_context\<lparr>messages := [text_message ''assistant'' ''partial'', text_message ''assistant'' '' '']\<rparr>)
       ''r'' ''cap'' ''x'')) ! 2 = m \<and> prefix ''partial'' (content m)"
proof -
  let ?c = "default_context\<lparr>messages := [text_message ''assistant'' ''partial'', text_message ''assistant'' '' '']\<rparr>"
  obtain s' c' where f: "finish_with_carried_output quiet_env (fresh_engine default_loop_config ()) ?c
      ''r'' ''cap'' ''x'' = (s', c')" by fastforce
  have l: "last_substantive_assistant ?c = ''partial''"
    by (simp add: last_substantive_assistant_def text_message_def blank_def)
  from hard_stop_carries_output [OF f, THEN conjunct2, THEN conjunct2, THEN conjunct1] l f show ?thesis by auto
qed

lemma thinking_budget_cut_witness:
  "\<exists>n \<le> 4. ctx_state (snd (charge_seq
     (quiet_env\<lparr>loop_cfg := default_loop_config\<lparr>budget_mode := budget_tokens, budget_limit := 2\<rparr>\<rparr>)
     () default_context (take n [4, 5, 6, 7]))) = COMPLETE"
proof -
  let ?env = "quiet_env\<lparr>loop_cfg := default_loop_config\<lparr>budget_mode := budget_tokens, budget_limit := 2\<rparr>\<rparr> :: unit engine_env"
  have a: "budget_mode (loop_cfg ?env) = budget_tokens" by simp
  have b: "\<not> budget_completion_nudged default_context" "budget_tokens_since_tool default_context = 0"
    by (simp_all add: default_context_def)
  have l: "list_all (\<lambda>l. 4 \<le> l) [4, 5, 6, 7::nat]" by simp
  have n: "length [4, 5, 6, 7::nat] = 2 * max 1 (nat (budget_limit (loop_cfg ?env)))" by simp
  from thinking_budget_cut [OF a b l n, of "()"]
  obtain n where "n \<le> length [4, 5, 6, 7::nat]"
    "ctx_state (snd (charge_seq ?env () default_context (take n [4, 5, 6, 7]))) = COMPLETE" by blast
  then show ?thesis by (intro exI [of _ n]) simp
qed

end
