(* ===== verification/Engine_Loop.thy ===== *)
theory Engine_Loop
  imports Engine
begin

text \<open>
  One iteration of the agentic loop and the loop itself (\<open>src/core/engine.cpp\<close>, from
  \<open>execute_iteration\<close> to \<open>dispatch_pending_or_halt\<close>, with the delegation handling it leads to).
  The child of a delegation is another run of the same loop: the definitions take it as the
  parameter \<open>child\<close>, and \<open>run_loop\<close> ties the knot with fuel.
\<close>

subsection \<open>After generation: the post-generate hook\<close>

definition escape_char :: "char \<Rightarrow> string" where
  "escape_char ch =
     (if ch = CHR 0x22 then [CHR 0x5C, CHR 0x22]
      else if ch = CHR 0x5C then [CHR 0x5C, CHR 0x5C]
      else if ch = CHR 0x0A then [CHR 0x5C, CHR ''n'']
      else if ch = CHR 0x0D then [CHR 0x5C, CHR ''r'']
      else if ch = CHR 0x09 then [CHR 0x5C, CHR ''t'']
      else [ch])"

definition json_escape_engine :: "string \<Rightarrow> string" where
  "json_escape_engine s = concat (map escape_char s)"

text \<open>The messages the manifest and the evidence list: those with a non-empty tool name.\<close>

definition tool_msgs :: "message list \<Rightarrow> message list" where
  "tool_msgs ms = filter (\<lambda>m. case meta m ''tool_name'' of None \<Rightarrow> False | Some n \<Rightarrow> n \<noteq> []) ms"

definition real_text :: "message \<Rightarrow> string" where
  "real_text m = (case meta m ''original_content'' of None \<Rightarrow> content m | Some t \<Rightarrow> t)"

definition manifest_line :: "message \<Rightarrow> string" where
  "manifest_line m = ''- '' @ the (meta m ''tool_name'') @ '' '' @ [CHR 0xE2, CHR 0x86, CHR 0x92] @ '' '' @
     to_string_nat (length (real_text m)) @ '' chars'' @ [CHR 0x0A]"

definition build_tool_manifest :: "message list \<Rightarrow> string" where
  "build_tool_manifest ms = concat (map manifest_line (tool_msgs ms))"

definition format_tool_evidence_entry :: "message \<Rightarrow> nat \<Rightarrow> string" where
  "format_tool_evidence_entry msg chars_per_result =
     (let src = real_text msg in
      ''## '' @ the (meta msg ''tool_name'') @
      (case meta msg ''added_at_iteration'' of None \<Rightarrow> [] | Some it \<Rightarrow> '' [iter '' @ it @ '']'') @ [CHR 0x0A] @
      (if length src \<le> chars_per_result then src
       else take chars_per_result src @ [CHR 0x0A] @ ''[... truncated, '' @
            to_string_nat (length src - chars_per_result) @ '' more chars]'') @
      [CHR 0x0A, CHR 0x0A])"

definition build_tool_evidence :: "message list \<Rightarrow> nat \<Rightarrow> nat \<Rightarrow> string" where
  "build_tool_evidence ms max_results chars_per_result =
     (let tms = tool_msgs ms;
          elided = (if length tms > max_results then length tms - max_results else 0)
      in if tms = [] then []
         else (if elided > 0 then ''('' @ to_string_nat elided @ '' earlier tool results elided for length)'' @
                 [CHR 0x0A] else []) @
              concat (map (\<lambda>m. format_tool_evidence_entry m chars_per_result) (drop elided tms)))"

definition enrich_manifest_with_history :: "'s engine_env \<Rightarrow> 's \<Rightarrow> string \<Rightarrow> 's \<times> string" where
  "enrich_manifest_with_history env s base =
     (case history_json env of
        None \<Rightarrow> (s, base)
      | Some f \<Rightarrow> (case f s 20 of
          (s', None) \<Rightarrow> (s', base)
        | (s', Some js) \<Rightarrow> (s', base @ ''prior-iteration history: '' @ js @ [CHR 0x0A])))"

fun extract_system_prompt :: "message list \<Rightarrow> string" where
  "extract_system_prompt [] = []"
| "extract_system_prompt (m # ms) = (if role m = ''system'' then content m else extract_system_prompt ms)"

definition fire_post_generate_hook ::
  "'s engine_env \<Rightarrow> 's \<Rightarrow> generate_result \<Rightarrow> string \<Rightarrow> message list \<Rightarrow> 's \<times> generate_result" where
  "fire_post_generate_hook env s result tier ms =
     (case hook_post env of
        None \<Rightarrow> (s, result)
      | Some f \<Rightarrow>
          (case enrich_manifest_with_history env s (build_tool_manifest ms) of
             (s1, manifest) \<Rightarrow>
               let json = ''{'' @ quoted ''finish_reason'' @ '':'' @ quoted (finish_reason result) @ '','' @
                     quoted ''content'' @ '':'' @ quoted (json_escape_engine (gen_content result)) @ '','' @
                     quoted ''tier'' @ '':'' @ quoted tier @ '','' @
                     quoted ''tool_context'' @ '':'' @ quoted (json_escape_engine manifest) @ '','' @
                     quoted ''tool_evidence'' @ '':'' @ quoted (json_escape_engine (build_tool_evidence ms 20 800)) @ '','' @
                     quoted ''system_prompt'' @ '':'' @ quoted (json_escape_engine (extract_system_prompt ms)) @ ''}''
               in (case f s1 1 json of
                     (s2, None) \<Rightarrow> (s2, result)
                   | (s2, Some out) \<Rightarrow> (s2, result\<lparr>gen_content := sanitize out\<rparr>))))"

fun join_violations :: "'s engine_env \<Rightarrow> string \<Rightarrow> json list \<Rightarrow> string" where
  "join_violations env joined [] = joined"
| "join_violations env joined (v # vs) =
     join_violations env ((if joined \<noteq> [] then joined @ ''; '' else joined) @
       (case v of JString t \<Rightarrow> t | _ \<Rightarrow> dump_json env v)) vs"

definition capture_validation_feedback ::
  "'s engine_env \<Rightarrow> 's \<Rightarrow> loop_context \<Rightarrow> 's \<times> loop_context" where
  "capture_validation_feedback env s c =
     (case validation_provider env of
        None \<Rightarrow> (s, c)
      | Some f \<Rightarrow> (case f s of
          (s', None) \<Rightarrow> (s', c)
        | (s', Some raw) \<Rightarrow>
            (s', case parse_json env raw of
                   None \<Rightarrow> c
                 | Some j \<Rightarrow> (case json_value_string j ''verdict'' of
                     None \<Rightarrow> c
                   | Some verdict \<Rightarrow>
                       if \<not> starts_with ''rejected'' verdict then c
                       else
                         let joined = (case j of JObject kvs \<Rightarrow>
                               (case map_of kvs ''violations'' of
                                  Some (JArray vs) \<Rightarrow> join_violations env [] vs
                                | _ \<Rightarrow> [])
                             | _ \<Rightarrow> [])
                         in c\<lparr>pending_validation_feedback := (if joined = [] then verdict else joined)\<rparr>))))"

definition dispatch_post_generate ::
  "'s engine_env \<Rightarrow> 's \<Rightarrow> loop_context \<Rightarrow> generate_result \<Rightarrow> 's \<times> loop_context \<times> generate_result" where
  "dispatch_post_generate env s c result =
     (let c1 = c\<lparr>pending_validation_feedback := [], pending_anti_spiral_warning := []\<rparr>;
          (s1, r1) = fire_post_generate_hook env s result (locked_tier c1) (messages c1);
          (s2, c2) = capture_validation_feedback env s1 c1
      in (s2, c2, r1))"

subsection \<open>Parsing tool calls\<close>

fun call_arguments_of :: "'s engine_env \<Rightarrow> (string \<times> json) list \<Rightarrow> (string \<times> string) list" where
  "call_arguments_of env [] = []"
| "call_arguments_of env ((k, v) # kvs) =
     (k, case v of JString t \<Rightarrow> t | _ \<Rightarrow> dump_json env v) # call_arguments_of env kvs"

definition build_tool_call_from_json :: "'s engine_env \<Rightarrow> string \<Rightarrow> json \<Rightarrow> tool_call option" where
  "build_tool_call_from_json env tc_str obj =
     (case json_value_string obj ''name'' of
        None \<Rightarrow> None
      | Some name \<Rightarrow>
          let base = \<lparr>call_id = ''tc-'' @ to_string_nat (string_hash env (name @ tc_str) mod 65536),
                      call_name = name, call_arguments = [], arguments_json = []\<rparr>
          in Some (case obj of JObject kvs \<Rightarrow>
               (case map_of kvs ''arguments'' of
                  Some (JObject args) \<Rightarrow>
                    base\<lparr>arguments_json := dump_json env (JObject args),
                         call_arguments := call_arguments_of env args\<rparr>
                | _ \<Rightarrow> base)
             | _ \<Rightarrow> base))"

fun build_tool_calls :: "'s engine_env \<Rightarrow> string \<Rightarrow> json list \<Rightarrow> tool_call list option" where
  "build_tool_calls env tc_str [] = Some []"
| "build_tool_calls env tc_str (j # js) =
     (case build_tool_call_from_json env tc_str j of
        None \<Rightarrow> None
      | Some tc \<Rightarrow> map_option ((#) tc) (build_tool_calls env tc_str js))"

definition decode_tool_calls_json :: "'s engine_env \<Rightarrow> string \<Rightarrow> tool_call list option" where
  "decode_tool_calls_json env tc_str =
     (if tc_str = ''[]'' \<or> tc_str = [] then Some []
      else case parse_json env tc_str of
        Some (JArray js) \<Rightarrow> build_tool_calls env tc_str js
      | _ \<Rightarrow> Some [])"

definition parse_tool_calls :: "'s engine_env \<Rightarrow> string \<Rightarrow> (string \<times> tool_call list) option" where
  "parse_tool_calls env raw_content =
     (case adapter_parse env of
        None \<Rightarrow> Some (raw_content, [])
      | Some f \<Rightarrow>
          (case f raw_content of (rc, cleaned, tc_json) \<Rightarrow>
             let cleaned_str = sanitize (case cleaned of None \<Rightarrow> raw_content | Some t \<Rightarrow> t);
                 tc_str = sanitize (case tc_json of None \<Rightarrow> ''[]'' | Some t \<Rightarrow> t)
             in if rc \<noteq> 0 then Some (cleaned_str, [])
                else map_option (Pair cleaned_str) (decode_tool_calls_json env tc_str)))"

subsection \<open>Tool results\<close>

definition fold_complete_into_assistant :: "loop_context \<Rightarrow> message \<Rightarrow> loop_context option" where
  "fold_complete_into_assistant c msg =
     (if meta msg ''tool_name'' \<noteq> Some ''entropic.complete'' \<or> messages c = [] then None
      else
        let lst = last (messages c) in
        case ctx_meta c ''explicit_completion_summary'' of
          None \<Rightarrow> None
        | Some t \<Rightarrow>
            if role lst = ''assistant'' \<and> content lst = []
            then Some (c\<lparr>messages := butlast (messages c) @ [lst\<lparr>content := t\<rparr>]\<rparr>)
            else None)"

definition defang_meta_action_envelope :: "'s engine_env \<Rightarrow> message \<Rightarrow> message" where
  "defang_meta_action_envelope env msg =
     (case meta msg ''tool_name'' of
        None \<Rightarrow> msg
      | Some tn \<Rightarrow>
          if \<not> starts_with ''entropic.'' tn then msg
          else case parse_json env (content msg) of
            Some (JObject kvs) \<Rightarrow>
              (case map_of kvs ''action'' of
                 Some (JString a) \<Rightarrow> msg\<lparr>content := ''(engine: '' @ a @ '' directive accepted)''\<rparr>
               | _ \<Rightarrow> msg)
          | _ \<Rightarrow> msg)"

fun push_tool_results ::
  "'s engine_env \<Rightarrow> loop_context \<Rightarrow> bool \<Rightarrow> message list \<Rightarrow> loop_context \<times> bool" where
  "push_tool_results env c progress [] = (c, progress)"
| "push_tool_results env c progress (m # ms) =
     (let p = (progress \<or> meta m ''result_kind'' \<in> {Some ''ok'', Some ''ok_empty''}) in
      case fold_complete_into_assistant c m of
        Some c' \<Rightarrow> push_tool_results env c' p ms
      | None \<Rightarrow> push_tool_results env (push_message (defang_meta_action_envelope env m) c) p ms)"

definition process_tool_results ::
  "'s engine_env \<Rightarrow> ('s \<Rightarrow> loop_context \<Rightarrow> tool_call list \<Rightarrow> 's \<times> loop_context \<times> message list) \<Rightarrow>
   's \<Rightarrow> loop_context \<Rightarrow> tool_call list \<Rightarrow> 's \<times> loop_context \<times> bool" where
  "process_tool_results env exec s c calls =
     (let (s1, c1) = set_state env s c WAITING_TOOL;
          (s2, c2, results) = exec s1 c1 calls;
          (c3, progress) = push_tool_results env c2 False results;
          c4 = c3\<lparr>has_pending_tool_results := True\<rparr>;
          (s3, c5) = (if \<not> is_terminal_state c4 then set_state env s2 c4 EXECUTING else (s2, c4))
      in (s3, c5, progress))"

subsection \<open>Deciding a turn without tool calls\<close>

definition handle_terminal_finish_reasons ::
  "'s engine_env \<Rightarrow> 's \<Rightarrow> loop_context \<Rightarrow> string \<Rightarrow> 's \<times> loop_context \<times> bool" where
  "handle_terminal_finish_reasons env s c reason =
     (if reason = ''interrupted'' then (case set_state env s c INTERRUPTED of (s', c') \<Rightarrow> (s', c', True))
      else if reason = ''context_overflow'' then
        (case set_state env s
           (set_ctx_meta ''failure_tier'' (locked_tier c)
             (set_ctx_meta ''failure_reason'' ''context_overflow'' c)) ERROR of (s', c') \<Rightarrow> (s', c', True))
      else if reason = ''length'' then (s, c, True)
      else (s, c, False))"

definition is_response_complete :: "'s engine_env \<Rightarrow> string \<Rightarrow> string \<Rightarrow> bool" where
  "is_response_complete env text tool_calls_json =
     (case adapter_is_complete env of None \<Rightarrow> text \<noteq> [] | Some f \<Rightarrow> f text tool_calls_json)"

definition should_auto_chain :: "'s engine_env \<Rightarrow> loop_context \<Rightarrow> string \<Rightarrow> string \<Rightarrow> bool" where
  "should_auto_chain env c reason text =
     (case get_tier_param env of
        None \<Rightarrow> False
      | Some param \<Rightarrow>
          locked_tier c \<noteq> [] \<and> param (locked_tier c) ''auto_chain'' \<noteq> [] \<and>
          (reason = ''length'' \<or> (reason = ''stop'' \<and> is_response_complete env text ''[]'')))"

definition try_auto_chain ::
  "'s engine_env \<Rightarrow> 's \<Rightarrow> loop_context \<Rightarrow> string \<Rightarrow> string \<Rightarrow> 's \<times> loop_context \<times> bool" where
  "try_auto_chain env s c reason text =
     (if \<not> should_auto_chain env c reason text then (s, c, False)
      else if delegation_depth c > 0 then (case set_state env s c COMPLETE of (s', c') \<Rightarrow> (s', c', True))
      else
        let tgt = (case get_tier_param env of None \<Rightarrow> [] | Some param \<Rightarrow> param (locked_tier c) ''auto_chain'')
        in if tgt \<noteq> [] then (s, c\<lparr>locked_tier := tgt\<rparr>, True) else (s, c, False))"

definition tier_requires_explicit_completion :: "'s engine_env \<Rightarrow> string \<Rightarrow> bool" where
  "tier_requires_explicit_completion env tier =
     (case get_tier_param env of None \<Rightarrow> False
      | Some param \<Rightarrow> param tier ''explicit_completion'' \<in> {''true'', ''1''})"

definition empty_turn_ceiling :: "'s engine_env \<Rightarrow> string \<Rightarrow> int" where
  "empty_turn_ceiling env tier =
     (case get_tier_param env of None \<Rightarrow> 3
      | Some param \<Rightarrow> let cv = param tier ''max_consecutive_empty_turns'' in if cv \<noteq> [] then atoi cv else 3)"

definition correction_message :: "'s engine_env \<Rightarrow> string \<Rightarrow> message" where
  "correction_message env tier =
     (let hint = (case get_tier_param env of
            None \<Rightarrow> ''(entropic.complete, entropic.delegate, or entropic.inspect)''
          | Some param \<Rightarrow> let allowed = param tier ''allowed_tools'' in
              if allowed \<noteq> [] then ''('' @ allowed @ '')''
              else ''(entropic.complete, entropic.delegate, or entropic.inspect)'')
      in text_message ''user''
        (''[SYSTEM] Your previous response contained no tool call. '' @
         ''You must end every turn with exactly one tool call '' @ hint @
         ''. Make it an actual tool call, not as text or JSON in your reply. Retry.''))"

definition record_explicit_completion_failure ::
  "'s engine_env \<Rightarrow> 's \<Rightarrow> loop_context \<Rightarrow> 's \<times> loop_context \<times> bool" where
  "record_explicit_completion_failure env s c =
     (if \<not> tier_requires_explicit_completion env (locked_tier c) then (s, c, False)
      else
        let retries = (case ctx_meta c ''zero_tool_call_retries'' of None \<Rightarrow> [] | Some r \<Rightarrow> r);
            c0 = set_ctx_meta ''zero_tool_call_retries'' retries c;
            n = (if retries = [] then 0 else atoi retries)
        in if n \<ge> empty_turn_ceiling env (locked_tier c) then
             (case set_state env s
                (set_ctx_meta ''failure_tier'' (locked_tier c)
                  (set_ctx_meta ''failure_reason'' ''zero_tool_calls_with_explicit_completion'' c0)) ERROR of
                (s', c') \<Rightarrow> (s', c', True))
           else
             (case set_state env s
                (set_ctx_meta ''zero_tool_call_retries'' (to_string_int (n + 1))
                  (push_message (correction_message env (locked_tier c)) c0)) EXECUTING of
                (s', c') \<Rightarrow> (s', c', True)))"

definition evaluate_no_tool_decision ::
  "'s engine_env \<Rightarrow> 's \<Rightarrow> loop_context \<Rightarrow> string \<Rightarrow> string \<Rightarrow> 's \<times> loop_context" where
  "evaluate_no_tool_decision env s c text reason =
     (case handle_terminal_finish_reasons env s c reason of
        (s1, c1, True) \<Rightarrow> (s1, c1)
      | (s1, c1, False) \<Rightarrow>
          (case try_auto_chain env s1 c1 reason text of
             (s2, c2, True) \<Rightarrow> (s2, c2)
           | (s2, c2, False) \<Rightarrow>
               (case record_explicit_completion_failure env s2 c2 of
                  (s3, c3, True) \<Rightarrow> (s3, c3)
                | (s3, c3, False) \<Rightarrow>
                    if is_response_complete env text ''[]'' then set_state env s3 c3 COMPLETE
                    else (s3, c3))))"

subsection \<open>Empty turns\<close>

definition empty_turns :: "loop_context \<Rightarrow> int" where
  "empty_turns c = (case ctx_meta c ''zero_tool_call_retries'' of None \<Rightarrow> 0 | Some r \<Rightarrow> if r = [] then 0 else atoi r)"

definition empty_turn :: "'s engine_env \<Rightarrow> 's \<times> loop_context \<Rightarrow> 's \<times> loop_context" where
  "empty_turn env sc = (case record_explicit_completion_failure env (fst sc) (snd sc) of (s, c, _) \<Rightarrow> (s, c))"

lemma set_state_case:
  "(case set_state env s c st of (s', c') \<Rightarrow> f s' c') = f (fst (set_state env s c st)) (c\<lparr>ctx_state := st\<rparr>)"
  by (simp add: case_prod_beta)

lemma ctx_meta_state [simp]: "ctx_meta (c\<lparr>ctx_state := st\<rparr>) k = ctx_meta c k"
  by (simp add: ctx_meta_def)

lemma locked_tier_meta [simp]:
  "locked_tier (set_ctx_meta k v c) = locked_tier c" "locked_tier (push_message m c) = locked_tier c"
  by (simp_all add: set_ctx_meta_def push_message_def)

lemma empty_turn_nudge:
  assumes "tier_requires_explicit_completion env (locked_tier c)"
    and "empty_turns c < empty_turn_ceiling env (locked_tier c)"
  shows "empty_turns (snd (empty_turn env (s, c))) = empty_turns c + 1"
    and "ctx_state (snd (empty_turn env (s, c))) = EXECUTING"
    and "locked_tier (snd (empty_turn env (s, c))) = locked_tier c"
  using assms
  by (auto simp: empty_turn_def record_explicit_completion_failure_def Let_def empty_turns_def
      set_state_case split: option.splits if_splits)

lemma empty_turn_fail:
  assumes "tier_requires_explicit_completion env (locked_tier c)"
    and "empty_turns c \<ge> empty_turn_ceiling env (locked_tier c)"
  shows "ctx_state (snd (empty_turn env (s, c))) = ERROR"
    and "ctx_meta (snd (empty_turn env (s, c))) ''failure_reason'' =
      Some ''zero_tool_calls_with_explicit_completion''"
    and "ctx_meta (snd (empty_turn env (s, c))) ''failure_tier'' = Some (locked_tier c)"
  using assms
  by (auto simp: empty_turn_def record_explicit_completion_failure_def Let_def empty_turns_def
      set_state_case split: option.splits if_splits)

lemma empty_turn_count:
  assumes "tier_requires_explicit_completion env (locked_tier c)" "empty_turns c = 0"
    and "int n \<le> empty_turn_ceiling env (locked_tier c)"
  shows "empty_turns (snd ((empty_turn env ^^ n) (s, c))) = int n \<and>
    locked_tier (snd ((empty_turn env ^^ n) (s, c))) = locked_tier c \<and>
    (n > 0 \<longrightarrow> ctx_state (snd ((empty_turn env ^^ n) (s, c))) = EXECUTING)"
  using assms(3)
proof (induction n)
  case 0
  with assms show ?case by simp
next
  case (Suc n)
  obtain s1 c1 where sc: "(empty_turn env ^^ n) (s, c) = (s1, c1)" by fastforce
  with Suc have "empty_turns c1 = int n" "locked_tier c1 = locked_tier c" by simp_all
  moreover from this Suc.prems have "empty_turns c1 < empty_turn_ceiling env (locked_tier c1)" by simp
  moreover have "tier_requires_explicit_completion env (locked_tier c1)"
    using assms(1) calculation(2) by simp
  ultimately show ?case
    using sc empty_turn_nudge [of env c1 s1] by simp
qed

subsection \<open>Properties\<close>

text \<open>
  A tier that must finish with a tool call gets a bounded number of second chances: the
  \<open>n\<close>-th consecutive turn without a call, up to the tier's allowance, adds one corrective message
  and goes on executing with the counter at \<open>n\<close>; the turn after the allowance is used up fails
  with the reason and the tier recorded. The counter survives its round trip through the string
  metadata.
\<close>

lemma empty_turns_bounded:
  assumes "tier_requires_explicit_completion env (locked_tier c)" "empty_turns c = 0"
    and "int n = empty_turn_ceiling env (locked_tier c)" "k \<le> n"
  shows "(empty_turns (snd ((empty_turn env ^^ k) (s, c))) = int k) \<and>
    (k > 0 \<longrightarrow> ctx_state (snd ((empty_turn env ^^ k) (s, c))) = EXECUTING) \<and>
    (ctx_state (snd ((empty_turn env ^^ Suc n) (s, c))) = ERROR) \<and>
    (ctx_meta (snd ((empty_turn env ^^ Suc n) (s, c))) ''failure_reason'' =
      Some ''zero_tool_calls_with_explicit_completion'') \<and>
    (ctx_meta (snd ((empty_turn env ^^ Suc n) (s, c))) ''failure_tier'' = Some (locked_tier c))"
proof -
  have "empty_turns (snd ((empty_turn env ^^ k) (s, c))) = int k"
    and "k > 0 \<Longrightarrow> ctx_state (snd ((empty_turn env ^^ k) (s, c))) = EXECUTING"
    and "ctx_state (snd ((empty_turn env ^^ Suc n) (s, c))) = ERROR"
    and "ctx_meta (snd ((empty_turn env ^^ Suc n) (s, c))) ''failure_reason'' =
      Some ''zero_tool_calls_with_explicit_completion''"
    and "ctx_meta (snd ((empty_turn env ^^ Suc n) (s, c))) ''failure_tier'' = Some (locked_tier c)"
  proof -
    have "int k \<le> empty_turn_ceiling env (locked_tier c)" using assms(3,4) by linarith
    from empty_turn_count [OF assms(1,2) this, of s]
    show "empty_turns (snd ((empty_turn env ^^ k) (s, c))) = int k"
      "k > 0 \<Longrightarrow> ctx_state (snd ((empty_turn env ^^ k) (s, c))) = EXECUTING" by simp_all
    obtain s1 c1 where sc: "(empty_turn env ^^ n) (s, c) = (s1, c1)" by fastforce
    with empty_turn_count [OF assms(1,2), of n s] assms(3)
    have c1: "empty_turns c1 = int n" "locked_tier c1 = locked_tier c" by simp_all
    with assms have "tier_requires_explicit_completion env (locked_tier c1)"
      "empty_turns c1 \<ge> empty_turn_ceiling env (locked_tier c1)" by simp_all
    from empty_turn_fail [OF this, of s1] sc c1
    show "ctx_state (snd ((empty_turn env ^^ Suc n) (s, c))) = ERROR"
      "ctx_meta (snd ((empty_turn env ^^ Suc n) (s, c))) ''failure_reason'' =
        Some ''zero_tool_calls_with_explicit_completion''"
      "ctx_meta (snd ((empty_turn env ^^ Suc n) (s, c))) ''failure_tier'' = Some (locked_tier c)" by simp_all
  qed
  then show ?thesis by blast
qed

definition strict_env :: "'s engine_env" where
  "strict_env = quiet_env\<lparr>get_tier_param := Some (\<lambda>t p.
     if p = ''explicit_completion'' then ''true''
     else if p = ''max_consecutive_empty_turns'' then ''1'' else [])\<rparr>"

lemma empty_turns_bounded_witness:
  "ctx_state (snd ((empty_turn strict_env ^^ 1) ((), default_context\<lparr>locked_tier := ''lead''\<rparr>))) = EXECUTING \<and>
   ctx_state (snd ((empty_turn strict_env ^^ Suc 1) ((), default_context\<lparr>locked_tier := ''lead''\<rparr>))) = ERROR"
proof -
  let ?c = "default_context\<lparr>locked_tier := ''lead''\<rparr>"
  have a: "tier_requires_explicit_completion (strict_env :: unit engine_env) (locked_tier ?c)"
    by (simp add: tier_requires_explicit_completion_def strict_env_def)
  have b: "empty_turns ?c = 0" by (simp add: empty_turns_def ctx_meta_def default_context_def)
  have n: "int 1 = empty_turn_ceiling (strict_env :: unit engine_env) (locked_tier ?c)" by code_simp
  show ?thesis
    using empty_turns_bounded [OF a b n order_refl, THEN conjunct2, THEN conjunct1]
      empty_turns_bounded [OF a b n order_refl, THEN conjunct2, THEN conjunct2, THEN conjunct1] by simp
qed

end
