(* ===== verification/Engine_Dispatch.thy ===== *)
theory Engine_Dispatch
  imports Engine_Loop
begin

text \<open>
  Pending delegations and pipelines, the loop and its entry points (\<open>src/core/engine.cpp\<close>). The
  parameter \<open>child\<close> runs the loop of a delegated child.
\<close>

subsection \<open>Guards\<close>

definition MAX_DELEGATION_DEPTH :: int where
  "MAX_DELEGATION_DEPTH = 2"

definition is_delegation_cycle :: "loop_context \<Rightarrow> string \<Rightarrow> bool" where
  "is_delegation_cycle c tgt \<longleftrightarrow> tgt = locked_tier c \<or> list_ex (\<lambda>anc. anc = tgt) (delegation_ancestor_tiers c)"

definition is_delegation_repeat_blocked :: "loop_config \<Rightarrow> loop_context \<Rightarrow> string \<Rightarrow> bool" where
  "is_delegation_repeat_blocked cfg c tgt \<longleftrightarrow>
     tgt = last_failed_delegation_target c \<and>
     consecutive_failed_delegations c \<ge> max_consecutive_failed_delegations cfg"

definition user_message :: "string \<Rightarrow> message" where
  "user_message t = text_message ''user'' t"

definition push_delegation_rejected :: "loop_context \<Rightarrow> loop_context" where
  "push_delegation_rejected c = push_message (user_message
     (''[DELEGATION REJECTED] Maximum delegation depth ('' @ to_string_int MAX_DELEGATION_DEPTH @
      '') reached.'')) c"

definition push_delegation_cycle_rejected :: "loop_context \<Rightarrow> string \<Rightarrow> loop_context" where
  "push_delegation_cycle_rejected c tgt =
     (let chain = concat (map (\<lambda>anc. anc @ '' -> '') (delegation_ancestor_tiers c)) @
                  locked_tier c @ '' -> '' @ tgt
      in push_message (user_message
           (''[DELEGATION REJECTED] Circular delegation detected: tier '' @ squoted tgt @
            '' already in the active delegation chain ('' @ chain @ ''). Choose a different target.''))
           (set_ctx_meta ''failure_target'' tgt (set_ctx_meta ''failure_reason'' ''delegation_cycle'' c)))"

definition push_delegation_repeat_blocked :: "loop_context \<Rightarrow> string \<Rightarrow> int \<Rightarrow> loop_context" where
  "push_delegation_repeat_blocked c tgt n =
     push_message (user_message
       (''[DELEGATION REJECTED] '' @ squoted tgt @ '' has just failed '' @ to_string_int n @
        '' times in a row. Stop retrying this target. Either '' @
        ''respond to the user with what you have, or delegate to a different tier.''))
       (set_ctx_meta ''failure_target'' tgt
         (set_ctx_meta ''failure_reason'' ''delegation_repeat_blocked'' c))"

fun join_names :: "string \<Rightarrow> string list \<Rightarrow> string" where
  "join_names acc [] = acc"
| "join_names acc (t # ts) = join_names ((if acc \<noteq> [] then acc @ '', '' else acc) @ t) ts"

definition push_delegation_isolation_unsafe ::
  "loop_context \<Rightarrow> string \<Rightarrow> string list \<Rightarrow> loop_context" where
  "push_delegation_isolation_unsafe c tgt tools =
     push_message (user_message
       (''[DELEGATION REJECTED] delegation.isolation is '' @ squoted ''sandbox'' @ '', but '' @ squoted tgt @
        '' can reach external MCP tools that are not declared read-only ('' @ join_names [] tools @
        ''). An external server runs in its own process and cannot be moved into the sandbox, so its '' @
        ''writes would escape it. Either restrict the tier'' @ [CHR 0x27] @ ''s allowed_tools to '' @
        ''read-only tools, have the server declare readOnlyHint, or set delegation.isolation: none.''))
       (set_ctx_meta ''failure_target'' tgt
         (set_ctx_meta ''failure_reason'' ''delegation_isolation_unsafe'' c))"

definition isolation_unsafe_tools ::
  "'w engine engine_env \<Rightarrow> 'w engine \<Rightarrow> loop_context \<Rightarrow> string \<Rightarrow> string list" where
  "isolation_unsafe_tools env e c target_tier =
     (case unsafe_external_tools env of
        None \<Rightarrow> []
      | Some f \<Rightarrow>
          if \<not> delegation_isolation (loop_cfg env) then []
          else f (session_key c) (allowed_tools (tier_info_for (delegation env) target_tier)))"

definition reject_delegation_if_guarded ::
  "'w engine engine_env \<Rightarrow> 'w engine \<Rightarrow> loop_context \<Rightarrow> pending_delegation \<Rightarrow> loop_context option" where
  "reject_delegation_if_guarded env e c pending =
     (if delegation_depth c \<ge> MAX_DELEGATION_DEPTH then Some (push_delegation_rejected c)
      else if is_delegation_cycle c (target pending) then
        Some (push_delegation_cycle_rejected c (target pending))
      else
        let unsafe = isolation_unsafe_tools env e c (target pending) in
        if unsafe \<noteq> [] then Some (push_delegation_isolation_unsafe c (target pending) unsafe)
        else if is_delegation_repeat_blocked (loop_cfg env) c (target pending) then
          Some (push_delegation_repeat_blocked c (target pending) (consecutive_failed_delegations c))
        else None)"

subsection \<open>Resuming a stored delegation\<close>

definition push_resume_failure :: "loop_context \<Rightarrow> string \<Rightarrow> string \<Rightarrow> loop_context" where
  "push_resume_failure c reason del_id = push_message (user_message
     (''[DELEGATION FAILED: resume_delegation] '' @ reason @ '' (delegation_id='' @ del_id @ '')'')) c"

text \<open>The payload, or the context with the failure pushed.\<close>

definition fetch_resume_payload ::
  "'s engine_env \<Rightarrow> 's \<Rightarrow> loop_context \<Rightarrow> string \<Rightarrow> 's \<times> (loop_context + json)" where
  "fetch_resume_payload env s c del_id =
     (case load_delegation env of
        None \<Rightarrow> (s, Inl (push_resume_failure c ''storage unavailable'' del_id))
      | Some f \<Rightarrow> (case f s del_id of
          (s', None) \<Rightarrow> (s', Inl (push_resume_failure c ''unknown delegation_id'' del_id))
        | (s', Some raw) \<Rightarrow>
            (case parse_json env raw of
               Some (JObject kvs) \<Rightarrow> (s', Inr (JObject kvs))
             | _ \<Rightarrow> (s', Inl (push_resume_failure c ''malformed storage payload'' del_id)))))"

definition resolve_latest_for_target ::
  "'s engine_env \<Rightarrow> 's \<Rightarrow> loop_context \<Rightarrow> pending_delegation \<Rightarrow> 's \<times> (loop_context + pending_delegation)" where
  "resolve_latest_for_target env s c pending =
     (let miss = Inl (push_resume_failure c
            (''no prior delegation to this tier in storage '' @ em_dash @ '' use entropic.delegate instead'')
            (target pending))
      in case latest_delegation env of
           None \<Rightarrow> (s, miss)
         | Some f \<Rightarrow> (case f s (target pending) of
             (s', Some (ch # chs)) \<Rightarrow> (s', Inr (pending\<lparr>resume_from_delegation_id := ch # chs\<rparr>))
           | (s', _) \<Rightarrow> (s', miss)))"

fun history_of_json :: "json list \<Rightarrow> message list option" where
  "history_of_json [] = Some []"
| "history_of_json (j # js) =
     (case (json_value_string j ''role'', json_value_string j ''content'') of
        (Some r, Some t) \<Rightarrow>
          map_option (\<lambda>ms. if r \<noteq> [] then text_message r t # ms else ms) (history_of_json js)
      | _ \<Rightarrow> None)"

text \<open>
  \<open>resolve_resume_delegation\<close>: the resolved delegation with its history, or the context with the
  failure pushed; \<^const>\<open>None\<close> when the stored JSON has values of unexpected types.
\<close>

definition resolve_resume_delegation ::
  "'s engine_env \<Rightarrow> 's \<Rightarrow> loop_context \<Rightarrow> pending_delegation \<Rightarrow>
   ('s \<times> (loop_context + pending_delegation \<times> message list)) option" where
  "resolve_resume_delegation env s c pending =
     (case (if resume_by_target pending then resolve_latest_for_target env s c pending else (s, Inr pending)) of
        (s1, Inl c1) \<Rightarrow> Some (s1, Inl c1)
      | (s1, Inr p1) \<Rightarrow>
          (case fetch_resume_payload env s1 c (resume_from_delegation_id p1) of
             (s2, Inl c2) \<Rightarrow> Some (s2, Inl c2)
           | (s2, Inr j) \<Rightarrow>
               (case json_value_string j ''target_tier'' of
                  None \<Rightarrow> None
                | Some tgt \<Rightarrow>
                    if tgt = [] then
                      Some (s2, Inl (push_resume_failure c ''target_tier missing in storage''
                                       (resume_from_delegation_id p1)))
                    else
                      (case j of JObject kvs \<Rightarrow>
                         (case map_of kvs ''messages'' of
                            Some (JArray js) \<Rightarrow>
                              map_option (\<lambda>ms. (s2, Inr (p1\<lparr>target := tgt\<rparr>, ms))) (history_of_json js)
                          | _ \<Rightarrow> Some (s2, Inr (p1\<lparr>target := tgt\<rparr>, [])))
                       | _ \<Rightarrow> Some (s2, Inr (p1\<lparr>target := tgt\<rparr>, []))))))"

subsection \<open>Running a pending delegation\<close>

type_synonym 's child_run = "'s \<Rightarrow> loop_context \<Rightarrow> ('s \<times> loop_context) option"

text \<open>
  The manager \<open>run_pending_delegation\<close> sets up: the sandbox only under
  \<open>delegation.isolation\<close>, storage only when delegations can be created.
\<close>

definition manager_env :: "'w engine engine_env \<Rightarrow> 'w engine \<Rightarrow> 'w engine child_run \<Rightarrow> 'w engine delegation_env" where
  "manager_env env e child =
     (let d = delegation env in
      d\<lparr>child_loop := child,
        sandbox_mgr := (if delegation_isolation (loop_cfg env) then sandbox_mgr d else None),
        complete_delegation := (if create_delegation d = None then None else complete_delegation d)\<rparr>)"

definition run_pending_delegation ::
  "'w engine engine_env \<Rightarrow> 'w engine child_run \<Rightarrow> 'w engine \<Rightarrow> loop_context \<Rightarrow> pending_delegation \<Rightarrow> message list \<Rightarrow>
   ('w engine \<times> delegation_result) option" where
  "run_pending_delegation env child e c pending resume_history =
     (let mt = (if max_turns pending > 0 then Some (max_turns pending) else None);
          mgr = manager_env env e child
      in if resume_history = []
         then execute_delegation mgr e c (target pending) (task pending) mt (delegation_context pending)
         else execute_resume_delegation mgr e c (target pending) (task pending) resume_history mt
                (delegation_context pending))"

definition push_delegation_result :: "loop_context \<Rightarrow> string \<Rightarrow> delegation_result \<Rightarrow> loop_context" where
  "push_delegation_result c tgt result = push_message (user_message
     (''[DELEGATION '' @ (if success result then ''COMPLETE'' else ''FAILED'') @ '': '' @ tgt @ ''] '' @
      summary result)) c"

definition fire_delegate_pre_hook ::
  "'s engine_env \<Rightarrow> 's \<Rightarrow> pending_delegation \<Rightarrow> int \<Rightarrow> 's \<times> bool" where
  "fire_delegate_pre_hook env s pending depth =
     (case hook_pre env of
        None \<Rightarrow> (s, False)
      | Some f \<Rightarrow>
          (case f s 8 (''{'' @ quoted ''target_tier'' @ '':'' @ quoted (target pending) @ '','' @
                 quoted ''task'' @ '':'' @ quoted (task pending) @ '','' @
                 quoted ''depth'' @ '':'' @ to_string_int depth @ ''}'') of
             (s', rc, _) \<Rightarrow> (s', rc \<noteq> 0)))"

definition build_delegate_complete_json :: "'s engine_env \<Rightarrow> string \<Rightarrow> bool \<Rightarrow> string \<Rightarrow> string" where
  "build_delegate_complete_json env tgt ok text =
     dump_json env (JObject [(''result_kind'', JString (if ok then ''ok'' else ''delegation_failed'')),
       (''success'', JBool ok), (''summary'', JString (sanitize text)), (''target_tier'', JString tgt)])"

definition fire_delegate_complete_hook :: "'s engine_env \<Rightarrow> 's \<Rightarrow> string \<Rightarrow> bool \<Rightarrow> string \<Rightarrow> 's" where
  "fire_delegate_complete_hook env s tgt ok text =
     (case hook_post env of None \<Rightarrow> s | Some f \<Rightarrow> fst (f s 9 (build_delegate_complete_json env tgt ok text)))"

definition fire_delegation_start :: "'s engine_env \<Rightarrow> 's \<Rightarrow> string \<Rightarrow> string \<Rightarrow> 's" where
  "fire_delegation_start env s tier tsk =
     (case on_delegation_start env of None \<Rightarrow> s | Some f \<Rightarrow> f s tier tsk)"

definition fire_delegation_complete :: "'s engine_env \<Rightarrow> 's \<Rightarrow> string \<Rightarrow> delegation_result \<Rightarrow> 's" where
  "fire_delegation_complete env s tier result =
     (case on_delegation_complete env of None \<Rightarrow> s | Some f \<Rightarrow> f s tier (summary result) (success result))"

definition relay_partial_result ::
  "'s engine_env \<Rightarrow> 's \<Rightarrow> loop_context \<Rightarrow> string \<Rightarrow> 's \<times> loop_context" where
  "relay_partial_result env s c text =
     (case fire_post_generate_hook env s
             \<lparr>gen_content = text, gen_tool_calls_json = ''[]'', finish_reason = ''stop''\<rparr>
             (locked_tier c) (messages c) of
        (s1, r) \<Rightarrow> set_state env s1 (set_ctx_meta ''explicit_completion_summary'' (gen_content r) c) COMPLETE)"

definition build_coverage_gap_message :: "string \<Rightarrow> delegation_result \<Rightarrow> string" where
  "build_coverage_gap_message tier result =
     ''[COVERAGE GAP from '' @ tier @ '']'' @ [CHR 0x0A] @ ''Summary so far: '' @ summary result @ [CHR 0x0A] @
     ''What'' @ [CHR 0x27] @ ''s missing: '' @ gap_description result @
     (if suggested_files result \<noteq> []
      then [CHR 0x0A] @ ''Suggested files to inspect:'' @
           concat (map (\<lambda>f. [CHR 0x0A] @ ''  - '' @ f) (suggested_files result))
      else [])"

fun fold_summary_rev :: "string \<Rightarrow> message list \<Rightarrow> message list" where
  "fold_summary_rev text [] = []"
| "fold_summary_rev text (m # rev_ms) =
     (if role m = ''assistant'' \<and> content m = [] then m\<lparr>content := text\<rparr> # rev_ms
      else m # fold_summary_rev text rev_ms)"

definition fold_delegation_summary :: "loop_context \<Rightarrow> string \<Rightarrow> loop_context" where
  "fold_delegation_summary c text = c\<lparr>messages := rev (fold_summary_rev text (rev (messages c)))\<rparr>"

definition extract_verdict :: "string \<Rightarrow> string" where
  "extract_verdict jv =
     (let key = quoted ''verdict'' @ '':'' @ [CHR 0x22] in
      case find_str key jv of
        None \<Rightarrow> []
      | Some pos \<Rightarrow>
          let tail = drop (pos + 11) jv in
          (case find_char (CHR 0x22) tail of None \<Rightarrow> [] | Some n \<Rightarrow> take n tail))"

definition log_relay_status ::
  "'s engine_env \<Rightarrow> 's \<Rightarrow> loop_context \<Rightarrow> string \<Rightarrow> 's \<times> loop_context" where
  "log_relay_status env s c tr =
     (let (s1, verdict) = (case validation_provider env of
            None \<Rightarrow> (s, [])
          | Some f \<Rightarrow> (case f s of (s', None) \<Rightarrow> (s', []) | (s', Some jv) \<Rightarrow> (s', extract_verdict jv)))
      in (s1, set_ctx_meta ''relay_status''
            (if tr \<noteq> [] then ''budget_exhausted_relayed''
             else if verdict = ''skipped'' \<or> verdict = [] then ''validation_skipped''
             else ''validated'') c))"

definition finalize_delegation_result ::
  "'w engine engine_env \<Rightarrow> 'w engine \<Rightarrow> loop_context \<Rightarrow> delegation_result \<Rightarrow> 'w engine \<times> loop_context" where
  "finalize_delegation_result env e c result =
     (let in_relay_tier = (locked_tier c \<in> set (relay_single_delegate_tiers e)) in
      if in_relay_tier \<and> coverage_gap result then
        set_state env e
          (set_ctx_meta ''relay_status'' ''coverage_gap_suppressed''
            (push_message (user_message (build_coverage_gap_message (result_tier result) result)) c)) EXECUTING
      else if success result \<and> in_relay_tier then
        (case relay_partial_result env e c (summary result) of (e1, c1) \<Rightarrow> log_relay_status env e1 c1 [])
      else if terminal_reason result \<noteq> [] \<and> in_relay_tier then
        (case relay_partial_result env e c
                (''[partial '' @ em_dash @ '' budget_exhausted] '' @ summary result) of
           (e1, c1) \<Rightarrow> log_relay_status env e1 c1 (terminal_reason result))
      else
        let done_now = (success result \<and> \<not> tier_requires_explicit_completion env (locked_tier c));
            c1 = (if done_now then fold_delegation_summary c (summary result) else c)
        in set_state env e c1 (if done_now then COMPLETE else EXECUTING))"

text \<open>The streak of failed delegations to one target.\<close>

definition count_delegation_outcome :: "loop_context \<Rightarrow> string \<Rightarrow> bool \<Rightarrow> loop_context" where
  "count_delegation_outcome c tgt ok =
     (if ok then c\<lparr>last_failed_delegation_target := [], consecutive_failed_delegations := 0\<rparr>
      else if tgt = last_failed_delegation_target c
      then c\<lparr>consecutive_failed_delegations := consecutive_failed_delegations c + 1\<rparr>
      else c\<lparr>last_failed_delegation_target := tgt, consecutive_failed_delegations := 1\<rparr>)"

definition finish_delegation ::
  "'w engine engine_env \<Rightarrow> 'w engine child_run \<Rightarrow> 'w engine \<Rightarrow> loop_context \<Rightarrow> pending_delegation \<Rightarrow> message list \<Rightarrow>
   ('w engine \<times> loop_context) option" where
  "finish_delegation env child e c pending history =
     (case fire_delegate_pre_hook env e pending (delegation_depth c) of
        (e1, True) \<Rightarrow> Some (set_state env e1 c EXECUTING)
      | (e1, False) \<Rightarrow>
          do { let e2 = fire_delegation_start env e1 (target pending) (task pending);
               (e3, result) \<leftarrow> run_pending_delegation env child e2 c pending history;
               let c1 = push_delegation_result c (target pending) result;
               let c2 = count_delegation_outcome c1 (target pending) (success result);
               let e4 = fire_delegation_complete env e3 (target pending) result;
               let e5 = fire_delegate_complete_hook env e4 (target pending) (success result) (summary result);
               Some (finalize_delegation_result env e5 c2 result) })"

definition execute_pending_delegation ::
  "'w engine engine_env \<Rightarrow> 'w engine child_run \<Rightarrow> 'w engine \<Rightarrow> loop_context \<Rightarrow> pending_delegation \<Rightarrow>
   ('w engine \<times> loop_context) option" where
  "execute_pending_delegation env child e ctx pending =
     (let c = ctx\<lparr>ctx_pending_delegation := None\<rparr> in
      case reject_delegation_if_guarded env e c pending of
        Some c' \<Rightarrow> Some (e, c')
      | None \<Rightarrow>
          (case set_state env e c DELEGATING of (e1, c1) \<Rightarrow>
             if resume_from_delegation_id pending \<noteq> [] \<or> resume_by_target pending then
               do { (e2, r) \<leftarrow> resolve_resume_delegation env e1 c1 pending;
                    case r of
                      Inl c2 \<Rightarrow> Some (set_state env e2 c2 EXECUTING)
                    | Inr (p, history) \<Rightarrow> finish_delegation env child e2 c1 p history }
             else finish_delegation env child e1 c1 pending []))"

subsection \<open>Pipelines\<close>

fun first_unsafe_stage ::
  "'w engine engine_env \<Rightarrow> 'w engine \<Rightarrow> loop_context \<Rightarrow> string list \<Rightarrow> loop_context option" where
  "first_unsafe_stage env e c [] = None"
| "first_unsafe_stage env e c (stage # rest) =
     (let unsafe = isolation_unsafe_tools env e c stage in
      if unsafe \<noteq> [] then Some (push_delegation_isolation_unsafe c stage unsafe)
      else first_unsafe_stage env e c rest)"

definition reject_pipeline_if_guarded ::
  "'w engine engine_env \<Rightarrow> 'w engine \<Rightarrow> loop_context \<Rightarrow> pending_pipeline \<Rightarrow> loop_context option" where
  "reject_pipeline_if_guarded env e c pending =
     (if delegation_depth c \<ge> MAX_DELEGATION_DEPTH
      then Some (push_message (user_message ''[PIPELINE REJECTED] Maximum delegation depth reached.'') c)
      else first_unsafe_stage env e c (stages pending))"

fun stage_lines :: "nat \<Rightarrow> delegation_result list \<Rightarrow> string" where
  "stage_lines i [] = []"
| "stage_lines i (r # rs) =
     [CHR 0x0A] @ ''Stage '' @ to_string_nat (i + 1) @ '' ('' @ result_tier r @ ''): '' @ summary r @
     stage_lines (Suc i) rs"

definition execute_pending_pipeline ::
  "'w engine engine_env \<Rightarrow> 'w engine child_run \<Rightarrow> 'w engine \<Rightarrow> loop_context \<Rightarrow> pending_pipeline \<Rightarrow>
   ('w engine \<times> loop_context) option" where
  "execute_pending_pipeline env child e ctx pending =
     (let c = ctx\<lparr>ctx_pending_pipeline := None\<rparr> in
      case reject_pipeline_if_guarded env e c pending of
        Some c' \<Rightarrow> Some (e, c')
      | None \<Rightarrow>
          (case set_state env e c DELEGATING of (e1, c1) \<Rightarrow>
             do { (e2, stage_log, result) \<leftarrow> execute_pipeline (manager_env env e1 child) e1 c1 (stages pending)
                     (pipeline_task pending) (pipeline_context pending);
                  let c2 = push_message (user_message
                     (''[PIPELINE '' @ (if success result then ''COMPLETE'' else ''FAILED'') @ '']'' @
                      stage_lines 0 stage_log @ [CHR 0x0A] @ ''Final: '' @ summary result)) c1;
                  Some (set_state env e2 c2 EXECUTING) }))"

subsection \<open>The iteration and the loop\<close>

definition shift_iterations :: "int \<Rightarrow> loop_context \<Rightarrow> loop_context" where
  "shift_iterations d c = c\<lparr>metrics := (metrics c)\<lparr>iterations := iterations (metrics c) + d\<rparr>\<rparr>"

definition dispatch_pending_or_halt ::
  "'w engine engine_env \<Rightarrow> 'w engine child_run \<Rightarrow> 'w engine \<Rightarrow> loop_context \<Rightarrow> ('w engine \<times> loop_context) option" where
  "dispatch_pending_or_halt env child e c =
     (if run_interrupted e \<and> \<not> is_terminal_state c then Some (set_state env e c INTERRUPTED)
      else if is_terminal_state c then Some (e, c)
      else case ctx_pending_delegation c of
        Some p \<Rightarrow> execute_pending_delegation env child e (shift_iterations (- 1) c) p
      | None \<Rightarrow> (case ctx_pending_pipeline c of
          Some p \<Rightarrow> execute_pending_pipeline env child e (shift_iterations (- 1) c) p
        | None \<Rightarrow> Some (e, c)))"

text \<open>The branch of \<open>process_generation_result\<close>: tool calls, or the decision without one.\<close>

definition handle_turn ::
  "'s engine_env \<Rightarrow> 's \<Rightarrow> loop_context \<Rightarrow> string \<Rightarrow> tool_call list \<Rightarrow> string \<Rightarrow> 's \<times> loop_context \<times> bool" where
  "handle_turn env s c cleaned calls reason =
     (case process_tool_calls env of
        Some exec \<Rightarrow>
          if calls \<noteq> [] then
            (case process_tool_results env exec s c calls of
               (s', c', progress) \<Rightarrow>
                 (s', if progress then set_ctx_meta ''zero_tool_call_retries'' ''0'' c' else c', progress))
          else (case evaluate_no_tool_decision env s c cleaned reason of (s', c') \<Rightarrow> (s', c', False))
      | None \<Rightarrow> (case evaluate_no_tool_decision env s c cleaned reason of (s', c') \<Rightarrow> (s', c', False)))"

definition process_generation_result ::
  "'w engine engine_env \<Rightarrow> 'w engine child_run \<Rightarrow> 'w engine \<Rightarrow> loop_context \<Rightarrow> generate_result \<Rightarrow>
   ('w engine \<times> loop_context) option" where
  "process_generation_result env child e ctx result =
     (case parse_tool_calls env (gen_content result) of
        None \<Rightarrow> None
      | Some (cleaned, calls) \<Rightarrow>
          let c = push_message (text_message ''assistant'' cleaned) ctx;
              (e1, c1, progress) = handle_turn env e c cleaned calls (finish_reason result);
              (e2, c2) = charge_thinking_budget env e1 c1 (length (gen_content result)) progress
          in dispatch_pending_or_halt env child e2 c2)"

definition fire_pre_hook :: "'s engine_env \<Rightarrow> 's \<Rightarrow> int \<Rightarrow> int \<Rightarrow> 's \<times> bool" where
  "fire_pre_hook env s point iteration =
     (case hook_pre env of
        None \<Rightarrow> (s, False)
      | Some f \<Rightarrow> (case f s point (''{'' @ quoted ''iteration'' @ '':'' @ to_string_int iteration @ ''}'') of
          (s', rc, _) \<Rightarrow> (s', rc \<noteq> 0)))"

definition remove_anchor_messages :: "string \<Rightarrow> loop_context \<Rightarrow> loop_context" where
  "remove_anchor_messages key c =
     c\<lparr>messages := filter (\<lambda>m. meta m ''anchor_key'' \<noteq> Some key) (messages c)\<rparr>"

definition anchor_message :: "string \<Rightarrow> string \<Rightarrow> message" where
  "anchor_message key text = (text_message ''user'' text)
     \<lparr>metadata := [(''is_context_anchor'', ''true''), (''anchor_key'', key)]\<rparr>"

text \<open>\<open>dir_anchor\<close> on the anchors and the context.\<close>

definition apply_anchor ::
  "string \<Rightarrow> string \<Rightarrow> (string \<times> string) list \<Rightarrow> loop_context \<Rightarrow> (string \<times> string) list \<times> loop_context" where
  "apply_anchor key text anchors c =
     (if text = [] then (AList.delete key anchors, remove_anchor_messages key c)
      else (AList.update key text anchors,
            push_message (anchor_message key text) (remove_anchor_messages key c)))"

fun reinject_loop ::
  "(string \<times> string) list \<Rightarrow> (string \<times> string) list \<Rightarrow> loop_context \<Rightarrow> (string \<times> string) list \<times> loop_context" where
  "reinject_loop [] anchors c = (anchors, c)"
| "reinject_loop ((k, t) # snap) anchors c =
     (case apply_anchor k t anchors c of (anchors', c') \<Rightarrow> reinject_loop snap anchors' c')"

definition reinject_context_anchors :: "'w engine \<Rightarrow> loop_context \<Rightarrow> 'w engine \<times> loop_context" where
  "reinject_context_anchors e c =
     (case reinject_loop (context_anchors e) (context_anchors e) c of
        (anchors, c') \<Rightarrow> (e\<lparr>context_anchors := anchors\<rparr>, c'))"

text \<open>The context manager's environment: the engine's own hooks and anchor re-injection.\<close>

definition compaction_env_of :: "'w engine engine_env \<Rightarrow> 'w engine compaction_env" where
  "compaction_env_of env =
     \<lparr>env_fire_pre = hook_pre env,
      env_fire_post = map_option (\<lambda>f s p j. fst (f s p j)) (hook_post env),
      env_on_compaction = on_compaction env,
      env_after_compaction = Some reinject_context_anchors,
      env_storage = storage_snapshot env\<rparr>"

definition execute_iteration ::
  "'w engine engine_env \<Rightarrow> 'w engine child_run \<Rightarrow> 'w engine \<Rightarrow> loop_context \<Rightarrow> ('w engine \<times> loop_context) option" where
  "execute_iteration env child e c =
     (let e1 = fire_loop_iteration_hook env e c;
          mx = refresh_context_limit (comp_max_tokens env) 0;
          c1 = prune_old_tool_results (comp_cfg env) mx c;
          (e2, c2) = check_compaction (comp_cfg env) mx (compaction_env_of env) e1 c1 False;
          e3 = fire_context_assemble_hook env e2 c2;
          (e4, c3) = set_state env e3 c2 EXECUTING
      in case fire_pre_hook env e4 0 (iterations (metrics c3)) of
           (e5, True) \<Rightarrow> Some (set_state env e5 c3 COMPLETE)
         | (e5, False) \<Rightarrow>
             (case generate_response env e5 c3 of (e6, c4, result) \<Rightarrow>
                case dispatch_post_generate env e6 c4 result of (e7, c5, result') \<Rightarrow>
                  process_generation_result env child e7 c5 result'))"

text \<open>The while loop, with fuel: \<^const>\<open>None\<close> when the fuel runs out.\<close>

fun loop_while ::
  "'w engine engine_env \<Rightarrow> 'w engine child_run \<Rightarrow> nat \<Rightarrow> 'w engine \<Rightarrow> loop_context \<Rightarrow> ('w engine \<times> loop_context) option" where
  "loop_while env child 0 e c = (if should_stop env c then Some (e, c) else None)"
| "loop_while env child (Suc n) e c =
     (if should_stop env c then Some (e, c)
      else
        let c1 = shift_iterations 1 c in
        if run_interrupted e then Some (set_state env e c1 INTERRUPTED)
        else case execute_iteration env child e c1 of
          None \<Rightarrow> None
        | Some (e2, c2) \<Rightarrow> if ctx_state c2 = ERROR then Some (e2, c2) else loop_while env child n e2 c2)"

definition loop ::
  "'w engine engine_env \<Rightarrow> 'w engine child_run \<Rightarrow> nat \<Rightarrow> 'w engine \<Rightarrow> loop_context \<Rightarrow> ('w engine \<times> loop_context) option" where
  "loop env child n e c =
     (case loop_while env child n (fire_loop_start_hook env e c) c of
        None \<Rightarrow> None
      | Some (e1, c1) \<Rightarrow>
          let (e2, c2) =
            (if iterations (metrics c1) \<ge> resolve_max_iterations (loop_cfg env) c1 \<and> \<not> is_terminal_state c1
             then force_iteration_cap_completion env e1 c1 else (e1, c1))
          in Some (fire_loop_end_hook env e2 c2, c2))"

definition begin_loop_preamble ::
  "'w engine engine_env \<Rightarrow> 'w engine \<Rightarrow> loop_context \<Rightarrow> 'w engine \<times> loop_context" where
  "begin_loop_preamble env e c =
     (let c1 = apply_identity_overrides env c;
          (e1, c2) = reinject_context_anchors e c1;
          (e2, c3) = (if start_time (metrics c2) = 0
                      then (case clock env e1 of (e', t) \<Rightarrow> (e', c2\<lparr>metrics := (metrics c2)\<lparr>start_time := t\<rparr>\<rparr>))
                      else (e1, c2))
      in set_state env e2 c3 PLANNING)"

definition add_metrics :: "loop_metrics \<Rightarrow> loop_metrics \<Rightarrow> loop_metrics" where
  "add_metrics tm m = tm\<lparr>iterations := iterations tm + iterations m, tool_calls := tool_calls tm + tool_calls m,
     tokens_used := tokens_used tm + tokens_used m, errors := errors tm + errors m,
     end_time := end_time tm + (end_time m - start_time m)\<rparr>"

definition accumulate_per_tier :: "'w engine \<Rightarrow> loop_context \<Rightarrow> 'w engine" where
  "accumulate_per_tier e c =
     (let k = (if locked_tier c = [] then ''lead'' else locked_tier c);
          tm = (case map_of (per_tier_metrics e) k of None \<Rightarrow> default_metrics | Some m \<Rightarrow> m)
      in e\<lparr>per_tier_metrics := AList.update k (add_metrics tm (metrics c)) (per_tier_metrics e)\<rparr>)"

text \<open>
  \<open>run_loop\<close> with \<open>inherit_interrupt\<close>, the entry point of a child: each level of delegation and
  each iteration of a loop uses one unit of fuel.
\<close>

fun run_child_loop ::
  "'w engine engine_env \<Rightarrow> nat \<Rightarrow> 'w engine \<Rightarrow> loop_context \<Rightarrow> ('w engine \<times> loop_context) option" where
  "run_child_loop env 0 e c = None"
| "run_child_loop env (Suc n) e c =
     (case begin_loop_preamble env e c of (e1, c1) \<Rightarrow>
        case loop env (run_child_loop env n) n e1 c1 of
          None \<Rightarrow> None
        | Some (e2, c2) \<Rightarrow>
            (case clock env e2 of (e3, t) \<Rightarrow>
               let c3 = c2\<lparr>metrics := (metrics c2)\<lparr>end_time := t\<rparr>\<rparr>
               in Some (accumulate_per_tier e3 c3, c3)))"

subsection \<open>What the engine's own steps leave alone\<close>

text \<open>
  The fields that decide whether the loop goes on and what it dispatches. Of the parts of an
  iteration only the response generator, the tool executor and the dispatch change them.
\<close>

definition control ::
  "loop_context \<Rightarrow> int \<times> int \<times> int \<times> int \<times> pending_delegation option \<times> pending_pipeline option" where
  "control c = (iterations (metrics c), effective_max_iterations c, delegated_max_turns c,
     consecutive_duplicate_attempts c, ctx_pending_delegation c, ctx_pending_pipeline c)"

lemma set_stateD: "set_state env s c st = (s', c') \<Longrightarrow> c' = c\<lparr>ctx_state := st\<rparr>"
  by (metis snd_conv set_state_ctx)

named_theorems control_simps \<open>engine steps that keep the control fields\<close>

lemma control_basic [control_simps]:
  "control (c\<lparr>messages := ms\<rparr>) = control c"
  "control (c\<lparr>ctx_state := st\<rparr>) = control c"
  "control (c\<lparr>ctx_metadata := md\<rparr>) = control c"
  "control (c\<lparr>locked_tier := t\<rparr>) = control c"
  "control (c\<lparr>has_pending_tool_results := b\<rparr>) = control c"
  "control (c\<lparr>pending_validation_feedback := f\<rparr>) = control c"
  "control (c\<lparr>pending_anti_spiral_warning := f\<rparr>) = control c"
  "control (c\<lparr>budget_tokens_since_tool := i\<rparr>) = control c"
  "control (c\<lparr>budget_window_start_s := r\<rparr>) = control c"
  "control (c\<lparr>budget_completion_nudged := b\<rparr>) = control c"
  "control (push_message m c) = control c"
  "control (set_ctx_meta k v c) = control c"
  "control (snd (set_state env s c st)) = control c"
  by (simp_all add: control_def push_message_def set_ctx_meta_def)

lemma control_prune [control_simps]: "control (prune_old_tool_results cfg mx c) = control c"
  by (simp add: prune_old_tool_results_def control_simps)

lemma control_reinject: "control (snd (reinject_loop snap an c)) = control c"
  by (induction snap an c rule: reinject_loop.induct)
     (auto simp: apply_anchor_def remove_anchor_messages_def control_simps split: prod.splits)

lemma control_anchors [control_simps]: "control (snd (reinject_context_anchors e c)) = control c"
  using control_reinject [of "context_anchors e" "context_anchors e" c]
  by (auto simp: reinject_context_anchors_def split: prod.split)

lemma control_compaction [control_simps]:
  "control (snd (check_compaction cfg mx (compaction_env_of env) e c force)) = control c"
  by (auto simp: check_compaction_def fire_post_compact_hooks_def compaction_env_of_def Let_def
      control_simps split: prod.split bool.split if_splits)

lemma control_finish [control_simps]:
  "control (snd (finish_with_carried_output env s c reason noun tr)) = control c"
  by (simp add: finish_ctx Let_def control_simps)

lemma control_budget [control_simps]:
  "control (snd (charge_thinking_budget env s c n b)) = control c"
  by (auto simp: charge_thinking_budget_def budget_units_consumed_def nudge_budget_completion_def
      hard_cut_budget_def Let_def control_simps split: prod.split)

lemma control_post_generate [control_simps]:
  "control (fst (snd (dispatch_post_generate env s c r))) = control c"
  by (auto simp: dispatch_post_generate_def capture_validation_feedback_def Let_def control_simps
      split: prod.split option.split json.split)

lemma control_fold:
  "fold_complete_into_assistant c m = Some c' \<Longrightarrow> control c' = control c"
  by (auto simp: fold_complete_into_assistant_def Let_def control_simps split: if_splits option.splits)

lemma control_push_results [control_simps]: "control (fst (push_tool_results env c p ms)) = control c"
  by (induction ms arbitrary: c p) (auto simp: Let_def control_simps control_fold split: option.split)

lemma control_finish_reason: "control (fst (snd (handle_terminal_finish_reasons env s c r))) = control c"
  by (simp add: handle_terminal_finish_reasons_def control_simps set_state_case)

lemma control_auto_chain: "control (fst (snd (try_auto_chain env s c r t))) = control c"
  by (simp add: try_auto_chain_def Let_def control_simps set_state_case)

lemma control_empty_turn: "control (fst (snd (record_explicit_completion_failure env s c))) = control c"
  by (simp add: record_explicit_completion_failure_def Let_def control_simps set_state_case)

lemma control_no_tool [control_simps]:
  "control (snd (evaluate_no_tool_decision env s c t r)) = control c"
proof -
  obtain s1 c1 b1 where 1: "handle_terminal_finish_reasons env s c r = (s1, c1, b1)" by (rule prod_cases3)
  obtain s2 c2 b2 where 2: "try_auto_chain env s1 c1 r t = (s2, c2, b2)" by (rule prod_cases3)
  obtain s3 c3 b3 where 3: "record_explicit_completion_failure env s2 c2 = (s3, c3, b3)" by (rule prod_cases3)
  have "control c1 = control c" "control c2 = control c1" "control c3 = control c2"
    using control_finish_reason [of env s c r] control_auto_chain [of env s1 c1 r t]
      control_empty_turn [of env s2 c2] 1 2 3 by simp_all
  then show ?thesis
    by (cases b1; cases b2; cases b3) (simp_all add: evaluate_no_tool_decision_def 1 2 3 control_simps)
qed

text \<open>The three numbers that bound a loop, and the absence of pending work.\<close>

definition limits :: "loop_context \<Rightarrow> int \<times> int \<times> int" where
  "limits c = (iterations (metrics c), effective_max_iterations c, delegated_max_turns c)"

definition no_pending :: "loop_context \<Rightarrow> bool" where
  "no_pending c \<longleftrightarrow> ctx_pending_delegation c = None \<and> ctx_pending_pipeline c = None"

lemma control_eqD:
  "control c' = control c \<Longrightarrow> limits c' = limits c"
  "control c' = control c \<Longrightarrow> no_pending c' = no_pending c"
  "control c' = control c \<Longrightarrow> consecutive_duplicate_attempts c' = consecutive_duplicate_attempts c"
  "control c' = control c \<Longrightarrow> ctx_pending_delegation c' = ctx_pending_delegation c"
  by (auto simp: control_def limits_def no_pending_def)

lemma resolve_limits: "limits c' = limits c \<Longrightarrow> resolve_max_iterations cfg c' = resolve_max_iterations cfg c"
  by (simp add: limits_def resolve_max_iterations_def Let_def)

subsection \<open>An iteration without delegations returns\<close>

text \<open>
  What the loop relies on from the two parts of an iteration that edit its context: the response
  generator and the tool executor leave the loop's limits alone.
\<close>

definition generator_steady :: "'w engine engine_env \<Rightarrow> bool" where
  "generator_steady env \<longleftrightarrow> (\<forall>s c s' c' r. generate_response env s c = (s', c', r) \<longrightarrow>
     limits c' = limits c \<and> (no_pending c \<longrightarrow> no_pending c'))"

definition executor_steady :: "'w engine engine_env \<Rightarrow> bool" where
  "executor_steady env \<longleftrightarrow> (\<forall>f s c tcs s' c' ms. process_tool_calls env = Some f \<longrightarrow> f s c tcs = (s', c', ms) \<longrightarrow>
     limits c' = limits c \<and> (no_pending c \<longrightarrow> no_pending c'))"

definition parses :: "'w engine engine_env \<Rightarrow> bool" where
  "parses env \<longleftrightarrow> (\<forall>t. parse_tool_calls env t \<noteq> None)"

lemma executor_steadyD:
  "executor_steady env \<Longrightarrow> process_tool_calls env = Some f \<Longrightarrow> f s c tcs = (s', c', ms) \<Longrightarrow>
     limits c' = limits c \<and> (no_pending c \<longrightarrow> no_pending c')"
  unfolding executor_steady_def by blast

lemma generator_steadyD:
  "generator_steady env \<Longrightarrow> generate_response env s c = (s', c', r) \<Longrightarrow>
     limits c' = limits c \<and> (no_pending c \<longrightarrow> no_pending c')"
  unfolding generator_steady_def by blast

lemma limits_tool_results:
  assumes "executor_steady env" "process_tool_calls env = Some f"
    and "process_tool_results env f s c tcs = (s', c', p)"
  shows "limits c' = limits c \<and> (no_pending c \<longrightarrow> no_pending c')"
proof -
  obtain s1 c1 where 1: "set_state env s c WAITING_TOOL = (s1, c1)" by fastforce
  obtain s2 c2 rs where 2: "f s1 c1 tcs = (s2, c2, rs)" by (rule prod_cases3)
  obtain c3 p3 where 3: "push_tool_results env c2 False rs = (c3, p3)" by fastforce
  have c1: "control c1 = control c" using control_basic(13) [of env s c WAITING_TOOL] 1 by simp
  have c3: "control c3 = control c2" using control_push_results [of env c2 False rs] 3 by simp
  have "control c' = control c3"
    using assms(3) by (auto simp: process_tool_results_def 1 2 3 control_simps Let_def
        dest!: set_stateD split: if_splits prod.splits)
  moreover have "limits c2 = limits c1 \<and> (no_pending c1 \<longrightarrow> no_pending c2)"
    using executor_steadyD [OF assms(1,2) 2] .
  ultimately show ?thesis using c1 c3 by (metis control_eqD(1,2))
qed

lemma handle_turn_limits:
  assumes "executor_steady env" "no_pending c" "handle_turn env s c cleaned calls reason = (s', c', p)"
  shows "limits c' = limits c \<and> no_pending c'"
proof (cases "\<exists>exec. process_tool_calls env = Some exec \<and> calls \<noteq> []")
  case True
  then obtain exec where t: "process_tool_calls env = Some exec" "calls \<noteq> []" by blast
  obtain s1 c1 p1 where r: "process_tool_results env exec s c calls = (s1, c1, p1)" by (rule prod_cases3)
  have "limits c1 = limits c \<and> no_pending c1"
    using limits_tool_results [OF assms(1) t(1) r] assms(2) by simp
  moreover have "control c' = control c1"
    using assms(3) t r by (auto simp: handle_turn_def control_simps split: if_splits)
  ultimately show ?thesis using control_eqD(1,2) by metis
next
  case False
  then have "(case evaluate_no_tool_decision env s c cleaned reason of (s', c') \<Rightarrow> (s', c', False)) = (s', c', p)"
    using assms(3) by (auto simp: handle_turn_def split: option.splits)
  then have "control c' = control c"
    using control_no_tool [of env s c cleaned reason] by (auto split: prod.splits)
  with assms(2) show ?thesis using control_eqD(1,2) by metis
qed

lemma process_generation_returns:
  assumes "executor_steady env" "parses env" "no_pending c"
  shows "\<exists>e' c'. process_generation_result env child e c r = Some (e', c') \<and>
    limits c' = limits c \<and> no_pending c'"
proof -
  obtain cleaned calls where p: "parse_tool_calls env (gen_content r) = Some (cleaned, calls)"
    using assms(2) unfolding parses_def by (metis not_None_eq surj_pair)
  let ?c = "push_message (text_message ''assistant'' cleaned) c"
  have c0: "limits ?c = limits c" "no_pending ?c"
    using assms(3) control_eqD(1,2) [of ?c c] by (simp_all add: control_simps)
  obtain e1 c1 pr where st: "handle_turn env e ?c cleaned calls (finish_reason r) = (e1, c1, pr)"
    by (rule prod_cases3)
  have c1: "limits c1 = limits ?c \<and> no_pending c1"
    by (rule handle_turn_limits [OF assms(1) c0(2) st])
  obtain e2 c2 where b: "charge_thinking_budget env e1 c1 (length (gen_content r)) pr = (e2, c2)" by fastforce
  then have "control c2 = control c1"
    using control_budget [of env e1 c1 "length (gen_content r)" pr] by simp
  with c0 c1 have c2: "limits c2 = limits c" "no_pending c2" using control_eqD(1,2) by metis+
  have "process_generation_result env child e c r = dispatch_pending_or_halt env child e2 c2"
    using p st b by (simp add: process_generation_result_def Let_def)
  moreover have "\<exists>e' c'. dispatch_pending_or_halt env child e2 c2 = Some (e', c') \<and> control c' = control c2"
    using c2(2) by (auto simp: dispatch_pending_or_halt_def no_pending_def control_simps
        intro!: exI [of _ "fst (set_state env e2 c2 INTERRUPTED)"] prod_eqI)
  ultimately show ?thesis using c2 control_eqD(1,2) by metis
qed

lemma execute_iteration_returns:
  assumes "generator_steady env" "executor_steady env" "parses env" "no_pending c"
  shows "\<exists>e' c'. execute_iteration env child e c = Some (e', c') \<and> limits c' = limits c \<and> no_pending c'"
proof -
  let ?mx = "refresh_context_limit (comp_max_tokens env) 0"
  let ?c1 = "prune_old_tool_results (comp_cfg env) ?mx c"
  let ?e1 = "fire_loop_iteration_hook env e c"
  obtain e2 c2 where 2: "check_compaction (comp_cfg env) ?mx (compaction_env_of env) ?e1 ?c1 False = (e2, c2)"
    by fastforce
  obtain e4 c3 where 3: "set_state env (fire_context_assemble_hook env e2 c2) c2 EXECUTING = (e4, c3)"
    by fastforce
  have "control c2 = control c"
    using control_compaction [of "comp_cfg env" ?mx env ?e1 ?c1 False] 2 by (simp add: control_simps)
  moreover have "control c3 = control c2" using set_stateD [OF 3] by (simp add: control_simps)
  ultimately have c3: "limits c3 = limits c" "no_pending c3" using assms(4) control_eqD(1,2) by metis+
  obtain e5 b where 5: "fire_pre_hook env e4 0 (iterations (metrics c3)) = (e5, b)" by fastforce
  show ?thesis
  proof (cases b)
    case True
    have "execute_iteration env child e c = Some (set_state env e5 c3 COMPLETE)"
      using 2 3 5 True by (simp add: execute_iteration_def Let_def)
    moreover have "control (snd (set_state env e5 c3 COMPLETE)) = control c3" by (simp add: control_simps)
    ultimately show ?thesis using c3 control_eqD(1,2) by (metis prod.collapse)
  next
    case False
    obtain e6 c4 r where 6: "generate_response env e5 c3 = (e6, c4, r)" by (rule prod_cases3)
    obtain e7 c5 r' where 7: "dispatch_post_generate env e6 c4 r = (e7, c5, r')" by (rule prod_cases3)
    have c4: "limits c4 = limits c3" "no_pending c4"
      using generator_steadyD [OF assms(1) 6] c3(2) by simp_all
    have "control c5 = control c4" using control_post_generate [of env e6 c4 r] 7 by simp
    with c3 c4 have c5: "limits c5 = limits c" "no_pending c5" using control_eqD(1,2) by metis+
    have "execute_iteration env child e c = process_generation_result env child e7 c5 r'"
      using 2 3 5 6 7 False by (simp add: execute_iteration_def Let_def)
    with process_generation_returns [OF assms(2,3) c5(2), of child e7 r'] c5 show ?thesis by auto
  qed
qed

subsection \<open>The loop\<close>

lemma shift_limits:
  "limits (shift_iterations d c) = (iterations (metrics c) + d, effective_max_iterations c, delegated_max_turns c)"
  "no_pending (shift_iterations d c) = no_pending c"
  by (simp_all add: limits_def no_pending_def shift_iterations_def)

lemma loop_while_returns:
  assumes "generator_steady env" "executor_steady env" "parses env" "no_pending c"
    and "nat (resolve_max_iterations (loop_cfg env) c - iterations (metrics c)) \<le> n"
  shows "\<exists>e' c'. loop_while env child n e c = Some (e', c') \<and>
    iterations (metrics c') \<le> max (iterations (metrics c)) (resolve_max_iterations (loop_cfg env) c) \<and>
    resolve_max_iterations (loop_cfg env) c' = resolve_max_iterations (loop_cfg env) c"
  using assms(4,5)
proof (induction n arbitrary: e c)
  case 0
  then have "should_stop env c" by (simp add: should_stop_def)
  then show ?case by simp
next
  case (Suc n)
  let ?c1 = "shift_iterations 1 c"
  show ?case
  proof (cases "should_stop env c \<or> run_interrupted e")
    case True
    have "resolve_max_iterations (loop_cfg env) (c'\<lparr>ctx_state := st\<rparr>) = resolve_max_iterations (loop_cfg env) c'" for c' st
      by (rule resolve_limits) (simp add: limits_def)
    moreover have "resolve_max_iterations (loop_cfg env) ?c1 = resolve_max_iterations (loop_cfg env) c"
      by (simp add: resolve_max_iterations_def shift_iterations_def Let_def)
    moreover have "iterations (metrics ?c1) \<le> resolve_max_iterations (loop_cfg env) c" if "\<not> should_stop env c"
      using that by (simp add: should_stop_def shift_iterations_def)
    ultimately show ?thesis
      using True by (cases "should_stop env c")
        (auto simp: Let_def le_max_iff_disj intro!: exI [of _ "fst (set_state env e ?c1 INTERRUPTED)"]
          exI [of _ "?c1\<lparr>ctx_state := INTERRUPTED\<rparr>"] prod_eqI)
  next
    case False
    have np: "no_pending ?c1" using Suc.prems(1) by (simp add: shift_limits)
    from execute_iteration_returns [OF assms(1-3) np, of child e] obtain e2 c2 where
      2: "execute_iteration env child e ?c1 = Some (e2, c2)" "limits c2 = limits ?c1" "no_pending c2" by blast
    have it: "iterations (metrics c2) = iterations (metrics c) + 1"
      using 2(2) shift_limits(1) [of 1 c] by (simp add: limits_def)
    have mx: "resolve_max_iterations (loop_cfg env) c2 = resolve_max_iterations (loop_cfg env) c"
      using resolve_limits [OF 2(2)] by (simp add: resolve_max_iterations_def shift_iterations_def Let_def)
    have lt: "iterations (metrics c) < resolve_max_iterations (loop_cfg env) c"
      using False by (simp add: should_stop_def)
    show ?thesis
    proof (cases "ctx_state c2 = ERROR")
      case True
      then show ?thesis using False 2(1) it mx lt by (simp add: Let_def)
    next
      case no_error: False
      have "nat (resolve_max_iterations (loop_cfg env) c2 - iterations (metrics c2)) \<le> n"
        using Suc.prems(2) it mx lt by linarith
      from Suc.IH [OF 2(3) this, of e2] obtain e' c' where
        "loop_while env child n e2 c2 = Some (e', c')"
        "iterations (metrics c') \<le> max (iterations (metrics c2)) (resolve_max_iterations (loop_cfg env) c2)"
        "resolve_max_iterations (loop_cfg env) c' = resolve_max_iterations (loop_cfg env) c2" by blast
      with False 2(1) no_error it mx lt show ?thesis by (auto simp: Let_def)
    qed
  qed
qed

lemma loop_while_ends:
  "loop_while env child n e c = Some (e', c') \<Longrightarrow> should_stop env c' \<or> is_terminal_state c'"
proof (induction n arbitrary: e c)
  case 0
  then show ?case by (simp split: if_splits)
next
  case (Suc n)
  show ?case
  proof (cases "should_stop env c \<or> run_interrupted e")
    case True
    with Suc.prems show ?thesis
      by (auto simp: Let_def is_terminal_state_def dest!: set_stateD split: if_splits)
  next
    case False
    with Suc.prems obtain e2 c2 where
      "(if ctx_state c2 = ERROR then Some (e2, c2) else loop_while env child n e2 c2) = Some (e', c')"
      by (auto simp: Let_def split: option.splits)
    with Suc.IH show ?thesis by (auto simp: is_terminal_state_def split: if_splits)
  qed
qed

lemma loop_from_while:
  assumes "loop_while env child n (fire_loop_start_hook env e c) c = Some (e1, c1)"
  shows "\<exists>e' c'. loop env child n e c = Some (e', c') \<and> control c' = control c1 \<and>
    (is_terminal_state c' \<or> consecutive_duplicate_attempts c' \<ge> 3)"
proof (cases "iterations (metrics c1) \<ge> resolve_max_iterations (loop_cfg env) c1 \<and> \<not> is_terminal_state c1")
  case True
  obtain e2 c2 where f: "force_iteration_cap_completion env e1 c1 = (e2, c2)" by fastforce
  then have c2: "c2 = snd (force_iteration_cap_completion env e1 c1)" by simp
  have "control c2 = control c1" "is_terminal_state c2"
    unfolding c2 by (simp_all add: force_iteration_cap_completion_def control_simps is_terminal_state_def)
  with True assms f show ?thesis by (simp add: loop_def)
next
  case False
  with loop_while_ends [OF assms] have "is_terminal_state c1 \<or> consecutive_duplicate_attempts c1 \<ge> 3"
    by (auto simp: should_stop_def)
  moreover have "loop env child n e c = Some (fire_loop_end_hook env e1 c1, c1)"
    using assms False by (simp only: loop_def option.case prod.case if_False Let_def)
  ultimately show ?thesis by blast
qed

subsection \<open>A refused delegation\<close>

lemma push_rejection_frame:
  "ctx_state (push_delegation_rejected c) = ctx_state c" "limits (push_delegation_rejected c) = limits c"
  "consecutive_duplicate_attempts (push_delegation_rejected c) = consecutive_duplicate_attempts c"
  "ctx_state (push_delegation_cycle_rejected c t) = ctx_state c"
  "limits (push_delegation_cycle_rejected c t) = limits c"
  "consecutive_duplicate_attempts (push_delegation_cycle_rejected c t) = consecutive_duplicate_attempts c"
  by (simp_all add: push_delegation_rejected_def push_delegation_cycle_rejected_def push_message_def
      set_ctx_meta_def limits_def Let_def)

lemma cycle_refused:
  assumes "is_delegation_cycle c (target p)"
  shows "\<exists>c'. execute_pending_delegation env child e c p = Some (e, c') \<and> ctx_state c' = ctx_state c \<and>
    limits c' = limits c \<and> consecutive_duplicate_attempts c' = consecutive_duplicate_attempts c"
proof -
  let ?c = "c\<lparr>ctx_pending_delegation := None\<rparr>"
  have "is_delegation_cycle ?c (target p)" using assms by (simp add: is_delegation_cycle_def)
  then have "execute_pending_delegation env child e c p = Some (e,
      if delegation_depth c \<ge> MAX_DELEGATION_DEPTH then push_delegation_rejected ?c
      else push_delegation_cycle_rejected ?c (target p))"
    by (simp add: execute_pending_delegation_def reject_delegation_if_guarded_def Let_def)
  moreover have "limits ?c = limits c" by (simp add: limits_def)
  ultimately show ?thesis by (simp add: push_rejection_frame)
qed

subsection \<open>A loop that never ends\<close>

text \<open>
  An environment in which the model answers every turn with a delegation to its own tier. The
  cycle guard refuses it each time; the iteration is given back each time.
\<close>

definition self_delegation :: "loop_context \<Rightarrow> pending_delegation" where
  "self_delegation c = \<lparr>target = locked_tier c, task = ''t'', max_turns = - 1,
     resume_from_delegation_id = [], delegation_context = [], resume_by_target = False\<rparr>"

definition self_env :: "'w engine engine_env" where
  "self_env = quiet_env
     \<lparr>adapter_parse := Some (\<lambda>t. (0, Some t, Some ''calls'')),
      parse_json := (\<lambda>_. Some (JArray [JObject [(''name'', JString ''entropic.delegate'')]])),
      process_tool_calls := Some (\<lambda>s c tcs. (s, c\<lparr>ctx_pending_delegation := Some (self_delegation c)\<rparr>, []))\<rparr>"

lemma prune_messages_only:
  "prune_old_tool_results cfg mx c = c\<lparr>messages := messages (prune_old_tool_results cfg mx c)\<rparr>"
  by (simp add: prune_old_tool_results_def)

lemma self_fields:
  "hook_pre self_env = None" "hook_post self_env = None" "hook_info self_env = None"
  "validation_provider self_env = None" "budget_mode (loop_cfg self_env) = budget_off"
  "generate_response self_env = (\<lambda>s c. (s, c, \<lparr>gen_content = ''hello'', gen_tool_calls_json = ''[]'',
     finish_reason = ''stop''\<rparr>))"
  by (simp_all add: self_env_def quiet_env_def default_loop_config_def)

lemma self_set_state: "set_state self_env e c st = (e, c\<lparr>ctx_state := st\<rparr>)"
  by (simp add: set_state_def self_env_def quiet_env_def opt_call_def fire_hook_info_def Let_def)

lemma self_parse: "\<exists>cl tc. parse_tool_calls (self_env :: 'w engine engine_env) t = Some (cl, [tc])"
proof -
  have s: "sanitize ''calls'' = ''calls''" by code_simp
  show ?thesis
    by (simp add: parse_tool_calls_def self_env_def quiet_env_def s decode_tool_calls_json_def
        build_tool_call_from_json_def json_value_string_def Let_def)
qed

lemma self_compaction:
  "\<exists>ms an. check_compaction (comp_cfg self_env) mx (compaction_env_of self_env) e c False =
     (e\<lparr>context_anchors := an\<rparr>, c\<lparr>messages := ms\<rparr>)"
proof -
  have r: "\<exists>ms an. reinject_context_anchors e c = (e\<lparr>context_anchors := an\<rparr>, c\<lparr>messages := ms\<rparr>)" for e :: "'w engine" and c
  proof -
    have "\<exists>ms an'. reinject_loop snap an c = (an', c\<lparr>messages := ms\<rparr>)" for snap an c
    proof (induction snap an c rule: reinject_loop.induct)
      case (1 an c)
      have "c = c\<lparr>messages := messages c\<rparr>" by simp
      then show ?case by (metis reinject_loop.simps(1))
    next
      case (2 k t snap an c)
      have "\<exists>an' ms. apply_anchor k t an c = (an', c\<lparr>messages := ms\<rparr>)"
        by (cases "t = []") (auto simp: apply_anchor_def remove_anchor_messages_def push_message_def)
      then obtain an' ms where a: "apply_anchor k t an c = (an', c\<lparr>messages := ms\<rparr>)" by blast
      from 2 [OF a [symmetric]] obtain ms' an'' where
        "reinject_loop snap an' (c\<lparr>messages := ms\<rparr>) = (an'', c\<lparr>messages := ms, messages := ms'\<rparr>)" by blast
      with a have "reinject_loop ((k, t) # snap) an c = (an'', c\<lparr>messages := ms'\<rparr>)" by simp
      then show ?case by blast
    qed
    then obtain ms an' where "reinject_loop (context_anchors e) (context_anchors e) c = (an', c\<lparr>messages := ms\<rparr>)"
      by blast
    then have "reinject_context_anchors e c = (e\<lparr>context_anchors := an'\<rparr>, c\<lparr>messages := ms\<rparr>)"
      by (simp add: reinject_context_anchors_def)
    then show ?thesis by blast
  qed
  obtain w ms res where "check_and_compact (comp_cfg self_env) mx None e (messages c) False (conversation_id c) = (w, ms, res)"
    by (rule prod_cases3)
  moreover from this have "w = e"
    by (auto simp: check_and_compact_def save_snapshot_def Let_def split: if_splits prod.splits)
  moreover have "e = e\<lparr>context_anchors := context_anchors e\<rparr>" by simp
  ultimately show ?thesis
    using r [of e "c\<lparr>messages := ms\<rparr>"]
    by (auto simp: check_compaction_def fire_pre_compact_hook_def compaction_env_of_def self_env_def
        quiet_env_def fire_post_compact_hooks_def Let_def intro!: exI [of _ "context_anchors e"])
qed

lemma self_turn:
  fixes e :: "'w engine"
  shows "handle_turn self_env e c cl [tc] r = (e, c\<lparr>ctx_state := EXECUTING, has_pending_tool_results := True,
     ctx_pending_delegation := Some (self_delegation c)\<rparr>, False)"
proof -
  have "self_delegation (c\<lparr>ctx_state := WAITING_TOOL\<rparr>) = self_delegation c" by (simp add: self_delegation_def)
  moreover have "process_tool_calls (self_env :: 'w engine engine_env) =
      Some (\<lambda>s c tcs. (s, c\<lparr>ctx_pending_delegation := Some (self_delegation c)\<rparr>, []))"
    by (simp add: self_env_def)
  ultimately show ?thesis
    by (simp add: handle_turn_def process_tool_results_def self_set_state is_terminal_state_def Let_def)
qed

text \<open>Non-terminal, below the limits and not interrupted: the state every iteration returns to.\<close>

definition runnable :: "'w engine engine_env \<Rightarrow> 'w engine \<Rightarrow> loop_context \<Rightarrow> bool" where
  "runnable env e c \<longleftrightarrow> \<not> should_stop env c \<and> \<not> run_interrupted e"

lemma self_iteration:
  fixes e :: "'w engine"
  assumes "runnable self_env e c"
  shows "\<exists>e' c'. execute_iteration self_env child e (shift_iterations 1 c) = Some (e', c') \<and>
    ctx_state c' = EXECUTING \<and> runnable self_env e' c'"
proof -
  let ?c = "shift_iterations 1 c"
  let ?env = "self_env :: 'w engine engine_env"
  let ?c1 = "prune_old_tool_results (comp_cfg ?env) (comp_max_tokens ?env) ?c"
  obtain ms an where k: "check_compaction (comp_cfg ?env) (comp_max_tokens ?env)
      (compaction_env_of ?env) e ?c1 False = (e\<lparr>context_anchors := an\<rparr>, ?c1\<lparr>messages := ms\<rparr>)"
    using self_compaction by blast
  obtain ms1 where c1: "?c1 = ?c\<lparr>messages := ms1\<rparr>"
    using prune_messages_only by blast
  let ?e = "e\<lparr>context_anchors := an\<rparr>"
  let ?c3 = "?c\<lparr>messages := ms, ctx_state := EXECUTING, pending_validation_feedback := [], pending_anti_spiral_warning := []\<rparr>"
  obtain cl tc where p: "parse_tool_calls ?env ''hello'' = Some (cl, [tc])"
    using self_parse by blast
  let ?c4 = "push_message (text_message ''assistant'' cl) ?c3"
  let ?c5 = "?c4\<lparr>ctx_state := EXECUTING, has_pending_tool_results := True,
      ctx_pending_delegation := Some (self_delegation ?c4)\<rparr>"
  have e: "execute_iteration self_env child e ?c = dispatch_pending_or_halt self_env child ?e ?c5"
    using k c1 p self_turn [of ?e ?c4 cl tc "''stop''"]
    by (simp add: execute_iteration_def refresh_context_limit_def fire_loop_iteration_hook_def
        fire_context_assemble_hook_def fire_pre_hook_def dispatch_post_generate_def
        fire_post_generate_hook_def capture_validation_feedback_def process_generation_result_def
        charge_thinking_budget_def self_set_state fire_hook_info_def self_fields Let_def)
  have ri: "run_interrupted ?e = run_interrupted e" by (simp add: run_interrupted_def split: option.split)
  let ?c5' = "shift_iterations (- 1) ?c5"
  have "is_delegation_cycle ?c5' (target (self_delegation ?c4))"
    by (simp add: is_delegation_cycle_def self_delegation_def push_message_def shift_iterations_def)
  from cycle_refused [OF this, of self_env child ?e] obtain c6 where
    "execute_pending_delegation self_env child ?e ?c5' (self_delegation ?c4) = Some (?e, c6)"
    "ctx_state c6 = ctx_state ?c5'" "limits c6 = limits ?c5'"
    "consecutive_duplicate_attempts c6 = consecutive_duplicate_attempts ?c5'" by blast
  moreover have "limits ?c5' = limits c" "ctx_state ?c5' = EXECUTING"
      "consecutive_duplicate_attempts ?c5' = consecutive_duplicate_attempts c"
    by (simp_all add: limits_def push_message_def shift_iterations_def)
  moreover have "dispatch_pending_or_halt self_env child ?e ?c5 =
      execute_pending_delegation self_env child ?e ?c5' (self_delegation ?c4)"
    using assms ri by (simp add: runnable_def dispatch_pending_or_halt_def is_terminal_state_def)
  ultimately have c6: "dispatch_pending_or_halt self_env child ?e ?c5 = Some (?e, c6)"
      "ctx_state c6 = EXECUTING" "limits c6 = limits c"
      "consecutive_duplicate_attempts c6 = consecutive_duplicate_attempts c" by simp_all
  have "runnable self_env ?e c6"
    using assms c6(2-4) resolve_limits [OF c6(3), of "loop_cfg ?env"]
    by (auto simp: runnable_def should_stop_def is_terminal_state_def ri limits_def)
  with e c6 show ?thesis by auto
qed

lemma self_loop_diverges: "runnable self_env e c \<Longrightarrow> loop_while self_env child n e c = None"
proof (induction n arbitrary: e c)
  case 0
  then show ?case by (simp add: runnable_def)
next
  case (Suc n)
  from self_iteration [OF Suc.prems, of child] obtain e' c' where
    1: "execute_iteration self_env child e (shift_iterations 1 c) = Some (e', c')"
    "ctx_state c' = EXECUTING" "runnable self_env e' c'" by blast
  with Suc.IH [OF 1(3)] Suc.prems show ?case by (simp add: runnable_def Let_def)
qed

subsection \<open>Anchors\<close>

definition anchor_keyed :: "string set \<Rightarrow> message \<Rightarrow> bool" where
  "anchor_keyed ks m \<longleftrightarrow> (\<exists>k\<in>ks. meta m ''anchor_key'' = Some k)"

lemma anchor_keyed_message [simp]: "anchor_keyed ks (anchor_message k t) \<longleftrightarrow> k \<in> ks"
  by (simp add: anchor_keyed_def anchor_message_def meta_def)

lemma anchor_keyed_insert: "anchor_keyed (insert k ks) m \<longleftrightarrow> meta m ''anchor_key'' = Some k \<or> anchor_keyed ks m"
  by (auto simp: anchor_keyed_def)

lemma update_present: "map_of m k = Some v \<Longrightarrow> distinct (map fst m) \<Longrightarrow> AList.update k v m = m"
  by (induction m) auto

lemma reinject_loop_spec:
  assumes "distinct (map fst snap)" "list_all (\<lambda>(k, t). t \<noteq> []) snap"
    and "distinct (map fst an)" "\<And>k t. (k, t) \<in> set snap \<Longrightarrow> map_of an k = Some t"
  shows "reinject_loop snap an c = (an, c\<lparr>messages :=
     filter (\<lambda>m. \<not> anchor_keyed (set (map fst snap)) m) (messages c) @ map (\<lambda>(k, t). anchor_message k t) snap\<rparr>)"
  using assms
proof (induction snap arbitrary: c)
  case Nil
  then show ?case by (simp add: anchor_keyed_def)
next
  case (Cons kt snap)
  obtain k t where kt: "kt = (k, t)" by (cases kt)
  let ?c1 = "push_message (anchor_message k t) (remove_anchor_messages k c)"
  have step: "apply_anchor k t an c = (an, ?c1)"
    using Cons.prems kt by (simp add: apply_anchor_def update_present)
  have "reinject_loop snap an ?c1 = (an, ?c1\<lparr>messages :=
     filter (\<lambda>m. \<not> anchor_keyed (set (map fst snap)) m) (messages ?c1) @ map (\<lambda>(k, t). anchor_message k t) snap\<rparr>)"
    by (rule Cons.IH) (use Cons.prems kt in auto)
  moreover have "k \<notin> set (map fst snap)" using Cons.prems(1) kt by simp
  moreover have "filter (\<lambda>m. \<not> anchor_keyed (set (map fst snap)) m)
        (filter (\<lambda>m. meta m ''anchor_key'' \<noteq> Some k) (messages c)) =
      filter (\<lambda>m. \<not> anchor_keyed (insert k (set (map fst snap))) m) (messages c)"
    by (auto simp: anchor_keyed_insert intro: filter_cong)
  ultimately show ?case
    using step kt by (simp add: push_message_def remove_anchor_messages_def)
qed

subsection \<open>Properties\<close>

text \<open>
  Claim C1. The agentic loop terminates. When no delegation is pending and the response generator
  and the tool executor neither change the loop's limits nor queue one, a fuel of as many
  iterations as are left makes the loop return, having run at most up to the limit, in a terminal
  state (complete, error or interrupted) unless three duplicate tool calls in a row stopped it.
  The limit is the operator's cap and the turns the delegating model asked for, whichever is less.
\<close>

theorem loop_terminates:
  assumes "generator_steady env" "executor_steady env" "parses env" "no_pending c"
    and "nat (resolve_max_iterations (loop_cfg env) c - iterations (metrics c)) \<le> n"
  shows "\<exists>e' c'. loop env child n e c = Some (e', c') \<and>
    (is_terminal_state c' \<or> consecutive_duplicate_attempts c' \<ge> 3) \<and>
    iterations (metrics c') \<le> max (iterations (metrics c)) (resolve_max_iterations (loop_cfg env) c)"
proof -
  from loop_while_returns [OF assms, of child "fire_loop_start_hook env e c"] obtain e1 c1 where
    1: "loop_while env child n (fire_loop_start_hook env e c) c = Some (e1, c1)"
    "iterations (metrics c1) \<le> max (iterations (metrics c)) (resolve_max_iterations (loop_cfg env) c)" by blast
  from loop_from_while [OF 1(1)] obtain e' c' where
    "loop env child n e c = Some (e', c')" "control c' = control c1"
    "is_terminal_state c' \<or> consecutive_duplicate_attempts c' \<ge> 3" by blast
  moreover from this(2) have "iterations (metrics c') = iterations (metrics c1)" by (simp add: control_def)
  ultimately show ?thesis using 1(2) by auto
qed

theorem loop_terminates_witness:
  "\<exists>e' c'. loop quiet_env (\<lambda>e c. None) 15 (fresh_engine default_loop_config ()) default_context = Some (e', c') \<and>
     (is_terminal_state c' \<or> consecutive_duplicate_attempts c' \<ge> 3)"
proof -
  let ?env = "quiet_env :: unit engine engine_env"
  have "generator_steady ?env" by (simp add: generator_steady_def quiet_env_def)
  moreover have "executor_steady ?env" by (simp add: executor_steady_def quiet_env_def)
  moreover have "parses ?env" by (simp add: parses_def parse_tool_calls_def quiet_env_def)
  moreover have "no_pending default_context" by (simp add: no_pending_def default_context_def)
  moreover have "nat (resolve_max_iterations (loop_cfg ?env) default_context - iterations (metrics default_context)) \<le> 15"
    by (simp add: resolve_max_iterations_def quiet_env_def default_context_def default_loop_config_def
        default_metrics_def)
  ultimately show ?thesis
    using loop_terminates [of ?env default_context 15 "\<lambda>e c. None"] by blast
qed

text \<open>
  The iteration cap does not bound a model that keeps delegating. A pending delegation
  gives its iteration back before it is even checked, so a model that answers every turn with a
  delegation the cycle guard refuses keeps the loop running for ever: from any state in which the
  loop may run, no amount of fuel makes it return.
\<close>

lemma delegation_evades_iteration_cap:
  assumes "runnable self_env e c"
  shows "loop self_env child n e c = None"
proof -
  have "fire_loop_start_hook self_env e c = e"
    by (simp add: fire_loop_start_hook_def fire_hook_info_def self_fields)
  with self_loop_diverges [OF assms] show ?thesis by (simp add: loop_def)
qed

lemma delegation_evades_iteration_cap_witness:
  "loop self_env (\<lambda>e c. None) 1000000 (fresh_engine default_loop_config ()) (default_context\<lparr>locked_tier := ''lead''\<rparr>) = None"
proof -
  have "runnable self_env (fresh_engine default_loop_config ()) (default_context\<lparr>locked_tier := ''lead''\<rparr>)"
    by (simp add: runnable_def should_stop_def run_interrupted_def is_terminal_state_def self_env_def quiet_env_def
        default_context_def default_loop_config_def default_metrics_def fresh_engine_def resolve_max_iterations_def)
  then show ?thesis by (rule delegation_evades_iteration_cap)
qed


definition lead_context :: loop_context where
  "lead_context = default_context\<lparr>locked_tier := ''lead'', delegation_ancestor_tiers := [''root'']\<rparr>"


text \<open>
  A resumed delegation escapes the cycle guard. The guard looks at the target the
  directive names, but a resume by id names none and the tier is read from storage afterwards; the
  example runs a child on the very tier that is delegating. The resumed child, moreover, records
  the target as its ancestor in place of the tier that resumed it, so it may delegate straight
  back, which a fresh child may not.
\<close>

definition resume_env :: "string list engine engine_env" where
  "resume_env = quiet_env
     \<lparr>load_delegation := Some (\<lambda>s i. (s, Some ''payload'')),
      parse_json := (\<lambda>_. Some (JObject [(''target_tier'', JString ''lead''),
        (''messages'', JArray [JObject [(''role'', JString ''user''), (''content'', JString ''hi'')]])])),
      delegation := quiet_delegation\<lparr>resolve_tier := Some (\<lambda>t. default_child_info\<lparr>info_valid := True\<rparr>)\<rparr>\<rparr>"

lemma resume_escapes_cycle_guard:
  "map_option (\<lambda>(e', c'). outer e')
     (execute_pending_delegation resume_env
        (\<lambda>e c. Some (e\<lparr>outer := outer e @ [locked_tier c]\<rparr>, c))
        (fresh_engine default_loop_config []) lead_context
        \<lparr>target = [], task = ''t'', max_turns = - 1, resume_from_delegation_id = ''d1'',
         delegation_context = [], resume_by_target = False\<rparr>) = Some [locked_tier lead_context] \<and>
   (is_delegation_cycle (build_resumed_child_context parent info t tsk hist) (locked_tier parent) \<longleftrightarrow>
      locked_tier parent = t \<or> locked_tier parent \<in> set (delegation_ancestor_tiers parent)) \<and>
   (locked_tier parent = [] \<or>
      is_delegation_cycle ((build_child_context parent info tsk refs)\<lparr>locked_tier := t\<rparr>) (locked_tier parent))"
proof (intro conjI)
  show "map_option (\<lambda>(e', c'). outer e')
     (execute_pending_delegation resume_env
        (\<lambda>e c. Some (e\<lparr>outer := outer e @ [locked_tier c]\<rparr>, c))
        (fresh_engine default_loop_config []) lead_context
        \<lparr>target = [], task = ''t'', max_turns = - 1, resume_from_delegation_id = ''d1'',
         delegation_context = [], resume_by_target = False\<rparr>) = Some [locked_tier lead_context]"
    by code_simp
qed (auto simp: is_delegation_cycle_def build_resumed_child_context_def build_child_context_def Let_def list_ex_iff)

text \<open>
  Anchors survive: re-injection (at the start of a run and after every compaction) keeps
  the stored anchors and leaves exactly one message per anchor, with its current text, at the end
  of the conversation in the order of the store; every other message keeps its place, and a
  second re-injection changes nothing.
\<close>

lemma anchors_reinjected:
  assumes "distinct (map fst (context_anchors e))" "list_all (\<lambda>(k, t). t \<noteq> []) (context_anchors e)"
    and "ms = filter (\<lambda>m. \<not> anchor_keyed (set (map fst (context_anchors e))) m) (messages c) @
      map (\<lambda>(k, t). anchor_message k t) (context_anchors e)"
  shows "(reinject_context_anchors e c = (e, c\<lparr>messages := ms\<rparr>)) \<and>
    (reinject_context_anchors e (c\<lparr>messages := ms\<rparr>) = (e, c\<lparr>messages := ms\<rparr>))"
proof -
  have "reinject_context_anchors e c = (e, c\<lparr>messages := ms\<rparr>)"
    and "reinject_context_anchors e (c\<lparr>messages := ms\<rparr>) = (e, c\<lparr>messages := ms\<rparr>)"
  proof -
    have r: "reinject_context_anchors e c = (e, c\<lparr>messages :=
       filter (\<lambda>m. \<not> anchor_keyed (set (map fst (context_anchors e))) m) (messages c) @
        map (\<lambda>(k, t). anchor_message k t) (context_anchors e)\<rparr>)" for c
      using reinject_loop_spec [OF assms(1,2,1), of c] assms(1) by (simp add: reinject_context_anchors_def)
    then show "reinject_context_anchors e c = (e, c\<lparr>messages := ms\<rparr>)" using assms(3) by simp
    have "filter (\<lambda>m. \<not> anchor_keyed (set (map fst (context_anchors e))) m)
        (map (\<lambda>(k, t). anchor_message k t) (context_anchors e)) = []"
      by (auto simp: filter_empty_conv image_iff) force
    then show "reinject_context_anchors e (c\<lparr>messages := ms\<rparr>) = (e, c\<lparr>messages := ms\<rparr>)"
      using r [of "c\<lparr>messages := ms\<rparr>"] assms(3) by simp
  qed
  then show ?thesis by blast
qed

lemma anchors_reinjected_witness:
  "reinject_context_anchors ((fresh_engine default_loop_config ())\<lparr>context_anchors := [(''k'', ''new'')]\<rparr>)
     (default_context\<lparr>messages := [anchor_message ''k'' ''old'', text_message ''user'' ''u'']\<rparr>) =
   ((fresh_engine default_loop_config ())\<lparr>context_anchors := [(''k'', ''new'')]\<rparr>,
     default_context\<lparr>messages := [text_message ''user'' ''u'', anchor_message ''k'' ''new'']\<rparr>)"
proof -
  let ?e = "(fresh_engine default_loop_config ())\<lparr>context_anchors := [(''k'', ''new'')]\<rparr>"
  let ?c = "default_context\<lparr>messages := [anchor_message ''k'' ''old'', text_message ''user'' ''u'']\<rparr>"
  have "\<not> anchor_keyed {''k''} (text_message ''user'' ''u'')"
    by (simp add: anchor_keyed_def text_message_def meta_def)
  then have m: "[text_message ''user'' ''u'', anchor_message ''k'' ''new''] =
      filter (\<lambda>m. \<not> anchor_keyed (set (map fst (context_anchors ?e))) m) (messages ?c) @
      map (\<lambda>(k, t). anchor_message k t) (context_anchors ?e)" by simp
  have "distinct (map fst (context_anchors ?e))" "list_all (\<lambda>(k, t). t \<noteq> []) (context_anchors ?e)" by simp_all
  from anchors_reinjected [OF this m, THEN conjunct1] show ?thesis by simp
qed

end
