(* ===== verification/Engine_Turns.thy ===== *)
theory Engine_Turns
  imports Engine_Dispatch
begin

text \<open>
  Turns and sessions (\<open>src/core/engine.cpp\<close>): who may run a turn, interrupts and pauses, how a
  turn's outcome is settled into its session's conversation, the queue of messages that arrive
  while a turn runs, the system prompts and the tier tables.

  Each method takes its mutex for its whole effect on the shared maps, so it is one atomic step
  on the engine state. The fields \<open>claimed_key\<close> and \<open>bound_session\<close> are the thread-local
  variables of the thread that executes the method.
\<close>

subsection \<open>Interrupts and pauses\<close>

definition interrupt :: "'w engine engine_env \<Rightarrow> 'w engine \<Rightarrow> 'w engine" where
  "interrupt env e =
     (let e1 = e\<lparr>active_runs := map (\<lambda>(k, _). (k, True)) (active_runs e)\<rparr>;
          e2 = (if interrupt_flag e1 then e1
                else (case external_interrupt env of None \<Rightarrow> e1\<lparr>interrupt_flag := True\<rparr>
                      | Some f \<Rightarrow> f (e1\<lparr>interrupt_flag := True\<rparr>)))
      in e2\<lparr>pause_flag := False\<rparr>)"

definition set_run_flag :: "string \<Rightarrow> bool \<Rightarrow> 'w engine \<Rightarrow> 'w engine" where
  "set_run_flag k b e =
     (if map_of (active_runs e) k = None then e
      else e\<lparr>active_runs := AList.update k b (active_runs e)\<rparr>)"

definition reset_interrupt :: "'w engine engine_env \<Rightarrow> 'w engine \<Rightarrow> 'w engine" where
  "reset_interrupt env e =
     (let e1 = e\<lparr>interrupt_flag := False\<rparr>;
          e2 = (case claimed_key e1 of None \<Rightarrow> e1 | Some k \<Rightarrow> set_run_flag k False e1)
      in case external_reset env of None \<Rightarrow> e2 | Some f \<Rightarrow> f e2)"

definition pause_engine :: "'w engine \<Rightarrow> 'w engine" where
  "pause_engine e = e\<lparr>pause_flag := True\<rparr>"

definition cancel_pause :: "'w engine \<Rightarrow> 'w engine" where
  "cancel_pause e = e\<lparr>pause_flag := False, interrupt_flag := True\<rparr>"

definition clear_pause_for_fresh_turn :: "'w engine \<Rightarrow> 'w engine" where
  "clear_pause_for_fresh_turn e =
     (if length (active_runs e) \<le> 1 then e\<lparr>pause_flag := False\<rparr> else e)"

definition interrupt_session :: "string \<Rightarrow> 'w engine \<Rightarrow> 'w engine \<times> bool" where
  "interrupt_session key e =
     (if map_of (active_runs e) key = None then (e, False) else (set_run_flag key True e, True))"

definition session_interrupted :: "string \<Rightarrow> 'w engine \<Rightarrow> bool" where
  "session_interrupted key e \<longleftrightarrow> map_of (active_runs e) key = Some True"

subsection \<open>Claiming a turn\<close>

definition active_session_key :: "'w engine \<Rightarrow> string" where
  "active_session_key e = (case bound_session e of Some k \<Rightarrow> k | None \<Rightarrow> shared_session_key e)"

definition touch_conversation :: "string \<Rightarrow> 'w engine \<Rightarrow> 'w engine" where
  "touch_conversation key e =
     (if map_of (conversations e) key = None
      then e\<lparr>conversations := AList.update key [] (conversations e)\<rparr> else e)"

definition set_active_session :: "string \<Rightarrow> 'w engine \<Rightarrow> 'w engine" where
  "set_active_session key e = (touch_conversation key e)\<lparr>bound_session := Some key, shared_session_key := key\<rparr>"

definition try_begin_turn :: "string \<Rightarrow> 'w engine \<Rightarrow> 'w engine \<times> bool" where
  "try_begin_turn key e =
     (if map_of (active_runs e) key \<noteq> None \<or> (\<not> concurrent_sessions e \<and> active_runs e \<noteq> [])
      then (e, False)
      else (e\<lparr>active_runs := AList.update key False (active_runs e), running_flag := True,
              claimed_key := Some key, bound_session := Some key\<rparr>, True))"

definition end_turn_key :: "string \<Rightarrow> 'w engine \<Rightarrow> 'w engine" where
  "end_turn_key key e =
     (let runs = AList.delete key (active_runs e);
          e1 = e\<lparr>active_runs := runs, running_flag := (runs \<noteq> [])\<rparr>
      in if claimed_key e1 = Some key then e1\<lparr>claimed_key := None, bound_session := None\<rparr> else e1)"

definition end_turn :: "'w engine \<Rightarrow> 'w engine" where
  "end_turn e = end_turn_key (case claimed_key e of Some k \<Rightarrow> k | None \<Rightarrow> active_session_key e) e"

definition active_run_count :: "'w engine \<Rightarrow> nat" where
  "active_run_count e = length (active_runs e)"

definition set_concurrent_sessions :: "bool \<Rightarrow> 'w engine \<Rightarrow> 'w engine" where
  "set_concurrent_sessions b e = e\<lparr>concurrent_sessions := b\<rparr>"

subsection \<open>The queue of user messages\<close>

definition queue_user_message :: "string \<Rightarrow> 'w engine \<Rightarrow> 'w engine \<times> bool" where
  "queue_user_message msg e =
     (let cap = (if queue_capacity e < 0 then 0 else queue_capacity e) in
      if length (user_message_queue e) \<ge> nat cap then (e, False)
      else (e\<lparr>user_message_queue := user_message_queue e @ [msg]\<rparr>, True))"

definition user_message_queue_depth :: "'w engine \<Rightarrow> nat" where
  "user_message_queue_depth e = length (user_message_queue e)"

definition clear_user_message_queue :: "'w engine \<Rightarrow> 'w engine" where
  "clear_user_message_queue e = e\<lparr>user_message_queue := []\<rparr>"

definition set_message_queue_capacity :: "int \<Rightarrow> 'w engine \<Rightarrow> 'w engine" where
  "set_message_queue_capacity cap e = e\<lparr>queue_capacity := (if cap < 0 then 0 else cap)\<rparr>"

definition pop_queued_user_message :: "'w engine \<Rightarrow> 'w engine \<times> string option" where
  "pop_queued_user_message e =
     (case user_message_queue e of [] \<Rightarrow> (e, None)
      | m # q \<Rightarrow> (e\<lparr>user_message_queue := q\<rparr>, Some m))"

subsection \<open>Outcome of a turn\<close>

definition describe_turn_failure :: "loop_context \<Rightarrow> string" where
  "describe_turn_failure c =
     (if ctx_state c \<noteq> ERROR then []
      else
        let get = (\<lambda>k. case ctx_meta c k of None \<Rightarrow> [] | Some v \<Rightarrow> v);
            reason = get ''failure_reason'';
            why = (if reason = [] then ''unknown'' else reason) @ '' (tier '' @
                  [CHR 0x27] @ get ''failure_tier'' @ [CHR 0x27] @ '')''
        in if reason = ''zero_tool_calls_with_explicit_completion'' then
             why @ '': the tier must end every turn with a tool call '' @
             ''(explicit_completion), and it answered without one through every retry''
           else if reason = ''context_overflow'' then
             why @ '': the prompt does not fit the tier'' @ [CHR 0x27] @ ''s context window''
           else why)"

definition accumulate_run_metrics :: "'w engine \<Rightarrow> loop_context \<Rightarrow> 'w engine" where
  "accumulate_run_metrics e c =
     accumulate_per_tier
       (e\<lparr>last_metrics := metrics c,
          turn_failures := AList.update (session_key c) (describe_turn_failure c) (turn_failures e)\<rparr>) c"

definition last_turn_failure :: "'w engine \<Rightarrow> string" where
  "last_turn_failure e =
     (case map_of (turn_failures e) (active_session_key e) of None \<Rightarrow> [] | Some f \<Rightarrow> f)"

definition last_failed_turn :: "'w engine \<Rightarrow> message list" where
  "last_failed_turn e =
     (case map_of (failed_turns e) (active_session_key e) of None \<Rightarrow> [] | Some ms \<Rightarrow> ms)"

definition conversation :: "'w engine \<Rightarrow> string \<Rightarrow> message list" where
  "conversation e key = (case map_of (conversations e) key of None \<Rightarrow> [] | Some ms \<Rightarrow> ms)"

definition set_conversation :: "string \<Rightarrow> message list \<Rightarrow> 'w engine \<Rightarrow> 'w engine" where
  "set_conversation key ms e = e\<lparr>conversations := AList.update key ms (conversations e)\<rparr>"

text \<open>\<open>settle_turn\<close> on the conversation stored under \<open>key\<close>.\<close>

definition settle_turn :: "string \<Rightarrow> message list \<Rightarrow> nat \<Rightarrow> nat \<Rightarrow> 'w engine \<Rightarrow> 'w engine \<times> bool" where
  "settle_turn key result turn_begin sent_len e =
     (if last_turn_failure e \<noteq> [] then
        let e1 = set_conversation key (take turn_begin (conversation e key)) e
        in (e1\<lparr>failed_turns := AList.update (active_session_key e) (drop turn_begin result) (failed_turns e1)\<rparr>,
            False)
      else (set_conversation key (conversation e key @ drop sent_len result) e, True))"

subsection \<open>Running a turn\<close>

definition init_session_conversation ::
  "'w engine engine_env \<Rightarrow> 'w engine \<Rightarrow> loop_context \<Rightarrow> 'w engine \<times> loop_context" where
  "init_session_conversation env e c =
     (case create_conversation env of
        None \<Rightarrow> (e, c)
      | Some f \<Rightarrow> (case f e of (e', ok, conv_id) \<Rightarrow>
          (e', if ok \<and> conv_id \<noteq> [] then c\<lparr>conversation_id := conv_id\<rparr> else c)))"

definition run ::
  "'w engine engine_env \<Rightarrow> nat \<Rightarrow> 'w engine \<Rightarrow> message list \<Rightarrow> string \<Rightarrow> ('w engine \<times> message list) option" where
  "run env n e ms tier_override =
     (let (e0, t0) = clock env e;
          c0 = default_context\<lparr>messages := ms, locked_tier := tier_override,
                 session_key := active_session_key e, metrics := default_metrics\<lparr>start_time := t0\<rparr>\<rparr>;
          (e1, c1) = init_session_conversation env e0 c0;
          e2 = clear_pause_for_fresh_turn (reset_interrupt env e1);
          (e3, c2) = begin_loop_preamble env e2 c1
      in case loop env (run_child_loop env n) n e3 c2 of
           None \<Rightarrow> None
         | Some (e4, c3) \<Rightarrow>
             (case clock env e4 of (e5, t1) \<Rightarrow>
                let c4 = c3\<lparr>metrics := (metrics c3)\<lparr>end_time := t1\<rparr>\<rparr>
                in Some (accumulate_run_metrics e5 c4, messages c4)))"

text \<open>\<open>observer\<close> is the queue observer of \<open>fire_queue_consumed\<close>.\<close>

fun run_drain_loop ::
  "'w engine engine_env \<Rightarrow> ('w engine \<Rightarrow> string \<Rightarrow> nat \<Rightarrow> 'w engine) option \<Rightarrow> nat \<Rightarrow> 'w engine \<Rightarrow> string \<Rightarrow> string \<Rightarrow>
   ('w engine \<times> message list) option" where
  "run_drain_loop env observer 0 e pending tier = None"
| "run_drain_loop env observer (Suc n) e pending tier =
     (let key = active_session_key e;
          turn_begin = length (conversation e key);
          e1 = set_conversation key (conversation e key @ [text_message ''user'' pending]) e;
          sent_len = length (conversation e1 key)
      in case run env n e1 (conversation e1 key) tier of
           None \<Rightarrow> None
         | Some (e2, result) \<Rightarrow>
             (case settle_turn key result turn_begin sent_len e2 of
                (e3, False) \<Rightarrow> Some (e3, result)
              | (e3, True) \<Rightarrow>
                  (case pop_queued_user_message e3 of
                     (e4, None) \<Rightarrow> Some (e4, result)
                   | (e4, Some nxt) \<Rightarrow>
                       let e5 = (case observer of None \<Rightarrow> e4
                                 | Some f \<Rightarrow> f e4 nxt (user_message_queue_depth e4))
                       in run_drain_loop env observer n e5 nxt tier)))"

subsection \<open>System prompts\<close>

definition workspace_prompt_for :: "'w engine \<Rightarrow> string \<Rightarrow> string \<Rightarrow> string option" where
  "workspace_prompt_for e session tier =
     (case map_of (session_workspace e) session of
        None \<Rightarrow> None
      | Some wsp \<Rightarrow>
          (case map_of (workspace_prompts e) wsp of
             None \<Rightarrow> None
           | Some (default_prompt, tier_prompts) \<Rightarrow>
               if tier = [] then Some default_prompt else map_of tier_prompts tier))"

definition session_system_prompt :: "'w engine \<Rightarrow> string \<Rightarrow> string" where
  "session_system_prompt e session =
     (case workspace_prompt_for e session [] of Some p \<Rightarrow> p | None \<Rightarrow> system_prompt e)"

definition set_workspace_prompts :: "string \<Rightarrow> string \<times> (string \<times> string) list \<Rightarrow> 'w engine \<Rightarrow> 'w engine" where
  "set_workspace_prompts wsp prompts e =
     e\<lparr>workspace_prompts := AList.update wsp prompts (workspace_prompts e)\<rparr>"

definition clear_workspace_prompts :: "string \<Rightarrow> 'w engine \<Rightarrow> 'w engine" where
  "clear_workspace_prompts wsp e = e\<lparr>workspace_prompts := AList.delete wsp (workspace_prompts e)\<rparr>"

definition bind_session_workspace :: "string \<Rightarrow> string \<Rightarrow> 'w engine \<Rightarrow> 'w engine" where
  "bind_session_workspace session wsp e =
     e\<lparr>session_workspace := AList.update session wsp (session_workspace e)\<rparr>"

definition seed_system :: "string \<Rightarrow> string \<Rightarrow> 'w engine \<Rightarrow> 'w engine" where
  "seed_system key prompt e =
     (if conversation e key = [] \<and> prompt \<noteq> []
      then set_conversation key (conversation e key @ [text_message ''system'' prompt]) e else e)"

definition seed_system_prompt_for_tier :: "string \<Rightarrow> 'w engine \<Rightarrow> 'w engine" where
  "seed_system_prompt_for_tier tier e =
     (let key = active_session_key e;
          sp = (case workspace_prompt_for e key tier of
                  Some p \<Rightarrow> p
                | None \<Rightarrow> (case map_of (tier_info e) tier of
                    Some info \<Rightarrow> if info_system_prompt info \<noteq> [] then info_system_prompt info
                                 else session_system_prompt e key
                  | None \<Rightarrow> session_system_prompt e key))
      in seed_system key sp e)"

definition seed_system_prompt :: "message list \<Rightarrow> 'w engine \<Rightarrow> 'w engine" where
  "seed_system_prompt new_messages e =
     (let key = active_session_key e in
      if list_ex (\<lambda>m. role m = ''system'') new_messages then e
      else seed_system key (session_system_prompt e key) e)"

definition run_turn ::
  "'w engine engine_env \<Rightarrow> ('w engine \<Rightarrow> string \<Rightarrow> nat \<Rightarrow> 'w engine) option \<Rightarrow> nat \<Rightarrow> 'w engine \<Rightarrow> string \<Rightarrow>
   ('w engine \<times> message list) option" where
  "run_turn env observer n e input =
     (case try_begin_turn (active_session_key e) e of (e1, owns_turn) \<Rightarrow>
        let key = active_session_key e1;
            e2 = seed_system key (session_system_prompt e1 key) e1
        in case run_drain_loop env observer n e2 input [] of
             None \<Rightarrow> None
           | Some (e3, result) \<Rightarrow> Some (if owns_turn then end_turn e3 else e3, result))"

definition run_turn_as ::
  "'w engine engine_env \<Rightarrow> ('w engine \<Rightarrow> string \<Rightarrow> nat \<Rightarrow> 'w engine) option \<Rightarrow> nat \<Rightarrow> 'w engine \<Rightarrow> string \<Rightarrow> string \<Rightarrow>
   ('w engine \<times> message list) option" where
  "run_turn_as env observer n e tier input =
     (case try_begin_turn (active_session_key e) e of (e1, owns_turn) \<Rightarrow>
        case run_drain_loop env observer n (seed_system_prompt_for_tier tier e1) input tier of
          None \<Rightarrow> None
        | Some (e3, result) \<Rightarrow> Some (if owns_turn then end_turn e3 else e3, result))"

subsection \<open>Tier tables\<close>

definition set_tier_info :: "string \<Rightarrow> child_context_info \<Rightarrow> 'w engine \<Rightarrow> 'w engine" where
  "set_tier_info name info e = e\<lparr>tier_info := AList.update name info (tier_info e)\<rparr>"

definition has_tier :: "'w engine \<Rightarrow> string \<Rightarrow> bool" where
  "has_tier e name \<longleftrightarrow> map_of (tier_info e) name \<noteq> None"

definition get_tier_allowed_tools :: "'w engine \<Rightarrow> string \<Rightarrow> string list" where
  "get_tier_allowed_tools e name = (case map_of (tier_info e) name of None \<Rightarrow> [] | Some i \<Rightarrow> allowed_tools i)"

definition tier_system_prompt :: "'w engine \<Rightarrow> string \<Rightarrow> string" where
  "tier_system_prompt e name = (case map_of (tier_info e) name of None \<Rightarrow> [] | Some i \<Rightarrow> info_system_prompt i)"

definition tri_resolve_tier :: "'w engine \<Rightarrow> string \<Rightarrow> child_context_info" where
  "tri_resolve_tier e name =
     (case map_of (tier_info e) name of
        None \<Rightarrow> default_child_info
      | Some info \<Rightarrow> info\<lparr>info_system_prompt :=
          (case workspace_prompt_for e (active_session_key e) name of None \<Rightarrow> info_system_prompt info | Some p \<Rightarrow> p)\<rparr>)"

definition tri_tier_exists :: "'w engine \<Rightarrow> string \<Rightarrow> bool" where
  "tri_tier_exists e name \<longleftrightarrow> map_of (tier_info e) name \<noteq> None"

definition tri_get_handoff_targets :: "'w engine \<Rightarrow> string \<Rightarrow> string list" where
  "tri_get_handoff_targets e name = (case map_of (handoff_rules e) name of None \<Rightarrow> [] | Some ts \<Rightarrow> ts)"

fun join_csv_loop :: "string \<Rightarrow> string list \<Rightarrow> string" where
  "join_csv_loop out [] = out"
| "join_csv_loop out (s # ss) = join_csv_loop ((if out \<noteq> [] then out @ '','' else out) @ s) ss"

definition join_csv :: "string list \<Rightarrow> string" where
  "join_csv v = join_csv_loop [] v"

definition tri_get_tier_param :: "'w engine \<Rightarrow> string \<Rightarrow> string \<Rightarrow> string" where
  "tri_get_tier_param e name param =
     (case map_of (tier_info e) name of
        None \<Rightarrow> []
      | Some info \<Rightarrow>
          if param = ''explicit_completion'' then (if explicit_completion info then ''true'' else ''false'')
          else if param = ''max_iterations'' \<and> max_iterations_override info \<ge> 0 then
            to_string_int (max_iterations_override info)
          else if param = ''max_tool_calls_per_turn'' \<and> max_tool_calls_per_turn_override info \<ge> 0 then
            to_string_int (max_tool_calls_per_turn_override info)
          else if param = ''max_consecutive_empty_turns'' \<and> max_consecutive_empty_turns_override info \<ge> 0 then
            to_string_int (max_consecutive_empty_turns_override info)
          else if param = ''allowed_tools'' \<and> allowed_tools info \<noteq> [] then join_csv (allowed_tools info)
          else [])"

text \<open>The wiring of \<open>wire_internal_tier_resolution\<close>.\<close>

definition wire_internal_tier_resolution :: "'w engine \<Rightarrow> 'w engine engine_env \<Rightarrow> 'w engine engine_env" where
  "wire_internal_tier_resolution e env =
     env\<lparr>get_tier_param := Some (tri_get_tier_param e),
         delegation := (delegation env)\<lparr>resolve_tier := Some (tri_resolve_tier e)\<rparr>\<rparr>"

lemma active_session_key_frame [simp]:
  "active_session_key (e\<lparr>failed_turns := f\<rparr>) = active_session_key e"
  "active_session_key (set_conversation k ms e) = active_session_key e"
  by (simp_all add: active_session_key_def set_conversation_def cong: option.case_cong)

lemma conversation_set:
  "conversation (set_conversation k ms e) k' = (if k' = k then ms else conversation e k')"
  "conversation (e\<lparr>failed_turns := f\<rparr>) k' = conversation e k'"
  by (simp_all add: conversation_def set_conversation_def cong: option.case_cong)

subsection \<open>Threads\<close>

text \<open>
  A system of threads over one engine: the shared state, and per thread its claim and its bound
  session. A thread that holds no claim may try to begin a turn; a thread that holds one may end
  it (this is how \<open>run_turn\<close> uses the two); anyone may interrupt.
\<close>

type_synonym 'w turn_system = "'w engine \<times> (nat \<Rightarrow> string option \<times> string option)"

definition load_thread :: "nat \<Rightarrow> 'w turn_system \<Rightarrow> 'w engine" where
  "load_thread t s = (fst s)\<lparr>claimed_key := fst (snd s t), bound_session := snd (snd s t)\<rparr>"

definition store_thread :: "nat \<Rightarrow> 'w engine \<Rightarrow> 'w turn_system \<Rightarrow> 'w turn_system" where
  "store_thread t e s = (e, (snd s)(t := (claimed_key e, bound_session e)))"

inductive turn_step :: "'w turn_system \<Rightarrow> 'w turn_system \<Rightarrow> bool" where
  begin_turn: "fst (snd s t) = None \<Longrightarrow>
     turn_step s (store_thread t (fst (try_begin_turn k (load_thread t s))) s)"
| finish_turn: "fst (snd s t) = Some k \<Longrightarrow> turn_step s (store_thread t (end_turn (load_thread t s)) s)"
| interrupt_one: "turn_step s (store_thread t (fst (interrupt_session k (load_thread t s))) s)"
| interrupt_all: "external_interrupt env = None \<Longrightarrow> turn_step s (store_thread t (interrupt env (load_thread t s)) s)"

inductive turn_reach :: "bool \<Rightarrow> 'w turn_system \<Rightarrow> bool" for conc where
  start: "active_runs e = [] \<Longrightarrow> \<not> running_flag e \<Longrightarrow> concurrent_sessions e = conc \<Longrightarrow>
     turn_reach conc (e, \<lambda>t. (None, b t))"
| step: "turn_reach conc s \<Longrightarrow> turn_step s s' \<Longrightarrow> turn_reach conc s'"

definition turn_inv :: "bool \<Rightarrow> 'w turn_system \<Rightarrow> bool" where
  "turn_inv conc s \<longleftrightarrow>
     distinct (map fst (active_runs (fst s))) \<and>
     concurrent_sessions (fst s) = conc \<and>
     (\<not> conc \<longrightarrow> length (active_runs (fst s)) \<le> 1) \<and>
     running_flag (fst s) = (active_runs (fst s) \<noteq> []) \<and>
     (\<forall>k. k \<in> fst ` set (active_runs (fst s)) \<longleftrightarrow> (\<exists>t. fst (snd s t) = Some k)) \<and>
     (\<forall>t u k. fst (snd s t) = Some k \<longrightarrow> fst (snd s u) = Some k \<longrightarrow> t = u)"

lemma map_of_None_iff: "map_of m k = None \<longleftrightarrow> k \<notin> fst ` set m"
  by (simp add: map_of_eq_None_iff)

lemma turn_inv_cong:
  assumes "\<And>u. fst (snd s' u) = fst (snd s u)"
    and "map fst (active_runs (fst s')) = map fst (active_runs (fst s))"
    and "running_flag (fst s') = running_flag (fst s)"
    and "concurrent_sessions (fst s') = concurrent_sessions (fst s)"
  shows "turn_inv conc s' = turn_inv conc s"
proof -
  have "fst ` set (active_runs (fst s')) = fst ` set (active_runs (fst s))"
    using assms(2) by (metis image_set)
  moreover have "length (active_runs (fst s')) = length (active_runs (fst s))"
    using assms(2) by (rule map_eq_imp_length_eq)
  moreover from this have "active_runs (fst s') \<noteq> [] \<longleftrightarrow> active_runs (fst s) \<noteq> []" by auto
  ultimately show ?thesis using assms by (simp add: turn_inv_def)
qed

lemma turn_inv_begin:
  assumes "turn_inv conc s" "fst (snd s t) = None"
  shows "turn_inv conc (store_thread t (fst (try_begin_turn k (load_thread t s))) s)"
proof (cases "map_of (active_runs (fst s)) k \<noteq> None \<or> (\<not> conc \<and> active_runs (fst s) \<noteq> [])")
  case True
  with assms(1) have "fst (try_begin_turn k (load_thread t s)) = load_thread t s"
    by (auto simp: try_begin_turn_def load_thread_def turn_inv_def)
  then have "turn_inv conc (store_thread t (fst (try_begin_turn k (load_thread t s))) s) = turn_inv conc s"
    by (intro turn_inv_cong) (simp_all add: store_thread_def load_thread_def)
  with assms(1) show ?thesis by simp
next
  case False
  let ?s = "store_thread t (fst (try_begin_turn k (load_thread t s))) s"
  have runs: "active_runs (fst ?s) = AList.update k False (active_runs (fst s))"
    and run: "running_flag (fst ?s)" and cc: "concurrent_sessions (fst ?s) = conc"
    and cl: "fst (snd ?s u) = (if u = t then Some k else fst (snd s u))" for u
    using False assms(1)
    by (auto simp: try_begin_turn_def store_thread_def load_thread_def turn_inv_def)
  have new: "k \<notin> fst ` set (active_runs (fst s))" using False by (simp add: map_of_None_iff)
  then have noclaim: "fst (snd s u) \<noteq> Some k" for u using assms(1) by (auto simp: turn_inv_def)
  have "\<not> conc \<Longrightarrow> active_runs (fst s) = []" using False by auto
  then have len: "\<not> conc \<Longrightarrow> length (active_runs (fst ?s)) \<le> 1" by (simp add: runs)
  have "j \<in> fst ` set (active_runs (fst ?s)) \<longleftrightarrow> (\<exists>u. fst (snd ?s u) = Some j)" for j
  proof -
    have "(\<exists>u. fst (snd ?s u) = Some j) \<longleftrightarrow> j = k \<or> (\<exists>u. u \<noteq> t \<and> fst (snd s u) = Some j)" by (auto simp: cl)
    also have "\<dots> \<longleftrightarrow> j = k \<or> (\<exists>u. fst (snd s u) = Some j)"
      using assms(2) by (metis option.distinct(1))
    also have "\<dots> \<longleftrightarrow> j = k \<or> j \<in> fst ` set (active_runs (fst s))"
      using assms(1) by (simp add: turn_inv_def)
    finally show ?thesis by (auto simp: runs fst_set_update)
  qed
  moreover have "u = v" if "fst (snd ?s u) = Some j" "fst (snd ?s v) = Some j" for u v j
    using that noclaim assms(1) by (auto simp: cl turn_inv_def split: if_splits)
  moreover have "active_runs (fst ?s) \<noteq> []"
    unfolding runs using fst_set_update [of k False "active_runs (fst s)"] by auto
  moreover have "distinct (map fst (active_runs (fst ?s)))"
    using assms(1) by (simp add: runs turn_inv_def)
  ultimately show ?thesis unfolding turn_inv_def using run cc len by blast
qed

lemma turn_inv_end:
  assumes "turn_inv conc s" "fst (snd s t) = Some k"
  shows "turn_inv conc (store_thread t (end_turn (load_thread t s)) s)"
proof -
  let ?s = "store_thread t (end_turn (load_thread t s)) s"
  have runs: "active_runs (fst ?s) = AList.delete k (active_runs (fst s))"
    and run: "running_flag (fst ?s) = (AList.delete k (active_runs (fst s)) \<noteq> [])"
    and cc: "concurrent_sessions (fst ?s) = concurrent_sessions (fst s)"
    and cl: "fst (snd ?s u) = (if u = t then None else fst (snd s u))" for u
    using assms(2) by (auto simp: end_turn_def end_turn_key_def store_thread_def load_thread_def Let_def)
  have uniq: "fst (snd s u) = Some k \<Longrightarrow> u = t" for u using assms by (auto simp: turn_inv_def)
  have "length (AList.delete k (active_runs (fst s))) \<le> length (active_runs (fst s))"
    by (rule AList.length_delete_le)
  moreover have "j \<in> fst ` set (active_runs (fst ?s)) \<longleftrightarrow> (\<exists>u. fst (snd ?s u) = Some j)" for j
  proof -
    have "(\<exists>u. fst (snd ?s u) = Some j) \<longleftrightarrow> (\<exists>u. u \<noteq> t \<and> fst (snd s u) = Some j)" by (auto simp: cl)
    also have "\<dots> \<longleftrightarrow> j \<noteq> k \<and> (\<exists>u. fst (snd s u) = Some j)"
      using assms(2) uniq by (metis option.inject)
    also have "\<dots> \<longleftrightarrow> j \<noteq> k \<and> j \<in> fst ` set (active_runs (fst s))"
      using assms(1) by (simp add: turn_inv_def)
    finally show ?thesis by (auto simp: runs fst_set_delete)
  qed
  moreover have "u = v" if "fst (snd ?s u) = Some j" "fst (snd ?s v) = Some j" for u v j
    using that assms(1) by (auto simp: cl turn_inv_def split: if_splits)
  moreover have "distinct (map fst (active_runs (fst ?s)))"
    using assms(1) by (simp add: runs turn_inv_def)
  moreover have "concurrent_sessions (fst ?s) = conc" "\<not> conc \<Longrightarrow> length (active_runs (fst s)) \<le> 1"
    using assms(1) cc by (simp_all add: turn_inv_def)
  moreover have "running_flag (fst ?s) = (active_runs (fst ?s) \<noteq> [])" using run runs by simp
  ultimately show ?thesis unfolding turn_inv_def using runs by fastforce
qed

lemma turn_inv_interrupt_one:
  assumes "turn_inv conc s"
  shows "turn_inv conc (store_thread t (fst (interrupt_session k (load_thread t s))) s)"
proof -
  have "map fst (AList.update k True m) = map fst m" if "map_of m k \<noteq> None" for m :: "(string \<times> bool) list"
    using that by (simp add: AList.update_keys map_of_None_iff image_iff)
  then have "turn_inv conc (store_thread t (fst (interrupt_session k (load_thread t s))) s) = turn_inv conc s"
    by (intro turn_inv_cong)
       (auto simp: store_thread_def load_thread_def interrupt_session_def set_run_flag_def)
  with assms show ?thesis by simp
qed

lemma turn_inv_interrupt_all:
  assumes "turn_inv conc s" "external_interrupt env = None"
  shows "turn_inv conc (store_thread t (interrupt env (load_thread t s)) s)"
proof -
  have "turn_inv conc (store_thread t (interrupt env (load_thread t s)) s) = turn_inv conc s"
    using assms(2) by (intro turn_inv_cong)
      (simp_all add: store_thread_def load_thread_def interrupt_def Let_def case_prod_beta o_def)
  with assms show ?thesis by simp
qed

lemma turn_step_inv: "turn_step s s' \<Longrightarrow> turn_inv conc s \<Longrightarrow> turn_inv conc s'"
  by (induction rule: turn_step.induct)
     (simp_all add: turn_inv_begin turn_inv_end turn_inv_interrupt_one turn_inv_interrupt_all)

subsection \<open>Properties\<close>

text \<open>
  Claim C11. The turn guard, under any interleaving of threads that begin, end and interrupt turns:
  no session has two runs, without concurrent sessions there is at most one run at all, no two
  threads hold the same claim, every run in flight is claimed by a thread (and every claim is of
  a run in flight, so ended turns leave nothing behind), and the running flag says exactly
  whether some run is in flight.
\<close>

theorem turn_guard:
  assumes "turn_reach conc s"
  shows "turn_inv conc s"
  using assms
proof (induction rule: turn_reach.induct)
  case (start e b)
  then show ?case by (simp add: turn_inv_def)
next
  case (step s s')
  then show ?case by (blast intro: turn_step_inv)
qed

theorem turn_guard_witness:
  "\<exists>s :: unit turn_system. turn_reach False s \<and> turn_inv False s \<and> fst (snd s 0) = Some ''a'' \<and>
     snd (try_begin_turn ''b'' (load_thread 1 s)) = False"
proof -
  let ?s0 = "(fresh_engine default_loop_config (), \<lambda>t::nat. (None, None)) :: unit turn_system"
  let ?s1 = "store_thread 0 (fst (try_begin_turn ''a'' (load_thread 0 ?s0))) ?s0"
  have "turn_reach False ?s0" by (rule turn_reach.start) (simp_all add: fresh_engine_def)
  moreover have "turn_step ?s0 ?s1" by (rule turn_step.begin_turn) simp
  ultimately have r: "turn_reach False ?s1" by (rule turn_reach.step)
  have "fst (snd ?s1 0) = Some ''a''" "snd (try_begin_turn ''b'' (load_thread 1 ?s1)) = False"
    by (simp_all add: store_thread_def load_thread_def try_begin_turn_def fresh_engine_def)
  with r turn_guard [OF r] show ?thesis by blast
qed

text \<open>
  Interrupts reach the run they are meant for and no other: interrupting a session sets
  exactly that run's flag, interrupting the engine sets every run's flag, and the reset at the
  start of a run clears the engine flag and the thread's own run only.
\<close>

lemma interrupt_scope:
  shows "(interrupt_session k e = (e', ok) \<longrightarrow>
      (ok \<longleftrightarrow> map_of (active_runs e) k \<noteq> None) \<and>
      (\<forall>j. session_interrupted j e' \<longleftrightarrow> session_interrupted j e \<or> (ok \<and> j = k))) \<and>
    (external_interrupt env = None \<longrightarrow>
      session_interrupted j (interrupt env e) \<longleftrightarrow> map_of (active_runs e) j \<noteq> None) \<and>
    (external_reset env = None \<longrightarrow>
      session_interrupted j (reset_interrupt env e) \<longleftrightarrow> session_interrupted j e \<and> claimed_key e \<noteq> Some j)"
proof -
  have "interrupt_session k e = (e', ok) \<Longrightarrow>
      (ok \<longleftrightarrow> map_of (active_runs e) k \<noteq> None) \<and>
      (\<forall>j. session_interrupted j e' \<longleftrightarrow> session_interrupted j e \<or> (ok \<and> j = k))"
    and "external_interrupt env = None \<Longrightarrow>
      session_interrupted j (interrupt env e) \<longleftrightarrow> map_of (active_runs e) j \<noteq> None"
    and "external_reset env = None \<Longrightarrow>
      session_interrupted j (reset_interrupt env e) \<longleftrightarrow> session_interrupted j e \<and> claimed_key e \<noteq> Some j"
  proof -
    show "interrupt_session k e = (e', ok) \<Longrightarrow>
        (ok \<longleftrightarrow> map_of (active_runs e) k \<noteq> None) \<and>
        (\<forall>j. session_interrupted j e' \<longleftrightarrow> session_interrupted j e \<or> (ok \<and> j = k))"
      by (auto simp: interrupt_session_def session_interrupted_def set_run_flag_def split: if_splits)
    have m: "map_of (map (\<lambda>(k, _). (k, True)) m) j = map_option (\<lambda>_. True) (map_of m j)" for m :: "(string \<times> bool) list" and j
      by (induction m) auto
    show "external_interrupt env = None \<Longrightarrow>
        session_interrupted j (interrupt env e) \<longleftrightarrow> map_of (active_runs e) j \<noteq> None"
      by (auto simp: interrupt_def session_interrupted_def m Let_def)
    show "external_reset env = None \<Longrightarrow>
        session_interrupted j (reset_interrupt env e) \<longleftrightarrow> session_interrupted j e \<and> claimed_key e \<noteq> Some j"
      by (auto simp: reset_interrupt_def session_interrupted_def set_run_flag_def Let_def split: option.split)
  qed
  then show ?thesis by blast
qed

lemma interrupt_scope_witness:
  "let e = (fresh_engine default_loop_config ())\<lparr>active_runs := [(''a'', False), (''b'', False)]\<rparr> in
   session_interrupted ''a'' (fst (interrupt_session ''a'' e)) \<and>
   \<not> session_interrupted ''b'' (fst (interrupt_session ''a'' e)) \<and>
   session_interrupted ''b'' (interrupt quiet_env e) \<and>
   \<not> session_interrupted ''b'' (reset_interrupt quiet_env e)"
proof -
  let ?e = "(fresh_engine default_loop_config ())\<lparr>active_runs := [(''a'', False), (''b'', False)]\<rparr>"
  obtain e' ok where i: "interrupt_session ''a'' ?e = (e', ok)" by fastforce
  have q: "external_interrupt quiet_env = None" "external_reset quiet_env = None" by (simp_all add: quiet_env_def)
  have "\<not> session_interrupted ''b'' ?e" by (simp add: session_interrupted_def)
  with interrupt_scope [THEN conjunct1, THEN mp, OF i]
    interrupt_scope [THEN conjunct2, THEN conjunct1, THEN mp, OF q(1), of "''b''" ?e]
    interrupt_scope [THEN conjunct2, THEN conjunct2, THEN mp, OF q(2), of "''b''" ?e] i
  show ?thesis by (auto simp: Let_def)
qed

text \<open>
  Claim C12. Settling a turn. A failed turn is rolled back completely: the session's conversation is
  again what it was before the turn, the turn's messages are kept aside, and the caller is told.
  After a successful turn whose result extends what was sent, the conversation is the result.
  Other sessions are untouched.
\<close>

theorem settle_turn_atomic:
  assumes "settle_turn key result (length before) sent_len e = (e', ok)"
    and "conversation e key = before @ turn" "key = active_session_key e"
  shows "(last_turn_failure e \<noteq> [] \<longrightarrow> \<not> ok \<and> conversation e' key = before \<and>
      last_failed_turn e' = drop (length before) result) \<and>
    (last_turn_failure e = [] \<longrightarrow> sent_len = length (conversation e key) \<longrightarrow>
      result = conversation e key @ new \<longrightarrow> ok \<and> conversation e' key = result) \<and>
    (other \<noteq> key \<longrightarrow> conversation e' other = conversation e other)"
proof -
  have "last_turn_failure e \<noteq> [] \<Longrightarrow> \<not> ok \<and> conversation e' key = before \<and>
      last_failed_turn e' = drop (length before) result"
    and "last_turn_failure e = [] \<Longrightarrow> sent_len = length (conversation e key) \<Longrightarrow>
      result = conversation e key @ new \<Longrightarrow> ok \<and> conversation e' key = result"
    and "other \<noteq> key \<Longrightarrow> conversation e' other = conversation e other"
    using assms
    by (auto simp: settle_turn_def conversation_set last_failed_turn_def Let_def split: if_splits)
  then show ?thesis by blast
qed

definition failed_engine :: "unit engine" where
  "failed_engine = (fresh_engine default_loop_config ())
     \<lparr>conversations := [([], [text_message ''system'' ''s'', text_message ''user'' ''q''])],
      turn_failures := [([], ''boom'')]\<rparr>"

theorem settle_turn_atomic_witness:
  "conversation (fst (settle_turn [] [text_message ''system'' ''s'', text_message ''user'' ''q'', text_message ''assistant'' ''r'']
     1 2 failed_engine)) [] = [text_message ''system'' ''s'']"
proof -
  let ?r = "[text_message ''system'' ''s'', text_message ''user'' ''q'', text_message ''assistant'' ''r'']"
  let ?b = "[text_message ''system'' ''s'']"
  obtain e' ok where s: "settle_turn [] ?r (length ?b) 2 failed_engine = (e', ok)" by fastforce
  have c: "conversation failed_engine [] = ?b @ [text_message ''user'' ''q'']" "[] = active_session_key failed_engine"
      "last_turn_failure failed_engine \<noteq> []"
    by (simp_all add: failed_engine_def conversation_def active_session_key_def last_turn_failure_def fresh_engine_def)
  from settle_turn_atomic [OF s c(1,2), THEN conjunct1, THEN mp, OF c(3)] s show ?thesis by simp
qed

text \<open>
  A compaction during a turn makes the session forget the turn. The settled conversation
  is the old one extended by the result from position \<open>sent_len\<close> on; when the result is not
  longer than what was sent, as after a compaction, nothing is appended. In the example, a session
  of six messages gets an answer in a run that compacts: the reply is in the result handed to the
  caller, but the stored conversation ends with the question, and is not compacted either.
\<close>

definition long_session :: "unit engine" where
  "long_session = (fresh_engine default_loop_config ())
     \<lparr>conversations := [([], [text_message ''user'' ''q1'', text_message ''assistant'' ''a1'',
        text_message ''user'' ''q2'', text_message ''assistant'' ''a2'',
        text_message ''user'' ''q3'', text_message ''assistant'' ''a3''])]\<rparr>"

lemma compaction_forgets_turn:
  "(if last_turn_failure e = [] \<and> length result \<le> sent_len
    then conversation (fst (settle_turn key result turn_begin sent_len e)) key = conversation e key
    else True) \<and>
   (case run_drain_loop (quiet_env\<lparr>comp_max_tokens := 16\<rparr>) None 4 long_session ''q4'' [] of
      None \<Rightarrow> False
    | Some (e', reply) \<Rightarrow>
        last reply = text_message ''assistant'' ''hello'' \<and>
        last (conversation e' []) = text_message ''user'' ''q4'' \<and>
        length (conversation e' []) = 7)"
proof
  show "if last_turn_failure e = [] \<and> length result \<le> sent_len
    then conversation (fst (settle_turn key result turn_begin sent_len e)) key = conversation e key
    else True"
    by (simp add: settle_turn_def conversation_set)
  show "case run_drain_loop (quiet_env\<lparr>comp_max_tokens := 16\<rparr>) None 4 long_session ''q4'' [] of
      None \<Rightarrow> False
    | Some (e', reply) \<Rightarrow>
        last reply = text_message ''assistant'' ''hello'' \<and>
        last (conversation e' []) = text_message ''user'' ''q4'' \<and>
        length (conversation e' []) = 7"
    by code_simp
qed

text \<open>
  The queue as a log: each step is an attempt to queue a message or to take one, and the log
  collects what was accepted and what was taken.
\<close>

datatype queue_op = QueueMessage string | PopMessage

fun queue_step :: "'w engine \<times> string list \<times> string list \<Rightarrow> queue_op \<Rightarrow> 'w engine \<times> string list \<times> string list" where
  "queue_step (e, acc, out) (QueueMessage m) =
     (case queue_user_message m e of (e', ok) \<Rightarrow> (e', if ok then acc @ [m] else acc, out))"
| "queue_step (e, acc, out) PopMessage =
     (case pop_queued_user_message e of (e', None) \<Rightarrow> (e', acc, out) | (e', Some m) \<Rightarrow> (e', acc, out @ [m]))"

definition queue_inv :: "int \<Rightarrow> 'w engine \<times> string list \<times> string list \<Rightarrow> bool" where
  "queue_inv cap s = (case s of (e, acc, out) \<Rightarrow>
     queue_capacity e = cap \<and> length (user_message_queue e) \<le> nat cap \<and> acc = out @ user_message_queue e)"

lemma queue_step_inv: "queue_inv cap s \<Longrightarrow> queue_inv cap (queue_step s op)"
  by (cases s; cases op)
     (auto simp: queue_inv_def queue_user_message_def pop_queued_user_message_def Let_def split: list.splits if_splits)

lemma queue_run_inv: "queue_inv cap s \<Longrightarrow> queue_inv cap (foldl queue_step s ops)"
  by (induction ops arbitrary: s) (simp_all add: queue_step_inv)

text \<open>
  The queue of messages that arrive during a turn is a bounded FIFO: after any sequence
  of attempts to queue and to take, it holds at most its capacity, and the accepted messages are
  the ones taken, in order, followed by those still queued: none is lost, duplicated or
  reordered, and a refused one leaves no trace.
\<close>

lemma queue_fifo:
  assumes "user_message_queue e = []" "foldl queue_step (e, [], []) ops = (e', acc, out)"
  shows "(acc = out @ user_message_queue e') \<and>
    (length (user_message_queue e') \<le> nat (queue_capacity e'))"
proof -
  have "acc = out @ user_message_queue e'"
    and "length (user_message_queue e') \<le> nat (queue_capacity e')"
  proof -
    have "queue_inv (queue_capacity e) (foldl queue_step (e, [], []) ops)"
      by (rule queue_run_inv) (simp add: queue_inv_def assms(1))
    then show "acc = out @ user_message_queue e'" "length (user_message_queue e') \<le> nat (queue_capacity e')"
      using assms(2) by (simp_all add: queue_inv_def)
  qed
  then show ?thesis by blast
qed

lemma queue_fifo_witness:
  "\<exists>e' acc out. foldl queue_step (fresh_engine (default_loop_config\<lparr>message_queue_capacity := 1\<rparr>) (), [], [])
     [QueueMessage ''a'', QueueMessage ''b'', PopMessage, QueueMessage ''c''] = (e', acc, out) \<and>
     acc = out @ user_message_queue e' \<and> acc = [''a'', ''c'']"
proof -
  let ?e = "fresh_engine (default_loop_config\<lparr>message_queue_capacity := 1\<rparr>) ()"
  let ?ops = "[QueueMessage ''a'', QueueMessage ''b'', PopMessage, QueueMessage ''c'']"
  obtain e' acc out where f: "foldl queue_step (?e, [], []) ?ops = (e', acc, out)" by (rule prod_cases3)
  have e: "user_message_queue ?e = []" by (simp add: fresh_engine_def)
  have "fst (snd (foldl queue_step (?e, [], []) ?ops)) = [''a'', ''c'']" by code_simp
  then have "acc = [''a'', ''c'']" unfolding f by simp
  with f queue_fifo [OF e f, THEN conjunct1] show ?thesis by blast
qed

text \<open>
  The engine's own tier table, read back through the string interface: a non-negative
  iteration override of a tier is what a loop locked to that tier runs under (the number survives
  printing and \<open>atoi\<close>), an unset one leaves the configured cap, and \<open>explicit_completion\<close>
  comes back as stored.
\<close>

lemma tier_table_roundtrip:
  assumes "map_of (tier_info e) (locked_tier c) = Some info" "locked_tier c \<noteq> []"
    and "effective_max_iterations c = - 1" "delegated_max_turns c < 1"
  shows "(resolve_max_iterations cfg (apply_identity_overrides (wire_internal_tier_resolution e env) c) =
      (if max_iterations_override info \<ge> 0 then max_iterations_override info else max_iterations cfg)) \<and>
    (tier_requires_explicit_completion (wire_internal_tier_resolution e env) (locked_tier c) =
      explicit_completion info)"
proof -
  have "resolve_max_iterations cfg (apply_identity_overrides (wire_internal_tier_resolution e env) c) =
      (if max_iterations_override info \<ge> 0 then max_iterations_override info else max_iterations cfg)"
    and "tier_requires_explicit_completion (wire_internal_tier_resolution e env) (locked_tier c) =
      explicit_completion info"
    using assms
    by (auto simp: apply_identity_overrides_def wire_internal_tier_resolution_def tri_get_tier_param_def
        resolve_max_iterations_def tier_requires_explicit_completion_def Let_def)
  then show ?thesis by blast
qed

lemma tier_table_roundtrip_witness:
  "resolve_max_iterations default_loop_config
     (apply_identity_overrides
        (wire_internal_tier_resolution
           (set_tier_info ''eng'' (default_child_info\<lparr>max_iterations_override := 42\<rparr>) (fresh_engine default_loop_config ()))
           quiet_env)
        (default_context\<lparr>locked_tier := ''eng''\<rparr>)) = 42"
proof -
  let ?info = "default_child_info\<lparr>max_iterations_override := 42\<rparr>"
  let ?e = "set_tier_info ''eng'' ?info (fresh_engine default_loop_config ())"
  let ?c = "default_context\<lparr>locked_tier := ''eng''\<rparr>"
  have a: "map_of (tier_info ?e) (locked_tier ?c) = Some ?info" "locked_tier ?c \<noteq> []"
      "effective_max_iterations ?c = - 1" "delegated_max_turns ?c < 1"
    by (simp_all add: set_tier_info_def fresh_engine_def default_context_def)
  show ?thesis using tier_table_roundtrip [OF a, THEN conjunct1] by simp
qed

text \<open>
  Automatic chaining is unreachable. The decision to chain asks the tier parameter
  \<open>auto_chain\<close>, and the engine's own table, the only one the library wires, never answers it,
  whatever the configuration: a configured chain never changes the tier.
\<close>

lemma auto_chain_never_fires:
  "try_auto_chain (wire_internal_tier_resolution e env) s c reason text = (s, c, False)"
  by (simp add: try_auto_chain_def should_auto_chain_def wire_internal_tier_resolution_def
      tri_get_tier_param_def split: option.split)

end
