(* ===== verification/Engine_Directives.thy ===== *)
theory Engine_Directives
  imports Engine_Dispatch
begin

text \<open>
  The engine's directive handlers (\<open>src/core/engine.cpp\<close>, \<open>dir_stop\<close> to \<open>dir_notify\<close>) and their
  registration with the directive processor. A handler's context is the engine state with the
  loop context.
\<close>

definition directive :: "directive_data \<Rightarrow> directive_data directive" where
  "directive d = (directive_type d, d)"

type_synonym 'w engine_handler = "('w engine \<times> loop_context, directive_data) directive_handler"

subsection \<open>The completion hook\<close>

definition tool_result_json :: "message \<Rightarrow> string" where
  "tool_result_json m = ''{'' @ quoted ''name'' @ '':'' @ quoted (json_escape_engine (the (meta m ''tool_name''))) @
     '','' @ quoted ''content'' @ '':'' @ quoted (json_escape_engine (content m)) @ ''}''"

fun comma_join :: "string list \<Rightarrow> string" where
  "comma_join [] = []"
| "comma_join [x] = x"
| "comma_join (x # y # xs) = x @ '','' @ comma_join (y # xs)"

definition build_tool_results_json :: "message list \<Rightarrow> string" where
  "build_tool_results_json ms = ''['' @ comma_join (map tool_result_json (tool_msgs ms)) @ '']''"

definition fire_complete_hook ::
  "'s engine_env \<Rightarrow> 's \<Rightarrow> loop_context \<Rightarrow> string \<Rightarrow> 's \<times> loop_context \<times> bool" where
  "fire_complete_hook env s c text =
     (case hook_pre env of
        None \<Rightarrow> (s, c, False)
      | Some f \<Rightarrow>
          let (s1, validation) = (case validation_provider env of
                 None \<Rightarrow> (s, ''null'')
               | Some g \<Rightarrow> (case g s of (s', None) \<Rightarrow> (s', ''null'') | (s', Some v) \<Rightarrow> (s', v)));
              json = ''{'' @ quoted ''summary'' @ '':'' @ quoted (json_escape_engine text) @ '','' @
                quoted ''tier'' @ '':'' @ quoted (locked_tier c) @ '','' @
                quoted ''tool_results'' @ '':'' @ build_tool_results_json (messages c) @ '','' @
                quoted ''iteration'' @ '':'' @ to_string_int (iterations (metrics c)) @ '','' @
                quoted ''validation'' @ '':'' @ validation @ ''}''
          in (case f s1 22 json of
                (s2, rc, None) \<Rightarrow> (s2, c, rc \<noteq> 0)
              | (s2, rc, Some modified) \<Rightarrow>
                  (s2, push_message (text_message ''user'' (''[CITATION VALIDATION] '' @ sanitize modified)) c,
                   rc \<noteq> 0)))"

subsection \<open>Handlers\<close>

definition dir_stop :: "'w engine_handler" where
  "dir_stop ec d r = (ec, r\<lparr>stop_processing := True\<rparr>)"

definition dir_tier_change :: "'w engine_handler" where
  "dir_tier_change ec d r =
     (case snd d of TierChange tier _ \<Rightarrow> ((fst ec, (snd ec)\<lparr>locked_tier := tier\<rparr>), r\<lparr>tier_changed := True\<rparr>)
      | _ \<Rightarrow> (ec, r))"

definition dir_delegate :: "'w engine_handler" where
  "dir_delegate ec d r =
     (case snd d of Delegate p \<Rightarrow>
        ((fst ec, (snd ec)\<lparr>ctx_pending_delegation := Some p\<rparr>), r\<lparr>stop_processing := True\<rparr>)
      | _ \<Rightarrow> (ec, r))"

definition dir_pipeline :: "'w engine_handler" where
  "dir_pipeline ec d r =
     (case snd d of Pipeline p \<Rightarrow>
        ((fst ec, (snd ec)\<lparr>ctx_pending_pipeline := Some p\<rparr>), r\<lparr>stop_processing := True\<rparr>)
      | _ \<Rightarrow> (ec, r))"

definition dir_complete :: "'w engine engine_env \<Rightarrow> 'w engine_handler" where
  "dir_complete env ec d r =
     (case snd d of Complete text gap gap_text files \<Rightarrow>
        let prior = ctx_state (snd ec);
            (e1, c1) = set_state env (fst ec) (snd ec) VERIFYING;
            (e2, c2, rejected) = fire_complete_hook env e1 c1 text
        in if rejected then
             (set_state env e2 (set_ctx_meta ''validator_phase'' ''revising'' c2) prior,
              r\<lparr>stop_processing := False\<rparr>)
           else
             let c3 = set_ctx_meta ''explicit_completion_summary'' text c2;
                 c4 = (if gap then
                         set_ctx_meta ''suggested_files_json'' (dump_json env (JArray (map JString files)))
                           (set_ctx_meta ''gap_description'' gap_text (set_ctx_meta ''coverage_gap'' ''true'' c3))
                       else c3)
             in (set_state env e2 c4 COMPLETE, r\<lparr>stop_processing := True\<rparr>)
      | _ \<Rightarrow> (ec, r))"

definition dir_clear_todos :: "'w engine_handler" where
  "dir_clear_todos ec d r = (ec, r)"

definition dir_inject :: "'w engine_handler" where
  "dir_inject ec d r =
     (case snd d of InjectContext text msg_role \<Rightarrow>
        (ec, if text \<noteq> [] then r\<lparr>injected_messages := injected_messages r @ [text_message msg_role text]\<rparr> else r)
      | _ \<Rightarrow> (ec, r))"

definition dir_prune :: "'w engine_handler" where
  "dir_prune ec d r =
     (case snd d of PruneMessages keep \<Rightarrow> ((fst ec, fst (prune_tool_results (snd ec) keep)), r)
      | _ \<Rightarrow> (ec, r))"

definition dir_anchor :: "'w engine_handler" where
  "dir_anchor ec d r =
     (case snd d of ContextAnchor key text \<Rightarrow>
        (case apply_anchor key text (context_anchors (fst ec)) (snd ec) of
           (anchors, c) \<Rightarrow> (((fst ec)\<lparr>context_anchors := anchors\<rparr>, c), r))
      | _ \<Rightarrow> (ec, r))"

definition dir_phase :: "'w engine_handler" where
  "dir_phase ec d r =
     (case snd d of PhaseChange phase \<Rightarrow> ((fst ec, (snd ec)\<lparr>active_phase := phase\<rparr>), r) | _ \<Rightarrow> (ec, r))"

text \<open>\<open>notify\<close> is the \<open>on_presenter_notify\<close> callback.\<close>

definition dir_notify :: "('w engine \<Rightarrow> string \<Rightarrow> string \<Rightarrow> 'w engine) option \<Rightarrow> 'w engine_handler" where
  "dir_notify notify ec d r =
     (case snd d of NotifyPresenter key data \<Rightarrow>
        ((case notify of None \<Rightarrow> fst ec | Some f \<Rightarrow> f (fst ec) key data, snd ec), r)
      | _ \<Rightarrow> (ec, r))"

definition register_directive_handlers ::
  "'w engine engine_env \<Rightarrow> ('w engine \<Rightarrow> string \<Rightarrow> string \<Rightarrow> 'w engine) option \<Rightarrow> (int \<times> 'w engine_handler) list" where
  "register_directive_handlers env notify =
     foldl (\<lambda>hs (t, h). register_handler hs t h) []
       [(0, dir_stop), (1, dir_tier_change), (2, dir_delegate), (3, dir_pipeline), (4, dir_complete env),
        (5, dir_clear_todos), (6, dir_inject), (7, dir_prune), (8, dir_anchor), (9, dir_phase),
        (10, dir_notify notify)]"

text \<open>The handler a directive is dispatched to, by its constructor.\<close>

fun handle :: "'w engine engine_env \<Rightarrow> ('w engine \<Rightarrow> string \<Rightarrow> string \<Rightarrow> 'w engine) option \<Rightarrow>
   directive_data \<Rightarrow> 'w engine_handler" where
  "handle env notify StopProcessing = dir_stop"
| "handle env notify (TierChange _ _) = dir_tier_change"
| "handle env notify (Delegate _) = dir_delegate"
| "handle env notify (Pipeline _) = dir_pipeline"
| "handle env notify (Complete _ _ _ _) = dir_complete env"
| "handle env notify ClearSelfTodos = dir_clear_todos"
| "handle env notify (InjectContext _ _) = dir_inject"
| "handle env notify (PruneMessages _) = dir_prune"
| "handle env notify (ContextAnchor _ _) = dir_anchor"
| "handle env notify (PhaseChange _) = dir_phase"
| "handle env notify (NotifyPresenter _ _) = dir_notify notify"

lemma registered_handler:
  "map_of (register_directive_handlers env notify) (directive_type d) = Some (handle env notify d)"
  by (cases d) (simp_all add: register_directive_handlers_def register_handler_def)

fun stops_batch :: "directive_data \<Rightarrow> bool" where
  "stops_batch StopProcessing = True"
| "stops_batch (Delegate _) = True"
| "stops_batch (Pipeline _) = True"
| "stops_batch _ = False"

lemma handle_stops:
  assumes "stops_batch d" "handle env notify d ec (directive d) r = (ec', r')"
  shows "stop_processing r'"
  using assms by (cases d) (auto simp: directive_def dir_stop_def dir_delegate_def dir_pipeline_def)

lemma run_handlers_append_stop:
  assumes "stops_batch d"
  shows "run_handlers (register_directive_handlers env notify) ec r (map directive (pre @ d # post)) =
    run_handlers (register_directive_handlers env notify) ec r (map directive (pre @ [d]))"
proof (induction pre arbitrary: ec r)
  case Nil
  obtain ec' r' where h: "handle env notify d ec (directive d) r = (ec', r')" by fastforce
  from handle_stops [OF assms h] h show ?case
    by (simp add: registered_handler directive_def)
next
  case (Cons x pre)
  then show ?case by (simp add: registered_handler directive_def split: prod.split)
qed

lemma map_filter_Some: "List.map_filter (\<lambda>x. x) (map (\<lambda>x. Some (f x)) xs) = map f xs"
  by (induction xs) (simp_all add: List.map_filter_simps)

subsection \<open>Properties\<close>

text \<open>
  A batch of directives ends at the first that hands control over: whatever follows a
  stop, a delegation or a pipeline in the same batch has no effect on the engine, the loop
  context or the result, so one batch queues at most one delegation or pipeline.
\<close>

lemma directive_batch_ends:
  assumes "stops_batch d"
  shows "process None (register_directive_handlers env notify) w ec (map (\<lambda>x. Some (directive x)) (pre @ d # post)) =
    process None (register_directive_handlers env notify) w ec (map (\<lambda>x. Some (directive x)) (pre @ [d]))"
proof -
  have "process None hs w ec (map (\<lambda>x. Some (directive x)) xs) =
      (let (c', r') = run_handlers hs ec default_directive_result (map directive xs) in (w, c', r'))" for hs xs
    by (simp only: process_def process_no_hooks map_filter_Some)
  then show ?thesis
    by (simp only: run_handlers_append_stop [OF assms, of env notify ec default_directive_result pre post])
qed

lemma directive_batch_ends_witness:
  "process None (register_directive_handlers quiet_env None) () (fresh_engine default_loop_config (), default_context)
     (map (\<lambda>x. Some (directive x)) ([PhaseChange ''p''] @ StopProcessing # [PhaseChange ''q''])) =
   process None (register_directive_handlers quiet_env None) () (fresh_engine default_loop_config (), default_context)
     (map (\<lambda>x. Some (directive x)) ([PhaseChange ''p''] @ [StopProcessing]))"
  by (rule directive_batch_ends) simp

text \<open>
  Completion is a request the completion hook may refuse. Refused, the loop returns to
  the state it was in, the rest of the batch still runs and no completion summary is recorded;
  granted, the loop is complete with the summary, and a reported coverage gap is recorded with it.
\<close>

lemma completion_needs_approval:
  assumes "dir_complete env (e, c) (directive (Complete text gap gap_text files)) r = ((e', c'), r')"
    and "fire_complete_hook env (fst (set_state env e c VERIFYING)) (c\<lparr>ctx_state := VERIFYING\<rparr>) text =
      (e1, c1, rejected)"
  shows "(rejected \<longrightarrow> ctx_state c' = ctx_state c \<and> \<not> stop_processing r' \<and>
      ctx_meta c' ''explicit_completion_summary'' = ctx_meta c ''explicit_completion_summary'') \<and>
    (\<not> rejected \<longrightarrow> ctx_state c' = COMPLETE \<and> stop_processing r' \<and>
      ctx_meta c' ''explicit_completion_summary'' = Some text \<and>
      (gap \<longrightarrow> ctx_meta c' ''coverage_gap'' = Some ''true'' \<and> ctx_meta c' ''gap_description'' = Some gap_text))"
proof -
  have "rejected \<Longrightarrow> ctx_state c' = ctx_state c \<and> \<not> stop_processing r' \<and>
      ctx_meta c' ''explicit_completion_summary'' = ctx_meta c ''explicit_completion_summary''"
    and "\<not> rejected \<Longrightarrow> ctx_state c' = COMPLETE \<and> stop_processing r' \<and>
      ctx_meta c' ''explicit_completion_summary'' = Some text \<and>
      (gap \<longrightarrow> ctx_meta c' ''coverage_gap'' = Some ''true'' \<and> ctx_meta c' ''gap_description'' = Some gap_text)"
  proof -
    note run = assms(1) [unfolded dir_complete_def directive_def snd_conv fst_conv directive_data.case Let_def
        set_state_case assms(2) prod.case]
    have "ctx_meta c1 k = ctx_meta c k" for k
      using assms(2) by (auto simp: fire_complete_hook_def ctx_meta_def push_message_def Let_def
          split: option.splits prod.splits)
    then show "rejected \<Longrightarrow> ctx_state c' = ctx_state c \<and> \<not> stop_processing r' \<and>
        ctx_meta c' ''explicit_completion_summary'' = ctx_meta c ''explicit_completion_summary''"
      using run by (auto dest!: set_stateD split: if_splits)
    show "\<not> rejected \<Longrightarrow> ctx_state c' = COMPLETE \<and> stop_processing r' \<and>
        ctx_meta c' ''explicit_completion_summary'' = Some text \<and>
        (gap \<longrightarrow> ctx_meta c' ''coverage_gap'' = Some ''true'' \<and> ctx_meta c' ''gap_description'' = Some gap_text)"
      using run by (auto dest!: set_stateD split: if_splits)
  qed
  then show ?thesis by blast
qed

lemma completion_needs_approval_witness:
  "ctx_state (snd (fst (dir_complete (quiet_env\<lparr>hook_pre := Some (\<lambda>s p j. (s, 1, None))\<rparr>)
      (fresh_engine default_loop_config (), default_context\<lparr>ctx_state := EXECUTING\<rparr>)
      (directive (Complete ''done'' False [] [])) default_directive_result))) = EXECUTING"
proof -
  let ?env = "quiet_env\<lparr>hook_pre := Some (\<lambda>s p j. (s, 1, None))\<rparr> :: unit engine engine_env"
  let ?e = "fresh_engine default_loop_config ()" and ?c = "default_context\<lparr>ctx_state := EXECUTING\<rparr>"
  obtain e' c' r' where d: "dir_complete ?env (?e, ?c) (directive (Complete ''done'' False [] []))
      default_directive_result = ((e', c'), r')" by (metis prod.collapse)
  have "fire_complete_hook ?env s c t = (s, c, True)" for s c t
    by (simp add: fire_complete_hook_def quiet_env_def)
  from completion_needs_approval [OF d this, THEN conjunct1] d show ?thesis by simp
qed

end
