(* ===== verification/Stream_Filter.thy ===== *)
theory Stream_Filter
  imports Prelude
begin

text \<open>
  The streaming reasoning filter (\<open>src/core/stream_think_filter.cpp\<close>): a byte-driven state
  machine between the model's token stream and the consumer's callback. It suppresses what
  stands between the family's reasoning delimiters and hands the rest on in chunks that end
  on UTF-8 code point boundaries.

  The record keeps the object's fields; the calls of the two C callbacks are the lists
  \<open>out\<close> (consumer) and \<open>raw_out\<close> (raw log), oldest first.
\<close>

record think_filter =
  open_marker :: string
  close_marker :: string
  max_marker_len :: nat
  in_think :: bool
  tag_buf :: string
  utf8_buf :: string
  raw_cb :: bool
  out :: "string list"
  raw_out :: "string list"

definition new_filter :: "string \<Rightarrow> string \<Rightarrow> think_filter" where
  "new_filter om cm =
     \<lparr>open_marker = om, close_marker = cm, max_marker_len = max (length om) (length cm),
      in_think = False, tag_buf = [], utf8_buf = [], raw_cb = False, out = [], raw_out = []\<rparr>"

definition default_filter :: think_filter where
  "default_filter =
     \<lparr>open_marker = ''<think>'', close_marker = ''</think>'', max_marker_len = 8,
      in_think = False, tag_buf = [], utf8_buf = [], raw_cb = False, out = [], raw_out = []\<rparr>"

definition set_raw_callback :: "think_filter \<Rightarrow> think_filter" where
  "set_raw_callback f = f\<lparr>raw_cb := True\<rparr>"

text \<open>\<open>match_tag\<close>: \<^term>\<open>Some True\<close> for the opening delimiter, \<^term>\<open>Some False\<close> for the closing one.\<close>

definition match_tag :: "think_filter \<Rightarrow> string \<Rightarrow> bool option" where
  "match_tag f buf =
     (if buf = open_marker f then Some True
      else if buf = close_marker f then Some False
      else None)"

definition utf8_char_len :: "char \<Rightarrow> nat" where
  "utf8_char_len c =
     (if byte c < 128 then 1
      else if byte c \<ge> 240 then 4
      else if byte c \<ge> 224 then 3
      else if byte c \<ge> 192 then 2
      else 0)"

text \<open>
  The backward walk of \<open>emit_utf8_safe\<close>: with \<open>i\<close> the distance from the end, the number of
  bytes of \<open>buf\<close> that are safe to hand on.
\<close>

function safe_walk :: "string \<Rightarrow> nat \<Rightarrow> nat" where
  "safe_walk buf i =
     (if i \<le> 4 \<and> i \<le> length buf then
        (let expected = utf8_char_len (buf ! (length buf - i))
         in if expected > 0
            then (if i < expected then length buf - i else length buf)
            else safe_walk buf (Suc i))
      else length buf)"
  by pat_completeness auto
termination
  by (relation "measure (\<lambda>(buf, i). 5 - i)") auto

declare safe_walk.simps [simp del]

definition emit_utf8_safe :: "think_filter \<Rightarrow> string \<Rightarrow> think_filter" where
  "emit_utf8_safe f data =
     (let buf = utf8_buf f @ data in
      if length buf = 0 then f\<lparr>utf8_buf := buf\<rparr>
      else
        let safe = safe_walk buf 1 in
        f\<lparr>out := (if safe > 0 then out f @ [take safe buf] else out f),
          utf8_buf := drop safe buf\<rparr>)"

text \<open>\<open>marker[0]\<close>; on an empty \<open>std::string\<close> this is the terminating NUL byte.\<close>

definition marker_head :: "string \<Rightarrow> char" where
  "marker_head m = (case m of [] \<Rightarrow> CHR 0x00 | c # _ \<Rightarrow> c)"

definition process_byte :: "think_filter \<Rightarrow> char \<Rightarrow> think_filter" where
  "process_byte f c =
     (if tag_buf f = [] \<and> c \<noteq> marker_head (open_marker f) \<and> c \<noteq> marker_head (close_marker f)
      then (if in_think f then f else emit_utf8_safe f [c])
      else
        let tag = tag_buf f @ [c] in
        (case match_tag f tag of
           Some is_open \<Rightarrow> f\<lparr>in_think := is_open, tag_buf := []\<rparr>
         | None \<Rightarrow>
             (if length tag > max_marker_len f
              then (if in_think f then f else emit_utf8_safe f tag)\<lparr>tag_buf := []\<rparr>
              else f\<lparr>tag_buf := tag\<rparr>)))"

definition on_token :: "think_filter \<Rightarrow> string \<Rightarrow> think_filter" where
  "on_token f chunk =
     (let f' = (if raw_cb f then f\<lparr>raw_out := raw_out f @ [chunk]\<rparr> else f)
      in foldl process_byte f' chunk)"

definition flush :: "think_filter \<Rightarrow> think_filter" where
  "flush f =
     (let g = (if tag_buf f \<noteq> [] \<and> \<not> in_think f then emit_utf8_safe f (tag_buf f) else f)\<lparr>tag_buf := []\<rparr>
      in if utf8_buf g \<noteq> [] then g\<lparr>out := out g @ [utf8_buf g], utf8_buf := []\<rparr> else g)"


subsection \<open>Nothing is lost or invented by the UTF-8 buffer\<close>

definition delivered :: "think_filter \<Rightarrow> string" where
  "delivered f = concat (out f) @ utf8_buf f"

lemma safe_walk_le: "safe_walk buf i \<le> length buf"
  by (induction buf i rule: safe_walk.induct) (subst safe_walk.simps, auto simp: Let_def)

lemma emit_frame [simp]:
  "open_marker (emit_utf8_safe f d) = open_marker f"
  "close_marker (emit_utf8_safe f d) = close_marker f"
  "max_marker_len (emit_utf8_safe f d) = max_marker_len f"
  "in_think (emit_utf8_safe f d) = in_think f"
  "tag_buf (emit_utf8_safe f d) = tag_buf f"
  "raw_cb (emit_utf8_safe f d) = raw_cb f"
  "raw_out (emit_utf8_safe f d) = raw_out f"
  by (simp_all add: emit_utf8_safe_def Let_def)

lemma delivered_emit [simp]: "delivered (emit_utf8_safe f d) = delivered f @ d"
  by (auto simp: delivered_def emit_utf8_safe_def Let_def simp del: take_append drop_append)

lemma delivered_update [simp]:
  "delivered (f\<lparr>tag_buf := t\<rparr>) = delivered f"
  "delivered (f\<lparr>in_think := b\<rparr>) = delivered f"
  "delivered (f\<lparr>raw_out := r\<rparr>) = delivered f"
  "delivered (f\<lparr>raw_cb := w\<rparr>) = delivered f"
  by (simp_all add: delivered_def)

lemma drain_delivered:
  "concat (out (if utf8_buf g \<noteq> [] then g\<lparr>out := out g @ [utf8_buf g], utf8_buf := []\<rparr> else g))
   = delivered g"
  by (simp add: delivered_def)

lemma flush_out: "concat (out (flush f)) = delivered f @ (if in_think f then [] else tag_buf f)"
  by (simp only: flush_def Let_def drain_delivered) simp

subsection \<open>The filter as a scan of the whole text\<close>

text \<open>
  A step of the machine only looks at the mode, the tag buffer and the two delimiters; the
  visible bytes it produces do not depend on how the UTF-8 buffer batches them.
\<close>

definition starts_tag :: "think_filter \<Rightarrow> char \<Rightarrow> bool" where
  "starts_tag f c \<longleftrightarrow> c = marker_head (open_marker f) \<or> c = marker_head (close_marker f)"

fun scan :: "think_filter \<Rightarrow> bool \<Rightarrow> string \<Rightarrow> string \<Rightarrow> string" where
  "scan f think tag [] = (if think then [] else tag)"
| "scan f think tag (c # cs) =
     (if tag = [] \<and> \<not> starts_tag f c
      then (if think then [] else [c]) @ scan f think [] cs
      else case match_tag f (tag @ [c]) of
          Some is_open \<Rightarrow> scan f is_open [] cs
        | None \<Rightarrow>
           (if length (tag @ [c]) > max_marker_len f
            then (if think then [] else tag @ [c]) @ scan f think [] cs
            else scan f think (tag @ [c]) cs))"

lemma process_byte_frame [simp]:
  "open_marker (process_byte f c) = open_marker f"
  "close_marker (process_byte f c) = close_marker f"
  "max_marker_len (process_byte f c) = max_marker_len f"
  "raw_cb (process_byte f c) = raw_cb f"
  "raw_out (process_byte f c) = raw_out f"
  by (simp_all add: process_byte_def Let_def split: option.splits)

lemma scan_cong:
  "open_marker f = open_marker g \<Longrightarrow> close_marker f = close_marker g \<Longrightarrow>
   max_marker_len f = max_marker_len g \<Longrightarrow> scan f = scan g"
proof (intro ext)
  fix think tag s
  assume eq: "open_marker f = open_marker g" "close_marker f = close_marker g"
    "max_marker_len f = max_marker_len g"
  then have "starts_tag f = starts_tag g" "match_tag f = match_tag g"
    by (simp_all add: fun_eq_iff starts_tag_def match_tag_def)
  with eq show "scan f think tag s = scan g think tag s"
    by (induction s arbitrary: think tag) (auto split: option.split)
qed

lemma scan_process_byte [simp]: "scan (process_byte f c) = scan f"
  by (rule scan_cong) simp_all

lemma process_byte_scan:
  "delivered (process_byte f c) @ scan f (in_think (process_byte f c)) (tag_buf (process_byte f c)) cs
   = delivered f @ scan f (in_think f) (tag_buf f) (c # cs)"
  by (auto simp: process_byte_def starts_tag_def Let_def split: option.split)

lemma run_scan:
  "concat (out (flush (foldl process_byte f s))) = delivered f @ scan f (in_think f) (tag_buf f) s"
proof (induction s arbitrary: f)
  case Nil
  then show ?case by (simp add: flush_out)
next
  case (Cons c cs)
  have "concat (out (flush (foldl process_byte f (c # cs))))
      = delivered (process_byte f c) @
        scan f (in_think (process_byte f c)) (tag_buf (process_byte f c)) cs"
    by (simp add: Cons.IH)
  then show ?case by (simp only: process_byte_scan)
qed

text \<open>The visible text of a stream of chunks, from the first token to the final flush.\<close>

definition visible :: "think_filter \<Rightarrow> string list \<Rightarrow> string" where
  "visible f chunks = concat (out (flush (foldl on_token f chunks)))"

lemma process_byte_raw_out:
  "process_byte (f\<lparr>raw_out := r\<rparr>) c = (process_byte f c)\<lparr>raw_out := r\<rparr>"
  by (simp add: process_byte_def emit_utf8_safe_def match_tag_def Let_def)

lemma foldl_process_raw_out:
  "foldl process_byte (f\<lparr>raw_out := r\<rparr>) s = (foldl process_byte f s)\<lparr>raw_out := r\<rparr>"
  by (induction s arbitrary: f) (simp_all add: process_byte_raw_out)

lemma on_token_process:
  "on_token f s = (foldl process_byte f s)\<lparr>raw_out := raw_out f @ (if raw_cb f then [s] else [])\<rparr>"
proof -
  have "raw_out (foldl process_byte f s) = raw_out f" for s
    by (induction s arbitrary: f) simp_all
  then show ?thesis
    by (simp add: on_token_def Let_def foldl_process_raw_out)
qed

lemma on_tokens_process:
  "\<exists>r. foldl on_token f chunks = (foldl process_byte f (concat chunks))\<lparr>raw_out := r\<rparr>"
proof (induction chunks arbitrary: f)
  case Nil
  have "f = f\<lparr>raw_out := raw_out f\<rparr>" by simp
  then show ?case by (metis concat.simps(1) foldl_Nil)
next
  case (Cons s chunks)
  show ?case using Cons.IH [of "on_token f s"]
    by (auto simp: on_token_process foldl_process_raw_out)
qed

lemma flush_raw_out: "out (flush (f\<lparr>raw_out := r\<rparr>)) = out (flush f)"
  by (simp add: flush_def emit_utf8_safe_def Let_def)

lemma visible_scan:
  "visible f chunks = delivered f @ scan f (in_think f) (tag_buf f) (concat chunks)"
proof -
  obtain r where "foldl on_token f chunks = (foldl process_byte f (concat chunks))\<lparr>raw_out := r\<rparr>"
    using on_tokens_process by blast
  then show ?thesis by (simp add: visible_def flush_raw_out run_scan)
qed


subsection \<open>Reasoning blocks are removed\<close>

text \<open>
  A text settles when the machine, started outside a tag, reads it without completing a
  delimiter and ends with an empty tag buffer. Any text without a delimiter's first byte
  settles; so does one where that byte is followed by enough other bytes.
\<close>

fun settles :: "think_filter \<Rightarrow> string \<Rightarrow> string \<Rightarrow> bool" where
  "settles f tag [] \<longleftrightarrow> tag = []"
| "settles f tag (c # cs) \<longleftrightarrow>
     (if tag = [] \<and> \<not> starts_tag f c then settles f [] cs
      else match_tag f (tag @ [c]) = None \<and>
        settles f (if length (tag @ [c]) > max_marker_len f then [] else tag @ [c]) cs)"

lemma scan_settles:
  "settles f tag s \<Longrightarrow> scan f think tag (s @ r) = (if think then [] else tag @ s) @ scan f think [] r"
  by (induction s arbitrary: tag) (auto split: if_splits)

lemma settles_no_head:
  "\<forall>c \<in> set s. \<not> starts_tag f c \<Longrightarrow> settles f [] s"
  by (induction s) auto

text \<open>Reading a delimiter completes it, provided no shorter part of it is the other one.\<close>

lemma scan_marker_tail:
  assumes m: "match_tag f (tag @ t) = Some b" and t: "t \<noteq> []" and tag: "tag \<noteq> []"
    and len: "length (tag @ t) \<le> max_marker_len f"
    and none: "\<And>p. strict_prefix p (tag @ t) \<Longrightarrow> match_tag f p = None"
  shows "scan f think tag (t @ r) = scan f b [] r"
  using assms
proof (induction t arbitrary: tag)
  case Nil
  then show ?case by simp
next
  case (Cons c cs)
  show ?case
  proof (cases "cs = []")
    case True
    with Cons.prems show ?thesis by simp
  next
    case False
    have "match_tag f (tag @ [c]) = None"
      using False by (intro Cons.prems(5)) (auto simp: strict_prefix_def)
    moreover have "scan f think (tag @ [c]) (cs @ r) = scan f b [] r"
      using Cons.prems False by (intro Cons.IH) auto
    ultimately show ?thesis
      using Cons.prems by auto
  qed
qed

lemma scan_marker:
  assumes m: "match_tag f m = Some b" and ne: "m \<noteq> []" and st: "starts_tag f (hd m)"
    and len: "length m \<le> max_marker_len f"
    and none: "\<And>p. strict_prefix p m \<Longrightarrow> match_tag f p = None"
  shows "scan f think [] (m @ r) = scan f b [] r"
proof (cases m)
  case Nil
  with ne show ?thesis by simp
next
  case (Cons c cs)
  show ?thesis
  proof (cases "cs = []")
    case True
    with Cons m st show ?thesis by simp
  next
    case False
    have "match_tag f [c] = None"
      using Cons False by (intro none) (auto simp: strict_prefix_def)
    moreover have "length [c] \<le> max_marker_len f"
      using len Cons by simp
    ultimately have "scan f think [] (m @ r) = scan f think [c] (cs @ r)"
      using Cons st by simp
    also have "\<dots> = scan f b [] r"
      using Cons False m len none by (intro scan_marker_tail) auto
    finally show ?thesis .
  qed
qed

definition proper_markers :: "string \<Rightarrow> string \<Rightarrow> bool" where
  "proper_markers om cm \<longleftrightarrow>
     om \<noteq> [] \<and> cm \<noteq> [] \<and> \<not> prefix om cm \<and> \<not> prefix cm om"

lemma scan_open:
  assumes "proper_markers om cm"
  shows "scan (new_filter om cm) think [] (om @ r) = scan (new_filter om cm) True [] r"
  using assms
  by (intro scan_marker)
     (auto simp: new_filter_def match_tag_def starts_tag_def marker_head_def proper_markers_def
       strict_prefix_def split: list.split)

lemma scan_close:
  assumes "proper_markers om cm"
  shows "scan (new_filter om cm) think [] (cm @ r) = scan (new_filter om cm) False [] r"
  using assms
  by (intro scan_marker)
     (auto simp: new_filter_def match_tag_def starts_tag_def marker_head_def proper_markers_def
       strict_prefix_def split: list.split)

lemma visible_new_filter:
  "visible (new_filter om cm) chunks = scan (new_filter om cm) False [] (concat chunks)"
  by (simp add: visible_scan delivered_def) (simp add: new_filter_def)


subsection \<open>Chunks end on code point boundaries\<close>

text \<open>
  \<open>utf8_prefix s\<close>: the bytes \<open>s\<close> are a sequence of code points, lead byte by lead byte, of
  which the last may still be incomplete. \<open>utf8_complete s\<close>: the last one is complete too.
\<close>

fun utf8_prefix :: "string \<Rightarrow> bool" where
  "utf8_prefix [] \<longleftrightarrow> True"
| "utf8_prefix (c # cs) \<longleftrightarrow> utf8_char_len c > 0 \<and>
     list_all (\<lambda>x. utf8_char_len x = 0) (take (utf8_char_len c - 1) cs) \<and>
     utf8_prefix (drop (utf8_char_len c - 1) cs)"

fun utf8_complete :: "string \<Rightarrow> bool" where
  "utf8_complete [] \<longleftrightarrow> True"
| "utf8_complete (c # cs) \<longleftrightarrow> utf8_char_len c > 0 \<and>
     utf8_char_len c - 1 \<le> length cs \<and>
     list_all (\<lambda>x. utf8_char_len x = 0) (take (utf8_char_len c - 1) cs) \<and>
     utf8_complete (drop (utf8_char_len c - 1) cs)"

lemma utf8_complete_append:
  "utf8_complete a \<Longrightarrow> utf8_prefix (a @ b) \<longleftrightarrow> utf8_prefix b"
proof (induction a rule: utf8_complete.induct)
  case (2 c cs)
  let ?n = "utf8_char_len c - 1"
  have n: "?n \<le> length cs" and IH: "utf8_prefix (drop ?n cs @ b) = utf8_prefix b"
    using 2 by simp_all
  have z: "utf8_char_len c - Suc (length cs) = 0"
    using n by simp
  have "utf8_prefix ((c # cs) @ b) \<longleftrightarrow> utf8_prefix (drop ?n cs @ b)"
    using 2(2) z by simp
  with IH show ?case by (simp only:)
qed simp

lemma utf8_complete_appendI:
  "utf8_complete a \<Longrightarrow> utf8_complete (a @ b) \<longleftrightarrow> utf8_complete b"
proof (induction a rule: utf8_complete.induct)
  case (2 c cs)
  let ?n = "utf8_char_len c - 1"
  have n: "?n \<le> length cs" and IH: "utf8_complete (drop ?n cs @ b) = utf8_complete b"
    using 2 by simp_all
  have z: "utf8_char_len c - Suc (length cs) = 0"
    using n by simp
  have "utf8_complete ((c # cs) @ b) \<longleftrightarrow> utf8_complete (drop ?n cs @ b)"
    using 2(2) z by simp
  with IH show ?case by (simp only:)
qed simp

lemma utf8_complete_concat: "\<forall>a \<in> set as. utf8_complete a \<Longrightarrow> utf8_complete (concat as)"
  by (induction "as") (auto simp: utf8_complete_appendI)

lemma utf8_prefix_appendD: "utf8_prefix (a @ b) \<Longrightarrow> utf8_prefix a"
proof (induction a rule: utf8_prefix.induct)
  case (2 c cs)
  let ?n = "utf8_char_len c - 1"
  have "utf8_prefix (drop ?n cs @ drop (?n - length cs) b)" and pos: "utf8_char_len c > 0"
    and conts: "list_all (\<lambda>x. utf8_char_len x = 0) (take ?n cs)"
    using 2(2) by simp_all
  have "utf8_prefix (drop ?n cs)"
  proof (cases "?n \<le> length cs")
    case True
    then have "?n - length cs = 0" by simp
    with 2(2) have "utf8_prefix (drop ?n cs @ b)" by simp
    with 2(1) show ?thesis by simp
  qed simp
  with pos conts show ?case by simp
qed simp

text \<open>An incomplete code point: a lead byte that asks for more bytes than are there.\<close>

definition partial_cp :: "string \<Rightarrow> bool" where
  "partial_cp p \<longleftrightarrow> p = [] \<or> (length p < utf8_char_len (hd p) \<and> list_all (\<lambda>x. utf8_char_len x = 0) (tl p))"

lemma utf8_char_len_le4: "utf8_char_len c \<le> 4"
  by (simp add: utf8_char_len_def)

lemma utf8_prefix_split:
  "utf8_prefix s \<Longrightarrow> \<exists>a p. s = a @ p \<and> utf8_complete a \<and> partial_cp p"
proof (induction s rule: utf8_prefix.induct)
  case 1
  then show ?case by (auto simp: partial_cp_def)
next
  case (2 c cs)
  let ?n = "utf8_char_len c - 1"
  show ?case
  proof (cases "?n \<le> length cs")
    case True
    from 2 obtain a p where ap: "drop ?n cs = a @ p" "utf8_complete a" "partial_cp p"
      by auto
    have "c # cs = (c # take ?n cs @ a) @ p"
      using ap(1) by (metis append_Cons append_assoc append_take_drop_id)
    moreover have "utf8_complete (c # take ?n cs @ a)"
      using 2(2) True ap(2) by simp
    ultimately show ?thesis using ap(3) by blast
  next
    case False
    with 2 have "partial_cp (c # cs)" by (auto simp: partial_cp_def)
    then show ?thesis by (intro exI [of _ "[]"] exI [of _ "c # cs"]) simp
  qed
qed

lemma safe_walk_conts:
  assumes "\<forall>k. i \<le> k \<and> k < j \<longrightarrow> utf8_char_len (buf ! (length buf - k)) = 0"
    and "i \<le> j" "j \<le> 5" "j \<le> Suc (length buf)"
  shows "safe_walk buf i = safe_walk buf j"
  using assms
proof (induction "j - i" arbitrary: i)
  case 0
  then show ?case by simp
next
  case (Suc d)
  then have "i < j" by simp
  with Suc.prems have "utf8_char_len (buf ! (length buf - i)) = 0" "i \<le> 4" "i \<le> length buf"
    by auto
  then have "safe_walk buf i = safe_walk buf (Suc i)"
    by (subst safe_walk.simps) simp
  also have "\<dots> = safe_walk buf j"
    using Suc \<open>i < j\<close> by (intro Suc.hyps(1)) auto
  finally show ?case .
qed

text \<open>
  The walk from the end of a buffer whose last code point is \<open>p\<close>: it stops at the lead byte
  of \<open>p\<close> and keeps \<open>p\<close> back exactly when it is incomplete.
\<close>

lemma safe_walk_lead:
  assumes p: "p \<noteq> []" and lead: "utf8_char_len (hd p) > 0" "length p \<le> 4"
    and conts: "list_all (\<lambda>x. utf8_char_len x = 0) (tl p)"
  shows "safe_walk (a @ p) 1 =
    (if length p < utf8_char_len (hd p) then length a else length (a @ p))"
proof -
  let ?b = "a @ p"
  have conts': "utf8_char_len (?b ! (length ?b - k)) = 0" if "1 \<le> k" "k < length p" for k
  proof -
    have "length ?b - k = length a + (length p - k)"
      using that by simp
    then have "?b ! (length ?b - k) = p ! (length p - k)"
      by (simp only: nth_append_length_plus)
    also have "\<dots> = tl p ! (length p - k - 1)"
      using that p by (simp add: nth_tl Suc_diff_Suc)
    finally show ?thesis
      using conts that by (simp add: list_all_length)
  qed
  have "safe_walk ?b 1 = safe_walk ?b (length p)"
    using conts' lead(2) p by (intro safe_walk_conts) (auto simp: Suc_le_eq)
  also have "\<dots> = (if length p < utf8_char_len (hd p) then length a else length ?b)"
    using p lead by (subst safe_walk.simps) (simp add: nth_append hd_conv_nth)
  finally show ?thesis .
qed


lemma utf8_complete_last:
  assumes "utf8_complete a" "a \<noteq> []"
  shows "\<exists>b p. a = b @ p \<and> p \<noteq> [] \<and> length p = utf8_char_len (hd p) \<and>
    list_all (\<lambda>x. utf8_char_len x = 0) (tl p)"
  using assms
proof (induction a rule: utf8_complete.induct)
  case (2 c cs)
  let ?n = "utf8_char_len c - 1"
  have cs: "cs = take ?n cs @ drop ?n cs" by simp
  show ?case
  proof (cases "drop ?n cs = []")
    case True
    with 2(2) have "length (c # cs) = utf8_char_len c" by auto
    moreover have "take ?n cs = cs" using True by simp
    ultimately show ?thesis
      using 2(2) by (intro exI [of _ "[]"] exI [of _ "c # cs"]) simp
  next
    case False
    with 2 obtain b p where bp: "drop ?n cs = b @ p" "p \<noteq> []" "length p = utf8_char_len (hd p)"
      "list_all (\<lambda>x. utf8_char_len x = 0) (tl p)" by auto
    then have "c # cs = (c # take ?n cs @ b) @ p"
      by (metis append_Cons append_assoc append_take_drop_id)
    with bp show ?thesis by blast
  qed
qed simp

lemma safe_walk_split:
  assumes a: "utf8_complete a" and p: "partial_cp p" and ne: "a @ p \<noteq> []"
  shows "safe_walk (a @ p) 1 = length a"
proof (cases "p = []")
  case True
  with a ne obtain b q where q: "a = b @ q" "q \<noteq> []" "length q = utf8_char_len (hd q)"
    "list_all (\<lambda>x. utf8_char_len x = 0) (tl q)"
    using utf8_complete_last [of a] by auto
  have "safe_walk (b @ q) 1 = length (b @ q)"
    using q utf8_char_len_le4 [of "hd q"] by (subst safe_walk_lead) (auto simp: length_greater_0_conv [symmetric])
  with q True show ?thesis by simp
next
  case False
  with p have "length p < utf8_char_len (hd p)" "list_all (\<lambda>x. utf8_char_len x = 0) (tl p)"
    by (auto simp: partial_cp_def)
  with False show ?thesis
    using utf8_char_len_le4 [of "hd p"] by (subst safe_walk_lead) auto
qed

text \<open>The aligned states: every chunk handed on is complete, the buffer is a partial code point.\<close>

definition aligned :: "think_filter \<Rightarrow> bool" where
  "aligned f \<longleftrightarrow> list_all utf8_complete (out f) \<and> partial_cp (utf8_buf f)"

lemma aligned_update [simp]:
  "aligned (f\<lparr>tag_buf := t\<rparr>) = aligned f"
  "aligned (f\<lparr>in_think := b\<rparr>) = aligned f"
  "aligned (f\<lparr>raw_out := r\<rparr>) = aligned f"
  by (simp_all add: aligned_def)

lemma emit_aligned [inv_intros]:
  assumes f: "aligned f" and ok: "utf8_prefix (delivered f @ d)"
  shows "aligned (emit_utf8_safe f d)"
proof (cases "utf8_buf f @ d = []")
  case True
  with f show ?thesis by (simp add: aligned_def emit_utf8_safe_def Let_def)
next
  case False
  have "utf8_complete (concat (out f))"
    using f by (intro utf8_complete_concat) (auto simp: aligned_def list_all_iff)
  with ok have "utf8_prefix (utf8_buf f @ d)"
    by (simp add: delivered_def utf8_complete_append)
  then obtain a p where ap: "utf8_buf f @ d = a @ p" "utf8_complete a" "partial_cp p"
    using utf8_prefix_split by blast
  then have "safe_walk (utf8_buf f @ d) 1 = length a"
    using False by (simp add: safe_walk_split del: One_nat_def)
  then have "emit_utf8_safe f d = f\<lparr>out := (if a \<noteq> [] then out f @ [a] else out f), utf8_buf := p\<rparr>"
    using False ap(1) by (simp add: emit_utf8_safe_def Let_def del: append_is_Nil_conv)
  with f ap show ?thesis by (simp add: aligned_def)
qed

lemma process_byte_delivered: "prefix (delivered f) (delivered (process_byte f c))"
  by (simp add: process_byte_def Let_def split: option.split)

lemma process_byte_aligned [inv_intros]:
  "aligned f \<Longrightarrow> utf8_prefix (delivered (process_byte f c)) \<Longrightarrow> aligned (process_byte f c)"
  by (auto simp: process_byte_def Let_def intro: emit_aligned split: option.splits if_splits)

lemma delivered_run: "prefix (delivered f) (delivered (foldl process_byte f s))"
proof (induction s arbitrary: f)
  case (Cons c s)
  from Cons.IH have "prefix (delivered (process_byte f c)) (delivered (foldl process_byte f (c # s)))"
    by simp
  with process_byte_delivered show ?case by (rule prefix_order.trans)
qed simp

lemma run_aligned [inv_intros]:
  "aligned f \<Longrightarrow> utf8_prefix (delivered (foldl process_byte f s)) \<Longrightarrow>
   aligned (foldl process_byte f s)"
proof (induction s arbitrary: f)
  case (Cons c s)
  obtain z where "delivered (foldl process_byte f (c # s)) = delivered (process_byte f c) @ z"
    using delivered_run [of "process_byte f c" s] by (auto simp: prefix_def)
  with Cons.prems(2) have "utf8_prefix (delivered (process_byte f c))"
    by (metis utf8_prefix_appendD)
  with Cons show ?case by (simp add: process_byte_aligned)
qed simp


subsection \<open>Properties\<close>

lemma on_tokens_out:
  "out (foldl on_token f chunks) = out (foldl process_byte f (concat chunks))"
  "delivered (foldl on_token f chunks) = delivered (foldl process_byte f (concat chunks))"
proof -
  obtain r where "foldl on_token f chunks = (foldl process_byte f (concat chunks))\<lparr>raw_out := r\<rparr>"
    using on_tokens_process by blast
  then show "out (foldl on_token f chunks) = out (foldl process_byte f (concat chunks))"
    "delivered (foldl on_token f chunks) = delivered (foldl process_byte f (concat chunks))"
    by simp_all
qed

text \<open>A text with reasoning blocks: pieces of reply, each followed by a delimited block.\<close>

fun with_blocks :: "string \<Rightarrow> string \<Rightarrow> (string \<times> string) list \<Rightarrow> string \<Rightarrow> string" where
  "with_blocks om cm [] post = post"
| "with_blocks om cm ((text, body) # rest) post =
     text @ om @ body @ cm @ with_blocks om cm rest post"

lemma scan_with_blocks:
  assumes m: "proper_markers om cm"
    and bs: "\<forall>(t, b) \<in> set blocks. settles (new_filter om cm) [] t \<and> settles (new_filter om cm) [] b"
    and post: "settles (new_filter om cm) [] post"
  shows "scan (new_filter om cm) False [] (with_blocks om cm blocks post) = concat (map fst blocks) @ post"
  using bs
proof (induction blocks)
  case Nil
  then show ?case using scan_settles [OF post, of False "[]"] by simp
next
  case (Cons tb blocks)
  obtain t b where tb: "tb = (t, b)" by (cases tb)
  with Cons.prems have t: "settles (new_filter om cm) [] t" and b: "settles (new_filter om cm) [] b"
    by auto
  from Cons show ?case
    by (simp add: tb scan_settles [OF t] scan_settles [OF b] scan_open [OF m] scan_close [OF m])
qed

text \<open>
  Claim C15. However the transport splits the token stream into chunks, what the consumer sees
  between the first token and the final flush is one left-to-right scan of the concatenated
  stream: the incremental state machine, its tag buffer and its UTF-8 buffer are equivalent
  to the reference scan, and no visible byte is lost, duplicated or reordered.
\<close>

theorem filter_is_scan:
  "visible f chunks = delivered f @ scan f (in_think f) (tag_buf f) (concat chunks)"
  by (rule visible_scan)

text \<open>
  Claim C14. Reasoning is stripped and nothing else: for a family's delimiters (non-empty, neither
  a prefix of the other) a stream of reply pieces with delimited reasoning blocks between them
  reaches the consumer as exactly the reply pieces, in any chunking, provided each piece and each
  block body settles (completes no delimiter itself and leaves no partial tag behind).
\<close>

theorem filter_strips_blocks:
  assumes "proper_markers om cm"
    and "\<forall>(t, b) \<in> set blocks. settles (new_filter om cm) [] t \<and> settles (new_filter om cm) [] b"
    and "settles (new_filter om cm) [] post"
    and "concat chunks = with_blocks om cm blocks post"
  shows "visible (new_filter om cm) chunks = concat (map fst blocks) @ post"
  using assms by (simp add: visible_new_filter scan_with_blocks)

theorem filter_strips_blocks_witness:
  "visible (new_filter ''<think>'' ''</think>'')
     [''ok <th'', ''ink>why</thi'', ''nk> done''] = ''ok  done''"
  using filter_strips_blocks [of "''<think>''" "''</think>''" "[(''ok '', ''why'')]" "'' done''"
      "[''ok <th'', ''ink>why</thi'', ''nk> done'']"]
  by (simp add: proper_markers_def starts_tag_def marker_head_def new_filter_def)

text \<open>
  Code point alignment: as long as the bytes let through so far are the beginning of
  well-formed UTF-8 (lead byte by lead byte), every chunk already handed to the consumer's
  callback consists of whole code points, although tokens may split them anywhere.
\<close>

lemma filter_chunks_aligned:
  assumes "utf8_prefix (delivered (foldl on_token (new_filter om cm) chunks))"
  shows "list_all utf8_complete (out (foldl on_token (new_filter om cm) chunks))"
proof -
  have "aligned (new_filter om cm)"
    by (simp add: aligned_def new_filter_def partial_cp_def)
  with assms have "aligned (foldl process_byte (new_filter om cm) (concat chunks))"
    by (simp add: on_tokens_out run_aligned)
  then show ?thesis by (simp add: on_tokens_out aligned_def)
qed

lemma filter_chunks_aligned_witness:
  "list_all utf8_complete (out (foldl on_token (new_filter ''<think>'' ''</think>'')
     [''a'' @ [CHR 0xC3], [CHR 0xA9] @ ''b'']))"
proof -
  have "utf8_prefix (delivered (foldl on_token (new_filter ''<think>'' ''</think>'')
     [''a'' @ [CHR 0xC3], [CHR 0xA9] @ ''b'']))"
    by code_simp
  then show ?thesis by (rule filter_chunks_aligned)
qed

text \<open>
  The tag buffer does not restart when a delimiter begins inside it. A \<open>'<'\<close> up to seven bytes
  before the opening delimiter makes the filter miss it: the reasoning reaches the consumer.
\<close>

lemma filter_misses_delimiter:
  "visible default_filter [''a<b <think>secret</think>ok''] = ''a<b <think>secretok''"
  by code_simp

end
