(* ===== verification/Tool_Results.thy ===== *)
theory Tool_Results
  imports Access_Control
begin

text \<open>
  What happens to a tool's result on its way into the conversation: the ring buffer of recent
  calls (\<open>src/mcp/tool_call_history.cpp\<close>) and the classification and truncation of result
  text (\<open>src/mcp/tool_result_classify.cpp\<close>).
\<close>

subsection \<open>Tool call history\<close>

text \<open>The buffer only moves its records, so their type is a parameter.\<close>

record 'r history =
  buffer :: "'r list"
  head :: nat
  count :: nat
  capacity :: nat

definition new_history :: "'r \<Rightarrow> nat \<Rightarrow> 'r history" where
  "new_history blank cap = \<lparr>buffer = replicate cap blank, head = 0, count = 0, capacity = cap\<rparr>"

definition record_call :: "'r history \<Rightarrow> 'r \<Rightarrow> 'r history" where
  "record_call h entry =
     h\<lparr>buffer := (buffer h)[head h := entry],
       head := (head h + 1) mod capacity h,
       count := (if count h < capacity h then count h + 1 else count h)\<rparr>"

definition recent :: "'r history \<Rightarrow> nat \<Rightarrow> 'r list" where
  "recent h n =
     map (\<lambda>i. buffer h ! ((head h + capacity h - 1 - i) mod capacity h)) [0..<min n (count h)]"

definition all_calls :: "'r history \<Rightarrow> 'r list" where
  "all_calls h =
     (let start = (if count h < capacity h then 0 else head h)
      in map (\<lambda>i. buffer h ! ((start + i) mod capacity h)) [0..<count h])"

definition history_size :: "'r history \<Rightarrow> nat" where
  "history_size h = count h"

definition history_to_json :: "('r \<Rightarrow> json) \<Rightarrow> (json \<Rightarrow> string) \<Rightarrow> 'r history \<Rightarrow> nat \<Rightarrow> string" where
  "history_to_json record_to_json dump h n =
     (let entries = (if n = 0 then all_calls h else recent h n)
      in dump (JArray (map record_to_json entries)))"

definition history_inv :: "'r history \<Rightarrow> bool" where
  "history_inv h \<longleftrightarrow> 0 < capacity h \<and> length (buffer h) = capacity h \<and> head h < capacity h \<and>
     count h \<le> capacity h \<and> (count h < capacity h \<longrightarrow> head h = count h)"

text \<open>A log that keeps the last \<open>cap\<close> entries pushed into it.\<close>

definition last_n :: "nat \<Rightarrow> 'a list \<Rightarrow> 'a list" where
  "last_n n xs = drop (length xs - n) xs"

locale bounded_log =
  fixes push :: "'h \<Rightarrow> 'r \<Rightarrow> 'h"
    and contents :: "'h \<Rightarrow> 'r list"
    and cap :: "'h \<Rightarrow> nat"
    and inv :: "'h \<Rightarrow> bool"
  assumes push_inv: "inv h \<Longrightarrow> inv (push h e)"
    and push_cap: "cap (push h e) = cap h"
    and push_contents: "inv h \<Longrightarrow> contents (push h e) = last_n (cap h) (contents h @ [e])"
    and contents_bound: "inv h \<Longrightarrow> length (contents h) \<le> cap h"
begin

lemma last_n_twice: "last_n n (last_n n xs @ ys) = last_n n (xs @ ys)"
  by (cases "n \<le> length xs") (auto simp: last_n_def add.commute)

lemma run_inv: "inv h \<Longrightarrow> inv (foldl push h es)"
  by (induction es arbitrary: h) (simp_all add: push_inv)

lemma run_contents: "inv h \<Longrightarrow> contents (foldl push h es) = last_n (cap h) (contents h @ es)"
proof (induction es arbitrary: h)
  case Nil
  then show ?case using contents_bound [of h] by (simp add: last_n_def)
next
  case (Cons e es)
  then have "contents (foldl push h (e # es)) = last_n (cap h) (contents (push h e) @ es)"
    by (simp add: push_inv push_cap)
  also have "\<dots> = last_n (cap h) (contents h @ e # es)"
    using Cons.prems by (simp add: push_contents last_n_twice)
  finally show ?case .
qed

end

lemma new_history_inv [inv_intros]: "0 < cap \<Longrightarrow> history_inv (new_history d cap)"
  by (simp add: history_inv_def new_history_def)

lemma record_call_inv [inv_intros]: "history_inv h \<Longrightarrow> history_inv (record_call h e)"
  by (auto simp: history_inv_def record_call_def mod_Suc)

lemma mod_add_cancel: "i < c \<Longrightarrow> (start + i) mod c = (if start + i < c then start + i else start + i - c)"
  if "start < c" for i c start :: nat
  using that by (simp add: mod_if)

lemma all_calls_not_full:
  "history_inv h \<Longrightarrow> count h < capacity h \<Longrightarrow> all_calls h = take (count h) (buffer h)"
  by (auto simp: all_calls_def history_inv_def intro: nth_equalityI)

lemma all_calls_full:
  assumes "history_inv h" "count h = capacity h"
  shows "all_calls h = drop (head h) (buffer h) @ take (head h) (buffer h)"
proof (rule nth_equalityI)
  have inv: "length (buffer h) = capacity h" "head h < capacity h"
    using assms by (auto simp: history_inv_def)
  then show "length (all_calls h) = length (drop (head h) (buffer h) @ take (head h) (buffer h))"
    using assms by (simp add: all_calls_def Let_def)
  fix i assume "i < length (all_calls h)"
  then have "i < capacity h" using assms by (simp add: all_calls_def Let_def)
  with inv assms show "all_calls h ! i = (drop (head h) (buffer h) @ take (head h) (buffer h)) ! i"
    by (auto simp: all_calls_def Let_def nth_append mod_add_cancel add.commute)
qed

lemma take_Suc_update: "k < length xs \<Longrightarrow> take (Suc k) (xs[k := e]) = take k xs @ [e]"
  by (simp add: take_Suc_conv_app_nth)

lemma record_call_contents:
  assumes "history_inv h"
  shows "all_calls (record_call h e) = last_n (capacity h) (all_calls h @ [e])"
proof -
  have inv: "length (buffer h) = capacity h" "head h < capacity h" "0 < capacity h"
    "count h \<le> capacity h" using assms by (auto simp: history_inv_def)
  let ?h = "record_call h e"
  have inv': "history_inv ?h" using assms by (rule record_call_inv)
  consider "count h < capacity h" "Suc (count h) < capacity h"
    | "count h < capacity h" "Suc (count h) = capacity h" | "count h = capacity h"
    using inv(4) by linarith
  then show ?thesis
  proof cases
    case 1
    have "all_calls ?h = take (Suc (count h)) ((buffer h)[count h := e])"
      using assms inv' 1 by (subst all_calls_not_full) (auto simp: record_call_def history_inv_def)
    also have "\<dots> = take (count h) (buffer h) @ [e]"
      using inv 1 by (simp add: take_Suc_update)
    also have "\<dots> = last_n (capacity h) (all_calls h @ [e])"
      using assms 1 inv by (simp add: all_calls_not_full last_n_def)
    finally show ?thesis .
  next
    case 2
    have hd: "head h = count h" using assms 2 by (simp add: history_inv_def)
    have "all_calls ?h = (buffer h)[count h := e]"
      using inv' 2 hd by (subst all_calls_full) (auto simp: record_call_def)
    also have "\<dots> = take (count h) (buffer h) @ [e]"
      using inv 2 by (simp add: upd_conv_take_nth_drop)
    also have "\<dots> = last_n (capacity h) (all_calls h @ [e])"
      using assms 2 inv by (simp add: all_calls_not_full last_n_def)
    finally show ?thesis .
  next
    case 3
    have old: "all_calls h = drop (head h) (buffer h) @ take (head h) (buffer h)"
      using assms 3 by (rule all_calls_full)
    have new: "all_calls ?h = drop (head ?h) (buffer ?h) @ take (head ?h) (buffer ?h)"
      using inv' 3 by (intro all_calls_full) (auto simp: record_call_def)
    have "last_n (capacity h) (all_calls h @ [e])
        = tl (drop (head h) (buffer h) @ take (head h) (buffer h)) @ [e]"
      using inv 3 by (simp add: old last_n_def drop_Suc tl_drop)
    also have "\<dots> = drop (Suc (head h)) (buffer h) @ take (head h) (buffer h) @ [e]"
      using inv by (simp add: drop_Suc tl_drop tl_append split: list.split)
         (metis drop_eq_Nil leD list.distinct(1) tl_drop drop_Suc list.sel(3))
    also have "\<dots> = all_calls ?h"
    proof (cases "Suc (head h) = capacity h")
      case True
      with new inv show ?thesis
        by (simp add: record_call_def upd_conv_take_nth_drop)
    next
      case False
      with new inv show ?thesis
        by (simp add: record_call_def take_Suc_update)
    qed
    finally show ?thesis by simp
  qed
qed

interpretation ring: bounded_log record_call all_calls capacity history_inv
proof
  fix h :: "'a history" and e :: 'a
  show "history_inv h \<Longrightarrow> history_inv (record_call h e)" by (rule record_call_inv)
  show "capacity (record_call h e) = capacity h" by (simp add: record_call_def)
  show "history_inv h \<Longrightarrow> all_calls (record_call h e) = last_n (capacity h) (all_calls h @ [e])"
    by (rule record_call_contents)
  show "history_inv h \<Longrightarrow> length (all_calls h) \<le> capacity h"
    by (simp add: all_calls_def Let_def history_inv_def)
qed

lemma recent_all_calls:
  assumes "history_inv h"
  shows "recent h n = take n (rev (all_calls h))"
proof (rule nth_equalityI)
  have inv: "head h < capacity h" "0 < capacity h" "count h \<le> capacity h"
    "count h < capacity h \<longrightarrow> head h = count h" using assms by (auto simp: history_inv_def)
  have len: "length (all_calls h) = count h" by (simp add: all_calls_def Let_def)
  then show "length (recent h n) = length (take n (rev (all_calls h)))"
    by (simp add: recent_def)
  fix i assume "i < length (recent h n)"
  then have i: "i < n" "i < count h" by (simp_all add: recent_def)
  have idx: "(head h + capacity h - 1 - i) mod capacity h =
      ((if count h < capacity h then 0 else head h) + (count h - Suc i)) mod capacity h"
  proof (cases "count h < capacity h")
    case True
    with inv i have "head h + capacity h - 1 - i = (count h - Suc i) + capacity h" by linarith
    then show ?thesis using True by simp
  next
    case False
    with inv i show ?thesis by simp
  qed
  have "take n (rev (all_calls h)) ! i = all_calls h ! (count h - Suc i)"
    using i len by (simp add: rev_nth)
  also have "\<dots> = recent h n ! i"
    using i idx by (simp add: all_calls_def recent_def Let_def)
  finally show "recent h n ! i = take n (rev (all_calls h)) ! i" by simp
qed


subsection \<open>Summaries\<close>

definition truncate_result :: "string \<Rightarrow> nat \<Rightarrow> string" where
  "truncate_result text max_len =
     (if length text \<le> max_len then text else take max_len text @ ''...'')"

text \<open>The parameter keys of a call, joined with commas; text that is no JSON object is returned as it is.\<close>

fun join_keys :: "string \<Rightarrow> (string \<times> json) list \<Rightarrow> string" where
  "join_keys result [] = result"
| "join_keys result ((k, v) # kvs) =
     join_keys ((if result \<noteq> [] then result @ '', '' else result) @ k) kvs"

definition summarize_params :: "(string \<Rightarrow> json option) \<Rightarrow> string \<Rightarrow> string" where
  "summarize_params parse args_json =
     (case parse args_json of
        Some (JObject kvs) \<Rightarrow> join_keys [] kvs
      | _ \<Rightarrow> args_json)"

subsection \<open>Classification and truncation of result text\<close>

definition starts_with_ci :: "string \<Rightarrow> string \<Rightarrow> bool" where
  "starts_with_ci s pre \<longleftrightarrow>
     length pre \<le> length s \<and> list_all2 (\<lambda>a b. c_tolower a = c_tolower b) (take (length pre) s) pre"

definition ltrim :: "string \<Rightarrow> string" where
  "ltrim s = dropWhile c_isspace s"

definition is_effectively_empty :: "string \<Rightarrow> bool" where
  "is_effectively_empty s = list_all c_isspace s"

definition starts_with_json_error :: "string \<Rightarrow> bool" where
  "starts_with_json_error trimmed =
     (case trimmed of
        [] \<Rightarrow> False
      | c # _ \<Rightarrow> c = CHR ''{'' \<and>
          (case find_str ([CHR 0x22] @ ''error'' @ [CHR 0x22]) trimmed of
             None \<Rightarrow> False | Some pos \<Rightarrow> pos < 32))"

definition looks_like_tool_error :: "string \<Rightarrow> bool" where
  "looks_like_tool_error text =
     (let trimmed = ltrim text in
      starts_with_ci trimmed ''error'' \<or> starts_with_ci trimmed ''[error]'' \<or>
      starts_with_json_error trimmed)"

definition truncation_tail :: "nat \<Rightarrow> string" where
  "truncation_tail lost =
     [CHR 0x0A] @ ''[... truncated, '' @ to_string_nat lost @ '' more bytes]''"

definition truncate_to_cap :: "string \<Rightarrow> int \<Rightarrow> string" where
  "truncate_to_cap text cap =
     (if cap \<le> 0 then text
      else
        let cap_sz = nat cap in
        if length text \<le> cap_sz then text
        else
          let lost = length text - cap_sz;
              tail = truncation_tail lost;
              keep = (if cap_sz > length tail then cap_sz - length tail else 0)
          in take keep text @ tail)"

lemma length_to_string_nat_le: "length (to_string_nat n) \<le> Suc n"
proof (induction n rule: to_string_nat.induct)
  case (1 n)
  show ?case
  proof (cases "n < 10")
    case False
    with 1 have "length (to_string_nat (n div 10)) \<le> Suc (n div 10)" by simp
    with False show ?thesis by (subst to_string_nat.simps) simp
  qed (subst to_string_nat.simps, simp)
qed

lemma truncate_to_cap_cut:
  assumes "0 < cap" "nat cap < length text"
  shows "truncate_to_cap text cap =
    take (nat cap - length (truncation_tail (length text - nat cap))) text @
    truncation_tail (length text - nat cap)"
  using assms by (simp add: truncate_to_cap_def Let_def)

subsection \<open>Properties\<close>

text \<open>
  Claim C19. The ring buffer is a log of the last \<open>capacity\<close> tool calls: after any sequence of
  calls on a fresh history of positive capacity, \<open>all\<close> lists exactly the most recent ones in
  order, \<open>recent(n)\<close> the newest \<open>n\<close> of them newest first, and the reported size is their number,
  although the entries wrap around in a fixed array.
\<close>

theorem history_keeps_last_calls:
  assumes "0 < cap"
  shows "all_calls (foldl record_call (new_history d cap) calls) = last_n cap calls \<and>
    recent (foldl record_call (new_history d cap) calls) n = take n (rev (last_n cap calls)) \<and>
    history_size (foldl record_call (new_history d cap) calls) = min cap (length calls)"
proof -
  let ?h = "foldl record_call (new_history d cap) calls"
  have inv: "history_inv (new_history d cap)" using assms by (rule new_history_inv)
  have "all_calls (new_history d cap) = []" "capacity (new_history d cap) = cap"
    by (simp_all add: all_calls_def new_history_def)
  then have all: "all_calls ?h = last_n cap calls"
    using ring.run_contents [OF inv, of calls] by simp
  moreover have "recent ?h n = take n (rev (all_calls ?h))"
    by (rule recent_all_calls [OF ring.run_inv [OF inv]])
  moreover have "history_size ?h = length (all_calls ?h)"
    by (simp add: history_size_def all_calls_def Let_def)
  ultimately show ?thesis by (simp add: last_n_def)
qed

theorem history_keeps_last_calls_witness:
  "all_calls (foldl record_call (new_history 0 3) [1, 2, 3, 4, (5::nat)]) = [3, 4, 5] \<and>
   recent (foldl record_call (new_history 0 3) [1, 2, 3, 4, (5::nat)]) 2 = [5, 4]"
  using history_keeps_last_calls [of 3 0 "[1, 2, 3, 4, (5::nat)]" 2] by (simp add: last_n_def)

text \<open>
  Result truncation: a result within the cap (or with the cap disabled) is untouched; a
  longer one becomes a prefix of itself followed by the truncation marker, and its length is
  exactly the cap whenever the cap leaves room for the marker. With a smaller cap the result is
  the marker alone, which is longer than the cap.
\<close>

lemma truncate_to_cap_bound:
  "(cap \<le> 0 \<or> length text \<le> nat cap \<longrightarrow> truncate_to_cap text cap = text) \<and>
   (0 < cap \<and> nat cap < length text \<longrightarrow>
     (\<exists>keep. truncate_to_cap text cap = take keep text @ truncation_tail (length text - nat cap) \<and>
       length (truncate_to_cap text cap) = max (nat cap) (length (truncation_tail (length text - nat cap)))))"
proof (intro conjI impI)
  assume "cap \<le> 0 \<or> length text \<le> nat cap"
  then show "truncate_to_cap text cap = text" by (auto simp: truncate_to_cap_def)
next
  assume "0 < cap \<and> nat cap < length text"
  then show "\<exists>keep. truncate_to_cap text cap = take keep text @ truncation_tail (length text - nat cap) \<and>
       length (truncate_to_cap text cap) = max (nat cap) (length (truncation_tail (length text - nat cap)))"
    by (intro exI conjI) (auto simp: truncate_to_cap_cut max_def)
qed

lemma truncate_to_cap_bound_witness:
  "length (truncate_to_cap (replicate 100 CHR ''x'') 60) = 60"
proof -
  have "length (truncation_tail 40) = 31" by code_simp
  with truncate_to_cap_bound [of 60 "replicate 100 CHR ''x''"] show ?thesis by auto
qed

text \<open>
  The marker counts the bytes above the cap, not the bytes removed: the bytes given up to make
  room for the marker itself are missing from the count it shows.
\<close>

lemma truncate_to_cap_undercounts:
  "truncate_to_cap (replicate 100 CHR ''x'') 60 =
     replicate 29 CHR ''x'' @ [CHR 0x0A] @ ''[... truncated, 40 more bytes]''"
  by code_simp

lemma truncate_to_cap_exceeds: "length (truncate_to_cap (replicate 100 CHR ''x'') 10) = 31"
  by code_simp

end
