(* ===== verification/External_Client.thy ===== *)
theory External_Client
  imports Json Tool_Results
begin

text \<open>
  The JSON-RPC client of one external MCP server (\<open>src/mcp/external_client.cpp\<close>). The transport
  behind it (\<open>include/entropic/mcp/transport.h\<close>) is a record of functions over the outside world:
  a request goes out, a response text or nothing comes back. The JSON library is the pair
  \<open>parse\<close>, \<open>dump\<close>; \<open>what\<close> gives the text of the exception the library throws on a response.
\<close>

subsection \<open>State\<close>

record 'w transport =
  t_open :: "'w \<Rightarrow> 'w \<times> bool"
  t_close :: "'w \<Rightarrow> 'w"
  t_send :: "'w \<Rightarrow> string \<Rightarrow> nat \<Rightarrow> 'w \<times> string"
  t_connected :: "'w \<Rightarrow> bool"
  t_interrupt :: "'w \<Rightarrow> 'w"
  t_clear_interrupt :: "'w \<Rightarrow> 'w"
  t_interrupted :: "'w \<Rightarrow> bool"

text \<open>\<open>next_id_\<close> is an \<open>std::atomic<int>\<close>: it wraps around at \<open>2\<^sup>3\<^sup>1\<close>.\<close>

record 'w client =
  client_name :: string
  transport :: "'w transport"
  cached_tools_json :: string
  cached_tool_names :: "string list"
  next_id :: int
  init_timeout_ms :: nat

definition new_client :: "string \<Rightarrow> 'w transport \<Rightarrow> 'w client" where
  "new_client name t = \<lparr>client_name = name, transport = t, cached_tools_json = [],
     cached_tool_names = [], next_id = 1, init_timeout_ms = 10000\<rparr>"

definition DEFAULT_TIMEOUT_MS :: nat where
  "DEFAULT_TIMEOUT_MS = 30000"

definition set_init_timeout_ms :: "nat \<Rightarrow> 'w client \<Rightarrow> 'w client" where
  "set_init_timeout_ms ms cl = (if ms > 0 then cl\<lparr>init_timeout_ms := ms\<rparr> else cl)"

definition is_connected :: "'w client \<Rightarrow> 'w \<Rightarrow> bool" where
  "is_connected cl w = t_connected (transport cl) w"

definition client_list_tools :: "'w client \<Rightarrow> string" where
  "client_list_tools cl = cached_tools_json cl"

definition disconnect :: "'w client \<Rightarrow> 'w \<Rightarrow> 'w client \<times> 'w" where
  "disconnect cl w =
     (cl\<lparr>cached_tools_json := ''[]'', cached_tool_names := []\<rparr>, t_close (transport cl) w)"

subsection \<open>Requests and responses\<close>

definition build_request_id ::
  "(string \<Rightarrow> json option) \<Rightarrow> (json \<Rightarrow> string) \<Rightarrow> 'w client \<Rightarrow> string \<Rightarrow> string \<Rightarrow> 'w client \<times> string \<times> int" where
  "build_request_id parse dump cl method params =
     (let id = next_id cl;
          p = (case parse params of None \<Rightarrow> JObject [] | Some j \<Rightarrow> j)
      in (cl\<lparr>next_id := to_int32 (id + 1)\<rparr>,
          dump (JObject [(''id'', JNum id), (''jsonrpc'', JString ''2.0''), (''method'', JString method),
                         (''params'', p)]),
          id))"

definition response_matches :: "(string \<Rightarrow> json option) \<Rightarrow> string \<Rightarrow> int \<Rightarrow> bool" where
  "response_matches parse response expected =
     (case parse response of
        Some (JObject kvs) \<Rightarrow>
          (case map_of kvs ''id'' of
             Some (JString s) \<Rightarrow> s = to_string_int expected
           | Some (JNum i) \<Rightarrow> to_int32 i = expected
           | _ \<Rightarrow> False)
      | _ \<Rightarrow> False)"

definition response_envelope :: "string \<Rightarrow> bool \<Rightarrow> json" where
  "response_envelope text is_error =
     (if is_error then JObject [(''directives'', JArray []), (''is_error'', JBool True), (''result'', JString text)]
      else response_json text [])"

definition build_response :: "(json \<Rightarrow> string) \<Rightarrow> string \<Rightarrow> bool \<Rightarrow> string" where
  "build_response dump text is_error = dump (response_envelope text is_error)"

definition empty_response_envelope :: "(json \<Rightarrow> string) \<Rightarrow> 'w client \<Rightarrow> 'w \<Rightarrow> string \<Rightarrow> string" where
  "empty_response_envelope dump cl w tool_name =
     (let tool = ''Error: tool '' @ squoted (client_name cl @ ''.'' @ tool_name) in
      if t_interrupted (transport cl) w
      then build_response dump (tool @ '' was not attempted '' @ em_dash @ '' the transport is interrupted. '' @
        ''The interrupt is released at the start of the next run.'') True
      else build_response dump (tool @ '' timed out or the transport failed.'') True)"

definition mismatched_response_envelope :: "(json \<Rightarrow> string) \<Rightarrow> 'w client \<Rightarrow> string \<Rightarrow> string" where
  "mismatched_response_envelope dump cl tool_name =
     build_response dump (''Error: tool '' @ squoted (client_name cl @ ''.'' @ tool_name) @
       '' got a response that did not answer it (JSON-RPC id mismatch). '' @
       ''The transport had a stale reply queued from an abandoned request; '' @
       ''it has been discarded. Retry the call.'') True"

definition response_problem ::
  "(string \<Rightarrow> json option) \<Rightarrow> (json \<Rightarrow> string) \<Rightarrow> 'w client \<Rightarrow> 'w \<Rightarrow> string \<Rightarrow> string \<Rightarrow> int \<Rightarrow> string option" where
  "response_problem parse dump cl w tool_name response expected =
     (if response = [] then Some (empty_response_envelope dump cl w tool_name)
      else if \<not> response_matches parse response expected
      then Some (mismatched_response_envelope dump cl tool_name)
      else None)"

subsection \<open>Tool calls\<close>

fun concat_text_items :: "json list \<Rightarrow> string option" where
  "concat_text_items [] = Some []"
| "concat_text_items (item # items) =
     (case json_value get_string item ''type'' [] of
        None \<Rightarrow> None
      | Some t \<Rightarrow>
          if t \<noteq> ''text'' then concat_text_items items
          else (case json_get_string item ''text'' of
                  None \<Rightarrow> None
                | Some x \<Rightarrow> map_option ((@) x) (concat_text_items items)))"

definition result_text :: "json \<Rightarrow> string option" where
  "result_text j =
     (if json_contains j ''error''
      then (case json_at j ''error'' of
              Some e \<Rightarrow> map_option (\<lambda>m. ''Error: '' @ m) (json_get_string e ''message'')
            | None \<Rightarrow> None)
      else case json_at j ''result'' of
             None \<Rightarrow> None
           | Some result \<Rightarrow>
               (case json_at result ''content'' of
                  None \<Rightarrow> None
                | Some items \<Rightarrow>
                    (case (concat_text_items (json_elements items), json_value get_bool result ''isError'' False) of
                       (Some text, Some err) \<Rightarrow> Some (if err then ''Error: '' @ text else text)
                     | _ \<Rightarrow> None)))"

definition extract_tool_result ::
  "(string \<Rightarrow> json option) \<Rightarrow> (string \<Rightarrow> string) \<Rightarrow> string \<Rightarrow> string" where
  "extract_tool_result parse what response =
     (case Option.bind (parse response) result_text of
        Some text \<Rightarrow> text
      | None \<Rightarrow> ''Error parsing response: '' @ what response)"

definition client_execute ::
  "(string \<Rightarrow> json option) \<Rightarrow> (json \<Rightarrow> string) \<Rightarrow> (string \<Rightarrow> string) \<Rightarrow>
   'w client \<Rightarrow> 'w \<Rightarrow> string \<Rightarrow> string \<Rightarrow> 'w client \<times> 'w \<times> string" where
  "client_execute parse dump what cl w tool_name args_json =
     (if \<not> is_connected cl w then
        (cl, w, build_response dump (''Error: server '' @ squoted (client_name cl) @ '' is disconnected. Tool '' @
           squoted (client_name cl @ ''.'' @ tool_name) @ '' unavailable.'') True)
      else
        let args = (case parse args_json of None \<Rightarrow> JObject [] | Some j \<Rightarrow> j);
            params = dump (JObject [(''arguments'', args), (''name'', JString tool_name)]);
            (cl1, request, id) = build_request_id parse dump cl ''tools/call'' params;
            (w1, response) = t_send (transport cl) w request DEFAULT_TIMEOUT_MS
        in (cl1, w1,
            case response_problem parse dump cl1 w1 tool_name response id of
              Some problem \<Rightarrow> problem
            | None \<Rightarrow> build_response dump (extract_tool_result parse what response) False))"

subsection \<open>Connecting and the tool list\<close>

definition validate_init_response :: "(string \<Rightarrow> json option) \<Rightarrow> string \<Rightarrow> bool" where
  "validate_init_response parse response =
     (case parse response of None \<Rightarrow> False | Some j \<Rightarrow> \<not> json_contains j ''error'')"

definition send_initialize ::
  "(string \<Rightarrow> json option) \<Rightarrow> (json \<Rightarrow> string) \<Rightarrow> 'w client \<Rightarrow> 'w \<Rightarrow> 'w client \<times> 'w \<times> bool" where
  "send_initialize parse dump cl w =
     (let params = dump (JObject [(''capabilities'', JObject []),
            (''clientInfo'', JObject [(''name'', JString ''entropic''), (''version'', JString ''1.8.7'')]),
            (''protocolVersion'', JString ''2024-11-05'')]);
          (cl1, request, id) = build_request_id parse dump cl ''initialize'' params;
          (w1, response) = t_send (transport cl) w request (init_timeout_ms cl)
      in (cl1, w1, if response = [] \<or> \<not> response_matches parse response id then False
                   else validate_init_response parse response))"

text \<open>One descriptor of \<open>tools/list\<close>: its name gets the server's prefix.\<close>

definition prefix_tool :: "string \<Rightarrow> json \<Rightarrow> (json \<times> string) option" where
  "prefix_tool server tool =
     (case tool of
        JObject kvs \<Rightarrow>
          (case map_of kvs ''name'' of
             Some (JString orig) \<Rightarrow>
               let full = server @ ''.'' @ orig in Some (JObject (omap_put ''name'' (JString full) kvs), full)
           | _ \<Rightarrow> None)
      | _ \<Rightarrow> None)"

definition prefix_tools :: "string \<Rightarrow> json \<Rightarrow> (json \<times> string list) option" where
  "prefix_tools server tools =
     (case tools of
        JArray xs \<Rightarrow> map_option (\<lambda>ps. (JArray (map fst ps), map snd ps)) (get_all (prefix_tool server) xs)
      | JObject kvs \<Rightarrow> map_option (\<lambda>ps. (JObject (zip (map fst kvs) (map fst ps)), map snd ps))
                        (get_all (prefix_tool server) (map snd kvs))
      | JNull \<Rightarrow> Some (JNull, [])
      | _ \<Rightarrow> None)"

definition query_tools ::
  "(string \<Rightarrow> json option) \<Rightarrow> (json \<Rightarrow> string) \<Rightarrow> 'w client \<Rightarrow> 'w \<Rightarrow> 'w client \<times> 'w \<times> bool" where
  "query_tools parse dump cl w =
     (let (cl1, request, id) = build_request_id parse dump cl ''tools/list'' ''{}'';
          (w1, response) = t_send (transport cl) w request (init_timeout_ms cl)
      in if response = [] \<or> \<not> response_matches parse response id then (cl1, w1, False)
         else case Option.bind (parse response) (\<lambda>j. Option.bind (json_at j ''result'')
                (\<lambda>r. Option.bind (json_at r ''tools'') (prefix_tools (client_name cl)))) of
                None \<Rightarrow> (cl1, w1, False)
              | Some (tools, names) \<Rightarrow>
                  (cl1\<lparr>cached_tools_json := dump tools, cached_tool_names := names\<rparr>, w1, True))"

definition connect ::
  "(string \<Rightarrow> json option) \<Rightarrow> (json \<Rightarrow> string) \<Rightarrow> 'w client \<Rightarrow> 'w \<Rightarrow> 'w client \<times> 'w \<times> bool" where
  "connect parse dump cl w =
     (case t_open (transport cl) w of
        (w1, False) \<Rightarrow> (cl, w1, False)
      | (w1, True) \<Rightarrow>
          (case send_initialize parse dump cl w1 of
             (cl1, w2, False) \<Rightarrow> (cl1, t_close (transport cl) w2, False)
           | (cl1, w2, True) \<Rightarrow>
               (case query_tools parse dump cl1 w2 of (cl2, w3, _) \<Rightarrow> (cl2, w3, True))))"

text \<open>\<open>std::set\<close> iterates in order; \<open>names_diff\<close> is the sorted difference.\<close>

definition names_diff :: "string list \<Rightarrow> string list \<Rightarrow> string list" where
  "names_diff a b = filter (\<lambda>x. x \<notin> set b) (sort (remdups a))"

definition refresh_tools ::
  "(string \<Rightarrow> json option) \<Rightarrow> (json \<Rightarrow> string) \<Rightarrow> 'w client \<Rightarrow> 'w \<Rightarrow>
   'w client \<times> 'w \<times> string list \<times> string list" where
  "refresh_tools parse dump cl w =
     (case query_tools parse dump cl w of (cl1, w1, _) \<Rightarrow>
        (cl1, w1, names_diff (cached_tool_names cl1) (cached_tool_names cl),
                  names_diff (cached_tool_names cl) (cached_tool_names cl1)))"

subsection \<open>Lemmas\<close>

lemma error_text_classified: "looks_like_tool_error (''Error'' @ s)"
proof -
  have "list_all2 (\<lambda>a b. c_tolower a = c_tolower b) ''Error'' ''error''" by code_simp
  then have "starts_with_ci (''Error'' @ s) ''error''" by (simp add: starts_with_ci_def)
  then show ?thesis by (simp add: looks_like_tool_error_def ltrim_def c_isspace_def Let_def)
qed

lemma response_problem_cases:
  assumes "response_problem parse dump cl w tool resp n = r"
  shows "case r of
      Some out \<Rightarrow> \<exists>t. out = build_response dump t True \<and> looks_like_tool_error t
    | None \<Rightarrow> resp \<noteq> [] \<and> response_matches parse resp n"
  using assms error_text_classified
  by (auto simp: response_problem_def empty_response_envelope_def mismatched_response_envelope_def Let_def
      split: if_splits option.splits)

lemma client_execute_envelope:
  "\<exists>t b. snd (snd (client_execute parse dump what cl w tool args)) = build_response dump t b"
  by (auto simp: client_execute_def Let_def split: prod.split option.splits
      dest!: response_problem_cases) blast+

lemma build_request_id_result:
  "build_request_id parse dump cl m p = (cl', req, i) \<Longrightarrow> i = next_id cl"
  "build_request_id parse dump cl m p = (cl', req, i) \<Longrightarrow> cl' = cl\<lparr>next_id := to_int32 (next_id cl + 1)\<rparr>"
  by (auto simp: build_request_id_def Let_def)

lemma to_int32_succ_neq: "to_int32 (i + 1) \<noteq> i"
proof
  assume "to_int32 (i + 1) = i"
  then have "(i + 2 ^ 31 + 1) mod 2 ^ 32 = i + 2 ^ 31" by (simp add: to_int32_def algebra_simps)
  moreover define k where "k = i + 2 ^ 31"
  ultimately have k: "(k + 1) mod 2 ^ 32 = k" by simp
  then have "0 \<le> k" "k < 2 ^ 32" using pos_mod_bound [of "2 ^ 32" "k + 1"] pos_mod_sign [of "2 ^ 32" "k + 1"] by auto
  with k show False by (cases "k + 1 = 2 ^ 32") (auto simp: mod_pos_pos_trivial)
qed

lemma set_names_diff: "set (names_diff a b) = set a - set b"
  by (auto simp: names_diff_def)

lemma prefix_tool_name: "prefix_tool server tool = Some (j, full) \<Longrightarrow>
    json_get_string j ''name'' = Some full \<and> starts_with (server @ ''.'') full"
  by (auto simp: prefix_tool_def json_get_string_def Let_def starts_with_def split: json.splits option.splits)

subsection \<open>Properties\<close>

text \<open>
  A tool result is an answer to the request it is returned for: whatever the transport
  delivers, the text handed back either is marked as an error the engine's classifier recognises,
  or is extracted from a response that carries the id of this very request; and the id is not
  reused by the next request.
\<close>

lemma client_result_answers_request:
  "case client_execute parse dump what cl w tool args of (cl', w', out) \<Rightarrow>
     (\<exists>t err. out = build_response dump t err \<and>
       (looks_like_tool_error t \<or>
        is_connected cl w \<and> next_id cl' \<noteq> next_id cl \<and>
        (\<exists>request response. t_send (transport cl) w request DEFAULT_TIMEOUT_MS = (w', response) \<and>
           response_matches parse response (next_id cl) \<and>
           t = extract_tool_result parse what response)))"
proof (cases "is_connected cl w")
  case False
  then show ?thesis
    unfolding client_execute_def using error_text_classified by (simp, intro exI conjI) auto
next
  case True
  let ?p = "dump (JObject [(''arguments'', case parse args of None \<Rightarrow> JObject [] | Some j \<Rightarrow> j), (''name'', JString tool)])"
  obtain cl1 request i where r: "build_request_id parse dump cl ''tools/call'' ?p = (cl1, request, i)"
    by (cases "build_request_id parse dump cl ''tools/call'' ?p")
  obtain w1 response where t: "t_send (transport cl) w request DEFAULT_TIMEOUT_MS = (w1, response)"
    by fastforce
  have i: "i = next_id cl" "next_id cl1 \<noteq> next_id cl"
    using build_request_id_result [OF r] to_int32_succ_neq by auto
  have e: "client_execute parse dump what cl w tool args =
      (cl1, w1, case response_problem parse dump cl1 w1 tool response i of
         Some problem \<Rightarrow> problem
       | None \<Rightarrow> build_response dump (extract_tool_result parse what response) False)"
    using True r t by (simp add: client_execute_def Let_def)
  show ?thesis
    using response_problem_cases [of parse dump cl1 w1 tool response i] e i t True
    by (cases "response_problem parse dump cl1 w1 tool response i") auto
qed

end
