(* ===== verification/Mcp_Servers.thy ===== *)
theory Mcp_Servers
  imports Json
begin

text \<open>
  The in-process tool servers: the tool registry (\<open>src/mcp/tool_registry.cpp\<close>), the base class
  every built-in server derives from (\<open>src/mcp/server_base.cpp\<close>) and the wrapper around a server
  loaded from a shared object (\<open>src/mcp/plugin_server.cpp\<close>). A tool's own work is a virtual
  function and a plugin's is behind a C ABI: both are functions over the outside world, and a tool
  may throw (\<^const>\<open>Inl\<close> with the exception's text). The registry's \<open>unordered_map\<close> is an
  association list.
\<close>

subsection \<open>Tools and the registry\<close>

record tool_definition =
  def_name :: string
  description :: string
  input_schema :: string
  output_schema :: string

record server_response =
  result :: string
  directives :: "int list"

record 'w tool =
  tool_def :: tool_definition
  tool_run :: "'w \<Rightarrow> string \<Rightarrow> 'w \<times> (string + server_response)"
  anchor_key :: "string \<Rightarrow> string"
  required_access_level :: mcp_access_level

type_synonym 'w registry = "(string \<times> 'w tool) list"

definition register_tool :: "'w tool option \<Rightarrow> 'w registry \<Rightarrow> 'w registry" where
  "register_tool t reg = (case t of None \<Rightarrow> reg | Some tool \<Rightarrow> AList.update (def_name (tool_def tool)) tool reg)"

definition has_tool :: "'w registry \<Rightarrow> string \<Rightarrow> bool" where
  "has_tool reg name \<longleftrightarrow> map_of reg name \<noteq> None"

definition get_tool :: "'w registry \<Rightarrow> string \<Rightarrow> 'w tool option" where
  "get_tool reg name = map_of reg name"

definition get_definitions :: "'w registry \<Rightarrow> tool_definition list" where
  "get_definitions reg = map (tool_def \<circ> snd) reg"

text \<open>A schema that is no JSON makes the whole listing throw.\<close>

definition tools_array :: "(string \<Rightarrow> json option) \<Rightarrow> 'w registry \<Rightarrow> json list option" where
  "tools_array parse reg = get_all (\<lambda>(n, t).
     map_option (\<lambda>schema. JObject [(''description'', JString (description (tool_def t))),
       (''inputSchema'', schema), (''name'', JString (def_name (tool_def t)))])
       (parse (input_schema (tool_def t)))) reg"

definition get_tools_json :: "(string \<Rightarrow> json option) \<Rightarrow> (json \<Rightarrow> string) \<Rightarrow> 'w registry \<Rightarrow> string option" where
  "get_tools_json parse dump reg = map_option (dump \<circ> JArray) (tools_array parse reg)"

definition dispatch :: "'w registry \<Rightarrow> 'w \<Rightarrow> string \<Rightarrow> string \<Rightarrow> 'w \<times> (string + server_response)" where
  "dispatch reg w name args_json =
     (case map_of reg name of
        None \<Rightarrow> (w, Inr \<lparr>result = ''Error: Unknown tool '' @ squoted name, directives = []\<rparr>)
      | Some tool \<Rightarrow> tool_run tool w args_json)"

subsection \<open>A server\<close>

record 'w mcp_server =
  srv_name :: string
  srv_registry :: "'w registry"
  srv_permission_pattern :: "string \<Rightarrow> string \<Rightarrow> string"
  srv_skip_duplicate :: "string \<Rightarrow> bool"
  srv_set_dir :: "'w \<Rightarrow> string \<Rightarrow> 'w \<times> bool"
  srv_release_session :: "('w \<Rightarrow> string \<Rightarrow> 'w \<times> bool) option"

text \<open>The base class's virtual functions, before a server overrides them.\<close>

definition base_server :: "string \<Rightarrow> 'w mcp_server" where
  "base_server name = \<lparr>srv_name = name, srv_registry = [],
     srv_permission_pattern = (\<lambda>tool_name args_json. tool_name), srv_skip_duplicate = (\<lambda>tool_name. False),
     srv_set_dir = (\<lambda>w path. (w, True)), srv_release_session = None\<rparr>"

definition DIRECTIVE_NAMES :: "string list" where
  "DIRECTIVE_NAMES = [''stop_processing'', ''tier_change'', ''delegate'', ''pipeline'', ''complete'',
     ''clear_self_todos'', ''inject_context'', ''prune_messages'', ''context_anchor'', ''phase_change'',
     ''notify_presenter'']"

definition directive_type_name :: "int \<Rightarrow> string" where
  "directive_type_name i =
     (if i < 0 \<or> i \<ge> int (length DIRECTIVE_NAMES) then ''unknown'' else DIRECTIVE_NAMES ! nat i)"

definition serialize_response :: "(json \<Rightarrow> string) \<Rightarrow> server_response \<Rightarrow> string" where
  "serialize_response dump r =
     dump (response_json (result r)
       (map (\<lambda>d. JObject [(''type'', JString (directive_type_name d))]) (directives r)))"

definition ENTROPIC_DIRECTIVE_CONTEXT_ANCHOR :: int where
  "ENTROPIC_DIRECTIVE_CONTEXT_ANCHOR = 8"

definition inject_anchor_if_needed :: "'w tool \<Rightarrow> string \<Rightarrow> server_response \<Rightarrow> server_response" where
  "inject_anchor_if_needed tool args_json r =
     (if anchor_key tool args_json = [] then r
      else r\<lparr>directives := directives r @ [ENTROPIC_DIRECTIVE_CONTEXT_ANCHOR]\<rparr>)"

definition is_json_space :: "char \<Rightarrow> bool" where
  "is_json_space c \<longleftrightarrow> byte c \<in> {32, 9, 13, 10}"

definition normalize_args :: "(string \<Rightarrow> json option) \<Rightarrow> string \<Rightarrow> string" where
  "normalize_args parse raw =
     (if list_all is_json_space raw then ''{}''
      else if parse raw \<noteq> Some JNull then raw
      else ''{}'')"

definition server_execute ::
  "(string \<Rightarrow> json option) \<Rightarrow> (json \<Rightarrow> string) \<Rightarrow> 'w mcp_server \<Rightarrow> 'w \<Rightarrow> string \<Rightarrow> string \<Rightarrow> 'w \<times> string" where
  "server_execute parse dump srv w tool_name raw_args =
     (let args = normalize_args parse raw_args in
      case dispatch (srv_registry srv) w tool_name args of
        (w', Inl what) \<Rightarrow>
          (w', serialize_response dump
             \<lparr>result = ''Error: tool '' @ squoted (srv_name srv @ ''.'' @ tool_name) @ '' failed: '' @ what,
              directives = []\<rparr>)
      | (w', Inr response) \<Rightarrow>
          (w', serialize_response dump
             (case get_tool (srv_registry srv) tool_name of
                None \<Rightarrow> response
              | Some tool \<Rightarrow> inject_anchor_if_needed tool args response)))"

subsection \<open>Plugins\<close>

record 'w plugin =
  plugin_name :: string
  plugin_path :: string
  abi_list_tools :: "'w \<Rightarrow> string option"
  abi_execute :: "'w \<Rightarrow> string \<Rightarrow> string \<Rightarrow> 'w \<times> string option"
  abi_set_dir :: "'w \<Rightarrow> string \<Rightarrow> 'w \<times> entropic_error"

definition take_string :: "string option \<Rightarrow> string" where
  "take_string raw = (case raw of None \<Rightarrow> [] | Some s \<Rightarrow> s)"

definition plugin_list_tools :: "'w plugin \<Rightarrow> 'w \<Rightarrow> string" where
  "plugin_list_tools p w = (let tools = take_string (abi_list_tools p w) in if tools = [] then ''[]'' else tools)"

definition plugin_execute :: "'w plugin \<Rightarrow> 'w \<Rightarrow> string \<Rightarrow> string \<Rightarrow> 'w \<times> string" where
  "plugin_execute p w tool_name args_json =
     (case abi_execute p w tool_name args_json of (w', raw) \<Rightarrow> (w', take_string raw))"

subsection \<open>Lemmas\<close>

lemma get_tool_register [simp]:
  "get_tool (register_tool (Some t) reg) n = (if n = def_name (tool_def t) then Some t else get_tool reg n)"
  by (simp add: get_tool_def register_tool_def)

lemma normalize_args_idem: "parse ''{}'' \<noteq> Some JNull \<Longrightarrow> normalize_args parse (normalize_args parse raw) = normalize_args parse raw"
  by (simp add: normalize_args_def is_json_space_def)

text \<open>A server's answer always is the serialized form of some response, whatever its tools do.\<close>

lemma server_execute_serialized:
  "\<exists>r. snd (server_execute parse dump srv w tool args) = serialize_response dump r"
  by (auto simp: server_execute_def Let_def split: prod.splits sum.splits)

end
