(* ===== verification/Mcp_Discovery.thy ===== *)
theory Mcp_Discovery
  imports Json
begin

text \<open>
  Discovery of external servers from \<open>.mcp.json\<close> files (\<open>src/mcp/mcp_json_discovery.cpp\<close>) and the
  policy that decides which of them may be connected (\<open>src/mcp/discovery_policy.h\<close>). The file
  system is a parameter: \<open>canon\<close> is \<open>weakly_canonical\<close>, a file's text is \<^const>\<open>None\<close> when the file
  does not exist; so are the environment variable \<open>HOME\<close> and \<open>std::hash\<close>. Where the code throws (a
  member of the wrong type), the result is \<^const>\<open>None\<close>.
\<close>

subsection \<open>Paths\<close>

definition path_join :: "string \<Rightarrow> string \<Rightarrow> string" where
  "path_join a b = (if a = [] then b else if last a = CHR ''/'' then a @ b else a @ ''/'' @ b)"

definition path_filename :: "string \<Rightarrow> string" where
  "path_filename p = rev (takeWhile (\<lambda>c. c \<noteq> CHR ''/'') (rev p))"

definition hex_digit :: "nat \<Rightarrow> char" where
  "hex_digit d = (if d < 10 then digit d else char_of (87 + d))"

fun hex :: "nat \<Rightarrow> nat \<Rightarrow> string" where
  "hex 0 n = []"
| "hex (Suc k) n = hex k (n div 16) @ [hex_digit (n mod 16)]"

text \<open>The first eight of the sixteen hexadecimal digits of the hash name the socket.\<close>

definition compute_socket_path ::
  "(string \<Rightarrow> string) \<Rightarrow> (string \<Rightarrow> nat) \<Rightarrow> string option \<Rightarrow> string \<Rightarrow> string" where
  "compute_socket_path canon hash home project_dir =
     (let h = take 8 (hex 16 (hash (canon project_dir)));
          base = (case home of None \<Rightarrow> ''/tmp'' | Some d \<Rightarrow> d)
      in path_join (path_join (path_join base ''.entropic'') ''socks'') (h @ ''.sock''))"

subsection \<open>Entries\<close>

record external_server_config =
  ext_name :: string
  ext_transport :: string
  ext_command :: string
  ext_args :: "string list"
  ext_env :: "(string \<times> string) list"
  ext_url :: string
  ext_working_dir :: string

definition default_ext_config :: external_server_config where
  "default_ext_config = \<lparr>ext_name = [], ext_transport = [], ext_command = [], ext_args = [],
     ext_env = [], ext_url = [], ext_working_dir = []\<rparr>"

definition has_blocked_prefix :: "string \<Rightarrow> bool" where
  "has_blocked_prefix key \<longleftrightarrow>
     (length key \<ge> 9 \<and> take 9 key = ''ENTROPIC_'') \<or> (length key \<ge> 5 \<and> take 5 key = ''DYLD_'')"

definition is_blocked_env_var :: "string \<Rightarrow> bool" where
  "is_blocked_env_var key \<longleftrightarrow>
     list_ex (\<lambda>b. key = b) [''LD_PRELOAD'', ''LD_LIBRARY_PATH'', ''PATH'', ''HOME'', ''SHELL'',
       ''DYLD_INSERT_LIBRARIES'', ''DYLD_LIBRARY_PATH''] \<or> has_blocked_prefix key"

definition parse_sse_entry :: "json \<Rightarrow> external_server_config \<Rightarrow> external_server_config option option" where
  "parse_sse_entry cfg entry =
     (case json_value get_string cfg ''url'' [] of
        None \<Rightarrow> None
      | Some url \<Rightarrow> Some (if url = [] then None else Some (entry\<lparr>ext_url := url, ext_transport := ''sse''\<rparr>)))"

fun add_env :: "(string \<times> string) list \<Rightarrow> (string \<times> json) list \<Rightarrow> (string \<times> string) list option" where
  "add_env env [] = Some env"
| "add_env env ((key, val) # kvs) =
     (if is_blocked_env_var key then add_env env kvs
      else case get_string val of None \<Rightarrow> None | Some v \<Rightarrow> add_env (omap_put key v env) kvs)"

definition stdio_args :: "json \<Rightarrow> string list option" where
  "stdio_args cfg = (case json_at cfg ''args'' of Some (JArray xs) \<Rightarrow> get_all get_string xs | _ \<Rightarrow> Some [])"

definition stdio_env :: "json \<Rightarrow> (string \<times> string) list \<Rightarrow> (string \<times> string) list option" where
  "stdio_env cfg env = (case json_at cfg ''env'' of Some (JObject kvs) \<Rightarrow> add_env env kvs | _ \<Rightarrow> Some env)"

definition parse_stdio_entry :: "json \<Rightarrow> external_server_config \<Rightarrow> external_server_config option option" where
  "parse_stdio_entry cfg entry =
     (case json_value get_string cfg ''command'' [] of
        None \<Rightarrow> None
      | Some command \<Rightarrow>
          if command = [] then Some None
          else
            (case (stdio_args cfg, stdio_env cfg (ext_env entry)) of
               (Some args, Some env) \<Rightarrow>
                 Some (Some (entry\<lparr>ext_command := command, ext_transport := ''stdio'',
                    ext_args := ext_args entry @ args, ext_env := env\<rparr>))
             | _ \<Rightarrow> None))"

definition infer_transport :: "json \<Rightarrow> string \<Rightarrow> external_server_config \<Rightarrow> external_server_config option option" where
  "infer_transport cfg type entry =
     (if type = ''sse'' \<or> type = ''http'' \<or> (type = [] \<and> json_contains cfg ''url'')
      then parse_sse_entry cfg entry
      else if type = ''stdio'' \<or> (type = [] \<and> json_contains cfg ''command'')
      then parse_stdio_entry cfg entry
      else Some None)"

type_synonym discovery = "string list \<times> external_server_config list"

definition parse_server_entry ::
  "(string \<Rightarrow> string) \<Rightarrow> string \<Rightarrow> string list \<Rightarrow> discovery \<Rightarrow> string \<Rightarrow> json \<Rightarrow> discovery option" where
  "parse_server_entry canon own_socket existing st name cfg =
     (case st of (seen, out) \<Rightarrow>
        if name \<in> set seen then Some (seen, out)
        else
          (case (if json_contains cfg ''path''
                 then map_option (\<lambda>sock. canon sock = canon own_socket) (json_get_string cfg ''path'')
                 else Some False) of
             None \<Rightarrow> None
           | Some True \<Rightarrow> Some (name # seen, out)
           | Some False \<Rightarrow>
               if name \<in> set existing then Some (name # seen, out)
               else
                 (case json_value get_string cfg ''type'' [] of
                    None \<Rightarrow> None
                  | Some type \<Rightarrow>
                      (case infer_transport cfg type (default_ext_config\<lparr>ext_name := name\<rparr>) of
                         None \<Rightarrow> None
                       | Some None \<Rightarrow> Some (seen, out)
                       | Some (Some entry) \<Rightarrow> Some (name # seen, out @ [entry])))))"

fun parse_entries ::
  "(string \<Rightarrow> string) \<Rightarrow> string \<Rightarrow> string list \<Rightarrow> discovery \<Rightarrow> (string \<times> json) list \<Rightarrow> discovery option" where
  "parse_entries canon own existing st [] = Some st"
| "parse_entries canon own existing st ((name, cfg) # es) =
     (case parse_server_entry canon own existing st name cfg of
        None \<Rightarrow> None
      | Some st' \<Rightarrow> parse_entries canon own existing st' es)"

definition parse_mcp_json ::
  "(string \<Rightarrow> json option) \<Rightarrow> (string \<Rightarrow> string option) \<Rightarrow> (string \<Rightarrow> string) \<Rightarrow> string \<Rightarrow> string list \<Rightarrow>
   discovery \<Rightarrow> string \<Rightarrow> discovery option" where
  "parse_mcp_json parse file canon own existing st path =
     (case file path of
        None \<Rightarrow> Some st
      | Some text \<Rightarrow>
          (case parse text of
             Some (JObject kvs) \<Rightarrow>
               (case map_of kvs ''mcpServers'' of
                  Some (JObject servers) \<Rightarrow> parse_entries canon own existing st servers
                | _ \<Rightarrow> Some st)
           | _ \<Rightarrow> Some st))"

definition discover ::
  "(string \<Rightarrow> json option) \<Rightarrow> (string \<Rightarrow> string option) \<Rightarrow> (string \<Rightarrow> string) \<Rightarrow> (string \<Rightarrow> nat) \<Rightarrow> string option \<Rightarrow>
   string \<Rightarrow> string list \<Rightarrow> external_server_config list option" where
  "discover parse file canon hash home project_dir existing =
     (let own = compute_socket_path canon hash home project_dir;
          global = path_join (path_join (case home of None \<Rightarrow> [] | Some d \<Rightarrow> d) ''.entropic'') ''.mcp.json''
      in case parse_mcp_json parse file canon own existing ([], []) (path_join project_dir ''.mcp.json'') of
           None \<Rightarrow> None
         | Some st \<Rightarrow> map_option snd (parse_mcp_json parse file canon own existing st global))"

subsection \<open>Policy\<close>

datatype mcp_json_verdict = v_disabled | v_enabled | v_ask

record mcp_config =
  enabled_mcpjson_servers :: "string list"
  disabled_mcpjson_servers :: "string list"
  enable_all_project_mcp_servers :: bool
  server_timeout_seconds :: nat
  external_servers :: "(string \<times> external_server_config) list"

definition mcpjson_config_verdict :: "string \<Rightarrow> mcp_config \<Rightarrow> mcp_json_verdict" where
  "mcpjson_config_verdict name cfg =
     (if name \<in> set (disabled_mcpjson_servers cfg) then v_disabled
      else if enable_all_project_mcp_servers cfg \<or> name \<in> set (enabled_mcpjson_servers cfg)
      then v_enabled else v_ask)"

fun arg_after :: "string list \<Rightarrow> string \<Rightarrow> string" where
  "arg_after [] flag = []"
| "arg_after (a # as) flag = (if a = flag then (case as of [] \<Rightarrow> [] | b # _ \<Rightarrow> b) else arg_after as flag)"

definition is_entropic_bridge :: "external_server_config \<Rightarrow> bool" where
  "is_entropic_bridge cfg \<longleftrightarrow> ext_transport cfg = ''stdio'' \<and> path_filename (ext_command cfg) = ''entropic'' \<and>
     ''mcp-bridge'' \<in> set (ext_args cfg)"

definition launches_own_bridge ::
  "(string \<Rightarrow> string) \<Rightarrow> (string \<Rightarrow> nat) \<Rightarrow> string option \<Rightarrow> external_server_config \<Rightarrow> string \<Rightarrow> string \<Rightarrow> bool" where
  "launches_own_bridge canon hash home cfg own_socket spawn_root \<longleftrightarrow>
     own_socket \<noteq> [] \<and> is_entropic_bridge cfg \<and>
     (let sock = arg_after (ext_args cfg) ''--socket'';
          dir0 = arg_after (ext_args cfg) ''--project-dir'';
          dir = (if dir0 \<noteq> [] then dir0
                 else if ext_working_dir cfg = [] then spawn_root else ext_working_dir cfg);
          target = (if sock \<noteq> [] then sock else compute_socket_path canon hash home (canon dir))
      in canon target = canon own_socket)"

definition discovered_server_json :: "(json \<Rightarrow> string) \<Rightarrow> external_server_config \<Rightarrow> string \<Rightarrow> string" where
  "discovered_server_json dump cfg rt =
     dump (JObject [(''args'', JArray (map JString (ext_args cfg))), (''command'', JString (ext_command cfg)),
       (''name'', JString (ext_name cfg)),
       (''root'', JString (if ext_working_dir cfg = [] then rt else ext_working_dir cfg)),
       (''transport'', JString (ext_transport cfg)), (''url'', JString (ext_url cfg))])"

subsection \<open>Lemmas\<close>

text \<open>What a discovered entry is: named, of a known transport, without a blocked variable.\<close>

definition entry_ok :: "external_server_config \<Rightarrow> bool" where
  "entry_ok e \<longleftrightarrow> list_all (\<lambda>(k, v). \<not> is_blocked_env_var k) (ext_env e) \<and>
     (ext_transport e = ''sse'' \<and> ext_url e \<noteq> [] \<or> ext_transport e = ''stdio'' \<and> ext_command e \<noteq> [])"

lemma list_all_omap_put_key:
  "list_all (\<lambda>(k, v). P k) m \<Longrightarrow> P k \<Longrightarrow> list_all (\<lambda>(k, v). P k) (omap_put k v m)"
  by (induction k v m rule: omap_put.induct) auto

lemma add_env_unblocked:
  "add_env env kvs = Some env' \<Longrightarrow> list_all (\<lambda>(k, v). \<not> is_blocked_env_var k) env \<Longrightarrow>
   list_all (\<lambda>(k, v). \<not> is_blocked_env_var k) env'"
  by (induction env kvs rule: add_env.induct)
    (auto split: if_splits option.splits simp: list_all_omap_put_key [where P = "\<lambda>k. \<not> is_blocked_env_var k"])

lemma stdio_env_unblocked:
  "stdio_env cfg [] = Some env \<Longrightarrow> list_all (\<lambda>(k, v). \<not> is_blocked_env_var k) env"
  using add_env_unblocked [of "[]"] by (auto simp: stdio_env_def split: option.splits json.splits)

lemma parse_stdio_entry_ok:
  assumes "parse_stdio_entry cfg e = Some (Some e')" "ext_env e = []"
  shows "ext_name e' = ext_name e" "entry_ok e'"
  using assms stdio_env_unblocked
  by (auto simp: parse_stdio_entry_def entry_ok_def split: option.splits if_splits)

lemma infer_transport_ok:
  assumes "infer_transport cfg type e = Some (Some e')" "ext_env e = []"
  shows "ext_name e' = ext_name e" "entry_ok e'"
  using assms parse_stdio_entry_ok [of cfg e e']
  by (auto simp: infer_transport_def parse_sse_entry_def entry_ok_def split: option.splits if_splits)

definition discovery_ok :: "string list \<Rightarrow> discovery \<Rightarrow> bool" where
  "discovery_ok existing st \<longleftrightarrow> (case st of (seen, out) \<Rightarrow>
     distinct (map ext_name out) \<and>
     (\<forall>e \<in> set out. ext_name e \<in> set seen \<and> ext_name e \<notin> set existing \<and> entry_ok e))"

lemma parse_server_entry_cases:
  assumes "parse_server_entry canon own existing (seen, out) name cfg = Some st'"
  shows "st' = (seen, out) \<or> st' = (name # seen, out) \<or>
    (\<exists>e. st' = (name # seen, out @ [e]) \<and> name \<notin> set seen \<and> name \<notin> set existing \<and> ext_name e = name \<and> entry_ok e)"
proof -
  let ?e = "default_ext_config\<lparr>ext_name := name\<rparr>"
  have "ext_env ?e = []" by (simp add: default_ext_config_def)
  then have "ext_name e = name \<and> entry_ok e" if "infer_transport cfg type ?e = Some (Some e)" for type e
    using infer_transport_ok [OF that] by simp
  with assms show ?thesis
    by (auto simp: parse_server_entry_def split: if_splits option.splits bool.splits)
qed

lemma parse_server_entry_ok:
  assumes "parse_server_entry canon own existing st name cfg = Some st'" "discovery_ok existing st"
  shows "discovery_ok existing st' \<and> (\<exists>more. snd st' = snd st @ more)"
  using assms parse_server_entry_cases [of canon own existing "fst st" "snd st" name cfg st']
  by (auto simp: discovery_ok_def)

lemma parse_entries_ok:
  "parse_entries canon own existing st es = Some st' \<Longrightarrow> discovery_ok existing st \<Longrightarrow>
   discovery_ok existing st' \<and> (\<exists>more. snd st' = snd st @ more)"
proof (induction canon own existing st es rule: parse_entries.induct)
  case (2 canon own existing st name cfg es)
  then obtain st1 where "parse_server_entry canon own existing st name cfg = Some st1"
    "parse_entries canon own existing st1 es = Some st'" by (auto split: option.splits)
  with 2 parse_server_entry_ok [of canon own existing st name cfg st1] show ?case by auto
qed auto

lemma parse_mcp_json_ok:
  "parse_mcp_json parse file canon own existing st path = Some st' \<Longrightarrow> discovery_ok existing st \<Longrightarrow>
   discovery_ok existing st' \<and> (\<exists>more. snd st' = snd st @ more)"
  using parse_entries_ok [of canon own existing st _ st']
  by (auto simp: parse_mcp_json_def split: option.splits json.splits)

text \<open>The servers \<open>discover\<close> returns are well formed, distinct and new.\<close>

lemma discover_ok:
  assumes "discover parse file canon hash home dir existing = Some out"
  shows "list_all entry_ok out" "distinct (map ext_name out)" "set (map ext_name out) \<inter> set existing = {}"
proof -
  have "discovery_ok existing ([], [])" by (simp add: discovery_ok_def)
  moreover obtain st1 st2 own p q where "parse_mcp_json parse file canon own existing ([], []) p = Some st1"
    "parse_mcp_json parse file canon own existing st1 q = Some st2" "snd st2 = out"
    using assms by (auto simp: discover_def Let_def split: option.splits)
  ultimately have "discovery_ok existing st2" "snd st2 = out" using parse_mcp_json_ok by blast+
  then show "list_all entry_ok out" "distinct (map ext_name out)" "set (map ext_name out) \<inter> set existing = {}"
    by (auto simp: discovery_ok_def list_all_iff split: prod.splits)
qed

end
