(* ===== verification/Health_Monitor.thy ===== *)
theory Health_Monitor
  imports Prelude "HOL-Library.List_Lexorder" "HOL-Library.Char_ord"
begin

text \<open>
  Reconnection of external servers: the back-off policy (\<open>src/mcp/reconnect_policy.cpp\<close>) and the
  monitor that polls the watched servers and drives each through its states
  (\<open>src/mcp/health_monitor.cpp\<close>). What the monitor asks of a server (is it connected, connect,
  refresh the tools) and of the platform (the clock, a random number) are fields of the
  environment, over the outside world. Times are milliseconds of the steady clock; the
  \<open>time_point::max()\<close> of a server that is given up is \<^const>\<open>None\<close>.
\<close>

subsection \<open>Back-off\<close>

record reconnect_policy =
  base_delay_ms :: nat
  max_delay_ms :: nat
  max_retries :: nat
  backoff_factor :: rat

definition default_policy :: reconnect_policy where
  "default_policy = \<lparr>base_delay_ms = 1000, max_delay_ms = 60000, max_retries = 5, backoff_factor = 2\<rparr>"

text \<open>\<open>draw\<close> is the sample from the uniform distribution on \<open>[0, jitter_range)\<close>.\<close>

definition delay_ms :: "reconnect_policy \<Rightarrow> (rat \<Rightarrow> rat) \<Rightarrow> nat \<Rightarrow> nat" where
  "delay_ms p draw attempt =
     (let raw = f64 (of_nat (base_delay_ms p) * f64 (backoff_factor p ^ attempt));
          capped = min raw (of_nat (max_delay_ms p));
          jitter_range = f64 (capped * f64 (1 / 10))
      in nat (trunc_int (f64 (capped + draw jitter_range))))"

definition exhausted :: "reconnect_policy \<Rightarrow> nat \<Rightarrow> bool" where
  "exhausted p attempt \<longleftrightarrow> max_retries p \<noteq> 0 \<and> attempt \<ge> max_retries p"

subsection \<open>State\<close>

record health_event =
  server_name :: string
  old_status :: string
  new_status :: string
  added_tools :: "string list"
  removed_tools :: "string list"

record watch_entry =
  status :: string
  reconnect_attempt :: nat
  next_action :: "nat option"

record 'w health_env =
  h_alive :: "'w \<Rightarrow> string \<Rightarrow> bool"
  h_connect :: "'w \<Rightarrow> string \<Rightarrow> 'w \<times> bool"
  h_refresh :: "'w \<Rightarrow> string \<Rightarrow> 'w \<times> string list \<times> string list"
  h_now :: "'w \<Rightarrow> 'w \<times> nat"
  h_jitter :: "'w \<Rightarrow> rat \<Rightarrow> rat"
  h_callback :: "('w \<Rightarrow> health_event \<Rightarrow> 'w) option"

record monitor =
  policy :: reconnect_policy
  health_check_interval_ms :: nat
  watched :: "(string \<times> watch_entry) list"
  event_queue :: "health_event list"

definition new_monitor :: "reconnect_policy \<Rightarrow> nat \<Rightarrow> monitor" where
  "new_monitor p interval = \<lparr>policy = p, health_check_interval_ms = interval, watched = [], event_queue = []\<rparr>"

definition post_event :: "string \<Rightarrow> string \<Rightarrow> string \<Rightarrow> health_event list \<Rightarrow> health_event list" where
  "post_event name old new q =
     q @ [\<lparr>server_name = name, old_status = old, new_status = new, added_tools = [], removed_tools = []\<rparr>]"

definition watch :: "'w health_env \<Rightarrow> string \<Rightarrow> 'w \<Rightarrow> monitor \<Rightarrow> 'w \<times> monitor" where
  "watch env name w m =
     (case h_now env w of (w', t) \<Rightarrow>
        (w', m\<lparr>watched := omap_put name
           \<lparr>status = (if h_alive env w name then ''connected'' else ''disconnected''),
            reconnect_attempt = 0, next_action = Some t\<rparr> (watched m)\<rparr>))"

definition unwatch :: "string \<Rightarrow> monitor \<Rightarrow> monitor" where
  "unwatch name m = m\<lparr>watched := AList.delete name (watched m)\<rparr>"

fun deliver :: "('w \<Rightarrow> health_event \<Rightarrow> 'w) option \<Rightarrow> 'w \<Rightarrow> health_event list \<Rightarrow> 'w" where
  "deliver cb w [] = w"
| "deliver cb w (e # es) = deliver cb (case cb of None \<Rightarrow> w | Some f \<Rightarrow> f w e) es"

definition process_events :: "'w health_env \<Rightarrow> 'w \<Rightarrow> monitor \<Rightarrow> 'w \<times> monitor" where
  "process_events env w m = (deliver (h_callback env) w (event_queue m), m\<lparr>event_queue := []\<rparr>)"

subsection \<open>Checking a server\<close>

definition on_reconnect_success ::
  "'w health_env \<Rightarrow> string \<Rightarrow> 'w \<Rightarrow> health_event list \<Rightarrow> watch_entry \<Rightarrow> 'w \<times> health_event list \<times> watch_entry" where
  "on_reconnect_success env name w q entry =
     (let (w1, added, removed) = h_refresh env w name;
          (w2, t) = h_now env w1
      in (w2,
          q @ [\<lparr>server_name = name, old_status = ''reconnecting'', new_status = ''connected'',
                added_tools = added, removed_tools = removed\<rparr>],
          entry\<lparr>status := ''connected'', reconnect_attempt := 0, next_action := Some t\<rparr>))"

definition attempt_reconnect ::
  "'w health_env \<Rightarrow> reconnect_policy \<Rightarrow> string \<Rightarrow> 'w \<Rightarrow> health_event list \<Rightarrow> watch_entry \<Rightarrow>
   'w \<times> health_event list \<times> watch_entry" where
  "attempt_reconnect env p name w q entry =
     (if exhausted p (reconnect_attempt entry) then
        (if status entry \<noteq> ''error''
         then (w, post_event name (status entry) ''error'' q, entry\<lparr>status := ''error'', next_action := None\<rparr>)
         else (w, q, entry\<lparr>next_action := None\<rparr>))
      else
        let q1 = (if status entry \<noteq> ''reconnecting'' then post_event name (status entry) ''reconnecting'' q else q);
            e1 = entry\<lparr>status := ''reconnecting''\<rparr>
        in case h_connect env w name of
             (w1, True) \<Rightarrow> on_reconnect_success env name w1 q1 e1
           | (w1, False) \<Rightarrow>
               let delay = delay_ms p (h_jitter env w1) (reconnect_attempt e1);
                   (w2, t) = h_now env w1
               in (w2, q1, e1\<lparr>reconnect_attempt := reconnect_attempt e1 + 1, next_action := Some (t + delay)\<rparr>))"

definition check_server ::
  "'w health_env \<Rightarrow> reconnect_policy \<Rightarrow> nat \<Rightarrow> string \<Rightarrow> 'w \<Rightarrow> health_event list \<Rightarrow> watch_entry \<Rightarrow>
   'w \<times> health_event list \<times> watch_entry" where
  "check_server env p interval name w q entry =
     (if status entry = ''connected'' \<and> \<not> h_alive env w name then
        attempt_reconnect env p name w (post_event name (status entry) ''disconnected'' q)
          (entry\<lparr>status := ''disconnected'', reconnect_attempt := 0\<rparr>)
      else if status entry = ''disconnected'' \<or> status entry = ''reconnecting'' then
        attempt_reconnect env p name w q entry
      else
        case h_now env w of (w', t) \<Rightarrow>
          (w', q, entry\<lparr>next_action := Some (t + (if interval > 0 then interval else 5000))\<rparr>))"

text \<open>One pass of \<open>monitor_loop\<close> over the watched servers, with the time it started at.\<close>

definition due :: "nat \<Rightarrow> watch_entry \<Rightarrow> bool" where
  "due now entry = (case next_action entry of None \<Rightarrow> False | Some t \<Rightarrow> now \<ge> t)"

fun poll_entries ::
  "'w health_env \<Rightarrow> reconnect_policy \<Rightarrow> nat \<Rightarrow> nat \<Rightarrow> 'w \<Rightarrow> health_event list \<Rightarrow> (string \<times> watch_entry) list \<Rightarrow>
   'w \<times> health_event list \<times> (string \<times> watch_entry) list" where
  "poll_entries env p interval now w q [] = (w, q, [])"
| "poll_entries env p interval now w q ((name, entry) # es) =
     (if due now entry then
        let (w1, q1, entry1) = check_server env p interval name w q entry;
            (w2, q2, es2) = poll_entries env p interval now w1 q1 es
        in (w2, q2, (name, entry1) # es2)
      else
        let (w2, q2, es2) = poll_entries env p interval now w q es
        in (w2, q2, (name, entry) # es2))"

definition poll :: "'w health_env \<Rightarrow> 'w \<times> monitor \<Rightarrow> 'w \<times> monitor" where
  "poll env = (\<lambda>(w, m).
     let (w1, now) = h_now env w;
         (w2, q, es) = poll_entries env (policy m) (health_check_interval_ms m) now w1 (event_queue m) (watched m)
     in (w2, m\<lparr>watched := es, event_queue := q\<rparr>))"

subsection \<open>The server's life cycle\<close>

text \<open>
  The transitions a server can make, and the log of a server: the events that carry its name,
  each starting where the one before ended.
\<close>

definition transition :: "string \<Rightarrow> string \<Rightarrow> bool" where
  "transition old new \<longleftrightarrow> (old, new) \<in> set [(''connected'', ''disconnected''), (''disconnected'', ''reconnecting''),
     (''reconnecting'', ''connected''), (''reconnecting'', ''error'')]"

fun life :: "string \<Rightarrow> string \<Rightarrow> health_event list \<Rightarrow> string option" where
  "life name s [] = Some s"
| "life name s (e # es) =
     (if server_name e \<noteq> name then life name s es
      else if old_status e = s \<and> transition s (new_status e) then life name (new_status e) es
      else None)"

lemma life_append: "life name s (q @ r) = Option.bind (life name s q) (\<lambda>t. life name t r)"
  by (induction q arbitrary: s) auto

definition entry_inv :: "watch_entry \<Rightarrow> bool" where
  "entry_inv e \<longleftrightarrow> status e \<in> {''connected'', ''disconnected'', ''reconnecting'', ''error''} \<and>
     (if status e = ''disconnected'' then reconnect_attempt e = 0
      else if status e = ''error'' then next_action e = None else True)"

lemma not_exhausted_0 [simp]: "\<not> exhausted p 0"
  by (auto simp: exhausted_def)

lemma life_other:
  "life n t (post_event name old new q) = (if n = name then Option.bind (life n t q) (\<lambda>s.
      if old = s \<and> transition s new then Some new else None) else life n t q)"
  by (auto simp: post_event_def life_append split: option.split bind_splits)

lemmas health_defs = check_server_def attempt_reconnect_def on_reconnect_success_def entry_inv_def Let_def

lemma check_server_life:
  assumes "check_server env p interval name w q entry = (w', q', entry')"
    and "entry_inv entry" "due now entry"
  shows "entry_inv entry'"
    and "life name s q = Some (status entry) \<Longrightarrow> life name s q' = Some (status entry')"
    and "n \<noteq> name \<Longrightarrow> life n s q' = life n s q"
proof -
  have "status entry \<noteq> ''error''" using assms(2,3) by (auto simp: entry_inv_def due_def split: if_splits)
  note f = assms(1,2) this
  show "entry_inv entry'"
    using f by (auto simp: health_defs split: if_splits prod.splits bool.splits)
  show "life name s q' = Some (status entry')" if "life name s q = Some (status entry)"
    using f that
    by (auto simp: health_defs life_other life_append transition_def split: if_splits prod.splits bool.splits)
  show "life n s q' = life n s q" if "n \<noteq> name"
    using f that
    by (auto simp: health_defs life_other life_append split: if_splits prod.splits bool.splits bind_splits)
qed

definition entries_ok :: "(string \<times> watch_entry) list \<Rightarrow> bool" where
  "entries_ok es \<longleftrightarrow> sorted_wrt (<) (map fst es) \<and> list_all (\<lambda>(n, e). entry_inv e) es"

lemma poll_entries_life:
  "poll_entries env p interval now w q es = (w', q', es') \<Longrightarrow> entries_ok es \<Longrightarrow>
   map fst es' = map fst es \<and> entries_ok es' \<and>
   (\<forall>n s. (n \<notin> set (map fst es) \<longrightarrow> life n s q' = life n s q) \<and>
      (\<forall>e. map_of es n = Some e \<longrightarrow> life n s q = Some (status e) \<longrightarrow>
        (\<exists>e'. map_of es' n = Some e' \<and> life n s q' = Some (status e'))))"
proof (induction env p interval now w q es arbitrary: w' q' es' rule: poll_entries.induct)
  case (2 env p interval now w q name entry es)
  show ?case
  proof (cases "due now entry")
    case True
    obtain w1 q1 entry1 where c: "check_server env p interval name w q entry = (w1, q1, entry1)"
      by (cases "check_server env p interval name w q entry")
    obtain w2 q2 es2 where r: "poll_entries env p interval now w1 q1 es = (w2, q2, es2)"
      by (cases "poll_entries env p interval now w1 q1 es")
    have ok: "entry_inv entry" "entries_ok es" "name \<notin> set (map fst es)"
      using "2.prems"(2) by (auto simp: entries_ok_def)
    note ih = "2.IH"(1) [OF True c [symmetric] refl refl r ok(2)]
    note ch = check_server_life [OF c ok(1) True]
    have e: "w' = w2" "q' = q2" "es' = (name, entry1) # es2" using "2.prems"(1) True c r by auto
    have "entries_ok ((name, entry1) # es2)" using ih ch(1) "2.prems"(2) by (simp add: entries_ok_def)
    moreover have "life n s q2 = life n s q" if "n \<noteq> name" "n \<notin> set (map fst es)" for n s
      using ih that ch(3) by auto
    moreover have "\<exists>e'. map_of ((name, entry1) # es2) n = Some e' \<and> life n s q2 = Some (status e')"
      if "map_of ((name, entry) # es) n = Some x" "life n s q = Some (status x)" for n s x
      using that ih ch(2,3) ok(3) by (cases "n = name") auto
    ultimately show ?thesis using e ih by auto
  next
    case False
    obtain w2 q2 es2 where r: "poll_entries env p interval now w q es = (w2, q2, es2)"
      by (cases "poll_entries env p interval now w q es")
    have ok: "entry_inv entry" "entries_ok es" "name \<notin> set (map fst es)"
      using "2.prems"(2) by (auto simp: entries_ok_def)
    note ih = "2.IH"(2) [OF False r ok(2)]
    have e: "w' = w2" "q' = q2" "es' = (name, entry) # es2" using "2.prems"(1) False r by auto
    have "entries_ok ((name, entry) # es2)" using ih "2.prems"(2) by (simp add: entries_ok_def)
    then show ?thesis using e ih ok by auto
  qed
qed (simp add: entries_ok_def)

text \<open>The state of the watched servers agrees with the events since the queue was empty.\<close>

definition log_inv :: "(string \<rightharpoonup> string) \<Rightarrow> monitor \<Rightarrow> bool" where
  "log_inv starts m \<longleftrightarrow> entries_ok (watched m) \<and> dom starts = set (map fst (watched m)) \<and>
     (\<forall>n s. starts n = Some s \<longrightarrow>
        (\<exists>e. map_of (watched m) n = Some e \<and> life n s (event_queue m) = Some (status e)))"

lemma log_inv_poll: "log_inv starts m \<Longrightarrow> poll env (w, m) = (w', m') \<Longrightarrow> log_inv starts m'"
proof -
  assume i: "log_inv starts m" and "poll env (w, m) = (w', m')"
  then obtain w1 now q es where
    pe: "poll_entries env (policy m) (health_check_interval_ms m) now w1 (event_queue m) (watched m) = (w', q, es)"
    and m': "m' = m\<lparr>watched := es, event_queue := q\<rparr>"
    by (auto simp: poll_def Let_def split: prod.splits)
  have "entries_ok (watched m)" using i by (simp add: log_inv_def)
  note r = poll_entries_life [OF pe this]
  show ?thesis unfolding log_inv_def m'
  proof (intro conjI allI impI)
    show "entries_ok (watched (m\<lparr>watched := es, event_queue := q\<rparr>))" using r by simp
    show "dom starts = set (map fst (watched (m\<lparr>watched := es, event_queue := q\<rparr>)))"
      using r i by (simp add: log_inv_def)
    fix n s assume "starts n = Some s"
    with i obtain e where "map_of (watched m) n = Some e" "life n s (event_queue m) = Some (status e)"
      unfolding log_inv_def by blast
    with r show "\<exists>e. map_of (watched (m\<lparr>watched := es, event_queue := q\<rparr>)) n = Some e \<and>
        life n s (event_queue (m\<lparr>watched := es, event_queue := q\<rparr>)) = Some (status e)"
      by simp
  qed
qed

lemma log_inv_polls: "log_inv starts m \<Longrightarrow> (poll env ^^ k) (w, m) = (w', m') \<Longrightarrow> log_inv starts m'"
proof (induction k arbitrary: w' m')
  case (Suc k)
  obtain w1 m1 where "(poll env ^^ k) (w, m) = (w1, m1)" by fastforce
  with Suc show ?case using log_inv_poll [of starts m1 env w1] by auto
qed simp

text \<open>Watching servers one after the other, before any check.\<close>

fun watch_all :: "'w health_env \<Rightarrow> string list \<Rightarrow> 'w \<times> monitor \<Rightarrow> 'w \<times> monitor" where
  "watch_all env [] s = s"
| "watch_all env (n # ns) s = watch_all env ns (watch env n (fst s) (snd s))"

lemma list_all_omap_put: "list_all P es \<Longrightarrow> P (n, e) \<Longrightarrow> list_all P (omap_put n e es)"
  by (induction n e es rule: omap_put.induct) auto

lemma entries_ok_put: "entries_ok es \<Longrightarrow> entry_inv e \<Longrightarrow> entries_ok (omap_put n e es)"
  by (simp add: entries_ok_def omap_put_sorted list_all_omap_put)

lemma watch_all_ok:
  assumes "entries_ok (watched m)" "event_queue m = []" "watch_all env ns (w, m) = (w', m')"
  shows "entries_ok (watched m') \<and> event_queue m' = [] \<and>
    set (map fst (watched m')) = set (map fst (watched m)) \<union> set ns"
  using assms
proof (induction ns arbitrary: w m)
  case (Cons n ns)
  obtain w1 m1 where s: "watch env n w m = (w1, m1)" by fastforce
  then have "entries_ok (watched m1)" "event_queue m1 = []"
    using Cons.prems by (auto simp: watch_def entry_inv_def entries_ok_put split: prod.splits)
  moreover have "set (map fst (watched m1)) = insert n (set (map fst (watched m)))"
  proof -
    from s obtain e where "m1 = m\<lparr>watched := omap_put n e (watched m)\<rparr>"
      by (auto simp: watch_def split: prod.splits)
    then show ?thesis using omap_put_keys [of n e "watched m"] by simp
  qed
  ultimately show ?case using Cons.IH [of m1 w1] Cons.prems s by auto
qed simp

lemma log_inv_start: "entries_ok (watched m) \<Longrightarrow> event_queue m = [] \<Longrightarrow>
    log_inv (\<lambda>n. map_option status (map_of (watched m) n)) m"
  by (auto simp: log_inv_def dom_map_of_conv_image_fst dom_def map_of_eq_None_iff image_iff)

subsection \<open>Properties\<close>

text \<open>
  Claim C25. The health events are a faithful log of the servers' life cycles. After watching any
  servers and any number of passes of the monitor loop, whatever the servers do, the queued events
  of each watched server lead from its first status to its present one, each event starting where
  the one before ended, and only along the life cycle: a connected server is lost, a lost one is
  being reconnected, and reconnecting ends in a connection or, at the retry limit, in an error.
\<close>

theorem health_events_log:
  assumes "watch_all env names (w0, new_monitor p interval) = (w, m)" "n \<in> set names"
    and "(poll env ^^ k) (w, m) = (w', m')"
  shows "\<exists>e e'. map_of (watched m) n = Some e \<and> map_of (watched m') n = Some e' \<and>
    life n (status e) (event_queue m') = Some (status e')"
proof -
  have ok: "entries_ok (watched m)" "event_queue m = []" "n \<in> set (map fst (watched m))"
    using watch_all_ok [OF _ _ assms(1)] assms(2) by (auto simp: new_monitor_def entries_ok_def)
  then obtain e where e: "map_of (watched m) n = Some e" by (metis domD dom_map_of_conv_image_fst set_map)
  have "log_inv (\<lambda>n. map_option status (map_of (watched m) n)) m'"
    by (rule log_inv_polls [OF log_inv_start [OF ok(1,2)] assms(3)])
  with e show ?thesis by (auto simp: log_inv_def)
qed


text \<open>A world in which time passes and the servers refuse, for examples.\<close>

definition refusing_env :: "nat health_env" where
  "refusing_env = \<lparr>h_alive = (\<lambda>_ _. False), h_connect = (\<lambda>w _. (w, False)),
     h_refresh = (\<lambda>w _. (w, [], [])), h_now = (\<lambda>w. (w + 1, w)), h_jitter = (\<lambda>_ _. 0), h_callback = None\<rparr>"

theorem health_events_log_witness:
  "\<exists>e e'. map_of (watched (snd (watch_all refusing_env [''a''] (0, new_monitor default_policy 0)))) ''a'' = Some e \<and>
     map_of (watched (snd ((poll refusing_env ^^ 1) (watch_all refusing_env [''a''] (0, new_monitor default_policy 0))))) ''a'' = Some e' \<and>
     life ''a'' (status e) (event_queue (snd ((poll refusing_env ^^ 1)
       (watch_all refusing_env [''a''] (0, new_monitor default_policy 0))))) = Some (status e')"
  using health_events_log [of refusing_env "[''a'']" 0 default_policy 0
      "fst (watch_all refusing_env [''a''] (0, new_monitor default_policy 0))"
      "snd (watch_all refusing_env [''a''] (0, new_monitor default_policy 0))" "''a''" 1
      "fst ((poll refusing_env ^^ 1) (watch_all refusing_env [''a''] (0, new_monitor default_policy 0)))"
      "snd ((poll refusing_env ^^ 1) (watch_all refusing_env [''a''] (0, new_monitor default_policy 0)))"]
  by simp


end
