(* ===== verification/Server_Manager.thy ===== *)
theory Server_Manager
  imports Access_Control External_Client Mcp_Servers Mcp_Discovery Health_Monitor
begin

text \<open>
  The server manager (\<open>src/mcp/server_manager.cpp\<close>): the built-in servers, plugins and external
  servers under one name space, the permission check and the routing of a tool call, the tool
  list, and the connection, admission and disconnection of external servers. The fields of the
  environment are the JSON library, \<open>fnmatch\<close>, the file system, the transports, the plugin loader
  and the host's approver. The locks of the manager protect single operations and are not
  modelled; the lock on the tools' working directory is in theory \<open>Root_Lock\<close>.
\<close>

subsection \<open>State and environment\<close>

record server_info =
  info_name :: string
  info_transport :: string
  info_url :: string
  info_command :: string
  info_status :: string
  info_source :: string

record 'w manager =
  perms :: permissions
  project_dir :: string
  servers :: "(string \<times> 'w mcp_server) list"
  plugin_servers :: "(string \<times> 'w plugin) list"
  external_clients :: "(string \<times> 'w client) list"
  server_infos :: "(string \<times> server_info) list"
  mcp_cfg :: mcp_config
  own_bridge_socket :: string
  health :: "monitor option"

record 'w manager_env =
  m_parse :: "string \<Rightarrow> json option"
  m_dump :: "json \<Rightarrow> string"
  m_what :: "string \<Rightarrow> string"
  m_fnmatch :: "string \<Rightarrow> string \<Rightarrow> bool"
  m_canon :: "string \<Rightarrow> string"
  m_hash :: "string \<Rightarrow> nat"
  m_home :: "string option"
  m_file :: "string \<Rightarrow> string option"
  m_sse :: "string \<Rightarrow> 'w transport"
  m_stdio :: "external_server_config \<Rightarrow> 'w transport"
  m_load_plugin :: "'w \<Rightarrow> string \<Rightarrow> 'w \<times> (entropic_error + 'w plugin)"
  m_approver :: "('w \<Rightarrow> string \<Rightarrow> 'w \<times> bool) option"
  m_now :: "'w \<Rightarrow> 'w \<times> nat"
  m_jitter :: "'w \<Rightarrow> rat \<Rightarrow> rat"
  m_policy :: reconnect_policy
  m_interval :: nat

subsection \<open>Names\<close>

definition extract_prefix :: "string \<Rightarrow> string" where
  "extract_prefix tool_name =
     (case find_char (CHR ''.'') tool_name of None \<Rightarrow> tool_name | Some dot \<Rightarrow> take dot tool_name)"

definition extract_local_name :: "string \<Rightarrow> string" where
  "extract_local_name tool_name =
     (case find_char (CHR ''.'') tool_name of None \<Rightarrow> tool_name | Some dot \<Rightarrow> drop (dot + 1) tool_name)"

definition args_to_pattern :: "(string \<Rightarrow> json option) \<Rightarrow> string \<Rightarrow> string" where
  "args_to_pattern parse args_json =
     (if args_json = [] \<or> args_json = ''{}'' then ''*''
      else case parse args_json of
        Some (JObject ((k, JString v) # _)) \<Rightarrow> v
      | _ \<Rightarrow> ''*'')"

definition call_pattern :: "'w manager_env \<Rightarrow> string \<Rightarrow> string \<Rightarrow> string" where
  "call_pattern env tool_name args_json = tool_name @ '':'' @ args_to_pattern (m_parse env) args_json"

definition find_external :: "'w manager \<Rightarrow> string \<Rightarrow> 'w client option" where
  "find_external m name = map_of (external_clients m) name"

subsection \<open>Routing\<close>

definition disconnected_text :: "string \<Rightarrow> string \<Rightarrow> string" where
  "disconnected_text tool_name server =
     ''Server '' @ squoted server @ '' is disconnected. Tool '' @ squoted tool_name @
     '' is unavailable. Use a different approach or try again later.''"

definition disconnected_error :: "(json \<Rightarrow> string) \<Rightarrow> string \<Rightarrow> string \<Rightarrow> string" where
  "disconnected_error dump tool_name server = build_response dump (disconnected_text tool_name server) True"

definition route_plugin_call :: "'w manager_env \<Rightarrow> 'w plugin \<Rightarrow> 'w \<Rightarrow> string \<Rightarrow> string \<Rightarrow> 'w \<times> string" where
  "route_plugin_call env p w local_name args_json =
     (case plugin_execute p w local_name args_json of (w', raw) \<Rightarrow>
        let invalid = (\<lambda>what. m_dump env (response_json (''Error: plugin '' @ squoted (plugin_name p) @
              '' returned an invalid response: '' @ what) []))
        in (w', case m_parse env raw of
                  None \<Rightarrow> invalid (m_what env raw)
                | Some parsed \<Rightarrow>
                    if \<not> is_object parsed \<or> \<not> json_contains parsed ''result''
                    then invalid (''missing '' @ squoted ''result'' @ '' field'')
                    else raw))"

definition route_external_call ::
  "'w manager_env \<Rightarrow> 'w client \<Rightarrow> 'w \<Rightarrow> string \<Rightarrow> string \<Rightarrow> string \<Rightarrow> 'w client \<times> 'w \<times> string" where
  "route_external_call env cl w tool_name local_name args_json =
     (if \<not> is_connected cl w then (cl, w, disconnected_error (m_dump env) tool_name (extract_prefix tool_name))
      else client_execute (m_parse env) (m_dump env) (m_what env) cl w local_name args_json)"

definition route_external_or_unknown ::
  "'w manager_env \<Rightarrow> 'w manager \<Rightarrow> 'w \<Rightarrow> string \<Rightarrow> string \<Rightarrow> string \<Rightarrow> string \<Rightarrow> 'w manager \<times> 'w \<times> string" where
  "route_external_or_unknown env m w pre tool_name local_name args_json =
     (case find_external m pre of
        Some cl \<Rightarrow>
          (case route_external_call env cl w tool_name local_name args_json of (cl', w', out) \<Rightarrow>
             (m\<lparr>external_clients := AList.update pre cl' (external_clients m)\<rparr>, w', out))
      | None \<Rightarrow> (m, w, m_dump env (response_json (''Error: Unknown server '' @ squoted pre) [])))"

definition route_tool_call ::
  "'w manager_env \<Rightarrow> 'w manager \<Rightarrow> 'w \<Rightarrow> string \<Rightarrow> string \<Rightarrow> 'w manager \<times> 'w \<times> string" where
  "route_tool_call env m w tool_name args_json =
     (let pre = extract_prefix tool_name; local_name = extract_local_name tool_name in
      case map_of (servers m) pre of
        Some srv \<Rightarrow>
          (case server_execute (m_parse env) (m_dump env) srv w local_name args_json of (w', out) \<Rightarrow> (m, w', out))
      | None \<Rightarrow>
          (case map_of (plugin_servers m) pre of
             Some p \<Rightarrow> (case route_plugin_call env p w local_name args_json of (w', out) \<Rightarrow> (m, w', out))
           | None \<Rightarrow> route_external_or_unknown env m w pre tool_name local_name args_json))"

definition execute ::
  "'w manager_env \<Rightarrow> 'w manager \<Rightarrow> 'w \<Rightarrow> string \<Rightarrow> string \<Rightarrow> 'w manager \<times> 'w \<times> string" where
  "execute env m w tool_name args_json =
     (if is_denied (m_fnmatch env) (perms m) tool_name (call_pattern env tool_name args_json)
      then (m, w, m_dump env (response_json (''Error: Permission denied for '' @ tool_name) []))
      else route_tool_call env m w tool_name args_json)"

subsection \<open>What a call needs\<close>

definition is_explicitly_allowed :: "'w manager_env \<Rightarrow> 'w manager \<Rightarrow> string \<Rightarrow> string \<Rightarrow> bool" where
  "is_explicitly_allowed env m tool_name args_json =
     is_allowed (m_fnmatch env) (perms m) tool_name (call_pattern env tool_name args_json)"

definition get_permission_pattern :: "'w manager \<Rightarrow> string \<Rightarrow> string \<Rightarrow> string" where
  "get_permission_pattern m tool_name args_json =
     (case map_of (servers m) (extract_prefix tool_name) of
        Some srv \<Rightarrow> srv_permission_pattern srv tool_name args_json
      | None \<Rightarrow> tool_name)"

definition skip_duplicate_check :: "'w manager \<Rightarrow> string \<Rightarrow> bool" where
  "skip_duplicate_check m tool_name =
     (case map_of (servers m) (extract_prefix tool_name) of
        Some srv \<Rightarrow> srv_skip_duplicate srv (extract_local_name tool_name)
      | None \<Rightarrow> False)"

definition get_required_access_level :: "'w manager \<Rightarrow> string \<Rightarrow> mcp_access_level" where
  "get_required_access_level m tool_name =
     (case map_of (servers m) (extract_prefix tool_name) of
        Some srv \<Rightarrow> (case get_tool (srv_registry srv) (extract_local_name tool_name) of
                      Some t \<Rightarrow> required_access_level t | None \<Rightarrow> WRITE)
      | None \<Rightarrow> WRITE)"

definition mgr_add_permission :: "'w manager \<Rightarrow> string \<Rightarrow> bool \<Rightarrow> 'w manager" where
  "mgr_add_permission m pattern allow = m\<lparr>perms := add_permission (perms m) pattern allow\<rparr>"

fun schema_of :: "(json \<Rightarrow> string) \<Rightarrow> string \<Rightarrow> json list \<Rightarrow> string" where
  "schema_of dump local_name [] = []"
| "schema_of dump local_name (tool # tools) =
     (case json_value get_string tool ''name'' [] of
        None \<Rightarrow> []
      | Some n \<Rightarrow>
          if n = local_name
          then (case json_value Some tool ''inputSchema'' (JObject []) of None \<Rightarrow> [] | Some s \<Rightarrow> dump s)
          else schema_of dump local_name tools)"

definition plugin_tool_schema :: "'w manager_env \<Rightarrow> 'w manager \<Rightarrow> 'w \<Rightarrow> string \<Rightarrow> string \<Rightarrow> string" where
  "plugin_tool_schema env m w pre local_name =
     (case map_of (plugin_servers m) pre of
        None \<Rightarrow> []
      | Some p \<Rightarrow> (case m_parse env (plugin_list_tools p w) of
                    None \<Rightarrow> []
                  | Some tools \<Rightarrow> schema_of (m_dump env) local_name (json_elements tools)))"

definition get_tool_schema :: "'w manager_env \<Rightarrow> 'w manager \<Rightarrow> 'w \<Rightarrow> string \<Rightarrow> string" where
  "get_tool_schema env m w tool_name =
     (let pre = extract_prefix tool_name; local_name = extract_local_name tool_name in
      case map_of (servers m) pre of
        Some srv \<Rightarrow> (case get_tool (srv_registry srv) local_name of
                      Some t \<Rightarrow> input_schema (tool_def t) | None \<Rightarrow> [])
      | None \<Rightarrow> plugin_tool_schema env m w pre local_name)"

subsection \<open>The tool list\<close>

text \<open>
  \<open>append_prefixed_tools\<close>: the entries up to one without a name, and whether there was none such.
\<close>

fun append_prefixed :: "string \<Rightarrow> json list \<Rightarrow> json list \<Rightarrow> json list \<times> bool" where
  "append_prefixed pre [] all = (all, True)"
| "append_prefixed pre (tool # tools) all =
     (case prefix_tool pre tool of
        None \<Rightarrow> (all, False)
      | Some (j, _) \<Rightarrow> append_prefixed pre tools (all @ [j]))"

definition append_prefixed_tools ::
  "(string \<Rightarrow> json option) \<Rightarrow> string \<Rightarrow> string \<Rightarrow> json list \<Rightarrow> json list \<times> bool" where
  "append_prefixed_tools parse tools_json pre all =
     (case parse tools_json of None \<Rightarrow> (all, False) | Some tools \<Rightarrow> append_prefixed pre (json_elements tools) all)"

fun append_builtin_tools ::
  "'w manager_env \<Rightarrow> (string \<times> 'w mcp_server) list \<Rightarrow> json list \<Rightarrow> json list option" where
  "append_builtin_tools env [] all = Some all"
| "append_builtin_tools env ((name, srv) # ss) all =
     (case get_tools_json (m_parse env) (m_dump env) (srv_registry srv) of
        None \<Rightarrow> None
      | Some tools_json \<Rightarrow>
          (case append_prefixed_tools (m_parse env) tools_json name all of
             (all', True) \<Rightarrow> append_builtin_tools env ss all'
           | (_, False) \<Rightarrow> None))"

fun append_plugin_tools :: "'w manager_env \<Rightarrow> 'w \<Rightarrow> (string \<times> 'w plugin) list \<Rightarrow> json list \<Rightarrow> json list" where
  "append_plugin_tools env w [] all = all"
| "append_plugin_tools env w ((name, p) # ps) all =
     append_plugin_tools env w ps
       (fst (append_prefixed_tools (m_parse env) (plugin_list_tools p w) name all))"

fun append_external_tools ::
  "'w manager_env \<Rightarrow> 'w \<Rightarrow> (string \<times> 'w client) list \<Rightarrow> json list \<Rightarrow> json list option" where
  "append_external_tools env w [] all = Some all"
| "append_external_tools env w ((name, cl) # cs) all =
     (if \<not> is_connected cl w then append_external_tools env w cs all
      else case m_parse env (client_list_tools cl) of
             None \<Rightarrow> None
           | Some tools \<Rightarrow> append_external_tools env w cs (all @ json_elements tools))"

definition list_tools :: "'w manager_env \<Rightarrow> 'w manager \<Rightarrow> 'w \<Rightarrow> string option" where
  "list_tools env m w =
     (case append_builtin_tools env (servers m) [] of
        None \<Rightarrow> None
      | Some all1 \<Rightarrow>
          map_option (m_dump env \<circ> JArray)
            (append_external_tools env w (external_clients m) (append_plugin_tools env w (plugin_servers m) all1)))"

definition server_names :: "'w manager \<Rightarrow> string list" where
  "server_names m = map fst (servers m) @ map fst (plugin_servers m) @ map fst (external_clients m)"

definition tool_is_read_only :: "json \<Rightarrow> bool option" where
  "tool_is_read_only tool =
     (case json_at tool ''annotations'' of
        None \<Rightarrow> Some False
      | Some ann \<Rightarrow> if is_object ann then json_value get_bool ann ''readOnlyHint'' False else Some False)"

fun collect_unsafe :: "string list \<Rightarrow> json list \<Rightarrow> string list option" where
  "collect_unsafe allowed [] = Some []"
| "collect_unsafe allowed (tool # tools) =
     (case json_value get_string tool ''name'' [] of
        None \<Rightarrow> None
      | Some full \<Rightarrow>
          if (allowed = [] \<or> full \<in> set allowed) \<and> full \<noteq> []
          then (case tool_is_read_only tool of
                  None \<Rightarrow> None
                | Some True \<Rightarrow> collect_unsafe allowed tools
                | Some False \<Rightarrow> map_option ((#) full) (collect_unsafe allowed tools))
          else collect_unsafe allowed tools)"

definition tools_without_readonly_hint ::
  "(string \<Rightarrow> json option) \<Rightarrow> string \<Rightarrow> string list \<Rightarrow> string list option" where
  "tools_without_readonly_hint parse tools_json allowed =
     (case parse tools_json of Some (JArray tools) \<Rightarrow> collect_unsafe allowed tools | _ \<Rightarrow> Some [])"

fun external_unsafe ::
  "'w manager_env \<Rightarrow> 'w \<Rightarrow> string list \<Rightarrow> (string \<times> 'w client) list \<Rightarrow> string list option" where
  "external_unsafe env w allowed [] = Some []"
| "external_unsafe env w allowed ((name, cl) # cs) =
     (if \<not> is_connected cl w then external_unsafe env w allowed cs
      else case tools_without_readonly_hint (m_parse env) (client_list_tools cl) allowed of
             None \<Rightarrow> None
           | Some found \<Rightarrow> map_option ((@) found) (external_unsafe env w allowed cs))"

definition external_tools_without_readonly_hint ::
  "'w manager_env \<Rightarrow> 'w manager \<Rightarrow> 'w \<Rightarrow> string list \<Rightarrow> string list option" where
  "external_tools_without_readonly_hint env m w allowed = external_unsafe env w allowed (external_clients m)"

subsection \<open>Built-in servers and plugins\<close>

definition register_server :: "'w mcp_server \<Rightarrow> 'w manager \<Rightarrow> 'w manager" where
  "register_server srv m = m\<lparr>servers := omap_put (srv_name srv) srv (servers m)\<rparr>"

definition get_server :: "'w manager \<Rightarrow> string \<Rightarrow> 'w mcp_server option" where
  "get_server m name = map_of (servers m) name"

fun load_plugins ::
  "'w manager_env \<Rightarrow> 'w \<Rightarrow> 'w manager \<Rightarrow> entropic_error \<Rightarrow> string list \<Rightarrow> 'w \<times> 'w manager \<times> entropic_error" where
  "load_plugins env w m first_error [] = (w, m, first_error)"
| "load_plugins env w m first_error (path # paths) =
     (case m_load_plugin env w path of
        (w1, Inl rc) \<Rightarrow> load_plugins env w1 m (if first_error = ENTROPIC_OK then rc else first_error) paths
      | (w1, Inr p) \<Rightarrow>
          let name = plugin_name p in
          if map_of (servers m) name \<noteq> None \<or> find_external m name \<noteq> None \<or> map_of (plugin_servers m) name \<noteq> None
          then load_plugins env w1 m
                 (if first_error = ENTROPIC_OK then ENTROPIC_ERROR_PLUGIN_LOAD_FAILED else first_error) paths
          else load_plugins env (fst (abi_set_dir p w1 (project_dir m)))
                 (m\<lparr>plugin_servers := omap_put name p (plugin_servers m)\<rparr>) first_error paths)"

fun move_servers :: "string \<Rightarrow> 'w \<Rightarrow> (string \<times> 'w mcp_server) list \<Rightarrow> nat \<Rightarrow> 'w \<times> nat" where
  "move_servers dir w [] moved = (w, moved)"
| "move_servers dir w ((name, srv) # ss) moved =
     (case srv_set_dir srv w dir of (w', ok) \<Rightarrow> move_servers dir w' ss (if ok then moved + 1 else moved))"

fun move_plugins :: "string \<Rightarrow> 'w \<Rightarrow> (string \<times> 'w plugin) list \<Rightarrow> nat \<Rightarrow> 'w \<times> nat" where
  "move_plugins dir w [] moved = (w, moved)"
| "move_plugins dir w ((name, p) # ps) moved =
     (case abi_set_dir p w dir of (w', rc) \<Rightarrow> move_plugins dir w' ps (if rc = ENTROPIC_OK then moved + 1 else moved))"

definition set_working_dir_all :: "'w manager \<Rightarrow> 'w \<Rightarrow> string \<Rightarrow> 'w \<times> nat" where
  "set_working_dir_all m w dir =
     (case move_servers dir w (servers m) 0 of (w1, n) \<Rightarrow> move_plugins dir w1 (plugin_servers m) n)"

fun release_sessions :: "string \<Rightarrow> 'w \<Rightarrow> (string \<times> 'w mcp_server) list \<Rightarrow> nat \<Rightarrow> 'w \<times> nat" where
  "release_sessions key w [] released = (w, released)"
| "release_sessions key w ((name, srv) # ss) released =
     (case srv_release_session srv of
        None \<Rightarrow> release_sessions key w ss released
      | Some f \<Rightarrow> (case f w key of (w', ok) \<Rightarrow> release_sessions key w' ss (if ok then released + 1 else released)))"

definition release_session :: "'w manager \<Rightarrow> 'w \<Rightarrow> string \<Rightarrow> 'w \<times> nat" where
  "release_session m w key = release_sessions key w (servers m) 0"

subsection \<open>External servers\<close>

text \<open>The occurrences are those of the original text: the search goes on after a replacement.\<close>

definition root_key :: string where
  "root_key = ''${ENTROPIC_WORKSPACE_ROOT}''"

function expand_workspace_root :: "string \<Rightarrow> string \<Rightarrow> string" where
  "expand_workspace_root [] rt = []"
| "expand_workspace_root (c # s) rt =
     (if starts_with root_key (c # s) then rt @ expand_workspace_root (drop (length root_key) (c # s)) rt
      else c # expand_workspace_root s rt)"
  by pat_completeness auto
termination
  by (relation "measure (\<lambda>(s, rt). length s)") (simp_all add: root_key_def)

definition make_transport :: "'w manager_env \<Rightarrow> 'w manager \<Rightarrow> external_server_config \<Rightarrow> 'w transport" where
  "make_transport env m spec =
     (if ext_transport spec = ''sse'' \<or> (ext_url spec \<noteq> [] \<and> ext_command spec = [])
      then m_sse env (ext_url spec)
      else m_stdio env (spec\<lparr>ext_working_dir := (if ext_working_dir spec = [] then project_dir m else ext_working_dir spec)\<rparr>))"

definition create_external_client :: "'w manager_env \<Rightarrow> 'w manager \<Rightarrow> external_server_config \<Rightarrow> 'w client" where
  "create_external_client env m config =
     set_init_timeout_ms (server_timeout_seconds (mcp_cfg m) * 1000 mod 2 ^ 32) (new_client (ext_name config) (make_transport env m config))"

definition create_declared_client :: "'w manager_env \<Rightarrow> 'w manager \<Rightarrow> string \<Rightarrow> external_server_config \<Rightarrow> 'w client" where
  "create_declared_client env m name entry =
     create_external_client env m (default_ext_config\<lparr>ext_name := name, ext_command := ext_command entry,
       ext_args := map (\<lambda>a. expand_workspace_root a (project_dir m)) (ext_args entry),
       ext_env := omap_of (map (\<lambda>(k, v). (k, expand_workspace_root v (project_dir m))) (ext_env entry)),
       ext_url := ext_url entry, ext_transport := (if ext_url entry = [] then ''stdio'' else ''sse'')\<rparr>)"

definition connect_and_register_external ::
  "'w manager_env \<Rightarrow> 'w manager \<Rightarrow> 'w \<Rightarrow> string \<Rightarrow> 'w client \<Rightarrow> string \<Rightarrow> string \<Rightarrow> string \<Rightarrow>
   'w manager \<times> 'w \<times> 'w client option" where
  "connect_and_register_external env m w name cl source url command =
     (case connect (m_parse env) (m_dump env) cl w of (cl1, w1, ok) \<Rightarrow>
        let info = \<lparr>info_name = name, info_transport = (if url = [] then ''stdio'' else ''sse''), info_url = url,
                    info_command = command, info_status = (if ok then ''connected'' else ''error''), info_source = source\<rparr>
        in case find_external m name of
             None \<Rightarrow> (m\<lparr>external_clients := omap_put name cl1 (external_clients m),
                       server_infos := omap_put name info (server_infos m)\<rparr>, w1, Some cl1)
           | Some _ \<Rightarrow> (m, snd (disconnect cl1 w1), None))"

fun connect_declared_servers ::
  "'w manager_env \<Rightarrow> 'w manager \<Rightarrow> 'w \<Rightarrow> (string \<times> external_server_config) list \<Rightarrow> 'w manager \<times> 'w" where
  "connect_declared_servers env m w [] = (m, w)"
| "connect_declared_servers env m w ((name, entry) # es) =
     (let probe = default_ext_config\<lparr>ext_name := name,
            ext_transport := (if ext_command entry = [] then ''sse'' else ''stdio''),
            ext_command := ext_command entry, ext_args := ext_args entry\<rparr>
      in if launches_own_bridge (m_canon env) (m_hash env) (m_home env) probe (own_bridge_socket m) (project_dir m)
         then connect_declared_servers env m w es
         else case connect_and_register_external env m w name (create_declared_client env m name entry)
                     ''config'' (ext_url entry) (ext_command entry) of
                (m', w', _) \<Rightarrow> connect_declared_servers env m' w' es)"

definition admit_discovered :: "'w manager_env \<Rightarrow> 'w manager \<Rightarrow> 'w \<Rightarrow> external_server_config \<Rightarrow> 'w \<times> bool" where
  "admit_discovered env m w cfg =
     (if launches_own_bridge (m_canon env) (m_hash env) (m_home env) cfg (own_bridge_socket m) (project_dir m)
      then (w, False)
      else case mcpjson_config_verdict (ext_name cfg) (mcp_cfg m) of
             v_disabled \<Rightarrow> (w, False)
           | v_enabled \<Rightarrow> (w, True)
           | v_ask \<Rightarrow> (case m_approver env of
                        None \<Rightarrow> (w, False)
                      | Some f \<Rightarrow> f w (discovered_server_json (m_dump env) cfg (project_dir m))))"

fun connect_discovered ::
  "'w manager_env \<Rightarrow> 'w manager \<Rightarrow> 'w \<Rightarrow> external_server_config list \<Rightarrow> 'w manager \<times> 'w" where
  "connect_discovered env m w [] = (m, w)"
| "connect_discovered env m w (cfg # cfgs) =
     (case admit_discovered env m w cfg of
        (w1, False) \<Rightarrow> connect_discovered env m w1 cfgs
      | (w1, True) \<Rightarrow>
          (case connect_and_register_external env m w1 (ext_name cfg) (create_external_client env m cfg)
                  ''mcp_json'' (ext_url cfg) (ext_command cfg) of
             (m', w', _) \<Rightarrow> connect_discovered env m' w' cfgs))"

definition connect_discovered_servers :: "'w manager_env \<Rightarrow> 'w manager \<Rightarrow> 'w \<Rightarrow> ('w manager \<times> 'w) option" where
  "connect_discovered_servers env m w =
     map_option (connect_discovered env m w)
       (discover (m_parse env) (m_file env) (m_canon env) (m_hash env) (m_home env) (project_dir m)
          (map fst (servers m) @ map fst (external_clients m)))"

text \<open>The monitor works on the clients of the manager.\<close>

definition manager_health :: "'w manager_env \<Rightarrow> ('w \<times> 'w manager) health_env" where
  "manager_health env =
     \<lparr>h_alive = (\<lambda>(w, m) name. case find_external m name of None \<Rightarrow> False | Some cl \<Rightarrow> is_connected cl w),
      h_connect = (\<lambda>(w, m) name. case find_external m name of
         None \<Rightarrow> ((w, m), False)
       | Some cl \<Rightarrow> (case connect (m_parse env) (m_dump env) cl w of (cl', w', ok) \<Rightarrow>
           ((w', m\<lparr>external_clients := AList.update name cl' (external_clients m)\<rparr>), ok))),
      h_refresh = (\<lambda>(w, m) name. case find_external m name of
         None \<Rightarrow> ((w, m), [], [])
       | Some cl \<Rightarrow> (case refresh_tools (m_parse env) (m_dump env) cl w of (cl', w', added, removed) \<Rightarrow>
           ((w', m\<lparr>external_clients := AList.update name cl' (external_clients m)\<rparr>), added, removed))),
      h_now = (\<lambda>(w, m). case m_now env w of (w', t) \<Rightarrow> ((w', m), t)),
      h_jitter = (\<lambda>(w, m). m_jitter env w), h_callback = None\<rparr>"

definition mgr_watch :: "'w manager_env \<Rightarrow> string \<Rightarrow> 'w manager \<times> 'w \<Rightarrow> 'w manager \<times> 'w" where
  "mgr_watch env name = (\<lambda>(m, w).
     case health m of
       None \<Rightarrow> (m, w)
     | Some mon \<Rightarrow> (case watch (manager_health env) name (w, m) mon of
         ((w', m'), mon') \<Rightarrow> (m'\<lparr>health := Some mon'\<rparr>, w')))"

definition initialize_external_servers :: "'w manager_env \<Rightarrow> 'w manager \<Rightarrow> 'w \<Rightarrow> ('w manager \<times> 'w) option" where
  "initialize_external_servers env m w =
     (case connect_declared_servers env m w (external_servers (mcp_cfg m)) of (m1, w1) \<Rightarrow>
        map_option (\<lambda>(m2, w2).
            foldl (\<lambda>s name. mgr_watch env name s)
              (m2\<lparr>health := Some (new_monitor (m_policy env) (m_interval env))\<rparr>, w2) (map fst (external_clients m2)))
          (connect_discovered_servers env m1 w1))"

fun tool_name_list :: "json list \<Rightarrow> string list" where
  "tool_name_list [] = []"
| "tool_name_list (t # ts) =
     (case json_get_string t ''name'' of None \<Rightarrow> [] | Some n \<Rightarrow> n # tool_name_list ts)"

definition connect_external_server ::
  "'w manager_env \<Rightarrow> 'w manager \<Rightarrow> 'w \<Rightarrow> external_server_config \<Rightarrow> 'w manager \<times> 'w \<times> string list" where
  "connect_external_server env m w spec =
     (if map_of (servers m) (ext_name spec) \<noteq> None \<or> find_external m (ext_name spec) \<noteq> None then (m, w, [])
      else case connect_and_register_external env m w (ext_name spec) (create_external_client env m spec)
                  ''runtime'' (ext_url spec) (ext_command spec) of
             (m1, w1, None) \<Rightarrow> (m1, w1, [])
           | (m1, w1, Some cl) \<Rightarrow>
               (case mgr_watch env (ext_name spec) (m1, w1) of (m2, w2) \<Rightarrow>
                  (m2, w2, case m_parse env (client_list_tools cl) of
                             None \<Rightarrow> []
                           | Some tools \<Rightarrow> tool_name_list (json_elements tools))))"

definition disconnect_external_server :: "'w manager \<Rightarrow> 'w \<Rightarrow> string \<Rightarrow> 'w manager \<times> 'w" where
  "disconnect_external_server m w name =
     (case find_external m name of
        None \<Rightarrow> (m, w)
      | Some cl \<Rightarrow>
          (m\<lparr>external_clients := AList.delete name (external_clients m),
             server_infos := AList.delete name (server_infos m),
             health := map_option (unwatch name) (health m)\<rparr>,
           snd (disconnect cl w)))"

definition add_info :: "(string \<times> server_info) list \<Rightarrow> string \<Rightarrow> server_info \<Rightarrow> (string \<times> server_info) list" where
  "add_info infos name info = (if map_of infos name = None then omap_put name info infos else infos)"

definition list_server_info :: "'w manager \<Rightarrow> (string \<times> server_info) list" where
  "list_server_info m =
     foldl (\<lambda>infos (name, p). add_info infos name \<lparr>info_name = name, info_transport = ''plugin'', info_url = [],
         info_command = plugin_path p, info_status = ''connected'', info_source = ''plugin''\<rparr>)
       (foldl (\<lambda>infos (name, srv). add_info infos name \<lparr>info_name = name, info_transport = ''in_process'',
           info_url = [], info_command = [], info_status = ''connected'', info_source = ''builtin''\<rparr>)
         (server_infos m) (servers m)) (plugin_servers m)"

definition interrupt_external_tools :: "'w manager \<Rightarrow> 'w \<Rightarrow> 'w" where
  "interrupt_external_tools m w = foldl (\<lambda>w (name, cl). t_interrupt (transport cl) w) w (external_clients m)"

definition clear_external_tool_interrupts :: "'w manager \<Rightarrow> 'w \<Rightarrow> 'w" where
  "clear_external_tool_interrupts m w = foldl (\<lambda>w (name, cl). t_clear_interrupt (transport cl) w) w (external_clients m)"

text \<open>The monitor is stopped but stays in place.\<close>

definition shutdown :: "'w manager \<Rightarrow> 'w \<Rightarrow> 'w manager \<times> 'w" where
  "shutdown m w =
     (m\<lparr>external_clients := [], server_infos := [], plugin_servers := [], servers := []\<rparr>,
      foldl (\<lambda>w (name, cl). snd (disconnect cl w)) w (external_clients m))"

definition process_health_events :: "'w manager_env \<Rightarrow> 'w manager \<times> 'w \<Rightarrow> 'w manager \<times> 'w" where
  "process_health_events env = (\<lambda>(m, w).
     case health m of
       None \<Rightarrow> (m, w)
     | Some mon \<Rightarrow> (case process_events (manager_health env) (w, m) mon of
         ((w', m'), mon') \<Rightarrow> (m'\<lparr>health := Some mon'\<rparr>, w')))"

subsection \<open>Lemmas\<close>

lemma extract_names:
  assumes "CHR ''.'' \<notin> set pre"
  shows "extract_prefix (pre @ ''.'' @ n) = pre" "extract_local_name (pre @ ''.'' @ n) = n"
proof -
  have "find_char (CHR ''.'') (pre @ ''.'' @ n) = Some (length pre)"
    using assms by (induction pre) auto
  then show "extract_prefix (pre @ ''.'' @ n) = pre" "extract_local_name (pre @ ''.'' @ n) = n"
    by (simp_all add: extract_prefix_def extract_local_name_def)
qed

lemma prefix_tool_origin:
  "prefix_tool pre tool = Some (j, full) \<Longrightarrow>
   \<exists>n. json_get_string tool ''name'' = Some n \<and> full = pre @ ''.'' @ n \<and> json_get_string j ''name'' = Some full"
  by (auto simp: prefix_tool_def json_get_string_def Let_def split: json.splits option.splits)

lemma append_prefixed_origin:
  "append_prefixed pre tools all = (all', ok) \<Longrightarrow> j \<in> set all' \<Longrightarrow>
   j \<in> set all \<or> (\<exists>tool \<in> set tools. \<exists>n. json_get_string tool ''name'' = Some n \<and>
     json_get_string j ''name'' = Some (pre @ ''.'' @ n))"
proof (induction pre tools all rule: append_prefixed.induct)
  case (2 pre tool tools all)
  then show ?case using prefix_tool_origin [of pre tool] by (fastforce split: option.splits)
qed auto

definition registry_ok :: "'w registry \<Rightarrow> bool" where
  "registry_ok reg \<longleftrightarrow> distinct (map fst reg) \<and> list_all (\<lambda>(k, t). k = def_name (tool_def t)) reg"

text \<open>The JSON library reads back the tool array it printed for a registry.\<close>

definition reads_back :: "(string \<Rightarrow> json option) \<Rightarrow> (json \<Rightarrow> string) \<Rightarrow> 'w registry \<Rightarrow> bool" where
  "reads_back parse dump reg \<longleftrightarrow>
     (\<forall>js. tools_array parse reg = Some js \<longrightarrow> parse (dump (JArray js)) = Some (JArray js))"

lemma get_tools_json_elements:
  assumes "reads_back parse dump reg" "get_tools_json parse dump reg = Some text" "registry_ok reg"
  shows "\<exists>tools. parse text = Some (JArray tools) \<and>
    (\<forall>tool \<in> set tools. \<exists>t. json_get_string tool ''name'' = Some (def_name (tool_def t)) \<and>
      get_tool reg (def_name (tool_def t)) = Some t)"
proof -
  obtain tools where t: "text = dump (JArray tools)" "parse text = Some (JArray tools)" "map (\<lambda>(n, t). map_option (\<lambda>schema.
        JObject [(''description'', JString (description (tool_def t))), (''inputSchema'', schema),
          (''name'', JString (def_name (tool_def t)))]) (parse (input_schema (tool_def t)))) reg = map Some tools"
    using assms(1,2) by (auto simp: get_tools_json_def tools_array_def reads_back_def get_all_Some)
  have "\<exists>t. json_get_string tool ''name'' = Some (def_name (tool_def t)) \<and> get_tool reg (def_name (tool_def t)) = Some t"
    if "tool \<in> set tools" for tool
  proof -
    have "Some tool \<in> set (map Some tools)" using that by simp
    then obtain k t where "(k, t) \<in> set reg" "json_get_string tool ''name'' = Some (def_name (tool_def t))"
      unfolding t(3) [symmetric] by (auto simp: json_get_string_def eq_commute [of "Some tool"])
    with assms(3) show ?thesis by (auto simp: registry_ok_def get_tool_def list_all_iff intro!: exI [of _ t])
  qed
  with t(2) show ?thesis by blast
qed

lemma append_builtin_origin:
  "append_builtin_tools env ss all = Some all' \<Longrightarrow>
   list_all (\<lambda>(n, srv). registry_ok (srv_registry srv) \<and> reads_back (m_parse env) (m_dump env) (srv_registry srv)) ss \<Longrightarrow>
   j \<in> set all' \<Longrightarrow>
   j \<in> set all \<or> (\<exists>(name, srv) \<in> set ss. \<exists>t. json_get_string j ''name'' = Some (name @ ''.'' @ def_name (tool_def t)) \<and>
     get_tool (srv_registry srv) (def_name (tool_def t)) = Some t)"
proof (induction ss arbitrary: all)
  case (Cons x ss)
  obtain name srv where x: "x = (name, srv)" by fastforce
  from Cons.prems(1) x obtain txt1 all1 where g: "get_tools_json (m_parse env) (m_dump env) (srv_registry srv) = Some txt1"
    "append_prefixed_tools (m_parse env) txt1 name all = (all1, True)" "append_builtin_tools env ss all1 = Some all'"
    by (auto split: option.splits prod.splits bool.splits)
  obtain tools where t: "m_parse env txt1 = Some (JArray tools)"
    "\<forall>tool \<in> set tools. \<exists>t. json_get_string tool ''name'' = Some (def_name (tool_def t)) \<and>
      get_tool (srv_registry srv) (def_name (tool_def t)) = Some t"
    using get_tools_json_elements [OF _ g(1)] Cons.prems(2) x by auto
  have "append_prefixed name tools all = (all1, True)"
    using g(2) t(1) by (simp add: append_prefixed_tools_def json_elements_def)
  with append_prefixed_origin [OF this] t(2) Cons.IH [OF g(3)] Cons.prems(2,3) x show ?case by fastforce
qed simp

text \<open>The wording of an answer, and what connecting servers adds to the manager.\<close>

lemma server_text_not_error: "\<not> looks_like_tool_error (''Server '' @ s)"
proof -
  have "c_tolower (CHR ''S'') \<noteq> c_tolower (CHR ''e'')" "c_tolower (CHR ''S'') \<noteq> c_tolower (CHR ''['')" by code_simp+
  then show ?thesis
    by (simp add: looks_like_tool_error_def ltrim_def c_isspace_def starts_with_ci_def starts_with_json_error_def Let_def)
qed

lemma connect_and_register_frame:
  assumes "connect_and_register_external env m w name cl source url command = (m', w', r)"
  shows "servers m' = servers m" "mcp_cfg m' = mcp_cfg m" "project_dir m' = project_dir m"
    "own_bridge_socket m' = own_bridge_socket m"
    "find_external m n \<noteq> None \<Longrightarrow> find_external m' n = find_external m n"
    "find_external m' n \<noteq> None \<Longrightarrow> find_external m n \<noteq> None \<or> n = name"
  using assms
  by (auto simp: connect_and_register_external_def find_external_def Let_def split: prod.splits option.splits if_splits)

definition consented :: "'w manager_env \<Rightarrow> 'w manager \<Rightarrow> external_server_config \<Rightarrow> bool" where
  "consented env m cfg \<longleftrightarrow>
     \<not> launches_own_bridge (m_canon env) (m_hash env) (m_home env) cfg (own_bridge_socket m) (project_dir m) \<and>
     ext_name cfg \<notin> set (disabled_mcpjson_servers (mcp_cfg m)) \<and>
     (enable_all_project_mcp_servers (mcp_cfg m) \<or> ext_name cfg \<in> set (enabled_mcpjson_servers (mcp_cfg m)) \<or>
      (\<exists>f w. m_approver env = Some f \<and> snd (f w (discovered_server_json (m_dump env) cfg (project_dir m)))))"

lemma admit_discovered_consented:
  assumes "admit_discovered env m w cfg = (w', True)"
  shows "consented env m cfg"
proof (cases "mcpjson_config_verdict (ext_name cfg) (mcp_cfg m)")
  case v_ask
  then obtain f where "m_approver env = Some f" "f w (discovered_server_json (m_dump env) cfg (project_dir m)) = (w', True)"
    using assms by (auto simp: admit_discovered_def split: if_splits option.splits)
  then have "\<exists>f w. m_approver env = Some f \<and> snd (f w (discovered_server_json (m_dump env) cfg (project_dir m)))"
    by (metis snd_conv)
  with v_ask assms show ?thesis
    by (simp add: consented_def admit_discovered_def mcpjson_config_verdict_def split: if_splits)
qed (use assms in \<open>auto simp: consented_def admit_discovered_def mcpjson_config_verdict_def split: if_splits\<close>)

lemma connect_discovered_consented:
  "connect_discovered env m w cfgs = (m', w') \<Longrightarrow>
   (\<forall>n. find_external m n \<noteq> None \<longrightarrow> find_external m' n = find_external m n) \<and>
   (\<forall>n. find_external m' n \<noteq> None \<longrightarrow> find_external m n \<noteq> None \<or>
      (\<exists>cfg \<in> set cfgs. ext_name cfg = n \<and> consented env m cfg))"
proof (induction cfgs arbitrary: m w)
  case (Cons cfg cfgs)
  obtain w1 ok where a: "admit_discovered env m w cfg = (w1, ok)" by fastforce
  show ?case
  proof (cases ok)
    case False
    with Cons.prems a Cons.IH [of m w1] show ?thesis by auto
  next
    case True
    obtain m1 w2 r where c: "connect_and_register_external env m w1 (ext_name cfg) (create_external_client env m cfg)
        ''mcp_json'' (ext_url cfg) (ext_command cfg) = (m1, w2, r)" by (cases "connect_and_register_external env m w1 (ext_name cfg) (create_external_client env m cfg)
        ''mcp_json'' (ext_url cfg) (ext_command cfg)")
    note f = connect_and_register_frame [OF c]
    have i: "connect_discovered env m1 w2 cfgs = (m', w')" using Cons.prems a True c by simp
    have "consented env m1 = consented env m" using f(2-4) by (simp add: consented_def fun_eq_iff)
    with Cons.IH [OF i] f(5,6) admit_discovered_consented [of env m w cfg w1] a True
    show ?thesis by (metis list.set_intros)
  qed
qed simp

subsection \<open>Properties\<close>

text \<open>
  The tool list can be called: when the built-in servers' names have no dot, every tool
  listed for them carries a name that routes back to the server that listed it and, there, to the
  tool it was listed for.
\<close>

lemma listed_tools_route_home:
  assumes "distinct (map fst (servers m))"
    and "list_all (\<lambda>(n, srv). CHR ''.'' \<notin> set n \<and> registry_ok (srv_registry srv) \<and>
      reads_back (m_parse env) (m_dump env) (srv_registry srv)) (servers m)"
    and "append_builtin_tools env (servers m) [] = Some all" "j \<in> set all"
  shows "\<exists>full srv t. json_get_string j ''name'' = Some full \<and>
    map_of (servers m) (extract_prefix full) = Some srv \<and>
    get_tool (srv_registry srv) (extract_local_name full) = Some t \<and>
    full = extract_prefix full @ ''.'' @ def_name (tool_def t)"
proof -
  obtain name srv t where o: "(name, srv) \<in> set (servers m)"
    "json_get_string j ''name'' = Some (name @ ''.'' @ def_name (tool_def t))"
    "get_tool (srv_registry srv) (def_name (tool_def t)) = Some t"
    using append_builtin_origin [OF assms(3) _ assms(4)] assms(2) by (fastforce simp: list_all_iff)
  then have "CHR ''.'' \<notin> set name" "map_of (servers m) name = Some srv"
    using assms(1,2) by (auto simp: list_all_iff)
  with o extract_names [of name] show ?thesis by (intro exI conjI) (auto simp del: append.simps)
qed


text \<open>
  A disconnected server's answer is taken for a success. The text the manager returns
  for a call to a disconnected external server is not one the classifier recognises as an error,
  although the client's own answer in that situation is.
\<close>

lemma disconnected_answer_not_error:
  assumes "map_of (servers m) pre = None" "map_of (plugin_servers m) pre = None"
    and "find_external m pre = Some cl" "\<not> is_connected cl w" "CHR ''.'' \<notin> set pre"
    and "\<not> is_denied (m_fnmatch env) (perms m) (pre @ ''.'' @ n) (call_pattern env (pre @ ''.'' @ n) args)"
  shows "(\<exists>t. snd (snd (execute env m w (pre @ ''.'' @ n) args)) = build_response (m_dump env) t True \<and>
      \<not> looks_like_tool_error t) \<and>
    (\<exists>t. snd (snd (client_execute (m_parse env) (m_dump env) (m_what env) cl w n args)) = build_response (m_dump env) t True \<and>
      looks_like_tool_error t)"
proof
  let ?t = "disconnected_text (pre @ ''.'' @ n) pre"
  have "snd (snd (execute env m w (pre @ ''.'' @ n) args)) = build_response (m_dump env) ?t True"
    unfolding execute_def route_tool_call_def Let_def extract_names [OF assms(5)]
    using assms extract_names(1) [OF assms(5), of n]
    by (simp add: route_external_or_unknown_def route_external_call_def disconnected_error_def)
  moreover have "\<not> looks_like_tool_error ?t"
    unfolding disconnected_text_def by (rule server_text_not_error)
  ultimately show "\<exists>t. snd (snd (execute env m w (pre @ ''.'' @ n) args)) = build_response (m_dump env) t True \<and>
      \<not> looks_like_tool_error t" by blast
  show "\<exists>t. snd (snd (client_execute (m_parse env) (m_dump env) (m_what env) cl w n args)) = build_response (m_dump env) t True \<and>
      looks_like_tool_error t"
    using assms(4) error_text_classified by (auto simp: client_execute_def)
qed

text \<open>
  An argument-level deny rule reads the first argument only, in the order of the keys: a
  call that it denies is let through when the model adds an argument with a smaller key.
\<close>

lemma deny_rule_evaded:
  assumes "m_parse env args = Some (JObject [(''command'', JString v)])"
    and "m_parse env args' = Some (JObject [(''a'', JString ''x''), (''command'', JString v)])"
    and "args \<noteq> []" "args \<noteq> ''{}''" "args' \<noteq> []" "args' \<noteq> ''{}''" "v \<noteq> ''x''"
    and "\<And>p t. m_fnmatch env p t = (p = t)" "CHR '':'' \<notin> set tool"
    and "deny_list (perms m) = [tool @ '':'' @ v]"
  shows "is_denied (m_fnmatch env) (perms m) tool (call_pattern env tool args) \<and>
    \<not> is_denied (m_fnmatch env) (perms m) tool (call_pattern env tool args') \<and>
    execute env m w tool args' = route_tool_call env m w tool args'"
proof -
  have p: "call_pattern env tool args = tool @ '':'' @ v" "call_pattern env tool args' = tool @ '':'' @ ''x''"
    using assms by (simp_all add: call_pattern_def args_to_pattern_def)
  have "find_char (CHR '':'') (tool @ '':'' @ v) = Some (length tool)"
    using assms(9) by (induction tool) auto
  then show ?thesis using p assms(7,8,10) by (simp add: is_denied_def pattern_matches_def execute_def)
qed

text \<open>
  One bad entry ends the discovery: an entry of \<open>.mcp.json\<close> that is no object makes the
  whole of \<open>discover\<close> throw, so no server of the file is connected, whatever else it declares.
\<close>

lemma malformed_entry_aborts_discovery:
  assumes "m_file env (path_join (project_dir m) ''.mcp.json'') = Some txt"
    and "m_parse env txt = Some (JObject [(''mcpServers'', JObject ((name, JString s) # entries))])"
    and "name \<notin> set (map fst (servers m) @ map fst (external_clients m))"
  shows "connect_discovered_servers env m w = None"
proof -
  have "parse_server_entry canon own existing ([], []) name (JString s) = None" if "name \<notin> set existing"
    for canon own existing
    using that by (simp add: parse_server_entry_def json_contains_def json_value_def)
  then have "parse_entries canon own existing ([], []) ((name, JString s) # entries) = None" if "name \<notin> set existing"
    for canon own existing using that by simp
  then show ?thesis
    using assms by (simp add: connect_discovered_servers_def discover_def parse_mcp_json_def Let_def del: parse_entries.simps)
qed

text \<open>
  A server that connects but does not answer \<open>tools/list\<close> takes the whole tool list down:
  it stays registered as connected with an empty cached list, which is no JSON, and from then on
  \<open>list_tools\<close> throws instead of listing the other servers' tools.
\<close>

lemma silent_server_breaks_tool_list:
  assumes "(name, cl) \<in> set (external_clients m)" "is_connected cl w" "cached_tools_json cl = []"
    and "m_parse env [] = None"
  shows "list_tools env m w = None"
proof -
  have "append_external_tools env w cs all = None" if "(name, cl) \<in> set cs" for cs all
    using that assms(2-4)
    by (induction cs arbitrary: all) (auto simp: client_list_tools_def split: option.split)
  with assms(1) show ?thesis by (simp add: list_tools_def split: option.split)
qed

subsection \<open>Examples\<close>

text \<open>One server with one tool, and an external server that is not connected.\<close>

definition demo_tool :: "unit tool" where
  "demo_tool = \<lparr>tool_def = \<lparr>def_name = ''read'', description = [], input_schema = [], output_schema = []\<rparr>,
     tool_run = (\<lambda>w args. (w, Inr \<lparr>result = ''data'', directives = []\<rparr>)), anchor_key = (\<lambda>_. []),
     required_access_level = READ\<rparr>"

definition demo_transport :: "unit transport" where
  "demo_transport = \<lparr>t_open = (\<lambda>w. (w, True)), t_close = (\<lambda>w. w), t_send = (\<lambda>w r t. (w, [])),
     t_connected = (\<lambda>w. False), t_interrupt = (\<lambda>w. w), t_clear_interrupt = (\<lambda>w. w), t_interrupted = (\<lambda>w. False)\<rparr>"

definition demo_manager :: "unit manager" where
  "demo_manager = \<lparr>perms = \<lparr>allow_list = [], deny_list = []\<rparr>, project_dir = ''/p'',
     servers = [(''fs'', (base_server ''fs'')\<lparr>srv_registry := [(''read'', demo_tool)]\<rparr>)], plugin_servers = [],
     external_clients = [(''ext'', new_client ''ext'' demo_transport)], server_infos = [],
     mcp_cfg = \<lparr>enabled_mcpjson_servers = [], disabled_mcpjson_servers = [], enable_all_project_mcp_servers = False,
       server_timeout_seconds = 10, external_servers = []\<rparr>,
     own_bridge_socket = [], health = None\<rparr>"

definition demo_mgr_env :: "unit manager_env" where
  "demo_mgr_env = \<lparr>m_parse = (\<lambda>_. None), m_dump = (\<lambda>_. ''out''), m_what = (\<lambda>_. []), m_fnmatch = (=), m_canon = (\<lambda>p. p),
     m_hash = length, m_home = None, m_file = (\<lambda>_. None), m_sse = (\<lambda>_. demo_transport), m_stdio = (\<lambda>_. demo_transport),
     m_load_plugin = (\<lambda>w p. (w, Inl ENTROPIC_ERROR_IO)), m_approver = None, m_now = (\<lambda>w. (w, 0)), m_jitter = (\<lambda>w r. 0),
     m_policy = default_policy, m_interval = 0\<rparr>"

lemma listed_tools_route_home_witness:
  "\<exists>srv t. map_of (servers demo_manager) (extract_prefix ''fs.read'') = Some srv \<and>
     get_tool (srv_registry srv) (extract_local_name ''fs.read'') = Some t \<and>
     ''fs.read'' = extract_prefix ''fs.read'' @ ''.'' @ def_name (tool_def t)"
proof -
  define descr where "descr n = JObject [(''description'', JString []), (''inputSchema'', JNull), (''name'', JString n)]" for n
  define env where "env = demo_mgr_env\<lparr>m_parse := (\<lambda>s. if s = [] then Some JNull else Some (JArray [descr ''read''])),
    m_dump := (\<lambda>_. ''out'')\<rparr>"
  have t: "tools_array (m_parse env) (srv_registry srv) = Some [descr ''read'']" if "(n, srv) \<in> set (servers demo_manager)" for n srv
    using that by (simp add: tools_array_def demo_manager_def demo_tool_def env_def descr_def base_server_def)
  have "\<not> ''name'' < ''description''" "\<not> ''name'' < ''inputSchema''" by code_simp+
  then have "append_builtin_tools env (servers demo_manager) [] = Some [descr ''fs.read'']"
    using t by (simp add: get_tools_json_def demo_manager_def append_prefixed_tools_def env_def descr_def
      json_elements_def prefix_tool_def Let_def)
  moreover have "list_all (\<lambda>(n, srv). CHR ''.'' \<notin> set n \<and> registry_ok (srv_registry srv) \<and>
      reads_back (m_parse env) (m_dump env) (srv_registry srv)) (servers demo_manager)"
    using t by (auto simp: list_all_iff reads_back_def env_def) (auto simp: demo_manager_def registry_ok_def demo_tool_def)
  ultimately obtain full srv x where "json_get_string (descr ''fs.read'') ''name'' = Some full"
    "map_of (servers demo_manager) (extract_prefix full) = Some srv"
    "get_tool (srv_registry srv) (extract_local_name full) = Some x"
    "full = extract_prefix full @ ''.'' @ def_name (tool_def x)"
    using listed_tools_route_home [of demo_manager env "[descr ''fs.read'']" "descr ''fs.read''"]
    by (auto simp: demo_manager_def)
  then show ?thesis by (auto simp: descr_def json_get_string_def)
qed


end
