(* ===== verification/Tool_Executor.thy ===== *)
theory Tool_Executor
  imports Server_Manager Utf8_Sanitize Hooks Engine_Types
begin

text \<open>
  The tool executor (\<open>src/mcp/tool_executor.cpp\<close>): the batch of tool calls of one model turn, the
  gates every call passes (hooks, anti-spiral, schema, authorization, tier, duplicates, approval),
  the dispatch to the session's servers, and what a result leaves behind in the loop context.

  The callbacks and hooks are fields of the environment and may change the whole executor state.
  A session resolver is the association list of the sessions that are bound to their own servers.
  Where the code throws an exception it does not catch (a JSON type error in a schema, in a
  directive or in a call's arguments), the result is \<^const>\<open>None\<close>.
\<close>

subsection \<open>State and environment\<close>

datatype tool_result_kind =
  kind_ok | kind_error | rejected_duplicate | rejected_schema | rejected_precondition | ok_empty
| delegation_failed | rejected_anti_spiral | rejected_unauthorized

fun result_kind_to_string :: "tool_result_kind \<Rightarrow> string" where
  "result_kind_to_string kind_ok = ''ok''"
| "result_kind_to_string ok_empty = ''ok_empty''"
| "result_kind_to_string kind_error = ''error''"
| "result_kind_to_string rejected_duplicate = ''rejected_duplicate''"
| "result_kind_to_string rejected_schema = ''rejected_schema''"
| "result_kind_to_string rejected_precondition = ''rejected_precondition''"
| "result_kind_to_string delegation_failed = ''delegation_failed''"
| "result_kind_to_string rejected_anti_spiral = ''rejected_anti_spiral''"
| "result_kind_to_string rejected_unauthorized = ''rejected_unauthorized''"

record tool_call_record =
  rec_sequence :: nat
  rec_tool_name :: string
  rec_params_summary :: string
  rec_status :: string
  rec_result_summary :: string
  rec_elapsed_ms :: rat
  rec_error_detail :: string
  rec_iteration :: int

record 'w executor =
  ex_world :: 'w
  ex_manager :: "'w manager"
  ex_sessions :: "(string \<times> 'w manager) list"
  ex_auth :: "auth_state option"
  ex_history :: "tool_call_record history"
  ex_seq :: nat

record 'w exec_env =
  x_cfg :: loop_config
  x_mgr :: "'w manager_env"
  x_on_tool_call :: "('w executor \<Rightarrow> string \<Rightarrow> 'w executor) option"
  x_on_tool_start :: "('w executor \<Rightarrow> string \<Rightarrow> 'w executor) option"
  x_on_tool_complete :: "('w executor \<Rightarrow> string \<Rightarrow> string \<Rightarrow> rat \<Rightarrow> 'w executor) option"
  x_on_state_change :: "('w executor \<Rightarrow> agent_state \<Rightarrow> 'w executor) option"
  x_fire_info :: "('w executor \<Rightarrow> int \<Rightarrow> string \<Rightarrow> 'w executor) option"
  x_fire_pre :: "'w executor fire_pre_fn option"
  x_fire_post :: "('w executor \<Rightarrow> int \<Rightarrow> string \<Rightarrow> 'w executor \<times> string option) option"
  x_tier_allowed :: "(string \<times> string list) list option"
  x_directives :: "('w executor \<Rightarrow> loop_context \<Rightarrow> directive_data list \<Rightarrow> 'w executor \<times> loop_context) option"
  x_after_tool :: "('w executor \<Rightarrow> loop_context \<Rightarrow> 'w executor \<times> loop_context) option"
  x_clock :: "'w executor \<Rightarrow> 'w executor \<times> rat"

definition servers_for :: "'w executor \<Rightarrow> string \<Rightarrow> 'w manager" where
  "servers_for e key = (case map_of (ex_sessions e) key of Some m \<Rightarrow> m | None \<Rightarrow> ex_manager e)"

definition set_servers_for :: "string \<Rightarrow> 'w manager \<Rightarrow> 'w executor \<Rightarrow> 'w executor" where
  "set_servers_for key m e =
     (case map_of (ex_sessions e) key of
        Some _ \<Rightarrow> e\<lparr>ex_sessions := AList.update key m (ex_sessions e)\<rparr>
      | None \<Rightarrow> e\<lparr>ex_manager := m\<rparr>)"

abbreviation jparse :: "'w exec_env \<Rightarrow> string \<Rightarrow> json option" where
  "jparse env \<equiv> m_parse (x_mgr env)"

abbreviation jdump :: "'w exec_env \<Rightarrow> json \<Rightarrow> string" where
  "jdump env \<equiv> m_dump (x_mgr env)"

definition set_meta :: "string \<Rightarrow> string \<Rightarrow> message \<Rightarrow> message" where
  "set_meta k v m = m\<lparr>metadata := AList.update k v (metadata m)\<rparr>"

subsection \<open>Messages\<close>

definition create_denied_message :: "tool_call \<Rightarrow> string \<Rightarrow> message" where
  "create_denied_message call reason = text_message ''user''
     (''Tool `'' @ call_name call @ ''` was denied: '' @ reason @ [CHR 0x0A, CHR 0x0A] @
      ''This tool is not available to you. Do NOT retry it. '' @
      ''Use a different approach to accomplish your task.'')"

definition create_error_message :: "tool_call \<Rightarrow> string \<Rightarrow> message" where
  "create_error_message call error = text_message ''user''
     (''Tool `'' @ call_name call @ ''` failed with error: '' @ error @ [CHR 0x0A, CHR 0x0A] @
      ''RECOVERY:'' @ [CHR 0x0A] @ ''- Check arguments are correct'' @ [CHR 0x0A] @
      ''- Try a different approach'' @ [CHR 0x0A] @ ''- Do NOT retry with the same arguments'')"

definition create_circuit_breaker_message :: message where
  "create_circuit_breaker_message = text_message ''user''
     (''STOP: You have called the same tool 3 times with identical arguments. '' @
      ''This indicates you are stuck. Please try a completely different approach or respond '' @
      ''to the user explaining what'' @ [CHR 0x27] @ ''s blocking you.'')"

definition create_duplicate_message :: "tool_call \<Rightarrow> string \<Rightarrow> message" where
  "create_duplicate_message call previous =
     text_message ''user''
       (if find_str ''was denied'' previous \<noteq> None \<or> find_str ''not available'' previous \<noteq> None
        then ''Tool `'' @ call_name call @ ''` is not available to you and retrying will not help. '' @
          ''You MUST use a different approach. Do NOT call `'' @ call_name call @ ''` again.''
        else ''Tool `'' @ call_name call @ ''` was already called with the same arguments.'' @ [CHR 0x0A, CHR 0x0A] @
          ''Previous result:'' @ [CHR 0x0A] @ previous @ [CHR 0x0A, CHR 0x0A] @
          ''Do NOT call this tool again. Use the previous result above.'')"

subsection \<open>Arguments and keys\<close>

definition arguments_object :: "tool_call \<Rightarrow> json" where
  "arguments_object call = JObject (omap_of (map (\<lambda>(k, v). (k, JString v)) (call_arguments call)))"

definition serialize_args :: "'w exec_env \<Rightarrow> tool_call \<Rightarrow> string" where
  "serialize_args env call =
     (if arguments_json call \<noteq> [] then arguments_json call else jdump env (arguments_object call))"

definition serialize_tool_call :: "'w exec_env \<Rightarrow> tool_call \<Rightarrow> string" where
  "serialize_tool_call env call =
     jdump env (JObject [(''arguments'', arguments_object call), (''id'', JString (call_id call)),
       (''name'', JString (call_name call))])"

definition tool_call_key :: "'w exec_env \<Rightarrow> tool_call \<Rightarrow> string" where
  "tool_call_key env call = call_name call @ '':'' @ jdump env (arguments_object call)"

text \<open>\<open>parse_tool_result_text\<close>: the \<open>result\<close> member, or the whole text.\<close>

definition parse_tool_result_text :: "'w exec_env \<Rightarrow> string \<Rightarrow> string" where
  "parse_tool_result_text env raw =
     (case jparse env raw of
        None \<Rightarrow> raw
      | Some j \<Rightarrow> (case json_value get_string j ''result'' raw of None \<Rightarrow> raw | Some t \<Rightarrow> t))"

subsection \<open>Batch order\<close>

text \<open>
  \<open>std::stable_sort\<close> with the comparison ``only the second is a delegation''.
\<close>

definition is_delegate :: "tool_call \<Rightarrow> bool" where
  "is_delegate call \<longleftrightarrow> call_name call = ''entropic.delegate''"

definition sort_tool_calls :: "tool_call list \<Rightarrow> tool_call list" where
  "sort_tool_calls calls = sort_key (\<lambda>c. if is_delegate c then 1 else 0 :: nat) calls"

text \<open>A negative limit becomes a huge \<open>size_t\<close>.\<close>

definition truncate_to_limit :: "tool_call list \<Rightarrow> int \<Rightarrow> tool_call list" where
  "truncate_to_limit calls limit = (if limit < 0 then calls else take (nat limit) calls)"

subsection \<open>Gates\<close>

definition check_duplicate :: "'w exec_env \<Rightarrow> 'w executor \<Rightarrow> loop_context \<Rightarrow> tool_call \<Rightarrow> string" where
  "check_duplicate env e c call =
     (if skip_duplicate_check (ex_manager e) (call_name call) then []
      else case map_of (recent_tool_calls c) (tool_call_key env call) of None \<Rightarrow> [] | Some prev \<Rightarrow> prev)"

definition handle_duplicate :: "loop_context \<Rightarrow> tool_call \<Rightarrow> string \<Rightarrow> loop_context \<times> message" where
  "handle_duplicate c call previous =
     (let c' = c\<lparr>consecutive_duplicate_attempts := consecutive_duplicate_attempts c + 1\<rparr> in
      (c', if consecutive_duplicate_attempts c' \<ge> 3 then create_circuit_breaker_message
           else create_duplicate_message call previous))"

definition ENTROPIC_HOOK_PRE_TOOL_CALL :: int where "ENTROPIC_HOOK_PRE_TOOL_CALL = 3"
definition ENTROPIC_HOOK_POST_TOOL_CALL :: int where "ENTROPIC_HOOK_POST_TOOL_CALL = 4"
definition ENTROPIC_HOOK_ON_PERMISSION_CHECK :: int where "ENTROPIC_HOOK_ON_PERMISSION_CHECK = 15"

definition check_approval :: "'w exec_env \<Rightarrow> 'w executor \<Rightarrow> tool_call \<Rightarrow> 'w executor \<times> bool" where
  "check_approval env e call =
     (let auto_ok = auto_approve_tools (x_cfg env) \<or>
            is_explicitly_allowed (x_mgr env) (ex_manager e) (call_name call) (serialize_args env call);
          (e1, approved) = (case x_on_tool_call env of
             Some f \<Rightarrow> if auto_ok then (e, True) else (f e (serialize_tool_call env call), True)
           | None \<Rightarrow> (e, auto_ok));
          e2 = (case x_fire_info env of
             None \<Rightarrow> e1
           | Some f \<Rightarrow> f e1 ENTROPIC_HOOK_ON_PERMISSION_CHECK
               (''{'' @ quoted ''tool_name'' @ '':'' @ quoted (call_name call) @ '','' @ quoted ''permission'' @ '':'' @
                quoted (if approved then ''allowed'' else ''denied'') @ ''}''))
      in (e2, approved))"

definition check_tier_allowed :: "'w exec_env \<Rightarrow> loop_context \<Rightarrow> tool_call \<Rightarrow> message option" where
  "check_tier_allowed env c call =
     (if locked_tier c = [] then None
      else case x_tier_allowed env of
        None \<Rightarrow> None
      | Some table \<Rightarrow>
          (case map_of table (locked_tier c) of
             None \<Rightarrow> None
           | Some tools \<Rightarrow>
               if call_name call \<in> set tools then None
               else Some (create_denied_message call
                 (''tier '' @ squoted (locked_tier c) @ '' is not authorized to call '' @ squoted (call_name call)))))"

definition check_mcp_authorization :: "'w executor \<Rightarrow> loop_context \<Rightarrow> tool_call \<Rightarrow> message option" where
  "check_mcp_authorization e c call =
     (case ex_auth e of
        None \<Rightarrow> None
      | Some auth \<Rightarrow>
          let identity = (if locked_tier c = [] then ''lead'' else locked_tier c);
              required = get_required_access_level (ex_manager e) (call_name call)
          in if \<not> is_enforced auth identity \<or> check_access auth identity (call_name call) required then None
             else Some (text_message ''user'' (''Tool `'' @ call_name call @ ''` was denied: identity `'' @ identity @
               ''` lacks '' @ mcp_access_level_name required @ '' access.'' @ [CHR 0x0A, CHR 0x0A] @
               ''Your MCP key set does not authorize this tool. Use `entropic.delegate` to hand off to an identity '' @
               ''that has the required access.'')))"

text \<open>
  Argument validation. Each check gives the error text, empty when it passes; \<^const>\<open>None\<close> is an
  exception.
\<close>

fun check_required_fields :: "json list \<Rightarrow> json \<Rightarrow> string option" where
  "check_required_fields [] args = Some []"
| "check_required_fields (req # reqs) args =
     (case get_string req of
        None \<Rightarrow> None
      | Some k \<Rightarrow> if json_contains args k then check_required_fields reqs args
                  else Some (''Missing required argument: '' @ k))"

definition check_enum :: "(json \<Rightarrow> string) \<Rightarrow> string \<Rightarrow> json \<Rightarrow> json \<Rightarrow> string" where
  "check_enum dump key allowed val =
     (if list_ex (\<lambda>e. json_eq e val) (json_elements allowed) then []
      else ''Invalid value for '' @ squoted key @ '': '' @ dump val @ ''. Must be one of: '' @ dump allowed)"

definition check_type :: "string \<Rightarrow> string \<Rightarrow> json \<Rightarrow> string" where
  "check_type key type val =
     (if (type = ''string'' \<and> is_string val) \<or> (type = ''integer'' \<and> is_number_integer val) \<or>
         (type = ''number'' \<and> is_number val) \<or> (type = ''boolean'' \<and> is_boolean val) \<or>
         (type = ''array'' \<and> is_array val) \<or> (type = ''object'' \<and> is_object val)
      then [] else ''Type mismatch for '' @ squoted key @ '': expected '' @ type)"

definition check_range :: "(json \<Rightarrow> string) \<Rightarrow> string \<Rightarrow> json \<Rightarrow> json \<Rightarrow> string option" where
  "check_range dump key prop val =
     (case get_double val of
        None \<Rightarrow> Some []
      | Some v \<Rightarrow>
          (case (case json_at prop ''minimum'' of None \<Rightarrow> Some False | Some lo \<Rightarrow> map_option (\<lambda>l. v < l) (get_double lo)) of
             None \<Rightarrow> None
           | Some True \<Rightarrow> Some (''Value for '' @ squoted key @ '' is '' @ dump val @ '', below the minimum '' @
               dump (the (json_at prop ''minimum'')))
           | Some False \<Rightarrow>
               (case (case json_at prop ''maximum'' of None \<Rightarrow> Some False | Some hi \<Rightarrow> map_option (\<lambda>h. v > h) (get_double hi)) of
                  None \<Rightarrow> None
                | Some True \<Rightarrow> Some (''Value for '' @ squoted key @ '' is '' @ dump val @ '', above the maximum '' @
                    dump (the (json_at prop ''maximum'')))
                | Some False \<Rightarrow> Some [])))"

definition check_property_constraints :: "(json \<Rightarrow> string) \<Rightarrow> string \<Rightarrow> json \<Rightarrow> json \<Rightarrow> string option" where
  "check_property_constraints dump key prop val =
     (let err = (case json_at prop ''enum'' of None \<Rightarrow> [] | Some allowed \<Rightarrow> check_enum dump key allowed val) in
      case (if err = [] then (case json_at prop ''type'' of
                None \<Rightarrow> Some []
              | Some t \<Rightarrow> map_option (\<lambda>ty. check_type key ty val) (get_string t))
            else Some err) of
        None \<Rightarrow> None
      | Some err' \<Rightarrow> if err' = [] then check_range dump key prop val else Some err')"

fun check_properties :: "(json \<Rightarrow> string) \<Rightarrow> (string \<times> json) list \<Rightarrow> json \<Rightarrow> string \<Rightarrow> string option" where
  "check_properties dump [] args err = Some err"
| "check_properties dump ((k, prop) # props) args err =
     (if err \<noteq> [] then Some err
      else case json_at args k of
             None \<Rightarrow> check_properties dump props args []
           | Some v \<Rightarrow> (case check_property_constraints dump k prop v of
                         None \<Rightarrow> None
                       | Some err' \<Rightarrow> check_properties dump props args err'))"

text \<open>\<open>properties\<close> that is neither an object nor null throws when its first key is asked for.\<close>

definition validate_tool_args :: "'w exec_env \<Rightarrow> string \<Rightarrow> json \<Rightarrow> string option" where
  "validate_tool_args env schema_json args =
     (case jparse env schema_json of
        Some (JObject schema) \<Rightarrow>
          (case check_required_fields (json_elements (case map_of schema ''required'' of None \<Rightarrow> JArray [] | Some r \<Rightarrow> r)) args of
             None \<Rightarrow> None
           | Some err \<Rightarrow>
               (case map_of schema ''properties'' of
                  None \<Rightarrow> Some err
                | Some (JObject props) \<Rightarrow> check_properties (jdump env) props args err
                | Some p \<Rightarrow> if json_elements p = [] \<or> err \<noteq> [] then Some err else None))
      | _ \<Rightarrow> Some [])"

definition check_schema :: "'w exec_env \<Rightarrow> 'w executor \<Rightarrow> tool_call \<Rightarrow> message option option" where
  "check_schema env e call =
     (let schema = get_tool_schema (x_mgr env) (ex_manager e) (ex_world e) (call_name call) in
      if schema = [] then Some None
      else case jparse env (serialize_args env call) of
             None \<Rightarrow> Some None
           | Some args \<Rightarrow>
               map_option (\<lambda>err. if err = [] then None else Some (create_denied_message call err))
                 (validate_tool_args env schema args))"

subsection \<open>Anti-spiral\<close>

definition update_anti_spiral_tracking :: "loop_config \<Rightarrow> loop_context \<Rightarrow> string \<Rightarrow> loop_context" where
  "update_anti_spiral_tracking cfg c tool_name =
     (let c1 = (if tool_name = last_tool_name c
                then c\<lparr>consecutive_same_tool_calls := consecutive_same_tool_calls c + 1\<rparr>
                else c\<lparr>last_tool_name := tool_name, consecutive_same_tool_calls := 1\<rparr>)
      in if consecutive_same_tool_calls c1 \<ge> max_consecutive_same_tool cfg
         then c1\<lparr>pending_anti_spiral_warning := tool_name @ '' has been called '' @
           to_string_int (consecutive_same_tool_calls c1) @
           '' times consecutively; pivot to a different tool or complete the task next turn.''\<rparr>
         else c1)"

definition effective_hard_block_threshold :: "loop_config \<Rightarrow> int" where
  "effective_hard_block_threshold cfg =
     (if max_consecutive_same_tool_hard_block cfg < 0 then max_consecutive_same_tool cfg + 2
      else max_consecutive_same_tool_hard_block cfg)"

type_synonym precondition_check = "message option \<times> tool_result_kind"

definition check_anti_spiral_hard_block :: "loop_config \<Rightarrow> loop_context \<Rightarrow> tool_call \<Rightarrow> precondition_check" where
  "check_anti_spiral_hard_block cfg c call =
     (let projected = (if call_name call = last_tool_name c then consecutive_same_tool_calls c + 1 else 1);
          threshold = effective_hard_block_threshold cfg
      in if projected \<ge> threshold
         then (Some (create_denied_message call (''[anti-spiral] tool '' @ squoted (call_name call) @ '' blocked after '' @
                 to_string_int projected @ '' consecutive calls (threshold '' @ to_string_int threshold @
                 ''); pivot to a different tool or complete the task.'')), rejected_anti_spiral)
         else (None, kind_ok))"

definition check_repeated_failure :: "'w exec_env \<Rightarrow> loop_context \<Rightarrow> tool_call \<Rightarrow> precondition_check" where
  "check_repeated_failure env c call =
     (case map_of (failed_tool_calls c) (tool_call_key env call) of
        None \<Rightarrow> (None, kind_ok)
      | Some failures \<Rightarrow>
          if failures + 1 \<ge> max_identical_failures (x_cfg env)
          then (Some (create_denied_message call (''[repeated-failure] tool '' @ squoted (call_name call) @
                  '' has already failed '' @ to_string_int failures @
                  '' times with identical arguments; the failure is not transient. Change the arguments, '' @
                  ''try a different approach, or report that the task cannot be completed this way.'')),
                rejected_anti_spiral)
          else (None, kind_ok))"

definition check_spiral_blocks :: "'w exec_env \<Rightarrow> loop_context \<Rightarrow> tool_call \<Rightarrow> precondition_check" where
  "check_spiral_blocks env c call =
     (let pc = check_anti_spiral_hard_block (x_cfg env) c call in
      if fst pc \<noteq> None then pc else check_repeated_failure env c call)"

definition check_approval_pc ::
  "'w exec_env \<Rightarrow> 'w executor \<Rightarrow> loop_context \<Rightarrow> tool_call \<Rightarrow> 'w executor \<times> loop_context \<times> precondition_check" where
  "check_approval_pc env e c call =
     (case check_approval env e call of (e', ok) \<Rightarrow>
        (e', c\<lparr>consecutive_duplicate_attempts := 0\<rparr>,
         if ok then (None, kind_ok) else (Some (create_denied_message call ''Permission denied''), rejected_precondition)))"

definition check_call_preconditions ::
  "'w exec_env \<Rightarrow> 'w executor \<Rightarrow> loop_context \<Rightarrow> tool_call \<Rightarrow> ('w executor \<times> loop_context \<times> precondition_check) option" where
  "check_call_preconditions env e c call =
     (let pc = check_spiral_blocks env c call in
      if fst pc \<noteq> None then Some (e, c, pc)
      else case check_schema env e call of
        None \<Rightarrow> None
      | Some (Some r) \<Rightarrow> Some (e, c, Some r, rejected_schema)
      | Some None \<Rightarrow>
          (case check_mcp_authorization e c call of
             Some a \<Rightarrow> Some (e, c, Some a, rejected_precondition)
           | None \<Rightarrow>
               (case check_tier_allowed env c call of
                  Some t \<Rightarrow> Some (e, c, Some t, rejected_unauthorized)
                | None \<Rightarrow>
                    let dup = check_duplicate env e c call in
                    if dup \<noteq> []
                    then (case handle_duplicate c call dup of (c', m) \<Rightarrow> Some (e, c', Some m, rejected_duplicate))
                    else Some (check_approval_pc env e c call))))"

subsection \<open>Hooks around a call\<close>

definition tier_name :: "string \<Rightarrow> string" where
  "tier_name tier = (if tier = [] then ''lead'' else tier)"

text \<open>\<open>json::parse(serialize_args(call))\<close> throws on arguments that are no JSON.\<close>

definition build_pre_tool_json :: "'w exec_env \<Rightarrow> tool_call \<Rightarrow> string \<Rightarrow> int \<Rightarrow> string option" where
  "build_pre_tool_json env call tier iteration =
     map_option (\<lambda>args. jdump env (JObject [(''args'', args), (''iteration'', JNum iteration),
         (''tier'', JString (tier_name tier)), (''tool_name'', JString (call_name call))]))
       (jparse env (serialize_args env call))"

text \<open>The result and the directives of the answer; a member of the wrong type counts as unreadable text.\<close>

definition post_result :: "'w exec_env \<Rightarrow> string \<Rightarrow> json \<times> json" where
  "post_result env raw =
     (case Option.bind (jparse env raw) (\<lambda>sr. Option.bind (json_value get_string sr ''result'' raw)
             (\<lambda>r. map_option (Pair (JString r)) (json_value Some sr ''directives'' (JArray [])))) of
        Some rd \<Rightarrow> rd
      | None \<Rightarrow> (JString raw, JArray []))"

definition build_post_tool_json ::
  "'w exec_env \<Rightarrow> tool_call \<Rightarrow> string \<Rightarrow> rat \<Rightarrow> string \<Rightarrow> int \<Rightarrow> tool_result_kind \<Rightarrow> string option" where
  "build_post_tool_json env call raw elapsed tier iteration kind =
     map_option (\<lambda>args. jdump env (JObject [(''args'', args), (''directives'', snd (post_result env raw)),
         (''elapsed_ms'', JFloat elapsed), (''iteration'', JNum iteration), (''result'', fst (post_result env raw)),
         (''result_kind'', JString (result_kind_to_string kind)), (''tier'', JString (tier_name tier)),
         (''tool_name'', JString (call_name call))]))
       (jparse env (serialize_args env call))"

definition pre_mod_renames_tool :: "(string \<times> json) list \<Rightarrow> string \<Rightarrow> bool" where
  "pre_mod_renames_tool kvs tool_name =
     (case map_of kvs ''tool_name'' of None \<Rightarrow> False | Some v \<Rightarrow> v \<noteq> JString tool_name)"

text \<open>The arguments a modification may put in place; \<^const>\<open>None\<close> refuses it.\<close>

definition pre_mod_args :: "json \<Rightarrow> string \<Rightarrow> (string \<times> json) list option" where
  "pre_mod_args parsed tool_name =
     (case parsed of
        JObject kvs \<Rightarrow>
          if pre_mod_renames_tool kvs tool_name then None
          else (case map_of kvs ''args'' of Some (JObject args) \<Rightarrow> Some args | _ \<Rightarrow> None)
      | _ \<Rightarrow> None)"

definition overwrite_call_arguments :: "'w exec_env \<Rightarrow> tool_call \<Rightarrow> (string \<times> json) list \<Rightarrow> tool_call" where
  "overwrite_call_arguments env call args =
     call\<lparr>arguments_json := jdump env (JObject args),
          call_arguments := map (\<lambda>(k, v). (k, case v of JString t \<Rightarrow> t | _ \<Rightarrow> jdump env v)) args\<rparr>"

definition apply_pre_tool_modification :: "'w exec_env \<Rightarrow> tool_call \<Rightarrow> string \<Rightarrow> tool_call" where
  "apply_pre_tool_modification env call modified =
     (case Option.bind (jparse env (sanitize modified)) (\<lambda>j. pre_mod_args j (call_name call)) of
        None \<Rightarrow> call
      | Some args \<Rightarrow> overwrite_call_arguments env call args)"

definition fire_pre_tool_hook ::
  "'w exec_env \<Rightarrow> 'w executor \<Rightarrow> loop_context \<Rightarrow> tool_call \<Rightarrow> ('w executor \<times> tool_call \<times> bool) option" where
  "fire_pre_tool_hook env e c call =
     (case x_fire_pre env of
        None \<Rightarrow> Some (e, call, False)
      | Some fire \<Rightarrow>
          map_option (\<lambda>json. case fire e ENTROPIC_HOOK_PRE_TOOL_CALL json of (e', rc, modified) \<Rightarrow>
              (e', (case modified of
                      None \<Rightarrow> call
                    | Some m \<Rightarrow> if rc = 0 then apply_pre_tool_modification env call m else call), rc \<noteq> 0))
            (build_pre_tool_json env call (locked_tier c) (iterations (metrics c))))"

definition fire_post_tool_hook ::
  "'w exec_env \<Rightarrow> 'w executor \<Rightarrow> loop_context \<Rightarrow> tool_call \<Rightarrow> string \<Rightarrow> rat \<Rightarrow> tool_result_kind \<Rightarrow> message \<Rightarrow>
   ('w executor \<times> message) option" where
  "fire_post_tool_hook env e c call raw elapsed kind msg =
     (case x_fire_post env of
        None \<Rightarrow> Some (e, msg)
      | Some fire \<Rightarrow>
          map_option (\<lambda>json. case fire e ENTROPIC_HOOK_POST_TOOL_CALL json of
              (e', None) \<Rightarrow> (e', msg)
            | (e', Some out) \<Rightarrow> (e', msg\<lparr>content := sanitize out\<rparr>))
            (build_post_tool_json env call raw elapsed (locked_tier c) (iterations (metrics c)) kind))"

subsection \<open>Executing a call\<close>

definition record_tool_history ::
  "'w exec_env \<Rightarrow> 'w executor \<Rightarrow> tool_call \<Rightarrow> string \<Rightarrow> string \<Rightarrow> rat \<Rightarrow> int \<Rightarrow> 'w executor" where
  "record_tool_history env e call args_json rtext ms iteration =
     (let n = ex_seq e + 1 in
      e\<lparr>ex_seq := n, ex_history := record_call (ex_history e)
          \<lparr>rec_sequence = n, rec_tool_name = call_name call, rec_params_summary = summarize_params (jparse env) args_json,
           rec_status = (if looks_like_tool_error rtext then ''error'' else ''success''),
           rec_result_summary = truncate_result rtext 200, rec_elapsed_ms = ms, rec_error_detail = [],
           rec_iteration = iteration\<rparr>\<rparr>)"

definition fire_tool_complete_callback ::
  "'w exec_env \<Rightarrow> 'w executor \<Rightarrow> tool_call \<Rightarrow> string \<Rightarrow> rat \<Rightarrow> 'w executor" where
  "fire_tool_complete_callback env e call rtext ms =
     (case x_on_tool_complete env of None \<Rightarrow> e | Some f \<Rightarrow> f e (serialize_tool_call env call) rtext ms)"

definition execute_tool ::
  "'w exec_env \<Rightarrow> 'w executor \<Rightarrow> loop_context \<Rightarrow> tool_call \<Rightarrow> 'w executor \<times> loop_context \<times> message \<times> string" where
  "execute_tool env e c call =
     (let args_json = serialize_args env call;
          e1 = (case x_on_tool_start env of None \<Rightarrow> e | Some f \<Rightarrow> f e (serialize_tool_call env call));
          (e2, t0) = x_clock env e1;
          (m', w', out) = execute (x_mgr env) (servers_for e2 (session_key c)) (ex_world e2) (call_name call) args_json;
          e3 = (set_servers_for (session_key c) m' e2)\<lparr>ex_world := w'\<rparr>;
          result_json = sanitize out;
          (e4, t1) = x_clock env e3;
          ms = of_int \<lfloor>t1 - t0\<rfloor>;
          c1 = c\<lparr>metrics := (metrics c)\<lparr>tool_calls := tool_calls (metrics c) + 1\<rparr>\<rparr>;
          rtext = parse_tool_result_text env result_json;
          e5 = record_tool_history env e4 call args_json rtext ms (iterations (metrics c1));
          e6 = fire_tool_complete_callback env e5 call rtext ms
      in (e6, c1, set_meta ''tool_name'' (call_name call) (set_meta ''tool_call_id'' (call_id call)
            (text_message ''user'' rtext)), result_json))"

definition record_tool_call :: "'w exec_env \<Rightarrow> loop_context \<Rightarrow> tool_call \<Rightarrow> string \<Rightarrow> loop_context" where
  "record_tool_call env c call raw =
     (let txt = parse_tool_result_text env raw; key = tool_call_key env call in
      if looks_like_tool_error txt
      then c\<lparr>failed_tool_calls := AList.update key
               ((case map_of (failed_tool_calls c) key of None \<Rightarrow> 0 | Some n \<Rightarrow> n) + 1) (failed_tool_calls c)\<rparr>
      else c\<lparr>failed_tool_calls := AList.delete key (failed_tool_calls c),
             recent_tool_calls := AList.update key txt (recent_tool_calls c)\<rparr>)"

definition classify_tool_result :: "string \<Rightarrow> tool_result_kind" where
  "classify_tool_result txt =
     (if looks_like_tool_error txt then kind_error else if is_effectively_empty txt then ok_empty else kind_ok)"

subsection \<open>Directives in a result\<close>

definition extract_pipeline_stages :: "json \<Rightarrow> string list option" where
  "extract_pipeline_stages j =
     (case json_at j ''stages'' of None \<Rightarrow> Some [] | Some ss \<Rightarrow> get_all get_string (json_elements ss))"

fun context_refs :: "json list \<Rightarrow> context_ref list option" where
  "context_refs [] = Some []"
| "context_refs (entry # es) =
     (if \<not> is_object entry then context_refs es
      else case json_value get_string entry ''path'' [] of
        None \<Rightarrow> None
      | Some p \<Rightarrow>
          if p = [] then context_refs es
          else (case (json_value get_string entry ''lines'' [], json_value get_string entry ''note'' []) of
                  (Some ls, Some nt) \<Rightarrow>
                    map_option ((#) \<lparr>ref_path = p, ref_lines = ls, ref_note = nt\<rparr>) (context_refs es)
                | _ \<Rightarrow> None))"

definition extract_context_refs :: "json \<Rightarrow> context_ref list option" where
  "extract_context_refs j = (case json_at j ''context'' of Some (JArray es) \<Rightarrow> context_refs es | _ \<Rightarrow> Some [])"

definition build_complete_directive :: "json \<Rightarrow> directive_data option" where
  "build_complete_directive j =
     (case (json_value get_string j ''summary'' [], json_value get_bool j ''coverage_gap'' False,
            json_value get_string j ''gap_description'' []) of
        (Some txt, Some gap, Some desc) \<Rightarrow>
          map_option (Complete txt gap desc)
            (case json_at j ''suggested_files'' of Some (JArray fs) \<Rightarrow> get_all get_string fs | _ \<Rightarrow> Some [])
      | _ \<Rightarrow> None)"

definition build_delegate_directive :: "json \<Rightarrow> directive_data option" where
  "build_delegate_directive j =
     (case (json_value get_string j ''target'' [], json_value get_string j ''task'' [],
            json_value get_int j ''max_turns'' (- 1), json_value get_string j ''delegation_id'' [],
            extract_context_refs j, json_value get_bool j ''resume_by_target'' False) of
        (Some tgt, Some tsk, Some turns, Some did, Some refs, Some by_target) \<Rightarrow>
          Some (Delegate \<lparr>target = tgt, task = tsk, max_turns = turns, resume_from_delegation_id = did,
            delegation_context = refs, resume_by_target = by_target\<rparr>)
      | _ \<Rightarrow> None)"

definition build_pipeline_directive :: "json \<Rightarrow> directive_data option" where
  "build_pipeline_directive j =
     (case (extract_pipeline_stages j, json_value get_string j ''task'' [], extract_context_refs j) of
        (Some ss, Some tsk, Some refs) \<Rightarrow>
          Some (Pipeline \<lparr>stages = ss, pipeline_task = tsk, pipeline_context = refs\<rparr>)
      | _ \<Rightarrow> None)"

text \<open>The directive of an entry: an exception, no directive, or one.\<close>

definition build_directive :: "json \<Rightarrow> json \<Rightarrow> directive_data option option" where
  "build_directive d j =
     (case json_value get_string d ''type'' [] of
        None \<Rightarrow> None
      | Some t \<Rightarrow>
          if t = ''stop_processing'' then Some (Some StopProcessing)
          else if t = ''delegate'' then map_option Some (build_delegate_directive j)
          else if t = ''complete'' then map_option Some (build_complete_directive j)
          else if t = ''pipeline'' then map_option Some (build_pipeline_directive j)
          else Some None)"

definition extract_directive_array :: "'w exec_env \<Rightarrow> string \<Rightarrow> (json \<times> json list) option" where
  "extract_directive_array env raw =
     (case jparse env raw of
        Some (JObject kvs) \<Rightarrow>
          (case map_of kvs ''directives'' of
             Some (JArray (d # ds)) \<Rightarrow> Some (JObject kvs, d # ds)
           | _ \<Rightarrow> None)
      | _ \<Rightarrow> None)"

text \<open>
  The text of the result is parsed again; when that is no JSON, every member access on the
  discarded value throws, which only the directives without members do not do.
\<close>

definition build_directives :: "'w exec_env \<Rightarrow> json \<Rightarrow> json list \<Rightarrow> directive_data list option" where
  "build_directives env resp ds =
     (case json_value get_string resp ''result'' ''{}'' of
        None \<Rightarrow> None
      | Some txt \<Rightarrow>
          let j = (case jparse env txt of None \<Rightarrow> JNull | Some j \<Rightarrow> j)
          in map_option (\<lambda>os. map the (filter (\<lambda>ob. ob \<noteq> None) os)) (get_all (\<lambda>d. build_directive d j) ds))"

definition extract_and_process_directives ::
  "'w exec_env \<Rightarrow> 'w executor \<Rightarrow> loop_context \<Rightarrow> string \<Rightarrow> ('w executor \<times> loop_context) option" where
  "extract_and_process_directives env e c raw =
     (case x_directives env of
        None \<Rightarrow> Some (e, c)
      | Some proc \<Rightarrow>
          (case extract_directive_array env raw of
             None \<Rightarrow> Some (e, c)
           | Some (resp, ds) \<Rightarrow>
               map_option (\<lambda>owned. if owned = [] then (e, c) else proc e c owned) (build_directives env resp ds)))"

subsection \<open>The whole call and the batch\<close>

definition finalize_tool_call ::
  "'w exec_env \<Rightarrow> 'w executor \<Rightarrow> loop_context \<Rightarrow> tool_call \<Rightarrow> message \<Rightarrow> string \<Rightarrow> rat \<Rightarrow>
   ('w executor \<times> loop_context \<times> message) option" where
  "finalize_tool_call env e c call msg raw ms =
     (let m1 = set_meta ''added_at_iteration'' (to_string_int (iterations (metrics c)))
                 (msg\<lparr>content := truncate_to_cap (content msg) (max_tool_result_bytes (x_cfg env))\<rparr>);
          c1 = record_tool_call env (c\<lparr>effective_tool_calls := effective_tool_calls c + 1\<rparr>) call raw;
          kind = classify_tool_result (content m1);
          m2 = set_meta ''result_kind'' (result_kind_to_string kind) m1
      in case fire_post_tool_hook env e c1 call raw ms kind m2 of
           None \<Rightarrow> None
         | Some (e1, m3) \<Rightarrow>
             (case extract_and_process_directives env e1
                     (update_anti_spiral_tracking (x_cfg env) c1 (call_name call)) raw of
                None \<Rightarrow> None
              | Some (e2, c2) \<Rightarrow>
                  (case x_after_tool env of
                     None \<Rightarrow> Some (e2, c2, m3)
                   | Some f \<Rightarrow> (case f e2 c2 of (e3, c3) \<Rightarrow> Some (e3, c3, m3)))))"

definition reject_call ::
  "'w exec_env \<Rightarrow> 'w executor \<Rightarrow> loop_context \<Rightarrow> tool_call \<Rightarrow> message \<Rightarrow> tool_result_kind \<Rightarrow>
   ('w executor \<times> loop_context \<times> message list) option" where
  "reject_call env e c call msg kind =
     map_option (\<lambda>(e', m). (e', c, [m]))
       (fire_post_tool_hook env e c call [] 0 kind (set_meta ''result_kind'' (result_kind_to_string kind) msg))"

definition process_single_call ::
  "'w exec_env \<Rightarrow> 'w executor \<Rightarrow> loop_context \<Rightarrow> tool_call \<Rightarrow> ('w executor \<times> loop_context \<times> message list) option" where
  "process_single_call env e c incoming =
     (case fire_pre_tool_hook env e c incoming of
        None \<Rightarrow> None
      | Some (e1, call, True) \<Rightarrow>
          reject_call env e1 c call (create_denied_message call ''Cancelled by hook'') rejected_precondition
      | Some (e1, call, False) \<Rightarrow>
          (case check_call_preconditions env e1 c call of
             None \<Rightarrow> None
           | Some (e2, c2, Some rejection, kind) \<Rightarrow> reject_call env e2 c2 call rejection kind
           | Some (e2, c2, None, kind) \<Rightarrow>
               let (e3, t0) = x_clock env e2;
                   (e4, c3, msg, raw) = execute_tool env e3 c2 call;
                   (e5, t1) = x_clock env e4
               in map_option (\<lambda>(e', c', m). (e', c', [m])) (finalize_tool_call env e5 c3 call msg raw (t1 - t0))))"

definition should_stop_batch :: "loop_context \<Rightarrow> bool" where
  "should_stop_batch c \<longleftrightarrow> ctx_state c = COMPLETE \<or> ctx_pending_delegation c \<noteq> None \<or>
     ctx_pending_pipeline c \<noteq> None \<or> consecutive_duplicate_attempts c \<ge> 3"

fun process_calls ::
  "'w exec_env \<Rightarrow> 'w executor \<Rightarrow> loop_context \<Rightarrow> tool_call list \<Rightarrow> message list \<Rightarrow>
   ('w executor \<times> loop_context \<times> message list) option" where
  "process_calls env e c [] results = Some (e, c, results)"
| "process_calls env e c (call # calls) results =
     (case process_single_call env e c call of
        None \<Rightarrow> None
      | Some (e', c', msgs) \<Rightarrow>
          if should_stop_batch c' then Some (e', c', results @ msgs)
          else process_calls env e' c' calls (results @ msgs))"

definition resolve_tool_call_limit :: "loop_config \<Rightarrow> loop_context \<Rightarrow> int" where
  "resolve_tool_call_limit cfg c =
     (if effective_max_tool_calls_per_turn c \<ge> 0 then effective_max_tool_calls_per_turn c
      else max_tool_calls_per_turn cfg)"

definition process_tool_calls ::
  "'w exec_env \<Rightarrow> 'w executor \<Rightarrow> loop_context \<Rightarrow> tool_call list \<Rightarrow> ('w executor \<times> loop_context \<times> message list) option" where
  "process_tool_calls env e c calls =
     (let c1 = c\<lparr>ctx_state := WAITING_TOOL\<rparr>;
          e1 = (case x_on_state_change env of None \<Rightarrow> e | Some f \<Rightarrow> f e (ctx_state c1));
          limited = truncate_to_limit (sort_tool_calls calls) (resolve_tool_call_limit (x_cfg env) c1)
      in map_option (\<lambda>(e', c', results). (e', c'\<lparr>consecutive_errors := 0\<rparr>, results))
           (process_calls env e1 c1 limited []))"

subsection \<open>Lemmas: the batch\<close>

lemma insort_delegate:
  assumes "is_delegate x" "list_all (\<lambda>c. \<not> is_delegate c) xs" "list_all is_delegate ys"
  shows "insort_key (\<lambda>c. if is_delegate c then 1 else 0 :: nat) x (xs @ ys) = xs @ x # ys"
  using assms(2)
proof (induction xs)
  case Nil
  with assms show ?case by (cases ys) simp_all
qed (use assms(1) in simp)

lemma insort_other:
  "\<not> is_delegate x \<Longrightarrow> insort_key (\<lambda>c. if is_delegate c then 1 else 0 :: nat) x xs = x # xs"
  by (cases xs) simp_all

lemma sort_tool_calls_partition:
  "sort_tool_calls calls = filter (\<lambda>c. \<not> is_delegate c) calls @ filter is_delegate calls"
  unfolding sort_tool_calls_def sort_key_def
proof (induction calls)
  case (Cons x xs)
  then show ?case by (cases "is_delegate x") (simp_all add: insort_delegate insort_other list_all_iff)
qed simp

subsection \<open>Lemmas: the gates\<close>

lemma call_preconditions_cleared:
  assumes "check_call_preconditions env e c call = Some (e', c', None, k)"
  shows "fst (check_spiral_blocks env c call) = None" "check_schema env e call = Some None"
    "check_mcp_authorization e c call = None" "check_tier_allowed env c call = None"
    "check_duplicate env e c call = []" "check_approval env e call = (e', True)"
    "c' = c\<lparr>consecutive_duplicate_attempts := 0\<rparr>"
  using assms
  by (auto simp: check_call_preconditions_def check_approval_pc_def Let_def
      split: option.splits if_splits prod.splits)

lemma spiral_blocks_cleared:
  assumes "fst (check_spiral_blocks env c call) = None"
  shows "(if call_name call = last_tool_name c then consecutive_same_tool_calls c + 1 else 1)
      < effective_hard_block_threshold (x_cfg env)"
    and "map_of (failed_tool_calls c) (tool_call_key env call) = Some n \<Longrightarrow> n + 1 < max_identical_failures (x_cfg env)"
  using assms
  by (auto simp: check_spiral_blocks_def check_anti_spiral_hard_block_def check_repeated_failure_def Let_def
      split: if_splits)

lemma pre_hook_keeps_tool:
  assumes "fire_pre_tool_hook env e c call = Some (e', call', cancelled)"
  shows "call_name call' = call_name call" "call_id call' = call_id call" "cancelled \<Longrightarrow> call' = call"
proof -
  have m: "call_name (apply_pre_tool_modification env call m) = call_name call \<and>
      call_id (apply_pre_tool_modification env call m) = call_id call" for m
    by (simp add: apply_pre_tool_modification_def overwrite_call_arguments_def split: option.split)
  have "call_name call' = call_name call \<and> call_id call' = call_id call \<and> (cancelled \<longrightarrow> call' = call)"
  proof (cases "x_fire_pre env")
    case (Some fire)
    then obtain json where j: "build_pre_tool_json env call (locked_tier c) (iterations (metrics c)) = Some json"
      using assms by (auto simp: fire_pre_tool_hook_def)
    obtain e1 rc md where r: "fire e ENTROPIC_HOOK_PRE_TOOL_CALL json = (e1, rc, md)" by (rule prod_cases3)
    then have f: "fire e ENTROPIC_HOOK_PRE_TOOL_CALL json = (e1, rc, md)"
      "call' = (case md of None \<Rightarrow> call | Some m \<Rightarrow> if rc = 0 then apply_pre_tool_modification env call m else call)"
      "cancelled = (rc \<noteq> 0)"
      using assms Some j by (auto simp: fire_pre_tool_hook_def)
    with m show ?thesis by (cases md) simp_all
  qed (use assms in \<open>auto simp: fire_pre_tool_hook_def\<close>)
  then show "call_name call' = call_name call" "call_id call' = call_id call" "cancelled \<Longrightarrow> call' = call"
    by simp_all
qed

text \<open>The outcomes of one call.\<close>

lemma process_single_call_cases:
  assumes "process_single_call env e c incoming = Some (e', c', msgs)"
  obtains (cancelled) e1 call m where "fire_pre_tool_hook env e c incoming = Some (e1, call, True)"
      "fire_post_tool_hook env e1 c call [] 0 rejected_precondition
        (set_meta ''result_kind'' ''rejected_precondition'' (create_denied_message call ''Cancelled by hook'')) = Some (e', m)"
      "c' = c" "msgs = [m]"
  | (rejected) e1 call e2 rejection kind m where "fire_pre_tool_hook env e c incoming = Some (e1, call, False)"
      "check_call_preconditions env e1 c call = Some (e2, c', Some rejection, kind)"
      "fire_post_tool_hook env e2 c' call [] 0 kind
        (set_meta ''result_kind'' (result_kind_to_string kind) rejection) = Some (e', m)" "msgs = [m]"
  | (executed) e1 call e2 c2 kind e3 t0 e4 c3 msg raw e5 t1 m where
      "fire_pre_tool_hook env e c incoming = Some (e1, call, False)"
      "check_call_preconditions env e1 c call = Some (e2, c2, None, kind)"
      "x_clock env e2 = (e3, t0)" "execute_tool env e3 c2 call = (e4, c3, msg, raw)"
      "x_clock env e4 = (e5, t1)" "finalize_tool_call env e5 c3 call msg raw (t1 - t0) = Some (e', c', m)" "msgs = [m]"
proof -
  obtain e1 call b where h: "fire_pre_tool_hook env e c incoming = Some (e1, call, b)"
    using assms by (auto simp: process_single_call_def split: option.split_asm)
  show thesis
  proof (cases b)
    case True
    with h assms cancelled show ?thesis by (auto simp: process_single_call_def reject_call_def)
  next
    case False
    with h assms obtain e2 c2 r kind where p: "check_call_preconditions env e1 c call = Some (e2, c2, r, kind)"
      by (auto simp: process_single_call_def split: option.split_asm)
    show ?thesis
    proof (cases r)
      case (Some rejection)
      with h p False assms rejected show ?thesis by (auto simp: process_single_call_def reject_call_def)
    next
      case None
      obtain e3 t0 where t: "x_clock env e2 = (e3, t0)" by fastforce
      obtain e4 c3 msg raw where x: "execute_tool env e3 c2 call = (e4, c3, msg, raw)"
        by (cases "execute_tool env e3 c2 call") auto
      obtain e5 t1 where u: "x_clock env e4 = (e5, t1)" by fastforce
      from h p False None assms t x u executed show ?thesis by (auto simp: process_single_call_def)
    qed
  qed
qed

lemma single_call_one_message:
  "process_single_call env e c call = Some (e', c', msgs) \<Longrightarrow> length msgs = 1"
  by (erule process_single_call_cases) simp_all

lemma process_calls_results:
  "process_calls env e c calls results = Some (e', c', msgs) \<Longrightarrow>
   \<exists>more. msgs = results @ more \<and> length more \<le> length calls"
proof (induction env e c calls results rule: process_calls.induct)
  case (2 env e c call calls results)
  then obtain e1 c1 ms where p: "process_single_call env e c call = Some (e1, c1, ms)"
    by (auto split: option.splits)
  note one = single_call_one_message [OF p]
  show ?case
  proof (cases "should_stop_batch c1")
    case True
    with 2(2) p one show ?thesis by auto
  next
    case False
    with 2(2) p have "process_calls env e1 c1 calls (results @ ms) = Some (e', c', msgs)" by simp
    with 2(1) [OF p refl refl False] one show ?thesis by fastforce
  qed
qed simp


subsection \<open>Lemmas: what a call leaves behind\<close>

lemma rejection_frame:
  assumes "check_call_preconditions env e c call = Some (e', c', Some r, k)"
  shows "\<exists>n. c' = c\<lparr>consecutive_duplicate_attempts := n\<rparr>"
proof -
  have self: "\<exists>n. x = x\<lparr>consecutive_duplicate_attempts := n\<rparr>" for x :: loop_context
    by (rule exI [of _ "consecutive_duplicate_attempts x"]) simp
  show ?thesis using assms
    by (auto simp: check_call_preconditions_def check_approval_pc_def handle_duplicate_def Let_def self
        split: option.split_asm if_split_asm prod.split_asm)
qed

definition spiral_state :: "loop_context \<Rightarrow> string \<times> int \<times> (string \<times> int) list" where
  "spiral_state c = (last_tool_name c, consecutive_same_tool_calls c, failed_tool_calls c)"

text \<open>The loop context a directive handler or the after-tool hook returns keeps the spiral counters.\<close>

definition hooks_keep_counters :: "'w exec_env \<Rightarrow> bool" where
  "hooks_keep_counters env \<longleftrightarrow>
     (\<forall>f e c ds. x_directives env = Some f \<longrightarrow> spiral_state (snd (f e c ds)) = spiral_state c) \<and>
     (\<forall>f e c. x_after_tool env = Some f \<longrightarrow> spiral_state (snd (f e c)) = spiral_state c)"

lemma directives_keep_counters:
  "extract_and_process_directives env e c raw = Some (e', c') \<Longrightarrow> hooks_keep_counters env \<Longrightarrow>
   spiral_state c' = spiral_state c"
  unfolding extract_and_process_directives_def hooks_keep_counters_def
  by (auto split: option.split_asm if_split_asm) (metis snd_conv)+

lemma finalize_counters:
  assumes "finalize_tool_call env e c call msg raw ms = Some (e', c', m)" "hooks_keep_counters env"
  shows "spiral_state c' = spiral_state (update_anti_spiral_tracking (x_cfg env)
    (record_tool_call env (c\<lparr>effective_tool_calls := effective_tool_calls c + 1\<rparr>) call raw) (call_name call))"
proof -
  let ?c = "update_anti_spiral_tracking (x_cfg env)
    (record_tool_call env (c\<lparr>effective_tool_calls := effective_tool_calls c + 1\<rparr>) call raw) (call_name call)"
  obtain e1 e2 c2 where d: "extract_and_process_directives env e1 ?c raw = Some (e2, c2)"
    "(case x_after_tool env of None \<Rightarrow> c' = c2 | Some f \<Rightarrow> c' = snd (f e2 c2))"
    using assms(1) by (auto simp: finalize_tool_call_def Let_def split: option.split_asm prod.split_asm)
  have "spiral_state c' = spiral_state c2"
    using d(2) assms(2) by (auto simp: hooks_keep_counters_def split: option.split_asm)
  with directives_keep_counters [OF d(1) assms(2)] show ?thesis by simp
qed

lemma execute_tool_frame:
  "execute_tool env e c call = (e', c', msg, raw) \<Longrightarrow>
   spiral_state c' = spiral_state c"
  by (auto simp: execute_tool_def spiral_state_def Let_def split: prod.split_asm)

text \<open>
  No tool is called more often in a row than the hard block allows, and no identical call has
  failed more often than the failure limit allows.
\<close>

definition spiral_inv :: "loop_config \<Rightarrow> loop_context \<Rightarrow> bool" where
  "spiral_inv cfg c \<longleftrightarrow> consecutive_same_tool_calls c < max 1 (effective_hard_block_threshold cfg) \<and>
     (\<forall>k n. map_of (failed_tool_calls c) k = Some n \<longrightarrow> n \<le> max 1 (max_identical_failures cfg - 1))"

lemma spiral_inv_state: "spiral_state c = spiral_state c' \<Longrightarrow> spiral_inv cfg c \<longleftrightarrow> spiral_inv cfg c'"
  by (simp add: spiral_state_def spiral_inv_def)

lemma spiral_inv_update:
  assumes "spiral_inv cfg c"
    and "(if t = last_tool_name c then consecutive_same_tool_calls c + 1 else 1) < effective_hard_block_threshold cfg"
  shows "spiral_inv cfg (update_anti_spiral_tracking cfg c t)"
  using assms by (auto simp: spiral_inv_def update_anti_spiral_tracking_def Let_def)

lemma spiral_inv_record:
  assumes "spiral_inv (x_cfg env) c"
    and "\<And>n. map_of (failed_tool_calls c) (tool_call_key env call) = Some n \<Longrightarrow> n + 1 < max_identical_failures (x_cfg env)"
  shows "spiral_inv (x_cfg env) (record_tool_call env c call raw)"
    and "last_tool_name (record_tool_call env c call raw) = last_tool_name c"
    and "consecutive_same_tool_calls (record_tool_call env c call raw) = consecutive_same_tool_calls c"
  using assms
  by (auto simp: spiral_inv_def record_tool_call_def Let_def split: option.split)

lemma single_call_spiral_inv:
  assumes "process_single_call env e c incoming = Some (e', c', msgs)" "hooks_keep_counters env"
    and "spiral_inv (x_cfg env) c"
  shows "spiral_inv (x_cfg env) c'"
  using assms(1)
proof (cases rule: process_single_call_cases)
  case (cancelled e1 call m)
  with assms(3) show ?thesis by simp
next
  case (rejected e1 call e2 rejection kind m)
  with rejection_frame [OF rejected(2)] assms(3) show ?thesis by (auto simp: spiral_inv_def)
next
  case (executed e1 call e2 c2 kind e3 t0 e4 c3 msg raw e5 t1 m)
  note cleared = call_preconditions_cleared [OF executed(2)]
  note spiral = spiral_blocks_cleared [OF cleared(1)]
  have "spiral_state c3 = spiral_state c" using execute_tool_frame [OF executed(4)] cleared(7) by (simp add: spiral_state_def)
  then have s: "last_tool_name c3 = last_tool_name c" "consecutive_same_tool_calls c3 = consecutive_same_tool_calls c"
    "failed_tool_calls c3 = failed_tool_calls c" by (simp_all add: spiral_state_def)
  let ?c = "c3\<lparr>effective_tool_calls := effective_tool_calls c3 + 1\<rparr>"
  have "spiral_inv (x_cfg env) ?c" using assms(3) s by (simp add: spiral_inv_def)
  then have r: "spiral_inv (x_cfg env) (record_tool_call env ?c call raw)"
    "last_tool_name (record_tool_call env ?c call raw) = last_tool_name c"
    "consecutive_same_tool_calls (record_tool_call env ?c call raw) = consecutive_same_tool_calls c"
    using spiral_inv_record [of env ?c call raw] spiral(2) s by auto
  have "spiral_inv (x_cfg env) (update_anti_spiral_tracking (x_cfg env) (record_tool_call env ?c call raw) (call_name call))"
    by (rule spiral_inv_update [OF r(1)]) (subst r(2), subst r(3), rule spiral(1))
  with finalize_counters [OF executed(6) assms(2)] show ?thesis using spiral_inv_state by blast
qed

lemma process_calls_spiral_inv:
  "process_calls env e c calls results = Some (e', c', msgs) \<Longrightarrow> hooks_keep_counters env \<Longrightarrow>
   spiral_inv (x_cfg env) c \<Longrightarrow> spiral_inv (x_cfg env) c'"
proof (induction env e c calls results rule: process_calls.induct)
  case (2 env e c call calls results)
  then obtain e1 c1 ms where p: "process_single_call env e c call = Some (e1, c1, ms)"
    by (auto split: option.split_asm)
  note i = single_call_spiral_inv [OF p 2(3,4)]
  show ?case
  proof (cases "should_stop_batch c1")
    case True
    with 2(2) p i show ?thesis by auto
  next
    case False
    with 2(2) p have "process_calls env e1 c1 calls (results @ ms) = Some (e', c', msgs)" by simp
    from 2(1) [OF p refl refl False this 2(3) i] show ?thesis .
  qed
qed simp

subsection \<open>Lemmas: answers of external servers\<close>

definition reads_envelopes :: "(string \<Rightarrow> json option) \<Rightarrow> (json \<Rightarrow> string) \<Rightarrow> bool" where
  "reads_envelopes parse dump \<longleftrightarrow>
     (\<forall>t b j. parse (sanitize (build_response dump t b)) = Some j \<longrightarrow> j = response_envelope t b)"

lemma envelope_no_directives:
  assumes "reads_envelopes (jparse env) (jdump env)"
  shows "extract_and_process_directives env e c (sanitize (build_response (jdump env) t b)) = Some (e, c)"
proof (cases "jparse env (sanitize (build_response (jdump env) t b))")
  case (Some j)
  with assms have "j = response_envelope t b" by (auto simp: reads_envelopes_def)
  with Some show ?thesis
    by (simp add: extract_and_process_directives_def extract_directive_array_def response_envelope_def
        response_json_def split: option.split)
qed (simp add: extract_and_process_directives_def extract_directive_array_def split: option.split)

subsection \<open>Properties\<close>



text \<open>
  A batch runs delegations last and in the model's order otherwise, never more calls than
  the turn's limit (a tier's own limit comes before the configured one), and answers each call it
  runs with exactly one message.
\<close>

lemma batch_limited:
  assumes "process_tool_calls env e c calls = Some (e', c', msgs)" "resolve_tool_call_limit (x_cfg env) c \<ge> 0"
  shows "int (length msgs) \<le> resolve_tool_call_limit (x_cfg env) c \<and> length msgs \<le> length calls \<and>
    sort_tool_calls calls = filter (\<lambda>t. \<not> is_delegate t) calls @ filter is_delegate calls"
proof -
  let ?lim = "truncate_to_limit (sort_tool_calls calls) (resolve_tool_call_limit (x_cfg env) (c\<lparr>ctx_state := WAITING_TOOL\<rparr>))"
  obtain e1 c1 where "process_calls env e1 (c\<lparr>ctx_state := WAITING_TOOL\<rparr>) ?lim [] = Some (e', c1, msgs)"
    using assms(1) by (auto simp: process_tool_calls_def Let_def)
  from process_calls_results [OF this] have "length msgs \<le> length ?lim" by auto
  moreover have "length (sort_tool_calls calls) = length calls" by (simp add: sort_tool_calls_def)
  ultimately show ?thesis
    using assms(2) by (auto simp: truncate_to_limit_def resolve_tool_call_limit_def sort_tool_calls_partition split: if_splits)
qed

text \<open>
  An external server cannot steer the engine: for a tool of an external server the answer
  carries no directive, whatever the server sent, so processing the answer's directives changes
  nothing. Of the JSON library it is used that what it reads back from an answer envelope it
  printed, if it reads anything, is that envelope.
\<close>

lemma external_results_carry_no_directives:
  assumes "map_of (servers m) (extract_prefix tool) = None" "map_of (plugin_servers m) (extract_prefix tool) = None"
    and "reads_envelopes (jparse env) (jdump env)"
  shows "case execute (x_mgr env) m w tool args of (m', w', out) \<Rightarrow>
    extract_and_process_directives env e c (sanitize out) = Some (e, c)"
proof -
  obtain m' w' out where x: "execute (x_mgr env) m w tool args = (m', w', out)" by (rule prod_cases3)
  have plain: "jdump env (response_json t []) = build_response (jdump env) t False" for t
    by (simp add: build_response_def response_envelope_def)
  have "\<exists>t b. out = build_response (jdump env) t b"
  proof (cases "find_external m (extract_prefix tool)")
    case None
    with x assms(1,2) show ?thesis
      by (auto simp: execute_def route_tool_call_def route_external_or_unknown_def plain Let_def split: if_split_asm)
  next
    case (Some cl)
    have "\<exists>t b. snd (snd (client_execute (m_parse (x_mgr env)) (jdump env) (m_what (x_mgr env)) cl w
        (extract_local_name tool) args)) = build_response (jdump env) t b"
      by (rule client_execute_envelope)
    with x assms(1,2) Some show ?thesis
      by (auto simp: execute_def route_tool_call_def route_external_or_unknown_def route_external_call_def
          disconnected_error_def plain Let_def split: if_split_asm prod.split_asm)
  qed
  with envelope_no_directives [OF assms(3)] x show ?thesis by auto
qed

text \<open>
  A failed connection is remembered as a result. When a call to a disconnected external server has
  been recorded, the same call is refused as a duplicate afterwards, also when the server is
  connected again: the failure is neither counted nor forgotten.
\<close>

lemma reconnected_call_refused:
  assumes "raw = sanitize (disconnected_error (jdump env) (call_name call) srv)"
    and "jparse env raw = Some (response_envelope (disconnected_text (call_name call) srv) True)"
    and "\<not> skip_duplicate_check (ex_manager e') (call_name call)"
  shows "check_duplicate env e' (record_tool_call env c call raw) call \<noteq> [] \<and>
    map_of (failed_tool_calls (record_tool_call env c call raw)) (tool_call_key env call) = None"
proof -
  have "parse_tool_result_text env raw = disconnected_text (call_name call) srv"
    using assms(2) by (simp add: response_envelope_def parse_tool_result_text_def json_value_def get_string_def)
  moreover have "\<not> looks_like_tool_error (disconnected_text (call_name call) srv)"
    unfolding disconnected_text_def by (rule server_text_not_error)
  ultimately show ?thesis
    using assms(3) by (simp add: record_tool_call_def check_duplicate_def disconnected_text_def Let_def)
qed

text \<open>
  The size cap does not bound what a repeated call shows: the record of a call keeps the whole text
  of the answer, not the capped one, and the answer to a duplicate quotes it in full.
\<close>

lemma duplicate_evades_cap:
  assumes "parse_tool_result_text env raw = t" "\<not> looks_like_tool_error t" "consecutive_duplicate_attempts c < 2"
    and "find_str ''was denied'' t = None" "find_str ''not available'' t = None"
    and "\<not> skip_duplicate_check (ex_manager e') (call_name call)"
  shows "let c' = record_tool_call env c call raw in check_duplicate env e' c' call = t \<and>
    length t < length (content (snd (handle_duplicate c' call t)))"
  using assms
  by (simp add: record_tool_call_def check_duplicate_def handle_duplicate_def create_duplicate_message_def
      text_message_def Let_def)

subsection \<open>Examples\<close>

text \<open>An executor without hooks.\<close>

definition demo_exec_env :: "unit exec_env" where
  "demo_exec_env = \<lparr>x_cfg = default_loop_config\<lparr>auto_approve_tools := True\<rparr>, x_mgr = demo_mgr_env,
     x_on_tool_call = None, x_on_tool_start = None, x_on_tool_complete = None, x_on_state_change = None,
     x_fire_info = None, x_fire_pre = None, x_fire_post = None, x_tier_allowed = None, x_directives = None,
     x_after_tool = None, x_clock = (\<lambda>e. (e, 0))\<rparr>"

definition demo_executor :: "unit executor" where
  "demo_executor = \<lparr>ex_world = (), ex_manager = demo_manager, ex_sessions = [], ex_auth = None,
     ex_history = new_history \<lparr>rec_sequence = 0, rec_tool_name = [], rec_params_summary = [], rec_status = [],
       rec_result_summary = [], rec_elapsed_ms = 0, rec_error_detail = [], rec_iteration = 0\<rparr> 100, ex_seq = 0\<rparr>"

definition demo_call :: tool_call where
  "demo_call = \<lparr>call_id = ''1'', call_name = ''fs.read'', call_arguments = [], arguments_json = ''{}''\<rparr>"

text \<open>Without hooks and directive handlers only the schema check can throw.\<close>

definition quiet_env :: "'w exec_env \<Rightarrow> bool" where
  "quiet_env env \<longleftrightarrow> x_fire_pre env = None \<and> x_fire_post env = None \<and> x_directives env = None \<and>
     (\<forall>s. jparse env s = None)"

lemma quiet_single_returns:
  assumes "quiet_env env"
  shows "\<exists>e' c' m. process_single_call env e c call = Some (e', c', [m])"
proof -
  have post: "fire_post_tool_hook env e1 c1 call1 raw ms k m = Some (e1, m)" for e1 c1 call1 raw ms k m
    using assms by (simp add: quiet_env_def fire_post_tool_hook_def)
  have fin: "\<exists>e' c' m'. finalize_tool_call env e1 c1 call m raw ms = Some (e', c', m')" for e1 c1 m raw ms
    using assms by (auto simp: quiet_env_def post finalize_tool_call_def extract_and_process_directives_def Let_def
        split: option.split prod.split)
  have "\<exists>e2 c2 r k. check_call_preconditions env e c call = Some (e2, c2, r, k)"
    using assms by (auto simp: check_call_preconditions_def check_schema_def check_approval_pc_def quiet_env_def Let_def
        split: option.split prod.split)
  then obtain e2 c2 r k where pc: "check_call_preconditions env e c call = Some (e2, c2, r, k)" by blast
  obtain e4 c3 msg raw where x: "execute_tool env (fst (x_clock env e2)) c2 call = (e4, c3, msg, raw)"
    by (cases "execute_tool env (fst (x_clock env e2)) c2 call")
  show ?thesis
    using assms pc x fin [of "fst (x_clock env e4)" c3 msg raw "snd (x_clock env e4) - snd (x_clock env e2)"]
    by (cases r) (auto simp: process_single_call_def fire_pre_tool_hook_def quiet_env_def reject_call_def post
        split: prod.split)
qed

lemma quiet_calls_return:
  assumes "quiet_env env"
  shows "\<exists>e' c' msgs. process_calls env e c calls results = Some (e', c', msgs)"
proof (induction calls arbitrary: e c results)
  case (Cons call calls)
  obtain e1 c1 m where "process_single_call env e c call = Some (e1, c1, [m])"
    using quiet_single_returns [OF assms] by blast
  then show ?case using Cons by auto
qed simp

lemma quiet_batch_returns:
  assumes "quiet_env env"
  shows "\<exists>e' c' msgs. process_tool_calls env e c calls = Some (e', c', msgs)"
proof -
  let ?c = "c\<lparr>ctx_state := WAITING_TOOL\<rparr>"
  obtain e' c' msgs where "process_calls env (case x_on_state_change env of None \<Rightarrow> e | Some f \<Rightarrow> f e (ctx_state ?c)) ?c
      (truncate_to_limit (sort_tool_calls calls) (resolve_tool_call_limit (x_cfg env) ?c)) [] = Some (e', c', msgs)"
    using quiet_calls_return [OF assms] by blast
  then show ?thesis by (auto simp: process_tool_calls_def Let_def)
qed

lemma demo_quiet: "quiet_env demo_exec_env" "hooks_keep_counters demo_exec_env"
  by (simp_all add: quiet_env_def demo_exec_env_def demo_mgr_env_def hooks_keep_counters_def)



lemma batch_limited_witness:
  "\<exists>e' c' msgs. process_tool_calls demo_exec_env demo_executor default_context [demo_call, demo_call] = Some (e', c', msgs) \<and>
     length msgs \<le> 2"
proof -
  obtain e' c' msgs where r: "process_tool_calls demo_exec_env demo_executor default_context [demo_call, demo_call] = Some (e', c', msgs)"
    using quiet_batch_returns [OF demo_quiet(1)] by blast
  have "resolve_tool_call_limit (x_cfg demo_exec_env) default_context \<ge> 0"
    by (simp add: resolve_tool_call_limit_def default_context_def demo_exec_env_def default_loop_config_def)
  from batch_limited [OF r this] r show ?thesis by auto
qed

text \<open>A JSON library that knows the two empty answers.\<close>

definition toy_dump :: "json \<Rightarrow> string" where
  "toy_dump j = (if j = response_envelope [] False then ''o'' else if j = response_envelope [] True then ''e'' else ''?'')"

definition toy_parse :: "string \<Rightarrow> json option" where
  "toy_parse s = (if s = ''o'' then Some (response_envelope [] False)
     else if s = ''e'' then Some (response_envelope [] True) else None)"

definition toy_exec_env :: "unit exec_env" where
  "toy_exec_env = demo_exec_env\<lparr>x_mgr := demo_mgr_env\<lparr>m_parse := toy_parse, m_dump := toy_dump\<rparr>,
     x_directives := Some (\<lambda>e c ds. (e, c\<lparr>ctx_state := COMPLETE\<rparr>))\<rparr>"

lemma toy_reads_envelopes: "reads_envelopes toy_parse toy_dump"
proof -
  have s: "sanitize ''o'' = ''o''" "sanitize ''e'' = ''e''" "sanitize ''?'' = ''?''" by code_simp+
  show ?thesis
    by (auto simp: reads_envelopes_def build_response_def toy_dump_def toy_parse_def s split: if_split_asm)
qed

lemma external_results_carry_no_directives_witness:
  "case execute (x_mgr toy_exec_env) demo_manager () ''ext.query'' ''{}'' of (m', w', out) \<Rightarrow>
    extract_and_process_directives toy_exec_env demo_executor default_context (sanitize out) =
      Some (demo_executor, default_context)"
  by (rule external_results_carry_no_directives)
    (simp_all add: demo_manager_def extract_prefix_def toy_exec_env_def toy_reads_envelopes)

end
