(* ===== verification/Root_Lock.thy ===== *)
theory Root_Lock
  imports Prelude
begin

text \<open>
  The lock on the tool servers' working directory (\<open>src/mcp/tool_root_lock.cpp\<close>). A dispatch
  holds it shared; a sandboxed delegation holds it exclusively while the servers are re-rooted
  (\<open>enter_working_dir\<close> and \<open>leave_working_dir\<close> of \<open>src/mcp/server_manager.cpp\<close>), and the thread
  that owns it may dispatch and re-enter freely.

  The operations interleave at the granularity of their accesses to shared data: taking the
  \<open>std::shared_mutex\<close> and storing the owner are two steps, as are clearing the owner and giving
  the mutex back. A blocked operation is \<^const>\<open>None\<close>: it can be tried again in a later state.
\<close>

type_synonym tid = nat

datatype lock_pc = Outside | Acquired | Releasing

record root_lock =
  mutex_owner :: "tid option"
  mutex_shared :: "tid \<Rightarrow> nat"
  lock_owner :: "tid option"
  lock_depth :: int
  lock_pc :: "tid \<Rightarrow> lock_pc"
  root_dir :: string

definition initial_lock :: "string \<Rightarrow> root_lock" where
  "initial_lock dir = \<lparr>mutex_owner = None, mutex_shared = (\<lambda>_. 0), lock_owner = None,
     lock_depth = 0, lock_pc = (\<lambda>_. Outside), root_dir = dir\<rparr>"

subsection \<open>Operations\<close>

definition owned_by_this_thread :: "tid \<Rightarrow> root_lock \<Rightarrow> bool" where
  "owned_by_this_thread me s \<longleftrightarrow> lock_owner s = Some me"

text \<open>
  \<open>lock()\<close> up to \<open>mutex_.lock()\<close>. The exclusive side of the mutex needs it free of holders; the
  threads that hold it shared are the finitely many in \<open>ts\<close>.
\<close>

definition lock_acquire :: "tid list \<Rightarrow> tid \<Rightarrow> root_lock \<Rightarrow> root_lock option" where
  "lock_acquire ts me s =
     (if lock_owner s = Some me then Some (s\<lparr>lock_depth := lock_depth s + 1\<rparr>)
      else if mutex_owner s = None \<and> list_all (\<lambda>t. mutex_shared s t = 0) ts
      then Some (s\<lparr>mutex_owner := Some me, lock_pc := (lock_pc s)(me := Acquired)\<rparr>)
      else None)"

text \<open>The rest of \<open>lock()\<close>.\<close>

definition lock_store :: "tid \<Rightarrow> root_lock \<Rightarrow> root_lock" where
  "lock_store me s = s\<lparr>lock_owner := Some me, lock_depth := 1, lock_pc := (lock_pc s)(me := Outside)\<rparr>"

text \<open>\<open>unlock()\<close>: the decrement with, at zero, the store; then the mutex.\<close>

definition unlock_begin :: "tid \<Rightarrow> root_lock \<Rightarrow> root_lock" where
  "unlock_begin me s =
     (if lock_depth s - 1 = 0
      then s\<lparr>lock_depth := 0, lock_owner := None, lock_pc := (lock_pc s)(me := Releasing)\<rparr>
      else s\<lparr>lock_depth := lock_depth s - 1\<rparr>)"

definition unlock_mutex :: "tid \<Rightarrow> root_lock \<Rightarrow> root_lock" where
  "unlock_mutex me s = s\<lparr>mutex_owner := None, lock_pc := (lock_pc s)(me := Outside)\<rparr>"

text \<open>\<open>lock_shared()\<close>, with its return value: whether a shared hold was taken.\<close>

definition lock_shared :: "tid \<Rightarrow> root_lock \<Rightarrow> (root_lock \<times> bool) option" where
  "lock_shared me s =
     (if owned_by_this_thread me s then Some (s, False)
      else if mutex_owner s = None
      then Some (s\<lparr>mutex_shared := (mutex_shared s)(me := mutex_shared s me + 1)\<rparr>, True)
      else None)"

definition unlock_shared :: "tid \<Rightarrow> root_lock \<Rightarrow> root_lock" where
  "unlock_shared me s = s\<lparr>mutex_shared := (mutex_shared s)(me := mutex_shared s me - 1)\<rparr>"

text \<open>
  \<open>set_working_dir_all\<close> moves the servers while its thread owns the lock.
\<close>

definition move_root :: "string \<Rightarrow> root_lock \<Rightarrow> root_lock" where
  "move_root dir s = s\<lparr>root_dir := dir\<rparr>"

subsection \<open>Interleavings\<close>

text \<open>
  One step of a thread. A thread between two steps of an operation does nothing else; it unlocks
  and moves the root only as owner, and gives back only a shared hold it has.
\<close>

inductive lock_step :: "tid list \<Rightarrow> tid \<Rightarrow> root_lock \<Rightarrow> root_lock \<Rightarrow> bool" for ts me where
  acquire: "\<lbrakk>me \<in> set ts; lock_pc s me = Outside; lock_acquire ts me s = Some s'\<rbrakk> \<Longrightarrow> lock_step ts me s s'"
| store: "\<lbrakk>me \<in> set ts; lock_pc s me = Acquired\<rbrakk> \<Longrightarrow> lock_step ts me s (lock_store me s)"
| move: "\<lbrakk>me \<in> set ts; lock_pc s me = Outside; owned_by_this_thread me s\<rbrakk> \<Longrightarrow> lock_step ts me s (move_root dir s)"
| release: "\<lbrakk>me \<in> set ts; lock_pc s me = Outside; owned_by_this_thread me s\<rbrakk> \<Longrightarrow> lock_step ts me s (unlock_begin me s)"
| release_mutex: "\<lbrakk>me \<in> set ts; lock_pc s me = Releasing\<rbrakk> \<Longrightarrow> lock_step ts me s (unlock_mutex me s)"
| share: "\<lbrakk>me \<in> set ts; lock_pc s me = Outside; lock_shared me s = Some (s', held)\<rbrakk> \<Longrightarrow> lock_step ts me s s'"
| unshare: "\<lbrakk>me \<in> set ts; lock_pc s me = Outside; mutex_shared s me > 0\<rbrakk> \<Longrightarrow> lock_step ts me s (unlock_shared me s)"

inductive lock_reach :: "tid list \<Rightarrow> string \<Rightarrow> root_lock \<Rightarrow> bool" for ts dir where
  start: "lock_reach ts dir (initial_lock dir)"
| step: "\<lbrakk>lock_reach ts dir s; lock_step ts me s s'\<rbrakk> \<Longrightarrow> lock_reach ts dir s'"

lemmas lock_defs = lock_acquire_def lock_store_def unlock_begin_def unlock_mutex_def
  lock_shared_def unlock_shared_def move_root_def owned_by_this_thread_def

text \<open>
  The invariant: the mutex is held exclusively by the owner, or by the one thread that is about
  to become it or has just ceased to be; and an exclusive holder excludes shared ones.
\<close>

definition lock_inv :: "tid list \<Rightarrow> root_lock \<Rightarrow> bool" where
  "lock_inv ts s \<longleftrightarrow>
     (case mutex_owner s of
        None \<Rightarrow> lock_owner s = None \<and> lock_pc s = (\<lambda>_. Outside) \<and> lock_depth s = 0 \<and>
          (\<forall>t. t \<notin> set ts \<longrightarrow> mutex_shared s t = 0)
      | Some t \<Rightarrow> mutex_shared s = (\<lambda>_. 0) \<and>
          (if lock_owner s = None
           then lock_depth s = 0 \<and> lock_pc s t \<noteq> Outside \<and> (lock_pc s)(t := Outside) = (\<lambda>_. Outside)
           else lock_owner s = Some t \<and> lock_depth s \<ge> 1 \<and> lock_pc s = (\<lambda>_. Outside)))"

lemma lock_inv_initial: "lock_inv ts (initial_lock dir)"
  by (simp add: lock_inv_def initial_lock_def)

lemma lock_inv_owner:
  "lock_inv ts s \<Longrightarrow> lock_owner s = Some t \<Longrightarrow>
   mutex_owner s = Some t \<and> mutex_shared s = (\<lambda>_. 0) \<and> lock_depth s \<ge> 1 \<and> lock_pc s = (\<lambda>_. Outside)"
  by (auto simp: lock_inv_def split: option.splits if_splits)

lemma lock_inv_busy:
  assumes "lock_inv ts s" "lock_pc s t \<noteq> Outside"
  shows "mutex_owner s = Some t \<and> lock_owner s = None \<and> mutex_shared s = (\<lambda>_. 0) \<and>
    lock_depth s = 0 \<and> (lock_pc s)(t := Outside) = (\<lambda>_. Outside)"
proof (cases "mutex_owner s")
  case (Some u)
  with assms have "(lock_pc s)(u := Outside) = (\<lambda>_. Outside)"
    by (auto simp: lock_inv_def split: if_splits)
  then have "lock_pc s t = Outside" if "t \<noteq> u" using that by (metis fun_upd_apply)
  with assms Some show ?thesis by (auto simp: lock_inv_def split: if_splits)
qed (use assms in \<open>simp add: lock_inv_def\<close>)

lemma lock_inv_free:
  "lock_inv ts s \<Longrightarrow> mutex_owner s = None \<Longrightarrow>
   lock_owner s = None \<and> lock_pc s = (\<lambda>_. Outside) \<and> lock_depth s = 0 \<and> (\<forall>t. t \<notin> set ts \<longrightarrow> mutex_shared s t = 0)"
  by (simp add: lock_inv_def)

lemma lock_inv_shared: "lock_inv ts s \<Longrightarrow> mutex_shared s t > 0 \<Longrightarrow> mutex_owner s = None"
  by (auto simp: lock_inv_def split: option.splits)

lemma lock_inv_step:
  assumes "lock_step ts me s s'" "lock_inv ts s"
  shows "lock_inv ts s'"
  using assms(1)
proof cases
  case acquire
  then consider "lock_owner s = Some me" | "mutex_owner s = None" "\<forall>t \<in> set ts. mutex_shared s t = 0"
    by (auto simp: lock_acquire_def list_all_iff split: if_splits)
  then show ?thesis
  proof cases
    case 1
    with acquire lock_inv_owner [OF assms(2) 1] show ?thesis
      by (auto simp: lock_inv_def lock_acquire_def)
  next
    case 2
    have "mutex_shared s = (\<lambda>_. 0)" using 2 lock_inv_free [OF assms(2)] by (metis fun_eq_iff)
    with acquire 2 lock_inv_free [OF assms(2) 2(1)] show ?thesis
      by (simp add: lock_inv_def lock_acquire_def list_all_iff split: if_splits) auto
  qed
next
  case store
  with lock_inv_busy [OF assms(2), of me] show ?thesis by (simp add: lock_inv_def lock_store_def)
next
  case (move d)
  with assms(2) show ?thesis by (cases "mutex_owner s") (simp_all add: lock_inv_def move_root_def)
next
  case release
  with lock_inv_owner [OF assms(2), of me] show ?thesis
    by (auto simp: lock_inv_def unlock_begin_def owned_by_this_thread_def)
next
  case release_mutex
  with lock_inv_busy [OF assms(2), of me] show ?thesis by (simp add: lock_inv_def unlock_mutex_def)
next
  case (share held)
  show ?thesis
  proof (cases "owned_by_this_thread me s")
    case True
    with share assms(2) show ?thesis by (simp add: lock_shared_def)
  next
    case False
    with share have "mutex_owner s = None"
      "s' = s\<lparr>mutex_shared := (mutex_shared s)(me := mutex_shared s me + 1)\<rparr>"
      by (simp_all add: lock_shared_def split: if_splits)
    with share(1-3) lock_inv_free [OF assms(2)] show ?thesis by (simp add: lock_inv_def)
  qed
next
  case unshare
  with lock_inv_free [OF assms(2) lock_inv_shared [OF assms(2)], of me] lock_inv_shared [OF assms(2), of me]
  show ?thesis by (simp add: lock_inv_def unlock_shared_def)
qed

text \<open>What a thread that does not own the lock can change.\<close>

lemma lock_step_other:
  assumes "lock_owner s \<noteq> Some u" "lock_step ts u s s'"
  shows "root_dir s' = root_dir s" "lock_pc s u \<noteq> Acquired \<Longrightarrow> lock_owner s' = lock_owner s"
  using assms(2,1) by (cases; clarsimp simp: lock_defs split: if_splits)+

lemma lock_reach_inv: "lock_reach ts dir s \<Longrightarrow> lock_inv ts s"
  by (induction rule: lock_reach.induct) (auto intro: lock_inv_initial lock_inv_step)

subsection \<open>Properties\<close>

text \<open>
  Claim C24. The working directory is stable for everyone who may look at it. In every reachable
  state, under any interleaving of the threads: while a thread has a shared hold, no step of any
  thread moves the root; and while a thread owns the lock, no other thread has a shared hold, no
  step of another thread moves the root or takes the ownership away, and the owner's own
  dispatches go through without a shared hold.
\<close>

theorem root_is_stable:
  assumes "lock_reach ts dir s"
  shows "(\<forall>t u s'. mutex_shared s t > 0 \<longrightarrow> lock_step ts u s s' \<longrightarrow> root_dir s' = root_dir s) \<and>
    (\<forall>t. lock_owner s = Some t \<longrightarrow>
       (\<forall>u. mutex_shared s u = 0) \<and> lock_shared t s = Some (s, False) \<and>
       (\<forall>u s'. u \<noteq> t \<longrightarrow> lock_step ts u s s' \<longrightarrow> root_dir s' = root_dir s \<and> lock_owner s' = Some t))"
proof -
  have inv: "lock_inv ts s" using assms by (rule lock_reach_inv)
  note only_owner = lock_step_other(1)
  have "root_dir s' = root_dir s" if "mutex_shared s t > 0" "lock_step ts u s s'" for t u s'
    using only_owner [OF _ that(2)] lock_inv_shared [OF inv that(1)] lock_inv_free [OF inv] by simp
  moreover have "lock_owner s' = Some t" if o: "lock_owner s = Some t" "u \<noteq> t" and "lock_step ts u s s'" for t u s'
    using lock_step_other(2) [OF _ that(3)] lock_inv_owner [OF inv o(1)] o by simp
  moreover have "lock_shared t s = Some (s, False) \<and> (\<forall>u. mutex_shared s u = 0)"
    if "lock_owner s = Some t" for t
    using that lock_inv_owner [OF inv that] by (simp add: lock_defs)
  ultimately show ?thesis using only_owner by (metis option.inject)
qed

theorem root_is_stable_witness:
  "lock_owner (lock_store 1 ((initial_lock ''p'')\<lparr>mutex_owner := Some 1, lock_pc := (\<lambda>_. Outside)(1 := Acquired)\<rparr>)) = Some 1 \<and>
   lock_shared 1 (lock_store 1 ((initial_lock ''p'')\<lparr>mutex_owner := Some 1, lock_pc := (\<lambda>_. Outside)(1 := Acquired)\<rparr>)) = Some (lock_store 1 ((initial_lock ''p'')\<lparr>mutex_owner := Some 1, lock_pc := (\<lambda>_. Outside)(1 := Acquired)\<rparr>), False)"
proof -
  let ?a = "(initial_lock ''p'')\<lparr>mutex_owner := Some 1, lock_pc := (\<lambda>_. Outside)(1 := Acquired)\<rparr>"
  have "lock_acquire [1, 2] 1 (initial_lock ''p'') = Some ?a"
    by (simp add: lock_acquire_def initial_lock_def)
  then have "lock_step [1, 2] 1 (initial_lock ''p'') ?a" by (intro acquire) (simp_all add: initial_lock_def)
  then have "lock_reach [1, 2] ''p'' ?a" by (rule lock_reach.step [OF start])
  moreover have "lock_step [1, 2] 1 ?a (lock_store 1 ?a)" by (rule store) simp_all
  ultimately have r: "lock_reach [1, 2] ''p'' (lock_store 1 ?a)" by (rule lock_reach.step)
  have o: "lock_owner (lock_store 1 ?a) = Some 1" "root_dir (lock_store 1 ?a) = ''p''"
    by (simp_all add: lock_store_def initial_lock_def)
  from root_is_stable [OF r, THEN conjunct2, THEN spec, THEN mp, OF o(1)] o show ?thesis by metis
qed

end
