(* ===== verification/Inference_Types.thy ===== *)
theory Inference_Types
  imports Prelude
begin

text \<open>
  The configuration of a model and of a generation, as far as the inference components read it
  (\<open>types/config.h\<close>: \<open>ModelConfig\<close>, \<open>TierConfig\<close>). Paths are strings; \<^const>\<open>None\<close> is
  \<open>std::nullopt\<close>.
\<close>

record model_config =
  path :: string
  adapter :: string
  context_length :: int
  gpu_layers :: int
  gpu_layers_auto :: bool
  use_mlock :: bool
  cpu_moe_layers :: int
  cache_type_k :: string
  cache_type_v :: string
  n_batch :: int
  n_ubatch :: int
  n_parallel :: int
  max_sessions :: int
  allowed_tools :: "string list option"
  keep_warm :: bool
  mmproj_path :: string
  split_mode :: string
  main_gpu :: int
  tensor_split :: string
  n_threads :: int
  offload_kqv :: bool
  flash_attn :: bool

definition default_model_config :: model_config where
  "default_model_config = \<lparr>path = [], adapter = ''qwen35'', context_length = 16384, gpu_layers = - 1,
     gpu_layers_auto = False, use_mlock = True, cpu_moe_layers = 0, cache_type_k = ''f16'', cache_type_v = ''f16'',
     n_batch = 512, n_ubatch = 0, n_parallel = 1, max_sessions = 1, allowed_tools = None,
     keep_warm = False, mmproj_path = [], split_mode = [], main_gpu = 0, tensor_split = [], n_threads = 0, offload_kqv = True, flash_attn = True\<rparr>"

end
