(* ===== verification/Session_Slots.thy ===== *)
theory Session_Slots
  imports Inference_Types
begin

text \<open>
  Which llama sequence holds whose tokens (\<open>inference/session_residency.h\<close>,
  \<open>inference/session_pool_util.h\<close>, \<open>inference/warm_keep_util.h\<close>, \<open>inference/batch_util.h\<close>,
  \<open>inference/batch_kv_util.h\<close> and the sequence ids of \<open>inference/llama_cpp_backend.cpp\<close>). A hash map
  is an association list; no operation depends on its order. Proved: sessions never share a slot,
  the session evicted is the least recently used one, what is reused of a resident prefix is what
  the new prompt begins with, and a batch stays off the sequences of the session pool. Two
  theorems at the end show where the pieces do not fit together.
\<close>

subsection \<open>Residency\<close>

definition kNoSessionSlot :: int where
  "kNoSessionSlot = - 1"

definition UINT64_MAX :: nat where
  "UINT64_MAX = 2 ^ 64 - 1"

record 'tok residency =
  slots :: int
  resident_tokens :: "'tok list list"
  assigned :: "(string \<times> int) list"
  use_order :: "(string \<times> nat) list"
  tick :: nat

definition new_residency :: "int \<Rightarrow> 'tok residency" where
  "new_residency n = (let k = (if n < 1 then 1 else n) in
     \<lparr>slots = k, resident_tokens = replicate (nat k) [], assigned = [], use_order = [], tick = 0\<rparr>)"

definition slot_for :: "'tok residency \<Rightarrow> string \<Rightarrow> int" where
  "slot_for r key = (case map_of (assigned r) key of None \<Rightarrow> kNoSessionSlot | Some s \<Rightarrow> s)"

definition valid_slot :: "'tok residency \<Rightarrow> int \<Rightarrow> bool" where
  "valid_slot r slot \<longleftrightarrow> slot \<ge> 0 \<and> slot < slots r"

definition touch :: "string \<Rightarrow> 'tok residency \<Rightarrow> 'tok residency" where
  "touch key r = (let t = (tick r + 1) mod (UINT64_MAX + 1) in
     r\<lparr>tick := t, use_order := AList.update key t (use_order r)\<rparr>)"

definition forget :: "string \<Rightarrow> 'tok residency \<Rightarrow> 'tok residency" where
  "forget key r = r\<lparr>assigned := AList.delete key (assigned r), use_order := AList.delete key (use_order r)\<rparr>"

definition free_slot :: "'tok residency \<Rightarrow> int" where
  "free_slot r =
     (case find (\<lambda>i. i \<notin> snd ` set (assigned r)) (map int [0..<nat (slots r)]) of
        None \<Rightarrow> kNoSessionSlot | Some i \<Rightarrow> i)"

definition lru_key :: "'tok residency \<Rightarrow> string" where
  "lru_key r = snd (foldl (\<lambda>(best, oldest) (k, t). if t < best then (t, k) else (best, oldest))
     (UINT64_MAX, []) (use_order r))"

text \<open>\<open>assigned_[victim]\<close> reads 0 for a key that is absent; \<open>forget\<close> removes what it inserted.\<close>

definition acquire :: "string \<Rightarrow> 'tok residency \<Rightarrow> 'tok residency \<times> int \<times> string" where
  "acquire key r =
     (case map_of (assigned r) key of
        Some s \<Rightarrow> (touch key r, s, [])
      | None \<Rightarrow>
          let slot = free_slot r in
          if slot = kNoSessionSlot
          then let victim = lru_key r;
                   s = (case map_of (assigned r) victim of None \<Rightarrow> 0 | Some s \<Rightarrow> s);
                   r1 = forget victim r
               in (touch key (r1\<lparr>assigned := AList.update key s (assigned r1)\<rparr>), s, victim)
          else (touch key (r\<lparr>assigned := AList.update key slot (assigned r)\<rparr>), slot, []))"

definition resident :: "'tok residency \<Rightarrow> int \<Rightarrow> 'tok list" where
  "resident r slot = (if valid_slot r slot then resident_tokens r ! nat slot else [])"

definition set_resident :: "int \<Rightarrow> 'tok list \<Rightarrow> 'tok residency \<Rightarrow> 'tok residency" where
  "set_resident slot tokens r =
     (if valid_slot r slot then r\<lparr>resident_tokens := (resident_tokens r)[nat slot := tokens]\<rparr> else r)"

definition invalidate :: "int \<Rightarrow> 'tok residency \<Rightarrow> 'tok residency" where
  "invalidate slot r = (if valid_slot r slot then r\<lparr>resident_tokens := (resident_tokens r)[nat slot := []]\<rparr> else r)"

definition invalidate_all :: "'tok residency \<Rightarrow> 'tok residency" where
  "invalidate_all r = r\<lparr>resident_tokens := map (\<lambda>_. []) (resident_tokens r)\<rparr>"

definition forget_session :: "string \<Rightarrow> 'tok residency \<Rightarrow> 'tok residency \<times> int" where
  "forget_session key r =
     (case map_of (assigned r) key of
        None \<Rightarrow> (r, kNoSessionSlot)
      | Some slot \<Rightarrow> (forget key (invalidate slot r), slot))"

definition assigned_count :: "'tok residency \<Rightarrow> nat" where
  "assigned_count r = length (assigned r)"

subsection \<open>Reusing a resident prefix\<close>

fun common_prefix_len :: "'tok list \<Rightarrow> 'tok list \<Rightarrow> nat" where
  "common_prefix_len (x # xs) (y # ys) = (if x = y then Suc (common_prefix_len xs ys) else 0)"
| "common_prefix_len _ _ = 0"

definition warm_keep_cut :: "'tok list \<Rightarrow> 'tok list \<Rightarrow> int \<Rightarrow> nat" where
  "warm_keep_cut res incoming kv_pos_max =
     (if res = [] \<or> length incoming < 2 \<or> kv_pos_max < 0 then 0
      else let common = common_prefix_len res incoming in
        if common = 0 then 0
        else if nat kv_pos_max + 1 < common then 0
        else if common \<ge> length incoming then length incoming - 1 else common)"

subsection \<open>The pool and the batch\<close>

record pool_geometry =
  n_seq_max :: int
  kv_unified :: bool
  pool_n_ctx :: int
  temp_seq_base :: int

definition derive_pool_geometry :: "model_config \<Rightarrow> pool_geometry" where
  "derive_pool_geometry cfg =
     (let sessions = max 1 (max_sessions cfg); par = max 1 (n_parallel cfg)
      in \<lparr>n_seq_max = max par sessions, kv_unified = (par > 1 \<and> sessions \<le> 1),
          pool_n_ctx = context_length cfg * sessions, temp_seq_base = max 1 sessions\<rparr>)"

definition session_pool_conflict_reason :: "model_config \<Rightarrow> string" where
  "session_pool_conflict_reason cfg =
     (if max_sessions cfg > 1
      then if n_parallel cfg > 1
           then ''max_sessions > 1 conflicts with n_parallel > 1: a session pool needs private per-session KV streams, '' @
                ''while the same-prefix batch fan-out (entropic_run_batch) needs a unified buffer. Set one or the other, '' @
                ''not both.''
           else if context_length cfg \<le> 0
           then ''max_sessions > 1 requires a positive context_length: the pool allocates context_length * max_sessions '' @
                ''cells.''
           else []
      else [])"

definition batch_shared_prefix_len :: "'tok list list \<Rightarrow> nat" where
  "batch_shared_prefix_len seqs =
     (case seqs of
        s0 # s1 # rest \<Rightarrow>
          let shortest = foldl (\<lambda>m s. min m (length s)) (length s0) (s1 # rest);
              shared = foldl (\<lambda>m s. min m (common_prefix_len s0 s)) (length s0) (s1 # rest)
          in if shortest = 0 then 0 else min shared (shortest - 1)
      | _ \<Rightarrow> 0)"

definition batch_is_viable :: "nat \<Rightarrow> int \<Rightarrow> nat \<Rightarrow> bool \<Rightarrow> nat \<Rightarrow> int \<Rightarrow> bool" where
  "batch_is_viable n par shared hybrid total_suffix batch \<longleftrightarrow>
     n \<ge> 2 \<and> \<not> hybrid \<and> par \<ge> 1 \<and> n \<le> nat par \<and> shared > 0 \<and>
     (batch < 0 \<or> total_suffix \<le> nat batch)"

record batch_kv_plan =
  seq_ids :: "int list"
  clears_whole_cache :: bool

definition plan_batch_kv :: "nat \<Rightarrow> int \<Rightarrow> int list \<Rightarrow> batch_kv_plan" where
  "plan_batch_kv n session_slots temp_ids =
     (let floor_id = (if session_slots < 1 then 1 else session_slots)
      in \<lparr>seq_ids = map (\<lambda>i. if temp_ids ! i < floor_id then floor_id + int i else temp_ids ! i)
                     [0..<min n (length temp_ids)],
          clears_whole_cache = False\<rparr>)"

definition plan_disturbs_sessions :: "batch_kv_plan \<Rightarrow> int \<Rightarrow> bool" where
  "plan_disturbs_sessions plan session_slots \<longleftrightarrow>
     clears_whole_cache plan \<or> list_ex (\<lambda>i. i < session_slots) (seq_ids plan)"

text \<open>The temporary sequence ids of the backend.\<close>

record seq_pool =
  free_seq_ids :: "int list"
  next_temp_seq_id :: int

definition new_seq_pool :: seq_pool where
  "new_seq_pool = \<lparr>free_seq_ids = [], next_temp_seq_id = 1\<rparr>"

definition allocate_temp_seq_id :: "seq_pool \<Rightarrow> seq_pool \<times> int" where
  "allocate_temp_seq_id p =
     (if free_seq_ids p \<noteq> [] then (p\<lparr>free_seq_ids := butlast (free_seq_ids p)\<rparr>, last (free_seq_ids p))
      else (p\<lparr>next_temp_seq_id := next_temp_seq_id p + 1\<rparr>, next_temp_seq_id p))"

definition release_temp_seq_id :: "int \<Rightarrow> seq_pool \<Rightarrow> seq_pool" where
  "release_temp_seq_id i p = p\<lparr>free_seq_ids := free_seq_ids p @ [i]\<rparr>"

fun mint_ids :: "nat \<Rightarrow> seq_pool \<Rightarrow> seq_pool \<times> int list" where
  "mint_ids 0 p = (p, [])"
| "mint_ids (Suc n) p =
     (case allocate_temp_seq_id p of (p1, i) \<Rightarrow> (case mint_ids n p1 of (p2, is) \<Rightarrow> (p2, i # is)))"

definition prepare_batch_seqs :: "model_config \<Rightarrow> nat \<Rightarrow> seq_pool \<Rightarrow> seq_pool \<times> int list" where
  "prepare_batch_seqs cfg n p =
     (case mint_ids n p of (p', minted) \<Rightarrow>
        (p', seq_ids (plan_batch_kv n (temp_seq_base (derive_pool_geometry cfg)) minted)))"

definition release_temp_seqs :: "int list \<Rightarrow> seq_pool \<Rightarrow> seq_pool" where
  "release_temp_seqs ids p = foldl (\<lambda>q i. if i = 0 then q else release_temp_seq_id i q) p ids"

text \<open>
  \<open>bind_session_slot\<close>: the residency is rebuilt when its size is not the pool's, the slot is
  acquired, and an evicted session's cells are dropped. The last component is the sequence that
  \<open>llama_memory_seq_rm\<close> is called on.
\<close>

definition bind_session_slot ::
  "model_config \<Rightarrow> string \<Rightarrow> 'tok residency \<Rightarrow> 'tok residency \<times> int \<times> int option" where
  "bind_session_slot cfg key r =
     (let pool = n_seq_max (derive_pool_geometry cfg);
          r1 = (if slots r \<noteq> pool then new_residency pool else r)
      in if pool \<le> 1 then (r1, 0, None)
         else case acquire key r1 of (r2, slot, evicted) \<Rightarrow>
           if evicted \<noteq> [] then (invalidate slot r2, slot, Some slot) else (r2, slot, None))"

subsection \<open>Lemmas: residency\<close>

text \<open>
  The invariant. The clock may not have run over: the ticks of two sessions could then be equal.
\<close>

definition res_inv :: "'tok residency \<Rightarrow> bool" where
  "res_inv r \<longleftrightarrow> 1 \<le> slots r \<and> length (resident_tokens r) = nat (slots r) \<and>
     distinct (map fst (assigned r)) \<and> inj_on snd (set (assigned r)) \<and> snd ` set (assigned r) \<subseteq> {0..<slots r} \<and>
     distinct (map fst (use_order r)) \<and> inj_on snd (set (use_order r)) \<and> snd ` set (use_order r) \<subseteq> {..tick r} \<and>
     fst ` set (assigned r) = fst ` set (use_order r) \<and> tick r < UINT64_MAX"

lemma new_residency_inv: "res_inv (new_residency n)"
  by (auto simp: new_residency_def res_inv_def UINT64_MAX_def)

text \<open>A slot given to a key that has none and that no other key has.\<close>

lemma assign_inv:
  assumes "res_inv r" "key \<notin> fst ` set (assigned r)" "s \<notin> snd ` set (assigned r)" "0 \<le> s" "s < slots r"
    and "tick r + 1 < UINT64_MAX"
  shows "res_inv (touch key (r\<lparr>assigned := AList.update key s (assigned r)\<rparr>))"
proof -
  have k: "key \<notin> fst ` set (use_order r)" using assms(1,2) by (simp add: res_inv_def)
  have "(tick r + 1) mod (UINT64_MAX + 1) = tick r + 1" using assms(6) by simp
  then show ?thesis
    using assms k
    by (auto simp: res_inv_def touch_def set_AList_update_dist distinct_AList_update Let_def inj_on_def image_iff)
qed

lemma retouch_inv:
  assumes "res_inv r" "key \<in> fst ` set (assigned r)" "tick r + 1 < UINT64_MAX"
  shows "res_inv (touch key r)"
proof -
  have "(tick r + 1) mod (UINT64_MAX + 1) = tick r + 1" using assms(3) by simp
  then show ?thesis
    using assms
    by (auto simp: res_inv_def touch_def set_AList_update_dist distinct_AList_update Let_def inj_on_def)
qed

lemma forget_inv: "res_inv r \<Longrightarrow> res_inv (forget key r)"
  by (auto simp: res_inv_def forget_def set_AList_delete_filter distinct_AList_delete inj_on_def)

lemma free_slot_cases:
  "free_slot r = kNoSessionSlot \<and> {0..<slots r} \<subseteq> snd ` set (assigned r) \<or>
   0 \<le> free_slot r \<and> free_slot r < slots r \<and> free_slot r \<notin> snd ` set (assigned r)"
proof (cases "find (\<lambda>i. i \<notin> snd ` set (assigned r)) (map int [0..<nat (slots r)])")
  case None
  have "i \<in> snd ` set (assigned r)" if "0 \<le> i" "i < slots r" for i
  proof -
    have "int (nat i) \<in> set (map int [0..<nat (slots r)])" using that unfolding set_map by (intro imageI) auto
    with that have "i \<in> set (map int [0..<nat (slots r)])" by simp
    with None show ?thesis by (auto simp: find_None_iff)
  qed
  with None show ?thesis by (auto simp: free_slot_def)
next
  case (Some i)
  then have "i \<in> set (map int [0..<nat (slots r)])" "i \<notin> snd ` set (assigned r)"
    by (auto simp: find_Some_iff)
  with Some show ?thesis by (auto simp: free_slot_def)
qed

lemma lru_fold:
  assumes "foldl (\<lambda>(best, oldest) (k, t). if t < best then (t, k) else (best, oldest)) (b :: nat, old) xs = (b', old')"
  shows "(b' = b \<and> old' = old \<or> (old', b') \<in> set xs \<and> b' < b) \<and> (\<forall>(k, t) \<in> set xs. b' \<le> t)"
  using assms
proof (induction xs arbitrary: b old)
  case (Cons p xs)
  obtain k t where p: "p = (k, t)" by (cases p)
  show ?case
  proof (cases "t < b")
    case True
    with Cons.IH [of t k] Cons.prems p show ?thesis by auto
  next
    case False
    with Cons.IH [of b old] Cons.prems p show ?thesis by force
  qed
qed simp

text \<open>The victim of a full pool: a session, and one that nobody used longer ago.\<close>

lemma lru_key_oldest:
  assumes "res_inv r" "assigned r \<noteq> []"
  shows "\<exists>t. map_of (use_order r) (lru_key r) = Some t \<and> (\<forall>(k, u) \<in> set (use_order r). t \<le> u)"
proof -
  obtain t k where f: "foldl (\<lambda>(best, oldest) (k, t). if t < best then (t, k) else (best, oldest)) (UINT64_MAX, [])
      (use_order r) = (t, k)" by (cases "foldl (\<lambda>(best, oldest) (k, t). if t < best then (t, k) else (best, oldest))
      (UINT64_MAX, []) (use_order r)")
  have "set (use_order r) \<noteq> {}" using assms by (auto simp: res_inv_def)
  then obtain q where q: "q \<in> set (use_order r)" by (metis ex_in_conv)
  have less: "snd q < UINT64_MAX" using assms(1) q by (force simp: res_inv_def)
  have "t \<le> snd q" using lru_fold [OF f] q by (cases q) auto
  then have "t \<noteq> UINT64_MAX" using less by simp
  then have "(k, t) \<in> set (use_order r)" "\<forall>(k, u) \<in> set (use_order r). t \<le> u" using lru_fold [OF f] by auto
  moreover have "lru_key r = k" using f by (simp add: lru_key_def)
  ultimately show ?thesis using assms(1) by (auto simp: res_inv_def)
qed

lemma acquire_cases:
  assumes "res_inv r" "acquire key r = (r', s, ev)"
  obtains (held) "map_of (assigned r) key = Some s" "r' = touch key r" "ev = []"
  | (free) "map_of (assigned r) key = None" "s \<notin> snd ` set (assigned r)" "0 \<le> s" "s < slots r"
      "r' = touch key (r\<lparr>assigned := AList.update key s (assigned r)\<rparr>)" "ev = []"
  | (evict) "map_of (assigned r) key = None" "{0..<slots r} \<subseteq> snd ` set (assigned r)" "ev = lru_key r"
      "map_of (assigned r) (lru_key r) = Some s"
      "r' = touch key ((forget (lru_key r) r)\<lparr>assigned := AList.update key s (assigned (forget (lru_key r) r))\<rparr>)"
proof (cases "map_of (assigned r) key")
  case (Some slot)
  with assms(2) held show thesis by (simp add: acquire_def)
next
  case None
  show thesis
  proof (cases "free_slot r = kNoSessionSlot")
    case True
    then have full: "{0..<slots r} \<subseteq> snd ` set (assigned r)"
      using free_slot_cases [of r] by (auto simp: kNoSessionSlot_def)
    moreover have "slots r \<ge> 1" using assms(1) by (simp add: res_inv_def)
    ultimately have "assigned r \<noteq> []" by auto
    then obtain t where "map_of (use_order r) (lru_key r) = Some t" using lru_key_oldest [OF assms(1)] by blast
    then have "lru_key r \<in> fst ` set (assigned r)" using assms(1) by (force simp: res_inv_def dest: map_of_SomeD)
    then obtain v where "map_of (assigned r) (lru_key r) = Some v" by (metis map_of_eq_None_iff not_None_eq)
    moreover from this None True assms(2) have "ev = lru_key r" "s = v"
      "r' = touch key ((forget (lru_key r) r)\<lparr>assigned := AList.update key s (assigned (forget (lru_key r) r))\<rparr>)"
      by (auto simp: acquire_def Let_def)
    ultimately show thesis using None full evict by simp
  next
    case False
    then have "0 \<le> free_slot r" "free_slot r < slots r" "free_slot r \<notin> snd ` set (assigned r)"
      using free_slot_cases [of r] by auto
    moreover from None False assms(2) have "s = free_slot r" "ev = []"
      "r' = touch key (r\<lparr>assigned := AList.update key s (assigned r)\<rparr>)"
      by (auto simp: acquire_def Let_def)
    ultimately show thesis using None free by simp
  qed
qed

lemma acquire_inv:
  assumes "res_inv r" "acquire key r = (r', s, ev)" "tick r + 1 < UINT64_MAX"
  shows "res_inv r' \<and> tick r' = tick r + 1 \<and> slots r' = slots r"
proof -
  have t: "tick (touch k q) = tick q + 1" "slots (touch k q) = slots q" if "tick q = tick r"
    for k and q :: "'a residency" using assms(3) that by (auto simp: touch_def Let_def)
  from assms(1,2) show ?thesis
  proof (cases rule: acquire_cases)
    case held
    then have "key \<in> fst ` set (assigned r)" by (force dest: map_of_SomeD)
    with held retouch_inv [OF assms(1) _ assms(3)] t show ?thesis by simp
  next
    case free
    with assign_inv [OF assms(1) _ _ _ _ assms(3)] t show ?thesis by (simp add: map_of_eq_None_iff)
  next
    case evict
    let ?q = "forget (lru_key r) r"
    have "(lru_key r, s) \<in> set (assigned r)" using evict(4) by (rule map_of_SomeD)
    moreover have "inj_on snd (set (assigned r))" using assms(1) by (simp add: res_inv_def)
    ultimately have "s \<notin> snd ` set (assigned ?q)" "(lru_key r, s) \<in> set (assigned r)"
      by (auto simp: forget_def set_AList_delete_filter inj_on_def) force
    then have "s \<notin> snd ` set (assigned ?q)" "0 \<le> s" "s < slots r"
      using assms(1) by (auto simp: res_inv_def)
    moreover have "key \<notin> fst ` set (assigned ?q)"
      using evict(1) by (auto simp: forget_def set_AList_delete_filter map_of_eq_None_iff)
    ultimately have "res_inv r'"
      unfolding evict(5) using assign_inv [OF forget_inv [OF assms(1)]] assms(3) by (simp add: forget_def)
    with evict(5) t show ?thesis by (simp add: forget_def)
  qed
qed

lemma inv_owner:
  "res_inv r \<Longrightarrow> (k, s) \<in> set (assigned r) \<Longrightarrow> (k', s) \<in> set (assigned r) \<Longrightarrow> k' = k"
  unfolding res_inv_def by (metis inj_onD prod.inject snd_conv)

lemma slot_for_touch [simp]: "slot_for (touch key r) k = slot_for r k"
  by (simp add: slot_for_def touch_def Let_def)

lemma slot_for_update: "slot_for (r\<lparr>assigned := AList.update key s (assigned r)\<rparr>) k = (if k = key then s else slot_for r k)"
  by (simp add: slot_for_def update_conv')

lemma slot_for_forget: "slot_for (forget key r) k = (if k = key then kNoSessionSlot else slot_for r k)"
  by (simp add: slot_for_def forget_def delete_conv')

text \<open>Everything a residency is used for, as operations.\<close>

datatype 'tok res_op = Acquire string | Set_Resident int "'tok list" | Invalidate int | Invalidate_All | Forget_Session string

fun res_run :: "'tok residency \<Rightarrow> 'tok res_op \<Rightarrow> 'tok residency" where
  "res_run r (Acquire key) = fst (acquire key r)"
| "res_run r (Set_Resident s toks) = set_resident s toks r"
| "res_run r (Invalidate s) = invalidate s r"
| "res_run r Invalidate_All = invalidate_all r"
| "res_run r (Forget_Session key) = fst (forget_session key r)"

lemma res_run_inv:
  assumes "res_inv r" "tick r + 1 < UINT64_MAX"
  shows "res_inv (res_run r op) \<and> tick (res_run r op) \<le> tick r + 1 \<and> slots (res_run r op) = slots r"
proof (cases op)
  case (Acquire key)
  obtain r' s ev where "acquire key r = (r', s, ev)" by (rule prod_cases3)
  with acquire_inv [OF assms(1) this assms(2)] Acquire show ?thesis by simp
next
  case (Forget_Session key)
  have "res_inv (invalidate s r) \<and> tick (invalidate s r) = tick r \<and> slots (invalidate s r) = slots r" for s
    using assms(1) by (simp add: res_inv_def invalidate_def)
  then show ?thesis
    using Forget_Session assms(1) forget_inv [of "invalidate _ r" key]
    by (auto simp: forget_session_def forget_def split: option.split)
qed (use assms(1) in \<open>auto simp: res_inv_def set_resident_def invalidate_def invalidate_all_def\<close>)

lemma res_runs_inv:
  assumes "res_inv r" "tick r + length ops < UINT64_MAX"
  shows "res_inv (foldl res_run r ops) \<and> slots (foldl res_run r ops) = slots r"
  using assms
proof (induction ops arbitrary: r)
  case (Cons op ops)
  with res_run_inv [OF Cons.prems(1), of op] show ?case by force
qed simp

lemma inv_count: "res_inv r \<Longrightarrow> int (assigned_count r) \<le> slots r"
proof -
  assume r: "res_inv r"
  have "card (snd ` set (assigned r)) = length (assigned r)"
    using r by (simp add: res_inv_def card_image distinct_card distinct_map)
  moreover have "card (snd ` set (assigned r)) \<le> card {0..<slots r}"
    using r by (intro card_mono) (auto simp: res_inv_def)
  moreover have "1 \<le> slots r" using r by (simp add: res_inv_def)
  ultimately show ?thesis by (simp add: assigned_count_def)
qed

subsection \<open>Lemmas: prefixes and batches\<close>

lemma common_prefix_take: "k \<le> common_prefix_len xs ys \<Longrightarrow> take k xs = take k ys"
  by (induction xs ys arbitrary: k rule: common_prefix_len.induct) (auto simp: take_Cons' split: if_splits)

lemma common_prefix_le: "common_prefix_len xs ys \<le> length xs" "common_prefix_len xs ys \<le> length ys"
  by (induction xs ys rule: common_prefix_len.induct) auto

lemma common_prefix_maximal: "k \<le> length xs \<Longrightarrow> k \<le> length ys \<Longrightarrow> take k xs = take k ys \<Longrightarrow> k \<le> common_prefix_len xs ys"
proof (induction xs ys arbitrary: k rule: common_prefix_len.induct)
  case (1 x xs y ys)
  then show ?case by (cases k) auto
qed auto

lemma foldl_min_le: "foldl (\<lambda>m s. min m (f s)) a xs \<le> a" "s \<in> set xs \<Longrightarrow> foldl (\<lambda>m s. min m (f s)) a xs \<le> f s"
  for a :: nat
proof (induction xs arbitrary: a)
  case (Cons x xs)
  {
    case 1
    show ?case using Cons(1) [of "min a (f x)"] by simp
  next
    case 2
    then show ?case using Cons(1) [of "min a (f x)"] Cons(2) [of "min a (f x)"] by auto
  }
qed simp_all

lemma plan_ids_above: "i \<in> set (seq_ids (plan_batch_kv n base ids)) \<Longrightarrow> max 1 base \<le> i"
  by (auto simp: plan_batch_kv_def Let_def split: if_splits)

definition seq_pool_ok :: "seq_pool \<Rightarrow> bool" where
  "seq_pool_ok p \<longleftrightarrow> distinct (free_seq_ids p) \<and> 1 \<le> next_temp_seq_id p \<and>
     set (free_seq_ids p) \<subseteq> {1..<next_temp_seq_id p}"

lemma mint_ids_fresh:
  assumes "mint_ids n p = (p', ids)" "seq_pool_ok p"
  shows "seq_pool_ok p' \<and> length ids = n \<and> distinct ids \<and> set ids \<subseteq> {1..<next_temp_seq_id p'} \<and>
    set ids \<inter> set (free_seq_ids p') = {} \<and> set (free_seq_ids p') \<subseteq> set (free_seq_ids p) \<and>
    next_temp_seq_id p \<le> next_temp_seq_id p' \<and> set ids \<subseteq> set (free_seq_ids p) \<union> {next_temp_seq_id p..}"
  using assms
proof (induction n arbitrary: p p' ids)
  case (Suc n)
  obtain p1 i where a: "allocate_temp_seq_id p = (p1, i)" by (cases "allocate_temp_seq_id p")
  obtain p2 js where m: "mint_ids n p1 = (p2, js)" by (cases "mint_ids n p1")
  have e: "p' = p2" "ids = i # js" using Suc.prems(1) a m by simp_all
  have step: "seq_pool_ok p1 \<and> 1 \<le> i \<and> i < next_temp_seq_id p1 \<and> i \<notin> set (free_seq_ids p1) \<and>
      set (free_seq_ids p1) \<subseteq> set (free_seq_ids p) \<and> next_temp_seq_id p \<le> next_temp_seq_id p1 \<and>
      (i \<in> set (free_seq_ids p) \<or> next_temp_seq_id p \<le> i)"
  proof (cases "free_seq_ids p = []")
    case True
    with a Suc.prems(2) show ?thesis by (auto simp: allocate_temp_seq_id_def seq_pool_ok_def)
  next
    case False
    then obtain xs x where x: "free_seq_ids p = xs @ [x]" by (metis rev_exhaust)
    with a Suc.prems(2) show ?thesis by (auto simp: allocate_temp_seq_id_def seq_pool_ok_def)
  qed
  from Suc.IH [OF m] step have "seq_pool_ok p2" "length js = n" "distinct js" "set js \<subseteq> {1..<next_temp_seq_id p2}"
    "set js \<inter> set (free_seq_ids p2) = {}" "set (free_seq_ids p2) \<subseteq> set (free_seq_ids p1)"
    "next_temp_seq_id p1 \<le> next_temp_seq_id p2" "set js \<subseteq> set (free_seq_ids p1) \<union> {next_temp_seq_id p1..}"
    by blast+
  with step e show ?case by auto
qed (auto simp: seq_pool_ok_def)

lemma plan_keeps_ids:
  assumes "list_all (\<lambda>i. max 1 base \<le> i) ids" "length ids = n"
  shows "seq_ids (plan_batch_kv n base ids) = ids"
  using assms by (intro nth_equalityI) (auto simp: plan_batch_kv_def Let_def list_all_length)

lemma mint_fresh_pool: "mint_ids n \<lparr>free_seq_ids = [], next_temp_seq_id = k\<rparr> =
    (\<lparr>free_seq_ids = [], next_temp_seq_id = k + int n\<rparr>, map (\<lambda>i. k + int i) [0..<n])"
proof (induction n arbitrary: k)
  case (Suc n)
  have "map (\<lambda>i. k + int i) [0..<Suc n] = k # map (\<lambda>i. k + 1 + int i) [0..<n]"
    unfolding upt_conv_Cons [OF zero_less_Suc] using map_Suc_upt [of 0 n, symmetric] by (simp del: upt_Suc)
  with Suc show ?case by (simp add: allocate_temp_seq_id_def del: upt_Suc)
qed simp

subsection \<open>Properties\<close>

text \<open>
  Claim C27. Sessions have private sequences. However a pool of any size is used, two sessions never
  hold the same slot, a held slot is one of the pool's, and no more sessions hold slots than there
  are.
\<close>

theorem sessions_have_private_slots:
  assumes "length ops < UINT64_MAX" "r = foldl res_run (new_residency n) ops"
  shows "slots r = max 1 n \<and> int (assigned_count r) \<le> slots r \<and>
    (\<forall>k. slot_for r k = kNoSessionSlot \<or> valid_slot r (slot_for r k) \<and>
       (\<forall>k'. slot_for r k' = slot_for r k \<longrightarrow> k' = k))"
proof -
  have r: "res_inv r" "slots r = max 1 n"
    using res_runs_inv [OF new_residency_inv, of n ops] assms by (auto simp: new_residency_def Let_def)
  have one: "slot_for r k = kNoSessionSlot \<or> valid_slot r (slot_for r k) \<and> (\<forall>k'. slot_for r k' = slot_for r k \<longrightarrow> k' = k)"
    for k
  proof (cases "map_of (assigned r) k")
    case (Some s)
    then have "(k, s) \<in> set (assigned r)" by (rule map_of_SomeD)
    then have "0 \<le> s" "s < slots r" using r(1) by (auto simp: res_inv_def)
    moreover have "k' = k" if "slot_for r k' = s" for k'
    proof (cases "map_of (assigned r) k'")
      case None
      with that \<open>0 \<le> s\<close> show ?thesis by (simp add: slot_for_def kNoSessionSlot_def)
    next
      case (Some s')
      with that have "(k', s) \<in> set (assigned r)" by (auto simp: slot_for_def dest: map_of_SomeD)
      with inv_owner [OF r(1) \<open>(k, s) \<in> set (assigned r)\<close>] show ?thesis by simp
    qed
    ultimately show ?thesis using Some by (auto simp: slot_for_def valid_slot_def)
  qed (simp add: slot_for_def)
  then show ?thesis using r inv_count by blast
qed

text \<open>
  Taking a slot disturbs at most one session, the one that has waited longest. A session
  that holds a slot keeps it; otherwise a free slot is taken and nobody loses theirs; only when all
  are taken does exactly one session lose its slot to the newcomer, and every session that holds one
  was used later than it.
\<close>

lemma acquire_evicts_lru:
  assumes "length ops + 1 < UINT64_MAX" "r = foldl res_run (new_residency n) ops" "acquire key r = (r', s, evicted)"
  shows "slot_for r' key = s \<and> valid_slot r s \<and>
    (if slot_for r key \<noteq> kNoSessionSlot then s = slot_for r key \<and> slot_for r' = slot_for r
     else if \<exists>i. valid_slot r i \<and> i \<notin> range (slot_for r)
     then s \<notin> range (slot_for r) \<and> slot_for r' = (slot_for r)(key := s)
     else slot_for r evicted = s \<and> slot_for r' = (slot_for r)(evicted := kNoSessionSlot, key := s) \<and>
       (\<forall>k. slot_for r k \<noteq> kNoSessionSlot \<longrightarrow> the (map_of (use_order r) evicted) \<le> the (map_of (use_order r) k)))"
proof -
  have r: "res_inv r" using res_runs_inv [OF new_residency_inv, of n ops] assms by (auto simp: new_residency_def Let_def)
  have range: "i \<in> range (slot_for r) \<longleftrightarrow> i \<in> snd ` set (assigned r)" if "valid_slot r i" for i
  proof
    assume "i \<in> range (slot_for r)"
    then obtain k where k: "i = slot_for r k" by blast
    with that have "map_of (assigned r) k = Some i"
      by (auto simp: slot_for_def valid_slot_def kNoSessionSlot_def split: option.splits)
    then show "i \<in> snd ` set (assigned r)" by (force dest: map_of_SomeD)
  next
    assume "i \<in> snd ` set (assigned r)"
    then obtain k where "map_of (assigned r) k = Some i" using r by (auto simp: res_inv_def)
    then have "slot_for r k = i" by (simp add: slot_for_def)
    then show "i \<in> range (slot_for r)" by (metis rangeI)
  qed
  from r assms(3) show ?thesis
  proof (cases rule: acquire_cases)
    case held
    then have "(key, s) \<in> set (assigned r)" by (simp add: map_of_SomeD)
    then have "valid_slot r s" using r by (auto simp: res_inv_def valid_slot_def)
    with held show ?thesis by (auto simp: slot_for_def valid_slot_def kNoSessionSlot_def touch_def Let_def)
  next
    case free
    then have v: "valid_slot r s" "s \<notin> range (slot_for r)" using range [of s] by (auto simp: valid_slot_def)
    then have "slot_for r' = (slot_for r)(key := s)" using free(5) by (auto simp: fun_eq_iff slot_for_update)
    with v free(1) show ?thesis by (auto simp: slot_for_def)
  next
    case evict
    have in_r: "(lru_key r, s) \<in> set (assigned r)" using evict(4) by (rule map_of_SomeD)
    then have v: "valid_slot r s" using r by (auto simp: res_inv_def valid_slot_def)
    have full: "\<not> (\<exists>i. valid_slot r i \<and> i \<notin> range (slot_for r))"
      using evict(2) range by (auto simp: valid_slot_def)
    have "slot_for r' = (slot_for r)(lru_key r := kNoSessionSlot, key := s)"
      unfolding evict(5) by (auto simp: fun_eq_iff slot_for_update slot_for_forget)
    moreover have "the (map_of (use_order r) (lru_key r)) \<le> the (map_of (use_order r) k)"
      if "slot_for r k \<noteq> kNoSessionSlot" for k
    proof -
      obtain t where t: "map_of (use_order r) (lru_key r) = Some t" "\<forall>(k, u) \<in> set (use_order r). t \<le> u"
        using lru_key_oldest [OF r] in_r by force
      have "k \<in> fst ` set (assigned r)" using that by (force simp: slot_for_def dest: map_of_SomeD split: option.splits)
      then obtain u where "map_of (use_order r) k = Some u"
        using r by (metis map_of_eq_None_iff not_None_eq res_inv_def)
      with t show ?thesis by (force dest: map_of_SomeD)
    qed
    ultimately show ?thesis using evict(1,3,4) v full by (auto simp: slot_for_def)
  qed
qed

text \<open>
  What is kept of a slot's cells is a prefix of the new prompt that the cells really hold:
  the resident tokens and the prompt agree on the part that is kept, the sequence is at least that
  long, and at least one token of the prompt is left to decode.
\<close>

lemma warm_keep_sound:
  "case warm_keep_cut res incoming kv_pos_max of
     0 \<Rightarrow> True
   | Suc n \<Rightarrow> Suc n < length incoming \<and> Suc n \<le> length res \<and> int (Suc n) \<le> kv_pos_max + 1 \<and>
       take (Suc n) res = take (Suc n) incoming"
proof (cases "warm_keep_cut res incoming kv_pos_max")
  case (Suc n)
  then have "Suc n \<le> common_prefix_len res incoming" "Suc n < length incoming" "int (Suc n) \<le> kv_pos_max + 1"
    using common_prefix_le [of res incoming] by (auto simp: warm_keep_cut_def Let_def split: if_splits)
  then show ?thesis using Suc common_prefix_take [of "Suc n" res incoming] common_prefix_le(1) [of res incoming] by auto
qed simp

text \<open>
  A batch decodes its shared prefix once: every request of the batch begins with the same
  tokens up to the length computed, has at least one token after them, and no longer prefix of that
  kind exists.
\<close>

lemma batch_prefix_shared:
  assumes "2 \<le> length seqs" "list_all (\<lambda>s. s \<noteq> []) seqs"
  shows "list_all (\<lambda>s. batch_shared_prefix_len seqs < length s \<and>
      take (batch_shared_prefix_len seqs) s = take (batch_shared_prefix_len seqs) (hd seqs)) seqs \<and>
    (\<forall>k. list_all (\<lambda>s. k < length s \<and> take k s = take k (hd seqs)) seqs \<longrightarrow> k \<le> batch_shared_prefix_len seqs)"
proof -
  obtain s0 s1 more where s: "seqs = s0 # s1 # more" using assms(1) by (cases seqs; cases "tl seqs") auto
  define short where "short = foldl (\<lambda>m s. min m (length s)) (length s0) (s1 # more)"
  define shared where "shared = foldl (\<lambda>m s. min m (common_prefix_len s0 s)) (length s0) (s1 # more)"
  have ge: "m \<le> foldl (\<lambda>m s. min m (f s)) a xs" if "m \<le> a" "list_all (\<lambda>s. m \<le> f s) xs" for m a :: nat and f xs
    using that by (induction xs arbitrary: a) auto
  have pos: "1 \<le> short"
    unfolding short_def using assms(2) s by (intro ge) (auto simp: list_all_iff Suc_le_eq)
  have k: "batch_shared_prefix_len seqs = min shared (short - 1)"
    using s pos by (simp add: batch_shared_prefix_len_def short_def shared_def Let_def)
  have "min shared (short - 1) < length t \<and> take (min shared (short - 1)) t = take (min shared (short - 1)) s0"
    if "t \<in> set seqs" for t
  proof (cases "t = s0")
    case True
    have "short \<le> length s0" unfolding short_def by (rule foldl_min_le(1))
    with pos True show ?thesis by simp
  next
    case False
    then have "t \<in> set (s1 # more)" using that s by auto
    then have "short \<le> length t" "shared \<le> common_prefix_len s0 t"
      unfolding short_def shared_def by (rule foldl_min_le(2))+
    moreover from this have "take (min shared (short - 1)) s0 = take (min shared (short - 1)) t"
      by (intro common_prefix_take) simp
    ultimately show ?thesis using pos by simp
  qed
  moreover have "j \<le> min shared (short - 1)" if j: "list_all (\<lambda>s. j < length s \<and> take j s = take j s0) seqs" for j
  proof -
    have "j \<le> common_prefix_len s0 t" if "t \<in> set (s1 # more)" for t
      using j s that by (intro common_prefix_maximal) (auto simp: list_all_iff)
    then have "j \<le> shared" unfolding shared_def using j s by (intro ge) (simp_all add: list_all_iff)
    moreover have "Suc j \<le> short" unfolding short_def using j s by (intro ge) (simp_all add: list_all_iff Suc_le_eq)
    ultimately show ?thesis by simp
  qed
  moreover have "hd seqs = s0" using s by simp
  ultimately show ?thesis unfolding k by (simp only: list_all_iff) blast
qed

text \<open>
  A batch stays off the session pool. The sequences of a batch are at or above the ids the
  configured session pool owns, whatever the backend's temporary pool hands out; and when sessions
  do not share the handle's context they are the ids minted, pairwise different, in use by nobody
  else, and all given back at the end.
\<close>

lemma batch_stays_off_pool:
  assumes "seq_pool_ok p" "prepare_batch_seqs cfg n p = (p', ids)"
  shows "\<not> plan_disturbs_sessions \<lparr>seq_ids = ids, clears_whole_cache = False\<rparr> (max 1 (max_sessions cfg)) \<and>
    (max_sessions cfg \<le> 1 \<longrightarrow> length ids = n \<and> distinct ids \<and> set ids \<inter> set (free_seq_ids p') = {} \<and>
       seq_pool_ok (release_temp_seqs ids p') \<and> set ids \<subseteq> set (free_seq_ids (release_temp_seqs ids p')))"
proof -
  obtain minted where m: "mint_ids n p = (p', minted)" "ids = seq_ids (plan_batch_kv n (max 1 (max_sessions cfg)) minted)"
    using assms(2) by (auto simp: prepare_batch_seqs_def derive_pool_geometry_def Let_def split: prod.splits)
  have above: "\<not> plan_disturbs_sessions \<lparr>seq_ids = ids, clears_whole_cache = False\<rparr> (max 1 (max_sessions cfg))"
  proof -
    have "max 1 (max_sessions cfg) \<le> i" if "i \<in> set ids" for i
      using plan_ids_above [of i n "max 1 (max_sessions cfg)" minted] that m(2) by simp
    then show ?thesis by (auto simp: plan_disturbs_sessions_def list_ex_iff not_less)
  qed
  note fresh = mint_ids_fresh [OF m(1) assms(1)]
  have rel: "free_seq_ids (release_temp_seqs xs q) = free_seq_ids q @ xs \<and>
      next_temp_seq_id (release_temp_seqs xs q) = next_temp_seq_id q" if "set xs \<subseteq> {1..}" for xs q
    using that unfolding release_temp_seqs_def by (induction xs arbitrary: q) (auto simp: release_temp_seq_id_def)
  have "ids = minted" if "max_sessions cfg \<le> 1"
    unfolding m(2) using that fresh by (intro plan_keeps_ids) (auto simp: list_all_iff)
  moreover have "set minted \<subseteq> {1..}" using fresh by auto
  note rel [OF this, of p']
  ultimately show ?thesis using fresh above by (auto simp: seq_pool_ok_def)
qed

subsection \<open>Where the pieces do not fit\<close>

text \<open>
  A batch of the full size allowed gets a sequence id the context does not have: since no arm uses
  sequence 0 any more, \<open>n_parallel\<close> requests take the ids from 1 to \<open>n_parallel\<close>, but the context
  has \<open>n_parallel\<close> sequences, counted from 0.
\<close>

lemma full_batch_out_of_range:
  assumes "2 \<le> n_parallel cfg" "max_sessions cfg \<le> 1" "0 < shared"
  shows "batch_is_viable (nat (n_parallel cfg)) (n_parallel cfg) shared False 0 (n_batch cfg) \<and>
    n_seq_max (derive_pool_geometry cfg) \<in> set (snd (prepare_batch_seqs cfg (nat (n_parallel cfg)) new_seq_pool))"
proof -
  let ?n = "nat (n_parallel cfg)"
  let ?ids = "map (\<lambda>i. 1 + int i) [0..<?n]"
  have "mint_ids ?n new_seq_pool = (\<lparr>free_seq_ids = [], next_temp_seq_id = 1 + int ?n\<rparr>, ?ids)"
    unfolding new_seq_pool_def by (rule mint_fresh_pool)
  moreover have "seq_ids (plan_batch_kv ?n (max 1 (max_sessions cfg)) ?ids) = ?ids"
    using assms(2) by (intro plan_keeps_ids) (auto simp: list_all_iff)
  ultimately have "snd (prepare_batch_seqs cfg ?n new_seq_pool) = ?ids"
    by (simp add: prepare_batch_seqs_def derive_pool_geometry_def Let_def)
  moreover have "n_parallel cfg \<in> set ?ids"
    using assms(1) by (auto simp: image_iff intro!: bexI [of _ "?n - 1"])
  ultimately show ?thesis using assms by (auto simp: batch_is_viable_def derive_pool_geometry_def Let_def)
qed

text \<open>
  A batch can take a sequence a session lives in. The residency has as many slots as the context has
  sequences, not as many as sessions were configured: with \<open>n_parallel > 1\<close> and \<open>max_sessions = 1\<close>,
  the second session to run is put into slot 1, and the first batch takes sequence 1.
\<close>

lemma batch_takes_session_slot:
  assumes "2 \<le> n_parallel cfg" "max_sessions cfg \<le> 1" "a \<noteq> b"
    and "bind_session_slot cfg a (new_residency 1 :: 'tok residency) = (r1, s1, x1)"
    and "bind_session_slot cfg b r1 = (r2, s2, x2)" "0 < n"
  shows "slot_for r2 b = 1 \<and> 1 \<in> set (snd (prepare_batch_seqs cfg n new_seq_pool))"
proof -
  have geo: "n_seq_max (derive_pool_geometry cfg) = n_parallel cfg" "temp_seq_base (derive_pool_geometry cfg) = 1"
    using assms(1,2) by (auto simp: derive_pool_geometry_def Let_def)
  have up: "[0..<nat (n_parallel cfg)] = 0 # 1 # [2..<nat (n_parallel cfg)]"
    using assms(1) by (simp add: upt_conv_Cons numeral_2_eq_2)
  have one: "r1 = touch a ((new_residency (n_parallel cfg))\<lparr>assigned := [(a, 0)]\<rparr>)"
    using assms(1,4) geo up
    by (simp add: bind_session_slot_def acquire_def free_slot_def new_residency_def kNoSessionSlot_def Let_def)
  have "slot_for r2 b = 1"
    using assms(1,3,5) geo up unfolding one
    by (auto simp: bind_session_slot_def acquire_def free_slot_def new_residency_def kNoSessionSlot_def
        touch_def slot_for_def Let_def split: if_splits)
  moreover have "1 \<in> set (snd (prepare_batch_seqs cfg n new_seq_pool))"
    using assms(6) geo
    by (auto simp: prepare_batch_seqs_def new_seq_pool_def mint_fresh_pool plan_batch_kv_def image_iff Let_def
        intro!: bexI [of _ 0])
  ultimately show ?thesis by blast
qed

subsection \<open>Examples\<close>

definition demo_pool :: "nat residency" where
  "demo_pool = foldl res_run (new_residency 2) [Acquire ''a'', Acquire ''b'']"

theorem sessions_have_private_slots_witness: "slots demo_pool = 2 \<and> int (assigned_count demo_pool) \<le> 2"
proof -
  have "length [Acquire ''a'' :: nat res_op, Acquire ''b''] < UINT64_MAX" by (simp add: UINT64_MAX_def)
  from sessions_have_private_slots [OF this demo_pool_def] show ?thesis by simp
qed

lemma acquire_evicts_lru_witness:
  "slot_for (fst (acquire ''c'' demo_pool)) ''c'' = fst (snd (acquire ''c'' demo_pool)) \<and>
   valid_slot demo_pool (fst (snd (acquire ''c'' demo_pool)))"
proof -
  obtain r' s ev where a: "acquire ''c'' demo_pool = (r', s, ev)" by (rule prod_cases3)
  have "length [Acquire ''a'' :: nat res_op, Acquire ''b''] + 1 < UINT64_MAX" by (simp add: UINT64_MAX_def)
  from acquire_evicts_lru [OF this demo_pool_def a] a show ?thesis by simp
qed

lemma batch_prefix_shared_witness:
  "batch_shared_prefix_len [[1, 2, 3], [1, 2, 4 :: nat]] < 3"
  using batch_prefix_shared [of "[[1, 2, 3], [1, 2, 4 :: nat]]"] by simp

lemma batch_stays_off_pool_witness:
  "\<not> plan_disturbs_sessions \<lparr>seq_ids = snd (prepare_batch_seqs default_model_config 2 new_seq_pool),
     clears_whole_cache = False\<rparr> (max 1 (max_sessions default_model_config))"
  using batch_stays_off_pool [of new_seq_pool default_model_config 2]
  by (cases "prepare_batch_seqs default_model_config 2 new_seq_pool") (auto simp: seq_pool_ok_def new_seq_pool_def)

end
