(* ===== verification/Prompt_Cache.thy ===== *)
theory Prompt_Cache
  imports Prelude "HOL-Library.Word"
begin

text \<open>
  The prompt cache (\<open>inference/prompt_cache.cpp\<close>): snapshots of the KV cache, at most a configured
  number of bytes of them, the least recently used dropped first. Each method runs under one mutex
  and is one function. The map from a key to its place in the recency list is that place itself;
  sizes are natural numbers, since the snapshots counted exist in memory together. Proved: the cache
  is the specification \<open>spec_run\<close>, a list in order of use cut to the budget.
\<close>

unbundle bit_operations_syntax

type_synonym cache_key = "64 word"

record cache_entry =
  entry_data :: "8 word list"
  token_count :: int
  data_size :: nat

record cache_stats =
  hits :: "64 word"
  misses :: "64 word"
  evictions :: "64 word"
  stores :: "64 word"
  peak_bytes :: nat

record prompt_cache =
  max_bytes :: nat
  bytes_used :: nat
  cstats :: cache_stats
  entries :: "(cache_key \<times> cache_entry) list"
  lru :: "cache_key list"

definition new_cache :: "nat \<Rightarrow> prompt_cache" where
  "new_cache m = \<lparr>max_bytes = m, bytes_used = 0,
     cstats = \<lparr>hits = 0, misses = 0, evictions = 0, stores = 0, peak_bytes = 0\<rparr>, entries = [], lru = []\<rparr>"

definition fnv1a_64 :: "string \<Rightarrow> 64 word" where
  "fnv1a_64 s = foldl (\<lambda>h c. (h XOR of_char c) * 1099511628211) 14695981039346656037 s"

definition make_key :: "string \<Rightarrow> string \<Rightarrow> cache_key" where
  "make_key prompt_text model_path = fnv1a_64 (prompt_text @ [CHR 0x00] @ model_path)"

function evict_until :: "nat \<Rightarrow> prompt_cache \<Rightarrow> prompt_cache" where
  "evict_until needed c =
     (if bytes_used c + needed > max_bytes c \<and> lru c \<noteq> []
      then let victim = last (lru c); c1 = c\<lparr>lru := butlast (lru c)\<rparr>
           in evict_until needed
                (case map_of (entries c1) victim of
                   None \<Rightarrow> c1
                 | Some e \<Rightarrow> c1\<lparr>bytes_used := bytes_used c1 - data_size e,
                     cstats := (cstats c1)\<lparr>evictions := evictions (cstats c1) + 1\<rparr>,
                     entries := AList.delete victim (entries c1)\<rparr>)
      else c)"
  by auto
termination
  by (relation "measure (\<lambda>(n, c). length (lru c))") (auto simp: Let_def split: option.splits)

declare evict_until.simps [simp del]

definition drop_entry :: "cache_key \<Rightarrow> prompt_cache \<Rightarrow> prompt_cache" where
  "drop_entry key c =
     (case map_of (entries c) key of
        None \<Rightarrow> c
      | Some e \<Rightarrow> c\<lparr>bytes_used := bytes_used c - data_size e, entries := AList.delete key (entries c),
                    lru := remove1 key (lru c)\<rparr>)"

definition store :: "cache_key \<Rightarrow> 8 word list \<Rightarrow> int \<Rightarrow> prompt_cache \<Rightarrow> prompt_cache \<times> bool" where
  "store key data tokens c =
     (let entry_size = length data in
      if max_bytes c = 0 then (c, False)
      else if entry_size > max_bytes c then (c, False)
      else
        let c1 = evict_until entry_size (drop_entry key c);
            used = bytes_used c1 + entry_size
        in (c1\<lparr>entries := AList.update key \<lparr>entry_data = data, token_count = tokens, data_size = entry_size\<rparr> (entries c1),
               lru := key # lru c1, bytes_used := used,
               cstats := (cstats c1)\<lparr>stores := stores (cstats c1) + 1, peak_bytes := max (peak_bytes (cstats c1)) used\<rparr>\<rparr>, True))"

definition lookup :: "cache_key \<Rightarrow> prompt_cache \<Rightarrow> prompt_cache \<times> cache_entry option" where
  "lookup key c =
     (case map_of (entries c) key of
        None \<Rightarrow> (c\<lparr>cstats := (cstats c)\<lparr>misses := misses (cstats c) + 1\<rparr>\<rparr>, None)
      | Some e \<Rightarrow>
          (c\<lparr>lru := (if key \<in> set (lru c) then key # remove1 key (lru c) else lru c),
             cstats := (cstats c)\<lparr>hits := hits (cstats c) + 1\<rparr>\<rparr>, Some e))"

definition clear :: "prompt_cache \<Rightarrow> prompt_cache" where
  "clear c = c\<lparr>entries := [], lru := [], bytes_used := 0\<rparr>"

definition entry_count :: "prompt_cache \<Rightarrow> nat" where
  "entry_count c = length (entries c)"

subsection \<open>What a cache promises\<close>

text \<open>
  The contents are the pairs in order of use. Storing puts a pair in front and keeps, of the others,
  as many of the most recently used as fit.
\<close>

fun keep_fitting :: "nat \<Rightarrow> (cache_key \<times> cache_entry) list \<Rightarrow> (cache_key \<times> cache_entry) list" where
  "keep_fitting budget [] = []"
| "keep_fitting budget ((k, e) # xs) =
     (if data_size e \<le> budget then (k, e) # keep_fitting (budget - data_size e) xs else [])"

definition spec_store :: "nat \<Rightarrow> cache_key \<Rightarrow> 8 word list \<Rightarrow> int \<Rightarrow> (cache_key \<times> cache_entry) list \<Rightarrow> (cache_key \<times> cache_entry) list" where
  "spec_store m key data tokens xs =
     (if length data \<le> m \<and> 0 < m
      then (key, \<lparr>entry_data = data, token_count = tokens, data_size = length data\<rparr>) #
           keep_fitting (m - length data) (filter (\<lambda>p. fst p \<noteq> key) xs)
      else xs)"

definition spec_lookup :: "cache_key \<Rightarrow> (cache_key \<times> cache_entry) list \<Rightarrow> (cache_key \<times> cache_entry) list" where
  "spec_lookup key xs =
     (case map_of xs key of None \<Rightarrow> xs | Some e \<Rightarrow> (key, e) # filter (\<lambda>p. fst p \<noteq> key) xs)"

definition total_size :: "(cache_key \<times> cache_entry) list \<Rightarrow> nat" where
  "total_size xs = sum_list (map (data_size \<circ> snd) xs)"

text \<open>The interface: what a client may rely on, whatever the representation.\<close>

locale lru_cache =
  fixes contents :: "'c \<Rightarrow> (cache_key \<times> cache_entry) list"
    and capacity :: "'c \<Rightarrow> nat"
    and inv :: "'c \<Rightarrow> bool"
    and put :: "cache_key \<Rightarrow> 8 word list \<Rightarrow> int \<Rightarrow> 'c \<Rightarrow> 'c \<times> bool"
    and get :: "cache_key \<Rightarrow> 'c \<Rightarrow> 'c \<times> cache_entry option"
  assumes put_contents: "inv c \<Longrightarrow> contents (fst (put k d n c)) = spec_store (capacity c) k d n (contents c)"
    and put_inv: "inv c \<Longrightarrow> inv (fst (put k d n c)) \<and> capacity (fst (put k d n c)) = capacity c"
    and get_contents: "inv c \<Longrightarrow> contents (fst (get k c)) = spec_lookup k (contents c)"
    and get_result: "inv c \<Longrightarrow> snd (get k c) = map_of (contents c) k"
    and get_inv: "inv c \<Longrightarrow> inv (fst (get k c)) \<and> capacity (fst (get k c)) = capacity c"
begin

lemma get_put_same:
  "inv c \<Longrightarrow> length d \<le> capacity c \<Longrightarrow> 0 < capacity c \<Longrightarrow>
   snd (get k (fst (put k d n c))) = Some \<lparr>entry_data = d, token_count = n, data_size = length d\<rparr>"
  by (simp add: get_result put_inv put_contents spec_store_def)

lemma put_refused: "inv c \<Longrightarrow> capacity c < length d \<Longrightarrow> snd (get k' (fst (put k d n c))) = snd (get k' c)"
  by (simp add: get_result put_inv put_contents spec_store_def)

lemma get_get: "inv c \<Longrightarrow> snd (get k' (fst (get k c))) = snd (get k' c)"
proof -
  assume c: "inv c"
  have f: "map_of (filter (\<lambda>p. fst p \<noteq> k) xs) k' = (if k' = k then None else map_of xs k')"
    for xs :: "(cache_key \<times> cache_entry) list" by (induction xs) auto
  show ?thesis using c by (auto simp: get_result get_inv get_contents spec_lookup_def f split: option.splits)
qed

end

subsection \<open>Lemmas\<close>

definition contents :: "prompt_cache \<Rightarrow> (cache_key \<times> cache_entry) list" where
  "contents c = map (\<lambda>k. (k, the (map_of (entries c) k))) (lru c)"

definition cache_inv :: "prompt_cache \<Rightarrow> bool" where
  "cache_inv c \<longleftrightarrow> distinct (lru c) \<and> distinct (map fst (entries c)) \<and> fst ` set (entries c) = set (lru c) \<and>
     bytes_used c = total_size (contents c) \<and> bytes_used c \<le> max_bytes c"

text \<open>The same without the bound, which does not hold inside \<open>store\<close>.\<close>

definition cache_ok :: "prompt_cache \<Rightarrow> bool" where
  "cache_ok c \<longleftrightarrow> distinct (lru c) \<and> distinct (map fst (entries c)) \<and> fst ` set (entries c) = set (lru c) \<and>
     bytes_used c = total_size (contents c)"

lemma total_size_simps [simp]:
  "total_size [] = 0" "total_size (p # xs) = data_size (snd p) + total_size xs"
  "total_size (xs @ ys) = total_size xs + total_size ys"
  by (simp_all add: total_size_def)

lemma total_filter_le: "total_size (filter P xs) \<le> total_size xs"
  by (induction xs) auto

lemma keep_fitting_all: "total_size xs \<le> b \<Longrightarrow> keep_fitting b xs = xs"
  by (induction b xs rule: keep_fitting.induct) auto

lemma keep_fitting_butlast: "b < total_size (xs @ [x]) \<Longrightarrow> keep_fitting b (xs @ [x]) = keep_fitting b xs"
  by (induction b xs rule: keep_fitting.induct) (cases x; auto)+

lemma keep_fitting_total: "total_size (keep_fitting b xs) \<le> b"
  by (induction b xs rule: keep_fitting.induct) auto

lemma keep_fitting_sublist: "set (keep_fitting b xs) \<subseteq> set xs"
  by (induction b xs rule: keep_fitting.induct) auto

lemma map_of_contents: "cache_ok c \<Longrightarrow> map_of (contents c) k = map_of (entries c) k"
proof -
  assume c: "cache_ok c"
  have "map_of (map (\<lambda>k. (k, f k)) xs) k = (if k \<in> set xs then Some (f k) else None)" for f :: "cache_key \<Rightarrow> cache_entry" and xs
    by (induction xs) auto
  then have m: "map_of (contents c) k = (if k \<in> set (lru c) then Some (the (map_of (entries c) k)) else None)"
    by (simp add: contents_def)
  have d: "k \<in> set (lru c) \<longleftrightarrow> map_of (entries c) k \<noteq> None"
    using c by (metis cache_ok_def map_of_eq_None_iff)
  show ?thesis using m d by (cases "k \<in> set (lru c)") auto
qed

lemma contents_delete:
  assumes "k \<notin> set xs"
  shows "map (\<lambda>j. (j, the (map_of (AList.delete k es) j))) xs = map (\<lambda>j. (j, the (map_of es j))) xs"
  using assms by (auto simp: delete_conv')

lemma contents_of: "(k, e) \<in> set (entries c) \<Longrightarrow> distinct (map fst (entries c)) \<Longrightarrow> map_of (entries c) k = Some e"
  by simp

lemma evict_step:
  assumes "cache_ok c" "lru c = ks @ [v]"
  shows "\<exists>e. map_of (entries c) v = Some e \<and>
    (let c' = c\<lparr>lru := ks, bytes_used := bytes_used c - data_size e,
         cstats := (cstats c)\<lparr>evictions := evictions (cstats c) + 1\<rparr>, entries := AList.delete v (entries c)\<rparr>
     in cache_ok c' \<and> contents c = contents c' @ [(v, e)])"
proof -
  have "v \<in> fst ` set (entries c)" using assms by (simp add: cache_ok_def)
  then obtain e where e: "map_of (entries c) v = Some e" by (metis map_of_eq_None_iff not_None_eq)
  let ?c = "c\<lparr>lru := ks, bytes_used := bytes_used c - data_size e,
      cstats := (cstats c)\<lparr>evictions := evictions (cstats c) + 1\<rparr>, entries := AList.delete v (entries c)\<rparr>"
  have v: "v \<notin> set ks" "distinct ks" using assms by (auto simp: cache_ok_def)
  then have con: "contents c = contents ?c @ [(v, e)]"
    using assms(2) e contents_delete [of v ks "entries c"] by (simp add: contents_def)
  have "bytes_used c = total_size (contents ?c) + data_size e"
    using assms(1) by (simp add: cache_ok_def con)
  then have "cache_ok ?c"
    using assms v by (auto simp: cache_ok_def fst_set_delete)
  with con e show ?thesis by (simp add: Let_def)
qed

lemma evict_until_step:
  assumes "bytes_used c + needed > max_bytes c" "lru c = ks @ [v]" "map_of (entries c) v = Some e"
  shows "evict_until needed c = evict_until needed (c\<lparr>lru := ks, bytes_used := bytes_used c - data_size e,
    cstats := (cstats c)\<lparr>evictions := evictions (cstats c) + 1\<rparr>, entries := AList.delete v (entries c)\<rparr>)"
proof -
  have "lru c \<noteq> []" "last (lru c) = v" "butlast (lru c) = ks" using assms(2) by simp_all
  then show ?thesis
    using assms(1,3) by (simp add: evict_until.simps [of needed c] Let_def del: evict_until.simps)
qed

lemma evict_until_spec:
  assumes "cache_ok c" "needed \<le> max_bytes c"
  shows "cache_ok (evict_until needed c) \<and> max_bytes (evict_until needed c) = max_bytes c \<and>
    contents (evict_until needed c) = keep_fitting (max_bytes c - needed) (contents c) \<and>
    bytes_used (evict_until needed c) + needed \<le> max_bytes c"
  using assms
proof (induction "length (lru c)" arbitrary: c)
  case 0
  then have "contents c = []" "evict_until needed c = c" "bytes_used c = 0"
    by (simp_all add: contents_def evict_until.simps [of needed c] cache_ok_def)
  with 0 show ?case by simp
next
  case (Suc n)
  then obtain ks v where l: "lru c = ks @ [v]" by (metis Zero_not_Suc list.size(3) rev_exhaust)
  show ?case
  proof (cases "bytes_used c + needed > max_bytes c")
    case False
    with Suc.prems keep_fitting_all [of "contents c" "max_bytes c - needed"] show ?thesis
      by (simp add: evict_until.simps [of needed c] cache_ok_def)
  next
    case True
    from evict_step [OF Suc.prems(1) l] obtain e where e: "map_of (entries c) v = Some e" by blast
    let ?c = "c\<lparr>lru := ks, bytes_used := bytes_used c - data_size e,
         cstats := (cstats c)\<lparr>evictions := evictions (cstats c) + 1\<rparr>, entries := AList.delete v (entries c)\<rparr>"
    have c: "cache_ok ?c" "contents c = contents ?c @ [(v, e)]"
      using evict_step [OF Suc.prems(1) l] e by (simp_all add: Let_def)
    have u: "evict_until needed c = evict_until needed ?c"
      by (rule evict_until_step [OF True l e])
    have "bytes_used c = total_size (contents c)" using Suc.prems(1) by (simp add: cache_ok_def)
    moreover have "total_size (contents c) = total_size (contents ?c @ [(v, e)])" using c(2) by (rule arg_cong)
    ultimately have "max_bytes c - needed < total_size (contents ?c @ [(v, e)])" using True Suc.prems(2) by linarith
    then have "keep_fitting (max_bytes c - needed) (contents c) = keep_fitting (max_bytes c - needed) (contents ?c)"
      unfolding c(2) by (rule keep_fitting_butlast)
    moreover have "n = length (lru ?c)" using Suc.hyps(2) l by simp
    note Suc.hyps(1) [OF this c(1)]
    ultimately show ?thesis unfolding u using Suc.prems(2) by simp
  qed
qed

lemma contents_filter: "lru c' = filter (\<lambda>j. j \<noteq> k) (lru c) \<Longrightarrow> (\<And>j. j \<noteq> k \<Longrightarrow> map_of (entries c') j = map_of (entries c) j) \<Longrightarrow>
    contents c' = filter (\<lambda>p. fst p \<noteq> k) (contents c)"
  by (auto simp: contents_def filter_map comp_def)

lemma drop_entry_spec:
  assumes "cache_inv c"
  shows "cache_ok (drop_entry k c) \<and> max_bytes (drop_entry k c) = max_bytes c \<and>
    contents (drop_entry k c) = filter (\<lambda>p. fst p \<noteq> k) (contents c) \<and> k \<notin> set (lru (drop_entry k c))"
proof (cases "map_of (entries c) k")
  case None
  then have "k \<notin> set (lru c)" using assms by (metis cache_inv_def map_of_eq_None_iff)
  moreover from this have "filter (\<lambda>p. fst p \<noteq> k) (contents c) = contents c"
    by (auto simp: contents_def filter_id_conv)
  ultimately show ?thesis using None assms by (simp add: drop_entry_def cache_ok_def cache_inv_def)
next
  case (Some e)
  have k: "k \<in> set (lru c)" "distinct (lru c)"
    using Some assms by (force simp: cache_inv_def dest: map_of_SomeD)+
  then have r: "remove1 k (lru c) = filter (\<lambda>j. j \<noteq> k) (lru c)" by (simp add: distinct_remove1_removeAll removeAll_filter_not_eq fun_eq_iff eq_commute)
  have con: "contents (drop_entry k c) = filter (\<lambda>p. fst p \<noteq> k) (contents c)"
    using Some r by (intro contents_filter) (simp_all add: drop_entry_def)
  have sub: "total_size (filter (\<lambda>p. fst p \<noteq> k) (map (\<lambda>j. (j, f j)) xs)) = total_size (map (\<lambda>j. (j, f j)) xs) - data_size (f k)"
    if mem: "k \<in> set xs" and dist: "distinct xs" for f :: "cache_key \<Rightarrow> cache_entry" and xs
  proof -
    obtain ys zs where xs: "xs = ys @ k # zs" using split_list [OF mem] by blast
    have "filter (\<lambda>x. x \<noteq> k) ys = ys" "filter (\<lambda>x. x \<noteq> k) zs = zs" using xs dist by (auto simp: filter_id_conv)
    then show ?thesis using xs by (simp add: filter_map comp_def)
  qed
  have "bytes_used (drop_entry k c) = total_size (contents (drop_entry k c))"
    unfolding con using Some assms sub [OF k] by (simp add: drop_entry_def cache_inv_def contents_def)
  moreover have "lru (drop_entry k c) = filter (\<lambda>j. j \<noteq> k) (lru c)" "entries (drop_entry k c) = AList.delete k (entries c)"
    using Some r by (simp_all add: drop_entry_def)
  ultimately have "cache_ok (drop_entry k c)"
    using assms by (auto simp: cache_ok_def cache_inv_def fst_set_delete)
  with con Some r show ?thesis by (simp add: drop_entry_def)
qed

lemma inv_ok: "cache_inv c \<Longrightarrow> cache_ok c"
  by (simp add: cache_inv_def cache_ok_def)

lemma store_spec:
  assumes "cache_inv c"
  shows "contents (fst (store k d n c)) = spec_store (max_bytes c) k d n (contents c) \<and>
    cache_inv (fst (store k d n c)) \<and> max_bytes (fst (store k d n c)) = max_bytes c"
proof (cases "max_bytes c = 0 \<or> length d > max_bytes c")
  case True
  with assms show ?thesis by (auto simp: store_def spec_store_def Let_def)
next
  case False
  let ?e = "\<lparr>entry_data = d, token_count = n, data_size = length d\<rparr>"
  let ?dropped = "drop_entry k c"
  let ?evicted = "evict_until (length d) ?dropped"
  let ?stored = "fst (store k d n c)"
  note d = drop_entry_spec [OF assms, of k]
  have ev: "cache_ok ?evicted" "max_bytes ?evicted = max_bytes c" "bytes_used ?evicted + length d \<le> max_bytes c"
    "contents ?evicted = keep_fitting (max_bytes c - length d) (filter (\<lambda>p. fst p \<noteq> k) (contents c))"
    using evict_until_spec [of ?dropped "length d"] d False by auto
  have lru1: "set (lru ?evicted) = fst ` set (contents ?evicted)" "set (lru ?dropped) = fst ` set (contents ?dropped)"
    by (force simp: contents_def)+
  then have k: "k \<notin> set (lru ?evicted)" using ev(4) keep_fitting_sublist d by fastforce
  have st: "lru ?stored = k # lru ?evicted" "entries ?stored = AList.update k ?e (entries ?evicted)" "bytes_used ?stored = bytes_used ?evicted + length d"
    "max_bytes ?stored = max_bytes c" using False ev(2) by (simp_all add: store_def Let_def)
  have con: "contents ?stored = (k, ?e) # contents ?evicted" using st k by (auto simp: contents_def)
  then have "cache_inv ?stored"
    using ev(1,3) st k by (auto simp: cache_inv_def cache_ok_def fst_set_update)
  with con ev(4) st(4) False show ?thesis by (simp add: spec_store_def)
qed

lemma lookup_spec:
  assumes "cache_inv c"
  shows "contents (fst (lookup k c)) = spec_lookup k (contents c) \<and> snd (lookup k c) = map_of (contents c) k \<and>
    cache_inv (fst (lookup k c)) \<and> max_bytes (fst (lookup k c)) = max_bytes c"
proof (cases "map_of (entries c) k")
  case None
  with assms show ?thesis
    by (simp add: lookup_def spec_lookup_def map_of_contents inv_ok) (simp add: contents_def cache_inv_def)
next
  case (Some e)
  then have k: "k \<in> set (lru c)" using assms by (force simp: cache_inv_def dest: map_of_SomeD)
  have d: "distinct (lru c)" using assms by (simp add: cache_inv_def)
  have r: "remove1 k (lru c) = filter (\<lambda>j. j \<noteq> k) (lru c)"
    using d by (simp add: distinct_remove1_removeAll removeAll_filter_not_eq fun_eq_iff eq_commute)
  let ?c = "fst (lookup k c)"
  have l: "lru ?c = k # filter (\<lambda>j. j \<noteq> k) (lru c)" "entries ?c = entries c" "bytes_used ?c = bytes_used c"
    "max_bytes ?c = max_bytes c" using Some k r by (simp_all add: lookup_def)
  have con: "contents ?c = (k, e) # filter (\<lambda>p. fst p \<noteq> k) (contents c)"
    using l Some by (simp add: contents_def filter_map comp_def)
  have "total_size (contents ?c) = total_size (contents c)"
  proof -
    obtain ys zs where xs: "lru c = ys @ k # zs" using split_list [OF k] by blast
    have "filter (\<lambda>x. x \<noteq> k) ys = ys" "filter (\<lambda>x. x \<noteq> k) zs = zs" using xs d by (auto simp: filter_id_conv)
    then show ?thesis unfolding contents_def l using xs Some by simp
  qed
  then have "cache_inv ?c" using assms l k by (auto simp: cache_inv_def)
  with con Some l assms show ?thesis by (simp add: spec_lookup_def map_of_contents inv_ok lookup_def)
qed

lemma new_cache_inv: "cache_inv (new_cache m)" "contents (new_cache m) = []"
  by (simp_all add: cache_inv_def contents_def new_cache_def)

lemma clear_inv: "cache_inv (clear c)" "contents (clear c) = []" "max_bytes (clear c) = max_bytes c"
  by (simp_all add: cache_inv_def contents_def clear_def)

interpretation pc: lru_cache contents max_bytes cache_inv store lookup
  by unfold_locales (use store_spec lookup_spec in auto)

datatype cache_op = Store cache_key "8 word list" int | Lookup cache_key | Clear

fun cache_run :: "prompt_cache \<Rightarrow> cache_op \<Rightarrow> prompt_cache" where
  "cache_run c (Store k d n) = fst (store k d n c)"
| "cache_run c (Lookup k) = fst (lookup k c)"
| "cache_run c Clear = clear c"

fun spec_run :: "nat \<Rightarrow> (cache_key \<times> cache_entry) list \<Rightarrow> cache_op \<Rightarrow> (cache_key \<times> cache_entry) list" where
  "spec_run m xs (Store k d n) = spec_store m k d n xs"
| "spec_run m xs (Lookup k) = spec_lookup k xs"
| "spec_run m xs Clear = []"

lemma cache_run_spec:
  assumes "cache_inv c"
  shows "cache_inv (cache_run c op) \<and> max_bytes (cache_run c op) = max_bytes c \<and>
    contents (cache_run c op) = spec_run (max_bytes c) (contents c) op"
  using assms by (cases op) (simp_all add: pc.put_inv pc.put_contents pc.get_inv pc.get_contents clear_inv)

lemma cache_runs_spec:
  assumes "cache_inv c"
  shows "cache_inv (foldl cache_run c ops) \<and> max_bytes (foldl cache_run c ops) = max_bytes c \<and>
    contents (foldl cache_run c ops) = foldl (spec_run (max_bytes c)) (contents c) ops"
  using assms
proof (induction ops arbitrary: c)
  case (Cons op ops)
  from cache_run_spec [OF Cons.prems, of op] Cons.IH [of "cache_run c op"] show ?case by simp
qed simp

text \<open>Which store a pair of the specification comes from.\<close>

lemma spec_run_origin:
  assumes "map_of (spec_run m xs op) k = Some e"
  shows "op = Store k (entry_data e) (token_count e) \<or> map_of xs k = Some e \<and> (\<forall>d n. op = Store k d n \<longrightarrow> m < length d \<or> m = 0)"
proof -
  have f: "map_of (filter (\<lambda>p. fst p \<noteq> j) ys) k = (if k = j then None else map_of ys k)"
    for ys :: "(cache_key \<times> cache_entry) list" and j by (induction ys) auto
  have kf: "map_of (keep_fitting b ys) k = Some e \<Longrightarrow> map_of ys k = Some e" for b ys
    by (induction b ys rule: keep_fitting.induct) (auto split: if_splits)
  show ?thesis
  proof (cases op)
    case (Store j d n)
    with assms f [of j xs] kf [of "m - length d" "filter (\<lambda>p. fst p \<noteq> j) xs"] show ?thesis
      by (auto simp: spec_store_def not_le split: if_splits)
  next
    case (Lookup j)
    with assms f [of j xs] show ?thesis by (auto simp: spec_lookup_def split: if_splits option.splits)
  qed (use assms in simp)
qed

lemma spec_runs_origin:
  "map_of (foldl (spec_run m) [] ops) k = Some e \<Longrightarrow>
   \<exists>before after. ops = before @ Store k (entry_data e) (token_count e) # after \<and>
     list_all (\<lambda>op. case op of Store j d n \<Rightarrow> j \<noteq> k \<or> m < length d \<or> m = 0 | Clear \<Rightarrow> False | _ \<Rightarrow> True) after"
proof (induction ops rule: rev_induct)
  case (snoc op ops)
  from spec_run_origin [of m "foldl (spec_run m) [] ops" op k e] snoc.prems
  consider (new) "op = Store k (entry_data e) (token_count e)"
    | (old) "map_of (foldl (spec_run m) [] ops) k = Some e" "\<forall>d n. op = Store k d n \<longrightarrow> m < length d \<or> m = 0" by auto
  then show ?case
  proof cases
    case new
    then show ?thesis by (intro exI [of _ ops] exI [of _ "[]"]) simp
  next
    case old
    then obtain b a where ba: "ops = b @ Store k (entry_data e) (token_count e) # a"
      "list_all (\<lambda>op. case op of Store j d n \<Rightarrow> j \<noteq> k \<or> m < length d \<or> m = 0 | Clear \<Rightarrow> False | _ \<Rightarrow> True) a"
      using snoc.IH by blast
    have "op \<noteq> Clear" using snoc.prems by auto
    with ba old(2) show ?thesis
      by (intro exI [of _ b] exI [of _ "a @ [op]"]) (auto split: cache_op.split)
  qed
qed simp

subsection \<open>Properties\<close>

text \<open>
  Claim C28. The prompt cache is a byte-bounded cache in order of use: after any sequence of stores,
  lookups and clears its contents are those of the specification, which keeps the most recently used
  snapshots that fit; the bytes counted are the bytes held and never exceed the bound.
\<close>

theorem prompt_cache_lru:
  "let c = foldl cache_run (new_cache m) ops in
   contents c = foldl (spec_run m) [] ops \<and> map_of (entries c) = map_of (foldl (spec_run m) [] ops) \<and>
   bytes_used c = total_size (contents c) \<and> bytes_used c \<le> m"
proof -
  have "max_bytes (new_cache m) = m" by (simp add: new_cache_def)
  with cache_runs_spec [OF new_cache_inv(1), of m ops] show ?thesis
    by (auto simp: new_cache_inv Let_def cache_inv_def map_of_contents [OF inv_ok, symmetric] fun_eq_iff)
qed

text \<open>
  A hit is never stale: what a lookup returns is the snapshot of the last store under that
  key that the cache accepted, with no clear in between.
\<close>

lemma cache_hit_is_latest_store:
  assumes "snd (lookup k (foldl cache_run (new_cache m) ops)) = Some e"
  shows "\<exists>before after. ops = before @ Store k (entry_data e) (token_count e) # after \<and>
    list_all (\<lambda>op. case op of Store j d n \<Rightarrow> j \<noteq> k \<or> m < length d \<or> m = 0 | Clear \<Rightarrow> False | _ \<Rightarrow> True) after"
proof (rule spec_runs_origin)
  have m: "max_bytes (new_cache m) = m" by (simp add: new_cache_def)
  have "cache_inv (foldl cache_run (new_cache m) ops)"
    "contents (foldl cache_run (new_cache m) ops) = foldl (spec_run m) [] ops"
    using cache_runs_spec [OF new_cache_inv(1), of m ops] m by (simp_all add: new_cache_inv)
  with assms pc.get_result show "map_of (foldl (spec_run m) [] ops) k = Some e" by simp
qed

lemma cache_hit_is_latest_store_witness:
  "\<exists>before after. [Store 1 [7] 3, Lookup 1] = before @ Store 1 [7] 3 # after"
proof -
  have "snd (lookup 1 (foldl cache_run (new_cache 10) [Store 1 [7] 3, Lookup 1])) =
      Some \<lparr>entry_data = [7], token_count = 3, data_size = 1\<rparr>" by code_simp
  from cache_hit_is_latest_store [OF this] show ?thesis by auto
qed

end
