(* ===== verification/Floats.thy ===== *)
theory Floats
  imports Prelude
begin

text \<open>
  Facts on the rounding of \<open>float\<close> and \<open>double\<close> results: the relative error of a rounded result,
  that integers of at most the significand's width are exact, and that a rounded quotient of such
  integers does not reach the next integer.
\<close>

lemma power_pred: "b > 0 \<Longrightarrow> (2 :: 'a::comm_semiring_1) ^ b = 2 * 2 ^ (b - 1)"
  by (cases b) simp_all

lemma bits_bounds: "n > 0 \<Longrightarrow> 2 ^ (bits n - 1) \<le> n \<and> n < 2 ^ bits n \<and> bits n > 0"
proof (induction n rule: bits.induct)
  case (1 n)
  show ?case
  proof (cases "n = 1")
    case True
    then show ?thesis by (simp add: bits.simps [of "Suc 0"] bits.simps [of 0])
  next
    case False
    then have "n div 2 > 0" using 1(2) by auto
    with 1 have "2 ^ (bits (n div 2) - 1) \<le> n div 2" "n div 2 < 2 ^ bits (n div 2)" "bits (n div 2) > 0" by auto
    moreover have "bits n = Suc (bits (n div 2))" using 1(2) by (simp add: bits.simps [of n])
    moreover have "2 * 2 ^ (bits (n div 2) - 1) = (2 :: nat) ^ bits (n div 2)"
      using calculation(3) by (rule power_pred [symmetric])
    moreover have "2 * (n div 2) \<le> n" "n \<le> 2 * (n div 2) + 1" by simp_all
    ultimately show ?thesis by (simp only: power_Suc diff_Suc_1) linarith
  qed
qed

lemma pow2_pos [simp]: "pow2 e > 0"
  by (simp add: pow2_def)

lemma pow2_neq [simp]: "pow2 e \<noteq> 0"
  by (rule less_imp_neq [OF pow2_pos, symmetric])

lemma pow2_nonneg: "pow2 (int n) = 2 ^ n"
  by (simp add: pow2_def)

lemma pow2_add: "pow2 (a + b) = pow2 a * pow2 b"
proof -
  have "pow2 e = 2 powi e" for e by (auto simp: pow2_def power_int_def divide_simps)
  then show ?thesis by (simp add: power_int_add)
qed

lemma pow2_mono: "a \<le> b \<Longrightarrow> pow2 a \<le> pow2 b"
proof -
  assume "a \<le> b"
  then obtain n where "b = a + int n" by (metis zle_iff_zadd)
  then have "pow2 b = pow2 a * 2 ^ n" by (simp add: pow2_add pow2_nonneg)
  then show ?thesis using mult_left_mono [of 1 "2 ^ n" "pow2 a"] by simp
qed

lemma round_even_error: "\<bar>of_int (round_even x) - x\<bar> \<le> 1 / 2"
proof -
  have f: "of_int \<lfloor>x\<rfloor> \<le> x" "x < of_int \<lfloor>x\<rfloor> + 1" by (rule of_int_floor_le) linarith
  show ?thesis unfolding round_even_def Let_def abs_le_iff using f by (simp only: not_less split: if_split) (intro conjI impI; linarith)
qed

lemma round_even_int: "round_even (of_int i) = i"
  by (simp add: round_even_def)

text \<open>The exponent chosen puts the significand into its range.\<close>

lemma round_sig_form:
  assumes "x > 0" "b > 0"
  shows "\<exists>e. round_sig b x = of_int (round_even (x / pow2 e)) * pow2 e \<and> 2 ^ (b - 1) \<le> x / pow2 e \<and> x / pow2 e < 2 ^ b"
proof -
  obtain p q where pq: "quotient_of x = (p, q)" by (cases "quotient_of x")
  have x: "x = of_int p / of_int q" "q > 0" using quotient_of_div [OF pq] quotient_of_denom_pos [OF pq] by auto
  then have "p > 0" using assms(1) by (simp add: zero_less_divide_iff)
  define P Q where "P = nat p" and "Q = nat q"
  have PQ: "P > 0" "Q > 0" "x = of_nat P / of_nat Q" using x \<open>p > 0\<close> by (auto simp: P_def Q_def)
  define e0 where "e0 = int (bits P) - int (bits Q) - int b"
  note bP = bits_bounds [OF PQ(1)] and bQ = bits_bounds [OF PQ(2)]
  have up: "x < pow2 (int (bits P)) / pow2 (int (bits Q) - 1)"
  proof -
    have "pow2 (int (bits Q) - 1) = of_nat (2 ^ (bits Q - 1))" using bQ by (simp add: pow2_def nat_diff_distrib)
    moreover have "of_nat (2 ^ (bits Q - 1)) \<le> (of_nat Q :: rat)" using bQ by (metis of_nat_le_iff)
    moreover have "(of_nat P :: rat) < of_nat (2 ^ bits P)" using bP by (metis of_nat_less_iff)
    ultimately show ?thesis unfolding PQ(3) pow2_nonneg using PQ(2)
      by (intro less_le_trans [OF divide_strict_right_mono divide_left_mono]) auto
  qed
  have lo: "pow2 (int (bits P) - 1) / pow2 (int (bits Q)) < x"
  proof -
    have "pow2 (int (bits P) - 1) = of_nat (2 ^ (bits P - 1))" using bP by (simp add: pow2_def nat_diff_distrib)
    moreover have "of_nat (2 ^ (bits P - 1)) \<le> (of_nat P :: rat)" using bP by (metis of_nat_le_iff)
    moreover have "(of_nat Q :: rat) < of_nat (2 ^ bits Q)" using bQ by (metis of_nat_less_iff)
    ultimately show ?thesis unfolding PQ(3) pow2_nonneg using PQ
      by (intro le_less_trans [OF divide_right_mono divide_strict_left_mono]) auto
  qed
  have quot: "pow2 a / pow2 c = pow2 (a - c)" for a c
    using pow2_add [of "a - c" c] by (simp add: divide_simps)
  have range: "2 ^ (b - 1) < x / pow2 e0" "x / pow2 e0 < 2 ^ (b + 1)"
  proof -
    have "pow2 (int b - 1) * pow2 e0 < x"
      using lo by (simp add: quot pow2_add [symmetric] e0_def algebra_simps)
    then show "2 ^ (b - 1) < x / pow2 e0" using assms(2) pow2_nonneg [of "b - 1"] by (simp add: less_divide_eq of_nat_diff)
    have "x < pow2 (int b + 1) * pow2 e0"
      using up by (simp add: quot pow2_add [symmetric] e0_def algebra_simps)
    then show "x / pow2 e0 < 2 ^ (b + 1)" using pow2_nonneg [of "b + 1"] by (simp add: divide_less_eq algebra_simps)
  qed
  define e where "e = (if x / pow2 e0 < 2 ^ b then e0 else e0 + 1)"
  have "2 ^ (b - 1) \<le> x / pow2 e \<and> x / pow2 e < 2 ^ b"
  proof (cases "x / pow2 e0 < 2 ^ b")
    case True
    with range show ?thesis by (simp add: e_def)
  next
    case False
    have "x / pow2 (e0 + 1) = (x / pow2 e0) / 2" by (simp add: pow2_add pow2_nonneg [of 1, simplified] del: divide_divide_eq_left divide_eq_eq)
    moreover have "(2 :: rat) ^ b = 2 * 2 ^ (b - 1)" using assms(2) by (rule power_pred)
    ultimately show ?thesis using False range(2) unfolding e_def by (simp only: if_False) (simp add: field_simps)
  qed
  moreover from this have "\<not> x / pow2 e < 2 ^ (b - 1)" by simp
  then have "round_sig b x = of_int (round_even (x / pow2 e)) * pow2 e"
    unfolding round_sig_def using assms(1) pq
    by (simp only: Let_def abs_of_pos prod.case P_def [symmetric] Q_def [symmetric] e0_def [symmetric] e_def [symmetric]) simp
  ultimately show ?thesis by blast
qed

lemma round_sig_error:
  assumes "x > 0" "b > 0"
  shows "\<bar>round_sig b x - x\<bar> \<le> x / 2 ^ b"
proof -
  obtain e where e: "round_sig b x = of_int (round_even (x / pow2 e)) * pow2 e" "2 ^ (b - 1) \<le> x / pow2 e"
    using round_sig_form [OF assms] by blast
  have "round_sig b x - x = (of_int (round_even (x / pow2 e)) - x / pow2 e) * pow2 e"
    unfolding e(1) by (simp add: left_diff_distrib)
  then have "\<bar>round_sig b x - x\<bar> = \<bar>of_int (round_even (x / pow2 e)) - x / pow2 e\<bar> * pow2 e"
    by (simp add: abs_mult less_imp_le)
  also have "\<dots> \<le> 1 / 2 * pow2 e" by (rule mult_right_mono [OF round_even_error]) (simp add: less_imp_le)
  also have "1 / 2 * pow2 e \<le> x / 2 ^ b"
  proof -
    have "(2 :: rat) ^ b = 2 * 2 ^ (b - 1)" using assms(2) by (rule power_pred)
    then show ?thesis using e(2) by (simp add: le_divide_eq algebra_simps)
  qed
  finally show ?thesis .
qed

lemma round_sig_int:
  assumes "b > 0" "n < 2 ^ b"
  shows "round_sig b (of_nat n) = of_nat n"
proof (cases "n = 0")
  case False
  then have "(of_nat n :: rat) > 0" by simp
  from round_sig_form [OF this assms(1)] obtain e where e: "round_sig b (of_nat n) = of_int (round_even (of_nat n / pow2 e)) * pow2 e"
    "2 ^ (b - 1) \<le> of_nat n / pow2 e" by blast
  have "e \<le> 0"
  proof (rule ccontr)
    assume "\<not> e \<le> 0"
    then have "pow2 1 \<le> pow2 e" by (intro pow2_mono) simp
    moreover have "pow2 1 = 2" by (simp add: pow2_def)
    ultimately have "2 ^ (b - 1) * 2 \<le> 2 ^ (b - 1) * pow2 e" by (intro mult_left_mono) simp_all
    also have "\<dots> \<le> of_nat n" using e(2) by (simp add: le_divide_eq)
    also have "(of_nat n :: rat) < 2 ^ b" using assms(2) by (metis of_nat_less_iff of_nat_numeral of_nat_power)
    also have "(2 :: rat) ^ b = 2 ^ (b - 1) * 2" using power_pred [OF assms(1), where 'a = rat] by simp
    finally show False by simp
  qed
  then have p: "pow2 e = 1 / 2 ^ nat (- e)" by (cases "e = 0") (simp_all add: pow2_def)
  then have "of_nat n / pow2 e = of_int (int n * 2 ^ nat (- e))" by simp
  then show ?thesis unfolding e(1) by (simp only: round_even_int) (simp add: p)
qed (simp add: round_sig_def)

text \<open>Rounding a quotient does not carry it over the next integer.\<close>

lemma round_sig_quotient:
  assumes "b > 0" "0 < q" "p < 2 ^ b"
  shows "\<lfloor>round_sig b (of_nat p / of_nat q)\<rfloor> \<le> int (p div q)"
proof (cases "p = 0")
  case False
  let ?x = "of_nat p / of_nat q :: rat"
  have x: "?x > 0" using False assms(2) by simp
  have "round_sig b ?x \<le> ?x + ?x / 2 ^ b" using round_sig_error [OF x assms(1)] by (simp add: abs_le_iff)
  also have "\<dots> < of_nat (p div q + 1)"
  proof -
    have le: "p + 1 \<le> (p div q + 1) * q" using assms(2) by (metis Suc_eq_plus1 Suc_leI dividend_less_div_times mult.commute mult_Suc_right add.commute)
    have "(of_nat p :: rat) / 2 ^ b < 1" using assms(3) by (metis divide_less_eq_1_pos of_nat_less_iff of_nat_numeral of_nat_power zero_less_numeral zero_less_power)
    then have "of_nat p + of_nat p / 2 ^ b < (of_nat (p + 1) :: rat)" by simp
    also have "\<dots> \<le> of_nat ((p div q + 1) * q)" using le by (metis of_nat_le_iff)
    finally have "of_nat p + of_nat p / 2 ^ b < (of_nat (p div q + 1) * of_nat q :: rat)" by (simp only: of_nat_mult)
    then have "(of_nat p + of_nat p / 2 ^ b) / of_nat q < (of_nat (p div q + 1) :: rat)"
      using assms(2) by (simp only: pos_divide_less_eq of_nat_0_less_iff)
    then show ?thesis by (simp add: add_divide_distrib mult.commute)
  qed
  finally show ?thesis by (simp add: floor_less_iff zless_add1_eq [symmetric] less_Suc_eq_le flip: of_nat_Suc) linarith
qed (simp add: round_sig_def)

end
