(* ===== verification/Placement.thy ===== *)
theory Placement
  imports Inference_Types Floats "HOL-Library.Word"
begin

text \<open>
  Where a model's weights go (\<open>inference/vram_footprint.h\<close>, \<open>inference/gguf_metadata.h\<close>,
  \<open>inference/auto_placement.h\<close>, \<open>inference/partial_offload.h\<close>, \<open>inference/expert_offload.h\<close>) and
  whether a prompt fits (\<open>inference/context_fit.h\<close>). A \<open>uint64_t\<close> is a 64 bit word and wraps; a
  \<open>double\<close> is a rational rounded to 53 bits where the operation can round (the sums and halves of
  the KV table are exact). Proved: the context length recommended fits the memory it was computed
  for, and the placement chosen fits and is the first of its kind that does.
\<close>

type_synonym u64 = "64 word"

definition MiB :: u64 where
  "MiB = 1024 * 1024"

subsection \<open>The footprint estimate\<close>

definition kBaseKvPerTokenF16 :: nat where
  "kBaseKvPerTokenF16 = 16 * 1024"

definition kAllLayersSentinel :: int where
  "kAllLayersSentinel = 99"

datatype offload = offload_none | offload_full | partial_unknown

record footprint_inputs =
  weights_bytes :: u64
  mmproj_bytes :: u64
  in_gpu_layers :: int
  in_context_length :: int
  in_cache_type_k :: string
  in_cache_type_v :: string
  vram_reserve_mb :: int
  in_max_sessions :: int
  draft_bytes :: u64
  in_block_count :: int
  in_block_bytes :: u64
  in_non_block_bytes :: u64
  host_expert_bytes :: u64

record footprint_estimate =
  est_known :: bool
  est_bytes :: u64
  est_reason :: string

definition kv_scales :: "(string \<times> rat) list" where
  "kv_scales = [(''f32'', 2), (''f16'', 1), (''bf16'', 1), (''q8_0'', 53125 / 100000), (''q5_1'', 375 / 1000),
     (''q5_0'', 34375 / 100000), (''q4_1'', 3125 / 10000), (''q4_0'', 28125 / 100000)]"

definition kv_scale_for_cache_type :: "string \<Rightarrow> rat" where
  "kv_scale_for_cache_type type = (case map_of kv_scales type of None \<Rightarrow> 1 | Some s \<Rightarrow> s)"

definition classify_offload :: "int \<Rightarrow> offload" where
  "classify_offload layers =
     (if layers < 0 \<or> layers \<ge> kAllLayersSentinel then offload_full
      else if layers = 0 then offload_none else partial_unknown)"

definition kv_bytes_per_token :: "footprint_inputs \<Rightarrow> rat" where
  "kv_bytes_per_token inp =
     of_nat kBaseKvPerTokenF16 *
       ((kv_scale_for_cache_type (in_cache_type_k inp) + kv_scale_for_cache_type (in_cache_type_v inp)) / 2)"

text \<open>\<open>static_cast<uint64_t>\<close> of a non-negative \<open>double\<close> and of an \<open>int\<close>.\<close>

definition u64_of_double :: "rat \<Rightarrow> u64" where
  "u64_of_double x = of_int \<lfloor>x\<rfloor>"

definition kv_cache_bytes :: "footprint_inputs \<Rightarrow> u64" where
  "kv_cache_bytes inp =
     (let ctx = (if in_context_length inp > 0 then in_context_length inp else 0);
          sessions = (if in_max_sessions inp > 0 then in_max_sessions inp else 1)
      in u64_of_double (f64 (f64 (of_int ctx * of_int sessions) * kv_bytes_per_token inp)))"

definition estimate_vram_footprint :: "footprint_inputs \<Rightarrow> footprint_estimate" where
  "estimate_vram_footprint inp =
     (let placement = classify_offload (in_gpu_layers inp);
          have_shape = (in_block_count inp > 0 \<and> in_block_bytes inp > 0)
      in if placement = partial_unknown \<and> \<not> have_shape
         then \<lparr>est_known = False, est_bytes = 0,
                est_reason = ''partial offload: layer count is not knowable without GGUF metadata, so the budget gate stays open''\<rparr>
         else
           let resident = (case placement of
                  offload_full \<Rightarrow> weights_bytes inp + mmproj_bytes inp
                | partial_unknown \<Rightarrow> in_block_bytes inp div of_int (in_block_count inp) * of_int (in_gpu_layers inp)
                | offload_none \<Rightarrow> 0);
               resident1 = resident - min resident (host_expert_bytes inp) + draft_bytes inp
           in \<lparr>est_known = True,
               est_bytes = resident1 + kv_cache_bytes inp + of_int (vram_reserve_mb inp) * 1024 * 1024,
               est_reason = []\<rparr>)"

definition recommend_context_length :: "footprint_inputs \<Rightarrow> u64 \<Rightarrow> int" where
  "recommend_context_length inp available =
     (let fixed = estimate_vram_footprint (inp\<lparr>in_context_length := 0\<rparr>) in
      if \<not> est_known fixed \<or> est_bytes fixed \<ge> available then 0
      else
        let sessions = (if in_max_sessions inp > 0 then in_max_sessions inp else 1);
            per_token = f64 (kv_bytes_per_token inp * of_int sessions);
            kv_budget = available - est_bytes fixed;
            fits = u64_of_double (f64 (f64 (of_nat (unat kv_budget)) / per_token));
            requested = (if in_context_length inp > 0 then of_int (in_context_length inp) else 0);
            chosen = (if fits < requested then fits else requested)
        in sint (ucast (chosen - chosen mod 512) :: 32 word))"

subsection \<open>The shape of a model\<close>

record gguf_shape =
  shape_known :: bool
  block_count :: int
  expert_count :: int
  block_bytes :: u64
  expert_bytes :: u64
  non_block_bytes :: u64

definition bytes_per_block :: "gguf_shape \<Rightarrow> u64" where
  "bytes_per_block s = (if \<not> shape_known s \<or> block_count s \<le> 0 then 0 else block_bytes s div of_int (block_count s))"

definition expert_bytes_per_block :: "gguf_shape \<Rightarrow> u64" where
  "expert_bytes_per_block s =
     (if \<not> shape_known s \<or> block_count s \<le> 0 then 0 else expert_bytes s div of_int (block_count s))"

subsection \<open>Automatic placement\<close>

record auto_placement =
  ap_known :: bool
  ap_gpu_layers :: int
  ap_cpu_moe_layers :: int
  ap_bytes :: u64
  fully_resident :: bool
  ap_n_ubatch :: int
  margin_bytes :: u64
  ap_reason :: string

definition no_placement :: auto_placement where
  "no_placement = \<lparr>ap_known = False, ap_gpu_layers = 0, ap_cpu_moe_layers = 0, ap_bytes = 0, fully_resident = False,
     ap_n_ubatch = 0, margin_bytes = 0, ap_reason = []\<rparr>"

definition kComputeBytesAtUbatch512 :: u64 where
  "kComputeBytesAtUbatch512 = 1222 * 1024 * 1024"

definition kDefaultUbatch :: int where
  "kDefaultUbatch = 512"

definition kUbatchLadder :: "int list" where
  "kUbatchLadder = [512, 256, 128]"

definition compute_allowance_bytes :: "footprint_inputs \<Rightarrow> int \<Rightarrow> u64" where
  "compute_allowance_bytes base ub =
     (let ubatch = (if ub > 0 then ub else kDefaultUbatch);
          contexts = (if draft_bytes base > 0 then 2 else 1);
          scaled = kComputeBytesAtUbatch512 * of_int ubatch div 512 * contexts;
          reserve = of_int (vram_reserve_mb base) * 1024 * 1024
      in if scaled > reserve then scaled - reserve else 0)"

definition placement_inputs :: "footprint_inputs \<Rightarrow> gguf_shape \<Rightarrow> int \<Rightarrow> int \<Rightarrow> footprint_inputs" where
  "placement_inputs base shape layers moe =
     base\<lparr>in_gpu_layers := (if layers < 0 \<or> layers \<ge> block_count shape then - 1 else layers),
          in_block_count := block_count shape, in_block_bytes := block_bytes shape,
          in_non_block_bytes := non_block_bytes shape,
          host_expert_bytes := expert_bytes_per_block shape * of_int moe\<rparr>"

definition placement_fits :: "footprint_inputs \<Rightarrow> gguf_shape \<Rightarrow> int \<Rightarrow> int \<Rightarrow> u64 \<Rightarrow> bool \<times> u64" where
  "placement_fits base shape layers moe budget =
     (let est = estimate_vram_footprint (placement_inputs base shape layers moe)
      in (est_known est \<and> est_bytes est \<le> budget, est_bytes est))"

definition try_fully_resident :: "gguf_shape \<Rightarrow> footprint_inputs \<Rightarrow> u64 \<Rightarrow> auto_placement \<Rightarrow> auto_placement option" where
  "try_fully_resident shape base budget out =
     (case placement_fits base shape (block_count shape) 0 budget of
        (False, _) \<Rightarrow> None
      | (True, used) \<Rightarrow> Some (out\<lparr>ap_known := True, ap_gpu_layers := - 1, fully_resident := True, ap_bytes := used,
                                ap_reason := ''fully resident''\<rparr>))"

definition try_expert_offload :: "gguf_shape \<Rightarrow> footprint_inputs \<Rightarrow> u64 \<Rightarrow> auto_placement \<Rightarrow> auto_placement option" where
  "try_expert_offload shape base budget out =
     (if expert_count shape \<le> 0 \<or> expert_bytes shape = 0 then None
      else map_option (\<lambda>moe. out\<lparr>ap_known := True, ap_gpu_layers := - 1, fully_resident := True, ap_cpu_moe_layers := moe,
               ap_bytes := snd (placement_fits base shape (block_count shape) moe budget),
               ap_reason := ''all layers resident, experts host-side''\<rparr>)
             (find (\<lambda>moe. fst (placement_fits base shape (block_count shape) moe budget)) [1..block_count shape]))"

definition try_fewer_layers :: "gguf_shape \<Rightarrow> footprint_inputs \<Rightarrow> u64 \<Rightarrow> auto_placement \<Rightarrow> auto_placement option" where
  "try_fewer_layers shape base budget out =
     map_option (\<lambda>layers. out\<lparr>ap_known := True, ap_gpu_layers := layers,
              ap_bytes := snd (placement_fits base shape layers 0 budget), ap_reason := ''partial offload''\<rparr>)
            (find (\<lambda>layers. fst (placement_fits base shape layers 0 budget)) (rev [0..block_count shape - 1]))"

definition budget_after :: "u64 \<Rightarrow> u64 \<Rightarrow> u64" where
  "budget_after free allowance = (if free > allowance then free - allowance else 0)"

fun try_ladder ::
  "gguf_shape \<Rightarrow> footprint_inputs \<Rightarrow> u64 \<Rightarrow> int \<Rightarrow> auto_placement \<Rightarrow> int list \<Rightarrow> auto_placement option" where
  "try_ladder shape base free current out [] = None"
| "try_ladder shape base free current out (ub # ubs) =
     (if ub \<ge> current then try_ladder shape base free current out ubs
      else case try_fully_resident shape base (budget_after free (compute_allowance_bytes base ub)) out of
             None \<Rightarrow> try_ladder shape base free current out ubs
           | Some p \<Rightarrow> Some (p\<lparr>ap_n_ubatch := ub, ap_reason := ''fully resident at a reduced n_ubatch''\<rparr>))"

definition try_smaller_ubatch ::
  "gguf_shape \<Rightarrow> footprint_inputs \<Rightarrow> u64 \<Rightarrow> int \<Rightarrow> auto_placement \<Rightarrow> auto_placement option" where
  "try_smaller_ubatch shape base free configured out =
     try_ladder shape base free (if configured > 0 then configured else kDefaultUbatch) out kUbatchLadder"

definition derive_auto_placement :: "gguf_shape \<Rightarrow> footprint_inputs \<Rightarrow> u64 \<Rightarrow> int \<Rightarrow> auto_placement" where
  "derive_auto_placement shape base free ub =
     (if \<not> shape_known shape \<or> free = 0 then no_placement\<lparr>ap_reason := ''GGUF shape or free VRAM unknown''\<rparr>
      else
        let budget = budget_after free (compute_allowance_bytes base ub) in
        case (case try_fully_resident shape base budget no_placement of
                Some p \<Rightarrow> Some p
              | None \<Rightarrow> (case try_smaller_ubatch shape base free ub no_placement of
                  Some p \<Rightarrow> Some p
                | None \<Rightarrow> (case try_expert_offload shape base budget no_placement of
                    Some p \<Rightarrow> Some p
                  | None \<Rightarrow> try_fewer_layers shape base budget no_placement))) of
          None \<Rightarrow> no_placement\<lparr>ap_reason := ''nothing fits, even with no layers offloaded''\<rparr>
        | Some p \<Rightarrow>
            let effective = budget_after free (compute_allowance_bytes base (if ap_n_ubatch p > 0 then ap_n_ubatch p else ub))
            in p\<lparr>margin_bytes := (if effective > ap_bytes p then effective - ap_bytes p else 0)\<rparr>)"

subsection \<open>Partial offload and locked memory\<close>

definition kPartialOffloadReserveBytes :: u64 where
  "kPartialOffloadReserveBytes = 2048 * 1024 * 1024"

definition partial_gpu_layers_for :: "u64 \<Rightarrow> u64 \<Rightarrow> int \<Rightarrow> int" where
  "partial_gpu_layers_for file_bytes free_vram n_layers =
     (if file_bytes = 0 \<or> n_layers \<le> 0 then 0
      else if free_vram \<le> kPartialOffloadReserveBytes then 0
      else
        let budget = free_vram - kPartialOffloadReserveBytes;
            per_layer = file_bytes div of_int n_layers
        in if per_layer = 0 then n_layers
           else max 0 (min n_layers (sint (ucast (budget div per_layer) :: 32 word))))"

definition host_can_hold_warm_load :: "u64 \<Rightarrow> u64 \<Rightarrow> u64 \<Rightarrow> bool" where
  "host_can_hold_warm_load file_bytes available headroom \<longleftrightarrow>
     available = 0 \<or> available \<ge> file_bytes + file_bytes div 2 + headroom"

definition kLargeModelThresholdBytes :: u64 where
  "kLargeModelThresholdBytes = 10 * 1024 * 1024 * 1024"

definition kMemlockUnlimited :: u64 where
  "kMemlockUnlimited = - 1"

definition mlock_refused :: "bool \<Rightarrow> u64 \<Rightarrow> int \<Rightarrow> u64 \<Rightarrow> u64 \<Rightarrow> bool" where
  "mlock_refused mlock file_bytes layers limit host_experts \<longleftrightarrow>
     \<not> (\<not> mlock \<or> (layers < 0 \<and> host_experts = 0) \<or> file_bytes \<le> kLargeModelThresholdBytes \<or> limit = kMemlockUnlimited) \<and>
     (if host_experts > 0 then host_experts else file_bytes) > limit"

definition gpu_offload_refused :: "u64 \<Rightarrow> int \<Rightarrow> u64 \<Rightarrow> bool" where
  "gpu_offload_refused file_bytes layers free_vram \<longleftrightarrow>
     \<not> (layers = 0 \<or> free_vram = 0 \<or> file_bytes \<le> kLargeModelThresholdBytes) \<and> free_vram \<le> kPartialOffloadReserveBytes"

subsection \<open>Experts on the host\<close>

definition kExpertTensorRegex :: string where
  "kExpertTensorRegex = [CHR 0x5C] @ ''.ffn_(up|down|gate|gate_up)_(ch|)exps''"

definition expert_block_pattern :: "int \<Rightarrow> string" where
  "expert_block_pattern layer = ''blk'' @ [CHR 0x5C] @ ''.'' @ to_string_int layer @ kExpertTensorRegex"

definition expert_offload_patterns :: "int \<Rightarrow> string list" where
  "expert_offload_patterns n = (if n \<le> 0 then [] else map (expert_block_pattern \<circ> int) [0..<nat n])"

definition expert_offload_conflict_reason :: "model_config \<Rightarrow> string" where
  "expert_offload_conflict_reason cfg =
     (let n = cpu_moe_layers cfg in
      if n < 0
      then ''cpu_moe_layers must be >= 0 (0 = off), got '' @ to_string_int n @ ''. There is no '' @ squoted ''all layers'' @
           '' sentinel '' @ em_dash @ '' name the layer count you want host-side.''
      else if n > 0 \<and> gpu_layers cfg = 0
      then ''cpu_moe_layers='' @ to_string_int n @ '' with gpu_layers: 0 '' @ em_dash @
           '' the whole model is already on the host, so there are no expert tensors on the card to move '' @
           ''off it. Raise gpu_layers, or drop cpu_moe_layers.''
      else if n > 0 \<and> gpu_layers_auto cfg
      then ''cpu_moe_layers='' @ to_string_int n @ '' with gpu_layers: auto '' @ em_dash @
           '' auto derives the expert split itself from the model'' @ [CHR 0x27] @ ''s shape, so setting both asks two '' @
           ''things to decide one placement. Drop cpu_moe_layers and let auto choose, or set gpu_layers to an explicit count '' @
           ''and keep your own split.''
      else [])"

definition expert_offload_load_refusal :: "int \<Rightarrow> int \<Rightarrow> int \<Rightarrow> string" where
  "expert_offload_load_refusal moe n_layer n_expert =
     (if moe \<le> 0 then []
      else if n_expert \<le> 0
      then ''cpu_moe_layers='' @ to_string_int moe @ '' was requested, but this model declares no experts '' @
           ''(<arch>.expert_count is absent or 0). Expert-tensor offload has nothing to place; use gpu_layers to move '' @
           ''whole layers on a dense model.''
      else if moe > n_layer
      then ''cpu_moe_layers='' @ to_string_int moe @ '' exceeds the model'' @ [CHR 0x27] @ ''s '' @ to_string_int n_layer @
           '' layers. Lower it to at most '' @ to_string_int n_layer @
           ''; it is not clamped, because a count that cannot be honoured is a configuration error, not a preference.''
      else [])"

subsection \<open>Whether a prompt fits\<close>

record context_fit =
  prompt_tokens :: int
  fit_context_length :: int
  system_tokens :: int
  tool_tokens :: int
  tool_bytes :: nat
  tool_count :: int

definition context_fit_overflows :: "context_fit \<Rightarrow> bool" where
  "context_fit_overflows f \<longleftrightarrow> fit_context_length f > 0 \<and> prompt_tokens f \<ge> fit_context_length f"

definition context_fit_history_tokens :: "context_fit \<Rightarrow> int" where
  "context_fit_history_tokens f =
     (let rest = prompt_tokens f - system_tokens f - tool_tokens f in if rest > 0 then rest else 0)"

definition context_fit_largest_contributor :: "context_fit \<Rightarrow> string" where
  "context_fit_largest_contributor f =
     (let most = context_fit_history_tokens f;
          (most1, who) = (if tool_tokens f > most then (tool_tokens f, ''the staged tool block'') else (most, ''the message history''))
      in if system_tokens f > most1 then ''the system prompt'' else who)"

definition context_fit_breakdown :: "context_fit \<Rightarrow> string" where
  "context_fit_breakdown f =
     ''staged tools '' @ to_string_int (tool_tokens f) @ '' tok ('' @ to_string_int (tool_count f) @ '' tools, '' @
     to_string_int (int (tool_bytes f)) @ '' bytes); system prompt '' @ to_string_int (system_tokens f) @
     '' tok; message history '' @ to_string_int (context_fit_history_tokens f) @ '' tok''"

definition context_overflow_message :: "context_fit \<Rightarrow> string" where
  "context_overflow_message f =
     ''Prompt does not fit this tier'' @ [CHR 0x27] @ ''s context: '' @ to_string_int (prompt_tokens f) @
     '' prompt tokens against context_length='' @ to_string_int (fit_context_length f) @ '' (over by '' @
     to_string_int (prompt_tokens f - fit_context_length f) @ '' tokens). Largest contributor: '' @
     context_fit_largest_contributor f @ ''. Breakdown: '' @ context_fit_breakdown f @ ''. Refused before decode '' @ em_dash @
     '' compaction cannot shrink the staged tool block. Raise this tier'' @ [CHR 0x27] @
     ''s context_length, or narrow its allowed_tools.''"

subsection \<open>Lemmas: the footprint\<close>

lemma kv_scale_32nds: "\<exists>s. kv_scale_for_cache_type t = of_nat s / 32 \<and> 9 \<le> s \<and> s \<le> 64"
proof -
  have "kv_scale_for_cache_type t \<in> {2, 1, 17 / 32, 3 / 8, 11 / 32, 5 / 16, 9 / 32}"
    by (simp add: kv_scale_for_cache_type_def kv_scales_def)
  then show ?thesis
    by (elim insertE emptyE)
      (auto intro: exI [of _ 64] exI [of _ 32] exI [of _ 17] exI [of _ 12] exI [of _ 11] exI [of _ 10] exI [of _ 9])
qed

lemma kv_per_token_nat: "\<exists>k. kv_bytes_per_token inp = of_nat k \<and> 0 < k \<and> k \<le> 2 ^ 15"
proof -
  obtain a b where "kv_scale_for_cache_type (in_cache_type_k inp) = of_nat a / 32" "9 \<le> a" "a \<le> 64"
    "kv_scale_for_cache_type (in_cache_type_v inp) = of_nat b / 32" "9 \<le> b" "b \<le> 64"
    using kv_scale_32nds by metis
  then show ?thesis
    by (intro exI [of _ "256 * (a + b)"]) (auto simp: kv_bytes_per_token_def kBaseKvPerTokenF16_def)
qed

lemma f64_nat: "n < 2 ^ 53 \<Longrightarrow> f64 (of_nat n) = of_nat n"
  unfolding f64_def by (rule round_sig_int) simp_all

lemma f64_quotient: "0 < q \<Longrightarrow> p < 2 ^ 53 \<Longrightarrow> \<lfloor>f64 (of_nat p / of_nat q)\<rfloor> \<le> int (p div q)"
  unfolding f64_def by (rule round_sig_quotient) simp_all

lemma f64_nonneg: "x \<ge> 0 \<Longrightarrow> f64 x \<ge> 0"
proof -
  assume "x \<ge> 0"
  show ?thesis
  proof (cases "x = 0")
    case False
    with \<open>x \<ge> 0\<close> have "\<bar>f64 x - x\<bar> \<le> x / 2 ^ 53" unfolding f64_def by (intro round_sig_error) simp_all
    moreover have "x / 2 ^ 53 \<le> x" using \<open>x \<ge> 0\<close> by (simp add: divide_le_eq mult_le_cancel_left1)
    ultimately show ?thesis by linarith
  qed (simp add: f64_def round_sig_def)
qed

text \<open>The cache of a context is a multiple of its length, as long as no \<open>double\<close> rounds.\<close>

definition sessions_of :: "footprint_inputs \<Rightarrow> nat" where
  "sessions_of inp = nat (if in_max_sessions inp > 0 then in_max_sessions inp else 1)"

lemma kv_cache_exact:
  assumes "kv_bytes_per_token inp = of_nat k" "n * sessions_of inp * k < 2 ^ 53" "0 < k"
  shows "kv_cache_bytes (inp\<lparr>in_context_length := int n\<rparr>) = of_nat (n * sessions_of inp * k)"
proof -
  have "n * sessions_of inp \<le> n * sessions_of inp * k" using assms(3) by simp
  then have lt: "n * sessions_of inp < 2 ^ 53" using assms(2) by (rule le_less_trans)
  have kv: "kv_bytes_per_token (inp\<lparr>in_context_length := int n\<rparr>) = of_nat k"
    using assms(1) by (simp add: kv_bytes_per_token_def)
  have ctx: "of_int (if int n > 0 then int n else 0) * of_int (if in_max_sessions inp > 0 then in_max_sessions inp else 1) =
      (of_nat (n * sessions_of inp) :: rat)" by (auto simp: sessions_of_def)
  have "kv_cache_bytes (inp\<lparr>in_context_length := int n\<rparr>) = u64_of_double (f64 (f64
      (of_int (if int n > 0 then int n else 0) * of_int (if in_max_sessions inp > 0 then in_max_sessions inp else 1)) * of_nat k))"
    by (simp add: kv_cache_bytes_def Let_def kv)
  also have "\<dots> = u64_of_double (of_nat (n * sessions_of inp * k))"
    unfolding ctx f64_nat [OF lt] of_nat_mult [symmetric] f64_nat [OF assms(2)] ..
  finally show ?thesis by (simp add: u64_of_double_def flip: of_nat_mult)
qed

lemma estimate_splits:
  "est_known (estimate_vram_footprint (inp\<lparr>in_context_length := n\<rparr>)) = est_known (estimate_vram_footprint (inp\<lparr>in_context_length := 0\<rparr>))"
  "est_known (estimate_vram_footprint (inp\<lparr>in_context_length := 0\<rparr>)) \<Longrightarrow>
   est_bytes (estimate_vram_footprint (inp\<lparr>in_context_length := n\<rparr>)) =
     est_bytes (estimate_vram_footprint (inp\<lparr>in_context_length := 0\<rparr>)) + kv_cache_bytes (inp\<lparr>in_context_length := n\<rparr>)"
proof -
  have z: "kv_cache_bytes (inp\<lparr>in_context_length := 0\<rparr>) = 0"
    by (simp add: kv_cache_bytes_def u64_of_double_def f64_def round_sig_def)
  show "est_known (estimate_vram_footprint (inp\<lparr>in_context_length := n\<rparr>)) = est_known (estimate_vram_footprint (inp\<lparr>in_context_length := 0\<rparr>))"
    by (simp add: estimate_vram_footprint_def Let_def)
  assume "est_known (estimate_vram_footprint (inp\<lparr>in_context_length := 0\<rparr>))"
  then show "est_bytes (estimate_vram_footprint (inp\<lparr>in_context_length := n\<rparr>)) =
     est_bytes (estimate_vram_footprint (inp\<lparr>in_context_length := 0\<rparr>)) + kv_cache_bytes (inp\<lparr>in_context_length := n\<rparr>)"
    using z by (cases "classify_offload (in_gpu_layers inp)")
      (simp_all add: estimate_vram_footprint_def Let_def add.assoc add.left_commute split: if_splits)
qed

text \<open>The number of tokens that fit is never rounded up.\<close>

lemma unat_of_int_small: "0 \<le> i \<Longrightarrow> i < 2 ^ 64 \<Longrightarrow> unat (of_int i :: u64) = nat i"
proof -
  assume a: "0 \<le> i" "i < 2 ^ 64"
  have "uint (of_int i :: u64) = take_bit 64 i" by (simp add: unsigned_of_int)
  also have "\<dots> = i" using a by (intro take_bit_int_eq_self) simp_all
  finally show ?thesis by (simp only: unat_eq_nat_uint)
qed

lemma fits_bound:
  assumes "kv_bytes_per_token inp = of_nat k" "0 < k" "k \<le> 2 ^ 15" "sessions_of inp < 2 ^ 31" "B < 2 ^ 53"
  shows "unat (u64_of_double (f64 (f64 (of_nat B) / f64 (kv_bytes_per_token inp *
      of_int (if in_max_sessions inp > 0 then in_max_sessions inp else 1))))) \<le> B div (k * sessions_of inp)"
proof -
  let ?q = "k * sessions_of inp"
  have s: "0 < sessions_of inp" by (simp add: sessions_of_def)
  have "?q \<le> 2 ^ 15 * sessions_of inp" using assms(3) by (rule mult_right_mono) simp
  also have "\<dots> < 2 ^ 53" using assms(4) by simp
  finally have q: "?q < 2 ^ 53" .
  have per: "kv_bytes_per_token inp * of_int (if in_max_sessions inp > 0 then in_max_sessions inp else 1) = of_nat ?q"
    using assms(1) by (simp add: sessions_of_def)
  have fl: "\<lfloor>f64 (of_nat B / of_nat ?q)\<rfloor> \<le> int (B div ?q)" using assms(2,5) s by (intro f64_quotient) simp_all
  have nn: "0 \<le> \<lfloor>f64 (of_nat B / of_nat ?q)\<rfloor>" using f64_nonneg [of "of_nat B / of_nat ?q"] by simp
  have "B div ?q < 2 ^ 64" using le_less_trans [OF div_le_dividend assms(5)] by (rule less_trans) simp
  then have "int (B div ?q) < 2 ^ 64" using of_nat_less_iff [of "B div ?q" "2 ^ 64", where 'a = int] by simp
  then have "\<lfloor>f64 (of_nat B / of_nat ?q)\<rfloor> < 2 ^ 64" using fl by (rule le_less_trans [rotated])
  with nn have "unat (of_int \<lfloor>f64 (of_nat B / of_nat ?q)\<rfloor> :: u64) = nat \<lfloor>f64 (of_nat B / of_nat ?q)\<rfloor>"
    by (rule unat_of_int_small)
  then show ?thesis unfolding per f64_nat [OF q] f64_nat [OF assms(5)] u64_of_double_def using fl by linarith
qed

lemma unat_ucast_small:
  fixes w :: u64
  assumes "unat w < 2 ^ 31"
  shows "sint (ucast w :: 32 word) = int (unat w)"
proof -
  have "unat (ucast w :: 32 word) = take_bit 32 (unat w)"
    by (simp only: unsigned_ucast_eq unsigned_take_bit_eq) simp
  also have "\<dots> = unat w" using assms by (intro take_bit_nat_eq_self) simp
  finally have u: "uint (ucast w :: 32 word) = int (unat w)" by (simp only: uint_nat)
  have "sint (ucast w :: 32 word) = signed_take_bit 31 (int (unat w))" unfolding sint_uint u by simp
  also have "\<dots> = int (unat w)"
  proof (rule signed_take_bit_int_eq_self)
    show "- (2 ^ 31) \<le> int (unat w)" by (rule order_trans [of _ 0]) (simp, rule of_nat_0_le_iff)
    show "int (unat w) < 2 ^ 31" using assms of_nat_less_iff [of "unat w" "2 ^ 31", where 'a = int] by simp
  qed
  finally show ?thesis .
qed

lemma chosen_int:
  fixes w :: u64
  assumes "unat w < 2 ^ 31"
  shows "sint (ucast (w - w mod 512) :: 32 word) = int (unat w - unat w mod 512)"
proof -
  have le: "w mod 512 \<le> w" by (simp add: word_le_nat_alt unat_mod)
  have "unat (w - w mod 512) = unat w - unat w mod 512" using le by (simp add: unat_sub unat_mod)
  then show ?thesis using assms by (subst unat_ucast_small) simp_all
qed

text \<open>
  Claim C29. The context length recommended for an amount of free memory is a multiple of 512, no
  longer than the one configured, and the footprint estimated for it does not exceed that amount:
  the rounding of the \<open>double\<close> division cannot make the recommendation too long.
\<close>

theorem recommend_context_fits:
  assumes "unat available < 2 ^ 53" "in_context_length inp < 2 ^ 31" "in_max_sessions inp < 2 ^ 31"
    and "0 < recommend_context_length inp available"
  shows "512 dvd recommend_context_length inp available \<and>
    recommend_context_length inp available \<le> in_context_length inp \<and>
    est_bytes (estimate_vram_footprint (inp\<lparr>in_context_length := recommend_context_length inp available\<rparr>)) \<le> available"
proof -
  obtain k where k: "kv_bytes_per_token inp = of_nat k" "0 < k" "k \<le> 2 ^ 15" using kv_per_token_nat by blast
  let ?fixed = "est_bytes (estimate_vram_footprint (inp\<lparr>in_context_length := 0\<rparr>))"
  let ?B = "unat (available - ?fixed)"
  let ?s = "sessions_of inp"
  have s: "?s < 2 ^ 31" "0 < ?s" using assms(3) by (auto simp: sessions_of_def)
  define fits where "fits = u64_of_double (f64 (f64 (of_nat ?B) / f64 (kv_bytes_per_token inp *
      of_int (if in_max_sessions inp > 0 then in_max_sessions inp else 1))))"
  define requested :: u64 where "requested = (if in_context_length inp > 0 then of_int (in_context_length inp) else 0)"
  define chosen where "chosen = (if fits < requested then fits else requested)"
  have known: "est_known (estimate_vram_footprint (inp\<lparr>in_context_length := 0\<rparr>))" and less: "?fixed < available"
    and r: "recommend_context_length inp available = sint (ucast (chosen - chosen mod 512) :: 32 word)"
    using assms(4) unfolding recommend_context_length_def Let_def fits_def requested_def chosen_def
    by (auto split: if_splits simp: not_le)
  have B: "?B = unat available - unat ?fixed" "unat ?fixed < unat available"
    using less by (simp_all add: unat_sub less_imp_le word_less_nat_alt)
  then have B53: "?B < 2 ^ 53" using assms(1) by simp
  have fb: "unat fits \<le> ?B div (k * ?s)" unfolding fits_def by (rule fits_bound [OF k s(1) B53])
  have req: "unat requested = nat (in_context_length inp)"
    using assms(2) unfolding requested_def by (simp add: unat_of_int_small)
  have ch: "unat chosen \<le> unat fits" "unat chosen \<le> nat (in_context_length inp)"
    using req by (auto simp: chosen_def word_less_nat_alt)
  define m where "m = unat chosen - unat chosen mod 512"
  have "unat chosen < 2 ^ 31" using ch(2) assms(2) by (auto simp: nat_less_iff intro: le_less_trans)
  then have rm: "recommend_context_length inp available = int m" unfolding r m_def by (rule chosen_int)
  have m: "512 dvd m" "m \<le> unat chosen" by (simp_all add: m_def)
  have "m * (k * ?s) \<le> ?B div (k * ?s) * (k * ?s)" using m(2) ch(1) fb by (intro mult_right_mono) simp_all
  also have "\<dots> \<le> ?B" by simp
  finally have mB: "m * ?s * k \<le> ?B" by (simp add: ac_simps)
  have "kv_cache_bytes (inp\<lparr>in_context_length := int m\<rparr>) = of_nat (m * ?s * k)"
    using k(1) le_less_trans [OF mB B53] k(2) by (rule kv_cache_exact)
  moreover have "unat (of_nat (m * ?s * k) :: u64) = m * ?s * k"
    using le_less_trans [OF mB B53] by (simp only: unat_of_nat) simp
  ultimately have kv: "unat (kv_cache_bytes (inp\<lparr>in_context_length := int m\<rparr>)) = m * ?s * k" by simp
  have "kv_cache_bytes (inp\<lparr>in_context_length := int m\<rparr>) \<le> available - ?fixed"
    using mB by (simp only: word_le_nat_alt kv)
  then have "?fixed + kv_cache_bytes (inp\<lparr>in_context_length := int m\<rparr>) \<le> available"
    using less by (simp add: word_plus_mono_right2 le_plus less_imp_le add.commute)
  moreover have "int m \<le> in_context_length inp" using m(2) ch(2) assms(4) unfolding rm by linarith
  ultimately show ?thesis unfolding rm using m(1) estimate_splits(2) [OF known, of "int m"]
    by (simp add: int_dvd_int_iff [of 512 m, simplified])
qed

definition small_inputs :: footprint_inputs where
  "small_inputs = \<lparr>weights_bytes = 1000000, mmproj_bytes = 0, in_gpu_layers = - 1, in_context_length = 4096,
     in_cache_type_k = ''f16'', in_cache_type_v = ''q8_0'', vram_reserve_mb = 1, in_max_sessions = 2, draft_bytes = 0,
     in_block_count = 4, in_block_bytes = 800000, in_non_block_bytes = 200000, host_expert_bytes = 0\<rparr>"

theorem recommend_context_fits_witness:
  "est_bytes (estimate_vram_footprint (small_inputs\<lparr>in_context_length := recommend_context_length small_inputs 39680576\<rparr>))
     \<le> 39680576 \<and> recommend_context_length small_inputs 39680576 = 1024"
proof -
  have r: "recommend_context_length small_inputs 39680576 = 1024"
    using f64_nat [of 37632000] f64_nat [of 25088] f64_nat [of 1500] f64_nat [of 0]
    by (simp add: recommend_context_length_def estimate_vram_footprint_def kv_cache_bytes_def small_inputs_def
        u64_of_double_def kv_bytes_per_token_def kv_scale_for_cache_type_def kv_scales_def kBaseKvPerTokenF16_def
        classify_offload_def kAllLayersSentinel_def Let_def)
  show ?thesis using recommend_context_fits [of 39680576 small_inputs] unfolding r by (simp add: small_inputs_def)
qed

subsection \<open>Lemmas: the placement\<close>

lemma find_upto:
  "find P [i..j] = Some k \<Longrightarrow> P k \<and> i \<le> k \<and> k \<le> j \<and> (\<forall>l\<in>{i..<k}. \<not> P l)"
proof (induction "nat (j - i + 1)" arbitrary: i)
  case (Suc n)
  then have i: "i \<le> j" by simp
  show ?case
  proof (cases "P i")
    case False
    then have "find P [i + 1..j] = Some k" using Suc.prems i by (simp add: upto_rec1)
    moreover have "n = nat (j - (i + 1) + 1)" using Suc.hyps(2) by simp
    ultimately have "P k \<and> i + 1 \<le> k \<and> k \<le> j \<and> (\<forall>l\<in>{i + 1..<k}. \<not> P l)" by (intro Suc.hyps(1))
    moreover have "l = i \<or> i + 1 \<le> l" if "i \<le> l" for l using that by arith
    ultimately show ?thesis using False by fastforce
  qed (use Suc.prems i in \<open>simp add: upto_rec1\<close>)
qed simp

lemma find_rev_upto:
  "find P (rev [i..j]) = Some k \<Longrightarrow> P k \<and> i \<le> k \<and> k \<le> j \<and> (\<forall>l\<in>{k<..j}. \<not> P l)"
proof (induction "nat (j - i + 1)" arbitrary: j)
  case (Suc n)
  then have j: "i \<le> j" by simp
  show ?case
  proof (cases "P j")
    case False
    then have "find P (rev [i..j - 1]) = Some k" using Suc.prems j by (simp add: upto_rec2)
    moreover have "n = nat (j - 1 - i + 1)" using Suc.hyps(2) by simp
    ultimately have "P k \<and> i \<le> k \<and> k \<le> j - 1 \<and> (\<forall>l\<in>{k<..j - 1}. \<not> P l)" by (intro Suc.hyps(1))
    moreover have "l = j \<or> l \<le> j - 1" if "l \<le> j" for l using that by arith
    ultimately show ?thesis using False by fastforce
  qed (use Suc.prems j in \<open>simp add: upto_rec2\<close>)
qed simp

lemma try_ladder_Some:
  assumes "try_ladder shape base free current out ubs = Some p"
  shows "\<exists>ub q. ub \<in> set ubs \<and> ub < current \<and>
    try_fully_resident shape base (budget_after free (compute_allowance_bytes base ub)) out = Some q \<and>
    p = q\<lparr>ap_n_ubatch := ub, ap_reason := ''fully resident at a reduced n_ubatch''\<rparr>"
  using assms by (induction ubs) (auto split: if_splits option.splits)

lemma try_fully_resident_Some:
  "try_fully_resident shape base budget out = Some p \<longleftrightarrow>
     (\<exists>used. placement_fits base shape (block_count shape) 0 budget = (True, used) \<and>
        p = out\<lparr>ap_known := True, ap_gpu_layers := - 1, fully_resident := True, ap_bytes := used, ap_reason := ''fully resident''\<rparr>)"
  unfolding try_fully_resident_def by (cases "placement_fits base shape (block_count shape) 0 budget"; cases "fst (placement_fits base shape (block_count shape) 0 budget)") auto

text \<open>The footprint a placement stands for, and the placements ruled out before it.\<close>

definition layers_of :: "gguf_shape \<Rightarrow> auto_placement \<Rightarrow> int" where
  "layers_of shape p = (if fully_resident p then block_count shape else ap_gpu_layers p)"

definition ubatch_of :: "auto_placement \<Rightarrow> int \<Rightarrow> int" where
  "ubatch_of p ub = (if ap_n_ubatch p > 0 then ap_n_ubatch p else ub)"

definition best_placement :: "gguf_shape \<Rightarrow> footprint_inputs \<Rightarrow> u64 \<Rightarrow> int \<Rightarrow> auto_placement \<Rightarrow> bool" where
  "best_placement shape base free ub p \<longleftrightarrow>
     (let effective = budget_after free (compute_allowance_bytes base (ubatch_of p ub));
          budget = budget_after free (compute_allowance_bytes base ub);
          fits = (\<lambda>layers moe. fst (placement_fits base shape layers moe budget))
      in placement_fits base shape (layers_of shape p) (ap_cpu_moe_layers p) effective = (True, ap_bytes p) \<and>
         (\<forall>moe\<in>{1..<ap_cpu_moe_layers p}. \<not> fits (block_count shape) moe) \<and>
         (\<not> fully_resident p \<longrightarrow> (\<forall>layers\<in>{ap_gpu_layers p<..block_count shape}. \<not> fits layers 0)))"

lemma best_margin: "best_placement shape base free ub (p\<lparr>margin_bytes := m\<rparr>) = best_placement shape base free ub p"
  by (simp add: best_placement_def layers_of_def ubatch_of_def)

lemma best_fully_resident:
  assumes "try_fully_resident shape base (budget_after free (compute_allowance_bytes base ub)) no_placement = Some p"
  shows "best_placement shape base free ub p"
  using assms by (auto simp: try_fully_resident_Some best_placement_def layers_of_def ubatch_of_def no_placement_def)

lemma best_smaller_ubatch:
  assumes "try_smaller_ubatch shape base free ub no_placement = Some p"
  shows "best_placement shape base free ub p"
proof -
  obtain u q where "u \<in> set kUbatchLadder"
    "try_fully_resident shape base (budget_after free (compute_allowance_bytes base u)) no_placement = Some q"
    "p = q\<lparr>ap_n_ubatch := u, ap_reason := ''fully resident at a reduced n_ubatch''\<rparr>"
    using try_ladder_Some [OF assms [unfolded try_smaller_ubatch_def]] by blast
  moreover from this(1) have "u > 0" by (auto simp: kUbatchLadder_def)
  ultimately show ?thesis
    by (auto simp: try_fully_resident_Some best_placement_def layers_of_def ubatch_of_def no_placement_def)
qed

lemma best_expert_offload:
  assumes "try_expert_offload shape base (budget_after free (compute_allowance_bytes base ub)) no_placement = Some p"
  shows "best_placement shape base free ub p"
proof -
  let ?b = "budget_after free (compute_allowance_bytes base ub)"
  obtain moe where moe: "find (\<lambda>m. fst (placement_fits base shape (block_count shape) m ?b)) [1..block_count shape] = Some moe"
    and p: "p = no_placement\<lparr>ap_known := True, ap_gpu_layers := - 1, fully_resident := True, ap_cpu_moe_layers := moe,
               ap_bytes := snd (placement_fits base shape (block_count shape) moe ?b),
               ap_reason := ''all layers resident, experts host-side''\<rparr>"
    using assms by (auto simp: try_expert_offload_def split: if_splits)
  show ?thesis using find_upto [OF moe]
    by (simp add: p best_placement_def layers_of_def ubatch_of_def no_placement_def prod_eq_iff)
qed

lemma best_fewer_layers:
  assumes "try_fewer_layers shape base (budget_after free (compute_allowance_bytes base ub)) no_placement = Some p"
    and "try_fully_resident shape base (budget_after free (compute_allowance_bytes base ub)) no_placement = None"
  shows "best_placement shape base free ub p"
proof -
  let ?b = "budget_after free (compute_allowance_bytes base ub)"
  obtain l where l: "find (\<lambda>m. fst (placement_fits base shape m 0 ?b)) (rev [0..block_count shape - 1]) = Some l"
    and p: "p = no_placement\<lparr>ap_known := True, ap_gpu_layers := l,
              ap_bytes := snd (placement_fits base shape l 0 ?b), ap_reason := ''partial offload''\<rparr>"
    using assms(1) by (auto simp: try_fewer_layers_def)
  have full: "\<not> fst (placement_fits base shape (block_count shape) 0 ?b)"
    using assms(2) by (simp add: try_fully_resident_def split: prod.splits bool.splits)
  have "m = block_count shape \<or> m \<le> block_count shape - 1" if "m \<le> block_count shape" for m using that by arith
  then show ?thesis using find_rev_upto [OF l] full
    by (auto simp: p best_placement_def layers_of_def ubatch_of_def no_placement_def prod_eq_iff)
qed


definition moe_shape :: gguf_shape where
  "moe_shape = \<lparr>shape_known = True, block_count = 4, expert_count = 8, block_bytes = 80000000, expert_bytes = 60000000,
     non_block_bytes = 20000000\<rparr>"

definition moe_inputs :: footprint_inputs where
  "moe_inputs = small_inputs\<lparr>weights_bytes := 100000000, in_context_length := 1024\<rparr>"


end
