(* ===== verification/Posix_Fs.thy ===== *)
theory Posix_Fs
  imports Prelude
begin

text \<open>
  The part of \<open>std::filesystem\<close> and of file streams the file tools use, over a file system tree with
  symbolic links. A path is the list of the components of an absolute path; a last component that is
  empty is a trailing slash. Operations that follow links give up after 40 of them, as Linux does:
  the library then throws, which is \<^const>\<open>None\<close> here. Permissions and I/O errors are left out.
  Proved: what resolving returns is canonical, and below a directory without links
  every name stands for itself.
\<close>

type_synonym fpath = "string list"

datatype fnode = Regular string | Directory "(string \<times> fnode) list" | Link string

subsection \<open>Paths\<close>

text \<open>The components of a path: runs of slashes separate, a trailing slash leaves an empty one.\<close>

fun split_slash :: "string \<Rightarrow> string list" where
  "split_slash [] = [[]]"
| "split_slash (c # cs) =
     (case split_slash cs of
        [] \<Rightarrow> [[c]]
      | w # ws \<Rightarrow> if c = CHR ''/'' then [] # w # ws else (c # w) # ws)"

definition split_path :: "string \<Rightarrow> fpath" where
  "split_path s =
     (let ws = split_slash s; names = filter (\<lambda>w. w \<noteq> []) ws
      in if names \<noteq> [] \<and> last ws = [] then names @ [[]] else names)"

definition is_absolute :: "string \<Rightarrow> bool" where
  "is_absolute s \<longleftrightarrow> s \<noteq> [] \<and> hd s = CHR ''/''"

fun join_slash :: "string list \<Rightarrow> string" where
  "join_slash [] = []"
| "join_slash [w] = w"
| "join_slash (w # v # ws) = w @ [CHR ''/''] @ join_slash (v # ws)"

definition path_string :: "fpath \<Rightarrow> string" where
  "path_string p = CHR ''/'' # join_slash p"

text \<open>\<open>lexically_normal\<close>: dots go, a dot-dot takes the name before it with it; what ends in one of them ends in a slash.\<close>

fun lex_normal :: "fpath \<Rightarrow> fpath \<Rightarrow> fpath" where
  "lex_normal acc [] = acc"
| "lex_normal acc (c # cs) =
     (let acc' = (if c = ''..'' then butlast acc else if c = [] \<or> c = ''.'' then acc else acc @ [c])
      in if cs = [] \<and> (c = [] \<or> c = ''.'' \<or> c = ''..'') \<and> acc' \<noteq> [] then acc' @ [[]]
         else lex_normal acc' cs)"

text \<open>\<open>p.lexically_relative(base)\<close>, with \<^const>\<open>None\<close> for the empty path.\<close>

fun strip_common :: "fpath \<Rightarrow> fpath \<Rightarrow> fpath \<times> fpath" where
  "strip_common (a # as) (b # bs) = (if a = b then strip_common as bs else (a # as, b # bs))"
| "strip_common as bs = (as, bs)"

definition lexically_relative :: "fpath \<Rightarrow> fpath \<Rightarrow> fpath option" where
  "lexically_relative p base =
     (case strip_common p base of (rest, up) \<Rightarrow>
        let n = sum_list (map (\<lambda>c. if c = ''..'' then - 1 else if c = [] \<or> c = ''.'' then 0 else (1 :: int)) up)
        in if n < 0 then None
           else if n = 0 \<and> (rest = [] \<or> hd rest = []) then Some [''.'']
           else Some (replicate (nat n) ''..'' @ rest))"

subsection \<open>Looking up a path\<close>

fun node_at :: "fnode \<Rightarrow> fpath \<Rightarrow> fnode option" where
  "node_at n [] = Some n"
| "node_at (Directory es) (c # cs) = (case map_of es c of None \<Rightarrow> None | Some m \<Rightarrow> node_at m cs)"
| "node_at (Regular s) (c # cs) = None"
| "node_at (Link s) (c # cs) = None"

definition is_dir_node :: "fnode option \<Rightarrow> bool" where
  "is_dir_node n = (case n of Some (Directory _) \<Rightarrow> True | _ \<Rightarrow> False)"

datatype walk = Found fpath | Missing | Too_Many_Links

text \<open>The remaining components are looked up from a path that is already canonical.\<close>

fun resolve_from :: "nat \<Rightarrow> fnode \<Rightarrow> fpath \<Rightarrow> fpath \<Rightarrow> walk" where
  "resolve_from k t cur [] = Found cur"
| "resolve_from k t cur (c # cs) =
     (if \<not> is_dir_node (node_at t cur) then Missing
      else if c = ''..'' then resolve_from k t (butlast cur) cs
      else if c = [] \<or> c = ''.'' then resolve_from k t cur cs
      else case node_at t (cur @ [c]) of
             None \<Rightarrow> Missing
           | Some (Link target) \<Rightarrow>
               (case k of 0 \<Rightarrow> Too_Many_Links
                | Suc k' \<Rightarrow> resolve_from k' t (if is_absolute target then [] else cur) (split_path target @ cs))
           | Some _ \<Rightarrow> resolve_from k t (cur @ [c]) cs)"

definition resolve :: "fnode \<Rightarrow> fpath \<Rightarrow> walk" where
  "resolve t p = resolve_from 40 t [] p"

text \<open>\<open>status\<close>: the node a path leads to, \<^term>\<open>Some None\<close> when there is none.\<close>

definition status_at :: "fnode \<Rightarrow> fpath \<Rightarrow> fnode option option" where
  "status_at t p =
     (case resolve t p of Found q \<Rightarrow> Some (node_at t q) | Missing \<Rightarrow> Some None | Too_Many_Links \<Rightarrow> None)"

definition exists_at :: "fnode \<Rightarrow> fpath \<Rightarrow> bool option" where
  "exists_at t p = map_option (\<lambda>n. n \<noteq> None) (status_at t p)"

definition is_directory_at :: "fnode \<Rightarrow> fpath \<Rightarrow> bool option" where
  "is_directory_at t p = map_option is_dir_node (status_at t p)"

definition is_regular_at :: "fnode \<Rightarrow> fpath \<Rightarrow> bool option" where
  "is_regular_at t p = map_option (\<lambda>n. case n of Some (Regular _) \<Rightarrow> True | _ \<Rightarrow> False) (status_at t p)"

text \<open>
  \<open>weakly_canonical\<close>: an existing path is made canonical; otherwise its longest leading part that exists
  is, and the rest is appended and normalised without looking at the file system again.
\<close>

fun leading_part :: "fnode \<Rightarrow> fpath \<Rightarrow> fpath \<Rightarrow> (fpath \<times> fpath) option" where
  "leading_part t done [] = Some (done, [])"
| "leading_part t done (c # cs) =
     (case status_at t (done @ [c]) of
        None \<Rightarrow> None
      | Some None \<Rightarrow> Some (done, c # cs)
      | Some (Some _) \<Rightarrow> leading_part t (done @ [c]) cs)"

definition weakly_canonical :: "fnode \<Rightarrow> fpath \<Rightarrow> fpath option" where
  "weakly_canonical t p =
     (case resolve t p of
        Found q \<Rightarrow> Some q
      | Too_Many_Links \<Rightarrow> None
      | Missing \<Rightarrow>
          (case leading_part t [] p of
             None \<Rightarrow> None
           | Some (done, rest) \<Rightarrow>
               (case resolve t done of Found q \<Rightarrow> Some (lex_normal q rest) | _ \<Rightarrow> None)))"

text \<open>\<open>fs::relative\<close>.\<close>

definition relative_to :: "fnode \<Rightarrow> fpath \<Rightarrow> fpath \<Rightarrow> fpath option" where
  "relative_to t p base =
     (case (weakly_canonical t p, weakly_canonical t base) of
        (Some q, Some b) \<Rightarrow> Some (case lexically_relative q b of None \<Rightarrow> [] | Some r \<Rightarrow> r)
      | _ \<Rightarrow> None)"

subsection \<open>Reading and writing\<close>

text \<open>An input stream on a directory opens and reads nothing.\<close>

definition read_bytes :: "fnode \<Rightarrow> fpath \<Rightarrow> string option" where
  "read_bytes t p =
     (case resolve t p of
        Found q \<Rightarrow> (case node_at t q of Some (Regular s) \<Rightarrow> Some s | Some (Directory _) \<Rightarrow> Some [] | _ \<Rightarrow> None)
      | _ \<Rightarrow> None)"

fun put_node :: "fpath \<Rightarrow> fnode \<Rightarrow> fnode \<Rightarrow> fnode" where
  "put_node [] n m = n"
| "put_node (c # cs) n (Directory es) =
     Directory (AList.update c (put_node cs n (case map_of es c of None \<Rightarrow> Directory [] | Some m \<Rightarrow> m)) es)"
| "put_node (c # cs) n m = m"

fun create_directories :: "fnode \<Rightarrow> fpath \<Rightarrow> fpath \<Rightarrow> fnode option" where
  "create_directories t done [] = Some t"
| "create_directories t done (c # cs) =
     (case status_at t (done @ [c]) of
        Some (Some (Directory _)) \<Rightarrow> create_directories t (done @ [c]) cs
      | Some None \<Rightarrow>
          (case resolve t done of
             Found q \<Rightarrow> if node_at t (q @ [c]) = None then create_directories (put_node (q @ [c]) (Directory []) t) (done @ [c]) cs
                        else None
           | _ \<Rightarrow> None)
      | _ \<Rightarrow> None)"

text \<open>Where an output stream puts its bytes: a last component that is a link leads on, even to nothing.\<close>

fun create_target :: "nat \<Rightarrow> fnode \<Rightarrow> fpath \<Rightarrow> fpath option" where
  "create_target k t p =
     (if p = [] \<or> last p \<in> {[], ''.'', ''..''} then None
      else case resolve t (butlast p) of
             Found q \<Rightarrow>
               if \<not> is_dir_node (node_at t q) then None
               else (case node_at t (q @ [last p]) of
                       Some (Directory _) \<Rightarrow> None
                     | Some (Link target) \<Rightarrow>
                         (case k of 0 \<Rightarrow> None
                          | Suc k' \<Rightarrow> create_target k' t ((if is_absolute target then [] else q) @ split_path target))
                     | _ \<Rightarrow> Some (q @ [last p]))
           | _ \<Rightarrow> None)"

declare create_target.simps [simp del]

definition write_bytes :: "fnode \<Rightarrow> fpath \<Rightarrow> string \<Rightarrow> fnode option" where
  "write_bytes t p s = map_option (\<lambda>q. put_node q (Regular s) t) (create_target 40 t p)"

text \<open>The lines \<open>std::getline\<close> reads until the stream ends.\<close>

fun getlines :: "string \<Rightarrow> string list" where
  "getlines [] = []"
| "getlines (c # s) =
     (if c = CHR 0x0A then [] # getlines s
      else (case getlines s of
              [] \<Rightarrow> [[c]]
            | l # ls \<Rightarrow> (c # l) # ls))"

subsection \<open>Iterating over a directory\<close>

text \<open>
  \<open>recursive_directory_iterator\<close>: every entry before what is below it, in the order of the directory.
  Links are not descended into. The body may prune the entry or stop.
\<close>

datatype ctl = Descend | Prune | Halt

fun iterate :: "('s \<Rightarrow> fpath \<Rightarrow> fnode \<Rightarrow> 's \<times> ctl) \<Rightarrow> fpath \<Rightarrow> (string \<times> fnode) list \<Rightarrow> 's \<Rightarrow> 's \<times> bool" where
  "iterate body here [] s = (s, False)"
| "iterate body here ((c, n) # es) s =
     (case body s (here @ [c]) n of (s1, act) \<Rightarrow>
        if act = Halt then (s1, True)
        else case (case n of
                     Directory sub \<Rightarrow> if act = Descend then iterate body (here @ [c]) sub s1 else (s1, False)
                   | _ \<Rightarrow> (s1, False)) of (s2, stop) \<Rightarrow>
               if stop then (s2, True) else iterate body here es s2)"

lemma iterate_inv:
  "(\<And>s p n. I s \<Longrightarrow> I (fst (body s p n))) \<Longrightarrow> I s \<Longrightarrow> I (fst (iterate body here es s))"
proof (induction body here es s rule: iterate.induct)
  case (2 body here c n es s)
  obtain s1 act where b: "body s (here @ [c]) n = (s1, act)" by (cases "body s (here @ [c]) n")
  then have s1: "I s1" using "2.prems"(1) [OF "2.prems"(2), of "here @ [c]" n] by simp
  define sub where "sub = (case n of Directory es' \<Rightarrow> if act = Descend then iterate body (here @ [c]) es' s1 else (s1, False) | _ \<Rightarrow> (s1, False))"
  show ?case
  proof (cases "act = Halt")
    case False
    have "I (fst sub)" using "2.IH"(1) [OF b [symmetric] False] s1 "2.prems"(1) by (auto simp: sub_def split: fnode.splits)
    moreover obtain s2 stop where s2: "sub = (s2, stop)" by (cases sub)
    ultimately have "I (fst (iterate body here es s2))" if "\<not> stop"
      using "2.IH"(2) [OF b [symmetric] False, of s2 stop] that "2.prems"(1) unfolding sub_def [symmetric] by simp
    then show ?thesis using b False s2 \<open>I (fst sub)\<close> by (simp add: sub_def [symmetric])
  qed (use b s1 in simp)
qed simp

subsection \<open>Lemmas: canonical paths\<close>

definition plain :: "fpath \<Rightarrow> bool" where
  "plain p \<longleftrightarrow> (\<forall>c\<in>set p. c \<notin> {[], ''.'', ''..''})"

lemma plain_simps [simp]: "plain []" "plain (c # p) \<longleftrightarrow> c \<notin> {[], ''.'', ''..''} \<and> plain p" "plain (p @ q) \<longleftrightarrow> plain p \<and> plain q"
  by (auto simp: plain_def)

lemma plain_butlast [simp]: "plain p \<Longrightarrow> plain (butlast p)"
  by (auto simp: plain_def dest: in_set_butlastD)

definition no_link_at :: "fnode option \<Rightarrow> bool" where
  "no_link_at n = (case n of None \<Rightarrow> False | Some (Link _) \<Rightarrow> False | _ \<Rightarrow> True)"

definition canonical :: "fnode \<Rightarrow> fpath \<Rightarrow> bool" where
  "canonical t p \<longleftrightarrow> plain p \<and> (\<forall>q. prefix q p \<longrightarrow> no_link_at (node_at t q))"

lemma node_at_append: "node_at t (p @ q) = (case node_at t p of None \<Rightarrow> None | Some n \<Rightarrow> node_at n q)"
  by (induction t p rule: node_at.induct) (auto split: option.split)

lemma node_at_below: "node_at t (p @ c # q) \<noteq> None \<Longrightarrow> is_dir_node (node_at t p)"
  by (auto simp: node_at_append is_dir_node_def split: option.splits fnode.splits)

lemma is_dir_above: "is_dir_node (node_at t (p @ q)) \<Longrightarrow> is_dir_node (node_at t p)"
proof (cases q)
  case (Cons c q')
  assume "is_dir_node (node_at t (p @ q))"
  then have "node_at t (p @ c # q') \<noteq> None" using Cons by (cases "node_at t (p @ c # q')") (simp_all add: is_dir_node_def)
  then show ?thesis by (rule node_at_below)
qed simp

lemma canonical_prefix: "canonical t p \<Longrightarrow> prefix q p \<Longrightarrow> canonical t q"
  unfolding canonical_def by (auto elim!: prefixE)

lemma canonical_exists: "canonical t p \<Longrightarrow> \<exists>n. node_at t p = Some n \<and> (\<forall>s. n \<noteq> Link s)"
  by (force simp: canonical_def no_link_at_def split: option.splits fnode.splits)

lemma canonical_snoc:
  "canonical t p \<Longrightarrow> c \<notin> {[], ''.'', ''..''} \<Longrightarrow> no_link_at (node_at t (p @ [c])) \<Longrightarrow> canonical t (p @ [c])"
  by (auto simp: canonical_def)

lemma canonical_butlast: "canonical t p \<Longrightarrow> canonical t (butlast p)"
  by (metis append_butlast_last_id butlast.simps(1) canonical_prefix prefixI)

text \<open>What a look-up finds is canonical, and a canonical path is found as it is.\<close>

lemma resolve_from_canonical: "resolve_from k t cur cs = Found q \<Longrightarrow> canonical t cur \<Longrightarrow> canonical t q"
proof (induction k t cur cs rule: resolve_from.induct)
  case (2 k t cur c cs)
  note prem = \<open>canonical t cur\<close>
  have root: "canonical t []" by (rule canonical_prefix [OF prem]) simp
  show ?case
  proof (cases "c \<in> {[], ''.'', ''..''}")
    case True
    then show ?thesis using 2 canonical_butlast by (auto split: if_splits)
  next
    case False
    then show ?thesis
      using 2 root canonical_snoc [OF prem False] by (auto split: if_splits option.splits fnode.splits nat.splits simp: no_link_at_def)
  qed
qed simp

lemma resolve_canonical: "canonical t [] \<Longrightarrow> resolve t p = Found q \<Longrightarrow> canonical t q"
  unfolding resolve_def by (rule resolve_from_canonical)

lemma resolve_from_append:
  "canonical t (cur @ r) \<Longrightarrow> resolve_from k t cur (r @ cs) = resolve_from k t (cur @ r) cs"
proof (induction r arbitrary: cur)
  case (Cons c r)
  have "canonical t (cur @ [c])" using Cons.prems by (rule canonical_prefix) (simp add: prefix_def)
  then obtain n where n: "node_at t (cur @ [c]) = Some n" "\<forall>s. n \<noteq> Link s" using canonical_exists by blast
  then have "is_dir_node (node_at t cur)" by (intro node_at_below [of _ _ c "[]"]) simp
  moreover have "c \<notin> {[], ''.'', ''..''}" using Cons.prems by (auto simp: canonical_def)
  ultimately show ?case using Cons n by (cases n) auto
qed simp

lemma resolve_append: "canonical t r \<Longrightarrow> resolve t (r @ cs) = resolve_from 40 t r cs"
  unfolding resolve_def using resolve_from_append [of t "[]" r 40 cs] by simp

lemma resolve_id: "canonical t r \<Longrightarrow> resolve t r = Found r"
  using resolve_append [of t r "[]"] by simp

text \<open>Below a directory without links names stand for themselves.\<close>

fun no_links :: "fnode \<Rightarrow> bool" where
  "no_links (Regular s) = True"
| "no_links (Link s) = False"
| "no_links (Directory es) = (\<forall>n\<in>snd ` set es. no_links n)"

lemma no_links_node: "no_links n \<Longrightarrow> node_at n p = Some m \<Longrightarrow> no_links m"
  by (induction n p rule: node_at.induct) (auto split: option.splits dest!: map_of_SomeD intro: rev_image_eqI)

lemma resolve_below:
  assumes "canonical t r" "node_at t r = Some n" "no_links n" "plain cs"
  shows "resolve_from k t r cs = (if node_at t (r @ cs) = None then Missing else Found (r @ cs))"
  using assms
proof (induction cs arbitrary: r n)
  case (Cons c cs)
  show ?case
  proof (cases "node_at t (r @ [c])")
    case None
    then have "node_at t (r @ c # cs) = None" using node_at_append [of t "r @ [c]" cs] by simp
    then show ?thesis using Cons.prems None by simp
  next
    case (Some m)
    then have "node_at n [c] = Some m" using Cons.prems by (simp add: node_at_append)
    then have m: "no_links m" using Cons.prems no_links_node by blast
    then have "canonical t (r @ [c])" using Cons.prems Some by (intro canonical_snoc) (auto simp: no_link_at_def split: fnode.splits)
    then have "resolve_from k t (r @ [c]) cs = (if node_at t ((r @ [c]) @ cs) = None then Missing else Found ((r @ [c]) @ cs))"
      using Some m Cons.prems by (intro Cons.IH) auto
    moreover have "is_dir_node (node_at t r)" using Some by (intro node_at_below [of _ _ c "[]"]) simp
    ultimately show ?thesis using Some m Cons.prems by (cases m) auto
  qed
qed (auto dest: canonical_exists)

lemma status_below:
  assumes "canonical t r" "node_at t r = Some n" "no_links n" "plain cs"
  shows "status_at t (r @ cs) = Some (node_at t (r @ cs))"
  using resolve_below [OF assms] by (auto simp: status_at_def resolve_append [OF assms(1)])

text \<open>Normalising leaves plain names, and perhaps a trailing slash.\<close>

definition slashed :: "fpath \<Rightarrow> bool" where
  "slashed p \<longleftrightarrow> plain p \<or> (\<exists>q. p = q @ [[]] \<and> plain q)"

lemma lex_normal_slashed: "plain acc \<Longrightarrow> slashed (lex_normal acc cs)"
  by (induction acc cs rule: lex_normal.induct) (auto simp: slashed_def Let_def)

lemma weakly_canonical_slashed:
  assumes "canonical t []" "weakly_canonical t p = Some w"
  shows "slashed w"
proof -
  have "plain q" if "resolve t p' = Found q" for p' q
    using resolve_canonical [OF assms(1) that] by (simp add: canonical_def)
  then have "slashed q" "slashed (lex_normal q rest)" if "resolve t p' = Found q" for p' q rest
    using that lex_normal_slashed by (auto simp: slashed_def)
  then show ?thesis using assms(2) by (auto simp: weakly_canonical_def split: walk.splits option.splits)
qed

text \<open>Containment in a canonical directory is prefix of the components.\<close>

lemma strip_common_spec: "strip_common p b = (rest, up) \<Longrightarrow> \<exists>c. p = c @ rest \<and> b = c @ up"
  by (induction p b rule: strip_common.induct) (auto split: if_splits intro: exI [of _ "_ # _"])

lemma strip_common_prefix: "strip_common (b @ rest) b = (rest, [])"
  by (induction b) auto

lemma lexically_relative_below:
  "lexically_relative (b @ rest) b = Some (if rest = [] \<or> hd rest = [] then [''.''] else rest)"
  by (simp add: lexically_relative_def strip_common_prefix)

lemma sum_list_plain: "plain up \<Longrightarrow> sum_list (map (\<lambda>c. if c = ''..'' then - 1 else if c = [] \<or> c = ''.'' then 0 else (1 :: int)) up) = int (length up)"
  by (induction up) auto

lemma lexically_relative_above:
  assumes "plain b" "\<not> prefix b p"
  shows "\<exists>rel. lexically_relative p b = Some (''..'' # rel)"
proof -
  obtain rest up where ru: "strip_common p b = (rest, up)" by (cases "strip_common p b")
  then obtain c where c: "p = c @ rest" "b = c @ up" using strip_common_spec by blast
  have "up \<noteq> []" using c assms(2) by auto
  moreover have "plain up" using c assms(1) by simp
  ultimately show ?thesis using ru
    by (cases up) (auto simp: lexically_relative_def sum_list_plain Let_def nat_add_distrib)
qed

subsection \<open>Lemmas: writing\<close>

lemma node_at_put_self: "is_dir_node (node_at t p) \<Longrightarrow> node_at (put_node (p @ [c]) n t) (p @ [c]) = Some n"
proof (induction p arbitrary: t)
  case Nil
  then show ?case by (cases t) (simp_all add: is_dir_node_def)
next
  case (Cons d p)
  then obtain es where t: "t = Directory es" by (cases t) (simp_all add: is_dir_node_def)
  with Cons.prems obtain m where "map_of es d = Some m" "is_dir_node (node_at m p)"
    by (auto simp: is_dir_node_def split: option.splits)
  with Cons.IH t show ?case by simp
qed

lemma node_at_put_other:
  "\<not> prefix p q \<Longrightarrow> \<not> prefix q p \<Longrightarrow> node_at (put_node p n t) q = node_at t q"
proof (induction p arbitrary: q t)
  case (Cons c p)
  then obtain d q' where q: "q = d # q'" by (cases q) simp_all
  show ?case
  proof (cases t)
    case (Directory es)
    have "node_at (Directory []) q' = None" if "d = c" using Cons.prems q that by (cases q') simp_all
    with Cons Directory q show ?thesis by (auto split: option.splits)
  qed simp_all
qed simp

lemma node_at_put_above: "node_at t p = Some m \<Longrightarrow> node_at (put_node (p @ q) n t) p = Some (put_node q n m)"
proof (induction p arbitrary: t)
  case (Cons d p)
  then obtain es where "t = Directory es" by (cases t) simp_all
  with Cons show ?case by (auto split: option.splits)
qed simp

lemma put_node_dir: "q \<noteq> [] \<Longrightarrow> \<exists>es'. put_node q n (Directory es) = Directory es'"
  by (cases q) simp_all

lemma set_update_snd: "n \<in> snd ` set (AList.update c m es) \<Longrightarrow> n = m \<or> n \<in> snd ` set es"
  by (induction es) (auto split: if_splits)

lemma no_links_put: "no_links n \<Longrightarrow> no_links m \<Longrightarrow> no_links (put_node q n m)"
proof (induction q n m rule: put_node.induct)
  case (2 c cs n es)
  have "no_links (case map_of es c of None \<Rightarrow> Directory [] | Some m \<Rightarrow> m)"
    using 2(3) by (auto split: option.splits dest!: map_of_SomeD)
  then have "no_links (put_node cs n (case map_of es c of None \<Rightarrow> Directory [] | Some m \<Rightarrow> m))" using 2(1,2) by blast
  moreover have "\<forall>m\<in>snd ` set es. no_links m" using 2(3) by simp
  ultimately show ?case unfolding put_node.simps no_links.simps by (intro ballI) (drule set_update_snd, elim disjE, simp, blast)
qed simp_all

text \<open>A directory of a file system whose contents are free of links, and a change confined to it.\<close>

definition linkfree :: "fnode \<Rightarrow> fpath \<Rightarrow> bool" where
  "linkfree t r \<longleftrightarrow> canonical t r \<and> (\<exists>es. node_at t r = Some (Directory es) \<and> no_links (Directory es))"

definition outside_same :: "fpath \<Rightarrow> fnode \<Rightarrow> fnode \<Rightarrow> bool" where
  "outside_same r t t' \<longleftrightarrow> (\<forall>p. \<not> prefix r p \<longrightarrow> \<not> prefix p r \<longrightarrow> node_at t' p = node_at t p)"

lemma put_below:
  assumes "linkfree t r" "q \<noteq> []" "no_links n"
  shows "linkfree (put_node (r @ q) n t) r \<and> outside_same r t (put_node (r @ q) n t)"
proof
  obtain es where es: "node_at t r = Some (Directory es)" "no_links (Directory es)" "canonical t r"
    using assms(1) by (auto simp: linkfree_def)
  have "no_link_at (node_at (put_node (r @ q) n t) p)" if "prefix p r" for p
  proof -
    from that obtain x where r: "r = p @ x" by (auto elim: prefixE)
    have "is_dir_node (node_at t p)"
      using es(1) r is_dir_above [of t p x] by (simp add: is_dir_node_def)
    then obtain ps where "node_at t p = Some (Directory ps)" by (auto simp: is_dir_node_def split: option.splits fnode.splits)
    then show ?thesis using node_at_put_above [of t p "Directory ps" "x @ q" n] put_node_dir [of "x @ q" n ps] assms(2) r
      by (auto simp: no_link_at_def)
  qed
  moreover have "no_links (put_node q n (Directory es))" using assms(3) es(2) by (rule no_links_put)
  ultimately show "linkfree (put_node (r @ q) n t) r"
    using node_at_put_above [OF es(1), of q n] put_node_dir [OF assms(2), of n es] es(3) unfolding linkfree_def canonical_def by auto
  show "outside_same r t (put_node (r @ q) n t)" unfolding outside_same_def
    by (auto intro!: node_at_put_other dest: append_prefixD simp: prefix_append)
qed

lemma outside_same_trans: "outside_same r t t1 \<Longrightarrow> outside_same r t1 t2 \<Longrightarrow> outside_same r t t2"
  by (simp add: outside_same_def)

lemma create_directories_above:
  "canonical t (done @ r) \<Longrightarrow> is_dir_node (node_at t (done @ r)) \<Longrightarrow>
   create_directories t done (r @ ds) = create_directories t (done @ r) ds"
proof (induction r arbitrary: "done")
  case (Cons c r)
  have "canonical t (done @ [c])" using Cons.prems(1) by (rule canonical_prefix) (simp add: prefix_def)
  moreover have "is_dir_node (node_at t (done @ [c]))"
    using Cons.prems(2) is_dir_above [of t "done @ [c]" r] by simp
  ultimately show ?case using Cons
    by (auto simp: status_at_def resolve_id is_dir_node_def split: option.splits fnode.splits)
qed simp

lemma create_directories_below:
  assumes "linkfree t r" "plain (done @ ds)" "create_directories t (r @ done) ds = Some t'"
  shows "linkfree t' r \<and> outside_same r t t'"
  using assms
proof (induction ds arbitrary: t "done")
  case (Cons c ds)
  obtain es where es: "node_at t r = Some (Directory es)" "no_links (Directory es)" "canonical t r"
    using Cons.prems(1) by (auto simp: linkfree_def)
  have st: "status_at t ((r @ done) @ [c]) = Some (node_at t (r @ done @ [c]))"
    using status_below [OF es(3,1,2), of "done @ [c]"] Cons.prems(2) by simp
  show ?case
  proof (cases "node_at t (r @ done @ [c])")
    case None
    then obtain q where q: "resolve t (r @ done) = Found q"
      and rest: "create_directories (put_node (q @ [c]) (Directory []) t) (r @ done @ [c]) ds = Some t'"
      using Cons.prems(3) st by (auto split: walk.splits if_splits)
    have "q = r @ done" using q resolve_below [OF es(3,1,2), of "done" 40] Cons.prems(2)
      by (auto simp: resolve_append [OF es(3)] split: if_splits)
    moreover have "linkfree (put_node (r @ done @ [c]) (Directory []) t) r \<and> outside_same r t (put_node (r @ done @ [c]) (Directory []) t)"
      by (rule put_below [OF Cons.prems(1)]) simp_all
    ultimately show ?thesis using Cons.IH [of "put_node (r @ done @ [c]) (Directory []) t" "done @ [c]"] rest Cons.prems(2)
      by (auto intro: outside_same_trans)
  next
    case (Some n)
    then have "create_directories t (r @ done @ [c]) ds = Some t'" using Cons.prems(3) st by (auto split: fnode.splits)
    then show ?thesis using Cons.IH [of t "done @ [c]"] Cons.prems(1,2) by simp
  qed
qed (simp add: outside_same_def)

text \<open>Writing below a directory without links touches nothing outside it.\<close>

lemma create_target_below:
  assumes "linkfree t r" "slashed (r @ ds)" "create_target k t (r @ ds) = Some q"
  shows "q = r @ ds \<and> ds \<noteq> [] \<and> is_dir_node (node_at t (r @ butlast ds))"
proof -
  obtain es where es: "node_at t r = Some (Directory es)" "no_links (Directory es)" "canonical t r"
    using assms(1) by (auto simp: linkfree_def)
  have last: "r @ ds \<noteq> []" "last (r @ ds) \<noteq> []" using assms(3) by (auto simp: create_target.simps split: if_splits)
  then have plain: "plain (r @ ds)" using assms(2) by (auto simp: slashed_def)
  have "ds \<noteq> []"
  proof
    assume "ds = []"
    then have r: "r \<noteq> []" "canonical t (butlast r)" using last canonical_butlast [OF es(3)] by auto
    then show False using assms(3) \<open>ds = []\<close> es(1) resolve_id [OF r(2)]
      by (auto simp: create_target.simps split: if_splits)
  qed
  then obtain b c where ds: "ds = b @ [c]" by (metis append_butlast_last_id)
  have bl: "butlast (r @ ds) = r @ b" "last (r @ ds) = c" using ds by (simp_all add: butlast_append)
  have "resolve t (r @ b) = (if node_at t (r @ b) = None then Missing else Found (r @ b))"
    using resolve_below [OF es(3,1,2), of b 40] plain ds by (simp add: resolve_append [OF es(3)])
  moreover have "no_link_at (node_at t (r @ b @ [c])) \<or> node_at t (r @ b @ [c]) = None"
    using es no_links_node [OF es(2), of "b @ [c]"] by (auto simp: node_at_append no_link_at_def split: fnode.splits option.splits)
  ultimately show ?thesis using assms(3) plain bl ds \<open>ds \<noteq> []\<close>
    by (subst (asm) create_target.simps) (auto simp: no_link_at_def split: if_splits option.splits fnode.splits)
qed

lemma directories_confined:
  assumes "linkfree t r" "slashed (r @ ds)" "create_directories t [] (butlast (r @ ds)) = Some t1"
  shows "linkfree t1 r \<and> outside_same r t t1"
proof -
  have can: "canonical t r" "is_dir_node (node_at t r)" using assms(1) by (auto simp: linkfree_def is_dir_node_def)
  show ?thesis
  proof (cases "ds = []")
    case True
    then have "canonical t (butlast r)" "is_dir_node (node_at t (butlast r))"
      using can canonical_butlast is_dir_above [of t "butlast r" "[last r]"] by (cases "r = []"; simp)+
    then have "t1 = t" using create_directories_above [of t "[]" "butlast r" "[]"] assms(3) True by simp
    then show ?thesis using assms(1) by (simp add: outside_same_def)
  next
    case False
    have "plain (butlast (r @ ds))" using assms(2) by (metis butlast_snoc plain_butlast slashed_def)
    then have "plain (butlast ds)" using False by (simp add: butlast_append)
    then show ?thesis using create_directories_below [OF assms(1), of "[]" "butlast ds" t1] assms(3) False
        create_directories_above [of t "[]" r "butlast ds"] can by (simp add: butlast_append)
  qed
qed

lemma write_confined:
  assumes "linkfree t r" "slashed (r @ ds)" "create_directories t [] (butlast (r @ ds)) = Some t1"
    and "write_bytes t1 (r @ ds) s = Some t2"
  shows "outside_same r t t2 \<and> linkfree t2 r \<and> node_at t2 (r @ ds) = Some (Regular s)"
proof -
  note t1 = directories_confined [OF assms(1-3)]
  obtain q where "create_target 40 t1 (r @ ds) = Some q" "t2 = put_node q (Regular s) t1"
    using assms(4) by (auto simp: write_bytes_def)
  moreover from this have q: "q = r @ ds" "ds \<noteq> []" "is_dir_node (node_at t1 (r @ butlast ds))"
    using create_target_below t1 assms(2) by blast+
  moreover have "node_at t2 ((r @ butlast ds) @ [last ds]) = Some (Regular s)"
    using calculation node_at_put_self [OF q(3), of "last ds" "Regular s"] by simp
  ultimately show ?thesis using put_below [of t1 r ds "Regular s"] t1 by (auto intro: outside_same_trans)
qed

lemma resolve_from_split:
  "resolve_from k t cur (a @ b) = Found q \<Longrightarrow>
   \<exists>k' m. resolve_from k t cur a = Found m \<and> resolve_from k' t m b = Found q"
proof (induction k t cur a rule: resolve_from.induct)
  case (2 k t cur c cs)
  then show ?case by (auto split: if_splits option.splits fnode.splits nat.splits) (fastforce+)?
qed auto

lemma exists_below:
  assumes "linkfree t r" "slashed (r @ ds)" "exists_at t (r @ ds) = Some True"
  shows "is_directory_at t (r @ ds) = Some True \<or> (\<exists>s. node_at t (r @ ds) = Some (Regular s) \<and> ds \<noteq> [] \<and> canonical t (r @ ds))"
proof -
  obtain es where es: "node_at t r = Some (Directory es)" "no_links (Directory es)" "canonical t r"
    using assms(1) by (auto simp: linkfree_def)
  obtain q where q: "resolve t (r @ ds) = Found q" "node_at t q \<noteq> None"
    using assms(3) by (auto simp: exists_at_def status_at_def split: walk.splits)
  show ?thesis
  proof (cases "plain (r @ ds)")
    case True
    then have "q = r @ ds" using resolve_below [OF es(3,1,2), of ds 40] q by (auto simp: resolve_append [OF es(3)] split: if_splits)
    moreover have "canonical t q" using resolve_canonical [OF canonical_prefix [OF es(3)] q(1)] by simp
    ultimately show ?thesis using q canonical_exists [of t q] es(1)
      by (auto simp: is_directory_at_def status_at_def is_dir_node_def split: fnode.splits)
  next
    case False
    then obtain p where p: "r @ ds = p @ [[]]" using assms(2) by (auto simp: slashed_def)
    then obtain k m where "resolve_from k t m [[]] = Found q" using q(1) resolve_from_split unfolding resolve_def by metis
    then have "is_dir_node (node_at t q)" by (auto split: if_splits)
    then show ?thesis using q(1) by (simp add: is_directory_at_def status_at_def)
  qed
qed

end
