(* ===== verification/Ignore_Matcher.thy ===== *)
theory Ignore_Matcher
  imports Posix_Fs
begin

text \<open>
  The gitignore matcher of the filesystem server (\<open>mcp/servers/ignore_matcher.cpp\<close>): ignore patterns
  are translated to regular expressions as text, compiled by \<open>std::regex\<close>, filed by the directory they
  are anchored at, and looked up from the last rule to the first.

  The regular expressions are the ECMAScript ones that the translation can produce; what a
  bracket expression matches is a parameter, \<^const>\<open>None\<close> when the library refuses it. The counter of
  regex evaluations is left out. Proved: the lookup through the index is "the last matching rule wins" over
  all rules, and for patterns without brackets the detour through regular expression text gives the wildcards
  their meaning.
\<close>

subsection \<open>Regular expressions\<close>

datatype re = RNone | REps | RSet "char \<Rightarrow> bool" | RCat re re | RAlt re re | RStar re

text \<open>Matching by derivatives.\<close>

fun nullable :: "re \<Rightarrow> bool" where
  "nullable RNone = False"
| "nullable REps = True"
| "nullable (RSet p) = False"
| "nullable (RCat r s) = (nullable r \<and> nullable s)"
| "nullable (RAlt r s) = (nullable r \<or> nullable s)"
| "nullable (RStar r) = True"

fun deriv :: "char \<Rightarrow> re \<Rightarrow> re" where
  "deriv c RNone = RNone"
| "deriv c REps = RNone"
| "deriv c (RSet p) = (if p c then REps else RNone)"
| "deriv c (RCat r s) = (if nullable r then RAlt (RCat (deriv c r) s) (deriv c s) else RCat (deriv c r) s)"
| "deriv c (RAlt r s) = RAlt (deriv c r) (deriv c s)"
| "deriv c (RStar r) = RCat (deriv c r) (RStar r)"

definition regex_match :: "string \<Rightarrow> re \<Rightarrow> bool" where
  "regex_match s r = nullable (fold deriv s r)"

abbreviation any_char :: re where
  "any_char \<equiv> RSet (\<lambda>c. c \<noteq> CHR 0x0A \<and> c \<noteq> CHR 0x0D)"

abbreviation lit :: "char \<Rightarrow> re" where
  "lit c \<equiv> RSet (\<lambda>x. x = c)"

text \<open>
  A bracket expression ends at the first closing bracket that is neither escaped nor part of a character class.
\<close>

fun skip_class :: "char \<Rightarrow> string \<Rightarrow> (string \<times> string) option" where
  "skip_class d (x # y # r) =
     (if x = d \<and> y = CHR '']'' then Some ([x, y], r)
      else map_option (\<lambda>(b, r'). (x # b, r')) (skip_class d (y # r)))"
| "skip_class d s = None"

lemma skip_class_shorter: "skip_class d s = Some (b, r) \<Longrightarrow> length r < length s"
  by (induction d s arbitrary: b r rule: skip_class.induct) (auto split: if_splits)

function (sequential) scan_bracket :: "string \<Rightarrow> (string \<times> string) option" where
  "scan_bracket [] = None"
| "scan_bracket (c # s) =
     (if c = CHR '']'' then Some ([], s)
      else if c = CHR 0x5C then (case s of [] \<Rightarrow> None | d # r \<Rightarrow> map_option (\<lambda>(b, r'). (c # d # b, r')) (scan_bracket r))
      else if c = CHR ''['' \<and> s \<noteq> [] \<and> hd s \<in> {CHR '':'', CHR ''.'', CHR ''=''}
      then (case skip_class (hd s) (tl s) of
              None \<Rightarrow> None
            | Some (k, r) \<Rightarrow> map_option (\<lambda>(b, r'). (c # hd s # k @ b, r')) (scan_bracket r))
      else map_option (\<lambda>(b, r'). (c # b, r')) (scan_bracket s))"
  by pat_completeness auto
termination
  by (relation "measure length") (auto dest!: skip_class_shorter simp: less_Suc_eq_le)

lemma scan_bracket_shorter: "scan_bracket s = Some (b, r) \<Longrightarrow> length r < length s"
proof (induction s arbitrary: b r rule: scan_bracket.induct)
  case (2 c s)
  then show ?case
    by (fastforce split: if_splits list.splits option.splits prod.splits dest!: skip_class_shorter simp: less_Suc_eq_le)
qed simp

declare scan_bracket.simps [simp del]

text \<open>
  Atoms and their quantifiers. The library stacks quantifiers, and a question mark after one only makes it lazy,
  which does not change what is matched. \<^const>\<open>None\<close> is \<open>std::regex_error\<close>.
\<close>

definition dir_group :: string where
  "dir_group = ''(?:.*/)''"

definition no_atom :: "char \<Rightarrow> bool" where
  "no_atom c \<longleftrightarrow> c \<in> set ''*?+)|{^''"

definition parse_atom :: "(string \<Rightarrow> (char \<Rightarrow> bool) option) \<Rightarrow> string \<Rightarrow> (re \<times> string) option" where
  "parse_atom brk s =
     (case s of
        [] \<Rightarrow> None
      | c # r \<Rightarrow>
          if c = CHR 0x5C then (case r of [] \<Rightarrow> None | d # r' \<Rightarrow> Some (lit d, r'))
          else if c = CHR ''.'' then Some (any_char, r)
          else if c = CHR ''['' then
            (case scan_bracket r of
               None \<Rightarrow> None
             | Some (b, r') \<Rightarrow> map_option (\<lambda>p. (RSet p, r')) (brk b))
          else if c = CHR ''('' then
            (if starts_with dir_group s then Some (RCat (RStar any_char) (lit (CHR ''/'')), drop (length dir_group) s) else None)
          else if c = CHR ''$'' then (if r = [] then Some (REps, r) else None)
          else if no_atom c then None
          else Some (lit c, r))"

fun drop_lazy :: "string \<Rightarrow> string" where
  "drop_lazy [] = []"
| "drop_lazy (d # r) = (if d = CHR ''?'' then r else d # r)"

lemma drop_lazy_shorter [termination_simp]: "length (drop_lazy r) \<le> length r"
  by (cases r) simp_all

fun parse_quants :: "re \<Rightarrow> string \<Rightarrow> re \<times> string" where
  "parse_quants a [] = (a, [])"
| "parse_quants a (c # r) =
     (if c = CHR ''*'' then parse_quants (RStar a) (drop_lazy r)
      else if c = CHR ''?'' then parse_quants (RAlt a REps) (drop_lazy r)
      else (a, c # r))"

lemma parse_atom_shorter: "parse_atom brk s = Some (a, r) \<Longrightarrow> length r < length s"
proof (cases s)
  case (Cons c s')
  have drop: "length (drop (length dir_group) s) < length s" using Cons by (simp add: dir_group_def)
  assume "parse_atom brk s = Some (a, r)"
  then show ?thesis using Cons drop unfolding parse_atom_def
    by (cases s'; cases "scan_bracket s'") (auto simp del: length_drop split: if_splits dest: scan_bracket_shorter)
qed (simp add: parse_atom_def)

lemma parse_quants_shorter: "length (snd (parse_quants a s)) \<le> length s"
proof (induction a s rule: parse_quants.induct)
  case (2 a c r)
  then show ?case using drop_lazy_shorter [of r] by (auto simp del: drop_lazy.simps)
qed simp

lemma parse_step_shorter:
  "parse_atom brk s = Some (a, r) \<Longrightarrow> parse_quants a r = (q, r') \<Longrightarrow> length r' < length s"
  using parse_atom_shorter [of brk s a r] parse_quants_shorter [of a r] by simp

function parse_re :: "(string \<Rightarrow> (char \<Rightarrow> bool) option) \<Rightarrow> string \<Rightarrow> re option" where
  "parse_re brk s =
     (if s = [] then Some REps
      else case parse_atom brk s of
             None \<Rightarrow> None
           | Some (a, r) \<Rightarrow> (case parse_quants a r of (q, r') \<Rightarrow> map_option (RCat q) (parse_re brk r')))"
  by auto
termination
  by (relation "measure (length \<circ> snd)") (auto intro: parse_step_shorter [OF _ sym])

declare parse_re.simps [simp del]

definition compile_re :: "(string \<Rightarrow> (char \<Rightarrow> bool) option) \<Rightarrow> string \<Rightarrow> re option" where
  "compile_re brk s = (case s of c # r \<Rightarrow> if c = CHR ''^'' then parse_re brk r else parse_re brk s | [] \<Rightarrow> parse_re brk s)"

subsection \<open>Patterns\<close>

definition trim_space :: "char \<Rightarrow> bool" where
  "trim_space c \<longleftrightarrow> c \<in> set [CHR '' '', CHR 0x09, CHR 0x0D, CHR 0x0A]"

definition trim :: "string \<Rightarrow> string" where
  "trim s = rev (dropWhile trim_space (rev (dropWhile trim_space s)))"

definition is_regex_meta :: "char \<Rightarrow> bool" where
  "is_regex_meta c \<longleftrightarrow> c \<in> set ''.+()|^${}'' \<or> c = CHR 0x5C"

definition is_skipped_dir_name :: "string \<Rightarrow> bool" where
  "is_skipped_dir_name name \<longleftrightarrow> name \<in> set [''.git'', ''node_modules'', ''__pycache__'', ''.venv'']"

definition emit_char :: "char \<Rightarrow> string" where
  "emit_char c = (if is_regex_meta c then [CHR 0x5C, c] else [c])"

text \<open>\<open>emit_star\<close>, given the text after the star: what is emitted and what is left to read.\<close>

definition emit_star :: "string \<Rightarrow> string \<times> string" where
  "emit_star r =
     (case r of
        c # r1 \<Rightarrow>
          if c = CHR ''*''
          then (''.*'', case r1 of d # r2 \<Rightarrow> if d = CHR ''/'' then r2 else r1 | [] \<Rightarrow> r1)
          else (''[^/]*'', r)
      | [] \<Rightarrow> (''[^/]*'', r))"

definition emit_bracket :: "string \<Rightarrow> string \<times> string" where
  "emit_bracket r =
     (let body = takeWhile (\<lambda>c. c \<noteq> CHR '']'') r
      in (''['' @ body @ '']'', drop (length body + 1) r))"

text \<open>\<open>emit_one\<close> on the character under the cursor and the text after it.\<close>

definition emit_one :: "char \<Rightarrow> string \<Rightarrow> string \<times> string" where
  "emit_one c r =
     (if c = CHR ''*'' then emit_star r
      else if c = CHR ''?'' then (''[^/]'', r)
      else if c = CHR ''['' then emit_bracket r
      else if c = CHR 0x5C \<and> r \<noteq> [] then (emit_char (hd r), tl r)
      else (emit_char c, r))"

lemma emit_one_shorter: "emit_one c r = (e, r') \<Longrightarrow> length r' \<le> length r"
  by (auto simp: emit_one_def emit_star_def emit_bracket_def Let_def split: if_splits list.splits)

function pattern_to_regex :: "string \<Rightarrow> string" where
  "pattern_to_regex [] = []"
| "pattern_to_regex (c # r) = (case emit_one c r of (e, r') \<Rightarrow> e @ pattern_to_regex r')"
  by pat_completeness auto
termination
  by (relation "measure length") (auto intro: le_imp_less_Suc emit_one_shorter [OF sym])

declare pattern_to_regex.simps(2) [simp del]

subsection \<open>Rules\<close>

record ig_rule =
  re_exact :: "re option"
  re_under :: "re option"
  negate :: bool
  dir_only :: bool
  original :: string
  rule_base :: string

text \<open>\<open>strip_flags\<close>: the negation, the directory flag and what is left of the pattern.\<close>

definition strip_flags :: "string \<Rightarrow> bool \<times> bool \<times> string" where
  "strip_flags body =
     (let neg = (body \<noteq> [] \<and> hd body = CHR ''!''); b1 = (if neg then tl body else body);
          dir = (b1 \<noteq> [] \<and> last b1 = CHR ''/'')
      in (neg, dir, if dir then butlast b1 else b1))"

definition normalize_base :: "string \<Rightarrow> string" where
  "normalize_base b =
     (let b1 = (if starts_with ''./'' b then drop 2 b else b); b2 = (if b1 = ''.'' then [] else b1)
      in rev (dropWhile (\<lambda>c. c = CHR ''/'') (rev b2)))"

definition make_base_prefix :: "string \<Rightarrow> string" where
  "make_base_prefix b =
     (if b = [] then []
      else concat (map (\<lambda>c. if is_regex_meta c \<or> c \<in> set ''*?['' then [CHR 0x5C, c] else [c]) (b @ ''/'')))"

definition compile_pattern :: "(string \<Rightarrow> (char \<Rightarrow> bool) option) \<Rightarrow> string \<Rightarrow> string \<Rightarrow> ig_rule" where
  "compile_pattern brk pattern base =
     (case strip_flags pattern of (neg, dir, body) \<Rightarrow>
        let root_anchored = (body \<noteq> [] \<and> hd body = CHR ''/'');
            b1 = (if root_anchored then tl body else body);
            anchored = (root_anchored \<or> CHR ''/'' \<in> set b1);
            regex_body = pattern_to_regex b1;
            left = ''^'' @ make_base_prefix (normalize_base base) @ (if anchored then [] else ''(?:.*/)?'')
        in \<lparr>re_exact = compile_re brk (left @ regex_body @ ''$''), re_under = compile_re brk (left @ regex_body @ ''/.*$''),
            negate = neg, dir_only = dir, original = pattern, rule_base = normalize_base base\<rparr>)"

definition match_opt :: "string \<Rightarrow> re option \<Rightarrow> bool" where
  "match_opt s r = (case r of None \<Rightarrow> False | Some x \<Rightarrow> regex_match s x)"

definition rule_matches :: "ig_rule \<Rightarrow> string \<Rightarrow> bool \<Rightarrow> bool" where
  "rule_matches r rel is_dir \<longleftrightarrow>
     match_opt rel (re_under r) \<or> (\<not> dir_only r \<or> is_dir) \<and> match_opt rel (re_exact r)"

subsection \<open>The matcher\<close>

record ignore_matcher =
  rules :: "ig_rule list"
  by_base :: "(string \<times> nat list) list"

definition empty_matcher :: ignore_matcher where
  "empty_matcher = \<lparr>rules = [], by_base = []\<rparr>"

definition push_rule :: "ig_rule \<Rightarrow> ignore_matcher \<Rightarrow> ignore_matcher" where
  "push_rule r m =
     m\<lparr>rules := rules m @ [r],
       by_base := AList.update (rule_base r)
         ((case map_of (by_base m) (rule_base r) of None \<Rightarrow> [] | Some is \<Rightarrow> is) @ [length (rules m)]) (by_base m)\<rparr>"

definition add_pattern :: "(string \<Rightarrow> (char \<Rightarrow> bool) option) \<Rightarrow> string \<Rightarrow> string \<Rightarrow> ignore_matcher \<Rightarrow> ignore_matcher" where
  "add_pattern brk pattern base m =
     (let trimmed = trim pattern in
      if trimmed = [] \<or> hd trimmed = CHR ''#'' then m else push_rule (compile_pattern brk trimmed base) m)"

definition load_file :: "(string \<Rightarrow> (char \<Rightarrow> bool) option) \<Rightarrow> fnode \<Rightarrow> fpath \<Rightarrow> string \<Rightarrow> ignore_matcher \<Rightarrow> ignore_matcher" where
  "load_file brk t p base m =
     (case read_bytes t p of
        None \<Rightarrow> m
      | Some s \<Rightarrow> foldl (\<lambda>m line. add_pattern brk line base m) m (getlines s))"

text \<open>The lookup: one cursor per bucket of the path's ancestry, the highest index first.\<close>

type_synonym cursor = "nat list \<times> nat"

definition take_bucket :: "(string \<times> nat list) list \<Rightarrow> string \<Rightarrow> cursor list" where
  "take_bucket index b = (case map_of index b of None \<Rightarrow> [] | Some is \<Rightarrow> if is = [] then [] else [(is, length is)])"

definition collect_buckets :: "(string \<times> nat list) list \<Rightarrow> string \<Rightarrow> cursor list" where
  "collect_buckets index rel =
     take_bucket index [] @
     concat (map (\<lambda>i. if rel ! i = CHR ''/'' then take_bucket index (take i rel) else []) [0..<length rel])"

definition better_cursor :: "cursor list \<Rightarrow> nat option \<Rightarrow> nat \<Rightarrow> nat option" where
  "better_cursor cs from i =
     (let (is, remaining) = cs ! i in
      if remaining = 0 then from
      else case from of
             None \<Rightarrow> Some i
           | Some j \<Rightarrow> if is ! (remaining - 1) > fst (cs ! j) ! (snd (cs ! j) - 1) then Some i else from)"

definition pop_highest :: "cursor list \<Rightarrow> (nat \<times> cursor list) option" where
  "pop_highest cs =
     map_option (\<lambda>i. (fst (cs ! i) ! (snd (cs ! i) - 1), cs[i := (fst (cs ! i), snd (cs ! i) - 1)]))
       (foldl (better_cursor cs) None [0..<length cs])"

definition top_of :: "cursor list \<Rightarrow> nat \<Rightarrow> nat" where
  "top_of cs i = fst (cs ! i) ! (snd (cs ! i) - 1)"

lemma best_cursor_spec:
  "case foldl (better_cursor cs) None [0..<n] of
     None \<Rightarrow> \<forall>i<n. snd (cs ! i) = 0
   | Some j \<Rightarrow> j < n \<and> snd (cs ! j) > 0 \<and> (\<forall>i<n. snd (cs ! i) > 0 \<longrightarrow> top_of cs i \<le> top_of cs j)"
proof (induction n)
  case (Suc n)
  then show ?case
    by (auto simp: better_cursor_def top_of_def less_Suc_eq Let_def split: option.splits prod.splits if_splits)
qed simp

lemma pop_highest_None: "pop_highest cs = None \<Longrightarrow> i < length cs \<Longrightarrow> snd (cs ! i) = 0"
  using best_cursor_spec [of "length cs" cs] by (auto simp: pop_highest_def split: option.splits)

lemma pop_highest_Some:
  assumes "pop_highest cs = Some (idx, cs')"
  shows "\<exists>j. j < length cs \<and> snd (cs ! j) > 0 \<and> idx = top_of cs j \<and> cs' = cs[j := (fst (cs ! j), snd (cs ! j) - 1)] \<and>
    (\<forall>i<length cs. snd (cs ! i) > 0 \<longrightarrow> top_of cs i \<le> idx)"
  using best_cursor_spec [of "length cs" cs] assms by (auto simp: pop_highest_def top_of_def split: option.splits)

lemma pop_highest_shorter: "pop_highest cs = Some (idx, cs') \<Longrightarrow> sum_list (map snd cs') < sum_list (map snd cs)"
proof -
  assume "pop_highest cs = Some (idx, cs')"
  from pop_highest_Some [OF this] obtain j where "j < length cs" "snd (cs ! j) > 0" "cs' = cs[j := (fst (cs ! j), snd (cs ! j) - 1)]"
    by blast
  moreover from this have "sum_list (map snd cs) = sum_list (map snd (take j cs)) + snd (cs ! j) + sum_list (map snd (drop (Suc j) cs))"
    by (metis id_take_nth_drop add.assoc list.simps(9) map_append sum_list.Cons sum_list_append)
  ultimately show ?thesis by (simp add: upd_conv_take_nth_drop)
qed

function lookup_rules :: "ig_rule list \<Rightarrow> string \<Rightarrow> bool \<Rightarrow> cursor list \<Rightarrow> bool" where
  "lookup_rules rs rel is_dir cs =
     (case pop_highest cs of
        None \<Rightarrow> False
      | Some (idx, cs') \<Rightarrow>
          if rule_matches (rs ! idx) rel is_dir then \<not> negate (rs ! idx) else lookup_rules rs rel is_dir cs')"
  by auto
termination
  by (relation "measure (\<lambda>(rs, rel, is_dir, cs). sum_list (map snd cs))") (auto dest: pop_highest_shorter)

declare lookup_rules.simps [simp del]

definition is_ignored :: "ignore_matcher \<Rightarrow> string \<Rightarrow> bool \<Rightarrow> bool" where
  "is_ignored m rel is_dir = lookup_rules (rules m) rel is_dir (collect_buckets (by_base m) rel)"

subsection \<open>Loading a workspace\<close>

text \<open>\<^const>\<open>None\<close> is an exception of the library; the scan for nested files catches it and stops.\<close>

definition prunes_discovery :: "fnode \<Rightarrow> fpath \<Rightarrow> ignore_matcher \<Rightarrow> fpath \<Rightarrow> bool option" where
  "prunes_discovery t rt m dir =
     (if is_skipped_dir_name (last dir) then Some True
      else map_option (\<lambda>rel. rel \<noteq> [] \<and> is_ignored m (join_slash rel) True) (relative_to t dir rt))"

definition visit_discovery_entry ::
  "(string \<Rightarrow> (char \<Rightarrow> bool) option) \<Rightarrow> fnode \<Rightarrow> fpath \<Rightarrow> ignore_matcher \<Rightarrow> fpath \<Rightarrow> fnode \<Rightarrow> ignore_matcher \<times> ctl" where
  "visit_discovery_entry brk t rt m entry n =
     (case is_directory_at t entry of
        None \<Rightarrow> (m, Halt)
      | Some True \<Rightarrow>
          (case prunes_discovery t rt m entry of
             None \<Rightarrow> (m, Halt)
           | Some True \<Rightarrow> (m, Prune)
           | Some False \<Rightarrow> (m, Descend))
      | Some False \<Rightarrow>
          if last entry \<noteq> ''.gitignore'' \<or> entry = rt @ [''.gitignore''] then (m, Descend)
          else (case relative_to t (butlast entry) rt of
                  None \<Rightarrow> (m, Halt)
                | Some rel \<Rightarrow> (load_file brk t entry (join_slash rel) m, Descend)))"

definition load_nested_gitignores ::
  "(string \<Rightarrow> (char \<Rightarrow> bool) option) \<Rightarrow> fnode \<Rightarrow> fpath \<Rightarrow> ignore_matcher \<Rightarrow> ignore_matcher" where
  "load_nested_gitignores brk t rt m =
     (case node_at t rt of
        Some (Directory es) \<Rightarrow> fst (iterate (visit_discovery_entry brk t rt) rt es m)
      | _ \<Rightarrow> m)"

definition load_if_exists ::
  "(string \<Rightarrow> (char \<Rightarrow> bool) option) \<Rightarrow> fnode \<Rightarrow> fpath \<Rightarrow> ignore_matcher \<Rightarrow> ignore_matcher option" where
  "load_if_exists brk t p m = map_option (\<lambda>e. if e then load_file brk t p [] m else m) (exists_at t p)"

definition load_ignores :: "(string \<Rightarrow> (char \<Rightarrow> bool) option) \<Rightarrow> fnode \<Rightarrow> fpath \<Rightarrow> ignore_matcher option" where
  "load_ignores brk t rt =
     (case is_directory_at t rt of
        None \<Rightarrow> None
      | Some False \<Rightarrow> Some empty_matcher
      | Some True \<Rightarrow>
          (case weakly_canonical t rt of
             None \<Rightarrow> None
           | Some r \<Rightarrow>
               (case load_if_exists brk t (r @ [''.gitignore'']) empty_matcher of
                  None \<Rightarrow> None
                | Some m \<Rightarrow> load_if_exists brk t (r @ [''.explorerignore'']) (load_nested_gitignores brk t r m))))"

subsection \<open>Lemmas: regular expressions\<close>

fun lang :: "re \<Rightarrow> string set" where
  "lang RNone = {}"
| "lang REps = {[]}"
| "lang (RSet p) = {[c] | c. p c}"
| "lang (RCat r s) = {u @ v | u v. u \<in> lang r \<and> v \<in> lang s}"
| "lang (RAlt r s) = lang r \<union> lang s"
| "lang (RStar r) = {concat us | us. set us \<subseteq> lang r}"

lemma nullable_lang: "nullable r \<longleftrightarrow> [] \<in> lang r"
  by (induction r) (auto intro: exI [of _ "[]"])

lemma star_cons: "c # s \<in> lang (RStar r) \<longleftrightarrow> (\<exists>u v. s = u @ v \<and> c # u \<in> lang r \<and> v \<in> lang (RStar r))"
proof
  assume "c # s \<in> lang (RStar r)"
  then obtain us where us: "c # s = concat us" "set us \<subseteq> lang r" by auto
  then show "\<exists>u v. s = u @ v \<and> c # u \<in> lang r \<and> v \<in> lang (RStar r)"
  proof (induction us)
    case (Cons w us)
    then show ?case by (cases w) auto
  qed simp
next
  assume "\<exists>u v. s = u @ v \<and> c # u \<in> lang r \<and> v \<in> lang (RStar r)"
  then obtain u us where "s = u @ concat us" "c # u \<in> lang r" "set us \<subseteq> lang r" by auto
  then show "c # s \<in> lang (RStar r)" by (auto intro!: exI [of _ "(c # u) # us"])
qed

lemma deriv_lang: "s \<in> lang (deriv c r) \<longleftrightarrow> c # s \<in> lang r"
proof (induction r arbitrary: s)
  case (RCat r1 r2)
  show ?case
  proof (cases "nullable r1")
    case True
    then show ?thesis using RCat by (auto simp: nullable_lang Cons_eq_append_conv)
  next
    case False
    then have "[] \<notin> lang r1" by (simp add: nullable_lang)
    then show ?thesis using RCat False by (auto simp: Cons_eq_append_conv)
  qed
next
  case (RStar r)
  then show ?case using star_cons [of c s r] by simp
qed auto

lemma regex_match_lang: "regex_match s r \<longleftrightarrow> s \<in> lang r"
  unfolding regex_match_def by (induction s arbitrary: r) (simp_all add: nullable_lang deriv_lang)

subsection \<open>Lemmas: the lookup\<close>

definition pending :: "cursor list \<Rightarrow> nat set" where
  "pending cs = {fst (cs ! i) ! k | i k. i < length cs \<and> k < snd (cs ! i)}"

definition cursors_ok :: "cursor list \<Rightarrow> bool" where
  "cursors_ok cs \<longleftrightarrow> (\<forall>c\<in>set cs. snd c \<le> length (fst c) \<and> sorted_wrt (<) (fst c))"

lemma finite_pending: "finite (pending cs)"
proof -
  have "pending cs = (\<Union>i<length cs. (\<lambda>k. fst (cs ! i) ! k) ` {..<snd (cs ! i)})" by (auto simp: pending_def)
  then show ?thesis by simp
qed

lemma pop_highest_pending:
  assumes "cursors_ok cs" "pop_highest cs = Some (idx, cs')"
  shows "pending cs = insert idx (pending cs')" "\<forall>i\<in>pending cs. i \<le> idx" "cursors_ok cs'"
proof -
  obtain j where j: "j < length cs" "snd (cs ! j) > 0" "idx = top_of cs j" "cs' = cs[j := (fst (cs ! j), snd (cs ! j) - 1)]"
    and le: "\<forall>i<length cs. snd (cs ! i) > 0 \<longrightarrow> top_of cs i \<le> idx" using pop_highest_Some [OF assms(2)] by blast
  have ok: "snd (cs ! i) \<le> length (fst (cs ! i))" "sorted_wrt (<) (fst (cs ! i))" if "i < length cs" for i
    using assms(1) nth_mem [OF that] by (auto simp: cursors_ok_def)
  show "\<forall>i\<in>pending cs. i \<le> idx"
  proof
    fix x assume "x \<in> pending cs"
    then obtain i k where ik: "x = fst (cs ! i) ! k" "i < length cs" "k < snd (cs ! i)" by (auto simp: pending_def)
    have "x \<le> top_of cs i"
    proof (cases "k = snd (cs ! i) - 1")
      case False
      then show ?thesis using ok [OF ik(2)] ik sorted_wrt_nth_less [of "(<)" "fst (cs ! i)" k "snd (cs ! i) - 1"]
        by (simp add: top_of_def less_imp_le)
    qed (simp add: ik top_of_def)
    also have "\<dots> \<le> idx" using le ik by auto
    finally show "x \<le> idx" .
  qed
  show "cursors_ok cs'" using assms(1) j le_trans [OF diff_le_self ok(1) [OF j(1)]] nth_mem [OF j(1)]
    by (auto simp: cursors_ok_def dest!: set_update_subset_insert [THEN subsetD])
  have "k < snd (cs ! j) \<longleftrightarrow> k = snd (cs ! j) - 1 \<or> k < snd (cs ! j) - 1" for k using j(2) by auto
  then show "pending cs = insert idx (pending cs')" unfolding pending_def j(3,4) top_of_def using j(1)
    by (auto simp: nth_list_update split: if_splits) (metis)+
qed

lemma lookup_rules_last:
  "cursors_ok cs \<Longrightarrow> lookup_rules rs rel d cs \<longleftrightarrow>
     {i \<in> pending cs. rule_matches (rs ! i) rel d} \<noteq> {} \<and>
     \<not> negate (rs ! Max {i \<in> pending cs. rule_matches (rs ! i) rel d})"
proof (induction rs rel d cs rule: lookup_rules.induct)
  case (1 rs rel d cs)
  let ?M = "\<lambda>cs. {i \<in> pending cs. rule_matches (rs ! i) rel d}"
  show ?case
  proof (cases "pop_highest cs")
    case None
    then have "pending cs = {}" using pop_highest_None [OF None] by (auto simp: pending_def)
    then show ?thesis using None by (simp add: lookup_rules.simps)
  next
    case (Some p)
    then obtain idx cs' where p: "pop_highest cs = Some (idx, cs')" by (cases p) auto
    note pp = pop_highest_pending [OF 1(2) p]
    show ?thesis
    proof (cases "rule_matches (rs ! idx) rel d")
      case True
      then have "Max (?M cs) = idx" using pp(1,2) finite_pending [of cs] by (intro Max_eqI) auto
      moreover have "?M cs \<noteq> {}" using True pp(1) by auto
      ultimately show ?thesis using True p by (subst lookup_rules.simps) simp
    next
      case False
      then have "?M cs = ?M cs'" using pp(1) by auto
      then show ?thesis using 1(1) [OF p refl False pp(3)] False p by (subst lookup_rules.simps) simp
    qed
  qed
qed

subsection \<open>Lemmas: the index\<close>

definition bucket :: "ignore_matcher \<Rightarrow> string \<Rightarrow> nat list" where
  "bucket m b = (case map_of (by_base m) b of None \<Rightarrow> [] | Some is \<Rightarrow> is)"

text \<open>A bucket holds the rules anchored there, in source order, and a rule anchored below the root only matches there.\<close>

definition index_ok :: "ignore_matcher \<Rightarrow> bool" where
  "index_ok m \<longleftrightarrow> (\<forall>b. bucket m b = filter (\<lambda>i. rule_base (rules m ! i) = b) [0..<length (rules m)])"

definition anchored_ok :: "ig_rule \<Rightarrow> bool" where
  "anchored_ok r \<longleftrightarrow> (\<forall>rel d. rule_matches r rel d \<longrightarrow> rule_base r = [] \<or> prefix (rule_base r @ ''/'') rel)"

definition matcher_ok :: "ignore_matcher \<Rightarrow> bool" where
  "matcher_ok m \<longleftrightarrow> index_ok m \<and> (\<forall>r\<in>set (rules m). anchored_ok r)"

lemma take_bucket_bucket: "take_bucket (by_base m) b = (if bucket m b = [] then [] else [(bucket m b, length (bucket m b))])"
  by (auto simp: take_bucket_def bucket_def split: option.splits)

lemma set_collect_buckets:
  "set (collect_buckets (by_base m) rel) =
     {(bucket m b, length (bucket m b)) | b. bucket m b \<noteq> [] \<and> (b = [] \<or> prefix (b @ ''/'') rel)}"
proof -
  have "(\<exists>i<length rel. rel ! i = CHR ''/'' \<and> b = take i rel) \<longleftrightarrow> prefix (b @ ''/'') rel" for b
  proof
    assume "\<exists>i<length rel. rel ! i = CHR ''/'' \<and> b = take i rel"
    then obtain i where "i < length rel" "rel ! i = CHR ''/''" "b = take i rel" by blast
    then show "prefix (b @ ''/'') rel" by (metis take_Suc_conv_app_nth take_is_prefix)
  next
    assume "prefix (b @ ''/'') rel"
    then show "\<exists>i<length rel. rel ! i = CHR ''/'' \<and> b = take i rel"
      by (intro exI [of _ "length b"]) (auto simp: prefix_def nth_append)
  qed
  note pre = this
  have eq: "set (collect_buckets (by_base m) rel) = set (take_bucket (by_base m) []) \<union>
      (\<Union>i\<in>{i. i < length rel \<and> rel ! i = CHR ''/''}. set (take_bucket (by_base m) (take i rel)))"
    by (auto simp: collect_buckets_def split: if_splits)
  have "c \<in> set (collect_buckets (by_base m) rel) \<longleftrightarrow>
      (\<exists>b. (b = [] \<or> (\<exists>i<length rel. rel ! i = CHR ''/'' \<and> b = take i rel)) \<and> c \<in> set (take_bucket (by_base m) b))" for c
    by (simp add: eq UN_iff Bex_def) blast
  then show ?thesis unfolding pre by (auto simp: take_bucket_bucket split: if_splits)
qed

lemma pending_collect:
  assumes "index_ok m"
  shows "pending (collect_buckets (by_base m) rel) =
    {i. i < length (rules m) \<and> (rule_base (rules m ! i) = [] \<or> prefix (rule_base (rules m ! i) @ ''/'') rel)}"
proof -
  have "x \<in> pending cs \<longleftrightarrow> (\<exists>c\<in>set cs. x \<in> set (take (snd c) (fst c)))" if "cursors_ok cs" for x cs
    using that by (force simp: pending_def cursors_ok_def in_set_conv_nth)
  moreover have ok: "cursors_ok (collect_buckets (by_base m) rel)"
    using assms by (auto simp: cursors_ok_def set_collect_buckets index_ok_def sorted_wrt_filter)
  ultimately have "x \<in> pending (collect_buckets (by_base m) rel) \<longleftrightarrow>
      (\<exists>c\<in>set (collect_buckets (by_base m) rel). x \<in> set (take (snd c) (fst c)))" for x
    by blast
  also have "\<dots> x \<longleftrightarrow> (\<exists>b. x \<in> set (bucket m b) \<and> (b = [] \<or> prefix (b @ ''/'') rel))" for x
  proof
    assume "\<exists>b. x \<in> set (bucket m b) \<and> (b = [] \<or> prefix (b @ ''/'') rel)"
    then obtain b where "x \<in> set (bucket m b)" "b = [] \<or> prefix (b @ ''/'') rel" by blast
    then show "\<exists>c\<in>set (collect_buckets (by_base m) rel). x \<in> set (take (snd c) (fst c))"
      unfolding set_collect_buckets by (intro bexI [of _ "(bucket m b, length (bucket m b))"]) auto
  qed (auto simp: set_collect_buckets)
  finally show ?thesis using assms by (auto simp: index_ok_def)
qed

lemma collect_buckets_ok: "index_ok m \<Longrightarrow> cursors_ok (collect_buckets (by_base m) rel)"
  by (auto simp: cursors_ok_def set_collect_buckets index_ok_def sorted_wrt_filter)

text \<open>The reference: of all rules that match, the last one decides.\<close>

definition last_match_ignores :: "ig_rule list \<Rightarrow> string \<Rightarrow> bool \<Rightarrow> bool" where
  "last_match_ignores rs rel d =
     (case find (\<lambda>r. rule_matches r rel d) (rev rs) of None \<Rightarrow> False | Some r \<Rightarrow> \<not> negate r)"

lemma find_rev_Max:
  "find P (rev xs) = (let M = {i. i < length xs \<and> P (xs ! i)} in if M = {} then None else Some (xs ! Max M))"
proof (induction xs rule: rev_induct)
  case (snoc x xs)
  let ?M = "\<lambda>xs. {i. i < length xs \<and> P (xs ! i)}"
  show ?case
  proof (cases "P x")
    case True
    then have "Max (?M (xs @ [x])) = length xs" by (intro Max_eqI) (auto simp: nth_append)
    moreover have "length xs \<in> ?M (xs @ [x])" using True by simp
    ultimately show ?thesis using True by (auto simp: Let_def)
  next
    case False
    then have e: "?M (xs @ [x]) = ?M xs" by (auto simp: nth_append less_Suc_eq)
    have "Max (?M xs) < length xs" if "?M xs \<noteq> {}" using Max_in [OF _ that] by simp
    then show ?thesis using False snoc unfolding e by (auto simp: Let_def nth_append)
  qed
qed simp

lemma is_ignored_last_match:
  assumes "matcher_ok m"
  shows "is_ignored m rel d = last_match_ignores (rules m) rel d"
proof -
  let ?M = "{i. i < length (rules m) \<and> rule_matches (rules m ! i) rel d}"
  have ix: "index_ok m" using assms by (simp add: matcher_ok_def)
  have "{i \<in> pending (collect_buckets (by_base m) rel). rule_matches (rules m ! i) rel d} = ?M"
    using assms nth_mem by (fastforce simp: pending_collect [OF ix] matcher_ok_def anchored_ok_def)
  then show ?thesis unfolding is_ignored_def lookup_rules_last [OF collect_buckets_ok [OF ix]] last_match_ignores_def find_rev_Max
    by (simp add: Let_def)
qed

subsection \<open>Lemmas: anchoring\<close>

definition quant_start :: "string \<Rightarrow> bool" where
  "quant_start s \<longleftrightarrow> s \<noteq> [] \<and> hd s \<in> {CHR ''*'', CHR ''?''}"

definition base_esc :: "char \<Rightarrow> string" where
  "base_esc c = (if is_regex_meta c \<or> c \<in> set ''*?['' then [CHR 0x5C, c] else [c])"

lemma parse_quants_none: "\<not> quant_start r \<Longrightarrow> parse_quants a r = (a, r)"
  by (cases r) (auto simp: quant_start_def)

lemma parse_re_step:
  "parse_atom brk s = Some (a, r) \<Longrightarrow> \<not> quant_start r \<Longrightarrow> parse_re brk s = map_option (RCat a) (parse_re brk r)"
  by (cases "s = []") (auto simp: parse_re.simps [of brk s] parse_quants_none parse_atom_def)

lemma parse_atom_esc: "parse_atom brk (CHR 0x5C # c # r) = Some (lit c, r)"
  by (simp add: parse_atom_def)

lemma parse_atom_literal: "\<not> is_regex_meta c \<Longrightarrow> c \<notin> set ''*?['' \<Longrightarrow> parse_atom brk (c # r) = Some (lit c, r)"
  by (auto simp: parse_atom_def is_regex_meta_def no_atom_def)

lemma parse_base_prefix:
  "\<not> quant_start r \<Longrightarrow>
   parse_re brk (concat (map base_esc b) @ r) = map_option (foldr (\<lambda>c. RCat (lit c)) b) (parse_re brk r)"
proof (induction b)
  case (Cons c b)
  have nq: "\<not> quant_start (concat (map base_esc b) @ r)"
    using Cons.prems by (cases b) (auto simp: quant_start_def base_esc_def)
  have "parse_atom brk (base_esc c @ concat (map base_esc b) @ r) = Some (lit c, concat (map base_esc b) @ r)"
    unfolding base_esc_def by (cases "is_regex_meta c \<or> c \<in> set ''*?[''") (simp_all add: parse_atom_esc parse_atom_literal)
  from parse_re_step [OF this nq] Cons show ?case by (simp add: option.map_comp o_def)
qed (simp add: option.map_id)

lemma lang_prefix: "s \<in> lang (foldr (\<lambda>c. RCat (lit c)) b x) \<longleftrightarrow> (\<exists>u. s = b @ u \<and> u \<in> lang x)"
  by (induction b arbitrary: s) auto

lemma match_base_prefix:
  assumes "\<not> quant_start r"
  shows "match_opt s (compile_re brk (''^'' @ make_base_prefix b @ r)) \<longleftrightarrow>
    (\<exists>u. s = (if b = [] then [] else b @ ''/'') @ u \<and> match_opt u (parse_re brk r))"
proof -
  have "make_base_prefix b = concat (map base_esc (if b = [] then [] else b @ ''/''))"
    by (simp add: make_base_prefix_def base_esc_def cong: map_cong)
  then have "compile_re brk (''^'' @ make_base_prefix b @ r) =
      map_option (foldr (\<lambda>c. RCat (lit c)) (if b = [] then [] else b @ ''/'')) (parse_re brk r)"
    unfolding compile_re_def by (simp only: append_Cons append_Nil list.case simp_thms if_True parse_base_prefix [OF assms])
  then show ?thesis by (cases "parse_re brk r") (auto simp: match_opt_def regex_match_lang lang_prefix)
qed

text \<open>A backslash in front of a wildcard turns the wildcard into a quantifier of what precedes it.\<close>

definition escapes_wildcard :: "string \<Rightarrow> bool" where
  "escapes_wildcard p \<longleftrightarrow> list_ex (\<lambda>(a, b). a = CHR 0x5C \<and> b \<in> {CHR ''*'', CHR ''?''}) (zip p (tl p))"

lemma zip_tl_inner: "x \<in> set (zip q (tl q)) \<Longrightarrow> x \<in> set (zip (p @ q @ r) (tl (p @ q @ r)))"
proof (induction p)
  case Nil
  then show ?case
  proof (induction q)
    case (Cons a q)
    then show ?case by (cases q) auto
  qed simp
next
  case (Cons a p)
  then show ?case by (cases "p @ q @ r") auto
qed

lemma escapes_inner: "escapes_wildcard q \<Longrightarrow> escapes_wildcard (p @ q @ r)"
  unfolding escapes_wildcard_def list_ex_iff using zip_tl_inner by fast

lemma emit_star_hd: "fst (emit_star r) \<in> {''.*'', ''[^/]*''}"
  by (auto simp: emit_star_def split: list.splits)

lemma emit_char_hd: "emit_char c \<noteq> [] \<and> hd (emit_char c) \<in> {c, CHR 0x5C}"
  by (simp add: emit_char_def)

lemma emit_one_start:
  "quant_start (fst (emit_one c r) @ x) \<Longrightarrow> c = CHR 0x5C \<and> r \<noteq> [] \<and> hd r \<in> {CHR ''*'', CHR ''?''}"
  using emit_star_hd [of r] emit_char_hd [of "hd r"] emit_char_hd [of c]
  by (auto simp: emit_one_def quant_start_def emit_bracket_def Let_def split: if_splits)

lemma quant_start_escapes: "quant_start (pattern_to_regex p) \<Longrightarrow> escapes_wildcard p"
proof (cases p)
  case (Cons c r)
  assume "quant_start (pattern_to_regex p)"
  then have "c = CHR 0x5C \<and> r \<noteq> [] \<and> hd r \<in> {CHR ''*'', CHR ''?''}"
    using emit_one_start [of c r] Cons by (cases "emit_one c r") (simp add: pattern_to_regex.simps)
  then show ?thesis using Cons by (cases r) (auto simp: escapes_wildcard_def)
qed (simp add: quant_start_def)

lemma strip_flags_inner: "strip_flags p = (neg, dir, b) \<Longrightarrow> \<exists>x y. p = x @ b @ y"
proof -
  assume "strip_flags p = (neg, dir, b)"
  moreover have "\<exists>x. p = x @ (if neg then tl p else p)" for neg by (cases p) (auto intro: exI [of _ "[]"])
  moreover have "\<exists>y. q = (if dir then butlast q else q) @ y" for dir and q :: string
    by (cases "q = []") (auto intro: exI [of _ "[last q]"])
  ultimately show ?thesis unfolding strip_flags_def Let_def by (metis (no_types, opaque_lifting) Pair_inject)
qed

lemma quant_start_append: "quant_start (x @ y) \<longleftrightarrow> (if x = [] then quant_start y else quant_start x)"
  by (simp add: quant_start_def)

lemma compile_pattern_anchored:
  assumes "\<not> escapes_wildcard p"
  shows "anchored_ok (compile_pattern brk p base)"
proof -
  obtain neg dir body where f: "strip_flags p = (neg, dir, body)" by (cases "strip_flags p")
  define b1 where "b1 = (if body \<noteq> [] \<and> hd body = CHR ''/'' then tl body else body)"
  define left where "left = (if body \<noteq> [] \<and> hd body = CHR ''/'' \<or> CHR ''/'' \<in> set b1 then [] else ''(?:.*/)?'')"
  obtain x y where "p = x @ body @ y" using strip_flags_inner [OF f] by blast
  moreover have "\<exists>z. body = z @ b1" unfolding b1_def by (cases body) (auto intro: exI [of _ "[]"])
  ultimately obtain z where "p = (x @ z) @ b1 @ y" by auto
  then have "\<not> escapes_wildcard b1" using assms escapes_inner by metis
  then have nq: "\<not> quant_start (pattern_to_regex b1)" using quant_start_escapes by blast
  have tail: "\<not> quant_start (left @ pattern_to_regex b1 @ e)" if "\<not> quant_start e" for e
    using nq that unfolding quant_start_append by (auto simp: left_def quant_start_def)
  have e: "re_exact (compile_pattern brk p base) = compile_re brk (''^'' @ make_base_prefix (normalize_base base) @ left @ pattern_to_regex b1 @ ''$'')"
    "re_under (compile_pattern brk p base) = compile_re brk (''^'' @ make_base_prefix (normalize_base base) @ left @ pattern_to_regex b1 @ ''/.*$'')"
    "rule_base (compile_pattern brk p base) = normalize_base base"
    unfolding compile_pattern_def f left_def b1_def by (simp_all add: Let_def)
  show ?thesis unfolding anchored_ok_def rule_matches_def e
    using match_base_prefix [OF tail [of "''$''"]] match_base_prefix [OF tail [of "''/.*$''"]]
    by (auto simp: quant_start_def prefix_def split: if_splits)
qed

subsection \<open>Loaded matchers\<close>

text \<open>Every rule of a matcher that was built by adding patterns is the compilation of its pattern.\<close>

definition built :: "(string \<Rightarrow> (char \<Rightarrow> bool) option) \<Rightarrow> ignore_matcher \<Rightarrow> bool" where
  "built brk m \<longleftrightarrow> index_ok m \<and> (\<forall>r\<in>set (rules m). \<exists>b. r = compile_pattern brk (original r) b)"

lemma original_compile: "original (compile_pattern brk p b) = p"
  by (simp add: compile_pattern_def Let_def split: prod.split)

lemma push_rule_index: "index_ok m \<Longrightarrow> index_ok (push_rule r m)"
proof -
  assume a: "index_ok m"
  have "bucket (push_rule r m) b = bucket m b @ (if b = rule_base r then [length (rules m)] else [])" for b
    by (simp add: bucket_def push_rule_def)
  moreover have "filter (\<lambda>i. rule_base (rules (push_rule r m) ! i) = b) [0..<length (rules (push_rule r m))] =
      filter (\<lambda>i. rule_base (rules m ! i) = b) [0..<length (rules m)] @ (if b = rule_base r then [length (rules m)] else [])" for b
    by (auto simp: push_rule_def nth_append intro!: filter_cong)
  ultimately show ?thesis using a by (auto simp: index_ok_def)
qed

lemma add_pattern_built [inv_intros]: "built brk m \<Longrightarrow> built brk (add_pattern brk p b m)"
  using push_rule_index original_compile
  by (auto simp: built_def add_pattern_def Let_def push_rule_def)

lemma load_file_built [inv_intros]: "built brk m \<Longrightarrow> built brk (load_file brk t p b m)"
proof -
  have "built brk m \<Longrightarrow> built brk (foldl (\<lambda>m line. add_pattern brk line b m) m ls)" for ls
    by (induction ls arbitrary: m) (auto intro: inv_intros)
  then show "built brk m \<Longrightarrow> ?thesis" by (simp add: load_file_def split: option.split)
qed

lemma load_ignores_built: "load_ignores brk t r = Some m \<Longrightarrow> built brk m"
proof -
  have e: "built brk empty_matcher" by (simp add: built_def index_ok_def empty_matcher_def bucket_def)
  have l: "load_if_exists brk t p m = Some m' \<Longrightarrow> built brk m \<Longrightarrow> built brk m'" for p m m'
    by (auto simp: load_if_exists_def intro: inv_intros)
  have "built brk m \<Longrightarrow> built brk (fst (visit_discovery_entry brk t rt m p n))" for m p n rt
    by (auto simp: visit_discovery_entry_def intro: inv_intros split: option.split bool.split)
  then have n: "built brk m \<Longrightarrow> built brk (load_nested_gitignores brk t rt m)" for m rt
    by (auto simp: load_nested_gitignores_def intro!: iterate_inv [where I = "built brk"] split: option.split fnode.split)
  assume "load_ignores brk t r = Some m"
  then show ?thesis by (auto simp: load_ignores_def e split: option.splits bool.splits dest!: l intro: n)
qed


subsection \<open>What a pattern means\<close>

text \<open>The wildcards of a pattern, and when a text is an instance of them.\<close>

datatype wtok = WChar char | WOne | WStar | WDeep

fun tokens :: "string \<Rightarrow> wtok list" where
  "tokens [] = []"
| "tokens (c # r) =
     (if c = CHR ''?'' then WOne # tokens r
      else if c = CHR 0x5C then (case r of [] \<Rightarrow> [WChar c] | d # r' \<Rightarrow> WChar d # tokens r')
      else if c = CHR ''*''
      then (case r of
              [] \<Rightarrow> [WStar]
            | d # r' \<Rightarrow>
                if d \<noteq> CHR ''*'' then WStar # tokens r
                else (case r' of
                        [] \<Rightarrow> [WDeep]
                      | e # r'' \<Rightarrow> if e = CHR ''/'' then WDeep # tokens r'' else WDeep # tokens r'))
      else WChar c # tokens r)"

definition one_line :: "string \<Rightarrow> bool" where
  "one_line s \<longleftrightarrow> (\<forall>c\<in>set s. c \<noteq> CHR 0x0A \<and> c \<noteq> CHR 0x0D)"

fun tok_match :: "wtok list \<Rightarrow> string \<Rightarrow> bool" where
  "tok_match [] s \<longleftrightarrow> s = []"
| "tok_match (WChar c # ts) s \<longleftrightarrow> s \<noteq> [] \<and> hd s = c \<and> tok_match ts (tl s)"
| "tok_match (WOne # ts) s \<longleftrightarrow> s \<noteq> [] \<and> hd s \<noteq> CHR ''/'' \<and> tok_match ts (tl s)"
| "tok_match (WStar # ts) s \<longleftrightarrow> (\<exists>u v. s = u @ v \<and> CHR ''/'' \<notin> set u \<and> tok_match ts v)"
| "tok_match (WDeep # ts) s \<longleftrightarrow> (\<exists>u v. s = u @ v \<and> one_line u \<and> tok_match ts v)"

text \<open>A pattern without brackets and without a backslash in front of a wildcard.\<close>

definition plain_pattern :: "string \<Rightarrow> bool" where
  "plain_pattern p \<longleftrightarrow> CHR ''['' \<notin> set p \<and> \<not> escapes_wildcard p"

lemma escapes_tl: "escapes_wildcard r \<Longrightarrow> escapes_wildcard (c # r)"
  using escapes_inner [of r "[c]" "[]"] by simp

lemma plain_tl: "plain_pattern (c # r) \<Longrightarrow> plain_pattern r"
  using escapes_tl by (auto simp: plain_pattern_def)

lemma plain_start: "plain_pattern p \<Longrightarrow> \<not> quant_start e \<Longrightarrow> \<not> quant_start (pattern_to_regex p @ e)"
  using quant_start_escapes [of p] by (auto simp: quant_start_append plain_pattern_def)

lemma lang_star_set: "s \<in> lang (RStar (RSet P)) \<longleftrightarrow> (\<forall>c\<in>set s. P c)"
proof
  assume "\<forall>c\<in>set s. P c"
  then show "s \<in> lang (RStar (RSet P))" by (auto intro!: exI [of _ "map (\<lambda>c. [c]) s"] simp: concat_map_singleton)
qed fastforce

text \<open>Matching, one parsed piece at a time.\<close>

definition pm :: "(string \<Rightarrow> (char \<Rightarrow> bool) option) \<Rightarrow> string \<Rightarrow> string \<Rightarrow> bool" where
  "pm brk r s \<longleftrightarrow> match_opt s (parse_re brk r)"

lemma pm_atom:
  "parse_atom brk x = Some (a, r) \<Longrightarrow> \<not> quant_start r \<Longrightarrow> pm brk x s \<longleftrightarrow> (\<exists>u v. s = u @ v \<and> u \<in> lang a \<and> pm brk r v)"
  by (cases "parse_re brk r") (auto simp: pm_def match_opt_def parse_re_step regex_match_lang)

lemma split_one: "(\<exists>u v. s = u @ v \<and> (\<exists>c. u = [c] \<and> P c) \<and> Q v) \<longleftrightarrow> s \<noteq> [] \<and> P (hd s) \<and> Q (tl s)"
proof
  assume "s \<noteq> [] \<and> P (hd s) \<and> Q (tl s)"
  then show "\<exists>u v. s = u @ v \<and> (\<exists>c. u = [c] \<and> P c) \<and> Q v"
    by (intro exI [of _ "[hd s]"] exI [of _ "tl s"]) simp
qed auto

lemma split_hd:
  "s \<noteq> [] \<and> P (hd s) \<and> (\<exists>u v. tl s = u @ v \<and> R u \<and> Q v) \<longleftrightarrow> (\<exists>u v. s = u @ v \<and> (u \<noteq> [] \<and> P (hd u) \<and> R (tl u)) \<and> Q v)"
proof
  assume "s \<noteq> [] \<and> P (hd s) \<and> (\<exists>u v. tl s = u @ v \<and> R u \<and> Q v)"
  then obtain u v where "s = (hd s # u) @ v" "P (hd s)" "R u" "Q v" by (metis append_Cons list.collapse)
  then show "\<exists>u v. s = u @ v \<and> (u \<noteq> [] \<and> P (hd u) \<and> R (tl u)) \<and> Q v" by (metis list.distinct(1) list.sel(1,3))
qed fastforce

lemma pm_set:
  "parse_atom brk x = Some (RSet P, r) \<Longrightarrow> \<not> quant_start r \<Longrightarrow> pm brk x s \<longleftrightarrow> s \<noteq> [] \<and> P (hd s) \<and> pm brk r (tl s)"
  using pm_atom [of brk x "RSet P" r s] split_one [of s P "pm brk r"] by simp

lemma pm_star:
  assumes "parse_atom brk x = Some (RSet P, CHR ''*'' # r)" "\<not> quant_start r"
  shows "pm brk x s \<longleftrightarrow> (\<exists>u v. s = u @ v \<and> (\<forall>c\<in>set u. P c) \<and> pm brk r v)"
proof -
  have "drop_lazy r = r" using assms(2) by (cases r) (auto simp: quant_start_def)
  then have "parse_re brk x = map_option (RCat (RStar (RSet P))) (parse_re brk r)"
    using assms by (cases "x = []") (auto simp: parse_re.simps [of brk x] parse_quants_none parse_atom_def)
  then show ?thesis by (cases "parse_re brk r") (simp_all add: pm_def match_opt_def regex_match_lang lang_star_set [simplified])
qed

lemma pm_char: "\<not> quant_start r \<Longrightarrow> pm brk (emit_char c @ r) s \<longleftrightarrow> s \<noteq> [] \<and> hd s = c \<and> pm brk r (tl s)"
  if "c \<notin> set ''*?[''"
proof -
  assume nq: "\<not> quant_start r"
  have "parse_atom brk (emit_char c @ r) = Some (lit c, r)"
    using that by (simp add: emit_char_def parse_atom_esc parse_atom_literal)
  from pm_set [OF this nq] show ?thesis .
qed

lemma scan_not_slash: "scan_bracket (''^/]'' @ r) = Some (''^/'', r)"
  by (simp add: scan_bracket.simps)

lemma parse_not_slash:
  "brk ''^/'' = Some (\<lambda>c. c \<noteq> CHR ''/'') \<Longrightarrow> parse_atom brk (''[^/]'' @ r) = Some (RSet (\<lambda>c. c \<noteq> CHR ''/''), r)"
  using scan_not_slash [of r] by (simp add: parse_atom_def)

lemma parse_any: "parse_atom brk (CHR ''.'' # r) = Some (any_char, r)"
  by (simp add: parse_atom_def)

lemma pm_pattern:
  assumes "brk ''^/'' = Some (\<lambda>c. c \<noteq> CHR ''/'')" "plain_pattern p" "\<not> quant_start e"
  shows "pm brk (pattern_to_regex p @ e) s \<longleftrightarrow> (\<exists>u v. s = u @ v \<and> tok_match (tokens p) u \<and> pm brk e v)"
  using assms(2)
proof (induction p arbitrary: s rule: length_induct)
  case (1 p)
  show ?case
  proof (cases p)
    case Nil
    then show ?thesis by simp
  next
    case (Cons c r)
  have IHs: "pm brk (pattern_to_regex q @ e) s' \<longleftrightarrow> (\<exists>u v. s' = u @ v \<and> tok_match (tokens q) u \<and> pm brk e v)"
    if "length q \<le> length r" "plain_pattern q" for q s' using 1(1) that Cons by (simp add: less_Suc_eq_le)
  have step: "pattern_to_regex (c # r) @ e = fst (emit_one c r) @ pattern_to_regex (snd (emit_one c r)) @ e"
    by (simp add: pattern_to_regex.simps split: prod.split)
  have c: "c \<noteq> CHR ''[''" using 1(2) [unfolded Cons] by (auto simp: plain_pattern_def)
  have nq: "\<not> quant_start (pattern_to_regex q @ e)" if "plain_pattern q" for q using that assms(3) by (rule plain_start)
  note tl = plain_tl [OF 1(2) [unfolded Cons]]
  consider (one) "c = CHR ''?''" | (esc) "c = CHR 0x5C" | (star) "c = CHR ''*''" | (chr) "c \<noteq> CHR ''?''" "c \<noteq> CHR 0x5C" "c \<noteq> CHR ''*''"
    by blast
  then have "pm brk (pattern_to_regex (c # r) @ e) s \<longleftrightarrow> (\<exists>u v. s = u @ v \<and> tok_match (tokens (c # r)) u \<and> pm brk e v)"
  proof cases
    case one
    have "pm brk (''[^/]'' @ pattern_to_regex r @ e) s \<longleftrightarrow> s \<noteq> [] \<and> hd s \<noteq> CHR ''/'' \<and> pm brk (pattern_to_regex r @ e) (tl s)"
      by (rule pm_set [OF parse_not_slash [of brk, OF assms(1)] nq [OF tl]])
    then show ?thesis unfolding step using IHs [OF _ tl] one split_hd [of s "\<lambda>c. c \<noteq> CHR ''/''"] by (simp add: emit_one_def)
  next
    case chr
    then have "c \<notin> set ''*?[''" using c by simp
    from pm_char [OF this nq [OF tl], of brk s] show ?thesis unfolding step using IHs [OF _ tl] chr c split_hd [of s "\<lambda>x. x = c"]
      by (simp add: emit_one_def)
  next
    case esc
    show ?thesis
    proof (cases r)
      case Nil
      have "pm brk (emit_char c @ e) s \<longleftrightarrow> s \<noteq> [] \<and> hd s = c \<and> pm brk e (tl s)"
        using pm_char [of c e brk s] assms(3) esc by simp
      then show ?thesis unfolding step using esc Nil split_hd [of s "\<lambda>x. x = c" "\<lambda>u. u = []"] by (simp add: emit_one_def)
    next
      case r: (Cons d q)
      have "d \<notin> set ''*?[''" using 1(2) Cons r esc by (auto simp: plain_pattern_def escapes_wildcard_def)
      moreover have q: "plain_pattern q" using tl r plain_tl by blast
      ultimately have "pm brk (emit_char d @ pattern_to_regex q @ e) s \<longleftrightarrow> s \<noteq> [] \<and> hd s = d \<and> pm brk (pattern_to_regex q @ e) (tl s)"
        using pm_char nq by blast
      then show ?thesis unfolding step using IHs [OF _ q] esc r split_hd [of s "\<lambda>x. x = d"] by (simp add: emit_one_def)
    qed
  next
    case star
    define q where "q = snd (emit_star r)"
    have ts: "tokens (c # r) = (if fst (emit_star r) = ''.*'' then WDeep else WStar) # tokens q"
      using star by (auto simp: emit_star_def q_def split: list.splits)
    have "\<exists>x. r = x @ q" by (auto simp: emit_star_def q_def split: list.splits intro: exI [of _ "[_]"] exI [of _ "[_, _]"] exI [of _ "[]"])
    then have q: "plain_pattern q" using tl escapes_inner [of q _ "[]"] by (auto simp: plain_pattern_def)
    have IH: "pm brk (pattern_to_regex q @ e) s' \<longleftrightarrow> (\<exists>u v. s' = u @ v \<and> tok_match (tokens q) u \<and> pm brk e v)" for s'
      by (rule IHs [OF _ q]) (auto simp: emit_star_def q_def split: list.splits)
    have sp: "(\<exists>u v. s = u @ v \<and> P u \<and> (\<exists>u' v'. v = u' @ v' \<and> tok_match (tokens q) u' \<and> pm brk e v')) \<longleftrightarrow>
       (\<exists>u v. s = u @ v \<and> (\<exists>x y. u = x @ y \<and> P x \<and> tok_match (tokens q) y) \<and> pm brk e v)" for P
      by (metis append.assoc)
    have "fst (emit_star r) = ''.*'' \<or> fst (emit_star r) = ''[^/]*''" using emit_star_hd [of r] by auto
    then show ?thesis
    proof
      assume f: "fst (emit_star r) = ''.*''"
      have "pm brk (''.*'' @ pattern_to_regex q @ e) s \<longleftrightarrow> (\<exists>u v. s = u @ v \<and> one_line u \<and> pm brk (pattern_to_regex q @ e) v)"
        using pm_star [OF _ nq [OF q], of brk "''.*'' @ pattern_to_regex q @ e"] parse_any by (simp add: one_line_def)
      then show ?thesis unfolding step ts IH using star f sp [of one_line] by (simp add: emit_one_def q_def [symmetric])
    next
      assume f: "fst (emit_star r) = ''[^/]*''"
      have ns: "(\<forall>c\<in>set u. c \<noteq> CHR ''/'') \<longleftrightarrow> CHR ''/'' \<notin> set u" for u by blast
      have "pm brk (''[^/]*'' @ pattern_to_regex q @ e) s \<longleftrightarrow> (\<exists>u v. s = u @ v \<and> CHR ''/'' \<notin> set u \<and> pm brk (pattern_to_regex q @ e) v)"
        using pm_star [of brk "''[^/]*'' @ pattern_to_regex q @ e" "\<lambda>c. c \<noteq> CHR ''/''", OF _ nq [OF q], of s]
          parse_not_slash [of brk "CHR ''*'' # pattern_to_regex q @ e", OF assms(1)] ns by simp
      then show ?thesis unfolding step ts IH using star f sp [of "\<lambda>u. CHR ''/'' \<notin> set u"] by (simp add: emit_one_def q_def [symmetric])
    qed
  qed
  with Cons show ?thesis by simp
  qed
qed

text \<open>Below a match, or the match itself.\<close>

definition pattern_covers :: "string \<Rightarrow> string \<Rightarrow> string \<Rightarrow> bool \<Rightarrow> bool" where
  "pattern_covers p base rel d \<longleftrightarrow>
     (case strip_flags p of (neg, dir, body) \<Rightarrow>
        let rooted = (body \<noteq> [] \<and> hd body = CHR ''/''); b1 = (if rooted then tl body else body);
            anchored = (rooted \<or> CHR ''/'' \<in> set b1);
            at_base = (if normalize_base base = [] then [] else normalize_base base @ ''/'')
        in \<exists>above t. rel = at_base @ above @ t \<and>
             (above = [] \<or> \<not> anchored \<and> (\<exists>w. above = w @ ''/'' \<and> one_line w)) \<and>
             ((\<not> dir \<or> d) \<and> tok_match (tokens b1) t \<or>
              (\<exists>u v. t = u @ ''/'' @ v \<and> tok_match (tokens b1) u \<and> one_line v)))"

lemma pm_end: "pm brk ''$'' s \<longleftrightarrow> s = []"
proof -
  have "parse_atom brk ''$'' = Some (REps, [])" by (simp add: parse_atom_def)
  then show ?thesis using pm_atom [of brk "''$''" REps "[]" s]
    by (simp add: quant_start_def pm_def match_opt_def regex_match_lang parse_re.simps [of brk "[]"])
qed

lemma pm_under: "pm brk ''/.*$'' s \<longleftrightarrow> (\<exists>v. s = ''/'' @ v \<and> one_line v)"
proof -
  have "parse_atom brk ''/.*$'' = Some (lit (CHR ''/''), ''.*$'')"
    using parse_atom_literal [of "CHR ''/''" brk "''.*$''"] by (simp add: is_regex_meta_def)
  then have "pm brk ''/.*$'' s \<longleftrightarrow> s \<noteq> [] \<and> hd s = CHR ''/'' \<and> pm brk ''.*$'' (tl s)"
    using pm_set [of brk _ "\<lambda>x. x = CHR ''/''"] by (simp add: quant_start_def)
  moreover have "pm brk ''.*$'' v \<longleftrightarrow> one_line v" for v
    using pm_star [of brk "''.*$''" "\<lambda>c. c \<noteq> CHR 0x0A \<and> c \<noteq> CHR 0x0D" "''$''" v] parse_any [of brk "''*$''"]
    by (simp add: quant_start_def one_line_def pm_end)
  ultimately show ?thesis by (cases s) auto
qed

lemma pm_group:
  assumes "\<not> quant_start r"
  shows "pm brk (''(?:.*/)?'' @ r) s \<longleftrightarrow> (\<exists>above t. s = above @ t \<and> (above = [] \<or> (\<exists>w. above = w @ ''/'' \<and> one_line w)) \<and> pm brk r t)"
proof -
  let ?g = "RCat (RStar any_char) (lit (CHR ''/''))"
  have "parse_atom brk (''(?:.*/)?'' @ r) = Some (?g, CHR ''?'' # r)"
    by (simp add: parse_atom_def dir_group_def starts_with_def)
  moreover have "drop_lazy r = r" using assms by (cases r) (auto simp: quant_start_def)
  ultimately have "parse_re brk (''(?:.*/)?'' @ r) = map_option (RCat (RAlt ?g REps)) (parse_re brk r)"
    by (subst parse_re.simps) (simp add: parse_quants_none assms)
  moreover have "above \<in> lang (RAlt ?g REps) \<longleftrightarrow> above = [] \<or> (\<exists>w. above = w @ ''/'' \<and> one_line w)" for above
    using lang_star_set [of _ "\<lambda>c. c \<noteq> CHR 0x0A \<and> c \<noteq> CHR 0x0D"] by (auto simp: one_line_def)
  ultimately show ?thesis
    by (cases "parse_re brk r") (simp_all add: pm_def match_opt_def regex_match_lang del: lang.simps(5) lang.simps(6))
qed

lemma plain_inner: "plain_pattern (x @ q @ y) \<Longrightarrow> plain_pattern q"
  using escapes_inner by (auto simp: plain_pattern_def)


text \<open>A bracket interpreter good enough for the witnesses: one negated or plain list of characters.\<close>

definition simple_brackets :: "string \<Rightarrow> (char \<Rightarrow> bool) option" where
  "simple_brackets b = Some (\<lambda>x. if b \<noteq> [] \<and> hd b = CHR ''^'' then x \<notin> set (tl b) else x \<in> set b)"

lemma simple_brackets_slash: "simple_brackets ''^/'' = Some (\<lambda>c. c \<noteq> CHR ''/'')"
  by (simp add: simple_brackets_def)


definition demo_tree :: fnode where
  "demo_tree = Directory [(''w'', Directory [(''.gitignore'', Regular (''*.o'' @ [CHR 0x0A] @ ''build/'')),
     (''sub'', Directory [(''.gitignore'', Regular ''!keep.o'')])])]"


subsection \<open>Where the translation and gitignore part\<close>

lemma escaped_star_quantifies:
  "rule_matches (compile_pattern brk (''a'' @ [CHR 0x5C] @ ''*'') []) ''aaa'' False \<and>
   \<not> rule_matches (compile_pattern brk (''a'' @ [CHR 0x5C] @ ''*'') []) ''a*'' False"
  by code_simp

lemma escaped_star_leaves_directory:
  "rule_matches (compile_pattern brk (''/'' @ [CHR 0x5C] @ ''*x'') ''sub'') ''subx'' False"
  by code_simp

lemma double_star_matches_inside_names: "rule_matches (compile_pattern brk ''**/build'' []) ''mybuild'' True"
  by code_simp


end
