(* ===== verification/Fs_Text.thy ===== *)
theory Fs_Text
  imports Posix_Fs Json
begin

text \<open>
  The text work of the filesystem server (\<open>mcp/servers/filesystem.cpp\<close>): pages of results, windows of
  lines, brace expansion, replacing and inserting. A loop that may not end is a partial function, with
  \<^const>\<open>None\<close> for not returning. Proved: pages put together are the whole result, a window is a run of
  lines within its byte budget, replacing rewrites exactly the occurrences, and inserting adds whole lines.
\<close>

subsection \<open>Pages\<close>

record page =
  page_offset :: int
  page_limit :: int

record 'a paged =
  pg :: page
  seen :: int
  more_left :: bool
  pg_items :: "'a list"

definition new_paged :: "page \<Rightarrow> 'a paged" where
  "new_paged p = \<lparr>pg = p, seen = 0, more_left = False, pg_items = []\<rparr>"

text \<open>\<open>offer\<close>: the result, and whether the scan may go on.\<close>

definition offer :: "'a \<Rightarrow> 'a paged \<Rightarrow> 'a paged \<times> bool" where
  "offer x r =
     (if page_offset (pg r) > seen r then (r\<lparr>seen := seen r + 1\<rparr>, True)
      else if int (length (pg_items r)) \<ge> page_limit (pg r) then (r\<lparr>more_left := True\<rparr>, False)
      else (r\<lparr>pg_items := pg_items r @ [x]\<rparr>, True))"

text \<open>\<open>finish\<close>: the members it adds to the result object.\<close>

definition finish :: "string \<Rightarrow> bool \<Rightarrow> json paged \<Rightarrow> (string \<times> json) list" where
  "finish key walk_truncated r =
     (if more_left r then [(''next_offset'', JNum (page_offset (pg r) + int (length (pg_items r))))] else []) @
     [(key, JArray (pg_items r))] @
     (if more_left r then [(''reason'', JString ''limit'')] else if walk_truncated then [(''reason'', JString ''walk'')] else []) @
     [(''truncated'', JBool (more_left r \<or> walk_truncated))]"

text \<open>A scan that offers its items in order until it is told to stop.\<close>

fun offer_all :: "'a list \<Rightarrow> 'a paged \<Rightarrow> 'a paged" where
  "offer_all [] r = r"
| "offer_all (x # xs) r = (case offer x r of (r', go_on) \<Rightarrow> if go_on then offer_all xs r' else r')"

subsection \<open>Windows of lines\<close>

record read_window =
  win_offset :: int
  win_limit :: int
  win_budget :: int

record window_reader =
  win_lines :: "(int \<times> string) list"
  win_bytes :: int
  win_more :: bool
  win_err :: "(int \<times> int) option"

definition new_reader :: window_reader where
  "new_reader = \<lparr>win_lines = [], win_bytes = 0, win_more = False, win_err = None\<rparr>"

text \<open>\<open>take\<close>; the error names the line and its size.\<close>

definition take_line :: "read_window \<Rightarrow> int \<Rightarrow> string \<Rightarrow> window_reader \<Rightarrow> window_reader" where
  "take_line w n line r =
     (let size = int (length line) + 1;
          full = (win_limit w > 0 \<and> int (length (win_lines r)) \<ge> win_limit w) \<or>
                 (win_budget w > 0 \<and> win_bytes r + size > win_budget w)
      in if win_offset w > n \<or> win_more r then r
         else if full \<and> win_lines r = [] then r\<lparr>win_err := Some (n, size)\<rparr>
         else if full then r\<lparr>win_more := True\<rparr>
         else r\<lparr>win_lines := win_lines r @ [(n, line)], win_bytes := win_bytes r + size\<rparr>)"

text \<open>The loop of \<open>read_numbered_lines\<close>: it ends early on an error. The count is of the lines read.\<close>

fun read_lines :: "read_window \<Rightarrow> string list \<Rightarrow> int \<Rightarrow> window_reader \<Rightarrow> int \<times> window_reader" where
  "read_lines w [] n r = (n, r)"
| "read_lines w (l # ls) n r = (if win_err r \<noteq> None then (n, r) else read_lines w ls (n + 1) (take_line w (n + 1) l r))"

subsection \<open>Brace expansion\<close>

fun split_brace_alternatives :: "string \<Rightarrow> string \<Rightarrow> string list" where
  "split_brace_alternatives [] current = [current]"
| "split_brace_alternatives (c # cs) current =
     (if c = CHR '','' then current # split_brace_alternatives cs [] else split_brace_alternatives cs (current @ [c]))"

definition multiply_alternatives :: "string list \<Rightarrow> string list \<Rightarrow> string list" where
  "multiply_alternatives bases alts = concat (map (\<lambda>b. map (\<lambda>a. b @ a) alts) bases)"

function expand_braces :: "string \<Rightarrow> string list \<Rightarrow> string list" where
  "expand_braces [] out = out"
| "expand_braces (c # r) out =
     (case (if c = CHR ''{'' then find_char (CHR ''}'') r else None) of
        None \<Rightarrow> expand_braces r (map (\<lambda>s. s @ [c]) out)
      | Some n \<Rightarrow> expand_braces (drop (Suc n) r) (multiply_alternatives out (split_brace_alternatives (take n r) [])))"
  by pat_completeness auto
termination
  by (relation "measure (length \<circ> fst)") auto

subsection \<open>Replacing\<close>

partial_function (option) count_from :: "string \<Rightarrow> string \<Rightarrow> nat \<Rightarrow> nat option" where
  "count_from needle rest n =
     (case find_str needle rest of
        None \<Rightarrow> Some n
      | Some i \<Rightarrow> count_from needle (drop (i + length needle) rest) (Suc n))"

definition count_occurrences :: "string \<Rightarrow> string \<Rightarrow> nat option" where
  "count_occurrences s needle = count_from needle s 0"

partial_function (option) replace_from :: "string \<Rightarrow> string \<Rightarrow> string \<Rightarrow> string \<Rightarrow> string option" where
  "replace_from old_str new_str done rest =
     (case find_str old_str rest of
        None \<Rightarrow> Some (done @ rest)
      | Some i \<Rightarrow> replace_from old_str new_str (done @ take i rest @ new_str) (drop (i + length old_str) rest))"

definition replace_once :: "string \<Rightarrow> string \<Rightarrow> string \<Rightarrow> string" where
  "replace_once old_str new_str s =
     (case find_str old_str s of None \<Rightarrow> s | Some i \<Rightarrow> take i s @ new_str @ drop (i + length old_str) s)"

text \<open>The outer option is whether the call returns, the sum the error type or the new text.\<close>

definition apply_str_replace :: "string \<Rightarrow> string \<Rightarrow> string \<Rightarrow> bool \<Rightarrow> (string + string) option" where
  "apply_str_replace s old_str new_str replace_all =
     (case count_occurrences s old_str of
        None \<Rightarrow> None
      | Some n \<Rightarrow>
          if n = 0 then Some (Inl ''no_match'')
          else if \<not> replace_all \<and> n > 1 then Some (Inl ''multiple_matches'')
          else if replace_all then map_option Inr (replace_from old_str new_str [] s)
          else Some (Inr (replace_once old_str new_str s)))"

subsection \<open>Inserting\<close>

definition newline :: char where
  "newline = CHR 0x0A"

definition count_lines :: "string \<Rightarrow> int" where
  "count_lines s =
     (let n = int (length (filter (\<lambda>c. c = newline) s)) in if s \<noteq> [] \<and> last s \<noteq> newline then n + 1 else n)"

text \<open>The position after the given number of lines.\<close>

fun line_pos :: "nat \<Rightarrow> string \<Rightarrow> nat \<Rightarrow> nat" where
  "line_pos 0 s pos = pos"
| "line_pos (Suc k) s pos =
     line_pos k s (case find_char newline (drop pos s) of None \<Rightarrow> length s | Some i \<Rightarrow> pos + i + 1)"

definition apply_insert :: "string \<Rightarrow> int \<Rightarrow> string \<Rightarrow> string" where
  "apply_insert s after new_str =
     (let pos = line_pos (nat after) s 0;
          unterminated = (pos = length s \<and> s \<noteq> [] \<and> last s \<noteq> newline);
          new_text = (if unterminated then newline # new_str
                  else if new_str = [] \<or> last new_str \<noteq> newline then new_str @ [newline] else new_str)
      in take pos s @ new_text @ drop pos s)"

subsection \<open>Lemmas: pages\<close>

lemma offer_all_spec:
  assumes "0 \<le> page_offset (pg r)" "0 \<le> seen r" "seen r \<le> page_offset (pg r)" "int (length (pg_items r)) \<le> page_limit (pg r)"
    and "\<not> more_left r" "seen r < page_offset (pg r) \<longrightarrow> pg_items r = []"
  shows "pg_items (offer_all xs r) = pg_items r @ take (nat (page_limit (pg r)) - length (pg_items r)) (drop (nat (page_offset (pg r) - seen r)) xs) \<and>
    more_left (offer_all xs r) = (length xs > nat (page_offset (pg r) - seen r) + (nat (page_limit (pg r)) - length (pg_items r))) \<and>
    pg (offer_all xs r) = pg r"
  using assms
proof (induction xs arbitrary: r)
  case (Cons x xs)
  consider (skip) "page_offset (pg r) > seen r" | (full) "page_offset (pg r) \<le> seen r" "int (length (pg_items r)) \<ge> page_limit (pg r)"
    | (take) "page_offset (pg r) \<le> seen r" "int (length (pg_items r)) < page_limit (pg r)" by linarith
  then show ?case
  proof cases
    case skip
    then have "nat (page_offset (pg r) - seen r) = Suc (nat (page_offset (pg r) - (seen r + 1)))" by linarith
    then show ?thesis using Cons.IH [of "r\<lparr>seen := seen r + 1\<rparr>"] Cons.prems skip by (simp add: offer_def)
  next
    case full
    then show ?thesis using Cons.prems by (simp add: offer_def)
  next
    case take
    then have "nat (page_limit (pg r)) - length (pg_items r) = Suc (nat (page_limit (pg r)) - Suc (length (pg_items r)))" by linarith
    then show ?thesis using Cons.IH [of "r\<lparr>pg_items := pg_items r @ [x]\<rparr>"] Cons.prems take by (simp add: offer_def)
  qed
qed simp

lemma page_of:
  assumes "0 \<le> off" "1 \<le> lm"
  shows "pg_items (offer_all xs (new_paged \<lparr>page_offset = off, page_limit = lm\<rparr>)) = take (nat lm) (drop (nat off) xs)"
    and "more_left (offer_all xs (new_paged \<lparr>page_offset = off, page_limit = lm\<rparr>)) = (length xs > nat off + nat lm)"
  using offer_all_spec [of "new_paged \<lparr>page_offset = off, page_limit = lm\<rparr>" xs] assms by (simp_all add: new_paged_def)

text \<open>Following \<open>next_offset\<close> from page to page, as long as there is one.\<close>

fun follow_pages :: "nat \<Rightarrow> 'a list \<Rightarrow> int \<Rightarrow> int \<Rightarrow> 'a list" where
  "follow_pages 0 xs off lm = []"
| "follow_pages (Suc k) xs off lm =
     (let r = offer_all xs (new_paged \<lparr>page_offset = off, page_limit = lm\<rparr>)
      in pg_items r @ (if more_left r then follow_pages k xs (off + int (length (pg_items r))) lm else []))"

lemma follow_pages_from:
  "0 \<le> off \<Longrightarrow> 1 \<le> lm \<Longrightarrow> length xs - nat off < k \<Longrightarrow> follow_pages k xs off lm = drop (nat off) xs"
proof (induction k arbitrary: off)
  case (Suc k)
  note p = page_of [OF Suc.prems(1,2), of xs]
  show ?case
  proof (cases "length xs > nat off + nat lm")
    case True
    then have len: "length (pg_items (offer_all xs (new_paged \<lparr>page_offset = off, page_limit = lm\<rparr>))) = nat lm" by (simp add: p)
    have "follow_pages k xs (off + lm) lm = drop (nat off + nat lm) xs"
      using Suc.IH [of "off + lm"] Suc.prems True by (simp add: nat_add_distrib)
    then show ?thesis using True len Suc.prems append_take_drop_id [of "nat lm" "drop (nat off) xs"]
      by (simp add: p Let_def add.commute [of "nat lm"])
  next
    case False
    then show ?thesis by (simp add: p Let_def)
  qed
qed simp

text \<open>
  No result is lost between pages: following \<open>next_offset\<close> from page to page gives every result
  once and in order, whatever the page size, and after at most as many pages as there are results.
\<close>

lemma pages_cover:
  assumes "1 \<le> lm"
  shows "follow_pages (Suc (length xs)) xs 0 lm = xs"
  using follow_pages_from [of 0 lm xs "Suc (length xs)"] assms by simp

lemma pages_cover_witness: "follow_pages 6 [1, 2, 3, 4, 5 :: nat] 0 2 = [1, 2, 3, 4, 5]"
  using pages_cover [of 2 "[1, 2, 3, 4, 5 :: nat]"] by (simp add: numeral_eq_Suc)

subsection \<open>Lemmas: replacing\<close>

fun joined :: "string \<Rightarrow> string list \<Rightarrow> string" where
  "joined sep [] = []"
| "joined sep [p] = p"
| "joined sep (p # q # ps) = p @ sep @ joined sep (q # ps)"

lemma occurrences_split:
  assumes "old_str \<noteq> []"
  shows "\<exists>parts. parts \<noteq> [] \<and> s = joined old_str parts \<and> (\<forall>p\<in>set parts. \<not> sublist old_str p) \<and>
    (\<forall>k. count_from old_str s k = Some (k + (length parts - 1))) \<and>
    (\<forall>done new_str. replace_from old_str new_str done s = Some (done @ joined new_str parts))"
proof (induction s rule: length_induct)
  case (1 s)
  show ?case
  proof (cases "find_str old_str s")
    case None
    then have "count_from old_str s k = Some k" "replace_from old_str new_str done s = Some (done @ s)" for k new_str "done"
      by (simp_all add: count_from.simps [of old_str s] replace_from.simps [of old_str new_str "done" s])
    then show ?thesis using find_str_None [OF None] by (intro exI [of _ "[s]"]) simp
  next
    case (Some i)
    let ?t = "drop (i + length old_str) s"
    have s: "s = take i s @ old_str @ ?t" by (rule find_str_Some [OF Some])
    then have "length ?t < length s" using assms by (metis append_assoc length_append length_greater_0_conv less_add_same_cancel2 add.commute trans_less_add2)
    with 1 obtain parts where ps: "parts \<noteq> []" "?t = joined old_str parts" "\<forall>p\<in>set parts. \<not> sublist old_str p"
      "\<And>k. count_from old_str ?t k = Some (k + (length parts - 1))"
      "\<And>done new_str. replace_from old_str new_str done ?t = Some (done @ joined new_str parts)" by metis
    have "joined sep (take i s # parts) = take i s @ sep @ joined sep parts" for sep using ps(1) by (cases parts) simp_all
    moreover have "count_from old_str s k = Some (k + length parts)" for k
      using ps(1,4) Some by (subst count_from.simps) (cases parts; simp)
    moreover have "replace_from old_str new_str done s = Some (done @ take i s @ new_str @ joined new_str parts)" for "done" new_str
      using ps(5) Some by (subst replace_from.simps) simp
    ultimately show ?thesis using s ps find_str_first [OF Some assms] by (intro exI [of _ "take i s # parts"]) auto
  qed
qed

text \<open>
  Replacing text rewrites exactly the occurrences. For a non-empty search text the call returns; the text
  falls into the pieces between its occurrences, none of which contains one; replacing all of
  them joins the pieces with the new text, a single replacement is done only when there is exactly
  one, and otherwise the text is left alone with the right error.
\<close>

lemma str_replace_correct:
  assumes "old_str \<noteq> []"
  shows "\<exists>parts. parts \<noteq> [] \<and> s = joined old_str parts \<and> (\<forall>p\<in>set parts. \<not> sublist old_str p) \<and>
    apply_str_replace s old_str new_str replace_all =
      Some (if length parts = 1 then Inl ''no_match''
            else if \<not> replace_all \<and> length parts > 2 then Inl ''multiple_matches''
            else Inr (joined new_str parts))"
proof -
  obtain parts where ps: "parts \<noteq> []" "s = joined old_str parts" "\<forall>p\<in>set parts. \<not> sublist old_str p"
    "count_from old_str s 0 = Some (length parts - 1)"
    "\<And>done. replace_from old_str new_str done s = Some (done @ joined new_str parts)"
    using occurrences_split [OF assms, of s] by auto
  have once: "replace_once old_str new_str s = joined new_str parts" if "length parts = 2"
  proof -
    from ps(4) that have "find_str old_str s \<noteq> None" by (cases "find_str old_str s") (auto simp: count_from.simps [of old_str s])
    then obtain i where i: "find_str old_str s = Some i" by blast
    have c: "count_from old_str (drop (i + length old_str) s) 1 = Some 1"
      using ps(4) i that by (simp add: count_from.simps [of old_str s])
    obtain qs where "drop (i + length old_str) s = joined old_str qs" "qs \<noteq> []"
      "count_from old_str (drop (i + length old_str) s) 1 = Some (1 + (length qs - 1))"
      "\<And>done. replace_from old_str new_str done (drop (i + length old_str) s) = Some (done @ joined new_str qs)"
      using occurrences_split [OF assms, of "drop (i + length old_str) s"] by auto
    moreover from this c have "length qs = 1" by (cases qs) auto
    ultimately have "replace_from old_str new_str done (drop (i + length old_str) s) = Some (done @ drop (i + length old_str) s)" for "done"
      by (cases qs) auto
    then show ?thesis using ps(5) [of "[]"] i by (simp add: replace_from.simps [of _ _ _ s] replace_once_def)
  qed
  obtain n where "length parts = Suc n" using ps(1) by (cases parts) auto
  then show ?thesis using ps once by (intro exI [of _ parts]) (auto simp: apply_str_replace_def count_occurrences_def numeral_eq_Suc)
qed

lemma str_replace_correct_witness:
  "apply_str_replace ''abcabc'' ''b'' ''X'' True = Some (Inr ''aXcaXc'') \<and> (\<exists>parts. ''abcabc'' = joined ''b'' parts)"
proof -
  have "find_str ''b'' ''abcabc'' = Some 1" "find_str ''b'' ''cabc'' = Some 2" "find_str ''b'' ''c'' = None" by code_simp+
  then have "apply_str_replace ''abcabc'' ''b'' ''X'' True = Some (Inr ''aXcaXc'')"
    by (simp add: apply_str_replace_def count_occurrences_def count_from.simps replace_from.simps)
  then show ?thesis using str_replace_correct [of "''b''" "''abcabc''" "''X''" True] by blast
qed

text \<open>Searching for nothing never returns.\<close>

lemma find_str_empty: "find_str [] s = Some 0"
  by (cases s) (simp_all add: starts_with_def)

lemma count_from_needle: "count_from needle rest n = Some m \<Longrightarrow> needle \<noteq> []"
proof (rule count_from.raw_induct [where P = "\<lambda>needle rest n m. needle \<noteq> []"])
  fix f :: "string \<Rightarrow> string \<Rightarrow> nat \<Rightarrow> nat option" and needle rest n m
  assume "\<And>needle rest n m. f needle rest n = Some m \<Longrightarrow> needle \<noteq> []"
    "(case find_str needle rest of None \<Rightarrow> Some n | Some i \<Rightarrow> f needle (drop (i + length needle) rest) (Suc n)) = Some m"
  then show "needle \<noteq> []" by (cases "needle = []") (auto simp: find_str_empty)
qed

lemma empty_search_never_returns: "apply_str_replace s [] new_str replace_all = None"
  using count_from_needle [of "[]" s 0] by (cases "count_from [] s 0") (auto simp: apply_str_replace_def count_occurrences_def)

subsection \<open>Lemmas: inserting\<close>

lemma getlines_nonempty [simp]: "getlines s = [] \<longleftrightarrow> s = []"
  by (cases s) (auto split: list.split)

lemma getlines_append_newline: "getlines (a @ newline # b) = getlines (a @ [newline]) @ getlines b"
proof (induction a)
  case (Cons c a)
  then show ?case by (auto simp: newline_def split: list.splits)
qed (simp add: newline_def)

lemma getlines_terminated: "a \<noteq> [] \<Longrightarrow> last a = newline \<Longrightarrow> getlines (a @ b) = getlines a @ getlines b"
  using getlines_append_newline [of "butlast a" b] by (metis append_Cons append_Nil append_assoc append_butlast_last_id)

lemma getlines_unterminated: "a \<noteq> [] \<Longrightarrow> last a \<noteq> newline \<Longrightarrow> getlines (a @ [newline]) = getlines a"
proof (induction a)
  case (Cons c a)
  then show ?case by (cases a) (auto simp: newline_def split: list.splits)
qed simp

lemma count_lines_length: "count_lines s = int (length (getlines s))"
proof (induction s)
  case (Cons c s)
  then show ?case by (cases s) (auto simp: count_lines_def newline_def Let_def split: list.splits if_splits)
qed (simp add: count_lines_def)

lemma getlines_newline_first: "getlines (take (Suc i) s) = [take i s] \<and> getlines s = take i s # getlines (drop (Suc i) s)"
  if "find_char newline s = Some i"
  using that
proof (induction s arbitrary: i)
  case (Cons c s)
  show ?case
  proof (cases "c = newline")
    case True
    then show ?thesis using Cons.prems by (simp add: newline_def)
  next
    case False
    then obtain j where "i = Suc j" "find_char newline s = Some j" using Cons.prems by auto
    then show ?thesis using Cons.IH [of j] False by (simp add: newline_def)
  qed
qed simp

text \<open>The position of a line splits the lines there.\<close>

lemma line_pos_shift: "pos \<le> length s \<Longrightarrow> line_pos k s pos = pos + line_pos k (drop pos s) 0"
proof (induction k arbitrary: pos s)
  case (Suc k)
  show ?case
  proof (cases "find_char newline (drop pos s)")
    case None
    have "line_pos k s (length s) = length s + line_pos k [] 0" using Suc.IH [of "length s" s] by simp
    moreover have "line_pos k (drop pos s) (length (drop pos s)) = length (drop pos s) + line_pos k [] 0"
      using Suc.IH [of "length (drop pos s)" "drop pos s"] by simp
    ultimately show ?thesis using None Suc.prems by simp
  next
    case (Some i)
    then have i: "i < length (drop pos s)" using find_char_Some by blast
    have "line_pos k s (pos + i + 1) = (pos + i + 1) + line_pos k (drop (pos + i + 1) s) 0" using Suc.IH [of "pos + i + 1" s] i by simp
    moreover have "line_pos k (drop pos s) (i + 1) = (i + 1) + line_pos k (drop (i + 1) (drop pos s)) 0"
      using Suc.IH [of "i + 1" "drop pos s"] i by simp
    ultimately show ?thesis using Some by (simp add: add.commute add.left_commute)
  qed
qed simp

lemma getlines_one: "newline \<notin> set s \<Longrightarrow> s \<noteq> [] \<Longrightarrow> getlines s = [s]"
proof (induction s)
  case (Cons c s)
  then show ?case by (cases "s = []") (auto simp: newline_def)
qed simp

lemma line_pos_splits:
  "k \<le> length (getlines s) \<Longrightarrow>
     getlines (take (line_pos k s 0) s) = take k (getlines s) \<and> getlines (drop (line_pos k s 0) s) = drop k (getlines s) \<and>
     line_pos k s 0 \<le> length s \<and> (line_pos k s 0 = 0 \<or> line_pos k s 0 = length s \<or> last (take (line_pos k s 0) s) = newline)"
proof (induction k arbitrary: s)
  case (Suc k)
  show ?case
  proof (cases "find_char newline s")
    case None
    then have nl: "newline \<notin> set s" by (simp add: find_char_None)
    have s: "s \<noteq> []" using Suc.prems by auto
    then have "k = 0" using Suc.prems getlines_one [OF nl] by simp
    then show ?thesis using None getlines_one [OF nl s] by simp
  next
    case (Some i)
    then have i: "i < length s" "s ! i = newline" using find_char_Some by blast+
    let ?r = "drop (Suc i) s" and ?q = "line_pos k (drop (Suc i) s) 0"
    note g = getlines_newline_first [OF Some]
    have pos: "line_pos (Suc k) s 0 = Suc i + ?q" using Some i line_pos_shift [of "Suc i" s k] by simp
    have IH: "getlines (take ?q ?r) = take k (getlines ?r)" "getlines (drop ?q ?r) = drop k (getlines ?r)" "?q \<le> length ?r"
      "?q = 0 \<or> ?q = length ?r \<or> last (take ?q ?r) = newline" using Suc.IH [of ?r] Suc.prems g by (simp_all del: length_drop drop_drop)
    have hd: "take (Suc i) s = take i s @ [newline]" using i by (simp add: take_Suc_conv_app_nth)
    have "take (Suc i + ?q) s = take (Suc i) s @ take ?q ?r" by (rule take_add)
    then have t: "take (Suc i + ?q) s = (take i s @ [newline]) @ take ?q ?r" by (simp only: hd)
    have "getlines (take (Suc i + ?q) s) = getlines (take i s @ [newline]) @ getlines (take ?q ?r)"
      unfolding t by (rule getlines_terminated) simp_all
    moreover have "getlines (take i s @ [newline]) = [take i s]" using g hd by simp
    moreover have "last (take (Suc i + ?q) s) = newline \<or> Suc i + ?q = length s"
      using IH(3,4) i unfolding t by (auto simp: last_append)
    ultimately show ?thesis using IH(1-3) g i unfolding pos by (auto simp: add.commute)
  qed
qed simp

text \<open>
  An insertion adds whole lines and changes no other: inserting text after a line of a file gives the lines
  before it, the lines of the new text and the lines after it, also at the end of a file whose last line is
  not terminated.
\<close>

lemma insert_adds_lines:
  assumes "0 \<le> after" "after \<le> count_lines s" "new_str \<noteq> []"
  shows "getlines (apply_insert s after new_str) = take (nat after) (getlines s) @ getlines new_str @ drop (nat after) (getlines s)"
proof -
  define p where "p = line_pos (nat after) s 0"
  have k: "nat after \<le> length (getlines s)" using assms(2) by (simp add: count_lines_length)
  note sp = line_pos_splits [OF k, folded p_def]
  show ?thesis
  proof (cases "p = length s \<and> s \<noteq> [] \<and> last s \<noteq> newline")
    case True
    then have "apply_insert s after new_str = s @ newline # new_str" by (simp add: apply_insert_def p_def [symmetric])
    moreover have "take (nat after) (getlines s) = getlines s" "drop (nat after) (getlines s) = []" using sp True by auto
    ultimately show ?thesis using getlines_append_newline [of s new_str] getlines_unterminated [of s] True by simp
  next
    case False
    define t where "t = (if last new_str \<noteq> newline then new_str @ [newline] else new_str)"
    have e: "apply_insert s after new_str = take p s @ t @ drop p s"
      unfolding apply_insert_def Let_def p_def [symmetric] t_def using False assms(3) by (simp only: if_False) simp
    have t: "t \<noteq> []" "last t = newline" "getlines t = getlines new_str"
      using assms(3) getlines_unterminated [of new_str] by (auto simp: t_def)
    have "getlines (take p s @ t @ drop p s) = getlines (take p s) @ getlines (t @ drop p s)"
    proof (cases "take p s = []")
      case False
      then have "last (take p s) = newline" using sp \<open>\<not> (p = length s \<and> s \<noteq> [] \<and> last s \<noteq> newline)\<close> by auto
      with False show ?thesis by (rule getlines_terminated)
    qed auto
    then show ?thesis unfolding e using sp t getlines_terminated [OF t(1,2)] by simp
  qed
qed

lemma insert_adds_lines_witness:
  "getlines (apply_insert (''a'' @ [newline] @ ''b'') 1 ''x'') = [''a'', ''x'', ''b'']"
proof -
  have "1 \<le> count_lines (''a'' @ [newline] @ ''b'')" "getlines (''a'' @ [newline] @ ''b'') = [''a'', ''b'']" "getlines ''x'' = [''x'']"
    by (simp_all add: count_lines_def newline_def)
  then show ?thesis using insert_adds_lines [of 1 "''a'' @ [newline] @ ''b''" "''x''"] by simp
qed

subsection \<open>Lemmas: windows\<close>

definition numbered :: "int \<Rightarrow> string list \<Rightarrow> (int \<times> string) list" where
  "numbered n ls = zip [n..n + int (length ls) - 1] ls"

lemma numbered_snoc: "numbered n (ls @ [l]) = numbered n ls @ [(n + int (length ls), l)]"
  by (simp add: numbered_def upto_rec2)

definition bytes_of :: "string list \<Rightarrow> int" where
  "bytes_of ls = sum_list (map (\<lambda>l. int (length l) + 1) ls)"

text \<open>The lines read so far are a run that starts at the offset, within its limits, and ends only when it must.\<close>

definition window_ok :: "read_window \<Rightarrow> string list \<Rightarrow> window_reader \<Rightarrow> bool" where
  "window_ok w ls r \<longleftrightarrow>
     (\<exists>m. m \<le> length (drop (nat (win_offset w - 1)) ls) \<and>
        (let got = take m (drop (nat (win_offset w - 1)) ls) in
         win_lines r = numbered (win_offset w) got \<and> win_bytes r = bytes_of got \<and>
         (win_budget w > 0 \<longrightarrow> bytes_of got \<le> win_budget w) \<and> (win_limit w > 0 \<longrightarrow> int m \<le> win_limit w) \<and>
         (if win_err r \<noteq> None
          then m = 0 \<and> \<not> win_more r \<and> win_budget w > 0 \<and> nat (win_offset w - 1) < length ls \<and>
            int (length (ls ! nat (win_offset w - 1))) + 1 > win_budget w
          else win_more r \<longleftrightarrow> m < length (drop (nat (win_offset w - 1)) ls)) \<and>
         (win_more r \<longrightarrow> 0 < m)))"

lemma window_ok_step:
  assumes "1 \<le> win_offset w" "window_ok w ls r" "win_err r = None"
  shows "window_ok w (ls @ [l]) (take_line w (int (length ls) + 1) l r)"
proof -
  let ?o = "nat (win_offset w - 1)"
  obtain m where m: "m \<le> length (drop ?o ls)" "win_lines r = numbered (win_offset w) (take m (drop ?o ls))"
    "win_bytes r = bytes_of (take m (drop ?o ls))" "win_budget w > 0 \<longrightarrow> bytes_of (take m (drop ?o ls)) \<le> win_budget w"
    "win_limit w > 0 \<longrightarrow> int m \<le> win_limit w" "win_more r \<longleftrightarrow> m < length (drop ?o ls)" "win_more r \<longrightarrow> 0 < m"
    using assms(2,3) unfolding window_ok_def Let_def by auto
  consider (before) "win_offset w > int (length ls) + 1" | (after) "\<not> win_offset w > int (length ls) + 1" "win_more r"
    | (here) "\<not> win_offset w > int (length ls) + 1" "\<not> win_more r" by blast
  then show ?thesis
  proof cases
    case before
    then have "?o > length ls" by linarith
    then have "drop ?o (ls @ [l]) = []" "drop ?o ls = []" by simp_all
    then show ?thesis using m before assms(3) by (auto simp: window_ok_def take_line_def Let_def)
  next
    case after
    then have o: "?o \<le> length ls" by linarith
    have "take_line w (int (length ls) + 1) l r = r" using after by (simp add: take_line_def Let_def)
    then show ?thesis using m after assms(3) o unfolding window_ok_def Let_def
      by (intro exI [of _ m]) (auto simp: take_append)
  next
    case here
    then have o: "?o \<le> length ls" by linarith
    have full: "m = length (drop ?o ls)" using m(1,6) here by simp
    then have got: "take m (drop ?o ls) = drop ?o ls" by simp
    have num: "numbered (win_offset w) (drop ?o ls @ [l]) = numbered (win_offset w) (drop ?o ls) @ [(int (length ls) + 1, l)]"
      using o assms(1) by (simp add: numbered_snoc of_nat_diff)
    have len: "length (win_lines r) = m" using m(2) full by (simp add: numbered_def)
    then have empty: "win_lines r = [] \<longleftrightarrow> m = 0" by auto
    define D where "D = drop ?o ls"
    have D: "drop ?o (ls @ [l]) = D @ [l]" using o by (simp add: D_def)
    note mD = m [folded D_def] full [folded D_def] got [folded D_def] num [folded D_def]
    define stop where "stop \<longleftrightarrow> (win_limit w > 0 \<and> int (length (win_lines r)) \<ge> win_limit w) \<or>
                 (win_budget w > 0 \<and> win_bytes r + (int (length l) + 1) > win_budget w)"
    have t: "take_line w (int (length ls) + 1) l r =
       (if stop \<and> win_lines r = [] then r\<lparr>win_err := Some (int (length ls) + 1, int (length l) + 1)\<rparr>
        else if stop then r\<lparr>win_more := True\<rparr>
        else r\<lparr>win_lines := win_lines r @ [(int (length ls) + 1, l)], win_bytes := win_bytes r + (int (length l) + 1)\<rparr>)"
      using here unfolding take_line_def Let_def stop_def by simp
    show ?thesis
    proof (cases stop)
      case True
      have "m = 0 \<Longrightarrow> ?o = length ls" using full o by simp
      then show ?thesis using True mD len here assms(3) o unfolding t empty window_ok_def Let_def D
        by (intro exI [of _ m]) (auto simp: stop_def bytes_of_def)
    next
      case False
      then show ?thesis using mD len here assms(3) unfolding t empty window_ok_def Let_def D
        by (intro exI [of _ "Suc m"]) (auto simp: bytes_of_def stop_def)
    qed
  qed
qed

lemma read_lines_ok:
  assumes "1 \<le> win_offset w" "window_ok w done r" "win_err r = None" "read_lines w ls (int (length done)) r = (n, r')"
  shows "\<exists>k. k \<le> length (done @ ls) \<and> n = int k \<and> window_ok w (take k (done @ ls)) r' \<and> (win_err r' = None \<longrightarrow> k = length (done @ ls))"
  using assms(2-4)
proof (induction ls arbitrary: "done" r)
  case (Cons l ls)
  let ?r = "take_line w (int (length done) + 1) l r"
  have ok: "window_ok w (done @ [l]) ?r" using assms(1) Cons.prems(1,2) by (rule window_ok_step)
  have rest: "read_lines w ls (int (length (done @ [l]))) ?r = (n, r')" using Cons.prems(2,3) by (simp add: add.commute)
  show ?case
  proof (cases "win_err ?r = None")
    case True
    then show ?thesis using Cons.IH [OF ok True rest] by simp
  next
    case False
    then have "n = int (length (done @ [l]))" "r' = ?r" using rest by (cases ls; simp)+
    then show ?thesis using ok False by (intro exI [of _ "length (done @ [l])"]) auto
  qed
qed auto

text \<open>
  A window of a file is a run of its lines: the reader returns consecutive lines from the offset, numbered as in the file,
  within the line limit and the byte budget; it says that there is more exactly when lines are left, and it
  reports an error only when the first line alone is larger than the whole budget.
\<close>

lemma window_is_a_run_of_lines:
  assumes "1 \<le> win_offset w" "read_lines w ls 0 new_reader = (n, r)"
  shows "window_ok w (take (nat n) ls) r \<and> (win_err r = None \<longrightarrow> n = int (length ls))"
proof -
  have "window_ok w [] new_reader" by (simp add: window_ok_def new_reader_def numbered_def bytes_of_def)
  moreover have "win_err new_reader = None" by (simp add: new_reader_def)
  ultimately show ?thesis using read_lines_ok [OF assms(1), of "[]" new_reader ls n r] assms(2) by auto
qed

lemma window_is_a_run_of_lines_witness:
  "win_lines (snd (read_lines \<lparr>win_offset = 2, win_limit = 2, win_budget = 100\<rparr> [''a'', ''b'', ''c'', ''d''] 0 new_reader)) =
     [(2, ''b''), (3, ''c'')] \<and>
   window_ok \<lparr>win_offset = 2, win_limit = 2, win_budget = 100\<rparr> [''a'', ''b'', ''c'', ''d'']
     (snd (read_lines \<lparr>win_offset = 2, win_limit = 2, win_budget = 100\<rparr> [''a'', ''b'', ''c'', ''d''] 0 new_reader))"
proof -
  define r where "r = \<lparr>win_lines = [(2 :: int, ''b''), (3, ''c'')], win_bytes = 4, win_more = True, win_err = None\<rparr>"
  have e: "read_lines \<lparr>win_offset = 2, win_limit = 2, win_budget = 100\<rparr> [''a'', ''b'', ''c'', ''d''] 0 new_reader = (4, r)"
    by (simp add: take_line_def new_reader_def r_def)
  have "window_ok \<lparr>win_offset = 2, win_limit = 2, win_budget = 100\<rparr> (take (nat 4) [''a'', ''b'', ''c'', ''d'']) r"
    using window_is_a_run_of_lines [OF _ e] by simp
  moreover have "take (nat 4) [''a'', ''b'', ''c'', ''d''] = [''a'', ''b'', ''c'', ''d'']" by simp
  ultimately show ?thesis unfolding e snd_conv by (simp only:) (simp add: r_def)
qed

subsection \<open>Lemmas: brace expansion\<close>

lemma split_brace_nonempty: "split_brace_alternatives b cur \<noteq> []"
  by (induction b cur rule: split_brace_alternatives.induct) auto

lemma split_brace_joined: "joined '','' (split_brace_alternatives b cur) = cur @ b"
proof (induction b cur rule: split_brace_alternatives.induct)
  case (2 c cs cur)
  have "joined '','' (cur # ps) = cur @ '','' @ joined '','' ps" if "ps \<noteq> []" for ps using that by (cases ps) simp_all
  then show ?case using 2 split_brace_nonempty [of cs "[]"] by auto
qed simp

end
