(* ===== verification/Fs_Server.thy ===== *)
theory Fs_Server
  imports Ignore_Matcher Fs_Text Mcp_Servers
begin

text \<open>
  The filesystem server (\<open>mcp/servers/filesystem.cpp\<close>): the policy that decides which paths a tool may
  touch, the record of what each session has read, and the six tools over a file system tree.

  Parameters are the JSON library's parser and printer (the printer throws on invalid UTF-8), the regular
  expressions of the glob and grep tools, the hash of what was read, the text of a library exception and the session
  of the calling thread. A tool that throws gives \<open>Throw\<close>, one that answers with a structured error \<open>Err\<close>.
  Proved: with outside access refused and no links below the root, tools write below the root only and
  \<open>read_file\<close> gives out regular files below the root that no ignore rule excludes; an existing file is overwritten only
  by a session that has read it. With links below the root the policy can be passed, which the last lemmas show.
\<close>

subsection \<open>Outcomes\<close>

datatype 'a outcome = Throw string | Err string | Ok 'a

definition bind_outcome :: "'a outcome \<Rightarrow> ('a \<Rightarrow> 'b outcome) \<Rightarrow> 'b outcome" where
  "bind_outcome x f = (case x of Throw m \<Rightarrow> Throw m | Err e \<Rightarrow> Err e | Ok a \<Rightarrow> f a)"

lemma bind_outcome_simps [simp]:
  "bind_outcome (Throw m) f = Throw m" "bind_outcome (Err e) f = Err e" "bind_outcome (Ok a) f = f a"
  by (simp_all add: bind_outcome_def)

lemma bind_outcome_Ok: "bind_outcome x f = Ok b \<longleftrightarrow> (\<exists>a. x = Ok a \<and> f a = Ok b)"
  by (cases x) simp_all

record fs_env =
  fparse :: "string \<Rightarrow> json option"
  fdump :: "json \<Rightarrow> string option"
  brackets :: "string \<Rightarrow> (char \<Rightarrow> bool) option"
  rx_imatch :: "string \<Rightarrow> (string \<Rightarrow> bool) option"
  rx_search :: "string \<Rightarrow> (string \<Rightarrow> bool) option"
  rx_what :: "string \<Rightarrow> string"
  hash_content :: "string \<Rightarrow> nat"
  lib_what :: string
  run_session :: string

definition lift_opt :: "fs_env \<Rightarrow> 'a option \<Rightarrow> 'a outcome" where
  "lift_opt env x = (case x of None \<Rightarrow> Throw (lib_what env) | Some a \<Rightarrow> Ok a)"

lemma lift_opt_Ok [simp]: "lift_opt env x = Ok a \<longleftrightarrow> x = Some a"
  by (simp add: lift_opt_def split: option.split)

definition make_error :: "fs_env \<Rightarrow> string \<Rightarrow> string \<Rightarrow> 'a outcome" where
  "make_error env code msg =
     (case fdump env (JObject [(''error'', JString code), (''message'', JString msg)]) of
        None \<Rightarrow> Throw (lib_what env) | Some s \<Rightarrow> Err s)"

lemma make_error_Ok [simp]: "make_error env code msg \<noteq> Ok a"
  by (simp add: make_error_def split: option.split)

text \<open>\<open>get<long>()\<close>.\<close>

definition get_long :: "json \<Rightarrow> int option" where
  "get_long j = (case j of JNum i \<Rightarrow> Some ((i + 2 ^ 63) mod 2 ^ 64 - 2 ^ 63) | JFloat r \<Rightarrow> Some (trunc_int r)
     | JBool b \<Rightarrow> Some (if b then 1 else 0) | _ \<Rightarrow> None)"

definition arg_string :: "fs_env \<Rightarrow> json \<Rightarrow> string \<Rightarrow> string outcome" where
  "arg_string env args k = lift_opt env (Option.bind (json_at args k) get_string)"

subsection \<open>What a session has read\<close>

type_synonym tracker = "(string \<times> (string \<times> nat) list) list"

definition record_read :: "string \<Rightarrow> string \<Rightarrow> nat \<Rightarrow> tracker \<Rightarrow> tracker" where
  "record_read session path h r =
     AList.update session (AList.update path h (case map_of r session of None \<Rightarrow> [] | Some m \<Rightarrow> m)) r"

definition was_read :: "string \<Rightarrow> string \<Rightarrow> tracker \<Rightarrow> bool" where
  "was_read session path r = (case map_of r session of None \<Rightarrow> False | Some m \<Rightarrow> map_of m path \<noteq> None)"

definition release_tracker :: "string \<Rightarrow> tracker \<Rightarrow> tracker \<times> bool" where
  "release_tracker session r = (AList.delete session r, map_of r session \<noteq> None)"

subsection \<open>The outside-root policy\<close>

datatype path_access = Read_Access | Write_Access
datatype outside_mode = Refuse_Outside | Allow_Outside | Ask_Outside
datatype verdict = Approved | Rejected | No_Approver

record outside_request =
  req_path :: string
  req_root :: string
  req_tool :: string
  req_access :: path_access

record fs_config =
  cfg_max_read_bytes :: "int option"
  cfg_max_read_context_pct :: rat
  max_walk_entries :: int
  allow_outside_root :: outside_mode
  outside_root_allow :: "fpath list"
  outside_root_deny :: "fpath list"

record fs_server =
  fs_root :: fpath
  fs_cfg :: fs_config
  max_read_bytes :: int
  reads :: tracker
  ignore :: ignore_matcher
  approver :: "(outside_request \<Rightarrow> verdict) option"

definition path_within :: "fpath \<Rightarrow> fpath \<Rightarrow> bool" where
  "path_within p base = (case lexically_relative p base of None \<Rightarrow> False | Some rel \<Rightarrow> rel \<noteq> [] \<and> hd rel \<noteq> ''..'')"

definition canonical_entry :: "fnode \<Rightarrow> fpath \<Rightarrow> fpath" where
  "canonical_entry t e = (case weakly_canonical t e of None \<Rightarrow> lex_normal [] e | Some c \<Rightarrow> c)"

definition first_containing :: "fnode \<Rightarrow> fpath list \<Rightarrow> fpath \<Rightarrow> fpath option" where
  "first_containing t es resolved = find (path_within resolved) (map (canonical_entry t) es)"

definition access_verb :: "path_access \<Rightarrow> string" where
  "access_verb a = (case a of Write_Access \<Rightarrow> ''write'' | Read_Access \<Rightarrow> ''read'')"

definition outside_root_refusal :: "verdict \<Rightarrow> outside_request \<Rightarrow> string" where
  "outside_root_refusal v req =
     (let head = ''Path escapes project root: '' @ req_path req @ '' (root: '' @ req_root req @ '')'' in
      if v = Rejected
      then ''outside_root_rejected: '' @ head @ '' '' @ em_dash @ '' the host'' @ [CHR 0x27] @ ''s path approver refused this '' @
           access_verb (req_access req) @ ''.''
      else ''outside_root_approval_required: '' @ head @ '' '' @ em_dash @ '' '' @ access_verb (req_access req) @
           '' access outside the project root needs approval (mcp.filesystem.allow_outside_root: optional) and '' @
           ''no path approver is registered, so it is refused. Pre-approve the directory with '' @
           ''mcp.filesystem.outside_root_allow, set allow_outside_root: true, or register an approver with '' @
           ''entropic_set_path_approval_callback.'')"

definition refuse_denied :: "fpath \<Rightarrow> fpath \<Rightarrow> string" where
  "refuse_denied resolved entry =
     ''outside_root_denied: '' @ path_string resolved @ '' is under mcp.filesystem.outside_root_deny entry '' @
     path_string entry @ '' '' @ em_dash @ '' refused regardless of allow_outside_root.''"

definition refuse_escape :: "fpath \<Rightarrow> string" where
  "refuse_escape resolved = ''Path escapes project root: '' @ path_string resolved"

definition ask_outside_root_approver :: "fs_server \<Rightarrow> fpath \<Rightarrow> path_access \<Rightarrow> string \<Rightarrow> unit outcome" where
  "ask_outside_root_approver sv resolved access tool =
     (let req = \<lparr>req_path = path_string resolved, req_root = path_string (fs_root sv),
                 req_tool = ''filesystem.'' @ tool, req_access = access\<rparr>;
          v = (case approver sv of None \<Rightarrow> No_Approver | Some f \<Rightarrow> f req)
      in if v = Approved then Ok () else Throw (outside_root_refusal v req))"

definition authorize_outside_root :: "fnode \<Rightarrow> fs_server \<Rightarrow> fpath \<Rightarrow> path_access \<Rightarrow> string \<Rightarrow> unit outcome" where
  "authorize_outside_root t sv resolved access tool =
     (let denied = first_containing t (outside_root_deny (fs_cfg sv)) resolved;
          allowed = first_containing t (outside_root_allow (fs_cfg sv)) resolved;
          mode = allow_outside_root (fs_cfg sv)
      in case denied of
           Some entry \<Rightarrow> Throw (refuse_denied resolved entry)
         | None \<Rightarrow>
             if allowed \<noteq> None \<or> mode = Allow_Outside then Ok ()
             else if mode = Refuse_Outside then Throw (refuse_escape resolved)
             else ask_outside_root_approver sv resolved access tool)"

definition join_path :: "fpath \<Rightarrow> string \<Rightarrow> fpath" where
  "join_path rt requested = rt @ (if requested = [] then [[]] else split_path requested)"

definition resolve_path :: "fs_env \<Rightarrow> fnode \<Rightarrow> fs_server \<Rightarrow> string \<Rightarrow> path_access \<Rightarrow> string \<Rightarrow> fpath outcome" where
  "resolve_path env t sv requested access tool =
     bind_outcome (lift_opt env (weakly_canonical t
         (if is_absolute requested then split_path requested else join_path (fs_root sv) requested)))
       (\<lambda>resolved.
          if path_within resolved (fs_root sv) then Ok resolved
          else bind_outcome (authorize_outside_root t sv resolved access tool) (\<lambda>_. Ok resolved))"

definition display_path :: "fpath \<Rightarrow> fpath \<Rightarrow> string" where
  "display_path rt p =
     (if path_within p rt then join_slash (the (lexically_relative p rt)) else path_string p)"

subsection \<open>Reading\<close>

record fs_state =
  tree :: fnode
  srv :: fs_server

definition check_read_gates :: "fs_env \<Rightarrow> fnode \<Rightarrow> fs_server \<Rightarrow> fpath \<Rightarrow> string \<Rightarrow> unit outcome" where
  "check_read_gates env t sv resolved display =
     bind_outcome (lift_opt env (relative_to t resolved (fs_root sv))) (\<lambda>rel.
     bind_outcome (lift_opt env (exists_at t resolved)) (\<lambda>ex.
     if \<not> ex then make_error env ''not_found'' (''File not found: '' @ display @ ''. Use list_directory('' @ quoted ''.'' @
          '') to see available files in the working directory, or verify the path is relative to the configured root.'')
     else bind_outcome (lift_opt env (is_directory_at t resolved)) (\<lambda>dir.
       if dir then make_error env ''is_directory'' (''Path is a directory, not a file: '' @ display)
       else if join_slash rel \<noteq> [] \<and> is_ignored (ignore sv) (join_slash rel) False
       then make_error env ''ignored'' (''Path '' @ squoted (join_slash rel) @ '' is excluded by .gitignore or .explorerignore.'')
       else Ok ())))"

definition read_window_args :: "fs_env \<Rightarrow> json \<Rightarrow> int \<Rightarrow> read_window outcome" where
  "read_window_args env args budget =
     bind_outcome (lift_opt env (json_value get_long args ''offset'' 1)) (\<lambda>off.
     bind_outcome (lift_opt env (json_value get_long args ''limit'' 0)) (\<lambda>lm.
     if 1 > off \<or> 0 > lm then make_error env ''invalid_args'' ''offset must be >= 1 and limit >= 1''
     else Ok \<lparr>win_offset = off, win_limit = lm, win_budget = budget\<rparr>))"

definition lines_json :: "window_reader \<Rightarrow> json" where
  "lines_json r = JArray (map (\<lambda>(n, l). JObject [(''content'', JString l), (''line'', JNum n)]) (win_lines r))"

definition read_numbered_lines :: "fs_env \<Rightarrow> fnode \<Rightarrow> fpath \<Rightarrow> string \<Rightarrow> read_window \<Rightarrow> (json \<times> json) outcome" where
  "read_numbered_lines env t p display w =
     (case read_lines w (case read_bytes t p of None \<Rightarrow> [] | Some s \<Rightarrow> getlines s) 0 new_reader of (n, r) \<Rightarrow>
        case win_err r of
          Some (k, sz) \<Rightarrow> make_error env ''size_exceeded'' (''Line '' @ to_string_int k @ '' is '' @ to_string_int sz @
            '' bytes, more than the whole read budget ('' @ to_string_int (win_budget w) @ '')'')
        | None \<Rightarrow> Ok (JObject ([(''lines'', lines_json r)] @
            (if win_more r then [(''next_offset'', JNum (win_offset w + int (length (win_lines r))))] else []) @
            [(''offset'', JNum (win_offset w)), (''path'', JString display), (''total'', JNum n),
             (''truncated'', JBool (win_more r))]), lines_json r))"

definition read_and_track ::
  "fs_env \<Rightarrow> fs_state \<Rightarrow> fpath \<Rightarrow> string \<Rightarrow> json \<Rightarrow> fs_state \<times> json outcome" where
  "read_and_track env st resolved display args =
     (case bind_outcome (read_window_args env args (max_read_bytes (srv st))) (\<lambda>w.
           bind_outcome (read_numbered_lines env (tree st) resolved display w) (\<lambda>(j, ls).
           bind_outcome (lift_opt env (fdump env ls)) (\<lambda>text. Ok (j, text)))) of
        Throw m \<Rightarrow> (st, Throw m)
      | Err e \<Rightarrow> (st, Err e)
      | Ok (j, text) \<Rightarrow>
          (st\<lparr>srv := (srv st)\<lparr>reads := record_read (run_session env) (path_string resolved) (hash_content env text) (reads (srv st))\<rparr>\<rparr>,
           Ok j))"

text \<open>How every tool answers: the printed result, a structured error, or an exception.\<close>

definition answer :: "fs_env \<Rightarrow> json outcome \<Rightarrow> string + server_response" where
  "answer env x =
     (case x of
        Throw m \<Rightarrow> Inl m
      | Err e \<Rightarrow> Inr \<lparr>result = e, directives = []\<rparr>
      | Ok j \<Rightarrow> (case fdump env j of None \<Rightarrow> Inl (lib_what env) | Some s \<Rightarrow> Inr \<lparr>result = s, directives = []\<rparr>))"

definition read_file :: "fs_env \<Rightarrow> fs_state \<Rightarrow> string \<Rightarrow> fs_state \<times> (string + server_response)" where
  "read_file env st args_json =
     (case bind_outcome (lift_opt env (fparse env args_json)) (\<lambda>args.
           bind_outcome (arg_string env args ''path'') (\<lambda>path.
           bind_outcome (resolve_path env (tree st) (srv st) path Read_Access ''read_file'') (\<lambda>resolved.
           bind_outcome (check_read_gates env (tree st) (srv st) resolved (display_path (fs_root (srv st)) resolved)) (\<lambda>_.
           Ok (args, resolved))))) of
        Throw m \<Rightarrow> (st, answer env (Throw m))
      | Err e \<Rightarrow> (st, answer env (Err e))
      | Ok (args, resolved) \<Rightarrow>
          (case read_and_track env st resolved (display_path (fs_root (srv st)) resolved) args of
             (st', x) \<Rightarrow> (st', answer env x)))"

definition read_file_anchor :: "fs_env \<Rightarrow> string \<Rightarrow> string option" where
  "read_file_anchor env args_json =
     Option.bind (fparse env args_json) (\<lambda>args. Option.bind (json_at args ''path'') (\<lambda>p. map_option (\<lambda>s. ''file:'' @ s) (get_string p)))"

subsection \<open>Writing\<close>

definition check_read_before_write :: "fs_env \<Rightarrow> fnode \<Rightarrow> fs_server \<Rightarrow> fpath \<Rightarrow> unit outcome" where
  "check_read_before_write env t sv p =
     bind_outcome (lift_opt env (exists_at t p)) (\<lambda>ex.
     if ex \<and> \<not> was_read (run_session env) (path_string p) (reads sv)
     then make_error env ''read_before_write'' (''File must be read before writing: '' @ path_string p)
     else Ok ())"

definition read_file_contents :: "fnode \<Rightarrow> fpath \<Rightarrow> string outcome" where
  "read_file_contents t p = (case read_bytes t p of None \<Rightarrow> Throw (''Cannot open file: '' @ path_string p) | Some s \<Rightarrow> Ok s)"

text \<open>The directories made stay when the file cannot be opened.\<close>

definition write_file_contents :: "fs_env \<Rightarrow> fnode \<Rightarrow> fpath \<Rightarrow> string \<Rightarrow> fnode \<times> unit outcome" where
  "write_file_contents env t p s =
     (case create_directories t [] (butlast p) of
        None \<Rightarrow> (t, Throw (lib_what env))
      | Some t1 \<Rightarrow>
          (case write_bytes t1 p s of
             None \<Rightarrow> (t1, Throw (''Cannot write file: '' @ path_string p))
           | Some t2 \<Rightarrow> (t2, Ok ())))"

definition write_file :: "fs_env \<Rightarrow> fs_state \<Rightarrow> string \<Rightarrow> fs_state \<times> (string + server_response)" where
  "write_file env st args_json =
     (case bind_outcome (lift_opt env (fparse env args_json)) (\<lambda>args.
           bind_outcome (arg_string env args ''path'') (\<lambda>path.
           bind_outcome (arg_string env args ''content'') (\<lambda>s.
           bind_outcome (resolve_path env (tree st) (srv st) path Write_Access ''write_file'') (\<lambda>resolved.
           bind_outcome (check_read_before_write env (tree st) (srv st) resolved) (\<lambda>_. Ok (resolved, s)))))) of
        Throw m \<Rightarrow> (st, answer env (Throw m))
      | Err e \<Rightarrow> (st, answer env (Err e))
      | Ok (resolved, s) \<Rightarrow>
          (case write_file_contents env (tree st) resolved s of (t', w) \<Rightarrow>
             (st\<lparr>tree := t'\<rparr>, answer env (bind_outcome w (\<lambda>_. Ok (JObject
               [(''bytes_written'', JNum (int (length s))), (''message'', JString ''File written successfully''),
                (''path'', JString (display_path (fs_root (srv st)) resolved))]))))))"

text \<open>The two modes of an edit: the new text and the members of the answer.\<close>

definition do_str_replace :: "fs_env \<Rightarrow> json \<Rightarrow> string \<Rightarrow> (string \<times> (string \<times> json) list) outcome option" where
  "do_str_replace env args s =
     (case bind_outcome (arg_string env args ''old_string'') (\<lambda>old_str.
           bind_outcome (arg_string env args ''new_string'') (\<lambda>new_str.
           bind_outcome (lift_opt env (json_value get_bool args ''replace_all'' False)) (\<lambda>all. Ok (old_str, new_str, all)))) of
        Throw m \<Rightarrow> Some (Throw m)
      | Err e \<Rightarrow> Some (Err e)
      | Ok (old_str, new_str, all) \<Rightarrow>
          (case apply_str_replace s old_str new_str all of
             None \<Rightarrow> None
           | Some (Inl e) \<Rightarrow> Some (make_error env e
               (if e = ''multiple_matches'' then ''old_string found multiple times '' @ em_dash @ '' add context or use replace_all''
                else ''old_string not found in file''))
           | Some (Inr out) \<Rightarrow>
               map_option (\<lambda>n. Ok (out, [(''message'', JString ''Edit applied''), (''mode'', JString ''str_replace''),
                   (''replacements'', JNum (if all then int n else 1))]))
                 (if all then count_occurrences s old_str else Some 1)))"

definition do_insert :: "fs_env \<Rightarrow> json \<Rightarrow> string \<Rightarrow> (string \<times> (string \<times> json) list) outcome" where
  "do_insert env args s =
     bind_outcome (lift_opt env (Option.bind (json_at args ''insert_line'') get_long)) (\<lambda>after.
     if after < 0 \<or> after > count_lines s
     then make_error env ''out_of_range'' (''insert_line must be 0..'' @ to_string_int (count_lines s) @
            '' for this file (got '' @ to_string_int after @ '')'')
     else bind_outcome (arg_string env args ''new_string'') (\<lambda>new_str.
       Ok (apply_insert s after new_str, [(''inserted_after'', JNum after), (''message'', JString ''Text inserted''),
           (''mode'', JString ''insert'')])))"

definition apply_edit :: "fs_env \<Rightarrow> fnode \<Rightarrow> json \<Rightarrow> fpath \<Rightarrow> string \<Rightarrow> (fnode \<times> json outcome) option" where
  "apply_edit env t args resolved display =
     (let rep = json_contains args ''old_string'' in
      if rep = json_contains args ''insert_line''
      then Some (t, make_error env ''invalid_args''
             ''edit_file takes exactly one of old_string (STR_REPLACE) or insert_line (INSERT)'')
      else case read_file_contents t resolved of
             Throw m \<Rightarrow> Some (t, Throw m)
           | Err e \<Rightarrow> Some (t, Err e)
           | Ok s \<Rightarrow>
               (case (if rep then do_str_replace env args s else Some (do_insert env args s)) of
                  None \<Rightarrow> None
                | Some (Throw m) \<Rightarrow> Some (t, Throw m)
                | Some (Err e) \<Rightarrow> Some (t, Err e)
                | Some (Ok (edited, ok)) \<Rightarrow>
                    (case write_file_contents env t resolved edited of (t', w) \<Rightarrow>
                       Some (t', bind_outcome w (\<lambda>_. Ok (JObject (omap_put ''path'' (JString display) ok)))))))"

definition edit_file :: "fs_env \<Rightarrow> fs_state \<Rightarrow> string \<Rightarrow> (fs_state \<times> (string + server_response)) option" where
  "edit_file env st args_json =
     (case bind_outcome (lift_opt env (fparse env args_json)) (\<lambda>args.
           bind_outcome (arg_string env args ''path'') (\<lambda>path.
           bind_outcome (resolve_path env (tree st) (srv st) path Write_Access ''edit_file'') (\<lambda>resolved.
           bind_outcome (check_read_before_write env (tree st) (srv st) resolved) (\<lambda>_. Ok (args, resolved))))) of
        Throw m \<Rightarrow> Some (st, answer env (Throw m))
      | Err e \<Rightarrow> Some (st, answer env (Err e))
      | Ok (args, resolved) \<Rightarrow>
          map_option (\<lambda>(t', x). (st\<lparr>tree := t'\<rparr>, answer env x))
            (apply_edit env (tree st) args resolved (display_path (fs_root (srv st)) resolved)))"

subsection \<open>Searching\<close>

definition read_page :: "fs_env \<Rightarrow> json \<Rightarrow> int \<Rightarrow> int \<Rightarrow> page outcome" where
  "read_page env args default_limit max_limit =
     bind_outcome (lift_opt env (json_value get_long args ''offset'' 0)) (\<lambda>off.
     bind_outcome (lift_opt env (json_value get_long args ''limit'' default_limit)) (\<lambda>lm.
     if 0 > off \<or> 1 > lm \<or> lm > max_limit
     then make_error env ''invalid_args'' (''offset must be >= 0 and limit 1..'' @ to_string_int max_limit @
            '' (got offset '' @ to_string_int off @ '', limit '' @ to_string_int lm @ '')'')
     else Ok \<lparr>page_offset = off, page_limit = lm\<rparr>))"

definition emit_glob_star :: "string \<Rightarrow> string" where
  "emit_glob_star r =
     (case r of
        c # r1 \<Rightarrow> if c = CHR ''*'' then (case r1 of d # r2 \<Rightarrow> if d = CHR ''/'' then r2 else r1 | [] \<Rightarrow> r1) else r
      | [] \<Rightarrow> r)"

lemma emit_glob_star_shorter [termination_simp]: "length (emit_glob_star r) \<le> length r"
  by (auto simp: emit_glob_star_def split: list.split)

fun glob_regex :: "string \<Rightarrow> string" where
  "glob_regex [] = []"
| "glob_regex (c # r) =
     (if c = CHR ''*'' then ''.*'' @ glob_regex (emit_glob_star r)
      else if c = CHR ''?'' then ''.'' @ glob_regex r
      else if c = CHR ''.'' then [CHR 0x5C, CHR ''.''] @ glob_regex r
      else c # glob_regex r)"

definition glob_match :: "fs_env \<Rightarrow> string \<Rightarrow> string \<Rightarrow> bool" where
  "glob_match env filename pattern = (case rx_imatch env (glob_regex pattern) of None \<Rightarrow> False | Some m \<Rightarrow> m filename)"

definition any_glob_match :: "fs_env \<Rightarrow> string \<Rightarrow> string list \<Rightarrow> bool" where
  "any_glob_match env filename patterns = list_ex (glob_match env filename) patterns"

datatype entry_action = kSkip | kSkipPrune | kTake

definition classify_glob_entry ::
  "fs_env \<Rightarrow> fnode \<Rightarrow> fs_server \<Rightarrow> string list \<Rightarrow> fpath \<Rightarrow> entry_action option" where
  "classify_glob_entry env t sv patterns entry =
     (case (is_directory_at t entry, relative_to t entry (fs_root sv), is_regular_at t entry) of
        (Some is_dir, Some rel, Some is_reg) \<Rightarrow>
          let hardcoded_skip = is_dir \<and> is_skipped_dir_name (last entry);
              ignore_hit = \<not> hardcoded_skip \<and> join_slash rel \<noteq> [] \<and> is_ignored (ignore sv) (join_slash rel) is_dir
          in Some (if hardcoded_skip \<or> (ignore_hit \<and> is_dir) then kSkipPrune
                   else if ignore_hit then kSkip
                   else if is_reg \<and> any_glob_match env (join_slash rel) patterns then kTake
                   else kSkip)
      | _ \<Rightarrow> None)"

text \<open>The walk of a search: the budget, the page and whether the library has thrown.\<close>

record walk_state =
  visited :: int
  walk_truncated :: bool
  walk_page :: "json paged"
  walk_threw :: bool

definition new_walk :: "page \<Rightarrow> walk_state" where
  "new_walk p = \<lparr>visited = 0, walk_truncated = False, walk_page = new_paged p, walk_threw = False\<rparr>"

definition walk_budget_spent :: "int \<Rightarrow> walk_state \<Rightarrow> walk_state \<times> bool" where
  "walk_budget_spent max_entries w =
     (let v = visited w + 1; spent = (max_entries > 0 \<and> v \<ge> max_entries)
      in (w\<lparr>visited := v, walk_truncated := (walk_truncated w \<or> spent)\<rparr>, spent))"

text \<open>One entry of a search; \<open>take\<close> does what is done with a file that is taken.\<close>

definition search_step ::
  "fs_env \<Rightarrow> fnode \<Rightarrow> fs_server \<Rightarrow> string list \<Rightarrow> (fpath \<Rightarrow> json paged \<Rightarrow> json paged \<times> bool) \<Rightarrow> walk_state \<Rightarrow> fpath \<Rightarrow> fnode \<Rightarrow> walk_state \<times> ctl" where
  "search_step env t sv patterns take_file w entry n =
     (case classify_glob_entry env t sv patterns entry of
        None \<Rightarrow> (w\<lparr>walk_threw := True\<rparr>, Halt)
      | Some act \<Rightarrow>
          (case (if act = kTake then take_file entry (walk_page w) else (walk_page w, True)) of (pg', go_on) \<Rightarrow>
             let w1 = w\<lparr>walk_page := pg'\<rparr> in
             if \<not> go_on then (w1, Halt)
             else case walk_budget_spent (max_walk_entries (fs_cfg sv)) w1 of (w2, spent) \<Rightarrow>
               (w2, if spent then Halt else if act = kSkipPrune then Prune else Descend)))"

definition search_from ::
  "fs_env \<Rightarrow> fnode \<Rightarrow> fs_server \<Rightarrow> string list \<Rightarrow> (fpath \<Rightarrow> json paged \<Rightarrow> json paged \<times> bool) \<Rightarrow> fpath \<Rightarrow> page \<Rightarrow> walk_state option" where
  "search_from env t sv patterns take_file start p =
     (case status_at t start of
        Some (Some (Directory es)) \<Rightarrow>
          let w = fst (iterate (search_step env t sv patterns take_file) start es (new_walk p))
          in if walk_threw w then None else Some w
      | _ \<Rightarrow> None)"

definition collect_glob_matches :: "fs_env \<Rightarrow> fnode \<Rightarrow> fs_server \<Rightarrow> string \<Rightarrow> page \<Rightarrow> walk_state option" where
  "collect_glob_matches env t sv pattern p =
     search_from env t sv (expand_braces pattern [[]])
       (\<lambda>entry. offer (JString (display_path (fs_root sv) entry))) (fs_root sv) p"

definition glob :: "fs_env \<Rightarrow> fs_state \<Rightarrow> string \<Rightarrow> string + server_response" where
  "glob env st args_json =
     answer env
       (bind_outcome (lift_opt env (fparse env args_json)) (\<lambda>args.
        bind_outcome (arg_string env args ''pattern'') (\<lambda>pattern.
        bind_outcome (read_page env args 500 5000) (\<lambda>p.
        bind_outcome (lift_opt env (collect_glob_matches env (tree st) (srv st) pattern p)) (\<lambda>w.
        Ok (JObject (finish ''paths'' (walk_truncated w) (walk_page w))))))))"

definition looks_binary :: "string \<Rightarrow> bool" where
  "looks_binary s \<longleftrightarrow> CHR 0x00 \<in> set (take 8192 s)"

text \<open>The matching lines of a file, offered until the page is full.\<close>

fun grep_lines :: "(string \<Rightarrow> bool) \<Rightarrow> string \<Rightarrow> string list \<Rightarrow> int \<Rightarrow> json paged \<Rightarrow> json paged" where
  "grep_lines re display [] n p = p"
| "grep_lines re display (l # ls) n p =
     (if re l
      then (case offer (JObject [(''content'', JString l), (''line'', JNum (n + 1)), (''path'', JString display)]) p of
              (p', go_on) \<Rightarrow> if go_on then grep_lines re display ls (n + 1) p' else p')
      else grep_lines re display ls (n + 1) p)"

definition grep_file :: "fnode \<Rightarrow> (string \<Rightarrow> bool) \<Rightarrow> string \<Rightarrow> fpath \<Rightarrow> json paged \<Rightarrow> json paged \<times> bool" where
  "grep_file t re display p pgd =
     (let s = (case read_bytes t p of None \<Rightarrow> [] | Some s \<Rightarrow> s);
          r = (if looks_binary s then pgd else grep_lines re display (getlines s) 0 pgd)
      in (r, \<not> more_left r))"

definition grep_search ::
  "fs_env \<Rightarrow> fnode \<Rightarrow> fs_server \<Rightarrow> fpath \<Rightarrow> string list \<Rightarrow> (string \<Rightarrow> bool) \<Rightarrow> page \<Rightarrow> walk_state option" where
  "grep_search env t sv start patterns re p =
     search_from env t sv patterns (\<lambda>entry. grep_file t re (display_path (fs_root sv) entry) entry) start p"

definition grep_target ::
  "fs_env \<Rightarrow> fnode \<Rightarrow> fs_server \<Rightarrow> fpath \<Rightarrow> json \<Rightarrow> (string \<Rightarrow> bool) \<Rightarrow> page \<Rightarrow> walk_state outcome" where
  "grep_target env t sv start args re p =
     bind_outcome (lift_opt env (is_regular_at t start)) (\<lambda>reg.
     if reg
     then Ok (let w = new_walk p
              in w\<lparr>walk_page := fst (grep_file t re (display_path (fs_root sv) start) start (walk_page w))\<rparr>)
     else bind_outcome (lift_opt env (json_value get_string args ''glob'' ''*'')) (\<lambda>g.
          lift_opt env (grep_search env t sv start (expand_braces g [[]]) re p)))"

text \<open>\<open>grep_preflight\<close>: a bad pattern is reported even when the page was bad as well.\<close>

definition grep_preflight ::
  "fs_env \<Rightarrow> fnode \<Rightarrow> json \<Rightarrow> fpath \<Rightarrow> fpath \<Rightarrow> (page \<times> (string \<Rightarrow> bool)) outcome" where
  "grep_preflight env t args start rt =
     (case read_page env args 100 1000 of
        Throw m \<Rightarrow> Throw m
      | pgr \<Rightarrow>
          bind_outcome (arg_string env args ''pattern'') (\<lambda>pattern.
          case rx_search env pattern of
            None \<Rightarrow> make_error env ''invalid_regex'' (rx_what env pattern)
          | Some re \<Rightarrow>
              bind_outcome pgr (\<lambda>p.
              bind_outcome (lift_opt env (exists_at t start)) (\<lambda>ex.
              if ex then Ok (p, re)
              else make_error env ''not_found'' (''No such file or directory: '' @ display_path rt start)))))"

definition grep :: "fs_env \<Rightarrow> fs_state \<Rightarrow> string \<Rightarrow> string + server_response" where
  "grep env st args_json =
     answer env
       (bind_outcome (lift_opt env (fparse env args_json)) (\<lambda>args.
        bind_outcome (lift_opt env (json_value get_string args ''path'' ''.'')) (\<lambda>path.
        bind_outcome (resolve_path env (tree st) (srv st) path Read_Access ''grep'') (\<lambda>start.
        bind_outcome (grep_preflight env (tree st) args start (fs_root (srv st))) (\<lambda>(p, re).
        bind_outcome (grep_target env (tree st) (srv st) start args re p) (\<lambda>w.
        Ok (JObject (finish ''matches'' (walk_truncated w) (walk_page w)))))))))"

subsection \<open>Listing\<close>

definition entry_to_json :: "fnode \<Rightarrow> fpath \<Rightarrow> fpath \<Rightarrow> (string \<times> json) option" where
  "entry_to_json t base entry =
     (case status_at t entry of
        None \<Rightarrow> None
      | Some n \<Rightarrow>
          let name = join_slash (case lexically_relative entry base of None \<Rightarrow> [] | Some r \<Rightarrow> r)
          in Some (name, JObject [(''name'', JString name),
               (''size'', JNum (case n of Some (Regular s) \<Rightarrow> int (length s) | _ \<Rightarrow> 0)),
               (''type'', JString (if is_dir_node n then ''directory'' else ''file''))]))"

record list_state =
  list_visited :: int
  list_truncated :: bool
  list_entries :: "(string \<times> json) list"
  list_threw :: bool

definition list_step ::
  "fnode \<Rightarrow> fpath \<Rightarrow> bool \<Rightarrow> int \<Rightarrow> int \<Rightarrow> list_state \<Rightarrow> fpath \<Rightarrow> fnode \<Rightarrow> list_state \<times> ctl" where
  "list_step t dir recursive max_depth max_entries s entry n =
     (case entry_to_json t dir entry of
        None \<Rightarrow> (s\<lparr>list_threw := True\<rparr>, Halt)
      | Some e \<Rightarrow>
          let v = list_visited s + 1; spent = (max_entries > 0 \<and> v \<ge> max_entries);
              depth = int (length entry) - int (length dir) - 1
          in (s\<lparr>list_visited := v, list_truncated := spent, list_entries := list_entries s @ [e]\<rparr>,
              if spent then Halt else if \<not> recursive \<or> depth \<ge> max_depth then Prune else Descend))"

definition collect_entries ::
  "fnode \<Rightarrow> fpath \<Rightarrow> bool \<Rightarrow> int \<Rightarrow> int \<Rightarrow> (json list \<times> bool) option" where
  "collect_entries t dir recursive max_depth max_entries =
     (case status_at t dir of
        Some (Some (Directory es)) \<Rightarrow>
          let s = fst (iterate (list_step t dir recursive max_depth max_entries) dir es
                    \<lparr>list_visited = 0, list_truncated = False, list_entries = [], list_threw = False\<rparr>)
          in if list_threw s then None else Some (map snd (sort_key fst (list_entries s)), list_truncated s)
      | _ \<Rightarrow> None)"

definition list_page :: "fs_env \<Rightarrow> fnode \<Rightarrow> fpath \<Rightarrow> json \<Rightarrow> page \<Rightarrow> int \<Rightarrow> (string \<times> json) list outcome" where
  "list_page env t dir args p max_walk =
     bind_outcome (lift_opt env (json_value get_bool args ''recursive'' False)) (\<lambda>recursive.
     bind_outcome (lift_opt env (json_value get_int args ''max_depth'' 3)) (\<lambda>max_depth.
     bind_outcome (lift_opt env (collect_entries t dir recursive max_depth max_walk)) (\<lambda>(es, truncated).
     Ok (finish ''entries'' truncated (offer_all es (new_paged p))))))"

definition list_directory :: "fs_env \<Rightarrow> fs_state \<Rightarrow> string \<Rightarrow> string + server_response" where
  "list_directory env st args_json =
     answer env
       (bind_outcome (lift_opt env (fparse env args_json)) (\<lambda>args.
        bind_outcome (lift_opt env (json_value get_string args ''path'' ''.'')) (\<lambda>path.
        bind_outcome (resolve_path env (tree st) (srv st) path Read_Access ''list_directory'') (\<lambda>resolved.
        bind_outcome (read_page env args 500 5000) (\<lambda>p.
        bind_outcome (lift_opt env (is_directory_at (tree st) resolved)) (\<lambda>dir.
        if \<not> dir then make_error env ''not_directory'' (''Not a directory: '' @ display_path (fs_root (srv st)) resolved)
        else bind_outcome (list_page env (tree st) resolved args p (max_walk_entries (fs_cfg (srv st)))) (\<lambda>ms.
          Ok (JObject (omap_put ''path'' (JString (display_path (fs_root (srv st)) resolved)) ms)))))))))"

subsection \<open>The server\<close>

definition compute_max_read_bytes :: "fs_config \<Rightarrow> int \<Rightarrow> int" where
  "compute_max_read_bytes cfg model_context_bytes =
     (case cfg_max_read_bytes cfg of
        Some n \<Rightarrow> n
      | None \<Rightarrow> if model_context_bytes \<le> 0 then 32 * 1024
                else trunc_int (f32 (f32 (of_int model_context_bytes) * cfg_max_read_context_pct cfg)))"

definition new_fs_server :: "fs_env \<Rightarrow> fnode \<Rightarrow> fpath \<Rightarrow> fs_config \<Rightarrow> int \<Rightarrow> fs_server option" where
  "new_fs_server env t dir cfg model_context_bytes =
     Option.bind (weakly_canonical t dir) (\<lambda>rt.
       map_option (\<lambda>m. \<lparr>fs_root = rt, fs_cfg = cfg, max_read_bytes = compute_max_read_bytes cfg model_context_bytes,
                      reads = [], ignore = m, approver = None\<rparr>)
         (load_ignores (brackets env) t rt))"

definition skip_duplicate_check :: "string \<Rightarrow> bool" where
  "skip_duplicate_check tool_name \<longleftrightarrow> tool_name = ''read_file''"

text \<open>\<^const>\<open>None\<close> is an exception; the flag is whether the directory was accepted.\<close>

definition set_working_dir :: "fs_env \<Rightarrow> fnode \<Rightarrow> fpath \<Rightarrow> fs_server \<Rightarrow> (fs_server \<times> bool) option" where
  "set_working_dir env t dir sv =
     Option.bind (weakly_canonical t dir) (\<lambda>rt.
       Option.bind (is_directory_at t rt) (\<lambda>d.
         if \<not> d then Some (sv, False)
         else map_option (\<lambda>m. (sv\<lparr>fs_root := rt, ignore := m\<rparr>, True)) (load_ignores (brackets env) t rt)))"

definition set_outside_root_approver :: "(outside_request \<Rightarrow> verdict) option \<Rightarrow> fs_server \<Rightarrow> fs_server" where
  "set_outside_root_approver f sv = sv\<lparr>approver := f\<rparr>"

definition fs_release_session :: "string \<Rightarrow> fs_server \<Rightarrow> fs_server \<times> bool" where
  "fs_release_session key sv = (case release_tracker key (reads sv) of (r, b) \<Rightarrow> (sv\<lparr>reads := r\<rparr>, b))"

subsection \<open>Lemmas: what was read\<close>

lemma was_read_record: "was_read s p (record_read s' p' h r) \<longleftrightarrow> s = s' \<and> p = p' \<or> was_read s p r"
  by (auto simp: was_read_def record_read_def split: option.splits)

lemma was_read_release: "was_read s p (fst (release_tracker s' r)) \<longleftrightarrow> s \<noteq> s' \<and> was_read s p r"
  by (auto simp: was_read_def release_tracker_def)

text \<open>The path a call of \<open>read_file\<close> records.\<close>

definition tracked_path :: "fs_env \<Rightarrow> fs_state \<Rightarrow> string \<Rightarrow> fpath option" where
  "tracked_path env st args_json =
     (case bind_outcome (lift_opt env (fparse env args_json)) (\<lambda>args.
           bind_outcome (arg_string env args ''path'') (\<lambda>path.
           bind_outcome (resolve_path env (tree st) (srv st) path Read_Access ''read_file'') (\<lambda>resolved.
           bind_outcome (check_read_gates env (tree st) (srv st) resolved (display_path (fs_root (srv st)) resolved)) (\<lambda>_.
           Ok (args, resolved))))) of
        Ok (args, resolved) \<Rightarrow>
          (case snd (read_and_track env st resolved (display_path (fs_root (srv st)) resolved) args) of Ok _ \<Rightarrow> Some resolved | _ \<Rightarrow> None)
      | _ \<Rightarrow> None)"

lemma read_file_tree: "tree (fst (read_file env st a)) = tree st"
  by (auto simp: read_file_def read_and_track_def split: outcome.splits prod.splits)

lemma read_file_reads:
  "\<exists>h. reads (srv (fst (read_file env st a))) =
     (case tracked_path env st a of None \<Rightarrow> reads (srv st) | Some p \<Rightarrow> record_read (run_session env) (path_string p) h (reads (srv st)))"
  by (auto simp: read_file_def read_and_track_def tracked_path_def split: outcome.splits prod.splits)

lemma write_file_srv: "srv (fst (write_file env st a)) = srv st"
  by (auto simp: write_file_def split: outcome.splits prod.splits)

lemma edit_file_srv: "edit_file env st a = Some (st', x) \<Longrightarrow> srv st' = srv st"
  by (auto simp: edit_file_def split: outcome.splits)

subsection \<open>Sequences of calls\<close>

text \<open>Calls of the tools by any session, the end of a session, and changes by other programs.\<close>

datatype fs_op = Op_Read string string | Op_Write string string | Op_Edit string string | Op_Release string | Op_World fnode

definition as_session :: "fs_env \<Rightarrow> string \<Rightarrow> fs_env" where
  "as_session env s = env\<lparr>run_session := s\<rparr>"

lemma run_session_as [simp]: "run_session (as_session env s) = s"
  by (simp add: as_session_def)

fun run_op :: "fs_env \<Rightarrow> fs_state \<Rightarrow> fs_op \<Rightarrow> fs_state" where
  "run_op env st (Op_Read s a) = fst (read_file (as_session env s) st a)"
| "run_op env st (Op_Write s a) = fst (write_file (as_session env s) st a)"
| "run_op env st (Op_Edit s a) = (case edit_file (as_session env s) st a of None \<Rightarrow> st | Some (st', _) \<Rightarrow> st')"
| "run_op env st (Op_Release s) = st\<lparr>srv := fst (fs_release_session s (srv st))\<rparr>"
| "run_op env st (Op_World t) = st\<lparr>tree := t\<rparr>"

lemma run_op_reads:
  "reads (srv (run_op env st op)) =
     (case op of
        Op_Read s a \<Rightarrow> reads (srv (fst (read_file (as_session env s) st a)))
      | Op_Release s \<Rightarrow> fst (release_tracker s (reads (srv st)))
      | _ \<Rightarrow> reads (srv st))"
  by (cases op) (auto simp: write_file_srv fs_release_session_def dest: edit_file_srv split: option.split prod.split)

lemma was_read_because:
  assumes "reads (srv st0) = []" "was_read s p (reads (srv (foldl (run_op env) st0 ops)))"
  shows "\<exists>ops1 a ops2 q. ops = ops1 @ Op_Read s a # ops2 \<and>
    tracked_path (as_session env s) (foldl (run_op env) st0 ops1) a = Some q \<and> p = path_string q \<and> Op_Release s \<notin> set ops2"
  using assms(2)
proof (induction ops rule: rev_induct)
  case Nil
  then show ?case using assms(1) by (simp add: was_read_def)
next
  case (snoc op ops)
  let ?st = "foldl (run_op env) st0 ops"
  have old: ?case if read: "was_read s p (reads (srv ?st))" and other: "op \<noteq> Op_Release s"
  proof -
    obtain ops1 a ops2 q where "ops = ops1 @ Op_Read s a # ops2"
      "tracked_path (as_session env s) (foldl (run_op env) st0 ops1) a = Some q" "p = path_string q" "Op_Release s \<notin> set ops2"
      using snoc.IH [OF read] by blast
    then show ?thesis using other by (intro exI [of _ ops1] exI [of _ a] exI [of _ "ops2 @ [op]"] exI [of _ q]) simp
  qed
  show ?case
  proof (cases op)
    case (Op_Read s' a)
    obtain h where h: "reads (srv (fst (read_file (as_session env s') ?st a))) =
       (case tracked_path (as_session env s') ?st a of None \<Rightarrow> reads (srv ?st)
        | Some q \<Rightarrow> record_read s' (path_string q) h (reads (srv ?st)))"
      using read_file_reads [of "as_session env s'" ?st a] unfolding run_session_as by blast
    show ?thesis
    proof (cases "tracked_path (as_session env s') ?st a")
      case None
      then show ?thesis using snoc.prems h Op_Read by (intro old) simp_all
    next
      case (Some q)
      then have "s = s' \<and> p = path_string q \<or> was_read s p (reads (srv ?st))" using snoc.prems h Op_Read by (simp add: was_read_record)
      then show ?thesis
      proof
        assume "s = s' \<and> p = path_string q"
        then show ?thesis using Some Op_Read by (intro exI [of _ ops] exI [of _ a] exI [of _ "[]"] exI [of _ q]) simp
      next
        assume "was_read s p (reads (srv ?st))"
        then show ?thesis by (rule old) (use Op_Read in simp)
      qed
    qed
  next
    case (Op_Release s')
    then have "s \<noteq> s' \<and> was_read s p (reads (srv ?st))" using snoc.prems run_op_reads [of env ?st op] by (simp add: was_read_release)
    then show ?thesis using Op_Release by (intro old) auto
  next
    case (Op_Write s' a)
    then show ?thesis using snoc.prems run_op_reads [of env ?st op] by (intro old) simp_all
  next
    case (Op_Edit s' a)
    then show ?thesis using snoc.prems run_op_reads [of env ?st op] by (intro old) simp_all
  next
    case (Op_World t)
    then show ?thesis using snoc.prems run_op_reads [of env ?st op] by (intro old) simp_all
  qed
qed

text \<open>A write puts its text at a path that was authorized and passed the guard, or leaves the tree as it was.\<close>

definition may_write :: "fs_env \<Rightarrow> fs_state \<Rightarrow> fpath \<Rightarrow> bool" where
  "may_write env st p \<longleftrightarrow>
     (\<exists>path tool. resolve_path env (tree st) (srv st) path Write_Access tool = Ok p) \<and>
     check_read_before_write env (tree st) (srv st) p = Ok ()"

lemma check_read_before_write_Ok:
  "check_read_before_write env t sv p = Ok () \<longleftrightarrow>
     exists_at t p = Some False \<or> exists_at t p = Some True \<and> was_read (run_session env) (path_string p) (reads sv)"
  by (cases "exists_at t p") (auto simp: check_read_before_write_def lift_opt_def)

lemma write_file_guarded:
  "tree (fst (write_file env st a)) = tree st \<or>
   (\<exists>p s. may_write env st p \<and> tree (fst (write_file env st a)) = fst (write_file_contents env (tree st) p s))"
proof (cases "bind_outcome (lift_opt env (fparse env a)) (\<lambda>args.
     bind_outcome (arg_string env args ''path'') (\<lambda>path.
     bind_outcome (arg_string env args ''content'') (\<lambda>s.
     bind_outcome (resolve_path env (tree st) (srv st) path Write_Access ''write_file'') (\<lambda>resolved.
     bind_outcome (check_read_before_write env (tree st) (srv st) resolved) (\<lambda>_. Ok (resolved, s))))))")
  case (Ok x)
  obtain p s where x: "x = (p, s)" by (cases x)
  then have "may_write env st p" using Ok by (auto simp: bind_outcome_Ok may_write_def)
  moreover have "tree (fst (write_file env st a)) = fst (write_file_contents env (tree st) p s)"
    using Ok x by (simp add: write_file_def split: prod.split)
  ultimately show ?thesis by blast
qed (simp_all add: write_file_def)

lemma apply_edit_tree:
  "apply_edit env t args p d = Some (t', x) \<Longrightarrow> t' = t \<or> (\<exists>s. t' = fst (write_file_contents env t p s))"
  by (auto simp: apply_edit_def Let_def split: if_splits outcome.splits option.splits prod.splits)
    (metis fst_conv)+

lemma edit_file_guarded:
  assumes "edit_file env st a = Some (st', x)"
  shows "tree st' = tree st \<or> (\<exists>p s. may_write env st p \<and> tree st' = fst (write_file_contents env (tree st) p s))"
proof (cases "bind_outcome (lift_opt env (fparse env a)) (\<lambda>args.
     bind_outcome (arg_string env args ''path'') (\<lambda>path.
     bind_outcome (resolve_path env (tree st) (srv st) path Write_Access ''edit_file'') (\<lambda>resolved.
     bind_outcome (check_read_before_write env (tree st) (srv st) resolved) (\<lambda>_. Ok (args, resolved)))))")
  case (Ok y)
  obtain args p where y: "y = (args, p)" by (cases y)
  then have "may_write env st p" using Ok by (auto simp: bind_outcome_Ok may_write_def)
  moreover obtain t' x' where "apply_edit env (tree st) args p (display_path (fs_root (srv st)) p) = Some (t', x')" "tree st' = t'"
    using assms Ok y by (auto simp: edit_file_def)
  ultimately show ?thesis using apply_edit_tree by blast
qed (use assms in \<open>auto simp: edit_file_def\<close>)

lemma run_op_guarded:
  "op \<in> {Op_Write s a, Op_Edit s a} \<Longrightarrow> tree (run_op env st op) = tree st \<or>
   (\<exists>p x. may_write (as_session env s) st p \<and> tree (run_op env st op) = fst (write_file_contents (as_session env s) (tree st) p x))"
proof (elim insertE emptyE)
  assume "op = Op_Write s a"
  then show ?thesis using write_file_guarded [of "as_session env s" st a] by simp
next
  assume op: "op = Op_Edit s a"
  show ?thesis
  proof (cases "edit_file (as_session env s) st a")
    case (Some r)
    then show ?thesis using op edit_file_guarded [of "as_session env s" st a "fst r" "snd r"] by (simp add: split_beta)
  qed (use op in simp)
qed

text \<open>
  Claim C31. A write or an edit that changes the file system writes to a path at which nothing existed, or
  which the same session has read successfully earlier in the run, with no release of the session since.
  Whatever happens in between, in other sessions or outside the server, makes no difference.
\<close>

theorem read_before_write:
  assumes "reads (srv st0) = []" "op \<in> {Op_Write s a, Op_Edit s a}"
    and "tree (run_op env (foldl (run_op env) st0 ops) op) \<noteq> tree (foldl (run_op env) st0 ops)"
  shows "\<exists>p text. tree (run_op env (foldl (run_op env) st0 ops) op) =
           fst (write_file_contents (as_session env s) (tree (foldl (run_op env) st0 ops)) p text) \<and>
         (exists_at (tree (foldl (run_op env) st0 ops)) p = Some False \<or>
          (\<exists>ops1 b ops2 q. ops = ops1 @ Op_Read s b # ops2 \<and> Op_Release s \<notin> set ops2 \<and>
             tracked_path (as_session env s) (foldl (run_op env) st0 ops1) b = Some q \<and> path_string q = path_string p))"
proof -
  let ?st = "foldl (run_op env) st0 ops"
  obtain p x where p: "may_write (as_session env s) ?st p"
    "tree (run_op env ?st op) = fst (write_file_contents (as_session env s) (tree ?st) p x)"
    using run_op_guarded [OF assms(2), of env ?st] assms(3) by blast
  then consider "exists_at (tree ?st) p = Some False" | "was_read s (path_string p) (reads (srv ?st))"
    by (auto simp: may_write_def check_read_before_write_Ok)
  then show ?thesis
  proof cases
    case 2
    then show ?thesis using p(2) was_read_because [OF assms(1)] by metis
  qed (use p(2) in blast)
qed

subsection \<open>Confinement\<close>

definition refuses_outside :: "fs_server \<Rightarrow> bool" where
  "refuses_outside sv \<longleftrightarrow> allow_outside_root (fs_cfg sv) = Refuse_Outside \<and> outside_root_allow (fs_cfg sv) = []"

lemma path_within_prefix: "plain b \<Longrightarrow> path_within p b \<Longrightarrow> prefix b p"
  by (rule ccontr) (auto simp: path_within_def dest: lexically_relative_above)

lemma resolve_path_inside:
  assumes "linkfree t (fs_root sv)" "refuses_outside sv" "resolve_path env t sv path access tool = Ok p"
  shows "\<exists>ds. p = fs_root sv @ ds \<and> slashed p"
proof -
  have can: "canonical t (fs_root sv)" using assms(1) by (simp add: linkfree_def)
  have "path_within p (fs_root sv)" and "\<exists>q. weakly_canonical t q = Some p"
    using assms(2,3) by (auto simp: resolve_path_def bind_outcome_Ok authorize_outside_root_def refuses_outside_def
      first_containing_def Let_def split: if_splits option.splits)
  then have "prefix (fs_root sv) p" "slashed p"
    using can path_within_prefix weakly_canonical_slashed [OF canonical_prefix [OF can]] by (auto simp: canonical_def)
  then show ?thesis by (auto elim: prefixE)
qed

lemma write_file_contents_confined:
  assumes "linkfree t r" "slashed (r @ ds)"
  shows "outside_same r t (fst (write_file_contents env t (r @ ds) s)) \<and> linkfree (fst (write_file_contents env t (r @ ds) s)) r"
  using directories_confined [OF assms] write_confined [OF assms] assms(1)
  by (auto simp: write_file_contents_def outside_same_def split: option.split)

lemma run_op_root:
  "fs_root (srv (run_op env st op)) = fs_root (srv st) \<and> fs_cfg (srv (run_op env st op)) = fs_cfg (srv st)"
  by (cases op) (auto simp: write_file_srv fs_release_session_def release_tracker_def read_file_def read_and_track_def
      dest: edit_file_srv split: option.split outcome.split)

lemma run_op_confined:
  assumes "linkfree (tree st) (fs_root (srv st))" "refuses_outside (srv st)" "\<forall>t. op \<noteq> Op_World t"
  shows "outside_same (fs_root (srv st)) (tree st) (tree (run_op env st op)) \<and> linkfree (tree (run_op env st op)) (fs_root (srv st))"
proof -
  have same: "outside_same r t t" for r t by (simp add: outside_same_def)
  consider s a where "op \<in> {Op_Write s a, Op_Edit s a}" | "tree (run_op env st op) = tree st"
    using assms(3) by (cases op) (auto simp: read_file_tree fs_release_session_def split: prod.split)
  then show ?thesis
  proof cases
    case 1
    from run_op_guarded [OF this, of env st] show ?thesis
    proof
      assume "\<exists>p x. may_write (as_session env s) st p \<and> tree (run_op env st op) = fst (write_file_contents (as_session env s) (tree st) p x)"
      then obtain p x where p: "may_write (as_session env s) st p"
        "tree (run_op env st op) = fst (write_file_contents (as_session env s) (tree st) p x)" by blast
      then obtain ds where "p = fs_root (srv st) @ ds" "slashed p" using resolve_path_inside [OF assms(1,2)] unfolding may_write_def by blast
      then show ?thesis using write_file_contents_confined [OF assms(1), of ds] p(2) by simp
    qed (use assms(1) same in simp)
  qed (use assms(1) same in simp)
qed

text \<open>
  Claim C32. With access outside the root refused and no links below the root, no sequence of tool calls by any
  number of sessions changes anything outside the root directory, and none makes a link below it.
\<close>

theorem tools_confined:
  assumes "linkfree (tree st) (fs_root (srv st))" "refuses_outside (srv st)" "\<forall>t. Op_World t \<notin> set ops"
  shows "outside_same (fs_root (srv st)) (tree st) (tree (foldl (run_op env) st ops)) \<and>
         linkfree (tree (foldl (run_op env) st ops)) (fs_root (srv st))"
proof -
  have "fs_root (srv (foldl (run_op env) st ops)) = fs_root (srv st) \<and> fs_cfg (srv (foldl (run_op env) st ops)) = fs_cfg (srv st) \<and>
    outside_same (fs_root (srv st)) (tree st) (tree (foldl (run_op env) st ops)) \<and>
    linkfree (tree (foldl (run_op env) st ops)) (fs_root (srv st))"
    using assms(3)
  proof (induction ops rule: rev_induct)
    case Nil
    then show ?case using assms(1) by (simp add: outside_same_def)
  next
    case (snoc op ops)
    let ?st = "foldl (run_op env) st ops"
    have IH: "fs_root (srv ?st) = fs_root (srv st)" "fs_cfg (srv ?st) = fs_cfg (srv st)"
      "outside_same (fs_root (srv st)) (tree st) (tree ?st)" "linkfree (tree ?st) (fs_root (srv st))" using snoc by simp_all
    moreover have "refuses_outside (srv ?st)" using IH(2) assms(2) by (simp add: refuses_outside_def)
    ultimately show ?case using run_op_confined [of ?st op env] run_op_root [of env ?st op] snoc.prems
      by (auto intro: outside_same_trans)
  qed
  then show ?thesis by blast
qed


subsection \<open>An example\<close>

text \<open>An instance of the parameters that knows a few argument texts and no regular expressions.\<close>

definition demo_args :: "(string \<times> json) list \<Rightarrow> string \<Rightarrow> json" where
  "demo_args rest p = JObject ((''path'', JString p) # rest)"

definition demo_env :: fs_env where
  "demo_env = \<lparr>fparse = (\<lambda>s.
       if s = ''read'' then Some (demo_args [] ''a.txt'')
       else if s = ''write'' then Some (demo_args [(''content'', JString ''new'')] ''a.txt'')
       else if s = ''link'' then Some (demo_args [] ''missing/../out/secret'')
       else if s = ''direct'' then Some (demo_args [] ''out/secret'')
       else if s = ''dangling'' then Some (demo_args [(''content'', JString ''new'')] ''gone'')
       else if s = ''grep'' then Some (demo_args [(''pattern'', JString ''key'')] ''.'')
       else if s = ''grep file'' then Some (demo_args [(''pattern'', JString ''key'')] ''a.txt'')
       else None),
     fdump = (\<lambda>j. case json_at j ''matches'' of Some m \<Rightarrow> Some (if m = JArray [] then ''none'' else ''some'') | None \<Rightarrow> Some ''{}''),
     brackets = (\<lambda>_. None), rx_imatch = (\<lambda>_. Some (\<lambda>_. True)), rx_search = (\<lambda>pat. Some (\<lambda>l. l = pat)),
     rx_what = (\<lambda>_. []), hash_content = length, lib_what = ''error'', run_session = ''s''\<rparr>"

definition demo_state :: "(string \<times> fnode) list \<Rightarrow> fs_state" where
  "demo_state es = \<lparr>tree = Directory [(''p'', Directory es), (''etc'', Directory [(''secret'', Regular ''key'')])],
     srv = \<lparr>fs_root = [''p''], fs_cfg = \<lparr>cfg_max_read_bytes = None, cfg_max_read_context_pct = 0, max_walk_entries = 100,
       allow_outside_root = Refuse_Outside, outside_root_allow = [], outside_root_deny = []\<rparr>,
       max_read_bytes = 1000, reads = [], ignore = empty_matcher, approver = None\<rparr>\<rparr>"

lemma demo_overwrite:
  "tree (run_op demo_env (foldl (run_op demo_env) (demo_state [(''a.txt'', Regular ''hi'')]) [Op_Read ''s'' ''read'']) (Op_Write ''s'' ''write'')) =
   tree (demo_state [(''a.txt'', Regular ''new'')])"
  by code_simp

lemma demo_linkfree: "linkfree (tree (demo_state [(''a.txt'', Regular s)])) [''p'']"
  by (auto simp: linkfree_def canonical_def demo_state_def no_link_at_def prefix_Cons)

theorem read_before_write_witness:
  "\<exists>p x. tree (demo_state [(''a.txt'', Regular ''new'')]) =
     fst (write_file_contents (as_session demo_env ''s'') (tree (run_op demo_env (demo_state [(''a.txt'', Regular ''hi'')]) (Op_Read ''s'' ''read''))) p x) \<and>
     (exists_at (tree (run_op demo_env (demo_state [(''a.txt'', Regular ''hi'')]) (Op_Read ''s'' ''read''))) p = Some False \<or>
      (\<exists>ops1 b ops2 q. [Op_Read ''s'' ''read''] = ops1 @ Op_Read ''s'' b # ops2 \<and> Op_Release ''s'' \<notin> set ops2 \<and>
         tracked_path (as_session demo_env ''s'') (foldl (run_op demo_env) (demo_state [(''a.txt'', Regular ''hi'')]) ops1) b = Some q \<and>
         path_string q = path_string p))"
proof -
  have "reads (srv (demo_state [(''a.txt'', Regular ''hi'')])) = []" by (simp add: demo_state_def)
  moreover have "tree (foldl (run_op demo_env) (demo_state [(''a.txt'', Regular ''hi'')]) [Op_Read ''s'' ''read'']) = tree (demo_state [(''a.txt'', Regular ''hi'')])"
    by (simp add: read_file_tree)
  ultimately show ?thesis
    using read_before_write [of "demo_state [(''a.txt'', Regular ''hi'')]" "Op_Write ''s'' ''write''" "''s''" "''write''" demo_env "[Op_Read ''s'' ''read'']"]
    unfolding demo_overwrite by (simp add: demo_state_def)
qed

theorem tools_confined_witness:
  "outside_same [''p''] (tree (demo_state [(''a.txt'', Regular ''hi'')]))
     (tree (foldl (run_op demo_env) (demo_state [(''a.txt'', Regular ''hi'')]) [Op_Read ''s'' ''read'', Op_Write ''s'' ''write'']))"
  using tools_confined [of "demo_state [(''a.txt'', Regular ''hi'')]" "[Op_Read ''s'' ''read'', Op_Write ''s'' ''write'']" demo_env]
    demo_linkfree [of "''hi''"] by (simp add: demo_state_def refuses_outside_def)


subsection \<open>Ways around the policy\<close>

text \<open>
  A path is authorized in the form \<open>weakly_canonical\<close> gives it. That function follows no link after the first
  component that does not exist, so a link behind \<open>missing/..\<close> is authorized as if it were a directory of the root,
  while the direct path through the link is refused.
\<close>

lemma link_behind_missing_escapes:
  "tracked_path demo_env (demo_state [(''out'', Link ''/etc'')]) ''link'' = Some [''p'', ''out'', ''secret''] \<and>
   tracked_path demo_env (demo_state [(''out'', Link ''/etc'')]) ''direct'' = None"
  by code_simp

text \<open>A link to a file that does not exist is authorized as itself; the write creates the file the link names.\<close>

lemma dangling_link_escapes:
  "tree (run_op demo_env (demo_state [(''gone'', Link ''/etc/made'')]) (Op_Write ''s'' ''dangling'')) =
   Directory [(''p'', Directory [(''gone'', Link ''/etc/made'')]),
     (''etc'', Directory [(''secret'', Regular ''key''), (''made'', Regular ''new'')])]"
  by code_simp

text \<open>A search opens what it walks over; a link to a file outside the root is searched with the rest.\<close>

lemma search_follows_file_links:
  "grep demo_env (demo_state [(''in'', Link ''/etc/secret'')]) ''grep'' = Inr \<lparr>result = ''some'', directives = []\<rparr>"
  by code_simp

text \<open>A search of one named file asks no ignore rule, where \<open>read_file\<close> refuses the same file.\<close>

definition demo_ignoring :: fs_state where
  "demo_ignoring =
     (let st = demo_state [(''a.txt'', Regular ''key''), (''.gitignore'', Regular ''a.txt'')]
      in st\<lparr>srv := (srv st)\<lparr>ignore := the (load_ignores (\<lambda>_. None) (tree st) [''p''])\<rparr>\<rparr>)"

lemma search_of_ignored_file:
  "grep demo_env demo_ignoring ''grep file'' = Inr \<lparr>result = ''some'', directives = []\<rparr> \<and>
   tracked_path demo_env demo_ignoring ''read'' = None"
  by code_simp

end
