(* ===== verification/Config_Validate.thy ===== *)
theory Config_Validate
  imports Session_Slots Placement Compaction Posix_Fs
begin

text \<open>
  The validation of a parsed configuration (\<open>config/validate.cpp\<close>): the checks of a model, of the tiers, of
  routing, compaction and the prompt cache, each giving the text of its first problem or the empty text,
  and the two warnings. The unordered maps are association lists in the order they are iterated in;
  floats are rationals, so a NaN is not a value here. Proved: a configuration is accepted exactly when it is well formed.
\<close>

record tier_config = model_config +
  grammar :: "string option"
  auto_chain :: "string option"
  lora_path :: "string option"
  lora_scale :: rat
  capabilities :: "string list"
  tier_temperature :: "rat option"
  tier_max_output_tokens :: "int option"
  tier_top_p :: "rat option"
  tier_top_k :: "int option"
  tier_min_p :: "rat option"
  tier_presence_penalty :: "rat option"
  tier_frequency_penalty :: "rat option"
  tier_repeat_penalty :: "rat option"
  tier_enable_thinking :: "bool option"
  tier_tool_call_mode :: "string option"
  tier_speculative_mtp :: "bool option"
  tier_require_tool_call :: "bool option"

record models_config =
  tiers :: "(string \<times> tier_config) list"
  router :: "model_config option"
  default_tier :: string

record routing_config =
  routing_enabled :: bool
  fallback_tier :: string
  classification_prompt :: "string option"
  tier_map :: "(string \<times> string) list"
  handoff_rules :: "(string \<times> string list) list"

record prompt_cache_config =
  max_bytes :: int
  cache_enabled :: bool

record parsed_config =
  models :: models_config
  routing :: routing_config
  compaction :: compaction_config
  prompt_cache :: prompt_cache_config
  config_dir :: "fpath option"

definition has_key :: "('k \<times> 'v) list \<Rightarrow> 'k \<Rightarrow> bool" where
  "has_key m k \<longleftrightarrow> map_of m k \<noteq> None"

subsection \<open>The checks\<close>

definition validate_allowed_tools :: "string list \<Rightarrow> string" where
  "validate_allowed_tools tools =
     (case find (\<lambda>e. CHR ''.'' \<notin> set e) tools of
        None \<Rightarrow> []
      | Some entry \<Rightarrow> ''allowed_tools entry '' @ squoted entry @ '' must use '' @ squoted ''{server_name}.{tool_name}'' @ '' format'')"

definition validate_model :: "'a model_config_scheme \<Rightarrow> string" where
  "validate_model config =
     (let cfg = model_config.truncate config;
          err = (if model_config.context_length cfg < 512 \<or> model_config.context_length cfg > 131072
                 then ''context_length must be in [512, 131072], got '' @ to_string_int (model_config.context_length cfg)
                 else if adapter cfg = [] then ''adapter must not be empty''
                 else if n_batch cfg < 1 then ''n_batch must be >= 1, got '' @ to_string_int (n_batch cfg)
                 else case model_config.allowed_tools cfg of None \<Rightarrow> [] | Some ts \<Rightarrow> validate_allowed_tools ts);
          err1 = (if err = [] then session_pool_conflict_reason cfg else err)
      in if err1 = [] then expert_offload_conflict_reason cfg else err1)"

definition validate_models :: "models_config \<Rightarrow> string" where
  "validate_models config =
     (if tiers config \<noteq> [] \<and> \<not> has_key (tiers config) (default_tier config)
      then ''default tier '' @ squoted (default_tier config) @ '' not in tiers'' else [])"

definition validate_compaction :: "compaction_config \<Rightarrow> string" where
  "validate_compaction config =
     (if threshold_percent config < 1 / 2 \<or> threshold_percent config > f32 (99 / 100)
      then ''compaction.threshold_percent must be in [0.5, 0.99], got '' @ to_string_float (threshold_percent config)
      else if warning_threshold_percent config \<ge> threshold_percent config
      then ''compaction.warning_threshold_percent ('' @ to_string_float (warning_threshold_percent config) @
           '') must be less than threshold_percent ('' @ to_string_float (threshold_percent config) @ '')''
      else if preserve_recent_turns config < 1 \<or> preserve_recent_turns config > 10
      then ''compaction.preserve_recent_turns must be in [1, 10], got '' @ to_string_int (preserve_recent_turns config)
      else if tool_result_ttl config < 1
      then ''compaction.tool_result_ttl must be >= 1, got '' @ to_string_int (tool_result_ttl config)
      else [])"

definition validate_fallback_tier :: "string \<Rightarrow> (string \<times> tier_config) list \<Rightarrow> string" where
  "validate_fallback_tier fallback ts =
     (if \<not> has_key ts fallback then ''routing.fallback_tier '' @ squoted fallback @ '' not in tiers'' else [])"

definition validate_tier_map :: "(string \<times> string) list \<Rightarrow> (string \<times> tier_config) list \<Rightarrow> string" where
  "validate_tier_map m ts =
     (case find (\<lambda>(k, t). \<not> has_key ts t) m of
        None \<Rightarrow> []
      | Some (k, t) \<Rightarrow> ''routing.tier_map['' @ squoted k @ ''] = '' @ squoted t @ '' not in tiers'')"

fun validate_handoff_rules :: "(string \<times> string list) list \<Rightarrow> (string \<times> tier_config) list \<Rightarrow> string" where
  "validate_handoff_rules [] ts = []"
| "validate_handoff_rules ((source, targets) # rest) ts =
     (if \<not> has_key ts source then ''routing.handoff_rules key '' @ squoted source @ '' not in tiers''
      else case find (\<lambda>t. \<not> has_key ts t) targets of
             Some t \<Rightarrow> ''routing.handoff_rules['' @ squoted source @ ''] contains '' @ squoted t @ '' not in tiers''
           | None \<Rightarrow> validate_handoff_rules rest ts)"

definition validate_classification_routable :: "routing_config \<Rightarrow> string" where
  "validate_classification_routable r =
     (let has_prompt = (case classification_prompt r of None \<Rightarrow> False | Some p \<Rightarrow> p \<noteq> [])
      in if routing_enabled r \<and> has_prompt \<and> tier_map r = []
         then ''routing.classification_prompt is set but routing.tier_map is empty '' @ em_dash @
              '' the router emits a digit that maps to no tier, so every route falls back to the default '' @
              ''(configure routing.tier_map)''
         else [])"

definition first_problem :: "string list \<Rightarrow> string" where
  "first_problem errs = (case find (\<lambda>e. e \<noteq> []) errs of None \<Rightarrow> [] | Some e \<Rightarrow> e)"

definition validate_routing :: "routing_config \<Rightarrow> models_config \<Rightarrow> string" where
  "validate_routing r m =
     (if tiers m = [] then []
      else if routing_enabled r \<and> router m = None
      then ''routing.enabled is true but models.router is not configured''
      else first_problem [validate_fallback_tier (fallback_tier r) (tiers m), validate_tier_map (tier_map r) (tiers m),
             validate_handoff_rules (handoff_rules r) (tiers m), validate_classification_routable r])"

definition validate_prompt_cache :: "prompt_cache_config \<Rightarrow> string" where
  "validate_prompt_cache c =
     (if cache_enabled c \<and> max_bytes c = 0 then ''inference.prompt_cache: enabled=true but max_bytes=0'' else [])"

fun validate_each_tier :: "(string \<times> tier_config) list \<Rightarrow> string" where
  "validate_each_tier [] = []"
| "validate_each_tier ((name, t) # rest) =
     (let err = validate_model t in if err \<noteq> [] then ''models.'' @ name @ '': '' @ err else validate_each_tier rest)"

definition validate_model_tiers :: "models_config \<Rightarrow> string" where
  "validate_model_tiers m =
     (let err = validate_models m;
          err1 = (if err = [] then validate_each_tier (tiers m) else err)
      in case router m of
           Some r \<Rightarrow> if err1 = [] then (let e = validate_model r in if e \<noteq> [] then ''models.router: '' @ e else []) else err1
         | None \<Rightarrow> err1)"

definition warn_auto_chain_without_targets :: "(string \<times> tier_config) list \<Rightarrow> (string \<times> string list) list \<Rightarrow> string" where
  "warn_auto_chain_without_targets ts rules =
     foldl (\<lambda>w (name, t).
        if (case auto_chain t of None \<Rightarrow> False | Some c \<Rightarrow> c \<noteq> []) \<and> \<not> has_key rules name
        then w @ (if w = [] then [] else ''; '') @ ''tier '' @ squoted name @ '' has auto_chain but no handoff_rules entry''
        else w) [] ts"

text \<open>The problem, or none, and the warnings collected so far.\<close>

definition validate_config :: "parsed_config \<Rightarrow> string list \<Rightarrow> string \<times> string list" where
  "validate_config config warnings =
     (let err = first_problem [validate_model_tiers (models config), validate_routing (routing config) (models config),
            validate_compaction (compaction config), validate_prompt_cache (prompt_cache config)];
          w = warn_auto_chain_without_targets (tiers (models config)) (handoff_rules (routing config))
      in (err, if err = [] \<and> w \<noteq> [] then warnings @ [w] else warnings))"

subsection \<open>Grammars\<close>

text \<open>The extension and the stem of a file name; a leading dot starts no extension.\<close>

definition last_dot :: "string \<Rightarrow> nat option" where
  "last_dot s = (if s = ''.'' \<or> s = ''..'' then None
     else find (\<lambda>i. s ! i = CHR ''.'') (rev [1..<length s]))"

definition extension :: "string \<Rightarrow> string" where
  "extension s = (case last_dot s of None \<Rightarrow> [] | Some i \<Rightarrow> drop i s)"

definition stem :: "string \<Rightarrow> string" where
  "stem s = (case last_dot s of None \<Rightarrow> s | Some i \<Rightarrow> take i s)"

definition holds_grammars :: "fnode \<Rightarrow> fpath \<Rightarrow> bool" where
  "holds_grammars t dir =
     (case status_at t dir of Some (Some (Directory es)) \<Rightarrow> list_ex (\<lambda>(n, _). extension n = ''.gbnf'') es | _ \<Rightarrow> False)"

definition grammar_search_paths :: "fnode \<Rightarrow> parsed_config \<Rightarrow> fpath option \<Rightarrow> fpath list" where
  "grammar_search_paths t config data_dir =
     (let dirs = (case config_dir config of None \<Rightarrow> [] | Some d \<Rightarrow> [d @ [''grammars'']])
      in case data_dir of
           Some d \<Rightarrow> if dirs = [] \<or> \<not> holds_grammars t (hd dirs) then dirs @ [d @ [''grammars'']] else dirs
         | None \<Rightarrow> dirs)"

definition grammar_stem_resolves :: "fnode \<Rightarrow> string \<Rightarrow> fpath list \<Rightarrow> bool" where
  "grammar_stem_resolves t s dirs = list_ex (\<lambda>d. exists_at t (d @ [s @ ''.gbnf'']) = Some True) dirs"

definition comma_list :: "string list \<Rightarrow> string" where
  "comma_list xs = foldl (\<lambda>l x. l @ (if l = [] then [] else '', '') @ x) [] xs"

definition describe_search_dirs :: "fpath list \<Rightarrow> string" where
  "describe_search_dirs dirs =
     (if dirs = [] then ''no grammar search path is configured (set config_dir, or install the bundled data directory)''
      else comma_list (map path_string dirs))"

definition unresolved_grammars :: "fnode \<Rightarrow> (string \<times> tier_config) list \<Rightarrow> fpath list \<Rightarrow> string list" where
  "unresolved_grammars t ts dirs = concat (map (\<lambda>(name, tier).
     case grammar tier of
       None \<Rightarrow> []
     | Some g \<Rightarrow>
         let s = (if split_path g = [] then [] else stem (last (split_path g)))
         in if s = [] \<or> grammar_stem_resolves t s dirs then [] else [''models.'' @ name @ '' -> '' @ squoted s]) ts)"

definition warn_unresolved_tier_grammars :: "fnode \<Rightarrow> parsed_config \<Rightarrow> fpath list \<Rightarrow> string" where
  "warn_unresolved_tier_grammars t config dirs =
     (let unresolved = unresolved_grammars t (tiers (models config)) dirs
      in if unresolved = [] then []
         else ''grammar not resolvable yet for '' @ comma_list unresolved @ '' '' @ em_dash @ '' searched '' @
              describe_search_dirs dirs @ ''. Register each key with entropic_grammar_register_file() or '' @
              ''entropic_grammar_register() before the first run on that tier, or place <stem>.gbnf in a grammar '' @
              ''search path. A run on such a tier before then fails with ENTROPIC_ERROR_GRAMMAR_NOT_FOUND rather than '' @
              ''decoding unconstrained (gh#154).'')"

subsection \<open>Well-formed configurations\<close>

definition model_wf :: "'a model_config_scheme \<Rightarrow> bool" where
  "model_wf m \<longleftrightarrow> 512 \<le> model_config.context_length m \<and> model_config.context_length m \<le> 131072 \<and> adapter m \<noteq> [] \<and> 1 \<le> n_batch m \<and>
     (\<forall>ts. model_config.allowed_tools m = Some ts \<longrightarrow> (\<forall>e\<in>set ts. CHR ''.'' \<in> set e)) \<and>
     (max_sessions m \<le> 1 \<or> n_parallel m \<le> 1) \<and>
     0 \<le> cpu_moe_layers m \<and> (cpu_moe_layers m = 0 \<or> gpu_layers m \<noteq> 0 \<and> \<not> gpu_layers_auto m)"

definition routing_wf :: "routing_config \<Rightarrow> models_config \<Rightarrow> bool" where
  "routing_wf r m \<longleftrightarrow>
     (routing_enabled r \<longrightarrow> router m \<noteq> None) \<and>
     insert (fallback_tier r) (snd ` set (tier_map r) \<union> fst ` set (handoff_rules r) \<union> \<Union> (set ` snd ` set (handoff_rules r)))
       \<subseteq> fst ` set (tiers m) \<and>
     (routing_enabled r \<and> classification_prompt r \<notin> {None, Some []} \<longrightarrow> tier_map r \<noteq> [])"

definition compaction_wf :: "compaction_config \<Rightarrow> bool" where
  "compaction_wf c \<longleftrightarrow> 1 / 2 \<le> threshold_percent c \<and> threshold_percent c \<le> f32 (99 / 100) \<and>
     warning_threshold_percent c < threshold_percent c \<and> preserve_recent_turns c \<in> {1..10} \<and> 1 \<le> tool_result_ttl c"

definition config_wf :: "parsed_config \<Rightarrow> bool" where
  "config_wf c \<longleftrightarrow>
     (\<forall>(n, t)\<in>set (tiers (models c)). model_wf t) \<and> (\<forall>r. router (models c) = Some r \<longrightarrow> model_wf r) \<and>
     (tiers (models c) \<noteq> [] \<longrightarrow>
        default_tier (models c) \<in> fst ` set (tiers (models c)) \<and> routing_wf (routing c) (models c)) \<and>
     compaction_wf (compaction c) \<and> \<not> (cache_enabled (prompt_cache c) \<and> max_bytes (prompt_cache c) = 0)"

lemma has_key_iff: "has_key m k \<longleftrightarrow> k \<in> fst ` set m"
  by (simp add: has_key_def map_of_eq_None_iff)

lemma first_problem_Nil: "first_problem errs = [] \<longleftrightarrow> (\<forall>e\<in>set errs. e = [])"
  by (induction errs) (auto simp: first_problem_def)

lemma find_SomeD: "find P xs = Some x \<Longrightarrow> x \<in> set xs \<and> P x"
  by (auto simp: find_Some_iff)

lemma validate_allowed_tools_Nil: "validate_allowed_tools ts = [] \<longleftrightarrow> (\<forall>e\<in>set ts. CHR ''.'' \<in> set e)"
  by (auto simp: validate_allowed_tools_def find_None_iff split: option.split dest: find_SomeD)

lemma validate_model_Nil: "validate_model m = [] \<longleftrightarrow> model_wf m"
  by (auto simp: validate_model_def model_wf_def Let_def validate_allowed_tools_Nil session_pool_conflict_reason_def
      expert_offload_conflict_reason_def model_config.truncate_def split: option.split)

lemma validate_each_tier_Nil: "validate_each_tier ts = [] \<longleftrightarrow> (\<forall>(n, t)\<in>set ts. model_wf t)"
  by (induction ts rule: validate_each_tier.induct) (auto simp: Let_def validate_model_Nil)

lemma validate_model_tiers_Nil:
  "validate_model_tiers m = [] \<longleftrightarrow> (tiers m \<noteq> [] \<longrightarrow> default_tier m \<in> fst ` set (tiers m)) \<and>
     (\<forall>(n, t)\<in>set (tiers m). model_wf t) \<and> (\<forall>r. router m = Some r \<longrightarrow> model_wf r)"
  by (auto simp: validate_model_tiers_def validate_models_def has_key_iff validate_each_tier_Nil validate_model_Nil Let_def split: option.split)

lemma validate_handoff_rules_Nil:
  "validate_handoff_rules rs ts = [] \<longleftrightarrow> fst ` set rs \<union> \<Union> (set ` snd ` set rs) \<subseteq> fst ` set ts"
  by (induction rs ts rule: validate_handoff_rules.induct) (auto simp: has_key_iff find_None_iff find_Some_iff split: option.split dest: nth_mem)

lemma validate_tier_map_Nil: "validate_tier_map m ts = [] \<longleftrightarrow> snd ` set m \<subseteq> fst ` set ts"
  by (auto simp: validate_tier_map_def has_key_iff find_None_iff split: option.split dest!: find_SomeD)
    (metis image_subset_iff snd_conv)

lemma validate_routing_Nil: "validate_routing r m = [] \<longleftrightarrow> (tiers m \<noteq> [] \<longrightarrow> routing_wf r m)"
  by (auto simp: validate_routing_def routing_wf_def first_problem_Nil validate_fallback_tier_def validate_tier_map_Nil
      validate_handoff_rules_Nil validate_classification_routable_def has_key_iff Let_def split: option.splits)

lemma validate_compaction_Nil: "validate_compaction c = [] \<longleftrightarrow> compaction_wf c"
  by (auto simp: validate_compaction_def compaction_wf_def)

text \<open>
  Claim C36. Validation reports no problem exactly for the well-formed configurations: every tier and the router
  within its limits and free of contradictory settings, every name of a tier that routing mentions declared,
  the compaction thresholds in order. Warnings are only added to a configuration that is accepted.
\<close>

theorem validate_config_wf:
  "(fst (validate_config c ws) = [] \<longleftrightarrow> config_wf c) \<and>
   snd (validate_config c ws) = (if config_wf c \<and> warn_auto_chain_without_targets (tiers (models c)) (handoff_rules (routing c)) \<noteq> []
     then ws @ [warn_auto_chain_without_targets (tiers (models c)) (handoff_rules (routing c))] else ws)"
proof -
  have "fst (validate_config c ws) = [] \<longleftrightarrow> config_wf c"
    by (auto simp: validate_config_def Let_def first_problem_Nil validate_model_tiers_Nil validate_routing_Nil
        validate_compaction_Nil validate_prompt_cache_def config_wf_def)
  then show ?thesis by (auto simp: validate_config_def Let_def)
qed

end
