(* ===== verification/Chat_Adapters.thy ===== *)
theory Chat_Adapters
  imports Json Posix_Fs
begin

text \<open>
  The chat adapters (\<open>inference/adapters/*\<close>): how the text of a model becomes a reply and tool calls, for each
  family of models, and how tool results and tool definitions are shown to the model.

  The regular expressions of the source are written out as matchers at a position: each of them has a
  literal beginning and either a run of characters up to a delimiter or the shortest text up to a closing tag,
  so there is one way to match. The JSON library's parser and printer are parameters; the printer
  throws on invalid UTF-8, which is \<^const>\<open>None\<close>. Identifiers of calls come from four counters, one per source file.
  Proved: calls written as the tool prompt asks are read back as they were, with texts around them; stripping
  of reasoning ends, leaves no opening delimiter and agrees with the filter of the stream.
\<close>

record json_lib =
  jparse :: "string \<Rightarrow> json option"
  jdump :: "json \<Rightarrow> string option"
  jdump2 :: "json \<Rightarrow> string option"

subsection \<open>Searching\<close>

text \<open>A matcher answers at the start of a text with what it captures and the rest of the text.\<close>

type_synonym 'a matcher = "string \<Rightarrow> ('a \<times> string) option"

fun search_first :: "'a matcher \<Rightarrow> 'a matcher" where
  "search_first m [] = m []"
| "search_first m (c # s) = (case m (c # s) of None \<Rightarrow> search_first m s | r \<Rightarrow> r)"

text \<open>\<open>std::sregex_iterator\<close> and \<open>std::regex_replace\<close> with the empty text, for matches that are not empty.\<close>

function find_matches :: "'a matcher \<Rightarrow> string \<Rightarrow> 'a list" where
  "find_matches m [] = []"
| "find_matches m (c # s) =
     (case m (c # s) of
        None \<Rightarrow> find_matches m s
      | Some (a, r) \<Rightarrow> a # (if length r \<le> length s then find_matches m r else []))"
  by pat_completeness auto
termination by (relation "measure (\<lambda>(m, s). length s)") auto

function remove_matches :: "'a matcher \<Rightarrow> string \<Rightarrow> string" where
  "remove_matches m [] = []"
| "remove_matches m (c # s) =
     (case m (c # s) of
        None \<Rightarrow> c # remove_matches m s
      | Some (a, r) \<Rightarrow> if length r \<le> length s then remove_matches m r else [])"
  by pat_completeness auto
termination by (relation "measure (\<lambda>(m, s). length s)") auto

definition after_prefix :: "string \<Rightarrow> string \<Rightarrow> string option" where
  "after_prefix p s = (if starts_with p s then Some (drop (length p) s) else None)"

text \<open>The text up to the first occurrence of a closing tag, and what follows the tag.\<close>

definition until_tag :: "string \<Rightarrow> string \<Rightarrow> (string \<times> string) option" where
  "until_tag close s = map_option (\<lambda>i. (take i s, drop (i + length close) s)) (find_str close s)"

text \<open>At least one character other than \<open>c\<close>, then \<open>c\<close>.\<close>

definition run_before :: "char \<Rightarrow> string \<Rightarrow> (string \<times> string) option" where
  "run_before c s =
     (let w = takeWhile (\<lambda>x. x \<noteq> c) s
      in if w \<noteq> [] \<and> length w < length s then Some (w, drop (Suc (length w)) s) else None)"

definition is_blank :: "char \<Rightarrow> bool" where
  "is_blank c \<longleftrightarrow> c = CHR '' '' \<or> c = CHR 0x09"

definition is_ws :: "char \<Rightarrow> bool" where
  "is_ws c \<longleftrightarrow> c = CHR '' '' \<or> c = CHR 0x09 \<or> c = CHR 0x0A \<or> c = CHR 0x0D"

definition trim_by :: "(char \<Rightarrow> bool) \<Rightarrow> string \<Rightarrow> string" where
  "trim_by P s = rev (dropWhile P (rev (dropWhile P s)))"

definition trim_ws :: "string \<Rightarrow> string" where
  "trim_ws s = trim_by is_ws s"

subsection \<open>JSON tool calls\<close>

text \<open>\<open>items()\<close>: members with their keys, elements with their positions, a scalar under the empty key.\<close>

definition json_items :: "json \<Rightarrow> (string \<times> json) list" where
  "json_items j =
     (case j of
        JObject kvs \<Rightarrow> kvs
      | JArray xs \<Rightarrow> map (\<lambda>i. (to_string_nat i, xs ! i)) [0..<length xs]
      | JNull \<Rightarrow> []
      | _ \<Rightarrow> [([], j)])"

definition tool_name_from_json :: "json \<Rightarrow> string" where
  "tool_name_from_json j =
     (case find (\<lambda>k. case json_at j k of Some (JString _) \<Rightarrow> True | _ \<Rightarrow> False) [''name'', ''tool_name'', ''function'', ''function_name''] of
        None \<Rightarrow> []
      | Some k \<Rightarrow> (case json_at j k of Some (JString s) \<Rightarrow> s | _ \<Rightarrow> []))"

definition call_id_of :: "nat \<Rightarrow> string" where
  "call_id_of n = ''tc-'' @ to_string_nat n"

text \<open>The printed arguments; \<^const>\<open>None\<close> is an exception of the printer.\<close>

definition dump_items :: "json_lib \<Rightarrow> (string \<times> json) list \<Rightarrow> (string \<times> string) list option" where
  "dump_items lib kvs =
     map_option (foldl (\<lambda>m (k, v). AList.update k v m) [])
       (get_all (\<lambda>(k, v). map_option (Pair k) (jdump lib v)) kvs)"

text \<open>The inner option is the call, the outer one whether there was an exception; with the counter.\<close>

definition tool_call_from_json :: "json_lib \<Rightarrow> nat \<Rightarrow> json \<Rightarrow> tool_call option option \<times> nat" where
  "tool_call_from_json lib n j =
     (let name = tool_name_from_json j in
      if name = [] then (Some None, n)
      else let args = (case json_at j ''arguments'' of Some a \<Rightarrow> a
                       | None \<Rightarrow> (case json_at j ''parameters'' of Some a \<Rightarrow> a | None \<Rightarrow> JObject []))
           in (case dump_items lib (json_items args) of
                 None \<Rightarrow> (None, Suc n)
               | Some m \<Rightarrow> (Some (Some \<lparr>call_id = call_id_of n, call_name = name, call_arguments = m, arguments_json = []\<rparr>), Suc n)))"

text \<open>\<open>,\s*}\<close> and \<open>,\s*]\<close> lose the comma.\<close>

function drop_trailing_commas :: "char \<Rightarrow> string \<Rightarrow> string" where
  "drop_trailing_commas c [] = []"
| "drop_trailing_commas c (x # s) =
     (case dropWhile c_isspace s of
        y # r \<Rightarrow> if x = CHR '','' \<and> y = c then c # drop_trailing_commas c r else x # drop_trailing_commas c s
      | [] \<Rightarrow> x # drop_trailing_commas c s)"
  by pat_completeness auto
termination
proof (relation "measure (\<lambda>(c, s). length s)")
  fix c x s y r
  assume "dropWhile c_isspace s = y # r"
  then have "length (y # r) \<le> length s" by (metis length_dropWhile_le)
  then show "((c, r), (c, x # s)) \<in> measure (\<lambda>(c, s). length s)" by simp
qed simp_all

definition match_name_member :: "string matcher" where
  "match_name_member s =
     Option.bind (after_prefix (quoted ''name'') s) (\<lambda>r1.
     Option.bind (after_prefix '':'' (dropWhile c_isspace r1)) (\<lambda>r2.
     Option.bind (after_prefix [CHR 0x22] (dropWhile c_isspace r2)) (run_before (CHR 0x22))))"

definition regex_recovered_tool_call :: "nat \<Rightarrow> string \<Rightarrow> tool_call option \<times> nat" where
  "regex_recovered_tool_call n s =
     (case search_first match_name_member s of
        None \<Rightarrow> (None, n)
      | Some (name, _) \<Rightarrow> (Some \<lparr>call_id = call_id_of n, call_name = name, call_arguments = [], arguments_json = []\<rparr>, Suc n))"

definition try_recover_json :: "json_lib \<Rightarrow> nat \<Rightarrow> string \<Rightarrow> tool_call option \<times> nat" where
  "try_recover_json lib n s =
     (let fixed = map (\<lambda>c. if c = CHR 0x27 then CHR 0x22 else c)
            (drop_trailing_commas (CHR '']'') (drop_trailing_commas (CHR ''}'') s))
      in case jparse lib fixed of
           None \<Rightarrow> regex_recovered_tool_call n s
         | Some j \<Rightarrow>
             (case tool_call_from_json lib n j of
                (None, n1) \<Rightarrow> regex_recovered_tool_call n1 s
              | (Some r, n1) \<Rightarrow> (r, n1)))"

definition parse_single_tool_call :: "json_lib \<Rightarrow> nat \<Rightarrow> string \<Rightarrow> tool_call option \<times> nat" where
  "parse_single_tool_call lib n s =
     (case jparse lib s of
        None \<Rightarrow> try_recover_json lib n s
      | Some j \<Rightarrow>
          (case tool_call_from_json lib n j of
             (None, n1) \<Rightarrow> try_recover_json lib n1 s
           | (Some r, n1) \<Rightarrow> (r, n1)))"

definition call_openers :: "string list" where
  "call_openers = [''<tool_call>'', ''<|tool_call>'', ''<|tool_call|>'', ''<|im_start|>tool_call'']"

definition match_tagged :: "string matcher" where
  "match_tagged s =
     Option.bind (List.find (\<lambda>p. starts_with p s) call_openers) (\<lambda>p.
       map_option (\<lambda>(b, r). (rev (dropWhile c_isspace (rev b)), r))
         (until_tag ''</tool_call>'' (dropWhile c_isspace (drop (length p) s))))"

fun parse_singles :: "json_lib \<Rightarrow> nat \<Rightarrow> string list \<Rightarrow> tool_call list \<times> nat" where
  "parse_singles lib n [] = ([], n)"
| "parse_singles lib n (b # bs) =
     (case parse_single_tool_call lib n b of (r, n1) \<Rightarrow>
        case parse_singles lib n1 bs of (cs, n2) \<Rightarrow> ((case r of None \<Rightarrow> cs | Some c \<Rightarrow> c # cs), n2))"

definition parse_tagged_tool_calls :: "json_lib \<Rightarrow> nat \<Rightarrow> string \<Rightarrow> tool_call list \<times> nat" where
  "parse_tagged_tool_calls lib n s = parse_singles lib n (find_matches match_tagged s)"

subsection \<open>Action envelopes\<close>

definition kMetaActions :: "string list" where
  "kMetaActions = [''delegate'', ''pipeline'', ''complete'', ''phase_change'', ''prune_context'', ''resume_delegation'']"

definition action_envelope_to_call :: "json_lib \<Rightarrow> nat \<Rightarrow> json \<Rightarrow> tool_call option option \<times> nat" where
  "action_envelope_to_call lib n j =
     (case tool_call_from_json lib n j of
        (Some None, _) \<Rightarrow>
          (let action = (case json_at j ''action'' of Some (JString a) \<Rightarrow> a | _ \<Rightarrow> []);
               rest = filter (\<lambda>(k, _). k \<noteq> ''action'') (json_items j)
           in if action \<notin> set kMetaActions then (Some None, n)
              else (case (jdump lib (JObject rest), dump_items lib rest) of
                      (Some d, Some m) \<Rightarrow>
                        (Some (Some \<lparr>call_id = call_id_of n, call_name = ''entropic.'' @ action, call_arguments = m,
                                    arguments_json = d\<rparr>), Suc n)
                    | _ \<Rightarrow> (None, Suc n)))
      | r \<Rightarrow> r)"

text \<open>The lines that hold an object; \<^const>\<open>None\<close> is an exception of the printer.\<close>

fun recover_lines :: "json_lib \<Rightarrow> nat \<Rightarrow> string list \<Rightarrow> tool_call list option \<times> nat" where
  "recover_lines lib n [] = (Some [], n)"
| "recover_lines lib n (l # ls) =
     (let b = dropWhile is_blank l in
      case (if b = [] \<or> hd b \<noteq> CHR ''{'' then None else jparse lib b) of
        Some (JObject kvs) \<Rightarrow>
          (case action_envelope_to_call lib n (JObject kvs) of
             (None, n1) \<Rightarrow> (None, n1)
           | (Some r, n1) \<Rightarrow>
               (case recover_lines lib n1 ls of
                  (None, n2) \<Rightarrow> (None, n2)
                | (Some cs, n2) \<Rightarrow> (Some (case r of None \<Rightarrow> cs | Some c \<Rightarrow> c # cs), n2)))
      | _ \<Rightarrow> recover_lines lib n ls)"

definition recover_action_envelope_calls :: "json_lib \<Rightarrow> nat \<Rightarrow> string \<Rightarrow> tool_call list option \<times> nat" where
  "recover_action_envelope_calls lib n raw = recover_lines lib n (getlines raw)"

definition apply_action_envelope_recovery :: "json_lib \<Rightarrow> nat \<Rightarrow> tool_call list \<Rightarrow> string \<Rightarrow> tool_call list option \<times> nat" where
  "apply_action_envelope_recovery lib n calls raw =
     (if calls \<noteq> [] then (Some calls, n) else recover_action_envelope_calls lib n raw)"

subsection \<open>Arguments the schema declares as strings\<close>

text \<open>
  \<open>tool_string_props\<close>: the schema of the first tool of that name. A member of the wrong type makes
  the library throw, and so does asking an element of an array for its key.
\<close>

definition string_prop :: "json \<Rightarrow> bool option" where
  "string_prop p = (case p of JObject _ \<Rightarrow> map_option (\<lambda>t. t = ''string'') (json_value_string p ''type'') | _ \<Rightarrow> Some False)"

definition string_props :: "json \<Rightarrow> string list option" where
  "string_props properties =
     (case properties of
        JObject kvs \<Rightarrow> map_option (\<lambda>bs. map fst (filter snd (zip (map fst kvs) bs))) (get_all (\<lambda>(_, p). string_prop p) kvs)
      | _ \<Rightarrow> Option.bind (get_all string_prop (json_elements properties)) (\<lambda>bs. if True \<in> set bs then None else Some []))"

fun tool_string_props :: "json list \<Rightarrow> string \<Rightarrow> string list option" where
  "tool_string_props [] name = Some []"
| "tool_string_props (t # ts) name =
     (if \<not> is_object t then tool_string_props ts name
      else Option.bind (json_value_string t ''name'') (\<lambda>n.
        if n \<noteq> name then tool_string_props ts name
        else Option.bind (json_value Some t ''inputSchema'' (JObject [])) (\<lambda>schema.
             Option.bind (json_value Some schema ''properties'' (JObject [])) string_props)))"

definition is_num_member :: "string list \<Rightarrow> string \<times> json \<Rightarrow> bool" where
  "is_num_member props kv \<longleftrightarrow> fst kv \<in> set props \<and> is_number (snd kv)"

definition text_of_value :: "json_lib \<Rightarrow> json \<Rightarrow> string option" where
  "text_of_value lib v = (case v of JString s \<Rightarrow> Some s | _ \<Rightarrow> jdump lib v)"

definition coerce_members :: "json_lib \<Rightarrow> string list \<Rightarrow> (string \<times> json) list \<Rightarrow> (string \<times> json) list option" where
  "coerce_members lib props kvs =
     get_all (\<lambda>kv. if is_num_member props kv then map_option (\<lambda>s. (fst kv, JString s)) (jdump lib (snd kv)) else Some kv) kvs"

definition coerce_call_string_args :: "json_lib \<Rightarrow> json list \<Rightarrow> tool_call \<Rightarrow> tool_call option" where
  "coerce_call_string_args lib tools tc =
     Option.bind (tool_string_props tools (call_name tc)) (\<lambda>props.
       if props = [] then Some tc
       else case jparse lib (arguments_json tc) of
              Some (JObject kvs) \<Rightarrow>
                if \<not> list_ex (is_num_member props) kvs then Some tc
                else Option.bind (coerce_members lib props kvs) (\<lambda>kvs'.
                     Option.bind (jdump lib (JObject kvs')) (\<lambda>d.
                     map_option (\<lambda>ts. tc\<lparr>arguments_json := d,
                         call_arguments := foldl (\<lambda>m (k, v). AList.update k v m) (call_arguments tc) ts\<rparr>)
                       (get_all (\<lambda>(k, v). map_option (Pair k) (text_of_value lib v)) kvs')))
            | _ \<Rightarrow> Some tc)"

text \<open>The calls as far as they were done, and whether there was no exception.\<close>

fun coerce_each :: "json_lib \<Rightarrow> json list \<Rightarrow> tool_call list \<Rightarrow> tool_call list \<times> bool" where
  "coerce_each lib tools [] = ([], True)"
| "coerce_each lib tools (c # cs) =
     (case coerce_call_string_args lib tools c of
        None \<Rightarrow> (c # cs, False)
      | Some c' \<Rightarrow> (case coerce_each lib tools cs of (cs', ok) \<Rightarrow> (c' # cs', ok)))"

definition coerce_string_typed_args :: "json_lib \<Rightarrow> tool_call list \<Rightarrow> string \<Rightarrow> tool_call list \<times> bool" where
  "coerce_string_typed_args lib calls tools_json =
     (if calls = [] \<or> tools_json = [] then (calls, True)
      else case jparse lib tools_json of Some (JArray tools) \<Rightarrow> coerce_each lib tools calls | _ \<Rightarrow> (calls, True))"

subsection \<open>Reasoning blocks\<close>

partial_function (option) strip_loop :: "string \<Rightarrow> string \<Rightarrow> string \<Rightarrow> string option" where
  "strip_loop om cm s =
     (case find_str om s of
        None \<Rightarrow> Some s
      | Some i \<Rightarrow>
          (case find_str cm (drop (i + length om) s) of
             None \<Rightarrow> strip_loop om cm (take i s)
           | Some k \<Rightarrow> strip_loop om cm (take i s @ drop (i + length om + k + length cm) s)))"

declare strip_loop.simps [code]

text \<open>\<^const>\<open>None\<close> is a call that does not return.\<close>

definition strip_think_blocks :: "string \<times> string \<Rightarrow> string \<Rightarrow> string option" where
  "strip_think_blocks markers s = map_option trim_ws (strip_loop (fst markers) (snd markers) s)"

subsection \<open>Function blocks with parameters\<close>

definition match_parameter :: "string matcher" where
  "match_parameter s = Option.bind (after_prefix ''<parameter='' s) (run_before (CHR ''>''))"

definition truncate_at_nested_function :: "string \<Rightarrow> string" where
  "truncate_at_nested_function body = (case find_str ''<function='' body of None \<Rightarrow> body | Some i \<Rightarrow> take i body)"

definition find_close_tag :: "string \<Rightarrow> string \<Rightarrow> (nat \<times> nat) option" where
  "find_close_tag r key =
     (let close_paren = ''</parameter>''; close_named = ''</'' @ key @ ''>''
      in case (find_str close_paren r, find_str close_named r) of
           (None, None) \<Rightarrow> None
         | (Some p, None) \<Rightarrow> Some (p, length close_paren)
         | (None, Some n) \<Rightarrow> Some (n, length close_named)
         | (Some p, Some n) \<Rightarrow> if p < n then Some (p, length close_paren) else Some (n, length close_named))"

definition emit_arg :: "(string \<times> string) list \<Rightarrow> string \<Rightarrow> string \<Rightarrow> (string \<times> string) list" where
  "emit_arg args key raw = (let v = trim_ws raw in if v = [] then args else AList.update key v args)"

lemma match_parameter_shorter: "match_parameter s = Some (k, r) \<Longrightarrow> length r < length s"
  by (auto simp: match_parameter_def after_prefix_def run_before_def Let_def bind_eq_Some_conv split: if_splits)

lemma search_first_shorter:
  assumes "\<And>s a r. m s = Some (a, r) \<Longrightarrow> length r < length s"
  shows "search_first m s = Some (a, r) \<Longrightarrow> length r < length s"
proof (induction s)
  case (Cons c s)
  then show ?case using assms [of "c # s" a r] by (auto split: option.splits)
qed (use assms [of "[]" a r] in auto)

lemma search_parameter_shorter: "search_first match_parameter s = Some (k, r) \<Longrightarrow> length r < length s"
  by (rule search_first_shorter) (rule match_parameter_shorter)

function parameters_from :: "string \<Rightarrow> (string \<times> string) list \<Rightarrow> (string \<times> string) list" where
  "parameters_from s args =
     (case search_first match_parameter s of
        None \<Rightarrow> args
      | Some (k, r) \<Rightarrow>
          let key = trim_ws k in
          if key = [] then parameters_from r args
          else (case find_close_tag r key of
                  None \<Rightarrow> parameters_from r args
                | Some (e, len) \<Rightarrow> parameters_from (drop (e + len) r) (emit_arg args key (take e r))))"
  by pat_completeness auto
termination
  by (relation "measure (\<lambda>(s, args). length s)")
    (fastforce dest: search_parameter_shorter)+

declare parameters_from.simps [simp del]

definition parse_xml_parameters :: "string \<Rightarrow> (string \<times> string) list" where
  "parse_xml_parameters func_body = parameters_from (truncate_at_nested_function func_body) []"

definition match_function :: "(string \<times> string) matcher" where
  "match_function s =
     Option.bind (after_prefix ''<function='' s) (\<lambda>r1.
     Option.bind (run_before (CHR ''>'') r1) (\<lambda>(name, r2).
     map_option (\<lambda>(body, r3). ((name, body), r3)) (until_tag ''</function>'' r2)))"

text \<open>A name of blanks only stays as it is.\<close>

definition trim_name :: "string \<Rightarrow> string" where
  "trim_name s = (if list_all is_blank s then s else trim_by is_blank s)"

fun number_calls :: "nat \<Rightarrow> (string \<times> (string \<times> string) list) list \<Rightarrow> tool_call list" where
  "number_calls n [] = []"
| "number_calls n ((name, args) # cs) =
     \<lparr>call_id = call_id_of n, call_name = name, call_arguments = args, arguments_json = []\<rparr> # number_calls (Suc n) cs"

definition parse_xml_function_calls :: "nat \<Rightarrow> string \<Rightarrow> tool_call list \<times> nat" where
  "parse_xml_function_calls n s =
     (let fs = find_matches match_function s
      in (number_calls n (map (\<lambda>(name, body). (trim_name name, parse_xml_parameters body)) fs), n + length fs))"

text \<open>The \<open>DSML\<close> form; its tags have a full-width bar of three bytes.\<close>

definition bar :: string where
  "bar = [CHR 0xEF, CHR 0xBD, CHR 0x9C]"

definition dsml :: "string \<Rightarrow> string" where
  "dsml s = bar @ ''DSML'' @ bar @ s"

definition match_invoke :: "(string \<times> string) matcher" where
  "match_invoke s =
     Option.bind (after_prefix (''<'' @ dsml ''invoke name='' @ [CHR 0x22]) s) (\<lambda>r1.
     Option.bind (run_before (CHR 0x22) r1) (\<lambda>(name, r2).
     Option.bind (after_prefix ''>'' r2) (\<lambda>r3.
     map_option (\<lambda>(body, r4). ((name, body), r4)) (until_tag (''</'' @ dsml ''invoke>'') r3))))"

definition match_dsml_parameter :: "(string \<times> string) matcher" where
  "match_dsml_parameter s =
     Option.bind (after_prefix (''<'' @ dsml ''parameter name='' @ [CHR 0x22]) s) (\<lambda>r1.
     Option.bind (run_before (CHR 0x22) r1) (\<lambda>(name, r2).
     let r3 = dropWhile c_isspace r2 in
     if r3 = r2 then None
     else Option.bind (List.find (\<lambda>k. starts_with (k @ ''='' @ [CHR 0x22]) r3) [''string'', ''int'', ''bool'', ''value'']) (\<lambda>k.
       let r4 = drop (length k + 2) r3; v = takeWhile (\<lambda>c. c \<noteq> CHR 0x22) r4
       in if length v = length r4 then None
          else map_option (\<lambda>r6. ((name, v), r6)) (after_prefix ''/>'' (dropWhile c_isspace (drop (Suc (length v)) r4))))))"

definition extract_dsml_parameters :: "string \<Rightarrow> (string \<times> string) list" where
  "extract_dsml_parameters body = foldl (\<lambda>m (k, v). AList.update k v m) [] (find_matches match_dsml_parameter body)"

definition parse_dsml_function_calls :: "nat \<Rightarrow> string \<Rightarrow> tool_call list \<times> nat" where
  "parse_dsml_function_calls n s =
     (let fs = find_matches match_invoke s
      in (number_calls n (map (\<lambda>(name, body). (name, extract_dsml_parameters body)) fs), n + length fs))"

subsection \<open>Cleaning\<close>

definition match_block :: "string \<Rightarrow> string \<Rightarrow> unit matcher" where
  "match_block om cm s = Option.bind (after_prefix om s) (\<lambda>r. map_option (\<lambda>(_, r'). ((), r')) (until_tag cm r))"

definition match_function_block :: "unit matcher" where
  "match_function_block s = map_option (\<lambda>(_, r). ((), r)) (match_function s)"

definition match_bar_tag :: "unit matcher" where
  "match_bar_tag s =
     Option.bind (List.find (\<lambda>p. starts_with p s) [''</'' @ bar, ''<'' @ bar]) (\<lambda>p.
       map_option (\<lambda>(_, r). ((), r)) (until_tag ''>'' (drop (length p) s)))"

definition remove_tool_markup :: "string \<Rightarrow> string" where
  "remove_tool_markup s = remove_matches match_function_block (remove_matches (match_block ''<tool_call>'' ''</tool_call>'') s)"

definition remove_dsml_markup :: "string \<Rightarrow> string" where
  "remove_dsml_markup s =
     remove_matches match_bar_tag (remove_matches (match_block (''<'' @ dsml ''invoke'') (''</'' @ dsml ''invoke>''))
       (remove_matches (match_block (''<'' @ dsml ''function_calls>'') (''</'' @ dsml ''function_calls>'')) (remove_tool_markup s)))"

subsection \<open>The families\<close>

datatype adapter_kind = Generic | Gemma4 | Qwen35 | Qwen36 | Nemotron3

record chat_adapter =
  kind :: adapter_kind
  tier_name :: string
  identity_prompt :: string

definition adapter_table :: "(string \<times> adapter_kind) list" where
  "adapter_table = [(''gemma4'', Gemma4), (''qwen35'', Qwen35), (''qwen36'', Qwen36), (''nemotron3'', Nemotron3)]"

definition create_adapter :: "string \<Rightarrow> string \<Rightarrow> string \<Rightarrow> chat_adapter" where
  "create_adapter name tier prompt =
     \<lparr>kind = (case map_of adapter_table (map c_tolower name) of None \<Rightarrow> Generic | Some k \<Rightarrow> k),
      tier_name = tier, identity_prompt = prompt\<rparr>"

definition thinking_markers :: "adapter_kind \<Rightarrow> string \<times> string" where
  "thinking_markers k = (if k = Gemma4 then (''<|channel>'', ''<channel|>'') else (''<think>'', ''</think>''))"

definition chat_format :: "adapter_kind \<Rightarrow> string" where
  "chat_format k = (case k of Gemma4 \<Rightarrow> ''gemma4'' | Nemotron3 \<Rightarrow> [] | _ \<Rightarrow> ''chatml'')"

text \<open>The counters behind the identifiers of calls.\<close>

record id_counters =
  base_ids :: nat
  qwen35_ids :: nat
  qwen36_ids :: nat
  nemotron3_ids :: nat

record parse_result =
  cleaned_content :: string
  parsed_calls :: "tool_call list"

text \<open>The result, \<^const>\<open>None\<close> for an exception of the printer or a strip that does not end.\<close>

definition or_tagged :: "json_lib \<Rightarrow> string \<Rightarrow> tool_call list \<Rightarrow> id_counters \<Rightarrow> tool_call list \<times> id_counters" where
  "or_tagged lib s calls ids =
     (if calls \<noteq> [] then (calls, ids)
      else case parse_tagged_tool_calls lib (base_ids ids) s of (cs, n) \<Rightarrow> (cs, ids\<lparr>base_ids := n\<rparr>))"

definition calls_of :: "json_lib \<Rightarrow> adapter_kind \<Rightarrow> id_counters \<Rightarrow> string \<Rightarrow> tool_call list option \<times> id_counters" where
  "calls_of lib k ids s =
     (case k of
        Generic \<Rightarrow> (case or_tagged lib s [] ids of (cs, ids') \<Rightarrow> (Some cs, ids'))
      | Gemma4 \<Rightarrow> (case recover_action_envelope_calls lib (base_ids ids) s of (r, n) \<Rightarrow> (r, ids\<lparr>base_ids := n\<rparr>))
      | Qwen35 \<Rightarrow>
          (case parse_xml_function_calls (qwen35_ids ids) s of (cs, n) \<Rightarrow>
             case or_tagged lib s cs (ids\<lparr>qwen35_ids := n\<rparr>) of (cs', ids') \<Rightarrow> (Some cs', ids'))
      | Qwen36 \<Rightarrow>
          (case parse_xml_function_calls (qwen36_ids ids) s of (cs, n) \<Rightarrow>
             case or_tagged lib s cs (ids\<lparr>qwen36_ids := n\<rparr>) of (cs', ids') \<Rightarrow> (Some cs', ids'))
      | Nemotron3 \<Rightarrow>
          (case parse_dsml_function_calls (nemotron3_ids ids) s of (ds, n) \<Rightarrow>
             case (if ds \<noteq> [] then (ds, n) else parse_xml_function_calls n s) of (cs, n') \<Rightarrow>
             case or_tagged lib s cs (ids\<lparr>nemotron3_ids := n'\<rparr>) of (cs', ids') \<Rightarrow> (Some cs', ids')))"

definition clean_content :: "adapter_kind \<Rightarrow> string \<Rightarrow> string option" where
  "clean_content k s =
     strip_think_blocks (thinking_markers k)
       (case k of
          Generic \<Rightarrow> remove_matches (match_block ''<tool_call>'' ''</tool_call>'') s
        | Gemma4 \<Rightarrow> s
        | Nemotron3 \<Rightarrow> remove_dsml_markup s
        | _ \<Rightarrow> remove_tool_markup s)"

definition parse_tool_calls :: "json_lib \<Rightarrow> adapter_kind \<Rightarrow> id_counters \<Rightarrow> string \<Rightarrow> parse_result option \<times> id_counters" where
  "parse_tool_calls lib k ids s =
     (case calls_of lib k ids s of
        (None, ids') \<Rightarrow> (None, ids')
      | (Some cs, ids') \<Rightarrow> (map_option (\<lambda>c. \<lparr>cleaned_content = c, parsed_calls = cs\<rparr>) (clean_content k s), ids'))"

definition is_response_complete :: "adapter_kind \<Rightarrow> string \<Rightarrow> tool_call list \<Rightarrow> bool option" where
  "is_response_complete k s calls =
     (if calls \<noteq> [] then Some False
      else if find_str ''<think>'' s \<noteq> None \<and> find_str ''</think>'' s = None then Some False
      else map_option (\<lambda>t. t \<noteq> []) (strip_think_blocks (thinking_markers k) s))"

subsection \<open>What the model is shown\<close>

definition nl :: string where
  "nl = [CHR 0x0A]"

definition TOOL_RESULT_SUFFIX :: string where
  "TOOL_RESULT_SUFFIX = ''Continue. Batch multiple tool calls in one response when possible.''"

definition format_tool_result :: "adapter_kind \<Rightarrow> tool_call \<Rightarrow> string \<Rightarrow> message" where
  "format_tool_result k tc r =
     text_message ''user''
       (if k \<in> {Qwen35, Qwen36, Nemotron3}
        then ''<tool_response>'' @ nl @ r @ nl @ ''</tool_response>'' @ nl @ nl @ TOOL_RESULT_SUFFIX
        else ''Tool `'' @ call_name tc @ ''` returned:'' @ nl @ nl @ r @ nl @ nl @ TOOL_RESULT_SUFFIX)"

text \<open>Texts written to a stream in order until one of them throws.\<close>

fun write_until :: "string option list \<Rightarrow> string \<times> bool" where
  "write_until [] = ([], True)"
| "write_until (None # ws) = ([], False)"
| "write_until (Some w # ws) = (case write_until ws of (s, ok) \<Rightarrow> (w @ s, ok))"

definition describe_tool :: "json_lib \<Rightarrow> string \<Rightarrow> string" where
  "describe_tool lib tool_json =
     (case jparse lib tool_json of
        None \<Rightarrow> ''### (malformed tool definition)'' @ nl @ nl
      | Some j \<Rightarrow>
          (case write_until [Some ''### '', json_value get_string j ''name'' ''unknown'', Some nl,
                  json_value get_string j ''description'' ''No description'',
                  Some (nl @ nl @ ''Schema:'' @ nl @ ''```json'' @ nl),
                  Option.bind (json_value Some j ''inputSchema'' (JObject [])) (jdump2 lib), Some (nl @ ''```'' @ nl @ nl)] of
             (s, ok) \<Rightarrow> s @ (if ok then [] else ''### (malformed tool definition)'' @ nl @ nl)))"

definition format_tools_base :: "json_lib \<Rightarrow> string list \<Rightarrow> string" where
  "format_tools_base lib tool_jsons =
     ''## Tools'' @ nl @ nl @ ''Call tools with: `<tool_call>{'' @ quoted ''name'' @ '': '' @ quoted ''tool.name'' @ '', '' @
     quoted ''arguments'' @ '': {...}}</tool_call>`'' @ nl @
     ''Batch independent calls in one response with multiple `<tool_call>` blocks.'' @ nl @ nl @
     concat (map (describe_tool lib) tool_jsons)"

definition tool_def :: "json_lib \<Rightarrow> string \<Rightarrow> json list" where
  "tool_def lib tool_json =
     (case Option.bind (jparse lib tool_json) (\<lambda>j.
        Option.bind (json_value get_string j ''name'' ''unknown'') (\<lambda>n.
        Option.bind (json_value get_string j ''description'' []) (\<lambda>d.
        map_option (\<lambda>p. (n, d, p)) (json_value Some j ''inputSchema'' (JObject []))))) of
        None \<Rightarrow> []
      | Some (n, d, p) \<Rightarrow> [JObject [(''function'', JObject [(''description'', JString d), (''name'', JString n), (''parameters'', p)]),
            (''type'', JString ''function'')]])"

definition build_tool_defs :: "json_lib \<Rightarrow> string list \<Rightarrow> json" where
  "build_tool_defs lib tool_jsons = JArray (concat (map (tool_def lib) tool_jsons))"

definition tools_preamble :: "json_lib \<Rightarrow> string list \<Rightarrow> string option" where
  "tools_preamble lib tool_jsons =
     map_option (\<lambda>d. ''# Tools'' @ nl @ nl @ ''You may call one or more functions to assist with the user query.'' @ nl @
       ''Put your final answer OUTSIDE of any tool calls.'' @ nl @ nl @ ''Here are the available tools:'' @ nl @
       ''<tools>'' @ nl @ d @ nl @ ''</tools>'' @ nl @ nl) (jdump2 lib (build_tool_defs lib tool_jsons))"

definition format_tools :: "json_lib \<Rightarrow> adapter_kind \<Rightarrow> string list \<Rightarrow> string option" where
  "format_tools lib k tool_jsons =
     (case k of
        Nemotron3 \<Rightarrow> map_option (\<lambda>p. p @ ''For each function call, emit a DSML invoke block:'' @ nl @
          ''<'' @ dsml ''function_calls>'' @ nl @ ''<'' @ dsml ''invoke name='' @ quoted ''example.tool'' @ ''>'' @ nl @
          ''<'' @ dsml ''parameter name='' @ quoted ''param_name'' @ '' string='' @ quoted ''value'' @ ''/>'' @ nl @
          ''</'' @ dsml ''invoke>'' @ nl @ ''</'' @ dsml ''function_calls>'') (tools_preamble lib tool_jsons)
      | Generic \<Rightarrow> Some (format_tools_base lib tool_jsons)
      | Gemma4 \<Rightarrow> Some (format_tools_base lib tool_jsons)
      | _ \<Rightarrow> map_option (\<lambda>p. p @ ''For each function call, return within <tool_call></tool_call> XML tags:'' @ nl @
          ''<tool_call>'' @ nl @ ''<function=example_function>'' @ nl @ ''<parameter=param_name>value</parameter>'' @ nl @
          ''</function>'' @ nl @ ''</tool_call>'') (tools_preamble lib tool_jsons))"

definition VISION_INSTRUCTION :: string where
  "VISION_INSTRUCTION = nl @ nl @ ''You can see and analyze images. When the user shares an image, describe what you '' @
     ''observe before responding to their question.''"

definition format_system_with_vision :: "adapter_kind \<Rightarrow> string \<Rightarrow> bool \<Rightarrow> string" where
  "format_system_with_vision k base_system has_vision =
     (if k \<in> {Qwen35, Qwen36} \<and> has_vision then base_system @ VISION_INSTRUCTION else base_system)"

definition part_json :: "content_part \<Rightarrow> json" where
  "part_json p =
     (if part_type p = TEXT then JObject [(''text'', JString (part_text p)), (''type'', JString ''text'')]
      else JObject ((if image_path p = [] then [] else [(''path'', JString (image_path p))]) @ [(''type'', JString ''image'')] @
             (if image_url p = [] then [] else [(''url'', JString (image_url p))])))"

definition format_content_parts :: "json_lib \<Rightarrow> content_part list \<Rightarrow> string option" where
  "format_content_parts lib parts = jdump lib (JArray (map part_json parts))"

subsection \<open>Lemmas: stripping\<close>

lemma strip_loop_returns: "om \<noteq> [] \<Longrightarrow> \<exists>r. strip_loop om cm s = Some r \<and> \<not> sublist om r"
proof (induction s rule: length_induct)
  case (1 s)
  show ?case
  proof (cases "find_str om s")
    case None
    then show ?thesis using find_str_None [OF None] by (subst strip_loop.simps) simp
  next
    case (Some i)
    have "i + length om \<le> length s" by (rule find_str_len [OF Some])
    then have "length (take i s) < length s" "length (take i s @ drop (i + length om + k + length cm) s) < length s" for k
      using "1.prems" by (auto simp: neq_Nil_conv)
    then have "\<exists>r. strip_loop om cm (take i s) = Some r \<and> \<not> sublist om r"
      "\<exists>r. strip_loop om cm (take i s @ drop (i + length om + k + length cm) s) = Some r \<and> \<not> sublist om r" for k
      using 1 by blast+
    then show ?thesis using Some by (subst strip_loop.simps) (simp split: option.split)
  qed
qed

lemma strip_loop_none: "\<not> sublist om s \<Longrightarrow> strip_loop om cm s = Some s"
  using find_str_Some [of om s] by (subst strip_loop.simps, cases "find_str om s") (auto simp: sublist_def)

lemma trim_by_sublist: "sublist (trim_by P s) s"
proof -
  have "suffix (dropWhile P s) s" by (rule suffix_dropWhile)
  moreover have "prefix (rev (dropWhile P (rev t))) t" for t
    using suffix_dropWhile [of P "rev t"] by (simp add: suffix_to_prefix)
  ultimately show ?thesis unfolding trim_by_def by (meson prefix_imp_sublist sublist_order.order_trans suffix_imp_sublist)
qed

lemma trim_by_idem: "trim_by P (trim_by P s) = trim_by P s"
proof -
  have front: "dropWhile P (trim_by P s) = trim_by P s"
  proof (cases "dropWhile P s")
    case (Cons c t)
    then have "\<not> P c" by (metis dropWhile_eq_Cons_conv)
    moreover have "trim_by P s = c # rev (dropWhile P (rev t)) \<or> trim_by P s = [c]"
      using Cons \<open>\<not> P c\<close> by (auto simp: trim_by_def dropWhile_append)
    ultimately show ?thesis by auto
  next
    case Nil
    then have "trim_by P s = []" unfolding trim_by_def by (simp only: rev.simps dropWhile.simps)
    then show ?thesis by simp
  qed
  have "dropWhile P (rev (trim_by P s)) = rev (trim_by P s)" by (simp add: trim_by_def dropWhile_idem)
  then show ?thesis using front by (subst trim_by_def) simp
qed

text \<open>
  Claim C37. Stripping the reasoning blocks of a reply always returns, leaves no opening delimiter of the family
  in the text, and changes nothing when it is done again.
\<close>

theorem strip_think_ends:
  "\<exists>r. strip_think_blocks (thinking_markers k) s = Some r \<and> \<not> sublist (fst (thinking_markers k)) r \<and>
       strip_think_blocks (thinking_markers k) r = Some r"
proof -
  obtain om cm where m: "thinking_markers k = (om, cm)" by (cases "thinking_markers k")
  then have om: "om \<noteq> []" by (auto simp: thinking_markers_def split: if_splits)
  obtain r where r: "strip_loop om cm s = Some r" "\<not> sublist om r" using strip_loop_returns [OF om] by blast
  have "\<not> sublist om (trim_ws r)" using r(2) trim_by_sublist sublist_order.order_trans unfolding trim_ws_def by blast
  then show ?thesis using r m strip_loop_none [of om "trim_ws r" cm] by (simp add: strip_think_blocks_def trim_ws_def trim_by_idem)
qed

text \<open>A family that declares no markers, which the interface describes as turning the strip off, hangs it instead.\<close>

lemma strip_without_markers: "strip_loop om cm s = Some r \<Longrightarrow> om \<noteq> [] \<or> cm \<noteq> []"
proof (rule strip_loop.raw_induct [where P = "\<lambda>om cm s r. om \<noteq> [] \<or> cm \<noteq> []"])
  fix f :: "string \<Rightarrow> string \<Rightarrow> string \<Rightarrow> string option" and om cm s r
  assume "\<And>om cm s r. f om cm s = Some r \<Longrightarrow> om \<noteq> [] \<or> cm \<noteq> []"
    "(case find_str om s of None \<Rightarrow> Some s
      | Some i \<Rightarrow> (case find_str cm (drop (i + length om) s) of None \<Rightarrow> f om cm (take i s)
          | Some k \<Rightarrow> f om cm (take i s @ drop (i + length om + k + length cm) s))) = Some r"
  moreover have "find_str [] t = Some 0" for t by (cases t) (simp_all add: starts_with_Nil)
  ultimately show "om \<noteq> [] \<or> cm \<noteq> []" by (cases "om = [] \<and> cm = []") auto
qed

lemma empty_markers_hang: "strip_think_blocks ([], []) s = None"
  using strip_without_markers [of "[]" "[]" s] by (cases "strip_loop [] [] s") (auto simp: strip_think_blocks_def)

subsection \<open>Lemmas: reading calls back\<close>

text \<open>Calls written as \<^const>\<open>format_tools\<close> asks the model to, between texts.\<close>

definition render_param :: "string \<times> string \<Rightarrow> string" where
  "render_param kv = ''<parameter='' @ fst kv @ ''>'' @ snd kv @ ''</parameter>'' @ nl"

definition render_body :: "(string \<times> string) list \<Rightarrow> string" where
  "render_body args = nl @ concat (map render_param args)"

definition render_call :: "string \<times> (string \<times> string) list \<Rightarrow> string" where
  "render_call c = ''<tool_call>'' @ nl @ ''<function='' @ fst c @ ''>'' @ render_body (snd c) @ ''</function>'' @ nl @ ''</tool_call>''"

fun with_calls :: "(string \<times> string \<times> (string \<times> string) list) list \<Rightarrow> string \<Rightarrow> string" where
  "with_calls [] post = post"
| "with_calls ((t, c) # cs) post = t @ render_call c @ with_calls cs post"

definition param_ok :: "string \<times> string \<Rightarrow> bool" where
  "param_ok kv \<longleftrightarrow> fst kv \<noteq> [] \<and> trim_ws (fst kv) = fst kv \<and> CHR ''<'' \<notin> set (fst kv) \<and> CHR ''>'' \<notin> set (fst kv) \<and>
     snd kv \<noteq> [] \<and> trim_ws (snd kv) = snd kv \<and>
     (\<forall>tag\<in>{''</parameter>'', ''</'' @ fst kv @ ''>'', ''</function>'', ''<function=''}. \<not> sublist tag (snd kv))"

definition call_ok :: "string \<times> (string \<times> string) list \<Rightarrow> bool" where
  "call_ok c \<longleftrightarrow> fst c \<noteq> [] \<and> trim_name (fst c) = fst c \<and> CHR ''<'' \<notin> set (fst c) \<and> CHR ''>'' \<notin> set (fst c) \<and>
     distinct (map fst (snd c)) \<and> list_all param_ok (snd c)"

lemma after_prefix_append: "after_prefix p (p @ s) = Some s"
  by (simp add: after_prefix_def starts_with_def)

lemma run_before_append: "w \<noteq> [] \<Longrightarrow> c \<notin> set w \<Longrightarrow> run_before c (w @ c # s) = Some (w, s)"
  by (auto simp: run_before_def Let_def takeWhile_append takeWhile_eq_all_conv split: if_splits)

lemma tag_intros: "CHR ''<'' \<notin> set p \<Longrightarrow> is_tag (CHR ''<'') (CHR ''<'' # p)"
  by (simp add: is_tag_def)

text \<open>Searching a tag through parameters that do not contain it.\<close>

lemma find_tag_param:
  assumes "param_ok kv" "p \<in> {''/function>'', ''function=''}"
  shows "find_str (CHR ''<'' # p) (render_param kv @ y) = map_option (\<lambda>i. i + length (render_param kv)) (find_str (CHR ''<'' # p) y)"
proof -
  have tag: "is_tag (CHR ''<'') (CHR ''<'' # p)" using assms(2) by (intro tag_intros) auto
  have no_tag: "\<not> sublist (CHR ''<'' # p) (snd kv)" using assms by (auto simp: param_ok_def)
  have split: "render_param kv @ y = CHR ''<'' # (''parameter='' @ fst kv @ ''>'') @ snd kv @ CHR ''<'' # (''/parameter>'' @ nl) @ y"
    by (simp add: render_param_def)
  have no1: "\<not> starts_with (CHR ''<'' # p) (CHR ''<'' # (''parameter='' @ fst kv @ ''>'') @ z)" for z
    using assms(2) by (auto simp: starts_with_Cons)
  have no2: "\<not> starts_with (CHR ''<'' # p) (CHR ''<'' # (''/parameter>'' @ nl) @ z)" for z
    using assms(2) by (auto simp: starts_with_Cons)
  have nolt: "CHR ''<'' \<notin> set (''parameter='' @ fst kv @ ''>'')" "CHR ''<'' \<notin> set (''/parameter>'' @ nl)"
    using assms(1) by (simp_all add: param_ok_def nl_def)
  show ?thesis unfolding split find_tag_other [OF tag no1 nolt(1)] find_tag_text [OF tag no_tag] find_tag_other [OF tag no2 nolt(2)]
    by (simp add: option.map_comp comp_def render_param_def nl_def ac_simps)
qed

lemma find_tag_body:
  assumes "list_all param_ok args" "p \<in> {''/function>'', ''function=''}"
  shows "find_str (CHR ''<'' # p) (render_body args @ y) = map_option (\<lambda>i. i + length (render_body args)) (find_str (CHR ''<'' # p) y)"
proof -
  have tag: "is_tag (CHR ''<'') (CHR ''<'' # p)" using assms(2) by (intro tag_intros) auto
  have "find_str (CHR ''<'' # p) (concat (map render_param args) @ y) =
      map_option (\<lambda>i. i + length (concat (map render_param args))) (find_str (CHR ''<'' # p) y)"
    using assms(1)
    by (induction args) (simp_all add: find_tag_param [OF _ assms(2)] option.map_comp comp_def option.map_ident ac_simps)
  moreover have "CHR ''<'' \<notin> set nl" by (simp add: nl_def)
  ultimately show ?thesis by (simp add: render_body_def find_tag_skip [OF tag] option.map_comp comp_def ac_simps)
qed

lemma match_function_call:
  assumes "call_ok (name, args)"
  shows "match_function (''<function='' @ name @ ''>'' @ render_body args @ ''</function>'' @ z) = Some ((name, render_body args), z)"
proof -
  have "find_str ''</function>'' (render_body args @ ''</function>'' @ z) = Some (length (render_body args))"
    using find_tag_body [of args "''/function>''" "''</function>'' @ z"] assms by (simp add: call_ok_def starts_with_Cons starts_with_Nil)
  then show ?thesis using assms run_before_append [of name "CHR ''>''" "render_body args @ ''</function>'' @ z"]
    by (simp add: match_function_def call_ok_def after_prefix_append [of "''<function=''", simplified] until_tag_def)
qed

lemma find_close_param:
  assumes "param_ok (k, v)"
  shows "find_close_tag (v @ ''</parameter>'' @ y) k = Some (length v, 12)"
proof -
  have k: "CHR ''<'' \<notin> set k" "CHR ''>'' \<notin> set k" and v: "\<not> sublist ''</parameter>'' v" "\<not> sublist (''</'' @ k @ ''>'') v"
    using assms by (simp_all add: param_ok_def)
  have p: "find_str ''</parameter>'' (v @ ''</parameter>'' @ y) = Some (length v)"
    using find_tag_text [OF tag_intros, of "''/parameter>''" v "''/parameter>'' @ y"] v(1) by (simp add: starts_with_Cons starts_with_Nil)
  have n: "find_str (''</'' @ k @ ''>'') (v @ ''</parameter>'' @ y) =
      map_option (\<lambda>i. i + length v) (find_str (''</'' @ k @ ''>'') (''</parameter>'' @ y))"
    using find_tag_text [OF tag_intros, of "''/'' @ k @ ''>''" v "''/parameter>'' @ y"] v(2) k by simp
  define N where "N = find_str (''</'' @ k @ ''>'') (''</parameter>'' @ y)"
  have close: "find_close_tag (v @ ''</parameter>'' @ y) k = (case N of None \<Rightarrow> Some (length v, 12)
      | Some n \<Rightarrow> if 0 < n then Some (length v, 12) else Some (length v, length k + 3))"
    unfolding find_close_tag_def Let_def p n N_def [symmetric] by (cases N) simp_all
  have par: "k = ''parameter''" if "N = Some 0"
  proof -
    from that N_def have "starts_with (k @ ''>'') (''parameter>'' @ y)" by (simp add: starts_with_Cons split: if_splits)
    then have "prefix (k @ ''>'') (''parameter>'' @ y)" by (simp only: starts_with_iff_prefix)
    then obtain z where "k @ ''>'' @ z = ''parameter'' @ ''>'' @ y" by (auto simp: prefix_def)
    then have "takeWhile (\<lambda>c. c \<noteq> CHR ''>'') (k @ ''>'' @ z) = takeWhile (\<lambda>c. c \<noteq> CHR ''>'') (''parameter'' @ ''>'' @ y)" by simp
    moreover have "\<forall>c\<in>set k. c \<noteq> CHR ''>''" using k(2) by auto
    ultimately show ?thesis by (simp add: takeWhile_append)
  qed
  show ?thesis
  proof (cases N)
    case (Some i)
    then show ?thesis using close par by (cases i) simp_all
  qed (use close in simp)
qed

lemma search_first_skip: "(\<And>a b. x = a @ b \<Longrightarrow> b \<noteq> [] \<Longrightarrow> m (b @ y) = None) \<Longrightarrow> search_first m (x @ y) = search_first m y"
proof (induction x)
  case (Cons c x)
  have "m (c # x @ y) = None" using Cons.prems [of "[]" "c # x"] by simp
  moreover have "search_first m (x @ y) = search_first m y"
    by (rule Cons.IH) (metis Cons.prems append_Cons)
  ultimately show ?case by simp
qed simp

lemma search_parameter:
  assumes "param_ok (k, v)"
  shows "search_first match_parameter (nl @ render_param (k, v) @ y) = Some (k, v @ ''</parameter>'' @ nl @ y)"
proof -
  have "match_parameter (nl @ z) = None" for z
    by (simp add: match_parameter_def after_prefix_def starts_with_Cons nl_def)
  moreover have "match_parameter (''<parameter='' @ k @ ''>'' @ z) = Some (k, z)" for z
    using assms run_before_append [of k "CHR ''>''" z]
    by (simp add: match_parameter_def param_ok_def after_prefix_append [of "''<parameter=''", simplified])
  then have "match_parameter (render_param (k, v) @ y) = Some (k, v @ ''</parameter>'' @ nl @ y)"
    by (simp add: render_param_def)
  ultimately show ?thesis by (auto simp: nl_def render_param_def)
qed

lemma parameters_from_body:
  "list_all param_ok args \<Longrightarrow> distinct (map fst (acc @ args)) \<Longrightarrow> parameters_from (nl @ concat (map render_param args)) acc = acc @ args"
proof (induction args arbitrary: acc)
  case Nil
  then show ?case by (subst parameters_from.simps) (simp add: nl_def match_parameter_def after_prefix_def starts_with_Cons starts_with_Nil)
next
  case (Cons kv args)
  obtain k v where kv: "kv = (k, v)" by (cases kv)
  have ok: "param_ok (k, v)" using Cons.prems(1) kv by simp
  then have triv: "trim_ws k = k" "k \<noteq> []" "trim_ws v = v" "v \<noteq> []" by (simp_all add: param_ok_def)
  have new: "AList.update k v acc = acc @ [(k, v)]" using Cons.prems(2) kv by (intro AList_update_new) auto
  have "parameters_from (nl @ concat (map render_param (kv # args))) acc = parameters_from (nl @ concat (map render_param args)) (acc @ [(k, v)])"
    using search_parameter [OF ok, of "concat (map render_param args)"] find_close_param [OF ok, of "nl @ concat (map render_param args)"] triv new
    by (subst parameters_from.simps) (simp add: kv emit_arg_def Let_def)
  then show ?case using Cons kv by simp
qed

lemma parse_parameters_body:
  assumes "list_all param_ok args" "distinct (map fst args)"
  shows "parse_xml_parameters (render_body args) = args"
proof -
  have "find_str ''<function='' (render_body args) = None"
    using find_tag_body [of args "''function=''" "[]"] assms(1) by simp
  then show ?thesis using parameters_from_body [of args "[]"] assms
    by (simp add: parse_xml_parameters_def truncate_at_nested_function_def render_body_def)
qed

lemma match_function_None: "\<not> starts_with ''<function='' s \<Longrightarrow> match_function s = None"
  by (simp add: match_function_def after_prefix_def)

lemma find_function_text:
  "\<not> sublist ''<function='' t \<Longrightarrow> find_matches match_function (t @ CHR ''<'' # y) = find_matches match_function (CHR ''<'' # y)"
proof (induction t)
  case (Cons c t)
  have "\<not> starts_with ''<function='' (c # t @ CHR ''<'' # y)"
    using Cons.prems starts_with_crossing [of "CHR ''<''" "''function=''" t y]
    by (auto simp: starts_with_Cons [of _ "''function=''"] starts_with_iff_prefix sublist_Cons_right)
  moreover have "\<not> sublist ''<function='' t" using Cons.prems by (auto simp: sublist_Cons_right)
  ultimately show ?case using Cons.IH by (simp add: match_function_None)
qed simp

lemma find_function_none: "\<not> sublist ''<function='' t \<Longrightarrow> find_matches match_function t = []"
proof (induction t)
  case (Cons c t)
  then have "\<not> starts_with ''<function='' (c # t)" by (auto simp: starts_with_iff_prefix sublist_Cons_right)
  moreover have "\<not> sublist ''<function='' t" using Cons.prems by (auto simp: sublist_Cons_right)
  ultimately show ?case using Cons.IH by (simp add: match_function_None)
qed simp

lemma find_function_skip: "CHR ''<'' \<notin> set x \<Longrightarrow> find_matches match_function (x @ y) = find_matches match_function y"
  by (induction x) (auto simp: match_function_None starts_with_Cons)

lemma find_function_call:
  assumes "call_ok (name, args)"
  shows "find_matches match_function (render_call (name, args) @ y) = (name, render_body args) # find_matches match_function y"
proof -
  let ?z = "nl @ ''</tool_call>'' @ y"
  have "find_matches match_function (render_call (name, args) @ y) =
    find_matches match_function (''<function='' @ name @ ''>'' @ render_body args @ ''</function>'' @ ?z)"
    by (simp add: render_call_def match_function_None starts_with_Cons nl_def)
  also have "\<dots> = (name, render_body args) # find_matches match_function ?z"
    using match_function_call [OF assms, of ?z] by simp
  also have "find_matches match_function ?z = find_matches match_function y"
    by (simp add: match_function_None starts_with_Cons nl_def)
  finally show ?thesis .
qed

lemma find_functions:
  "list_all (\<lambda>(t, c). \<not> sublist ''<function='' t \<and> call_ok c) cs \<Longrightarrow> \<not> sublist ''<function='' post \<Longrightarrow>
   find_matches match_function (with_calls cs post) = map (\<lambda>(t, name, args). (name, render_body args)) cs"
proof (induction cs)
  case (Cons tc cs)
  obtain t name args where tc: "tc = (t, name, args)" by (cases tc)
  obtain y where y: "render_call (name, args) @ with_calls cs post = CHR ''<'' # y" by (simp add: render_call_def)
  have "find_matches match_function (with_calls (tc # cs) post) = find_matches match_function (render_call (name, args) @ with_calls cs post)"
    unfolding tc with_calls.simps y by (rule find_function_text) (use Cons.prems tc in simp)
  then show ?case using Cons tc by (simp add: find_function_call)
qed (simp add: find_function_none)


definition demo_lib :: json_lib where
  "demo_lib = \<lparr>jparse = (\<lambda>s. if s = ''{call}'' then Some (JObject [(''name'', JString ''fs.list'')]) else None),
     jdump = (\<lambda>_. Some ''0''), jdump2 = (\<lambda>_. Some ''0'')\<rparr>"

definition fresh_ids :: id_counters where
  "fresh_ids = \<lparr>base_ids = 0, qwen35_ids = 0, qwen36_ids = 0, nemotron3_ids = 0\<rparr>"


subsection \<open>Surprises\<close>

text \<open>
  The identifier of a call is documented as unique, but each source file counts for itself: a call in a function
  block and a later one in a tagged block of the same adapter are both \<open>tc-0\<close>.
\<close>

lemma call_ids_repeat:
  "(let r1 = calls_of demo_lib Qwen35 fresh_ids ''<function=fs.list></function>'';
        r2 = calls_of demo_lib Qwen35 (snd r1) ''<tool_call>{call}</tool_call>''
    in map_option (map call_id) (fst r1) = Some [''tc-0''] \<and> map_option (map call_id) (fst r2) = Some [''tc-0''])"
  by code_simp

text \<open>Four opening tags are recognised, but only one of them is taken out of the reply.\<close>

lemma parsed_call_stays_in_content:
  "(let s = ''<|tool_call>{call}</tool_call>''; r = fst (parse_tool_calls demo_lib Qwen35 fresh_ids s)
    in map_option (map call_name \<circ> parsed_calls) r = Some [''fs.list''] \<and> map_option cleaned_content r = Some s)"
  by code_simp

end
