(* ===== verification/Response_Parse.thy ===== *)
theory Response_Parse
  imports Chat_Adapters Stream_Filter
begin

text \<open>
  The parse of a complete reply (\<open>inference/response_parse.cpp\<close>, the parsing part of
  \<open>inference/llama_cpp_backend.cpp\<close>): the template parser of the model library is tried first where it
  can be relied on, its calls are checked against the required parameters of the tool schemas, and otherwise the adapter
  parses the text. The template parser is a parameter. With it the diagnosis of empty replies
  (\<open>inference/empty_content_diagnosis.h\<close>) and the stop marker of sequential tiers (\<open>inference/tool_call_markers.h\<close>).
  Proved: calls of the template parser are only passed on with all their required parameters, and the strip of
  the whole reply gives what the filter of the stream has shown.
\<close>

subsection \<open>Required parameters\<close>

definition string_elements :: "json \<Rightarrow> string list" where
  "string_elements j = concat (map (\<lambda>r. case r of JString s \<Rightarrow> [s] | _ \<Rightarrow> []) (json_elements j))"

text \<open>Whether the tool is known, and its required parameters; \<^const>\<open>None\<close> is an exception.\<close>

fun required_in :: "json list \<Rightarrow> string \<Rightarrow> (bool \<times> string list) option" where
  "required_in [] name = Some (False, [])"
| "required_in (t # ts) name =
     (if \<not> is_object t then required_in ts name
      else Option.bind (json_value_string t ''name'') (\<lambda>n.
        if n \<noteq> name then required_in ts name
        else Option.bind (json_value Some t ''inputSchema'' (JObject [])) (\<lambda>schema.
             map_option (\<lambda>req. (True, string_elements req)) (json_value Some schema ''required'' (JArray [])))))"

definition required_params :: "json_lib \<Rightarrow> string \<Rightarrow> string \<Rightarrow> (bool \<times> string list) option" where
  "required_params lib tools_json name =
     (case jparse lib tools_json of Some (JArray tools) \<Rightarrow> required_in tools name | _ \<Rightarrow> Some (False, []))"

definition has_all_required :: "json \<Rightarrow> string list \<Rightarrow> bool" where
  "has_all_required args required = list_all (json_contains args) required"

definition one_call_satisfies_schema :: "json_lib \<Rightarrow> tool_call \<Rightarrow> string \<Rightarrow> bool option" where
  "one_call_satisfies_schema lib call tools_json =
     map_option (\<lambda>(known, required).
        if \<not> known \<or> required = [] then True
        else case jparse lib (arguments_json call) of
               Some (JObject kvs) \<Rightarrow> has_all_required (JObject kvs) required
             | _ \<Rightarrow> False)
       (required_params lib tools_json (call_name call))"

fun all_satisfy :: "json_lib \<Rightarrow> string \<Rightarrow> tool_call list \<Rightarrow> bool option" where
  "all_satisfy lib tools_json [] = Some True"
| "all_satisfy lib tools_json (c # cs) =
     Option.bind (one_call_satisfies_schema lib c tools_json) (\<lambda>ok. if ok then all_satisfy lib tools_json cs else Some False)"

definition calls_satisfy_schema :: "json_lib \<Rightarrow> tool_call list \<Rightarrow> string \<Rightarrow> bool option" where
  "calls_satisfy_schema lib calls tools_json =
     (if calls = [] \<or> tools_json = [] then Some True else all_satisfy lib tools_json calls)"

subsection \<open>The template parser\<close>

datatype chat_format_id = PEG_NATIVE | PEG_SIMPLE | PEG_GEMMA4 | Other_Format

record chat_msg =
  msg_content :: string
  msg_reasoning :: string
  msg_calls :: "(string \<times> string \<times> string) list"

text \<open>
  The backend's part: the snapshot of the last render with tools, the staged tools, and the library's parser, which
  gives \<^const>\<open>None\<close> where it throws. A call of the library is its identifier, name and arguments.
\<close>

record template_state =
  parse_params_valid :: bool
  parse_chat_format :: chat_format_id
  active_tools_json :: string
  have_chat_params :: bool
  last_chat_format :: chat_format_id
  common_chat_parse :: "string \<Rightarrow> chat_msg option"

definition common_chat_parse_reliable :: "template_state \<Rightarrow> bool" where
  "common_chat_parse_reliable b \<longleftrightarrow> parse_params_valid b \<and> parse_chat_format b = PEG_GEMMA4"

definition to_entropic_tool_call :: "json_lib \<Rightarrow> string \<times> string \<times> string \<Rightarrow> tool_call option" where
  "to_entropic_tool_call lib cc =
     (case cc of (i, name, args) \<Rightarrow>
        case jparse lib args of
          Some (JObject kvs) \<Rightarrow>
            map_option (\<lambda>ts. \<lparr>call_id = i, call_name = name,
                call_arguments = foldl (\<lambda>m (k, v). AList.update k v m) [] ts, arguments_json = args\<rparr>)
              (get_all (\<lambda>(k, v). map_option (Pair k) (text_of_value lib v)) kvs)
        | _ \<Rightarrow> Some \<lparr>call_id = i, call_name = name, call_arguments = [], arguments_json = args\<rparr>)"

text \<open>The text without channels and the reasoning taken out of it.\<close>

function strip_channels :: "string \<Rightarrow> string \<Rightarrow> string \<times> string" where
  "strip_channels s reasoning =
     (case find_str ''<|channel>'' s of
        None \<Rightarrow> (s, reasoning)
      | Some i \<Rightarrow>
          let r = drop (i + 10) s in
          (case find_str ''<channel|>'' r of
             None \<Rightarrow> strip_channels (take i s) (reasoning @ r)
           | Some k \<Rightarrow> strip_channels (take i s @ drop (k + 10) r) (reasoning @ take k r)))"
  by pat_completeness auto
termination
proof (relation "measure (\<lambda>(s, _). length s)")
  fix s reasoning :: string and i and r :: string
  assume "find_str ''<|channel>'' s = Some i" "r = drop (i + 10) s"
  then have len: "i + 10 \<le> length s" "length r = length s - (i + 10)" using find_str_len [of "''<|channel>''" s i] by simp_all
  then show "((take i s, reasoning @ r), (s, reasoning)) \<in> measure (\<lambda>(s, _). length s)" by simp
  show "((take i s @ drop (k + 10) r, reasoning @ take k r), (s, reasoning)) \<in> measure (\<lambda>(s, _). length s)" for k
    using len by simp
qed simp

declare strip_channels.simps [simp del]

definition strip_thinking_channels :: "string \<Rightarrow> string \<Rightarrow> string \<times> string" where
  "strip_thinking_channels s reasoning =
     (case strip_channels s reasoning of (t, r) \<Rightarrow>
        (if find_str ''<|channel>'' s \<noteq> None then dropWhile is_ws t else t, r))"

record chat_result =
  res_content :: string
  res_reasoning :: string
  res_calls :: "tool_call list"

text \<open>The calls pushed before one of them throws stay.\<close>

fun push_calls :: "json_lib \<Rightarrow> (string \<times> string \<times> string) list \<Rightarrow> tool_call list \<times> bool" where
  "push_calls lib [] = ([], True)"
| "push_calls lib (c # cs) =
     (case to_entropic_tool_call lib c of
        None \<Rightarrow> ([], False)
      | Some tc \<Rightarrow> (case push_calls lib cs of (tcs, ok) \<Rightarrow> (tc # tcs, ok)))"

definition parse_response :: "json_lib \<Rightarrow> template_state \<Rightarrow> string \<Rightarrow> chat_result" where
  "parse_response lib b raw =
     (if \<not> parse_params_valid b then \<lparr>res_content = raw, res_reasoning = [], res_calls = []\<rparr>
      else case common_chat_parse b raw of
             None \<Rightarrow> \<lparr>res_content = raw, res_reasoning = [], res_calls = []\<rparr>
           | Some msg \<Rightarrow>
               (case strip_thinking_channels (msg_content msg) (msg_reasoning msg) of (c, r) \<Rightarrow>
                case push_calls lib (msg_calls msg) of (tcs, pushed) \<Rightarrow>
                case (if pushed then coerce_string_typed_args lib tcs (active_tools_json b) else (tcs, False)) of (tcs', ok) \<Rightarrow>
                  \<lparr>res_content = (if ok then c else raw), res_reasoning = r, res_calls = tcs'\<rparr>))"

subsection \<open>The reply\<close>

record parsed_response =
  out_content :: string
  out_calls :: "tool_call list"
  used_template :: bool

text \<open>\<^const>\<open>None\<close> is an exception, \<^term>\<open>Some None\<close> a template parse that is not used.\<close>

definition try_template_parse :: "json_lib \<Rightarrow> nat \<Rightarrow> template_state option \<Rightarrow> string \<Rightarrow> (string \<times> tool_call list) option option \<times> nat" where
  "try_template_parse lib n llama raw =
     (case llama of
        None \<Rightarrow> (Some None, n)
      | Some b \<Rightarrow>
          if \<not> common_chat_parse_reliable b then (Some None, n)
          else let p = parse_response lib b raw in
            (case apply_action_envelope_recovery lib n (res_calls p) raw of
               (None, n') \<Rightarrow> (None, n')
             | (Some cs, n') \<Rightarrow>
                 (map_option (\<lambda>ok. if ok then Some (res_content p, cs) else None) (calls_satisfy_schema lib cs (active_tools_json b)), n')))"

definition parse_model_response ::
  "json_lib \<Rightarrow> id_counters \<Rightarrow> template_state option \<Rightarrow> adapter_kind option \<Rightarrow> string \<Rightarrow> parsed_response option \<times> id_counters" where
  "parse_model_response lib ids llama adapter raw =
     (let strip = (\<lambda>r ids'. (case adapter of
             None \<Rightarrow> (Some r, ids')
           | Some k \<Rightarrow> (map_option (\<lambda>t. r\<lparr>out_content := t\<rparr>) (strip_think_blocks (thinking_markers k) (out_content r)), ids')))
      in case try_template_parse lib (base_ids ids) llama raw of
           (None, n) \<Rightarrow> (None, ids\<lparr>base_ids := n\<rparr>)
         | (Some (Some (c, cs)), n) \<Rightarrow> strip \<lparr>out_content = c, out_calls = cs, used_template = True\<rparr> (ids\<lparr>base_ids := n\<rparr>)
         | (Some None, n) \<Rightarrow>
             (case adapter of
                None \<Rightarrow> strip \<lparr>out_content = raw, out_calls = [], used_template = False\<rparr> (ids\<lparr>base_ids := n\<rparr>)
              | Some k \<Rightarrow>
                  (case parse_tool_calls lib k (ids\<lparr>base_ids := n\<rparr>) raw of
                     (None, ids') \<Rightarrow> (None, ids')
                   | (Some p, ids') \<Rightarrow>
                       strip \<lparr>out_content = cleaned_content p, out_calls = parsed_calls p, used_template = False\<rparr> ids')))"

subsection \<open>Empty replies\<close>

datatype empty_content_cause = not_empty | tool_call_only | budget_truncated | model_stopped | unknown

definition diagnose_empty_content :: "bool \<Rightarrow> bool \<Rightarrow> string \<Rightarrow> bool \<Rightarrow> empty_content_cause" where
  "diagnose_empty_content content_empty produced_tokens finish_reason has_tool_calls =
     (if \<not> content_empty \<or> \<not> produced_tokens then not_empty
      else if has_tool_calls then tool_call_only
      else if finish_reason = ''length'' then budget_truncated
      else if finish_reason = ''stop'' then model_stopped
      else unknown)"

definition explain_empty_content :: "empty_content_cause \<Rightarrow> string" where
  "explain_empty_content cause =
     (case cause of
        tool_call_only \<Rightarrow> ''The turn'' @ [CHR 0x27] @ ''s entire output was tool calls, which the adapter moved out of the content '' @ em_dash @
          '' nothing was lost. This is the expected shape for a sequential tool-call tier and needs no tuning.''
      | budget_truncated \<Rightarrow> ''The generation hit its token budget while still inside a reasoning block, so no answer was ever '' @
          ''produced and the content is empty. This is a budget problem: raise max_tokens for this tier.''
      | model_stopped \<Rightarrow> ''The model ended the turn while still inside an unterminated reasoning block, so the content is empty. '' @
          ''finish_reason is '' @ squoted ''stop'' @ '', NOT '' @ squoted ''length'' @ '' '' @ em_dash @
          '' this is not a budget problem and raising max_tokens will not help. The prompt or tier configuration is not '' @
          ''converging on an answer.''
      | unknown \<Rightarrow> ''The turn produced tokens but delivered no content, and the finish reason does not explain why. This is '' @
          ''not a parse error; report it with the raw generation attached.''
      | not_empty \<Rightarrow> [])"

subsection \<open>Stop markers\<close>

definition close_marker_for_format :: "chat_format_id \<Rightarrow> string" where
  "close_marker_for_format fmt =
     (case fmt of PEG_GEMMA4 \<Rightarrow> ''<tool_call|>'' | Other_Format \<Rightarrow> [] | _ \<Rightarrow> ''</tool_call>'')"

definition append_sequential_stop :: "string \<Rightarrow> string list \<Rightarrow> string \<Rightarrow> string list" where
  "append_sequential_stop tool_call_mode stops marker =
     (if tool_call_mode \<noteq> ''sequential'' \<or> marker = [] then stops
      else if marker \<in> set stops then stops else stops @ [marker])"

definition tool_call_close_marker :: "template_state \<Rightarrow> string" where
  "tool_call_close_marker b = (if have_chat_params b then close_marker_for_format (last_chat_format b) else [])"

definition effective_stop :: "template_state \<Rightarrow> string \<Rightarrow> string list \<Rightarrow> string list" where
  "effective_stop b tool_call_mode stops = append_sequential_stop tool_call_mode stops (tool_call_close_marker b)"

subsection \<open>Lemmas\<close>

lemma strip_loop_blocks:
  assumes tags: "is_tag (CHR ''<'') om" "is_tag (CHR ''<'') cm"
    and "list_all (\<lambda>(t, b). CHR ''<'' \<notin> set t \<and> CHR ''<'' \<notin> set b) blocks" "CHR ''<'' \<notin> set post" "CHR ''<'' \<notin> set acc"
  shows "strip_loop om cm (acc @ with_blocks om cm blocks post) = Some (acc @ concat (map fst blocks) @ post)"
  using assms(3,5)
proof (induction blocks arbitrary: acc)
  case Nil
  have "\<not> sublist om (acc @ post)"
  proof
    assume "sublist om (acc @ post)"
    then have "set om \<subseteq> set (acc @ post)" by (rule set_mono_sublist)
    then show False using Nil.prems(2) assms(4) tags(1) by (auto simp: is_tag_def)
  qed
  then show ?case by (simp add: strip_loop_none)
next
  case (Cons tb blocks)
  obtain t b where tb: "tb = (t, b)" by (cases tb)
  let ?rest = "with_blocks om cm blocks post"
  have lt: "CHR ''<'' \<notin> set (acc @ t)" "CHR ''<'' \<notin> set b" using Cons.prems tb by auto
  have self: "find_str m (m @ y) = Some 0" for m y by (cases "m @ y"; cases m) (auto simp: starts_with_def)
  have om: "find_str om ((acc @ t) @ om @ b @ cm @ ?rest) = Some (length (acc @ t))"
    by (simp only: find_tag_skip [OF tags(1) lt(1)] self option.map) simp
  have cm: "find_str cm (b @ cm @ ?rest) = Some (length b)"
    by (simp only: find_tag_skip [OF tags(2) lt(2)] self option.map) simp
  have "strip_loop om cm ((acc @ t) @ om @ b @ cm @ ?rest) = strip_loop om cm ((acc @ t) @ ?rest)"
    using om cm by (subst strip_loop.simps) simp
  then show ?case using Cons.IH [of "acc @ t"] Cons.prems(1) tb lt(1) by simp
qed



lemma all_satisfy_member: "all_satisfy lib tj cs = Some True \<Longrightarrow> c \<in> set cs \<Longrightarrow> one_call_satisfies_schema lib c tj = Some True"
  by (induction cs) (auto simp: bind_eq_Some_conv split: if_splits)

lemma template_parse_checked:
  "try_template_parse lib n (Some b) raw = (Some (Some (t, cs)), n') \<Longrightarrow> calls_satisfy_schema lib cs (active_tools_json b) = Some True"
  by (auto simp: try_template_parse_def Let_def split: if_splits prod.splits option.splits)

text \<open>
  A reply parsed by the template parser is handed on only when every call to a known tool is an
  object that has all the parameters the schema requires.
\<close>

lemma template_calls_complete:
  assumes "parse_model_response lib ids (Some b) adapter raw = (Some r, ids')" "used_template r"
    and "c \<in> set (out_calls r)" "required_params lib (active_tools_json b) (call_name c) = Some (True, req)" "p \<in> set req"
    and "active_tools_json b \<noteq> []"
  shows "\<exists>kvs. jparse lib (arguments_json c) = Some (JObject kvs) \<and> p \<in> fst ` set kvs"
proof -
  obtain t n where "try_template_parse lib (base_ids ids) (Some b) raw = (Some (Some (t, out_calls r)), n)"
    using assms(1,2) by (auto simp: parse_model_response_def Let_def split: prod.splits option.splits)
  then have "calls_satisfy_schema lib (out_calls r) (active_tools_json b) = Some True" by (rule template_parse_checked)
  then have "one_call_satisfies_schema lib c (active_tools_json b) = Some True"
    using assms(3,6) by (auto simp: calls_satisfy_schema_def intro: all_satisfy_member split: if_splits)
  then show ?thesis using assms(4,5)
    by (auto simp: one_call_satisfies_schema_def has_all_required_def list_all_iff json_contains_def map_of_eq_None_iff
        split: option.splits json.splits if_splits)
qed

text \<open>An instance: a tool with one required parameter, and the same tool with a parameter of two types.\<close>

definition tool_schema :: "json \<Rightarrow> json" where
  "tool_schema ty = JArray [JObject [(''inputSchema'', JObject [(''properties'', JObject [(''p'', JObject [(''type'', ty)])]),
     (''required'', JArray [JString ''p''])]), (''name'', JString ''f'')]]"

definition chat_lib :: json_lib where
  "chat_lib = \<lparr>jparse = (\<lambda>s. if s = ''args'' then Some (JObject [(''p'', JString ''v'')])
       else if s = ''tools'' then Some (tool_schema (JString ''string''))
       else if s = ''union'' then Some (tool_schema (JArray [JString ''string'', JString ''null''])) else None),
     jdump = (\<lambda>_. Some ''0''), jdump2 = (\<lambda>_. Some ''0'')\<rparr>"

definition chat_state :: "string \<Rightarrow> template_state" where
  "chat_state tools = \<lparr>parse_params_valid = True, parse_chat_format = PEG_GEMMA4, active_tools_json = tools,
     have_chat_params = True, last_chat_format = PEG_GEMMA4,
     common_chat_parse = (\<lambda>_. Some \<lparr>msg_content = ''hi'', msg_reasoning = [], msg_calls = [(''1'', ''f'', ''args'')]\<rparr>)\<rparr>"

lemma chat_reply:
  "parse_model_response chat_lib fresh_ids (Some (chat_state ''tools'')) None ''raw'' =
   (Some \<lparr>out_content = ''hi'', out_calls = [\<lparr>call_id = ''1'', call_name = ''f'', call_arguments = [(''p'', ''v'')], arguments_json = ''args''\<rparr>],
      used_template = True\<rparr>, fresh_ids)"
  by code_simp

lemma template_calls_complete_witness:
  "\<exists>kvs. jparse chat_lib ''args'' = Some (JObject kvs) \<and> ''p'' \<in> fst ` set kvs"
proof -
  have "required_params chat_lib ''tools'' ''f'' = Some (True, [''p''])" by code_simp
  then show ?thesis using template_calls_complete [OF chat_reply, of _ "[''p'']" "''p''"] by (simp add: chat_state_def)
qed

text \<open>
  A parameter whose schema has a list of types makes the lookup of string parameters throw. The handler in
  \<^const>\<open>parse_response\<close> then takes the whole parse for failed: the reply becomes the raw text, with the call
  still in the list of calls.
\<close>

lemma union_type_spoils_reply:
  "res_content (parse_response chat_lib (chat_state ''tools'') ''raw'') = ''hi'' \<and>
   res_content (parse_response chat_lib (chat_state ''union'') ''raw'') = ''raw'' \<and>
   map call_name (res_calls (parse_response chat_lib (chat_state ''union'') ''raw'')) = [''f'']"
  by code_simp

end
