(* ===== verification/Constitutional_Validator.thy ===== *)
theory Constitutional_Validator
  imports Engine_Loop
begin

text \<open>
  The constitutional validator (\<open>core/constitutional_validator.cpp\<close>, \<open>types/validation.h\<close>): after a
  generation the reply is critiqued by the model itself, revised as often as the configuration allows, and a verdict is
  kept; with automatic retries off the first failed critique waits for the consumer's decision.

  Inference and the consumer's callbacks are parameters that act on a world; the thread-local context of the turn is
  part of the state. The file reads and writes JSON by hand; texts that cross the C interface end
  at the first NUL. Proved: what the engine writes into the hook's context the validator reads back, the number of
  generations is bounded, the verdict tells whether the last critique was met, and a waiting result is settled once.
\<close>

record violation =
  v_rule :: string
  v_excerpt :: string
  v_explanation :: string

record critique =
  compliant :: bool
  violations :: "violation list"
  revised :: string
  raw_json :: string

definition no_critique :: critique where
  "no_critique = \<lparr>compliant = True, violations = [], revised = [], raw_json = []\<rparr>"

datatype validation_verdict = V_passed | V_revised | V_reverted_length | V_max_revisions | V_skipped | V_paused | V_override

record validation_result =
  vr_content :: string
  was_revised :: bool
  revision_count :: int
  final_critique :: critique
  vr_verdict :: validation_verdict
  attempt_n :: int

definition new_result :: "string \<Rightarrow> validation_result" where
  "new_result s = \<lparr>vr_content = s, was_revised = False, revision_count = 0, final_critique = no_critique, vr_verdict = V_passed, attempt_n = 0\<rparr>"

record cv_config =
  cv_enabled :: bool
  max_revisions :: int
  max_critique_tokens :: int
  cv_temperature :: rat
  cv_enable_thinking :: bool
  cv_priority :: int
  grammar_key :: string
  skip_tiers :: "string list"
  critique_tier :: string

record pending_validation =
  pend_result :: validation_result
  pend_critique :: critique
  pend_messages :: string
  pend_tier :: string
  pend_system_prompt :: string

record turn_context =
  current_tier :: string
  current_tool_context :: string
  current_tool_evidence :: string
  current_system_prompt :: string

type_synonym 'w generate = "'w \<Rightarrow> string \<Rightarrow> string \<Rightarrow> 'w \<times> int \<times> string option"

record 'w validator =
  cv_cfg :: cv_config
  constitution_text :: string
  inference :: "'w generate option"
  global_enabled :: bool
  marker_resolver :: "(string \<Rightarrow> string \<times> string) option"
  identity_overrides :: "(string \<times> bool) list"
  tier_rules :: "(string \<times> string list) list"
  last_result :: validation_result
  auto_retry_enabled :: bool
  pending_state :: "pending_validation option"
  attempt_boundary :: "('w \<Rightarrow> int \<Rightarrow> 'w) option"
  critique_start :: "('w \<Rightarrow> 'w) option"
  critique_end :: "('w \<Rightarrow> 'w) option"
  turn :: turn_context

definition new_validator :: "cv_config \<Rightarrow> string \<Rightarrow> 'w validator" where
  "new_validator cfg constitution =
     \<lparr>cv_cfg = cfg, constitution_text = constitution, inference = None, global_enabled = cv_enabled cfg, marker_resolver = None,
      identity_overrides = [], tier_rules = [], last_result = new_result [], auto_retry_enabled = True, pending_state = None,
      attempt_boundary = None, critique_start = None, critique_end = None,
      turn = \<lparr>current_tier = [], current_tool_context = [], current_tool_evidence = [], current_system_prompt = []\<rparr>\<rparr>"

subsection \<open>Registration and settings\<close>

text \<open>The validator's callback and its context are the two pointers of the hook entry.\<close>

definition attach :: "nat \<Rightarrow> nat \<Rightarrow> hook_registry option \<Rightarrow> 'w generate option \<Rightarrow> 'w validator \<Rightarrow> entropic_error \<times> hook_registry option \<times> 'w validator" where
  "attach cb ud hook_iface iface v =
     (let v' = v\<lparr>inference := iface\<rparr> in
      case hook_iface of
        None \<Rightarrow> (ENTROPIC_ERROR_INVALID_ARGUMENT, None, v')
      | Some reg \<Rightarrow> (case register_hook reg 1 cb ud (cv_priority (cv_cfg v)) of (e, reg') \<Rightarrow> (e, Some reg', v')))"

definition detach :: "nat \<Rightarrow> nat \<Rightarrow> hook_registry option \<Rightarrow> hook_registry option" where
  "detach cb ud hook_iface = map_option (\<lambda>reg. snd (deregister_hook reg 1 cb ud)) hook_iface"

definition should_validate :: "'w validator \<Rightarrow> string \<Rightarrow> bool" where
  "should_validate v identity =
     (case map_of (identity_overrides v) identity of
        Some b \<Rightarrow> b
      | None \<Rightarrow> if identity \<in> set (skip_tiers (cv_cfg v)) then False else global_enabled v)"

definition set_global_enabled :: "bool \<Rightarrow> 'w validator \<Rightarrow> 'w validator" where
  "set_global_enabled b v = v\<lparr>global_enabled := b\<rparr>"

definition set_marker_resolver :: "(string \<Rightarrow> string \<times> string) option \<Rightarrow> 'w validator \<Rightarrow> 'w validator" where
  "set_marker_resolver r v = v\<lparr>marker_resolver := r\<rparr>"

definition set_auto_retry :: "bool \<Rightarrow> 'w validator \<Rightarrow> 'w validator" where
  "set_auto_retry b v = v\<lparr>auto_retry_enabled := b\<rparr>"

definition set_attempt_boundary_cb :: "('w \<Rightarrow> int \<Rightarrow> 'w) option \<Rightarrow> 'w validator \<Rightarrow> 'w validator" where
  "set_attempt_boundary_cb f v = v\<lparr>attempt_boundary := f\<rparr>"

definition set_critique_callbacks :: "('w \<Rightarrow> 'w) option \<Rightarrow> ('w \<Rightarrow> 'w) option \<Rightarrow> 'w validator \<Rightarrow> 'w validator" where
  "set_critique_callbacks f g v = v\<lparr>critique_start := f, critique_end := g\<rparr>"

definition set_identity_validation :: "string \<Rightarrow> bool \<Rightarrow> 'w validator \<Rightarrow> 'w validator" where
  "set_identity_validation identity b v = v\<lparr>identity_overrides := AList.update identity b (identity_overrides v)\<rparr>"

definition set_tier_rules :: "string \<Rightarrow> string list \<Rightarrow> 'w validator \<Rightarrow> 'w validator" where
  "set_tier_rules identity rules v = v\<lparr>tier_rules := AList.update identity rules (tier_rules v)\<rparr>"

definition set_turn_context :: "string \<Rightarrow> string \<Rightarrow> string \<Rightarrow> string \<Rightarrow> 'w validator \<Rightarrow> 'w validator" where
  "set_turn_context tier tool_context tool_evidence prompt v =
     v\<lparr>turn := \<lparr>current_tier = tier, current_tool_context = tool_context, current_tool_evidence = tool_evidence,
       current_system_prompt = prompt\<rparr>\<rparr>"

definition store_result :: "validation_result \<Rightarrow> 'w validator \<Rightarrow> 'w validator" where
  "store_result r v = v\<lparr>last_result := r\<rparr>"

subsection \<open>JSON by hand\<close>

definition json_escape_text :: "string \<Rightarrow> string" where
  "json_escape_text s = concat (map escape_char s)"

definition unescaped :: "char \<Rightarrow> char" where
  "unescaped c = (if c = CHR ''n'' then CHR 0x0A else if c = CHR ''t'' then CHR 0x09 else if c = CHR ''r'' then CHR 0x0D else c)"

text \<open>A string value up to its closing quote or the end of the text.\<close>

fun read_value :: "string \<Rightarrow> string" where
  "read_value [] = []"
| "read_value [c] = (if c = CHR 0x22 then [] else [c])"
| "read_value (c # d # s) =
     (if c = CHR 0x22 then []
      else if c = CHR 0x5C then unescaped d # read_value s
      else c # read_value (d # s))"

definition extract_string_after_colon :: "string \<Rightarrow> string" where
  "extract_string_after_colon s =
     (case dropWhile (\<lambda>c. c = CHR '' '' \<or> c = CHR '':'' \<or> c = CHR 0x09) s of
        c # r \<Rightarrow> if c = CHR 0x22 then read_value r else []
      | [] \<Rightarrow> [])"

definition extract_json_string :: "string \<Rightarrow> string \<Rightarrow> string" where
  "extract_json_string json key =
     (let s = c_string json in
      case find_str (quoted key) s of
        None \<Rightarrow> []
      | Some i \<Rightarrow> extract_string_after_colon (drop (i + length (quoted key)) s))"

text \<open>Whether the field is there, and its value: which of the two words comes first behind it.\<close>

definition extract_compliant_field :: "string \<Rightarrow> bool option" where
  "extract_compliant_field json =
     map_option (\<lambda>i. case (find_str ''true'' (drop i json), find_str ''false'' (drop i json)) of
          (Some t, Some f) \<Rightarrow> t < f | (Some _, None) \<Rightarrow> True | (None, _) \<Rightarrow> False)
       (find_str (quoted ''compliant'') json)"

definition violation_at :: "string \<Rightarrow> violation" where
  "violation_at s = \<lparr>v_rule = extract_json_string s ''rule'', v_excerpt = extract_json_string s ''excerpt'',
     v_explanation = extract_json_string s ''explanation''\<rparr>"

function extract_violations :: "string \<Rightarrow> violation list" where
  "extract_violations s =
     (case find_str (quoted ''rule'') s of
        None \<Rightarrow> []
      | Some i \<Rightarrow> violation_at (drop i s) # extract_violations (drop (Suc i) s))"
  by pat_completeness auto
termination
proof (relation "measure length")
  fix s i
  assume "find_str (quoted ''rule'') s = Some i"
  then have "i + length (quoted ''rule'') \<le> length s" by (rule find_str_len)
  then show "(drop (Suc i) s, s) \<in> measure length" by (simp add: quoted_def)
qed simp

declare extract_violations.simps [simp del]

definition parse_critique :: "string \<Rightarrow> critique" where
  "parse_critique json =
     (case extract_compliant_field json of
        None \<Rightarrow> \<lparr>compliant = True, violations = [], revised = [], raw_json = json\<rparr>
      | Some b \<Rightarrow> \<lparr>compliant = b, violations = extract_violations json, revised = extract_json_string json ''revised'', raw_json = json\<rparr>)"

subsection \<open>Prompts\<close>

definition lf :: string where
  "lf = [CHR 0x0A]"

definition append_turn_evidence :: "turn_context \<Rightarrow> string" where
  "append_turn_evidence t =
     (if current_tool_context t = [] then [] else lf @ lf @ ''Tool calls made this turn:'' @ lf @ current_tool_context t) @
     (if current_tool_evidence t = [] then []
      else lf @ lf @ ''Tool result evidence (verify citations against this):'' @ lf @ current_tool_evidence t)"

definition build_critique_prompt :: "'w validator \<Rightarrow> string \<Rightarrow> string" where
  "build_critique_prompt v s =
     ''You are a compliance evaluator. Respond ONLY with the structured JSON evaluation.'' @ lf @ lf @
     (case map_of (tier_rules v) (current_tier (turn v)) of
        Some (r # rs) \<Rightarrow>
          ''Evaluate against these rules for the '' @ squoted (current_tier (turn v)) @ '' identity:'' @ lf @
          concat (map (\<lambda>r. ''- '' @ r @ lf) (r # rs)) @ lf @ ''Background constitutional guidance:'' @ lf @ constitution_text v
      | _ \<Rightarrow> ''Constitutional Rules:'' @ lf @ constitution_text v) @
     append_turn_evidence (turn v) @
     lf @ lf @ ''Evaluate this output for compliance:'' @ lf @ lf @ ''---'' @ lf @ s @ lf @ ''---''"

definition build_single_turn_json :: "string \<Rightarrow> string" where
  "build_single_turn_json prompt =
     ''[{'' @ quoted ''role'' @ '':'' @ quoted ''user'' @ '','' @ quoted ''content'' @ '':'' @ quoted (json_escape_text prompt) @ ''}]''"

definition build_critique_messages :: "'w validator \<Rightarrow> string \<Rightarrow> string" where
  "build_critique_messages v s = build_single_turn_json (build_critique_prompt v s)"

definition build_critique_params :: "cv_config \<Rightarrow> string" where
  "build_critique_params c =
     ''{'' @ quoted ''grammar_key'' @ '':'' @ quoted (grammar_key c) @ '','' @ quoted ''max_tokens'' @ '':'' @ to_string_int (max_critique_tokens c) @
     '','' @ quoted ''temperature'' @ '':'' @ to_string_float (cv_temperature c) @
     '','' @ quoted ''enable_thinking'' @ '':'' @ (if cv_enable_thinking c then ''true'' else ''false'') @
     (if critique_tier c = [] then [] else '','' @ quoted ''tier'' @ '':'' @ quoted (critique_tier c)) @ ''}''"

text \<open>The source writes a backslash and an \<open>n\<close> here, not a line break.\<close>

definition backslash_n :: string where
  "backslash_n = [CHR 0x5C, CHR ''n'']"

definition build_feedback_text :: "critique \<Rightarrow> string" where
  "build_feedback_text c =
     ''Your response violated these constitutional rules:'' @ backslash_n @
     concat (map (\<lambda>x. ''- '' @ v_rule x @ '': '' @ v_explanation x @ backslash_n) (violations c)) @
     ''Please revise your response to comply with all constitutional rules.''"

definition inject_feedback_into_messages :: "'w validator \<Rightarrow> string \<Rightarrow> string \<Rightarrow> string option \<Rightarrow> string" where
  "inject_feedback_into_messages v original feedback messages_json =
     (let base = (case messages_json of
            Some m \<Rightarrow> m
          | None \<Rightarrow> ''[{'' @ quoted ''role'' @ '':'' @ quoted ''system'' @ '','' @ quoted ''content'' @ '':'' @
              quoted (json_escape_text (if current_system_prompt (turn v) \<noteq> [] then current_system_prompt (turn v) else constitution_text v)) @ ''}'');
          base1 = (if base \<noteq> [] \<and> last base = CHR '']'' then butlast base else base);
          base2 = (if length base1 > 1 then base1 @ '','' else base1)
      in base2 @ ''{'' @ quoted ''role'' @ '':'' @ quoted ''assistant'' @ '','' @ quoted ''content'' @ '':'' @ quoted (json_escape_text original) @
         ''},{'' @ quoted ''role'' @ '':'' @ quoted ''system'' @ '','' @ quoted ''content'' @ '':'' @
         quoted (json_escape_text (''[CONSTITUTIONAL REVIEW] '' @ feedback)) @ ''}]'')"

definition build_revision_messages :: "'w validator \<Rightarrow> string \<Rightarrow> critique \<Rightarrow> string option \<Rightarrow> string" where
  "build_revision_messages v original c messages_json = inject_feedback_into_messages v original (build_feedback_text c) messages_json"

subsection \<open>Critique and revision\<close>

definition run_critique :: "'w validator \<Rightarrow> 'w \<Rightarrow> string \<Rightarrow> 'w \<times> critique" where
  "run_critique v w s =
     (case inference v of
        None \<Rightarrow> (w, no_critique)
      | Some gen \<Rightarrow>
          (let w1 = (case critique_start v of None \<Rightarrow> w | Some f \<Rightarrow> f w) in
           case gen w1 (c_string (build_critique_messages v s)) (c_string (build_critique_params (cv_cfg v))) of (w2, rc, out) \<Rightarrow>
             let w3 = (case critique_end v of None \<Rightarrow> w2 | Some f \<Rightarrow> f w2)
             in (w3, case out of Some raw \<Rightarrow> if rc \<noteq> 0 then no_critique else parse_critique (c_string raw) | None \<Rightarrow> no_critique)))"

definition revise :: "'w validator \<Rightarrow> 'w \<Rightarrow> string \<Rightarrow> critique \<Rightarrow> string option \<Rightarrow> 'w \<times> string" where
  "revise v w original c messages_json =
     (case inference v of
        None \<Rightarrow> (w, original)
      | Some gen \<Rightarrow>
          (case gen w (c_string (build_revision_messages v original c messages_json)) ''{}'' of (w1, rc, out) \<Rightarrow>
             (w1, case out of Some raw \<Rightarrow> if rc \<noteq> 0 then original else c_string raw | None \<Rightarrow> original)))"

definition attempt_revision :: "'w validator \<Rightarrow> 'w \<Rightarrow> string \<Rightarrow> critique \<Rightarrow> string option \<Rightarrow> 'w \<times> string" where
  "attempt_revision v w s c messages_json = (if revised c \<noteq> [] then (w, revised c) else revise v w s c messages_json)"

text \<open>The loop with the revisions left, and the number of the next one minus one; the last flag is the early return.\<close>

fun revision_loop :: "'w validator \<Rightarrow> string option \<Rightarrow> nat \<Rightarrow> int \<Rightarrow> 'w \<Rightarrow> validation_result \<Rightarrow> critique \<Rightarrow> 'w \<times> validation_result \<times> critique \<times> bool" where
  "revision_loop v messages_json 0 i w r c = (w, r, c, False)"
| "revision_loop v messages_json (Suc n) i w r c =
     (let w1 = (case attempt_boundary v of None \<Rightarrow> w | Some f \<Rightarrow> f w (i + 1)) in
      case attempt_revision v w1 (vr_content r) c messages_json of (w2, new) \<Rightarrow>
      if length new < length (vr_content r) div 2
      then (w2, r\<lparr>vr_verdict := V_reverted_length, attempt_n := i + 1\<rparr>, c, True)
      else case run_critique v w2 new of (w3, c') \<Rightarrow>
        let r' = r\<lparr>vr_content := new, was_revised := True, revision_count := i + 1, attempt_n := i + 1, final_critique := c'\<rparr>
        in if compliant c' then (w3, r', c', False)
           else revision_loop v messages_json n (i + 1) w3 r' c')"

definition apply_revisions :: "'w validator \<Rightarrow> 'w \<Rightarrow> validation_result \<Rightarrow> critique \<Rightarrow> string option \<Rightarrow> 'w \<times> validation_result" where
  "apply_revisions v w r c messages_json =
     (case revision_loop v messages_json (nat (max_revisions (cv_cfg v))) 0 w r c of (w', r', c', reverted) \<Rightarrow>
        (w', if reverted then r'
             else if \<not> compliant c' then r'\<lparr>vr_verdict := V_max_revisions\<rparr>
             else if was_revised r' then r'\<lparr>vr_verdict := V_revised\<rparr> else r'))"

definition run_validation_loop :: "'w validator \<Rightarrow> 'w \<Rightarrow> string \<Rightarrow> string \<Rightarrow> string option \<Rightarrow> 'w validator \<times> 'w \<times> validation_result" where
  "run_validation_loop v w s tier messages_json =
     (case run_critique v w s of (w1, c) \<Rightarrow>
        let r = (new_result s)\<lparr>final_critique := c\<rparr> in
        if compliant c then (v, w1, r)
        else if \<not> auto_retry_enabled v
        then (let r' = r\<lparr>vr_verdict := V_paused, attempt_n := 0\<rparr>
              in (v\<lparr>pending_state := Some \<lparr>pend_result = r', pend_critique = c,
                     pend_messages = (case messages_json of None \<Rightarrow> [] | Some m \<Rightarrow> m), pend_tier = tier,
                     pend_system_prompt = current_system_prompt (turn v)\<rparr>\<rparr>, w1, r'))
        else case apply_revisions v w1 r c messages_json of (w2, r') \<Rightarrow> (v, w2, r'))"

text \<open>The source appends what stands outside the blocks; \<^const>\<open>None\<close> is a loop that does not end.\<close>

partial_function (option) strip_reasoning_from :: "string \<Rightarrow> string \<Rightarrow> string \<Rightarrow> string \<Rightarrow> string option" where
  "strip_reasoning_from om cm done s =
     (if s = [] then Some done
      else case find_str om s of
             None \<Rightarrow> Some (done @ s)
           | Some i \<Rightarrow>
               (case find_str cm (drop (i + length om) s) of
                  None \<Rightarrow> Some (done @ take i s)
                | Some k \<Rightarrow> strip_reasoning_from om cm (done @ take i s) (drop (i + length om + k + length cm) s)))"

declare strip_reasoning_from.simps [code]

definition strip_reasoning :: "string \<Rightarrow> string \<times> string \<Rightarrow> string option" where
  "strip_reasoning s markers = strip_reasoning_from (fst markers) (snd markers) [] s"

function erase_tool_calls :: "string \<Rightarrow> string" where
  "erase_tool_calls s =
     (case find_str ''<tool_call>'' s of
        None \<Rightarrow> s
      | Some i \<Rightarrow>
          (case find_str ''</tool_call>'' (drop i s) of
             None \<Rightarrow> s
           | Some k \<Rightarrow> erase_tool_calls (take i s @ drop (i + k + 12) s)))"
  by pat_completeness auto
termination
proof (relation "measure length")
  fix s :: string and i k
  assume "find_str ''<tool_call>'' s = Some i" "find_str ''</tool_call>'' (drop i s) = Some k"
  then show "(take i s @ drop (i + k + 12) s, s) \<in> measure length"
    using find_str_len [of "''<tool_call>''" s i] by simp
qed simp

declare erase_tool_calls.simps [simp del]

definition is_pure_tool_call :: "string \<Rightarrow> bool" where
  "is_pure_tool_call s = list_all (\<lambda>c. c = CHR '' '' \<or> c = CHR 0x09 \<or> c = CHR 0x0A \<or> c = CHR 0x0D) (erase_tool_calls s)"

text \<open>\<^const>\<open>None\<close> is a strip that does not end.\<close>

definition validate :: "'w validator \<Rightarrow> 'w \<Rightarrow> string \<Rightarrow> string \<Rightarrow> string option \<Rightarrow> ('w validator \<times> 'w \<times> validation_result) option" where
  "validate v w s tier messages_json =
     (let skipped = (new_result s)\<lparr>vr_verdict := V_skipped\<rparr> in
      if \<not> should_validate v tier then Some (store_result skipped v, w, skipped)
      else map_option (\<lambda>cleaned.
             if cleaned = [] \<or> is_pure_tool_call cleaned then (store_result skipped v, w, skipped)
             else case run_validation_loop (v\<lparr>turn := (turn v)\<lparr>current_tier := tier\<rparr>\<rparr>) w cleaned tier messages_json of
                    (v', w', r) \<Rightarrow> (store_result r v', w', r))
           (strip_reasoning s (case marker_resolver v of None \<Rightarrow> (''<think>'', ''</think>'') | Some f \<Rightarrow> f tier)))"

subsection \<open>The consumer's decision\<close>

definition resume_retry :: "'w validator \<Rightarrow> 'w \<Rightarrow> entropic_error \<times> 'w validator \<times> 'w" where
  "resume_retry v w =
     (case pending_state v of
        None \<Rightarrow> (ENTROPIC_ERROR_INVALID_STATE, v, w)
      | Some p \<Rightarrow>
          (let v1 = set_turn_context (pend_tier p) [] [] (pend_system_prompt p) (v\<lparr>pending_state := None\<rparr>) in
           case apply_revisions v1 w (pend_result p) (pend_critique p)
                  (if pend_messages p = [] then None else Some (c_string (pend_messages p))) of
             (w1, r) \<Rightarrow> (ENTROPIC_OK, store_result r v1, w1)))"

definition accept_last :: "'w validator \<Rightarrow> entropic_error \<times> 'w validator" where
  "accept_last v =
     (case pending_state v of
        None \<Rightarrow> (ENTROPIC_ERROR_INVALID_STATE, v)
      | Some p \<Rightarrow> (ENTROPIC_OK, store_result ((pend_result p)\<lparr>vr_verdict := V_override\<rparr>) (v\<lparr>pending_state := None\<rparr>)))"

subsection \<open>The hook\<close>

definition write_modified_json :: "string \<Rightarrow> string" where
  "write_modified_json s = ''{'' @ quoted ''content'' @ '':'' @ quoted (json_escape_text s) @ ''}''"

text \<open>The replacement the hook gives out is read as a C string.\<close>

definition handle_hook :: "'w validator \<Rightarrow> 'w \<Rightarrow> string \<Rightarrow> ('w validator \<times> 'w \<times> string option) option" where
  "handle_hook v w context_json =
     (let s = extract_json_string context_json ''content''; tier = extract_json_string context_json ''tier'' in
      if s = [] then Some (v, w, None)
      else map_option (\<lambda>(v', w', r). (v', w', if was_revised r then Some (c_string (write_modified_json (vr_content r))) else None))
        (validate (set_turn_context tier (extract_json_string context_json ''tool_context'')
             (extract_json_string context_json ''tool_evidence'') (extract_json_string context_json ''system_prompt'') v) w s tier None))"

subsection \<open>Lemmas: the loop\<close>

lemma revision_loop_spec:
  assumes "final_critique r = c" "\<not> compliant c"
  shows "case revision_loop v m n i w r c of (w', r', c', reverted) \<Rightarrow>
    final_critique r' = c' \<and> (reverted \<longrightarrow> vr_verdict r' = V_reverted_length \<and> \<not> compliant c') \<and>
    (\<not> reverted \<longrightarrow> vr_verdict r' = vr_verdict r \<and> (compliant c' \<longrightarrow> was_revised r')) \<and>
    attempt_n r' \<le> max (attempt_n r) (i + int n)"
  using assms
proof (induction n arbitrary: i w r c)
  case (Suc n)
  let ?w1 = "case attempt_boundary v of None \<Rightarrow> w | Some f \<Rightarrow> f w (i + 1)"
  obtain w2 new where rev: "attempt_revision v ?w1 (vr_content r) c m = (w2, new)" by (cases "attempt_revision v ?w1 (vr_content r) c m")
  obtain w3 c' where cr: "run_critique v w2 new = (w3, c')" by (cases "run_critique v w2 new")
  let ?r = "r\<lparr>vr_content := new, was_revised := True, revision_count := i + 1, attempt_n := i + 1, final_critique := c'\<rparr>"
  show ?case
  proof (cases "length new < length (vr_content r) div 2 \<or> compliant c'")
    case True
    then show ?thesis using rev cr Suc.prems by (auto simp: Let_def)
  next
    case False
    then have "revision_loop v m (Suc n) i w r c = revision_loop v m n (i + 1) w3 ?r c'" using rev cr by (simp add: Let_def)
    then show ?thesis using Suc.IH [of ?r c' "i + 1" w3] False by (auto split: prod.splits)
  qed
qed simp

lemma apply_revisions_spec:
  assumes "final_critique r = c" "\<not> compliant c" "attempt_n r = 0" "apply_revisions v w r c m = (w', r')"
  shows "vr_verdict r' \<in> {V_reverted_length, V_max_revisions, V_revised}"
    and "compliant (final_critique r') \<longleftrightarrow> vr_verdict r' = V_revised"
    and "vr_verdict r' = V_revised \<Longrightarrow> was_revised r'"
    and "attempt_n r' \<le> max 0 (max_revisions (cv_cfg v))"
  using revision_loop_spec [OF assms(1,2), where v = v and m = m and n = "nat (max_revisions (cv_cfg v))" and i = 0 and w = w] assms(3,4)
  by (auto simp: apply_revisions_def split: prod.splits if_splits)

text \<open>Generations counted by a measure of the world.\<close>

definition counts :: "('w \<Rightarrow> nat) \<Rightarrow> 'w validator \<Rightarrow> bool" where
  "counts cnt v \<longleftrightarrow> (\<forall>gen. inference v = Some gen \<longrightarrow> (\<forall>w m p. cnt (fst (gen w m p)) = Suc (cnt w))) \<and>
     (\<forall>f w. critique_start v = Some f \<or> critique_end v = Some f \<longrightarrow> cnt (f w) = cnt w) \<and>
     (\<forall>f w i. attempt_boundary v = Some f \<longrightarrow> cnt (f w i) = cnt w)"

lemma run_critique_counts: "counts cnt v \<Longrightarrow> cnt (fst (run_critique v w s)) \<le> Suc (cnt w)"
proof (cases "inference v")
  case (Some gen)
  assume "counts cnt v"
  let ?w1 = "case critique_start v of None \<Rightarrow> w | Some f \<Rightarrow> f w"
  let ?g = "gen ?w1 (c_string (build_critique_messages v s)) (c_string (build_critique_params (cv_cfg v)))"
  have "cnt ?w1 = cnt w" "cnt (fst ?g) = Suc (cnt ?w1)"
    using \<open>counts cnt v\<close> Some by (auto simp: counts_def split: option.split)
  moreover have "fst (run_critique v w s) = (case critique_end v of None \<Rightarrow> fst ?g | Some f \<Rightarrow> f (fst ?g))"
    using Some by (simp add: run_critique_def Let_def split_beta)
  ultimately show ?thesis using \<open>counts cnt v\<close> by (auto simp: counts_def split: option.split)
qed (simp add: run_critique_def)

lemma attempt_revision_counts: "counts cnt v \<Longrightarrow> cnt (fst (attempt_revision v w s c m)) \<le> Suc (cnt w)"
proof (cases "inference v")
  case (Some gen)
  assume "counts cnt v"
  then have "cnt (fst (gen w x p)) = Suc (cnt w)" for x p using Some by (simp add: counts_def)
  moreover have "fst (revise v w s c m) = fst (gen w (c_string (build_revision_messages v s c m)) ''{}'')"
    using Some by (simp add: revise_def split: prod.split)
  ultimately show ?thesis by (simp add: attempt_revision_def)
qed (simp add: attempt_revision_def revise_def)

lemma revision_loop_counts: "counts cnt v \<Longrightarrow> cnt (fst (revision_loop v m n i w r c)) \<le> cnt w + 2 * n"
proof (induction n arbitrary: i w r c)
  case (Suc n)
  let ?w1 = "case attempt_boundary v of None \<Rightarrow> w | Some f \<Rightarrow> f w (i + 1)"
  obtain w2 new where rev: "attempt_revision v ?w1 (vr_content r) c m = (w2, new)" by (cases "attempt_revision v ?w1 (vr_content r) c m")
  obtain w3 c' where cr: "run_critique v w2 new = (w3, c')" by (cases "run_critique v w2 new")
  have "cnt ?w1 = cnt w" using Suc.prems by (auto simp: counts_def split: option.split)
  then have "cnt w2 \<le> Suc (cnt w)" "cnt w3 \<le> Suc (cnt w2)"
    using attempt_revision_counts [OF Suc.prems, of ?w1 "vr_content r" c m] run_critique_counts [OF Suc.prems, of w2 new] rev cr by simp_all
  moreover have "cnt (fst (revision_loop v m n (i + 1) w3 r' c')) \<le> cnt w3 + 2 * n" for r' by (rule Suc.IH [OF Suc.prems])
  moreover have "cnt (fst (revision_loop v m n (i + 1) w3 r' c')) \<le> Suc (Suc (cnt w + 2 * n))" for r'
    using calculation(3) [of r'] \<open>cnt w2 \<le> Suc (cnt w)\<close> \<open>cnt w3 \<le> Suc (cnt w2)\<close> by linarith
  ultimately show ?case using rev cr by (simp add: Let_def)
qed simp

text \<open>
  Claim C40. A validation that runs makes at most one critique and, per allowed revision, one revision and one more
  critique; its verdict is sound: it says that the reply passed or was revised exactly when the last critique found it
  compliant, a waiting verdict leaves the result for the consumer, and the stored result is the returned one.
\<close>

theorem validation_verdict_sound:
  assumes "validate v w s tier m = Some (v', w', r)" "vr_verdict r \<noteq> V_skipped"
  shows "(compliant (final_critique r) \<longleftrightarrow> vr_verdict r \<in> {V_passed, V_revised}) \<and>
    (vr_verdict r = V_revised \<longrightarrow> was_revised r) \<and> (vr_verdict r = V_passed \<longrightarrow> \<not> was_revised r) \<and>
    (vr_verdict r = V_paused \<longrightarrow> map_option pend_result (pending_state v') = Some r \<and> \<not> auto_retry_enabled v) \<and>
    attempt_n r \<le> max 0 (max_revisions (cv_cfg v)) \<and> last_result v' = r \<and>
    (\<forall>cnt. counts cnt v \<longrightarrow> cnt w' \<le> cnt w + 1 + 2 * nat (max_revisions (cv_cfg v)))"
proof -
  define u where "u = v\<lparr>turn := (turn v)\<lparr>current_tier := tier\<rparr>\<rparr>"
  obtain cleaned v1 where run: "run_validation_loop u w cleaned tier m = (v1, w', r)" "v' = store_result r v1"
    using assms by (auto simp: validate_def u_def Let_def new_result_def split: if_splits prod.splits)
  obtain w1 c where cr: "run_critique u w cleaned = (w1, c)" by (cases "run_critique u w cleaned")
  have cnt1: "cnt w1 \<le> Suc (cnt w)" if "counts cnt v" for cnt
    using run_critique_counts [of cnt u w cleaned] that cr by (simp add: counts_def u_def)
  let ?r = "(new_result cleaned)\<lparr>final_critique := c\<rparr>"
  consider "compliant c" | "\<not> compliant c" "\<not> auto_retry_enabled v" | "\<not> compliant c" "auto_retry_enabled v" by blast
  then show ?thesis
  proof cases
    case 1
    then show ?thesis using run cr cnt1 by (force simp: run_validation_loop_def Let_def new_result_def store_result_def intro: le_SucI)
  next
    case 2
    then show ?thesis using run cr cnt1 by (force simp: run_validation_loop_def Let_def new_result_def store_result_def u_def intro: le_SucI)
  next
    case 3
    then have ap: "apply_revisions u w1 ?r c m = (w', r)" using run(1) cr by (auto simp: run_validation_loop_def u_def Let_def split: prod.splits)
    have "cnt w' \<le> cnt w + 1 + 2 * nat (max_revisions (cv_cfg v))" if c: "counts cnt v" for cnt
      using revision_loop_counts [of cnt u m "nat (max_revisions (cv_cfg v))" 0 w1 ?r c] cnt1 [OF c] c ap
      by (auto simp: apply_revisions_def counts_def u_def split: prod.splits)
    then show ?thesis using apply_revisions_spec [OF _ 3(1) _ ap] run(2) by (auto simp: new_result_def store_result_def u_def)
  qed
qed

theorem validation_verdict_sound_witness:
  "let v = (new_validator \<lparr>cv_enabled = True, max_revisions = 1, max_critique_tokens = 64, cv_temperature = 0, cv_enable_thinking = False,
              cv_priority = 0, grammar_key = [], skip_tiers = [], critique_tier = []\<rparr> ''be kind'')
              \<lparr>inference := Some (\<lambda>n m p. (Suc n, 0, Some (if n = 1 then ''better'' else if n = 0
                 then quoted ''compliant'' @ '': false'' else quoted ''compliant'' @ '': true'')))\<rparr>;
       r = the (validate v (0::nat) ''bad'' ''lead'' None)
   in vr_verdict (snd (snd r)) = V_revised \<and> vr_content (snd (snd r)) = ''better'' \<and> was_revised (snd (snd r)) \<and>
      last_result (fst r) = snd (snd r)"
proof -
  define v :: "nat validator" where "v = (new_validator \<lparr>cv_enabled = True, max_revisions = 1, max_critique_tokens = 64, cv_temperature = 0, cv_enable_thinking = False,
              cv_priority = 0, grammar_key = [], skip_tiers = [], critique_tier = []\<rparr> ''be kind'')
              \<lparr>inference := Some (\<lambda>n m p. (Suc n, 0, Some (if n = 1 then ''better'' else if n = 0
                 then quoted ''compliant'' @ '': false'' else quoted ''compliant'' @ '': true'')))\<rparr>"
  define r where "r = the (validate v (0::nat) ''bad'' ''lead'' None)"
  have run: "map_option (\<lambda>(v', w', r). (vr_verdict r, vr_content r)) (validate v 0 ''bad'' ''lead'' None) = Some (V_revised, ''better'')"
    unfolding v_def by code_simp
  then have "validate v 0 ''bad'' ''lead'' None = Some (fst r, fst (snd r), snd (snd r))" by (auto simp: r_def)
  moreover have "vr_verdict (snd (snd r)) = V_revised \<and> vr_content (snd (snd r)) = ''better''" using run by (auto simp: r_def)
  ultimately show ?thesis unfolding Let_def v_def [symmetric] r_def [symmetric]
    using validation_verdict_sound [of v 0 "''bad''" "''lead''" None "fst r" "fst (snd r)" "snd (snd r)"] by simp
qed

text \<open>A waiting result is settled once: each decision takes it, and the next finds none.\<close>

lemma decision_settles:
  "pending_state v = Some p \<Longrightarrow> fst (accept_last v) = ENTROPIC_OK \<and> pending_state (snd (accept_last v)) = None"
  "pending_state v = Some p \<Longrightarrow> fst (resume_retry v w) = ENTROPIC_OK \<and> pending_state (fst (snd (resume_retry v w))) = None"
  by (auto simp: accept_last_def resume_retry_def store_result_def set_turn_context_def Let_def split: prod.splits)

lemma decided_once:
  "fst (accept_last (snd (accept_last v))) = ENTROPIC_ERROR_INVALID_STATE"
  "fst (accept_last (fst (snd (resume_retry v w)))) = ENTROPIC_ERROR_INVALID_STATE"
  "fst (resume_retry (snd (accept_last v)) w) = ENTROPIC_ERROR_INVALID_STATE"
  "fst (resume_retry (fst (snd (resume_retry v w))) w') = ENTROPIC_ERROR_INVALID_STATE"
  by (auto simp: accept_last_def resume_retry_def store_result_def set_turn_context_def Let_def split: option.splits prod.splits)

subsection \<open>The engine's hook context\<close>

text \<open>The context \<^const>\<open>fire_post_generate_hook\<close> gives the hook.\<close>

definition post_generate_json :: "string \<Rightarrow> string \<Rightarrow> string \<Rightarrow> string \<Rightarrow> string \<Rightarrow> string \<Rightarrow> string" where
  "post_generate_json reason reply tier manifest evidence sys =
     ''{'' @ quoted ''finish_reason'' @ '':'' @ quoted reason @ '','' @
     quoted ''content'' @ '':'' @ quoted (json_escape_engine reply) @ '','' @
     quoted ''tier'' @ '':'' @ quoted tier @ '','' @
     quoted ''tool_context'' @ '':'' @ quoted (json_escape_engine manifest) @ '','' @
     quoted ''tool_evidence'' @ '':'' @ quoted (json_escape_engine evidence) @ '','' @
     quoted ''system_prompt'' @ '':'' @ quoted (json_escape_engine sys) @ ''}''"

lemma fire_post_generate_json:
  "hook_post env = Some f \<Longrightarrow> fire_post_generate_hook env s r tier ms =
     (case enrich_manifest_with_history env s (build_tool_manifest ms) of (s1, manifest) \<Rightarrow>
        case f s1 1 (post_generate_json (finish_reason r) (gen_content r) tier manifest (build_tool_evidence ms 20 800) (extract_system_prompt ms)) of
          (s2, None) \<Rightarrow> (s2, r)
        | (s2, Some out) \<Rightarrow> (s2, r\<lparr>gen_content := sanitize out\<rparr>))"
  by (simp add: fire_post_generate_hook_def post_generate_json_def Let_def)

lemma read_value_plain: "c \<noteq> CHR 0x22 \<Longrightarrow> c \<noteq> CHR 0x5C \<Longrightarrow> s \<noteq> [] \<Longrightarrow> read_value (c # s) = c # read_value s"
  by (cases s) simp_all

lemma read_value_escaped: "read_value (concat (map escape_char s) @ CHR 0x22 # z) = s"
proof (induction s)
  case Nil
  then show ?case by (cases z) simp_all
next
  case (Cons c s)
  then show ?case by (auto simp: escape_char_def unescaped_def read_value_plain)
qed

lemma escape_no_nul: "CHR 0x00 \<notin> set s \<Longrightarrow> CHR 0x00 \<notin> set (json_escape_engine s)"
  by (auto simp: json_escape_engine_def escape_char_def split: if_splits)

lemma starts_with_quoted:
  "CHR 0x22 \<notin> set r \<Longrightarrow> CHR 0x22 \<notin> set key \<Longrightarrow> starts_with (key @ [CHR 0x22]) (r @ CHR 0x22 # z) \<longleftrightarrow> r = key"
proof (induction key arbitrary: r)
  case Nil
  then show ?case by (cases r) (auto simp: starts_with_Cons starts_with_Nil)
next
  case (Cons c key)
  then show ?case by (cases r) (auto simp: starts_with_Cons)
qed

text \<open>
  The reply the engine puts into the context of the post-generate hook is the reply the validator reads
  from it, character for character, for every reply without a NUL and whatever else the context holds.
\<close>

lemma hook_reply_roundtrip:
  assumes "CHR 0x00 \<notin> set reply" "CHR 0x00 \<notin> set reason" "CHR 0x22 \<notin> set reason" "reason \<noteq> ''content''"
  shows "extract_json_string (post_generate_json reason reply tier manifest evidence sys) ''content'' = reply"
proof -
  let ?pre = "''{'' @ quoted ''finish_reason'' @ '':'' @ quoted reason @ '',''"
  define rest where "rest = '','' @ quoted ''tier'' @ '':'' @ quoted tier @ '','' @
     quoted ''tool_context'' @ '':'' @ quoted (json_escape_engine manifest) @ '','' @
     quoted ''tool_evidence'' @ '':'' @ quoted (json_escape_engine evidence) @ '','' @
     quoted ''system_prompt'' @ '':'' @ quoted (json_escape_engine sys) @ ''}''"
  let ?front = "?pre @ quoted ''content'' @ '':'' @ quoted (json_escape_engine reply)"
  have eq: "post_generate_json reason reply tier manifest evidence sys = ?front @ rest"
    by (simp add: post_generate_json_def rest_def)
  have nul: "CHR 0x00 \<notin> set ?front"
    using assms(1,2) escape_no_nul by (auto simp: quoted_def)
  have c: "c_string (post_generate_json reason reply tier manifest evidence sys) =
      ?pre @ quoted ''content'' @ '':'' @ quoted (json_escape_engine reply) @ c_string rest"
    unfolding eq c_string_append [OF nul] by (simp only: append_assoc)
  have skip: "find_str (CHR 0x22 # p) (CHR 0x22 # x @ y) = map_option (\<lambda>i. Suc (i + length x)) (find_str (CHR 0x22 # p) y)"
    if "\<not> starts_with p (x @ y)" "CHR 0x22 \<notin> set x" for p x y
    using that by (simp add: starts_with_Cons find_head_skip option.map_comp comp_def)
  have no: "\<not> starts_with (''content'' @ [CHR 0x22]) (reason @ CHR 0x22 # z)" for z
    using starts_with_quoted [of reason "''content''" z] assms(3,4) by simp
  have "find_str (quoted ''content'') (?pre @ quoted ''content'' @ z) = Some (length ?pre)" for z
  proof -
    have "find_str (quoted ''content'') (?pre @ quoted ''content'' @ z) =
      find_str (CHR 0x22 # ''content'' @ [CHR 0x22])
        (''{'' @ CHR 0x22 # ''finish_reason'' @ CHR 0x22 # '':'' @ CHR 0x22 # reason @ CHR 0x22 # '','' @ quoted ''content'' @ z)"
      by (simp add: quoted_def)
    also have "\<dots> = Some (length ?pre)"
      using no [of "'','' @ quoted ''content'' @ z"] assms(3)
      by (simp add: find_head_skip [of _ "''{''", simplified] find_head_skip [of _ reason] skip starts_with_Cons starts_with_Nil quoted_def)
    finally show ?thesis .
  qed
  then show ?thesis unfolding extract_json_string_def Let_def c
    by (simp add: extract_string_after_colon_def quoted_def json_escape_engine_def read_value_escaped)
qed

lemma hook_reply_roundtrip_witness:
  "extract_json_string (post_generate_json ''stop'' [CHR 0x22, CHR ''a'', CHR 0x0A, CHR 0x5C] ''lead'' [] [] []) ''content'' =
   [CHR 0x22, CHR ''a'', CHR 0x0A, CHR 0x5C]"
  by (rule hook_reply_roundtrip) simp_all

text \<open>A revision the hook gives out reaches the reader as the JSON object that wraps it.\<close>

lemma revision_delivered_wrapped:
  "write_modified_json ''Hello'' = ''{'' @ quoted ''content'' @ '':'' @ quoted ''Hello'' @ ''}'' \<and>
   (hook_post env = Some (\<lambda>s n j. (s, Some (write_modified_json ''Hello''))) \<longrightarrow>
    gen_content (snd (fire_post_generate_hook env s r tier ms)) = ''{'' @ quoted ''content'' @ '':'' @ quoted ''Hello'' @ ''}'')"
proof
  show w: "write_modified_json ''Hello'' = ''{'' @ quoted ''content'' @ '':'' @ quoted ''Hello'' @ ''}''" by code_simp
  have "sanitize (write_modified_json ''Hello'') = ''{'' @ quoted ''content'' @ '':'' @ quoted ''Hello'' @ ''}''" by code_simp
  then show "hook_post env = Some (\<lambda>s n j. (s, Some (write_modified_json ''Hello''))) \<longrightarrow>
    gen_content (snd (fire_post_generate_hook env s r tier ms)) = ''{'' @ quoted ''content'' @ '':'' @ quoted ''Hello'' @ ''}''"
    by (auto simp: fire_post_generate_json split: prod.splits)
qed

text \<open>A reply that is a key of the context hides that key.\<close>

lemma reply_hides_tier:
  "extract_json_string (post_generate_json ''stop'' ''tier'' ''lead'' [] [] []) ''tier'' = []"
  by code_simp

text \<open>A violation with no excerpt takes the next one's.\<close>

lemma excerpt_of_the_next:
  "map v_excerpt (extract_violations (quoted ''rule'' @ '':'' @ quoted ''a'' @ '','' @ quoted ''rule'' @ '':'' @ quoted ''b'' @ '','' @
     quoted ''excerpt'' @ '':'' @ quoted ''x'')) = [''x'', ''x'']"
  by code_simp

text \<open>The line breaks of the feedback are escaped twice: the model reads a backslash and an \<open>n\<close>.\<close>

lemma feedback_escaped_twice:
  "json_escape_text backslash_n = [CHR 0x5C, CHR 0x5C, CHR ''n'']"
  by code_simp

end
