(* ===== verification/Compactor_Registry.thy ===== *)
theory Compactor_Registry
  imports Compaction
begin

text \<open>
  The registry of consumer compactors (\<open>core/compactor_registry.cpp\<close>): messages go out to a C callback as hand-written
  JSON, and its answer comes back through a hand-written cursor parser. The cursor is the text that is still to be read;
  reading at its end gives a NUL as \<open>std::string\<close> does. Callbacks act on a world.

  Proved: the parser reads back what the serializer writes, every loop of it ends, and a compaction uses the latest
  registration of the identity, then the global one, then the built-in strategy.
\<close>

subsection \<open>Writing\<close>

definition json_escape_char :: "char \<Rightarrow> string option" where
  "json_escape_char c =
     (if c = CHR 0x22 then Some [CHR 0x5C, CHR 0x22]
      else if c = CHR 0x5C then Some [CHR 0x5C, CHR 0x5C]
      else if c = CHR 0x0A then Some [CHR 0x5C, CHR ''n'']
      else if c = CHR 0x0D then Some [CHR 0x5C, CHR ''r'']
      else if c = CHR 0x09 then Some [CHR 0x5C, CHR ''t'']
      else None)"

definition escape_json :: "string \<Rightarrow> string" where
  "escape_json s = concat (map (\<lambda>c. case json_escape_char c of None \<Rightarrow> [c] | Some e \<Rightarrow> e) s)"

definition message_json :: "message \<Rightarrow> string" where
  "message_json m = ''{'' @ quoted ''role'' @ '':'' @ quoted (role m) @ '','' @ quoted ''content'' @ '':'' @ quoted (escape_json (content m)) @ ''}''"

fun commas :: "string list \<Rightarrow> string" where
  "commas [] = []"
| "commas [x] = x"
| "commas (x # y # xs) = x @ '','' @ commas (y # xs)"

definition serialize_messages :: "message list \<Rightarrow> string" where
  "serialize_messages ms = ''['' @ commas (map message_json ms) @ '']''"

text \<open>
  A \<open>float\<close> on an output stream: six significant digits without trailing zeros, with an exponent when it is below
  \<open>-4\<close> or at least \<open>6\<close>.
\<close>

definition pow10 :: "int \<Rightarrow> rat" where
  "pow10 e = (if e \<ge> 0 then 10 ^ nat e else 1 / 10 ^ nat (- e))"

definition decimal_exponent :: "rat \<Rightarrow> int" where
  "decimal_exponent x = (case find (\<lambda>e. pow10 e \<le> x) (map (\<lambda>i. 39 - int i) [0..<90]) of None \<Rightarrow> 0 | Some e \<Rightarrow> e)"

definition drop_zeros :: "string \<Rightarrow> string" where
  "drop_zeros s = rev (dropWhile (\<lambda>c. c = CHR ''0'') (rev s))"

definition point_digits :: "string \<Rightarrow> string" where
  "point_digits s = (if drop_zeros s = [] then [] else ''.'' @ drop_zeros s)"

definition stream_float :: "rat \<Rightarrow> string" where
  "stream_float x =
     (if x = 0 then ''0'' else
      let e0 = decimal_exponent \<bar>x\<bar>;
          m0 = round_even (\<bar>x\<bar> / pow10 (e0 - 5));
          (m, e) = (if m0 = 1000000 then (100000, e0 + 1) else (m0, e0));
          ds = to_string_nat (nat m)
      in (if x < 0 then ''-'' else []) @
         (if e < -4 \<or> e \<ge> 6
          then take 1 ds @ point_digits (drop 1 ds) @ ''e'' @ (if e < 0 then ''-'' else ''+'') @
               (if \<bar>e\<bar> < 10 then ''0'' else []) @ to_string_nat (nat \<bar>e\<bar>)
          else if e < 0 then ''0'' @ point_digits (replicate (nat (- e) - 1) (CHR ''0'') @ ds)
          else take (nat e + 1) ds @ point_digits (drop (nat e + 1) ds)))"

definition serialize_config :: "compaction_config \<Rightarrow> string \<Rightarrow> int \<Rightarrow> string" where
  "serialize_config cfg identity token_count =
     ''{'' @ quoted ''identity'' @ '':'' @ quoted (escape_json identity) @
     '','' @ quoted ''token_count'' @ '':'' @ to_string_int token_count @
     '','' @ quoted ''max_tokens'' @ '':0'' @
     '','' @ quoted ''threshold_percent'' @ '':'' @ stream_float (threshold_percent cfg) @
     '','' @ quoted ''force'' @ '':true}''"

subsection \<open>Reading\<close>

definition cur :: "string \<Rightarrow> char" where
  "cur s = (case s of [] \<Rightarrow> CHR 0x00 | c # _ \<Rightarrow> c)"

definition json_skip_ws :: "string \<Rightarrow> string" where
  "json_skip_ws s = dropWhile c_isspace s"

definition json_unescape_char :: "char \<Rightarrow> char" where
  "json_unescape_char c =
     (if c = CHR ''n'' then CHR 0x0A else if c = CHR ''r'' then CHR 0x0D else if c = CHR ''t'' then CHR 0x09 else c)"

text \<open>The characters of a string value, and the text from the closing quote on.\<close>

fun string_body :: "string \<Rightarrow> string \<times> string" where
  "string_body [] = ([], [])"
| "string_body [c] = (if c = CHR 0x22 then ([], [c]) else ([c], []))"
| "string_body (c # d # s) =
     (if c = CHR 0x22 then ([], c # d # s)
      else if c = CHR 0x5C then (case string_body s of (out, r) \<Rightarrow> (json_unescape_char d # out, r))
      else (case string_body (d # s) of (out, r) \<Rightarrow> (c # out, r)))"

text \<open>Each reader gives whether it succeeded, what it wrote into its output and the cursor behind it.\<close>

definition json_read_string :: "string \<Rightarrow> string \<Rightarrow> bool \<times> string \<times> string" where
  "json_read_string s out =
     (let s1 = json_skip_ws s in
      if cur s1 \<noteq> CHR 0x22 then (False, out, s1)
      else case string_body (tl s1) of (v, r) \<Rightarrow> if r = [] then (False, v, r) else (True, v, tl r))"

lemma string_body_length: "length (snd (string_body s)) \<le> length s"
  by (induction s rule: string_body.induct) (auto split: prod.splits)

lemma skip_ws_length: "length (json_skip_ws s) \<le> length s"
  by (simp add: json_skip_ws_def length_dropWhile_le)

lemma cur_eq [simp]: "cur (c # s) = c" "cur [] = CHR 0x00"
  by (simp_all add: cur_def)

lemma cur_tl_length: "cur s \<noteq> CHR 0x00 \<Longrightarrow> length (tl s) < length s"
  by (cases s) simp_all

lemma json_read_string_length:
  "json_read_string s out = (ok, v, r) \<Longrightarrow> length r \<le> length s \<and> (ok \<longrightarrow> length r < length s)"
proof -
  assume a: "json_read_string s out = (ok, v, r)"
  define s1 where "s1 = json_skip_ws s"
  have "length s1 \<le> length s" "length (snd (string_body (tl s1))) \<le> length (tl s1)"
    by (simp_all only: s1_def skip_ws_length string_body_length)
  then show ?thesis using a unfolding json_read_string_def Let_def s1_def [symmetric]
    by (cases s1) (auto split: if_splits prod.splits)
qed

function skip_nested :: "char \<Rightarrow> char \<Rightarrow> int \<Rightarrow> string \<Rightarrow> string" where
  "skip_nested op cl depth [] = []"
| "skip_nested op cl depth (c # s) =
     (if depth \<le> 0 then c # s
      else if c = CHR 0x22 then skip_nested op cl depth (drop 1 (snd (string_body s)))
      else skip_nested op cl (if c = op then depth + 1 else if c = cl then depth - 1 else depth) s)"
  by pat_completeness auto
termination
proof (relation "measure (\<lambda>(_, _, _, s). length s)")
  fix op cl depth c and s :: string
  show "((op, cl, depth, drop 1 (snd (string_body s))), op, cl, depth, c # s) \<in> measure (\<lambda>(_, _, _, s). length s)"
    using string_body_length [of s] by simp
qed simp_all

definition json_skip_composite :: "string \<Rightarrow> string" where
  "json_skip_composite s = skip_nested (cur s) (if cur s = CHR ''['' then CHR '']'' else CHR ''}'') 1 (drop 1 s)"

definition json_skip_value :: "string \<Rightarrow> string" where
  "json_skip_value s =
     (let s1 = json_skip_ws s in
      if s1 = [] then []
      else if cur s1 = CHR 0x22 then snd (snd (json_read_string s1 []))
      else if cur s1 = CHR ''['' \<or> cur s1 = CHR ''{'' then json_skip_composite s1
      else dropWhile (\<lambda>c. c \<noteq> CHR '','' \<and> c \<noteq> CHR ''}'' \<and> c \<noteq> CHR '']'') s1)"

lemma skip_nested_length: "length (skip_nested op cl depth s) \<le> length s"
proof (induction op cl depth s rule: skip_nested.induct)
  case (2 op cl depth c s)
  then show ?case using string_body_length [of s] by (auto simp: le_SucI)
qed simp

lemma json_skip_value_length: "length (json_skip_value s) \<le> length s"
proof -
  have "length (snd (snd (json_read_string (json_skip_ws s) []))) \<le> length s"
    using json_read_string_length [of "json_skip_ws s" "[]"] skip_ws_length [of s] by (metis prod.collapse le_trans)
  moreover have "length (json_skip_composite (json_skip_ws s)) \<le> length s"
    unfolding json_skip_composite_def using skip_ws_length [of s]
    by (intro le_trans [OF skip_nested_length]) simp
  moreover have "length (dropWhile P (json_skip_ws s)) \<le> length s" for P
    using length_dropWhile_le [of P "json_skip_ws s"] skip_ws_length [of s] by simp
  ultimately show ?thesis by (simp add: json_skip_value_def Let_def)
qed

definition json_read_content_part_field :: "string \<Rightarrow> string \<Rightarrow> string \<Rightarrow> bool \<times> string \<times> string \<times> string" where
  "json_read_content_part_field s type_val text_val =
     (case json_read_string s [] of (ok, key, r) \<Rightarrow>
        if \<not> ok then (False, type_val, text_val, r)
        else let r1 = json_skip_ws r in
             if cur r1 \<noteq> CHR '':'' then (False, type_val, text_val, r1)
             else if key = ''type'' then (case json_read_string (tl r1) type_val of (_, v, r2) \<Rightarrow> (True, v, text_val, r2))
             else if key = ''text'' then (case json_read_string (tl r1) text_val of (_, v, r2) \<Rightarrow> (True, type_val, v, r2))
             else (True, type_val, text_val, json_skip_value (tl r1)))"

lemma content_part_field_length:
  "json_read_content_part_field s ty tx = (ok, ty', tx', r) \<Longrightarrow> length r \<le> length s \<and> (ok \<longrightarrow> length r < length s)"
proof -
  assume a: "json_read_content_part_field s ty tx = (ok, ty', tx', r)"
  obtain ok1 key r0 where key: "json_read_string s [] = (ok1, key, r0)" by (metis prod_cases3)
  let ?t = "tl (json_skip_ws r0)"
  have "length ?t \<le> length r0" using skip_ws_length [of r0] by simp
  moreover have "length (snd (snd (json_read_string ?t x))) \<le> length ?t" for x
    using json_read_string_length [of ?t x] by (metis prod.collapse)
  note this [of ty] this [of tx] json_skip_value_length [of ?t]
  ultimately show ?thesis using a json_read_string_length [OF key] skip_ws_length [of r0] unfolding json_read_content_part_field_def key
    by (auto simp: Let_def split_beta split: if_splits)
qed

function json_parse_content_part :: "string \<Rightarrow> string \<Rightarrow> string \<Rightarrow> bool \<times> string \<times> string \<times> string" where
  "json_parse_content_part s type_val text_val =
     (if s = [] then (True, type_val, text_val, [])
      else if hd s = CHR ''}'' then (True, type_val, text_val, tl s)
      else let s1 = json_skip_ws s in
           if cur s1 = CHR '','' then json_parse_content_part (tl s1) type_val text_val
           else case json_read_content_part_field s1 type_val text_val of (ok, ty, tx, r) \<Rightarrow>
                  if ok then json_parse_content_part r ty tx else (False, ty, tx, r))"
  by pat_completeness auto
termination
proof (relation "measure (\<lambda>(s, _, _). length s)", goal_cases)
  case 1
  then show ?case by simp
next
  case (2 s ty tx s1)
  then have "length (tl s1) < length s1" by (intro cur_tl_length) simp
  then show ?case using skip_ws_length [of s] 2 by simp
next
  case (3 s ty tx s1 ok p ty' q tx' r)
  then have "length r < length s1" using content_part_field_length [of s1 ty tx ok ty' tx' r] by simp
  then show ?case using skip_ws_length [of s] 3 by simp
qed

declare json_parse_content_part.simps [simp del]

lemma parse_content_part_length:
  "json_parse_content_part s ty tx = (ok, ty', tx', r) \<Longrightarrow> length r \<le> length s"
proof (induction s ty tx arbitrary: ok ty' tx' r rule: json_parse_content_part.induct)
  case (1 s ty tx)
  let ?s1 = "json_skip_ws s"
  obtain ok1 ty1 tx1 r1 where f: "json_read_content_part_field ?s1 ty tx = (ok1, ty1, tx1, r1)" by (metis prod_cases4)
  note l = content_part_field_length [OF f] skip_ws_length [of s]
  consider "s = [] \<or> hd s = CHR ''}''" | "s \<noteq> []" "hd s \<noteq> CHR ''}''" "cur ?s1 = CHR '',''"
    | "s \<noteq> []" "hd s \<noteq> CHR ''}''" "cur ?s1 \<noteq> CHR '',''" by blast
  then show ?case
  proof cases
    case 1
    then show ?thesis using "1.prems" json_parse_content_part.simps [of s ty tx] by (cases s) auto
  next
    case 2
    then have "json_parse_content_part (tl ?s1) ty tx = (ok, ty', tx', r)"
      using "1.prems" by (subst (asm) json_parse_content_part.simps) (simp add: Let_def)
    then have "length r \<le> length (tl ?s1)" using "1.IH"(1) [OF _ _ refl] 2 by simp
    then show ?thesis using l by simp
  next
    case 3
    then have e: "(if ok1 then json_parse_content_part r1 ty1 tx1 else (False, ty1, tx1, r1)) = (ok, ty', tx', r)"
      using "1.prems" f by (subst (asm) json_parse_content_part.simps) (simp add: Let_def)
    show ?thesis
    proof (cases ok1)
      case True
      then have "length r \<le> length r1" using "1.IH"(2) [OF 3(1,2) refl 3(3) f [symmetric] refl refl True] e by simp
      then show ?thesis using l by simp
    qed (use e l in auto)
  qed
qed

definition append_text_part :: "string \<Rightarrow> string \<Rightarrow> string \<Rightarrow> string" where
  "append_text_part type_val text_val s =
     (if type_val \<noteq> ''text'' \<or> text_val = [] then s else (if s \<noteq> [] then s @ '' '' else s) @ text_val)"

text \<open>The first character that is neither white space nor a comma, with the cursor at it.\<close>

function json_skip_to_element :: "string \<Rightarrow> char \<times> string" where
  "json_skip_to_element s =
     (case json_skip_ws s of
        [] \<Rightarrow> (CHR 0x00, [])
      | c # r \<Rightarrow> if c \<noteq> CHR '','' then (c, c # r) else json_skip_to_element r)"
  by pat_completeness auto
termination
proof (relation "measure length", goal_cases)
  case 1
  then show ?case by simp
next
  case (2 s c r)
  then show ?case using skip_ws_length [of s] by simp
qed

declare json_skip_to_element.simps [simp del]

lemma skip_to_element_length: "length (snd (json_skip_to_element s)) \<le> length s"
proof (induction s rule: json_skip_to_element.induct)
  case (1 s)
  then show ?case using skip_ws_length [of s]
    by (subst json_skip_to_element.simps) (fastforce split: list.splits)
qed

definition json_read_one_content_part :: "string \<Rightarrow> string \<Rightarrow> bool \<times> string \<times> string" where
  "json_read_one_content_part s t =
     (case json_parse_content_part (tl s) [] [] of (ok, ty, tx, r) \<Rightarrow> (ok, if ok then append_text_part ty tx t else t, r))"

lemma read_one_content_part_length:
  "json_read_one_content_part s t = (ok, t', r) \<Longrightarrow> s \<noteq> [] \<Longrightarrow> length r < length s"
  using parse_content_part_length [of "tl s" "[]" "[]"]
  by (cases s) (auto simp: json_read_one_content_part_def less_Suc_eq_le split: prod.splits)

text \<open>The elements of a content array from the character \<open>ch\<close> at the cursor on.\<close>

function content_parts_loop :: "char \<Rightarrow> string \<Rightarrow> string \<Rightarrow> bool \<times> char \<times> string \<times> string" where
  "content_parts_loop ch s t =
     (if ch \<noteq> CHR ''{'' \<or> s = [] then (True, ch, t, s)
      else case json_read_one_content_part s t of (ok, t', r) \<Rightarrow>
             if ok then (case json_skip_to_element r of (ch', r') \<Rightarrow> content_parts_loop ch' r' t')
             else (False, CHR 0x00, t', r))"
  by pat_completeness auto
termination
proof (relation "measure (\<lambda>(_, s, _). length s)", goal_cases)
  case 1
  then show ?case by simp
next
  case (2 ch s t ok p t' r ch' r')
  then have "length r < length s" using read_one_content_part_length [of s t ok t' r] by simp
  then show ?case using skip_to_element_length [of r] 2 by (simp add: prod_eq_iff)
qed

declare content_parts_loop.simps [simp del]

definition json_extract_text_from_array :: "string \<Rightarrow> string \<Rightarrow> bool \<times> string \<times> string" where
  "json_extract_text_from_array s t =
     (if cur s \<noteq> CHR ''['' then (False, t, s)
      else case json_skip_to_element (tl s) of (ch, r) \<Rightarrow>
           case content_parts_loop ch r [] of (ok, ch', t', r') \<Rightarrow>
             if ok \<and> ch' = CHR '']'' then (True, t', tl r') else (False, t', r'))"

lemma content_parts_loop_length: "content_parts_loop ch s t = (ok, ch', t', r) \<Longrightarrow> length r \<le> length s"
proof (induction ch s t arbitrary: ok ch' t' r rule: content_parts_loop.induct)
  case (1 ch s t)
  obtain ok1 t1 r1 where one: "json_read_one_content_part s t = (ok1, t1, r1)" by (metis prod_cases3)
  obtain c2 r2 where el: "json_skip_to_element r1 = (c2, r2)" by fastforce
  show ?case
  proof (cases "ch \<noteq> CHR ''{'' \<or> s = []")
    case True
    then show ?thesis using "1.prems" content_parts_loop.simps [of ch s t] by auto
  next
    case False
    then have l: "length r2 \<le> length r1" "length r1 < length s"
      using skip_to_element_length [of r1] read_one_content_part_length [OF one] el by simp_all
    then show ?thesis
    proof (cases ok1)
      case True
      then have "content_parts_loop c2 r2 t1 = (ok, ch', t', r)" using "1.prems" False one el content_parts_loop.simps [of ch s t] by auto
      then have "length r \<le> length r2" using "1.IH" [OF False one [symmetric] refl True el [symmetric]] by simp
      then show ?thesis using l by simp
    qed (use "1.prems" False one l content_parts_loop.simps [of ch s t] in auto)
  qed
qed

lemma extract_text_from_array_length:
  "json_extract_text_from_array s t = (ok, t', r) \<Longrightarrow> length r \<le> length s"
proof -
  assume a: "json_extract_text_from_array s t = (ok, t', r)"
  obtain ch r1 where el: "json_skip_to_element (tl s) = (ch, r1)" by fastforce
  obtain ok2 ch2 t2 r2 where lp: "content_parts_loop ch r1 [] = (ok2, ch2, t2, r2)" by (metis prod_cases4)
  have "length r2 \<le> length s" using skip_to_element_length [of "tl s"] content_parts_loop_length [OF lp] el by simp
  then show ?thesis using a el lp by (auto simp: json_extract_text_from_array_def split: if_splits)
qed

definition json_read_field :: "string \<Rightarrow> message \<Rightarrow> bool \<times> message \<times> string" where
  "json_read_field s msg =
     (case json_read_string s [] of (ok, key, r) \<Rightarrow>
        let r1 = json_skip_ws r in
        if \<not> ok \<or> cur r1 \<noteq> CHR '':'' then (False, msg, r1)
        else let r2 = tl r1 in
             if key = ''role'' then (case json_read_string r2 (role msg) of (ok', v, r3) \<Rightarrow> (ok', msg\<lparr>role := v\<rparr>, r3))
             else if key = ''content''
             then (let r3 = json_skip_ws r2 in
                   case (if cur r3 = CHR ''['' then json_extract_text_from_array r3 (content msg) else json_read_string r3 (content msg)) of
                     (ok', v, r4) \<Rightarrow> (ok', msg\<lparr>content := v\<rparr>, r4))
             else (True, msg, json_skip_value r2))"

lemma read_string_rest: "length (snd (snd (json_read_string s out))) \<le> length s"
  using json_read_string_length [of s out] by (metis prod.collapse)

lemma extract_text_rest: "length (snd (snd (json_extract_text_from_array s t))) \<le> length s"
  using extract_text_from_array_length [of s t] by (metis prod.collapse)

lemma json_read_field_length: "json_read_field s msg = (True, msg', r) \<Longrightarrow> length r < length s"
proof -
  assume a: "json_read_field s msg = (True, msg', r)"
  obtain ok key r0 where key: "json_read_string s [] = (ok, key, r0)" by (metis prod_cases3)
  define r2 where "r2 = tl (json_skip_ws r0)"
  have "length r2 \<le> length r0" using skip_ws_length [of r0] by (simp add: r2_def)
  moreover note json_read_string_length [OF key] skip_ws_length [of r2] json_skip_value_length [of r2] read_string_rest [of r2 "role msg"]
    read_string_rest [of "json_skip_ws r2" "content msg"] extract_text_rest [of "json_skip_ws r2" "content msg"]
  ultimately show ?thesis using a unfolding json_read_field_def key
    by (auto simp: Let_def split_beta r2_def [symmetric] split: if_splits)
qed

function json_parse_message :: "string \<Rightarrow> message \<Rightarrow> bool \<times> message \<times> string" where
  "json_parse_message s msg =
     (if s = [] then (False, msg, [])
      else let s1 = json_skip_ws s in
           if cur s1 = CHR ''}'' then (True, msg, tl s1)
           else if cur s1 = CHR '','' then json_parse_message (tl s1) msg
           else case json_read_field s1 msg of (ok, msg', r) \<Rightarrow>
                  if ok then json_parse_message r msg' else (False, msg', r))"
  by pat_completeness auto
termination
proof (relation "measure (\<lambda>(s, _). length s)", goal_cases)
  case 1
  then show ?case by simp
next
  case (2 s msg s1)
  then have "length (tl s1) < length s1" by (intro cur_tl_length) simp
  then show ?case using skip_ws_length [of s] 2 by simp
next
  case (3 s msg s1 ok p msg' r)
  then have "length r < length s1" using json_read_field_length [of s1 msg msg' r] by simp
  then show ?case using skip_ws_length [of s] 3 by simp
qed

declare json_parse_message.simps [simp del]

lemma json_parse_message_length: "json_parse_message s msg = (True, msg', r) \<Longrightarrow> length r < length s"
proof (induction s msg arbitrary: msg' r rule: json_parse_message.induct)
  case (1 s msg)
  let ?s1 = "json_skip_ws s"
  obtain ok1 m1 r1 where f: "json_read_field ?s1 msg = (ok1, m1, r1)" by (metis prod_cases3)
  have s: "s \<noteq> []" using "1.prems" json_parse_message.simps [of s msg] by auto
  note l = skip_ws_length [of s]
  consider "cur ?s1 = CHR ''}''" | "cur ?s1 = CHR '',''" | "cur ?s1 \<noteq> CHR ''}''" "cur ?s1 \<noteq> CHR '',''" by blast
  then show ?case
  proof cases
    case 1
    then show ?thesis using "1.prems" s l cur_tl_length [of ?s1] json_parse_message.simps [of s msg] by (auto simp: Let_def)
  next
    case 2
    then have "json_parse_message (tl ?s1) msg = (True, msg', r)" using "1.prems" s json_parse_message.simps [of s msg] by (simp add: Let_def)
    then have "length r < length (tl ?s1)" using "1.IH"(1) [OF s refl] 2 by simp
    then show ?thesis using l by simp
  next
    case 3
    then have ok: "ok1" "json_parse_message r1 m1 = (True, msg', r)"
      using "1.prems" s f json_parse_message.simps [of s msg] by (auto simp: Let_def split: if_splits)
    then have "length r < length r1" using "1.IH"(2) [OF s refl 3 f [symmetric] refl ok(1)] by simp
    moreover have "length r1 < length ?s1" using json_read_field_length f ok(1) by simp
    ultimately show ?thesis using l by simp
  qed
qed

function json_parse_array :: "string \<Rightarrow> message list \<Rightarrow> bool \<times> message list" where
  "json_parse_array s ms =
     (if s = [] then (True, ms)
      else let s1 = json_skip_ws s in
           if cur s1 = CHR '']'' then (True, ms)
           else if cur s1 = CHR '','' then json_parse_array (tl s1) ms
           else if cur s1 \<noteq> CHR ''{'' then (False, ms)
           else case json_parse_message (tl s1) (text_message [] []) of (ok, msg, r) \<Rightarrow>
                  if ok then json_parse_array r (ms @ [msg]) else (False, ms))"
  by pat_completeness auto
termination
proof (relation "measure (\<lambda>(s, _). length s)", goal_cases)
  case 1
  then show ?case by simp
next
  case (2 s ms s1)
  then have "length (tl s1) < length s1" by (intro cur_tl_length) simp
  then show ?case using skip_ws_length [of s] 2 by simp
next
  case (3 s ms s1 ok p msg r)
  then have "length r < length (tl s1)" using json_parse_message_length [of "tl s1" _ msg r] by simp
  moreover have "length (tl s1) < length s1" using 3 by (intro cur_tl_length) simp
  ultimately show ?case using skip_ws_length [of s] 3 by simp
qed

declare json_parse_array.simps [simp del]

definition parse_messages :: "string option \<Rightarrow> bool \<times> message list" where
  "parse_messages json =
     (case json of
        None \<Rightarrow> (False, [])
      | Some s \<Rightarrow> if cur s \<noteq> CHR ''['' then (False, []) else json_parse_array (tl s) [])"

subsection \<open>The registry\<close>

text \<open>
  A consumer's compactor gets the opaque pointer of its registration, the messages and the configuration, and gives a
  code, messages and a summary; the two texts may be null.
\<close>

type_synonym 'w compactor = "nat \<Rightarrow> 'w \<Rightarrow> string \<Rightarrow> string \<Rightarrow> 'w \<times> int \<times> string option \<times> string option"

record 'w compactor_registry =
  compactors :: "(string \<times> 'w compactor \<times> nat) list"

definition wrap_c_compactor :: "'w compactor \<Rightarrow> nat \<Rightarrow> 'w \<Rightarrow> message list \<Rightarrow> compaction_config \<Rightarrow> string \<Rightarrow> 'w \<times> compaction_result" where
  "wrap_c_compactor f ud w ms cfg identity =
     (case f ud w (c_string (serialize_messages ms)) (c_string (serialize_config cfg identity 0)) of
        (w', rc, out_messages, out_summary) \<Rightarrow>
          (w', if rc \<noteq> 0 then default_result
               else let r = default_result\<lparr>compacted := True, result_summary := (case out_summary of None \<Rightarrow> [] | Some s \<Rightarrow> c_string s)\<rparr> in
                    case out_messages of
                      None \<Rightarrow> r
                    | Some s \<Rightarrow> (let out = snd (parse_messages (Some (c_string s)))
                                  in r\<lparr>result_messages := out, preserved_messages := int (length out)\<rparr>)))"

definition register_compactor :: "string \<Rightarrow> 'w compactor option \<Rightarrow> nat \<Rightarrow> 'w compactor_registry \<Rightarrow> entropic_error \<times> 'w compactor_registry" where
  "register_compactor identity f ud reg =
     (case f of
        None \<Rightarrow> (ENTROPIC_ERROR_INVALID_CONFIG, reg)
      | Some g \<Rightarrow> (ENTROPIC_OK, reg\<lparr>compactors := AList.update identity (g, ud) (compactors reg)\<rparr>))"

definition deregister_compactor :: "string \<Rightarrow> 'w compactor_registry \<Rightarrow> entropic_error \<times> 'w compactor_registry" where
  "deregister_compactor identity reg = (ENTROPIC_OK, reg\<lparr>compactors := AList.delete identity (compactors reg)\<rparr>)"

definition run_default :: "string \<Rightarrow> message list \<Rightarrow> compaction_result" where
  "run_default identity ms = (compact_messages ms)\<lparr>result_identity := identity, compactor_source := ''default'', custom_compactor_used := False\<rparr>"

definition run_custom :: "('w \<Rightarrow> message list \<Rightarrow> compaction_config \<Rightarrow> string \<Rightarrow> 'w \<times> compaction_result) \<Rightarrow> string \<Rightarrow> 'w \<Rightarrow> string \<Rightarrow>
    message list \<Rightarrow> compaction_config \<Rightarrow> 'w \<times> compaction_result" where
  "run_custom selected source w identity ms cfg =
     (case selected w ms cfg identity of (w', r) \<Rightarrow>
        (w', if compacted r then r\<lparr>result_identity := identity, compactor_source := source, custom_compactor_used := True\<rparr>
             else run_default identity ms))"

definition compact :: "'w compactor_registry \<Rightarrow> 'w \<Rightarrow> string \<Rightarrow> message list \<Rightarrow> compaction_config \<Rightarrow> 'w \<times> compaction_result" where
  "compact reg w identity ms cfg =
     (case map_of (compactors reg) identity of
        Some (f, ud) \<Rightarrow> run_custom (wrap_c_compactor f ud) identity w identity ms cfg
      | None \<Rightarrow>
          (case map_of (compactors reg) [] of
             Some (f, ud) \<Rightarrow> run_custom (wrap_c_compactor f ud) ''global_custom'' w identity ms cfg
           | None \<Rightarrow> (w, run_default identity ms)))"

definition has_custom_compactor :: "'w compactor_registry \<Rightarrow> string \<Rightarrow> bool" where
  "has_custom_compactor reg identity \<longleftrightarrow> map_of (compactors reg) identity \<noteq> None \<or> map_of (compactors reg) [] \<noteq> None"

subsection \<open>The messages come back\<close>

definition plain :: "string \<Rightarrow> bool" where
  "plain s \<longleftrightarrow> CHR 0x22 \<notin> set s \<and> CHR 0x5C \<notin> set s"

lemma string_body_plain_char:
  "c \<noteq> CHR 0x22 \<Longrightarrow> c \<noteq> CHR 0x5C \<Longrightarrow> s \<noteq> [] \<Longrightarrow> string_body (c # s) = (c # fst (string_body s), snd (string_body s))"
  by (cases s) (simp_all add: split_beta)

lemma string_body_quote [simp]: "string_body (CHR 0x22 # z) = ([], CHR 0x22 # z)"
  by (cases z) simp_all

lemma string_body_plain: "plain s \<Longrightarrow> string_body (s @ CHR 0x22 # z) = (s, CHR 0x22 # z)"
  by (induction s) (auto simp: plain_def string_body_plain_char)

lemma string_body_escaped: "string_body (escape_json s @ CHR 0x22 # z) = (s, CHR 0x22 # z)"
proof (induction s)
  case (Cons c s)
  then show ?case
    by (simp add: escape_json_def json_escape_char_def json_unescape_char_def string_body_plain_char)
qed (simp add: escape_json_def)

lemma c_isspace_quote [simp]:
  "\<not> c_isspace (CHR 0x22)" "\<not> c_isspace (CHR ''{'')" "\<not> c_isspace (CHR ''}'')" "\<not> c_isspace (CHR '','')" "\<not> c_isspace (CHR '']'')" "\<not> c_isspace (CHR '':'')"
  by (simp_all add: c_isspace_def)

lemma json_skip_ws_Cons [simp]: "json_skip_ws (c # s) = (if c_isspace c then json_skip_ws s else c # s)" "json_skip_ws [] = []"
  by (simp_all add: json_skip_ws_def)

lemma json_read_string_quoted:
  "string_body (x @ CHR 0x22 # z) = (v, CHR 0x22 # z) \<Longrightarrow> json_read_string (quoted x @ z) out = (True, v, z)"
  by (simp add: json_read_string_def quoted_def)

lemmas read_plain = json_read_string_quoted [OF string_body_plain]
lemmas read_escaped = json_read_string_quoted [OF string_body_escaped]

lemma cur_quoted [simp]: "cur (quoted x @ z) = CHR 0x22" "json_skip_ws (quoted x @ z) = quoted x @ z" "quoted x \<noteq> []"
  by (simp_all add: quoted_def)

lemma plain_keys [simp]: "plain ''role''" "plain ''content''"
  by (simp_all add: plain_def)

lemma read_role_field: "plain r \<Longrightarrow> json_read_field (quoted ''role'' @ '':'' @ quoted r @ z) msg = (True, msg\<lparr>role := r\<rparr>, z)"
  by (simp add: json_read_field_def read_plain [of "''role''"] read_plain [of r] Let_def)

lemma read_content_field:
  "json_read_field (quoted ''content'' @ '':'' @ quoted (escape_json t) @ z) msg = (True, msg\<lparr>content := t\<rparr>, z)"
  by (simp add: json_read_field_def read_plain [of "''content''"] read_escaped Let_def)

lemma parse_message_json:
  assumes "plain (role m)"
  shows "json_parse_message (tl (message_json m) @ z) (text_message [] []) = (True, text_message (role m) (content m), z)"
proof -
  let ?c = "quoted ''content'' @ '':'' @ quoted (escape_json (content m)) @ ''}'' @ z"
  have "json_parse_message (''}'' @ z) msg = (True, msg, z)" for msg by (simp add: json_parse_message.simps)
  then have "json_parse_message ?c msg = (True, msg\<lparr>content := content m\<rparr>, z)" for msg
    using read_content_field [of "content m" "''}'' @ z"] by (subst json_parse_message.simps) simp
  then have "json_parse_message ('','' @ ?c) msg = (True, msg\<lparr>content := content m\<rparr>, z)" for msg
    by (subst json_parse_message.simps) simp
  then show ?thesis using read_role_field [OF assms, of "'','' @ ?c"]
    unfolding message_json_def by (subst json_parse_message.simps) (simp add: text_message_def)
qed

lemma parse_array_message:
  assumes "plain (role m)"
  shows "json_parse_array (message_json m @ z) acc = json_parse_array z (acc @ [text_message (role m) (content m)])"
proof -
  obtain x where "message_json m = CHR ''{'' # x" by (simp add: message_json_def)
  then show ?thesis using parse_message_json [OF assms, of z] by (subst json_parse_array.simps) simp
qed

lemma parse_array_end: "json_parse_array '']'' acc = (True, acc)"
  by (simp add: json_parse_array.simps)

lemma parse_array_commas:
  "list_all (\<lambda>m. plain (role m)) ms \<Longrightarrow>
   json_parse_array (commas (map message_json ms) @ '']'') acc = (True, acc @ map (\<lambda>m. text_message (role m) (content m)) ms)"
proof (induction ms arbitrary: acc rule: induct_list012)
  case (3 m n ms)
  have "json_parse_array (CHR '','' # x) acc' = json_parse_array x acc'" for x acc'
    by (subst json_parse_array.simps) simp
  then show ?case using 3 by (simp add: parse_array_message)
qed (simp_all add: parse_array_message parse_array_end)

lemma escape_json_no_nul: "CHR 0x00 \<notin> set s \<Longrightarrow> CHR 0x00 \<notin> set (escape_json s)"
  by (auto simp: escape_json_def json_escape_char_def split: if_splits)

lemma commas_set: "set (commas xs) \<subseteq> insert (CHR '','') (\<Union> (set ` set xs))"
  by (induction xs rule: commas.induct) auto

lemma serialized_no_nul:
  assumes "list_all (\<lambda>m. CHR 0x00 \<notin> set (role m) \<and> CHR 0x00 \<notin> set (content m)) ms"
  shows "c_string (serialize_messages ms) = serialize_messages ms"
proof (rule c_string_whole)
  have "CHR 0x00 \<notin> set (message_json m)" if "m \<in> set ms" for m
    using assms that escape_json_no_nul by (auto simp: message_json_def quoted_def list_all_iff)
  then show "CHR 0x00 \<notin> set (serialize_messages ms)"
    using commas_set [of "map message_json ms"] by (auto simp: serialize_messages_def)
qed

text \<open>
  Claim C2. Messages survive the trip through a consumer's compactor: what it is given parses, as a whole and in order,
  to the roles and texts of the conversation, for every conversation with plain roles and no NUL; a compactor that
  hands its input back leaves them as they are.
\<close>

theorem compactor_messages_roundtrip:
  assumes "list_all (\<lambda>m. plain (role m) \<and> CHR 0x00 \<notin> set (role m) \<and> CHR 0x00 \<notin> set (content m)) ms"
  shows "parse_messages (Some (c_string (serialize_messages ms))) = (True, map (\<lambda>m. text_message (role m) (content m)) ms) \<and>
    result_messages (snd (wrap_c_compactor (\<lambda>ud w m c. (w, 0, Some m, None)) ud w ms cfg identity)) =
      map (\<lambda>m. text_message (role m) (content m)) ms"
proof -
  have "c_string (serialize_messages ms) = serialize_messages ms" "list_all (\<lambda>m. plain (role m)) ms"
    using assms by (auto simp: list_all_iff intro: serialized_no_nul)
  moreover have "parse_messages (Some (serialize_messages ms)) = (True, map (\<lambda>m. text_message (role m) (content m)) ms)"
    using parse_array_commas [of ms "[]"] calculation(2) by (simp add: parse_messages_def serialize_messages_def)
  ultimately show ?thesis by (simp add: wrap_c_compactor_def Let_def)
qed

theorem compactor_messages_roundtrip_witness:
  "parse_messages (Some (c_string (serialize_messages [text_message ''user'' [CHR 0x22, CHR 0x5C, CHR 0x0A], text_message ''assistant'' ''ok'']))) =
     (True, [text_message ''user'' [CHR 0x22, CHR 0x5C, CHR 0x0A], text_message ''assistant'' ''ok''])"
  using conjunct1 [OF compactor_messages_roundtrip [of "[text_message ''user'' [CHR 0x22, CHR 0x5C, CHR 0x0A], text_message ''assistant'' ''ok'']"]]
  by (simp add: text_message_def plain_def)

subsection \<open>Which compactor runs\<close>

datatype 'w registration = Register string "'w compactor option" nat | Deregister string

fun run_registrations :: "'w registration list \<Rightarrow> 'w compactor_registry \<Rightarrow> 'w compactor_registry" where
  "run_registrations [] reg = reg"
| "run_registrations (Register i f ud # rs) reg = run_registrations rs (snd (register_compactor i f ud reg))"
| "run_registrations (Deregister i # rs) reg = run_registrations rs (snd (deregister_compactor i reg))"

text \<open>The registration in force for an identity: the last one not taken back.\<close>

fun in_force :: "'w registration list \<Rightarrow> string \<Rightarrow> ('w compactor \<times> nat) option \<Rightarrow> ('w compactor \<times> nat) option" where
  "in_force [] i old = old"
| "in_force (Register j f ud # rs) i old =
     in_force rs i (if i = j \<and> f \<noteq> None then Some (the f, ud) else old)"
| "in_force (Deregister j # rs) i old = in_force rs i (if i = j then None else old)"

lemma registrations_in_force:
  "map_of (compactors (run_registrations rs reg)) i = in_force rs i (map_of (compactors reg) i)"
proof (induction rs arbitrary: reg)
  case (Cons r rs)
  then show ?case by (cases r) (auto simp: register_compactor_def deregister_compactor_def split: option.split)
qed simp

text \<open>A compaction never fails: a compactor that refuses gives way to the built-in strategy, which compacts.\<close>

lemma compaction_falls_back:
  assumes "\<not> custom_compactor_used (snd (compact reg w i ms cfg))"
  shows "snd (compact reg w i ms cfg) = run_default i ms"
  using assms by (auto simp: compact_def run_custom_def run_default_def split: option.splits prod.splits if_splits)

lemma compactor_precedence:
  assumes "reg = run_registrations rs \<lparr>compactors = []\<rparr>"
  shows "in_force rs i None = Some (f, ud) \<Longrightarrow> compact reg w i ms cfg = run_custom (wrap_c_compactor f ud) i w i ms cfg"
    and "in_force rs i None = None \<Longrightarrow> in_force rs [] None = Some (f, ud) \<Longrightarrow>
      compact reg w i ms cfg = run_custom (wrap_c_compactor f ud) ''global_custom'' w i ms cfg"
    and "in_force rs i None = None \<Longrightarrow> in_force rs [] None = None \<Longrightarrow> compact reg w i ms cfg = (w, run_default i ms)"
  using registrations_in_force [of rs "\<lparr>compactors = []\<rparr>"] assms by (auto simp: compact_def)

subsection \<open>What a consumer can run into\<close>

text \<open>The result of the parser is not looked at: messages behind white space are lost, and the compaction counts.\<close>

lemma leading_space_empties_conversation:
  "compacted (snd (wrap_c_compactor (\<lambda>ud w m c. (w, 0, Some ('' '' @ m), None)) ud w ms cfg i)) \<and>
   result_messages (snd (wrap_c_compactor (\<lambda>ud w m c. (w, 0, Some ('' '' @ m), None)) ud w ms cfg i)) = []"
  by (simp add: wrap_c_compactor_def Let_def parse_messages_def c_string_def)

text \<open>White space before the brace that closes a content part ends the parse; the message is lost.\<close>

lemma space_before_brace_loses_message:
  "parse_messages (Some (''[{'' @ quoted ''role'' @ '':'' @ quoted ''user'' @ '','' @ quoted ''content'' @ '':[{'' @
     quoted ''type'' @ '':'' @ quoted ''text'' @ '','' @ quoted ''text'' @ '':'' @ quoted ''hi'' @ '' }]}]'')) = (False, [])"
  by code_simp

end
