(* ===== verification/Identity_Manager.thy ===== *)
theory Identity_Manager
  imports Access_Control
begin

text \<open>
  Identities made at run time (\<open>core/identity_manager.cpp\<close>, \<open>config/identity.h\<close>) and the calls of the C interface
  that make them (\<open>facade/entropic.cpp\<close>, \<open>facade/entropic_identity.cpp\<close>). The manager checks names, grammars and
  adapter files, keeps the tool keys of an identity in step with the identity, and tells the router and the prompt
  caches of every change. Each public method locks the map for its whole body, so each is one step.

  The callbacks act on a world; the keys side is a locale that the authorization manager of \<open>mcp_authorization.cpp\<close>
  provides. Proved: configured identities cannot be changed, run-time ones are always valid and within the limit, and
  the keys in force are those of the identities that exist.
\<close>

datatype identity_origin = STATIC | DYNAMIC

record phase_config =
  ph_temperature :: rat
  ph_max_output_tokens :: int
  ph_enable_thinking :: bool
  ph_repeat_penalty :: rat
  ph_bash_commands :: "string list option"

record identity_config =
  id_name :: string
  id_system_prompt :: string
  id_focus :: "string list"
  id_examples :: "string list"
  id_grammar :: string
  id_auto_chain :: string
  id_allowed_tools :: "string list"
  id_bash_commands :: "string list"
  id_mcp_keys :: "(string \<times> mcp_access_level) list"
  id_adapter_path :: string
  id_max_output_tokens :: int
  id_temperature :: rat
  id_repeat_penalty :: rat
  id_enable_thinking :: bool
  id_interstitial :: bool
  id_routable :: bool
  id_explicit_completion :: bool
  id_phases :: "(string \<times> phase_config) list"
  id_origin :: identity_origin
  id_max_iterations_override :: int
  id_max_tool_calls_override :: int

definition default_identity :: identity_config where
  "default_identity = \<lparr>id_name = [], id_system_prompt = [], id_focus = [], id_examples = [], id_grammar = [], id_auto_chain = [],
     id_allowed_tools = [], id_bash_commands = [], id_mcp_keys = [], id_adapter_path = [], id_max_output_tokens = 1024,
     id_temperature = f32 (7 / 10), id_repeat_penalty = f32 (11 / 10), id_enable_thinking = False, id_interstitial = False,
     id_routable = True, id_explicit_completion = False, id_phases = [], id_origin = DYNAMIC, id_max_iterations_override = -1,
     id_max_tool_calls_override = -1\<rparr>"

text \<open>The callbacks, each of which may be null, and the file test of the standard library.\<close>

record 'w identity_env =
  has_grammar :: "(string \<Rightarrow> 'w \<Rightarrow> bool) option"
  iface_register :: "(string \<Rightarrow> 'w \<Rightarrow> 'w) option"
  iface_grant :: "(string \<Rightarrow> string \<Rightarrow> int \<Rightarrow> 'w \<Rightarrow> 'w) option"
  iface_enforced :: "(string \<Rightarrow> 'w \<Rightarrow> bool) option"
  iface_unregister :: "(string \<Rightarrow> 'w \<Rightarrow> 'w) option"
  in_use_checker :: "(string \<Rightarrow> 'w \<Rightarrow> bool) option"
  cache_invalidator :: "('w \<Rightarrow> 'w) option"
  path_exists :: "string \<Rightarrow> bool"

record 'w identity_manager =
  max_identities :: nat
  allow_dynamic :: bool
  id_env :: "'w identity_env"
  identities :: "(string \<times> identity_config) list"
  router_dirty :: bool

definition new_identity_manager :: "nat \<Rightarrow> bool \<Rightarrow> 'w identity_env \<Rightarrow> 'w identity_manager" where
  "new_identity_manager n b env = \<lparr>max_identities = n, allow_dynamic = b, id_env = env, identities = [], router_dirty = False\<rparr>"

subsection \<open>Checks\<close>

definition s_reserved_names :: "string list" where
  "s_reserved_names = [''default'', ''none'', ''all'', ''router'']"

text \<open>The pattern \<open>^[a-z][a-z0-9_-]{0,63}$\<close>.\<close>

definition is_lower :: "char \<Rightarrow> bool" where
  "is_lower c \<longleftrightarrow> 97 \<le> byte c \<and> byte c \<le> 122"

definition matches_name_regex :: "string \<Rightarrow> bool" where
  "matches_name_regex s =
     (case s of
        [] \<Rightarrow> False
      | c # r \<Rightarrow> is_lower c \<and> length r \<le> 63 \<and> list_all (\<lambda>d. is_lower d \<or> is_digit d \<or> d = CHR ''_'' \<or> d = CHR ''-'') r)"

fun validate_phases :: "(string \<times> phase_config) list \<Rightarrow> string" where
  "validate_phases [] = []"
| "validate_phases ((n, ph) # ps) =
     (if n = [] then ''Phase name cannot be empty''
      else if ph_max_output_tokens ph \<le> 0 then ''Phase '' @ squoted n @ '' max_output_tokens must be > 0''
      else validate_phases ps)"

definition validate_fields :: "'w identity_env \<Rightarrow> identity_config \<Rightarrow> string" where
  "validate_fields env c =
     (let phase_err = validate_phases (id_phases c) in
      if phase_err \<noteq> [] then phase_err
      else if id_adapter_path c \<noteq> [] \<and> \<not> path_exists env (id_adapter_path c)
      then ''Adapter path not found: '' @ id_adapter_path c else [])"

definition validate_name :: "string \<Rightarrow> string" where
  "validate_name n =
     (if n = [] then ''Identity name cannot be empty''
      else if \<not> matches_name_regex n then ''Identity name must match ^[a-z][a-z0-9_-]{0,63}$''
      else if n \<in> set s_reserved_names then ''Identity name '' @ squoted n @ '' is reserved'' else [])"

definition validate_identity :: "'w identity_env \<Rightarrow> 'w \<Rightarrow> identity_config \<Rightarrow> bool \<Rightarrow> string" where
  "validate_identity env w c is_update =
     (if \<not> is_update \<and> validate_name (id_name c) \<noteq> [] then validate_name (id_name c)
      else if id_focus c = [] then ''Identity must have at least one focus keyword''
      else if id_grammar c \<noteq> [] \<and> (case has_grammar env of None \<Rightarrow> False | Some f \<Rightarrow> \<not> f (id_grammar c) w)
      then ''Grammar '' @ squoted (id_grammar c) @ '' not found in registry''
      else validate_fields env c)"

definition check_create_preconditions :: "identity_config \<Rightarrow> 'w identity_manager \<Rightarrow> entropic_error" where
  "check_create_preconditions c m =
     (if \<not> allow_dynamic m then ENTROPIC_ERROR_INVALID_CONFIG
      else if length (identities m) \<ge> max_identities m then ENTROPIC_ERROR_LIMIT_REACHED
      else if map_of (identities m) (id_name c) \<noteq> None then ENTROPIC_ERROR_ALREADY_EXISTS else ENTROPIC_OK)"

definition check_mutable :: "string \<Rightarrow> 'w identity_manager \<Rightarrow> entropic_error" where
  "check_mutable n m =
     (case map_of (identities m) n of
        None \<Rightarrow> ENTROPIC_ERROR_IDENTITY_NOT_FOUND
      | Some c \<Rightarrow> if id_origin c = STATIC then ENTROPIC_ERROR_PERMISSION_DENIED else ENTROPIC_OK)"

subsection \<open>Keys and caches\<close>

definition register_mcp_keys :: "'w identity_env \<Rightarrow> identity_config \<Rightarrow> 'w \<Rightarrow> 'w" where
  "register_mcp_keys env c w =
     (case iface_register env of
        None \<Rightarrow> w
      | Some reg \<Rightarrow>
          if id_mcp_keys c = [] then w
          else foldl (\<lambda>w (p, l). case iface_grant env of None \<Rightarrow> w | Some g \<Rightarrow> g (id_name c) p (int (level_value l)) w)
                 (reg (id_name c) w) (id_mcp_keys c))"

definition unregister_mcp_keys :: "'w identity_env \<Rightarrow> string \<Rightarrow> 'w \<Rightarrow> 'w" where
  "unregister_mcp_keys env n w =
     (case (iface_enforced env, iface_unregister env) of
        (Some enf, Some unreg) \<Rightarrow> if enf n w then unreg n w else w
      | _ \<Rightarrow> w)"

definition fire_cache_invalidator :: "'w identity_env \<Rightarrow> 'w \<Rightarrow> 'w" where
  "fire_cache_invalidator env w = (case cache_invalidator env of None \<Rightarrow> w | Some f \<Rightarrow> f w)"

subsection \<open>Operations\<close>

definition load_static :: "identity_config list \<Rightarrow> 'w identity_manager \<Rightarrow> 'w \<Rightarrow> nat \<times> 'w identity_manager \<times> 'w" where
  "load_static ids m w =
     (length ids,
      m\<lparr>identities := foldl (\<lambda>xs c. AList.update (id_name c) (c\<lparr>id_origin := STATIC\<rparr>) xs) (identities m) ids, router_dirty := True\<rparr>,
      fire_cache_invalidator (id_env m) w)"

definition create :: "identity_config \<Rightarrow> 'w identity_manager \<Rightarrow> 'w \<Rightarrow> entropic_error \<times> 'w identity_manager \<times> 'w" where
  "create c m w =
     (let pre = check_create_preconditions c m in
      if pre \<noteq> ENTROPIC_OK then (pre, m, w)
      else if validate_identity (id_env m) w c False \<noteq> [] then (ENTROPIC_ERROR_INVALID_CONFIG, m, w)
      else let c' = c\<lparr>id_origin := DYNAMIC\<rparr>; w' = register_mcp_keys (id_env m) c' w
           in (ENTROPIC_OK, m\<lparr>identities := AList.update (id_name c') c' (identities m), router_dirty := True\<rparr>,
               fire_cache_invalidator (id_env m) w'))"

definition update :: "string \<Rightarrow> identity_config \<Rightarrow> 'w identity_manager \<Rightarrow> 'w \<Rightarrow> entropic_error \<times> 'w identity_manager \<times> 'w" where
  "update n c m w =
     (let pre = check_mutable n m in
      if pre \<noteq> ENTROPIC_OK then (pre, m, w)
      else if validate_identity (id_env m) w c True \<noteq> [] then (ENTROPIC_ERROR_INVALID_CONFIG, m, w)
      else let c' = c\<lparr>id_origin := DYNAMIC, id_name := n\<rparr>; w' = register_mcp_keys (id_env m) c' (unregister_mcp_keys (id_env m) n w)
           in (ENTROPIC_OK, m\<lparr>identities := AList.update n c' (identities m), router_dirty := True\<rparr>,
               fire_cache_invalidator (id_env m) w'))"

definition destroy :: "string \<Rightarrow> 'w identity_manager \<Rightarrow> 'w \<Rightarrow> entropic_error \<times> 'w identity_manager \<times> 'w" where
  "destroy n m w =
     (let pre = check_mutable n m in
      if pre \<noteq> ENTROPIC_OK then (pre, m, w)
      else if (case in_use_checker (id_env m) of None \<Rightarrow> False | Some f \<Rightarrow> f n w) then (ENTROPIC_ERROR_IN_USE, m, w)
      else (ENTROPIC_OK, m\<lparr>identities := AList.delete n (identities m), router_dirty := True\<rparr>,
            fire_cache_invalidator (id_env m) (unregister_mcp_keys (id_env m) n w)))"

definition get_identity :: "'w identity_manager \<Rightarrow> string \<Rightarrow> identity_config option" where
  "get_identity m n = map_of (identities m) n"

definition has_identity :: "'w identity_manager \<Rightarrow> string \<Rightarrow> bool" where
  "has_identity m n \<longleftrightarrow> map_of (identities m) n \<noteq> None"

definition list_identities :: "'w identity_manager \<Rightarrow> string list" where
  "list_identities m = map fst (identities m)"

definition list_routable :: "'w identity_manager \<Rightarrow> identity_config list" where
  "list_routable m = filter (\<lambda>c. id_routable c \<and> \<not> id_interstitial c) (map snd (identities m))"

definition identity_count :: "'w identity_manager \<Rightarrow> nat" where
  "identity_count m = length (identities m)"

definition count_dynamic :: "'w identity_manager \<Rightarrow> nat" where
  "count_dynamic m = length (filter (\<lambda>c. id_origin c = DYNAMIC) (map snd (identities m)))"

definition clear_router_dirty :: "'w identity_manager \<Rightarrow> 'w identity_manager" where
  "clear_router_dirty m = m\<lparr>router_dirty := False\<rparr>"

subsection \<open>The C interface\<close>

text \<open>A handle is null or has its \<open>configured\<close> flag and its manager, which may be missing.\<close>

type_synonym 'w identity_handle = "(bool \<times> 'w identity_manager option) option"

definition check_identity :: "'w identity_handle \<Rightarrow> entropic_error" where
  "check_identity h =
     (case h of
        None \<Rightarrow> ENTROPIC_ERROR_INVALID_HANDLE
      | Some (configured, m) \<Rightarrow> if \<not> configured \<or> m = None then ENTROPIC_ERROR_INVALID_STATE else ENTROPIC_OK)"

text \<open>The members a configuration may set; \<^const>\<open>None\<close> is an exception of the JSON library.\<close>

definition read_focus :: "json \<Rightarrow> string list option" where
  "read_focus j =
     (case json_at j ''focus'' of
        Some f \<Rightarrow> if is_array f then get_all get_string (json_elements f) else Some []
      | None \<Rightarrow> Some [])"

definition create_request :: "json \<Rightarrow> identity_config option" where
  "create_request j =
     (case (json_value_string j ''name'', json_value_string j ''system_prompt'', read_focus j) of
        (Some n, Some p, Some f) \<Rightarrow> Some (default_identity\<lparr>id_name := n, id_system_prompt := p, id_focus := f\<rparr>)
      | _ \<Rightarrow> None)"

definition update_request :: "string \<Rightarrow> json \<Rightarrow> identity_config option" where
  "update_request n j =
     (case (json_value_string j ''system_prompt'', read_focus j) of
        (Some p, Some f) \<Rightarrow> Some (default_identity\<lparr>id_name := n, id_system_prompt := p, id_focus := f\<rparr>)
      | _ \<Rightarrow> None)"

definition on_manager :: "'w identity_handle \<Rightarrow> 'w \<Rightarrow>
    ('w identity_manager \<Rightarrow> entropic_error \<times> 'w identity_manager \<times> 'w) \<Rightarrow> entropic_error \<times> 'w identity_handle \<times> 'w" where
  "on_manager h w f =
     (case h of
        Some (b, Some m) \<Rightarrow> (case f m of (e, m', w') \<Rightarrow> (e, Some (b, Some m'), w'))
      | _ \<Rightarrow> (check_identity h, h, w))"

definition entropic_create_identity :: "(string \<Rightarrow> json option) \<Rightarrow> 'w identity_handle \<Rightarrow> string option \<Rightarrow> 'w \<Rightarrow>
    entropic_error \<times> 'w identity_handle \<times> 'w" where
  "entropic_create_identity parse h config_json w =
     (if check_identity h \<noteq> ENTROPIC_OK then (check_identity h, h, w)
      else case config_json of
             None \<Rightarrow> (ENTROPIC_ERROR_INVALID_ARGUMENT, h, w)
           | Some s \<Rightarrow> (case Option.bind (parse s) create_request of
               None \<Rightarrow> (ENTROPIC_ERROR_INVALID_CONFIG, h, w)
             | Some c \<Rightarrow> on_manager h w (\<lambda>m. create c m w)))"

definition entropic_update_identity :: "(string \<Rightarrow> json option) \<Rightarrow> 'w identity_handle \<Rightarrow> string option \<Rightarrow> string option \<Rightarrow> 'w \<Rightarrow>
    entropic_error \<times> 'w identity_handle \<times> 'w" where
  "entropic_update_identity parse h name config_json w =
     (if check_identity h \<noteq> ENTROPIC_OK then (check_identity h, h, w)
      else case (name, config_json) of
             (Some n, Some s) \<Rightarrow> (case Option.bind (parse s) (update_request n) of
               None \<Rightarrow> (ENTROPIC_ERROR_INVALID_CONFIG, h, w)
             | Some c \<Rightarrow> on_manager h w (\<lambda>m. update n c m w))
           | _ \<Rightarrow> (ENTROPIC_ERROR_INVALID_ARGUMENT, h, w))"

definition entropic_destroy_identity :: "'w identity_handle \<Rightarrow> string option \<Rightarrow> 'w \<Rightarrow> entropic_error \<times> 'w identity_handle \<times> 'w" where
  "entropic_destroy_identity h name w =
     (if check_identity h \<noteq> ENTROPIC_OK then (check_identity h, h, w)
      else case name of
             None \<Rightarrow> (ENTROPIC_ERROR_INVALID_ARGUMENT, h, w)
           | Some n \<Rightarrow> on_manager h w (\<lambda>m. destroy n m w))"

definition identity_json :: "identity_config \<Rightarrow> (string \<times> json) list" where
  "identity_json c = [(''name'', JString (id_name c)), (''origin'', JString (if id_origin c = STATIC then ''static'' else ''dynamic''))]"

definition entropic_get_identity_config :: "'w identity_handle \<Rightarrow> string option \<Rightarrow> json option" where
  "entropic_get_identity_config h name =
     (case (h, name) of
        (Some (_, Some m), Some n) \<Rightarrow>
          map_option (\<lambda>c. JObject (identity_json c @ [(''system_prompt'', JString (id_system_prompt c))])) (get_identity m n)
      | _ \<Rightarrow> None)"

definition entropic_list_identities :: "'w identity_handle \<Rightarrow> json option" where
  "entropic_list_identities h =
     (case h of Some (_, Some m) \<Rightarrow> Some (JArray (map JString (list_identities m))) | _ \<Rightarrow> None)"

definition entropic_identity_count :: "'w identity_handle \<Rightarrow> entropic_error \<times> (nat \<times> nat) option" where
  "entropic_identity_count h =
     (case h of
        Some (True, Some m) \<Rightarrow> (ENTROPIC_OK, Some (identity_count m, count_dynamic m))
      | _ \<Rightarrow> (check_identity h, None))"

definition entropic_load_identity :: "'w identity_handle \<Rightarrow> string option \<Rightarrow> entropic_error" where
  "entropic_load_identity h name =
     (case h of
        None \<Rightarrow> ENTROPIC_ERROR_INVALID_HANDLE
      | Some (_, None) \<Rightarrow> ENTROPIC_ERROR_INVALID_STATE
      | Some (_, Some m) \<Rightarrow>
          (case name of
             None \<Rightarrow> ENTROPIC_ERROR_INVALID_ARGUMENT
           | Some n \<Rightarrow> if has_identity m n then ENTROPIC_OK else ENTROPIC_ERROR_IDENTITY_NOT_FOUND))"

text \<open>The first identity in the order of the hash table; the flag says whether the result pointer is given.\<close>

definition entropic_get_identity :: "'w identity_handle \<Rightarrow> bool \<Rightarrow> entropic_error \<times> json option" where
  "entropic_get_identity h has_out =
     (case h of
        None \<Rightarrow> (ENTROPIC_ERROR_INVALID_HANDLE, None)
      | Some (_, None) \<Rightarrow> (ENTROPIC_ERROR_INVALID_STATE, None)
      | Some (_, Some m) \<Rightarrow>
          if \<not> has_out then (ENTROPIC_ERROR_INVALID_ARGUMENT, None)
          else case list_identities m of
                 [] \<Rightarrow> (ENTROPIC_ERROR_IDENTITY_NOT_FOUND, None)
               | n # _ \<Rightarrow>
                   (case get_identity m n of
                      None \<Rightarrow> (ENTROPIC_ERROR_IDENTITY_NOT_FOUND, None)
                    | Some c \<Rightarrow> (ENTROPIC_OK, Some (JObject (identity_json c)))))"

subsection \<open>The keys side\<close>

text \<open>The callbacks are those of one authority, and the prompt caches are no part of it.\<close>

definition wired :: "(string \<Rightarrow> 'w \<Rightarrow> 'w) \<Rightarrow> (string \<Rightarrow> string \<Rightarrow> int \<Rightarrow> 'w \<Rightarrow> 'w) \<Rightarrow> (string \<Rightarrow> 'w \<Rightarrow> bool) \<Rightarrow> (string \<Rightarrow> 'w \<Rightarrow> 'w) \<Rightarrow>
    ('w \<Rightarrow> string \<Rightarrow> string \<Rightarrow> mcp_access_level option) \<Rightarrow> 'w identity_env \<Rightarrow> bool" where
  "wired reg grant enforced unreg keys_of env \<longleftrightarrow> iface_register env = Some reg \<and> iface_grant env = Some grant \<and>
     iface_enforced env = Some enforced \<and> iface_unregister env = Some unreg \<and>
     (\<forall>f w n. cache_invalidator env = Some f \<longrightarrow> enforced n (f w) = enforced n w \<and> keys_of (f w) n = keys_of w n)"

text \<open>The keys in force are those of the run-time identities.\<close>

definition name_in_step :: "(string \<Rightarrow> 'w \<Rightarrow> bool) \<Rightarrow> ('w \<Rightarrow> string \<Rightarrow> string \<Rightarrow> mcp_access_level option) \<Rightarrow>
    identity_config option \<Rightarrow> string \<Rightarrow> 'w \<Rightarrow> bool" where
  "name_in_step enforced keys_of x n w \<longleftrightarrow>
     (case x of
        Some c \<Rightarrow> (enforced n w \<longleftrightarrow> id_origin c = DYNAMIC \<and> id_mcp_keys c \<noteq> []) \<and>
          (enforced n w \<longrightarrow> keys_of w n = map_of (rev (id_mcp_keys c)))
      | None \<Rightarrow> \<not> enforced n w)"

definition in_step :: "(string \<Rightarrow> 'w \<Rightarrow> bool) \<Rightarrow> ('w \<Rightarrow> string \<Rightarrow> string \<Rightarrow> mcp_access_level option) \<Rightarrow>
    (string \<times> identity_config) list \<Rightarrow> 'w \<Rightarrow> bool" where
  "in_step enforced keys_of ids w \<longleftrightarrow> (\<forall>n. name_in_step enforced keys_of (map_of ids n) n w)"

lemma name_in_step_cong:
  "enforced n w = enforced n w' \<Longrightarrow> keys_of w n = keys_of w' n \<Longrightarrow>
   name_in_step enforced keys_of x n w \<longleftrightarrow> name_in_step enforced keys_of x n w'"
  by (cases x) (simp_all add: name_in_step_def)

text \<open>What the manager relies on: an authority that keeps a table of keys per registered name.\<close>

locale key_authority =
  fixes reg :: "string \<Rightarrow> 'w \<Rightarrow> 'w"
    and grant :: "string \<Rightarrow> string \<Rightarrow> int \<Rightarrow> 'w \<Rightarrow> 'w"
    and enforced :: "string \<Rightarrow> 'w \<Rightarrow> bool"
    and unreg :: "string \<Rightarrow> 'w \<Rightarrow> 'w"
    and keys_of :: "'w \<Rightarrow> string \<Rightarrow> string \<Rightarrow> mcp_access_level option"
  assumes enforced_reg [simp]: "enforced m (reg n w) \<longleftrightarrow> m = n \<or> enforced m w"
    and enforced_grant [simp]: "enforced m (grant n p v w) \<longleftrightarrow> enforced m w"
    and enforced_unreg [simp]: "enforced m (unreg n w) \<longleftrightarrow> m \<noteq> n \<and> enforced m w"
    and keys_reg: "keys_of (reg n w) m = (if m = n \<and> \<not> enforced n w then Map.empty else keys_of w m)"
    and keys_grant: "enforced n w \<Longrightarrow> keys_of (grant n p (int (level_value l)) w) m = (if m = n then (keys_of w n)(p \<mapsto> l) else keys_of w m)"
    and keys_unreg: "m \<noteq> n \<Longrightarrow> keys_of (unreg n w) m = keys_of w m"
begin

lemma grants_enforced: "enforced m (foldl (\<lambda>w (p, l). grant n p (int (level_value l)) w) w ks) \<longleftrightarrow> enforced m w"
proof (induction ks arbitrary: w)
  case (Cons k ks)
  show ?case using Cons.IH [of "grant n (fst k) (int (level_value (snd k))) w"] by (simp add: split_beta)
qed simp

lemma grants_keys:
  "enforced n w \<Longrightarrow> keys_of (foldl (\<lambda>w (p, l). grant n p (int (level_value l)) w) w ks) m =
     (if m = n then (keys_of w n) ++ map_of (rev ks) else keys_of w m)"
proof (induction ks arbitrary: w)
  case (Cons k ks)
  obtain p l where k: "k = (p, l)" by (cases k)
  have "(f(p \<mapsto> l)) ++ g = f ++ ([p \<mapsto> l] ++ g)" for f g :: "string \<Rightarrow> mcp_access_level option" by (simp add: map_add_assoc)
  then show ?case using Cons.prems Cons.IH [of "grant n p (int (level_value l)) w"] by (simp add: k keys_grant)
qed simp

lemma registered:
  assumes "wired reg grant enforced unreg keys_of env" "\<not> enforced (id_name c) w"
  shows "enforced m (register_mcp_keys env c w) \<longleftrightarrow> (if m = id_name c then id_mcp_keys c \<noteq> [] else enforced m w)"
    and "id_mcp_keys c \<noteq> [] \<Longrightarrow> keys_of (register_mcp_keys env c w) (id_name c) = map_of (rev (id_mcp_keys c))"
    and "m \<noteq> id_name c \<Longrightarrow> keys_of (register_mcp_keys env c w) m = keys_of w m"
proof -
  have r: "register_mcp_keys env c w = (if id_mcp_keys c = [] then w else
      foldl (\<lambda>w (p, l). grant (id_name c) p (int (level_value l)) w) (reg (id_name c) w) (id_mcp_keys c))"
    using assms(1) by (simp add: register_mcp_keys_def wired_def)
  show "enforced m (register_mcp_keys env c w) \<longleftrightarrow> (if m = id_name c then id_mcp_keys c \<noteq> [] else enforced m w)"
    using assms(2) by (auto simp: r grants_enforced)
  show "keys_of (register_mcp_keys env c w) (id_name c) = map_of (rev (id_mcp_keys c))" if "id_mcp_keys c \<noteq> []"
    using that assms(2) by (simp add: r grants_keys keys_reg)
  show "keys_of (register_mcp_keys env c w) m = keys_of w m" if "m \<noteq> id_name c"
    using that by (simp add: r grants_keys keys_reg)
qed

lemma unregistered:
  assumes "wired reg grant enforced unreg keys_of env"
  shows "enforced m (unregister_mcp_keys env n w) \<longleftrightarrow> m \<noteq> n \<and> enforced m w"
    and "m \<noteq> n \<Longrightarrow> keys_of (unregister_mcp_keys env n w) m = keys_of w m"
  using assms by (auto simp: unregister_mcp_keys_def wired_def keys_unreg)

lemma invalidated:
  "wired reg grant enforced unreg keys_of env \<Longrightarrow> enforced n (fire_cache_invalidator env w) = enforced n w"
  "wired reg grant enforced unreg keys_of env \<Longrightarrow> keys_of (fire_cache_invalidator env w) n = keys_of w n"
  by (auto simp: fire_cache_invalidator_def wired_def split: option.split)

lemma in_step_put:
  assumes "wired reg grant enforced unreg keys_of env" "in_step enforced keys_of ids w" "\<not> enforced (id_name c) w" "id_origin c = DYNAMIC"
  shows "in_step enforced keys_of (AList.update (id_name c) c ids) (fire_cache_invalidator env (register_mcp_keys env c w))"
  unfolding in_step_def
proof
  fix n
  have "name_in_step enforced keys_of (map_of ids n) n w" using assms(2) by (simp add: in_step_def)
  then show "name_in_step enforced keys_of (map_of (AList.update (id_name c) c ids) n) n (fire_cache_invalidator env (register_mcp_keys env c w))"
  proof (cases "n = id_name c")
    case True
    then show ?thesis using registered(1,2) [OF assms(1,3)] assms(4) by (simp add: name_in_step_def invalidated [OF assms(1)])
  next
    case False
    then show ?thesis using \<open>name_in_step enforced keys_of (map_of ids n) n w\<close> registered(1,3) [OF assms(1,3), of n]
      by (subst name_in_step_cong [where w' = w]) (simp_all add: invalidated [OF assms(1)])
  qed
qed

lemma in_step_unregister:
  assumes "wired reg grant enforced unreg keys_of env" "in_step enforced keys_of ids w"
  shows "in_step enforced keys_of (AList.delete n ids) (unregister_mcp_keys env n w)"
  unfolding in_step_def
proof
  fix m
  have "name_in_step enforced keys_of (map_of ids m) m w" using assms(2) by (simp add: in_step_def)
  then show "name_in_step enforced keys_of (map_of (AList.delete n ids) m) m (unregister_mcp_keys env n w)"
  proof (cases "m = n")
    case True
    then show ?thesis using unregistered(1) [OF assms(1), of m n w] by (simp add: name_in_step_def)
  next
    case False
    then show ?thesis using \<open>name_in_step enforced keys_of (map_of ids m) m w\<close> unregistered [OF assms(1), of m n w]
      by (subst name_in_step_cong [where w' = w]) simp_all
  qed
qed

lemma in_step_invalidate: "wired reg grant enforced unreg keys_of env \<Longrightarrow> in_step enforced keys_of ids (fire_cache_invalidator env w) \<longleftrightarrow> in_step enforced keys_of ids w"
  unfolding in_step_def by (subst name_in_step_cong [where w' = w]) (simp_all add: invalidated)

lemma in_step_None: "in_step enforced keys_of ids w \<Longrightarrow> map_of ids n = None \<Longrightarrow> \<not> enforced n w"
  using spec [of "\<lambda>n. name_in_step enforced keys_of (map_of ids n) n w" n] by (simp add: in_step_def name_in_step_def)

lemma in_step_update:
  assumes "wired reg grant enforced unreg keys_of env" "in_step enforced keys_of ids w" "id_name c = n" "id_origin c = DYNAMIC"
  shows "in_step enforced keys_of (AList.update n c ids) (fire_cache_invalidator env (register_mcp_keys env c (unregister_mcp_keys env n w)))"
proof -
  have "in_step enforced keys_of (AList.delete n ids) (unregister_mcp_keys env n w)" by (rule in_step_unregister [OF assms(1,2)])
  then have "in_step enforced keys_of (AList.update n c (AList.delete n ids)) (fire_cache_invalidator env (register_mcp_keys env c (unregister_mcp_keys env n w)))"
    using in_step_put [OF assms(1), of "AList.delete n ids" _ c] in_step_None [of "AList.delete n ids" _ n] assms(3,4) by simp
  then show ?thesis by (simp add: in_step_def)
qed

text \<open>Every operation keeps the keys in step.\<close>

lemma ops_in_step:
  assumes "wired reg grant enforced unreg keys_of (id_env m)" "in_step enforced keys_of (identities m) w"
  shows "create c m w = (e, m', w') \<Longrightarrow> in_step enforced keys_of (identities m') w'"
    and "update n c m w = (e, m', w') \<Longrightarrow> in_step enforced keys_of (identities m') w'"
    and "destroy n m w = (e, m', w') \<Longrightarrow> in_step enforced keys_of (identities m') w'"
  using in_step_put [OF assms, of "c\<lparr>id_origin := DYNAMIC\<rparr>"] in_step_update [OF assms, of "c\<lparr>id_origin := DYNAMIC, id_name := n\<rparr>" n]
    in_step_None [OF assms(2)] in_step_unregister [OF assms] assms
  by (auto simp: create_def update_def destroy_def Let_def check_create_preconditions_def in_step_invalidate split: if_splits)

end

subsection \<open>The authorization manager provides it\<close>

text \<open>The callbacks of a \<open>MCPAuthorizationManager\<close>; a level crosses the interface as its number.\<close>

definition level_of_int :: "int \<Rightarrow> mcp_access_level" where
  "level_of_int v = (if v = 0 then NONE else if v = 1 then READ else WRITE)"

lemma level_of_int_value [simp]: "level_of_int (int (level_value l)) = l"
  by (cases l) (simp_all add: level_of_int_def)

definition auth_keys :: "auth_state \<Rightarrow> string \<Rightarrow> string \<Rightarrow> mcp_access_level option" where
  "auth_keys st n = (case map_of st n of None \<Rightarrow> Map.empty | Some ks \<Rightarrow> map_of ks)"

definition auth_register :: "string \<Rightarrow> auth_state \<Rightarrow> auth_state" where
  "auth_register n st = register_identity st n"

definition auth_give :: "string \<Rightarrow> string \<Rightarrow> int \<Rightarrow> auth_state \<Rightarrow> auth_state" where
  "auth_give n p v st = snd (auth_grant st n p (level_of_int v))"

definition auth_enforced :: "string \<Rightarrow> auth_state \<Rightarrow> bool" where
  "auth_enforced n st = is_enforced st n"

definition auth_unregister :: "string \<Rightarrow> auth_state \<Rightarrow> auth_state" where
  "auth_unregister n st = unregister_identity st n"

lemmas auth_iface_defs = auth_register_def auth_give_def auth_enforced_def auth_unregister_def auth_keys_def
  register_identity_def auth_grant_def is_enforced_def unregister_identity_def key_grant_def

interpretation auth: key_authority auth_register auth_give auth_enforced auth_unregister auth_keys
  by unfold_locales (auto simp: auth_iface_defs split: option.splits)

subsection \<open>The identities and their keys\<close>

datatype identity_op = Create identity_config | Update string identity_config | Destroy string

definition run_identity_op :: "identity_op \<Rightarrow> 'w identity_manager \<times> 'w \<Rightarrow> 'w identity_manager \<times> 'w" where
  "run_identity_op x mw =
     (case mw of (m, w) \<Rightarrow>
        snd (case x of Create c \<Rightarrow> create c m w | Update n c \<Rightarrow> update n c m w | Destroy n \<Rightarrow> destroy n m w))"

definition configured :: "identity_config list \<Rightarrow> (string \<times> identity_config) list" where
  "configured ids = foldl (\<lambda>xs c. AList.update (id_name c) (c\<lparr>id_origin := STATIC\<rparr>) xs) [] ids"

text \<open>What holds of a manager that was given the configured identities \<open>stat\<close>.\<close>

definition identities_inv :: "(string \<times> identity_config) list \<Rightarrow> 'w identity_manager \<Rightarrow> bool" where
  "identities_inv stat m \<longleftrightarrow> distinct (map fst (identities m)) \<and>
     length (identities m) \<le> max (max_identities m) (length stat) \<and>
     (\<forall>n c. map_of stat n = Some c \<longrightarrow> map_of (identities m) n = Some c) \<and>
     (\<forall>n c. map_of (identities m) n = Some c \<and> map_of stat n \<noteq> Some c \<longrightarrow>
        id_origin c = DYNAMIC \<and> id_name c = n \<and> validate_name n = [] \<and> id_focus c \<noteq> [] \<and> validate_phases (id_phases c) = [])"

lemma configured_distinct: "distinct (map fst xs) \<Longrightarrow>
    distinct (map fst (foldl (\<lambda>xs c. AList.update (id_name c) (c\<lparr>id_origin := STATIC\<rparr>) xs) xs ids))"
  by (induction ids arbitrary: xs) simp_all

lemma configured_origin:
  "\<forall>c \<in> snd ` set xs. id_origin c = STATIC \<Longrightarrow>
   \<forall>c \<in> snd ` set (foldl (\<lambda>xs c. AList.update (id_name c) (c\<lparr>id_origin := STATIC\<rparr>) xs) xs ids). id_origin c = STATIC"
proof (induction ids arbitrary: xs)
  case (Cons c ids)
  have "\<forall>d \<in> snd ` set (AList.update (id_name c) (c\<lparr>id_origin := STATIC\<rparr>) xs). id_origin d = STATIC"
    using Cons.prems by (auto dest!: set_AList_update)
  then show ?case using Cons.IH [of "AList.update (id_name c) (c\<lparr>id_origin := STATIC\<rparr>) xs"] by (simp only: foldl_Cons)
qed simp

lemma configured_static: "map_of (configured ids) n = Some c \<Longrightarrow> id_origin c = STATIC"
  using configured_origin [of "[]" ids] by (force simp: configured_def dest: map_of_SomeD)

lemma validated:
  "validate_identity env w c up = [] \<Longrightarrow> id_focus c \<noteq> [] \<and> validate_phases (id_phases c) = [] \<and> (\<not> up \<longrightarrow> validate_name (id_name c) = [])"
  by (auto simp: validate_identity_def validate_fields_def Let_def split: if_splits)

lemma length_AList_update_le: "length (AList.update k v xs) \<le> Suc (length xs)"
  by (induction xs) auto

lemma length_AList_update_old: "map_of xs k \<noteq> None \<Longrightarrow> length (AList.update k v xs) = length xs"
  by (induction xs) (auto split: if_splits)

lemma length_AList_delete_le: "length (AList.delete k xs) \<le> length xs"
  by (simp add: AList.delete_eq)

text \<open>An operation that changes anything works on a run-time identity.\<close>

lemma inv_put:
  assumes "identities_inv stat m" "map_of stat n = None" "length (AList.update n c (identities m)) \<le> max (max_identities m) (length stat)"
    and "id_origin c = DYNAMIC" "id_name c = n" "validate_name n = []" "id_focus c \<noteq> []" "validate_phases (id_phases c) = []"
  shows "identities_inv stat (m\<lparr>identities := AList.update n c (identities m), router_dirty := b\<rparr>)"
  using assms by (auto simp: identities_inv_def)

lemma not_static:
  assumes "identities_inv stat m" "\<forall>n c. map_of stat n = Some c \<longrightarrow> id_origin c = STATIC" "check_mutable n m = ENTROPIC_OK"
  shows "map_of stat n = None" "map_of (identities m) n \<noteq> None" "validate_name n = []"
proof -
  obtain c where c: "map_of (identities m) n = Some c" "id_origin c \<noteq> STATIC"
    using assms(3) by (auto simp: check_mutable_def split: option.splits if_splits)
  show "map_of (identities m) n \<noteq> None" using c by simp
  show s: "map_of stat n = None"
  proof (rule ccontr)
    assume "map_of stat n \<noteq> None"
    then obtain d where "map_of stat n = Some d" by auto
    then show False using assms(1,2) c by (auto simp: identities_inv_def)
  qed
  show "validate_name n = []" using assms(1) c(1) s by (auto simp: identities_inv_def)
qed

lemma ops_keep_inv:
  assumes "identities_inv stat m" "\<forall>n c. map_of stat n = Some c \<longrightarrow> id_origin c = STATIC"
  shows "create c m w = (e, m', w') \<Longrightarrow> identities_inv stat m'"
    and "update n c m w = (e, m', w') \<Longrightarrow> identities_inv stat m'"
    and "destroy n m w = (e, m', w') \<Longrightarrow> identities_inv stat m'"
proof -
  have new: "map_of stat k = None" if "map_of (identities m) k = None" for k
    using assms(1) that by (cases "map_of stat k") (auto simp: identities_inv_def)
  show "identities_inv stat m'" if "create c m w = (e, m', w')"
    using that assms(1) new validated [of "id_env m" w c False] length_AList_update_le [of "id_name c" "c\<lparr>id_origin := DYNAMIC\<rparr>" "identities m"]
    by (auto simp: create_def Let_def check_create_preconditions_def le_max_iff_disj split: if_splits intro!: inv_put)
  show "identities_inv stat m'" if up: "update n c m w = (e, m', w')"
  proof -
    have len: "length (identities m) \<le> max (max_identities m) (length stat)" using assms(1) by (simp add: identities_inv_def)
    consider "m' = m" | "check_mutable n m = ENTROPIC_OK" "validate_identity (id_env m) w c True = []"
        "m' = m\<lparr>identities := AList.update n (c\<lparr>id_origin := DYNAMIC, id_name := n\<rparr>) (identities m), router_dirty := True\<rparr>"
      using up by (auto simp: update_def Let_def split: if_splits)
    then show ?thesis
    proof cases
      case 2
      then show ?thesis using not_static [OF assms 2(1)] validated [OF 2(2)] len by (simp add: inv_put [OF assms(1)] length_AList_update_old)
    qed (use assms(1) in simp)
  qed
  show "identities_inv stat m'" if de: "destroy n m w = (e, m', w')"
  proof -
    consider "m' = m" | "check_mutable n m = ENTROPIC_OK" "m' = m\<lparr>identities := AList.delete n (identities m), router_dirty := True\<rparr>"
      using de by (auto simp: destroy_def Let_def split: if_splits)
    then show ?thesis
    proof cases
      case 2
      then show ?thesis using assms(1) not_static(1) [OF assms 2(1)] length_AList_delete_le [of n "identities m"]
        by (auto simp: identities_inv_def)
    qed (use assms(1) in simp)
  qed
qed

lemma op_keeps:
  assumes "identities_inv stat m" "\<forall>n c. map_of stat n = Some c \<longrightarrow> id_origin c = STATIC"
    and "wired auth_register auth_give auth_enforced auth_unregister auth_keys (id_env m)"
    and "in_step auth_enforced auth_keys (identities m) w" "run_identity_op x (m, w) = (m', w')"
  shows "identities_inv stat m' \<and> in_step auth_enforced auth_keys (identities m') w' \<and> id_env m' = id_env m"
proof -
  have env: "id_env m' = id_env m"
    using assms(5) by (cases x) (auto simp: run_identity_op_def create_def update_def destroy_def Let_def split: if_splits)
  consider c e where "create c m w = (e, m', w')" | n c e where "update n c m w = (e, m', w')" | n e where "destroy n m w = (e, m', w')"
    using assms(5) by (cases x) (auto simp: run_identity_op_def prod_eq_iff)
  then show ?thesis
  proof cases
    case 1
    then show ?thesis using ops_keep_inv(1) [OF assms(1,2)] auth.ops_in_step(1) [OF assms(3,4)] env by blast
  next
    case 2
    then show ?thesis using ops_keep_inv(2) [OF assms(1,2)] auth.ops_in_step(2) [OF assms(3,4)] env by blast
  next
    case 3
    then show ?thesis using ops_keep_inv(3) [OF assms(1,2)] auth.ops_in_step(3) [OF assms(3,4)] env by blast
  qed
qed

lemma ops_keep:
  assumes "identities_inv stat m" "\<forall>n c. map_of stat n = Some c \<longrightarrow> id_origin c = STATIC"
    and "wired auth_register auth_give auth_enforced auth_unregister auth_keys (id_env m)"
    and "in_step auth_enforced auth_keys (identities m) w" "foldl (\<lambda>s x. run_identity_op x s) (m, w) ops = (m', w')"
  shows "identities_inv stat m' \<and> in_step auth_enforced auth_keys (identities m') w'"
  using assms
proof (induction ops arbitrary: m w)
  case (Cons x ops)
  obtain m1 w1 where "run_identity_op x (m, w) = (m1, w1)" by fastforce
  then show ?case using op_keeps [OF Cons.prems(1-4)] Cons.IH [of m1 w1] Cons.prems by auto
qed simp

text \<open>
  Claim C3. However identities are created, changed and destroyed after the configured ones are loaded: configured
  identities stay as they are; every other one has an admissible name, a focus and valid phases; the limit holds; and,
  with the callbacks of the authorization manager, a key is in force exactly when an existing run-time identity has it.
\<close>

theorem identities_and_keys:
  assumes "wired auth_register auth_give auth_enforced auth_unregister auth_keys env"
    and "load_static ids (new_identity_manager limit allow env) [] = (k, m\<^sub>0, w\<^sub>0)"
    and "foldl (\<lambda>s x. run_identity_op x s) (m\<^sub>0, w\<^sub>0) ops = (m, w)"
  shows "identities_inv (configured ids) m \<and> in_step auth_enforced auth_keys (identities m) w"
proof (rule ops_keep [OF _ _ _ _ assms(3)])
  have m: "identities m\<^sub>0 = configured ids" "id_env m\<^sub>0 = env" "w\<^sub>0 = fire_cache_invalidator env []"
    using assms(2) by (auto simp: load_static_def new_identity_manager_def configured_def)
  show "identities_inv (configured ids) m\<^sub>0"
    using configured_distinct [of "[]" ids] by (simp add: identities_inv_def m configured_def)
  show "\<forall>n c. map_of (configured ids) n = Some c \<longrightarrow> id_origin c = STATIC" by (simp add: configured_static)
  show "wired auth_register auth_give auth_enforced auth_unregister auth_keys (id_env m\<^sub>0)" using assms(1) m by simp
  have "in_step auth_enforced auth_keys (configured ids) []"
    by (auto simp: in_step_def name_in_step_def auth_enforced_def is_enforced_def configured_static split: option.split)
  then show "in_step auth_enforced auth_keys (identities m\<^sub>0) w\<^sub>0" using assms(1) by (simp add: m auth.in_step_invalidate)
qed

definition demo_env :: "auth_state identity_env" where
  "demo_env = \<lparr>has_grammar = None, iface_register = Some auth_register, iface_grant = Some auth_give, iface_enforced = Some auth_enforced,
     iface_unregister = Some auth_unregister, in_use_checker = None, cache_invalidator = None, path_exists = (\<lambda>_. True)\<rparr>"

definition demo_identity :: "string \<Rightarrow> (string \<times> mcp_access_level) list \<Rightarrow> identity_config" where
  "demo_identity n ks = \<lparr>id_name = n, id_system_prompt = [], id_focus = [''metal''], id_examples = [], id_grammar = [], id_auto_chain = [],
     id_allowed_tools = [], id_bash_commands = [], id_mcp_keys = ks, id_adapter_path = [], id_max_output_tokens = 1024,
     id_temperature = 0, id_repeat_penalty = 0, id_enable_thinking = False, id_interstitial = False,
     id_routable = True, id_explicit_completion = False, id_phases = [], id_origin = DYNAMIC, id_max_iterations_override = -1,
     id_max_tool_calls_override = -1\<rparr>"

theorem identities_and_keys_witness:
  "let c = demo_identity ''smith'' [(''fs.*'', READ)];
       mw = foldl (\<lambda>s x. run_identity_op x s) (snd (load_static [demo_identity ''lead'' []] (new_identity_manager 8 True demo_env) []))
              [Create c, Destroy ''lead'']
   in map fst (identities (fst mw)) = [''lead'', ''smith''] \<and> snd mw = [(''smith'', [(''fs.*'', READ)])] \<and>
      in_step auth_enforced auth_keys (identities (fst mw)) (snd mw)"
proof -
  define c where "c = demo_identity ''smith'' [(''fs.*'', READ)]"
  define mw where "mw = foldl (\<lambda>s x. run_identity_op x s) (snd (load_static [demo_identity ''lead'' []] (new_identity_manager 8 True demo_env) []))
    [Create c, Destroy ''lead'']"
  have "map fst (identities (fst mw)) = [''lead'', ''smith''] \<and> snd mw = [(''smith'', [(''fs.*'', READ)])]"
    unfolding mw_def c_def demo_env_def by code_simp
  moreover have "in_step auth_enforced auth_keys (identities (fst mw)) (snd mw)"
    using identities_and_keys [of demo_env "[demo_identity ''lead'' []]" 8 True
        "fst (load_static [demo_identity ''lead'' []] (new_identity_manager 8 True demo_env) [])"
        "fst (snd (load_static [demo_identity ''lead'' []] (new_identity_manager 8 True demo_env) []))"
        "snd (snd (load_static [demo_identity ''lead'' []] (new_identity_manager 8 True demo_env) []))"
        "[Create c, Destroy ''lead'']" "fst mw" "snd mw"]
    by (simp add: mw_def wired_def demo_env_def)
  ultimately show ?thesis by (simp add: Let_def mw_def c_def)
qed

text \<open>Configured identities loaded over run-time ones leave the keys of those in force.\<close>

lemma reload_leaves_keys:
  "let c = demo_identity ''smith'' [(''fs.*'', READ)];
       mw = snd (create c (new_identity_manager 8 True demo_env) []);
       mw' = snd (load_static [demo_identity ''smith'' []] (fst mw) (snd mw))
   in map_option id_mcp_keys (get_identity (fst mw') ''smith'') = Some [] \<and> auth_enforced ''smith'' (snd mw')"
  unfolding demo_env_def by code_simp

end
