(* ===== verification/Lora_Manager.thy ===== *)
theory Lora_Manager
  imports Core_Types
begin

text \<open>
  The manager of LoRA adapters (\<open>inference/adapter_manager.cpp\<close>): an adapter is loaded against a base model (warm),
  applied to a context (hot) and freed. Every public method holds the manager's mutex, so each is one step.

  The library's side is explicit: the handles it has given out and not been asked to free, and the handle each context
  has applied; using a freed handle is counted as a fault. Whether the library can read an adapter file and whether the swap hook lets a swap pass are parameters.
  Proved: on one context, at most one adapter is hot, it is the one the context applies, every handle is freed
  once and none that is applied has been freed.
\<close>

datatype adapter_state = A_COLD | A_WARM | A_HOT

record adapter_entry =
  ad_name :: string
  ad_path :: string
  ad_handle :: "nat option"
  ad_model :: "nat option"
  ad_scale :: rat
  ad_state :: adapter_state

record lora =
  adapters :: "(string \<times> adapter_entry) list"
  active_name :: string
  next_handle :: nat
  live :: "nat list"
  applied :: "(nat \<times> nat) list"
  faults :: nat

definition new_lora :: lora where
  "new_lora = \<lparr>adapters = [], active_name = [], next_handle = 0, live = [], applied = [], faults = 0\<rparr>"

subsection \<open>The library\<close>

text \<open>A fault is a handle that is freed twice or applied when it is null or freed.\<close>

definition lora_init :: "bool \<Rightarrow> lora \<Rightarrow> nat option \<times> lora" where
  "lora_init ok s = (if ok then (Some (next_handle s), s\<lparr>next_handle := Suc (next_handle s), live := next_handle s # live s\<rparr>) else (None, s))"

definition lora_free :: "nat option \<Rightarrow> lora \<Rightarrow> lora" where
  "lora_free h s = (case h of None \<Rightarrow> s | Some k \<Rightarrow> s\<lparr>live := remove1 k (live s), faults := faults s + (if k \<in> set (live s) then 0 else 1)\<rparr>)"

definition apply_adapter :: "nat \<Rightarrow> nat option \<Rightarrow> lora \<Rightarrow> lora" where
  "apply_adapter ctx h s =
     (case h of
        None \<Rightarrow> s\<lparr>faults := Suc (faults s)\<rparr>
      | Some k \<Rightarrow> s\<lparr>applied := AList.update ctx k (applied s), faults := faults s + (if k \<in> set (live s) then 0 else 1)\<rparr>)"

definition clear_adapters :: "nat \<Rightarrow> lora \<Rightarrow> lora" where
  "clear_adapters ctx s = s\<lparr>applied := AList.delete ctx (applied s)\<rparr>"

text \<open>A context that is freed takes what it had applied with it.\<close>

definition drop_context :: "nat \<Rightarrow> lora \<Rightarrow> lora" where
  "drop_context ctx s = s\<lparr>applied := AList.delete ctx (applied s)\<rparr>"

subsection \<open>Operations\<close>

definition set_state :: "string \<Rightarrow> adapter_state \<Rightarrow> lora \<Rightarrow> lora" where
  "set_state n st s = s\<lparr>adapters := map (\<lambda>(k, e). (k, if k = n then e\<lparr>ad_state := st\<rparr> else e)) (adapters s)\<rparr>"

definition load_adapter :: "(nat \<Rightarrow> string \<Rightarrow> bool) \<Rightarrow> string \<Rightarrow> string \<Rightarrow> nat option \<Rightarrow> rat \<Rightarrow> lora \<Rightarrow> bool \<times> lora" where
  "load_adapter readable name path model scale s =
     (let existing = map_of (adapters s) name;
          released = (case existing of None \<Rightarrow> False | Some e \<Rightarrow> ad_handle e = None)
      in if (existing \<noteq> None \<and> \<not> released) \<or> model = None then (False, s)
         else case lora_init (readable (the model) path) s of
                (None, s') \<Rightarrow> (False, s')
              | (Some h, s') \<Rightarrow>
                  (True, s'\<lparr>adapters := AList.update name \<lparr>ad_name = name, ad_path = path, ad_handle = Some h, ad_model = model,
                     ad_scale = scale, ad_state = A_WARM\<rparr> (adapters s')\<rparr>))"

definition unload_adapter :: "string \<Rightarrow> nat option \<Rightarrow> lora \<Rightarrow> lora" where
  "unload_adapter name ctx s =
     (case map_of (adapters s) name of
        None \<Rightarrow> s
      | Some e \<Rightarrow>
          let s1 = (case ctx of Some c \<Rightarrow> if ad_state e = A_HOT then (clear_adapters c s)\<lparr>active_name := []\<rparr> else s | None \<Rightarrow> s);
              s2 = lora_free (ad_handle e) s1
          in s2\<lparr>adapters := AList.delete name (adapters s2)\<rparr>)"

definition activate_adapter :: "string \<Rightarrow> nat \<Rightarrow> lora \<Rightarrow> bool \<times> lora" where
  "activate_adapter name ctx s =
     (case map_of (adapters s) name of
        None \<Rightarrow> (False, s)
      | Some e \<Rightarrow>
          if ad_state e = A_HOT then (True, s)
          else if ad_state e = A_COLD then (False, s)
          else let s1 = (if active_name s \<noteq> [] \<and> active_name s \<noteq> name then set_state (active_name s) A_WARM s else s)
               in (True, (set_state name A_HOT (apply_adapter ctx (ad_handle e) s1))\<lparr>active_name := name\<rparr>))"

definition deactivate_adapter :: "nat option \<Rightarrow> lora \<Rightarrow> lora" where
  "deactivate_adapter ctx s =
     (if active_name s = [] then s
      else let s1 = (case map_of (adapters s) (active_name s) of
                       None \<Rightarrow> s
                     | Some e \<Rightarrow> set_state (active_name s) A_WARM (case ctx of None \<Rightarrow> s | Some c \<Rightarrow> clear_adapters c s))
           in s1\<lparr>active_name := []\<rparr>)"

text \<open>The hook sees the names of the two adapters and the path of the new one.\<close>

definition swap_adapter :: "(string \<Rightarrow> string \<Rightarrow> string \<Rightarrow> bool) \<Rightarrow> string \<Rightarrow> nat \<Rightarrow> lora \<Rightarrow> bool \<times> lora" where
  "swap_adapter hook_lets_pass name ctx s =
     (case map_of (adapters s) name of
        None \<Rightarrow> (False, s)
      | Some e \<Rightarrow>
          if ad_state e = A_COLD then (False, s)
          else if active_name s = name then (True, s)
          else if \<not> hook_lets_pass (active_name s) name (ad_path e) then (False, s)
          else let s1 = (if active_name s \<noteq> [] then set_state (active_name s) A_WARM s else s)
               in (True, (set_state name A_HOT (apply_adapter ctx (ad_handle e) s1))\<lparr>active_name := name\<rparr>))"

definition of_model :: "nat option \<Rightarrow> lora \<Rightarrow> (string \<times> adapter_entry) list" where
  "of_model model s = filter (\<lambda>(k, e). ad_model e = model) (adapters s)"

definition clear_if_hot :: "(string \<times> adapter_entry) list \<Rightarrow> nat option \<Rightarrow> lora \<Rightarrow> lora" where
  "clear_if_hot es ctx s = (case ctx of Some c \<Rightarrow> if \<exists>(k, e) \<in> set es. ad_state e = A_HOT then clear_adapters c s else s | None \<Rightarrow> s)"

definition free_all :: "(string \<times> adapter_entry) list \<Rightarrow> lora \<Rightarrow> lora" where
  "free_all es s = foldl (\<lambda>s (k, e). lora_free (ad_handle e) s) s es"

definition unload_all_for_model :: "nat option \<Rightarrow> nat option \<Rightarrow> lora \<Rightarrow> lora" where
  "unload_all_for_model model ctx s =
     (let es = of_model model s; s1 = free_all es (clear_if_hot es ctx s)
      in s1\<lparr>active_name := (if active_name s \<in> fst ` set es then [] else active_name s),
            adapters := filter (\<lambda>(k, e). ad_model e \<noteq> model) (adapters s)\<rparr>)"

definition release_handles_for_model :: "nat option \<Rightarrow> nat option \<Rightarrow> lora \<Rightarrow> lora" where
  "release_handles_for_model model ctx s =
     (let es = of_model model s; s1 = free_all es (clear_if_hot es ctx s)
      in s1\<lparr>active_name := (if active_name s \<in> fst ` set es then [] else active_name s),
            adapters := map (\<lambda>(k, e). (k, if ad_model e = model then e\<lparr>ad_handle := None, ad_model := None, ad_state := A_COLD\<rparr> else e)) (adapters s)\<rparr>)"

definition unload_all :: "lora \<Rightarrow> lora" where
  "unload_all s = (free_all (adapters s) s)\<lparr>adapters := [], active_name := []\<rparr>"

definition lora_state :: "lora \<Rightarrow> string \<Rightarrow> adapter_state" where
  "lora_state s name = (case map_of (adapters s) name of None \<Rightarrow> A_COLD | Some e \<Rightarrow> ad_state e)"

subsection \<open>One context\<close>

datatype lora_op =
  Load string string "nat option" rat | Unload string "nat option" | Activate string | Deactivate "nat option" | Swap string
| Unload_model "nat option" "nat option" | Release_model "nat option" "nat option" | Drop_context

definition lora_step :: "(nat \<Rightarrow> string \<Rightarrow> bool) \<Rightarrow> (string \<Rightarrow> string \<Rightarrow> string \<Rightarrow> bool) \<Rightarrow> nat \<Rightarrow> lora_op \<Rightarrow> lora \<Rightarrow> lora" where
  "lora_step readable pass c x s =
     (case x of
        Load n p m k \<Rightarrow> snd (load_adapter readable n p m k s)
      | Unload n ctx \<Rightarrow> unload_adapter n ctx s
      | Activate n \<Rightarrow> snd (activate_adapter n c s)
      | Deactivate ctx \<Rightarrow> deactivate_adapter ctx s
      | Swap n \<Rightarrow> snd (swap_adapter pass n c s)
      | Unload_model m ctx \<Rightarrow> unload_all_for_model m ctx s
      | Release_model m ctx \<Rightarrow> release_handles_for_model m ctx s
      | Drop_context \<Rightarrow> drop_context c s)"

text \<open>
  How the manager is to be called: adapters have names, the context is \<open>c\<close> and it is given when the adapter is hot,
  and a context is freed only when nothing is hot on it.
\<close>

definition allowed :: "nat \<Rightarrow> lora_op \<Rightarrow> lora \<Rightarrow> bool" where
  "allowed c x s =
     (case x of
        Load n p m k \<Rightarrow> n \<noteq> []
      | Unload n ctx \<Rightarrow> if lora_state s n = A_HOT then ctx = Some c else ctx \<in> {None, Some c}
      | Deactivate ctx \<Rightarrow> if active_name s \<noteq> [] then ctx = Some c else ctx \<in> {None, Some c}
      | Unload_model m ctx \<Rightarrow> ctx = Some c \<or> ctx = None \<and> \<not> (\<exists>(k, e) \<in> set (of_model m s). ad_state e = A_HOT)
      | Release_model m ctx \<Rightarrow> ctx = Some c \<or> ctx = None \<and> \<not> (\<exists>(k, e) \<in> set (of_model m s). ad_state e = A_HOT)
      | Drop_context \<Rightarrow> active_name s = []
      | _ \<Rightarrow> True)"

definition own :: "(string \<Rightarrow> adapter_entry option) \<Rightarrow> nat set" where
  "own m = {h. \<exists>n e. m n = Some e \<and> ad_handle e = Some h}"

definition entries_inv :: "(string \<Rightarrow> adapter_entry option) \<Rightarrow> string \<Rightarrow> bool" where
  "entries_inv m a \<longleftrightarrow> m [] = None \<and>
     (\<forall>n e. m n = Some e \<longrightarrow> (ad_handle e = None \<longleftrightarrow> ad_state e = A_COLD)) \<and>
     (\<forall>n e. m n = Some e \<and> ad_state e = A_HOT \<longrightarrow> n = a) \<and>
     (a \<noteq> [] \<longrightarrow> (\<exists>e. m a = Some e \<and> ad_state e = A_HOT)) \<and>
     (\<forall>n k e f h. m n = Some e \<and> m k = Some f \<and> ad_handle e = Some h \<and> ad_handle f = Some h \<longrightarrow> n = k)"

definition lora_inv :: "nat \<Rightarrow> lora \<Rightarrow> bool" where
  "lora_inv c s \<longleftrightarrow> distinct (map fst (adapters s)) \<and> entries_inv (map_of (adapters s)) (active_name s) \<and>
     distinct (live s) \<and> set (live s) = own (map_of (adapters s)) \<and> (\<forall>h \<in> set (live s). h < next_handle s) \<and>
     map_of (applied s) = (\<lambda>x. if x = c then Option.bind (map_of (adapters s) (active_name s)) ad_handle else None) \<and>
     faults s = 0"

subsection \<open>Every allowed call keeps it\<close>

lemma map_of_set_state:
  "map_of (adapters (set_state n st s)) = (\<lambda>k. map_option (\<lambda>e. if k = n then e\<lparr>ad_state := st\<rparr> else e) (map_of (adapters s) k))"
proof -
  have "map_of (map (\<lambda>(k, e). (k, if k = n then e\<lparr>ad_state := st\<rparr> else e)) xs) =
      (\<lambda>k. map_option (\<lambda>e. if k = n then e\<lparr>ad_state := st\<rparr> else e) (map_of xs k))" for xs
    by (induction xs) (auto simp: fun_eq_iff)
  then show ?thesis by (simp add: set_state_def)
qed

lemma set_state_simps [simp]:
  "active_name (set_state n st s) = active_name s" "live (set_state n st s) = live s" "faults (set_state n st s) = faults s"
  "applied (set_state n st s) = applied s" "next_handle (set_state n st s) = next_handle s"
  "map fst (adapters (set_state n st s)) = map fst (adapters s)"
  by (auto simp: set_state_def)

declare map_of_eq_Some_iff [simp del]

lemma entries_invD:
  assumes "entries_inv m a"
  shows "m [] = None" "m n = Some e \<Longrightarrow> ad_handle e = None \<longleftrightarrow> ad_state e = A_COLD" "m n = Some e \<Longrightarrow> ad_state e = A_HOT \<Longrightarrow> n = a"
    "a \<noteq> [] \<Longrightarrow> \<exists>e. m a = Some e \<and> ad_state e = A_HOT"
    "m n = Some e \<Longrightarrow> m k = Some f \<Longrightarrow> ad_handle e = Some h \<Longrightarrow> ad_handle f = Some h \<Longrightarrow> n = k"
  using assms unfolding entries_inv_def by blast+

lemma lora_invD:
  assumes "lora_inv c s"
  shows "distinct (map fst (adapters s))" "entries_inv (map_of (adapters s)) (active_name s)" "distinct (live s)"
    "set (live s) = own (map_of (adapters s))" "h \<in> set (live s) \<Longrightarrow> h < next_handle s"
    "map_of (applied s) = (\<lambda>x. if x = c then Option.bind (map_of (adapters s) (active_name s)) ad_handle else None)" "faults s = 0"
  using assms by (auto simp: lora_inv_def)

lemma lora_invI:
  assumes "distinct (map fst (adapters s))" "entries_inv (map_of (adapters s)) (active_name s)" "distinct (live s)"
    "set (live s) = own (map_of (adapters s))" "\<And>h. h \<in> set (live s) \<Longrightarrow> h < next_handle s"
    "map_of (applied s) = (\<lambda>x. if x = c then Option.bind (map_of (adapters s) (active_name s)) ad_handle else None)" "faults s = 0"
  shows "lora_inv c s"
  using assms by (simp add: lora_inv_def)

text \<open>Changing states only, and in step with the active name.\<close>

lemma entries_restate:
  assumes "entries_inv m a" "\<And>n e. m n = Some e \<Longrightarrow> (f n e = A_COLD \<longleftrightarrow> ad_state e = A_COLD) \<and> (f n e = A_HOT \<longrightarrow> n = b)"
    and "b \<noteq> [] \<Longrightarrow> \<exists>e. m b = Some e \<and> f b e = A_HOT"
  shows "entries_inv (\<lambda>k. map_option (\<lambda>e. e\<lparr>ad_state := f k e\<rparr>) (m k)) b"
proof -
  note d = entries_invD [OF assms(1)]
  show ?thesis unfolding entries_inv_def
  proof (intro conjI allI impI)
    show "map_option (\<lambda>e. e\<lparr>ad_state := f [] e\<rparr>) (m []) = None" using d(1) by simp
    show "ad_handle e = None \<longleftrightarrow> ad_state e = A_COLD" if "map_option (\<lambda>e. e\<lparr>ad_state := f n e\<rparr>) (m n) = Some e" for n e
      using that d(2) assms(2) by fastforce
    show "n = b" if "map_option (\<lambda>e. e\<lparr>ad_state := f n e\<rparr>) (m n) = Some e \<and> ad_state e = A_HOT" for n e
      using that assms(2) by fastforce
    show "\<exists>e. map_option (\<lambda>e. e\<lparr>ad_state := f b e\<rparr>) (m b) = Some e \<and> ad_state e = A_HOT" if "b \<noteq> []"
      using assms(3) that by fastforce
    show "n = k" if "map_option (\<lambda>e. e\<lparr>ad_state := f n e\<rparr>) (m n) = Some e \<and> map_option (\<lambda>e. e\<lparr>ad_state := f k e\<rparr>) (m k) = Some g \<and>
        ad_handle e = Some h \<and> ad_handle g = Some h" for n k e g h
      using that d(5) by fastforce
  qed
qed

lemma own_restate: "own (\<lambda>k. map_option (\<lambda>e. e\<lparr>ad_state := f k e\<rparr>) (m k)) = own m"
proof -
  have "(\<exists>e. map_option (\<lambda>e. e\<lparr>ad_state := f k e\<rparr>) (m k) = Some e \<and> ad_handle e = Some h) \<longleftrightarrow> (\<exists>e. m k = Some e \<and> ad_handle e = Some h)" for k h
    by (cases "m k") auto
  then show ?thesis by (simp add: own_def)
qed

text \<open>Making \<open>n\<close> hot in place of the one that is.\<close>

lemma heat_keeps:
  assumes "lora_inv c s" "map_of (adapters s) n = Some e" "ad_state e \<noteq> A_COLD" "active_name s \<noteq> n"
  shows "lora_inv c ((set_state n A_HOT (apply_adapter c (ad_handle e) (if active_name s \<noteq> [] then set_state (active_name s) A_WARM s else s)))\<lparr>active_name := n\<rparr>)"
proof -
  let ?m = "map_of (adapters s)" and ?a = "active_name s"
  note i = lora_invD [OF assms(1)] and d = entries_invD [OF lora_invD(2) [OF assms(1)]]
  obtain h where h: "ad_handle e = Some h" using d(2) [OF assms(2)] assms(3) by (cases "ad_handle e") auto
  then have live: "h \<in> set (live s)" using i(4) assms(2) by (auto simp: own_def)
  let ?s1 = "if ?a \<noteq> [] then set_state ?a A_WARM s else s"
  let ?s2 = "apply_adapter c (Some h) ?s1"
  let ?f = "\<lambda>k e. if k = n then A_HOT else if k = ?a then A_WARM else ad_state e"
  have ad: "adapters ?s2 = adapters ?s1" by (simp add: apply_adapter_def)
  have m2: "map_of (adapters (set_state n A_HOT ?s2)) = (\<lambda>k. map_option (\<lambda>e. e\<lparr>ad_state := ?f k e\<rparr>) (?m k))"
  proof
    fix k
    show "map_of (adapters (set_state n A_HOT ?s2)) k = map_option (\<lambda>e. e\<lparr>ad_state := ?f k e\<rparr>) (?m k)"
      using d(1) assms(4) by (cases "?m k") (auto simp: map_of_set_state ad)
  qed
  have "ad_state e \<noteq> A_COLD" if "?m ?a = Some e" for e using d(1,4) that by (cases "?a = []") auto
  then have "entries_inv (map_of (adapters (set_state n A_HOT ?s2))) n"
    unfolding m2 using assms(2,3) d(3) by (intro entries_restate [OF i(2)]) auto
  moreover have "own (map_of (adapters (set_state n A_HOT ?s2))) = own ?m" unfolding m2 by (rule own_restate)
  moreover have "map_of (adapters (set_state n A_HOT ?s2)) n = Some (e\<lparr>ad_state := A_HOT\<rparr>)" using assms(2) by (simp add: m2)
  moreover have "distinct (map fst (adapters (set_state n A_HOT ?s2)))" using i(1) by (simp add: ad)
  moreover have "live (set_state n A_HOT ?s2) = live s" "next_handle (set_state n A_HOT ?s2) = next_handle s"
    "faults (set_state n A_HOT ?s2) = 0" "map_of (applied (set_state n A_HOT ?s2)) = (map_of (applied s))(c \<mapsto> h)"
    using live i(7) by (simp_all add: apply_adapter_def)
  moreover obtain s3 where "s3 = set_state n A_HOT ?s2" by simp
  ultimately have "lora_inv c (s3\<lparr>active_name := n\<rparr>)" using i(3-6) h by (intro lora_invI) (simp_all add: fun_eq_iff)
  then show ?thesis using \<open>s3 = _\<close> h by simp
qed

lemma deactivate_keeps:
  assumes "lora_inv c s" "active_name s \<noteq> []"
  shows "lora_inv c (deactivate_adapter (Some c) s)"
proof -
  let ?m = "map_of (adapters s)" and ?a = "active_name s"
  note i = lora_invD [OF assms(1)] and d = entries_invD [OF lora_invD(2) [OF assms(1)]]
  obtain e where e: "?m ?a = Some e" "ad_state e = A_HOT" using d(4) assms(2) by blast
  let ?s = "set_state ?a A_WARM (clear_adapters c s)"
  have s': "deactivate_adapter (Some c) s = ?s\<lparr>active_name := []\<rparr>" using e assms(2) by (simp add: deactivate_adapter_def)
  let ?f = "\<lambda>k e. if k = ?a then A_WARM else ad_state e"
  have m2: "map_of (adapters ?s) = (\<lambda>k. map_option (\<lambda>e. e\<lparr>ad_state := ?f k e\<rparr>) (?m k))"
  proof
    fix k
    show "map_of (adapters ?s) k = map_option (\<lambda>e. e\<lparr>ad_state := ?f k e\<rparr>) (?m k)"
      by (cases "?m k") (auto simp: map_of_set_state clear_adapters_def)
  qed
  have "entries_inv (map_of (adapters ?s)) []" unfolding m2 by (intro entries_restate [OF i(2)]) (use e in \<open>auto dest: d(3)\<close>)
  moreover have "own (map_of (adapters ?s)) = own ?m" unfolding m2 by (rule own_restate)
  moreover have none: "map_of (adapters ?s) [] = None" using d(1) by (simp add: m2)
  moreover have "map_of (applied ?s) = Map.empty" using i(6) by (simp add: clear_adapters_def fun_eq_iff)
  moreover have "distinct (map fst (adapters ?s))" "live ?s = live s" "next_handle ?s = next_handle s" "faults ?s = 0"
    using i(1,7) by (simp_all add: clear_adapters_def)
  moreover obtain t where t: "t = ?s" by simp
  ultimately have "lora_inv c (t\<lparr>active_name := []\<rparr>)" using i(3,4,5) by (intro lora_invI) (simp_all add: fun_eq_iff)
  then show ?thesis using s' t by simp
qed

lemma own_update:
  assumes "\<And>e. m n = Some e \<Longrightarrow> ad_handle e = None" "ad_handle x = Some h"
  shows "own (m(n \<mapsto> x)) = insert h (own m)"
proof (intro set_eqI iffI)
  fix k assume "k \<in> own (m(n \<mapsto> x))"
  then show "k \<in> insert h (own m)" using assms(2) by (auto simp: own_def split: if_splits)
next
  fix k assume "k \<in> insert h (own m)"
  then consider "k = h" | j e where "m j = Some e" "ad_handle e = Some k" by (auto simp: own_def)
  then show "k \<in> own (m(n \<mapsto> x))"
  proof cases
    case 1
    then show ?thesis using assms(2) by (auto simp: own_def intro: exI [of _ n])
  next
    case 2
    then have "j \<noteq> n" using assms(1) by auto
    then show ?thesis using 2 by (auto simp: own_def intro!: exI [of _ j])
  qed
qed

lemma load_keeps:
  assumes "lora_inv c s" "n \<noteq> []"
  shows "lora_inv c (snd (load_adapter readable n p m k s))"
proof -
  let ?m = "map_of (adapters s)"
  note i = lora_invD [OF assms(1)] and d = entries_invD [OF lora_invD(2) [OF assms(1)]]
  show ?thesis
  proof (cases "(?m n = None \<or> (\<exists>e. ?m n = Some e \<and> ad_handle e = None)) \<and> m \<noteq> None \<and> readable (the m) p")
    case False
    then show ?thesis using assms(1) by (auto simp: load_adapter_def lora_init_def Let_def split: option.splits)
  next
    case True
    let ?h = "next_handle s"
    let ?x = "\<lparr>ad_name = n, ad_path = p, ad_handle = Some ?h, ad_model = m, ad_scale = k, ad_state = A_WARM\<rparr>"
    have s': "snd (load_adapter readable n p m k s) =
        s\<lparr>next_handle := Suc ?h, live := ?h # live s, adapters := AList.update n ?x (adapters s)\<rparr>"
      using True by (auto simp: load_adapter_def lora_init_def Let_def)
    have old: "ad_handle e = None" "ad_state e = A_COLD" if "?m n = Some e" for e using True that d(2) [OF that] by auto
    have fresh: "?h \<notin> own ?m" using i(4,5) by blast
    have "n \<noteq> active_name s" using old d(4) assms(2) by fastforce
    have "entries_inv (?m(n \<mapsto> ?x)) (active_name s)" unfolding entries_inv_def
    proof (intro conjI allI impI)
      show "(?m(n \<mapsto> ?x)) [] = None" using d(1) assms(2) by simp
      show "ad_handle e = None \<longleftrightarrow> ad_state e = A_COLD" if "(?m(n \<mapsto> ?x)) j = Some e" for j e
        using that d(2) by (auto split: if_splits)
      show "j = active_name s" if "(?m(n \<mapsto> ?x)) j = Some e \<and> ad_state e = A_HOT" for j e
        using that d(3) by (auto split: if_splits)
      show "\<exists>e. (?m(n \<mapsto> ?x)) (active_name s) = Some e \<and> ad_state e = A_HOT" if "active_name s \<noteq> []"
        using that d(4) \<open>n \<noteq> active_name s\<close> by simp
      show "j = l" if "(?m(n \<mapsto> ?x)) j = Some e \<and> (?m(n \<mapsto> ?x)) l = Some f \<and> ad_handle e = Some h \<and> ad_handle f = Some h" for j l e f h
        using that fresh d(5) by (auto simp: own_def split: if_splits)
    qed
    moreover have "own (?m(n \<mapsto> ?x)) = insert ?h (own ?m)" using old by (intro own_update) simp_all
    ultimately show ?thesis unfolding s' using i fresh \<open>n \<noteq> active_name s\<close> by (intro lora_invI) (auto simp: less_Suc_eq)
  qed
qed

text \<open>Dropping the entries of some names, with their handles freed.\<close>

lemma free_all_live:
  assumes "distinct (map fst es)" "\<forall>(n, e) \<in> set es. m n = Some e"
    and "\<And>n k e f h. m n = Some e \<Longrightarrow> m k = Some f \<Longrightarrow> ad_handle e = Some h \<Longrightarrow> ad_handle f = Some h \<Longrightarrow> n = k"
    and "distinct (live s)" "\<forall>(n, e) \<in> set es. \<forall>h. ad_handle e = Some h \<longrightarrow> h \<in> set (live s)"
  shows "distinct (live (free_all es s)) \<and> set (live (free_all es s)) = set (live s) - {h. \<exists>(n, e) \<in> set es. ad_handle e = Some h} \<and>
    faults (free_all es s) = faults s"
  using assms
proof (induction es arbitrary: s)
  case (Cons x es)
  obtain n e where x: "x = (n, e)" by (cases x)
  have rest: "\<forall>(k, f) \<in> set es. \<forall>h. ad_handle f = Some h \<longrightarrow> h \<in> set (live (lora_free (ad_handle e) s))"
  proof (clarify)
    fix k f h assume kf: "(k, f) \<in> set es" "ad_handle f = Some h"
    then have "k \<noteq> n" using Cons.prems(1) x by force
    then have "ad_handle e \<noteq> Some h" using Cons.prems(2,3) kf x by fastforce
    then show "h \<in> set (live (lora_free (ad_handle e) s))"
      using Cons.prems(4,5) kf x by (auto simp: lora_free_def split: option.split)
  qed
  have "distinct (live (lora_free (ad_handle e) s))" using Cons.prems(4) by (auto simp: lora_free_def split: option.split)
  moreover have "set (live (lora_free (ad_handle e) s)) = set (live s) - {h. ad_handle e = Some h}"
    "faults (lora_free (ad_handle e) s) = faults s"
    using Cons.prems(4,5) x by (auto simp: lora_free_def split: option.split)
  moreover have "free_all (x # es) s = free_all es (lora_free (ad_handle e) s)" by (simp add: free_all_def x)
  moreover have "{h. \<exists>(k, f) \<in> set (x # es). ad_handle f = Some h} = {h. ad_handle e = Some h} \<union> {h. \<exists>(k, f) \<in> set es. ad_handle f = Some h}"
    by (auto simp: x)
  moreover have "distinct (map fst es)" "\<forall>(n, e) \<in> set es. m n = Some e" using Cons.prems(1,2) by simp_all
  ultimately show ?case using Cons.IH [of "lora_free (ad_handle e) s"] Cons.prems(3) rest by (simp add: Diff_eq Int_assoc)
qed (simp add: free_all_def)

lemma drop_keeps:
  assumes inv: "lora_inv c s" and es: "distinct (map fst es)" "\<And>n e. (n, e) \<in> set es \<Longrightarrow> map_of (adapters s) n = Some e"
    and ctx: "\<And>n e. (n, e) \<in> set es \<Longrightarrow> ad_state e = A_HOT \<Longrightarrow> ctx = Some c" "ctx \<in> {None, Some c}"
    and xs: "distinct (map fst xs)" "\<And>n. n \<notin> fst ` set es \<Longrightarrow> map_of xs n = map_of (adapters s) n"
      "\<And>n e. n \<in> fst ` set es \<Longrightarrow> map_of xs n = Some e \<Longrightarrow> ad_handle e = None \<and> ad_state e = A_COLD"
  shows "lora_inv c ((free_all es (clear_if_hot es ctx s))\<lparr>active_name := (if active_name s \<in> fst ` set es then [] else active_name s), adapters := xs\<rparr>)"
proof -
  let ?m = "map_of (adapters s)" and ?a = "active_name s" and ?N = "fst ` set es"
  let ?b = "if ?a \<in> ?N then [] else ?a"
  note i = lora_invD [OF inv] and d = entries_invD [OF lora_invD(2) [OF inv]]
  have dropped: "ad_handle e = None" "ad_state e = A_COLD" if "map_of xs n = Some e" "n \<in> ?N" for n e using xs(3) that by auto
  have kept: "?m n = Some e" if "map_of xs n = Some e" "n \<notin> ?N" for n e using xs(2) that by simp
  have ent: "entries_inv (map_of xs) ?b" unfolding entries_inv_def
  proof (intro conjI allI impI)
    have "[] \<notin> ?N" using es(2) d(1) by fastforce
    then show "map_of xs [] = None" using xs(2) d(1) by simp
    show "ad_handle e = None \<longleftrightarrow> ad_state e = A_COLD" if "map_of xs n = Some e" for n e
      using that dropped [OF that] kept [OF that] d(2) by (cases "n \<in> ?N") auto
    show "n = ?b" if "map_of xs n = Some e \<and> ad_state e = A_HOT" for n e
    proof -
      have "n \<notin> ?N" using that dropped(2) [of n e] by auto
      then have "n = ?a" using that kept d(3) by blast
      then show ?thesis using \<open>n \<notin> ?N\<close> by simp
    qed
    show "\<exists>e. map_of xs ?b = Some e \<and> ad_state e = A_HOT" if "?b \<noteq> []"
      using that d(4) xs(2) by (auto split: if_splits)
    show "n = k" if "map_of xs n = Some e \<and> map_of xs k = Some f \<and> ad_handle e = Some h \<and> ad_handle f = Some h" for n k e f h
      using that dropped(1) [of n e] dropped(1) [of k f] kept d(5) by (metis option.distinct(1))
  qed
  let ?H = "{h. \<exists>(n, e) \<in> set es. ad_handle e = Some h}"
  have own: "own (map_of xs) = own ?m - ?H"
  proof (intro set_eqI iffI)
    fix h assume "h \<in> own (map_of xs)"
    then obtain n e where ne: "map_of xs n = Some e" "ad_handle e = Some h" by (auto simp: own_def)
    then have "n \<notin> ?N" using dropped(1) by fastforce
    then have m: "?m n = Some e" using kept ne(1) by simp
    have "h \<notin> ?H" using es(2) d(5) [OF m _ ne(2)] \<open>n \<notin> ?N\<close> by force
    then show "h \<in> own ?m - ?H" using m ne(2) by (auto simp: own_def)
  next
    fix h assume "h \<in> own ?m - ?H"
    then obtain n e where ne: "?m n = Some e" "ad_handle e = Some h" "h \<notin> ?H" by (auto simp: own_def)
    have "n \<notin> ?N" using ne es(2) by force
    then have "map_of xs n = Some e" using ne(1) xs(2) by simp
    then show "h \<in> own (map_of xs)" using ne(2) by (auto simp: own_def)
  qed
  let ?s = "clear_if_hot es ctx s"
  have s: "live ?s = live s" "faults ?s = 0" "next_handle ?s = next_handle s"
    using i(7) by (auto simp: clear_if_hot_def clear_adapters_def split: option.split)
  have fr: "next_handle (free_all es t) = next_handle t" "applied (free_all es t) = applied t" for t
    unfolding free_all_def by (induction es arbitrary: t) (auto simp: lora_free_def split: option.split)
  have "h \<in> set (live ?s)" if "(n, e) \<in> set es" "ad_handle e = Some h" for n e h
    using es(2) [OF that(1)] that(2) i(4) s(1) by (auto simp: own_def)
  then have "\<forall>(n, e) \<in> set es. \<forall>h. ad_handle e = Some h \<longrightarrow> h \<in> set (live ?s)" "\<forall>(n, e) \<in> set es. ?m n = Some e" "distinct (live ?s)"
    using es(2) i(3) s(1) by auto
  from free_all_live [OF es(1) this(2) d(5) this(3,1)]
  have live: "distinct (live (free_all es ?s))" "set (live (free_all es ?s)) = own ?m - ?H" "faults (free_all es ?s) = 0"
    using i(4) s by simp_all
  have app: "map_of (applied ?s) = (\<lambda>x. if x = c then Option.bind (map_of xs ?b) ad_handle else None)"
  proof (cases "\<exists>(n, e) \<in> set es. ad_state e = A_HOT")
    case True
    then have "ctx = Some c" using ctx(1) by blast
    moreover have "?a \<in> ?N" using True es(2) d(3) by force
    moreover have "map_of xs [] = None" using ent by (simp add: entries_inv_def)
    ultimately show ?thesis using True i(6) by (simp add: clear_if_hot_def clear_adapters_def fun_eq_iff)
  next
    case False
    have "?a \<notin> ?N"
    proof
      assume "?a \<in> ?N"
      then obtain e where "(?a, e) \<in> set es" by auto
      then show False using False es(2) d(1,4) by (cases "?a = []") force+
    qed
    moreover have "applied ?s = applied s" using False by (auto simp: clear_if_hot_def split: option.split)
    moreover have "map_of xs ?a = ?m ?a" by (rule xs(2) [OF \<open>?a \<notin> ?N\<close>])
    ultimately show ?thesis using i(6) by (simp add: fun_eq_iff)
  qed
  show ?thesis by (rule lora_invI) (simp_all add: xs(1) ent live own fr app s, use i(4,5) in auto)
qed

lemma unload_keeps:
  assumes "lora_inv c s" "lora_state s n = A_HOT \<Longrightarrow> ctx = Some c" "ctx \<in> {None, Some c}"
  shows "lora_inv c (unload_adapter n ctx s)"
proof (cases "map_of (adapters s) n")
  case None
  then show ?thesis using assms(1) by (simp add: unload_adapter_def)
next
  case (Some e)
  let ?t = "(free_all [(n, e)] (clear_if_hot [(n, e)] ctx s))\<lparr>active_name := (if active_name s \<in> fst ` set [(n, e)] then [] else active_name s), adapters := AList.delete n (adapters s)\<rparr>"
  have "lora_inv c ?t"
  proof (rule drop_keeps [OF assms(1)])
    show "distinct (map fst (AList.delete n (adapters s)))" using lora_invD(1) [OF assms(1)] by simp
  qed (use Some assms(2,3) in \<open>auto simp: lora_state_def\<close>)
  moreover have "active_name s = n \<longleftrightarrow> ad_state e = A_HOT"
    using entries_invD(1,3,4) [OF lora_invD(2) [OF assms(1)]] Some by (metis option.distinct(1) option.inject)
  then have "unload_adapter n ctx s = ?t"
    using Some assms(2,3) by (auto simp: unload_adapter_def lora_state_def free_all_def clear_if_hot_def clear_adapters_def lora_free_def split: option.split)
  ultimately show ?thesis by simp
qed

lemma of_model_entries:
  assumes "lora_inv c s"
  shows "distinct (map fst (of_model m s))" "(n, e) \<in> set (of_model m s) \<Longrightarrow> map_of (adapters s) n = Some e"
    "n \<in> fst ` set (of_model m s) \<longleftrightarrow> (\<exists>e. map_of (adapters s) n = Some e \<and> ad_model e = m)"
proof -
  note d = lora_invD(1) [OF assms]
  show "distinct (map fst (of_model m s))" using d by (simp add: of_model_def distinct_map_filter)
  show "map_of (adapters s) n = Some e" if "(n, e) \<in> set (of_model m s)" using that d by (auto simp: of_model_def)
  show "n \<in> fst ` set (of_model m s) \<longleftrightarrow> (\<exists>e. map_of (adapters s) n = Some e \<and> ad_model e = m)"
    using d by (auto simp: of_model_def map_of_eq_Some_iff image_iff)
qed

lemma map_of_filter_value: "distinct (map fst xs) \<Longrightarrow> map_of (filter (\<lambda>(k, e). P e) xs) n = (case map_of xs n of Some e \<Rightarrow> if P e then Some e else None | None \<Rightarrow> None)"
  by (induction xs) (auto simp: map_of_eq_None_iff [symmetric] dest: map_of_SomeD split: option.split)

lemma map_of_map_value: "map_of (map (\<lambda>(k, e). (k, f e)) xs) n = map_option f (map_of xs n)"
  by (induction xs) auto

lemma unload_model_keeps:
  assumes "lora_inv c s" "ctx = Some c \<or> ctx = None \<and> \<not> (\<exists>(k, e) \<in> set (of_model m s). ad_state e = A_HOT)"
  shows "lora_inv c (unload_all_for_model m ctx s)" "lora_inv c (release_handles_for_model m ctx s)"
proof -
  note o = of_model_entries [OF assms(1)] and d = lora_invD(1) [OF assms(1)]
  have model: "map_of (adapters s) n = Some e \<Longrightarrow> n \<notin> fst ` set (of_model m s) \<Longrightarrow> ad_model e \<noteq> m" for n e using o(3) [of n m] by blast
  have ctx: "ctx = Some c" if "(n, e) \<in> set (of_model m s)" "ad_state e = A_HOT" for n e using assms(2) that by blast
  show "lora_inv c (unload_all_for_model m ctx s)" unfolding unload_all_for_model_def Let_def
  proof (rule drop_keeps [OF assms(1) o(1,2)])
    show "distinct (map fst (filter (\<lambda>(k, e). ad_model e \<noteq> m) (adapters s)))" using d by (simp add: distinct_map_filter)
    show "map_of (filter (\<lambda>(k, e). ad_model e \<noteq> m) (adapters s)) n = map_of (adapters s) n" if "n \<notin> fst ` set (of_model m s)" for n
      using model [OF _ that] by (simp add: map_of_filter_value [OF d] split: option.split)
    show "ad_handle e = None \<and> ad_state e = A_COLD"
      if "n \<in> fst ` set (of_model m s)" "map_of (filter (\<lambda>(k, e). ad_model e \<noteq> m) (adapters s)) n = Some e" for n e
      using that(2) iffD1 [OF o(3) that(1)] by (auto simp: map_of_filter_value [OF d])
  qed (use assms(2) ctx in auto)
  let ?r = "\<lambda>e. if ad_model e = m then e\<lparr>ad_handle := None, ad_model := None, ad_state := A_COLD\<rparr> else e"
  show "lora_inv c (release_handles_for_model m ctx s)" unfolding release_handles_for_model_def Let_def
  proof (rule drop_keeps [OF assms(1) o(1,2)])
    show "distinct (map fst (map (\<lambda>(k, e). (k, ?r e)) (adapters s)))" using d by (simp add: comp_def split_beta)
    show "map_of (map (\<lambda>(k, e). (k, ?r e)) (adapters s)) n = map_of (adapters s) n" if "n \<notin> fst ` set (of_model m s)" for n
      using model [OF _ that] by (cases "map_of (adapters s) n") (simp_all add: map_of_map_value)
    show "ad_handle e = None \<and> ad_state e = A_COLD"
      if "n \<in> fst ` set (of_model m s)" "map_of (map (\<lambda>(k, e). (k, ?r e)) (adapters s)) n = Some e" for n e
      using that(2) iffD1 [OF o(3) that(1)] by (auto simp: map_of_map_value)
  qed (use assms(2) ctx in auto)
qed

lemma step_keeps:
  assumes "lora_inv c s" "allowed c x s"
  shows "lora_inv c (lora_step readable pass c x s)"
proof (cases x)
  case (Load n p m k)
  then show ?thesis using load_keeps [OF assms(1)] assms(2) by (simp add: lora_step_def allowed_def)
next
  case (Unload n ctx)
  then show ?thesis using unload_keeps [OF assms(1), of n ctx] assms(2) by (auto simp: lora_step_def allowed_def split: if_splits)
next
  case (Activate n)
  show ?thesis
  proof (cases "\<exists>e. map_of (adapters s) n = Some e \<and> ad_state e = A_WARM")
    case True
    then obtain e where e: "map_of (adapters s) n = Some e" "ad_state e = A_WARM" by blast
    have "n \<noteq> []" using entries_invD(1) [OF lora_invD(2) [OF assms(1)]] e by auto
    then have a: "active_name s \<noteq> n" using entries_invD(4) [OF lora_invD(2) [OF assms(1)]] e by fastforce
    then show ?thesis using heat_keeps [OF assms(1) e(1) _ a] e Activate by (simp add: lora_step_def activate_adapter_def Let_def)
  next
    case False
    then have "ad_state e = A_COLD \<or> ad_state e = A_HOT" if "map_of (adapters s) n = Some e" for e using that by (cases "ad_state e") auto
    then have "snd (activate_adapter n c s) = s" by (cases "map_of (adapters s) n") (auto simp: activate_adapter_def)
    then show ?thesis using assms(1) Activate by (simp add: lora_step_def)
  qed
next
  case (Deactivate ctx)
  then show ?thesis using deactivate_keeps [OF assms(1)] assms by (cases "active_name s = []") (simp_all add: lora_step_def allowed_def deactivate_adapter_def)
next
  case (Swap n)
  show ?thesis
  proof (cases "\<exists>e. map_of (adapters s) n = Some e \<and> ad_state e \<noteq> A_COLD \<and> active_name s \<noteq> n \<and> pass (active_name s) n (ad_path e)")
    case True
    then obtain e where e: "map_of (adapters s) n = Some e" "ad_state e \<noteq> A_COLD" "active_name s \<noteq> n" "pass (active_name s) n (ad_path e)" by blast
    then show ?thesis using heat_keeps [OF assms(1) e(1-3)] Swap by (simp add: lora_step_def swap_adapter_def Let_def)
  next
    case False
    then have "snd (swap_adapter pass n c s) = s" by (auto simp: swap_adapter_def split: option.split)
    then show ?thesis using assms(1) Swap by (simp add: lora_step_def)
  qed
next
  case (Unload_model m ctx)
  then show ?thesis using unload_model_keeps(1) [OF assms(1)] assms(2) by (simp add: lora_step_def allowed_def)
next
  case (Release_model m ctx)
  then show ?thesis using unload_model_keeps(2) [OF assms(1)] assms(2) by (simp add: lora_step_def allowed_def)
next
  case Drop_context
  then have "active_name s = []" using assms(2) by (simp add: allowed_def)
  moreover have "map_of (adapters s) [] = None" by (rule entries_invD(1) [OF lora_invD(2) [OF assms(1)]])
  moreover obtain t where t: "t = drop_context c s" by simp
  moreover have "map_of (applied t) = (\<lambda>x. if x = c then Option.bind (map_of (adapters t) (active_name t)) ad_handle else None)"
    using lora_invD(6) [OF assms(1)] calculation by (simp add: drop_context_def fun_eq_iff)
  ultimately have "lora_inv c t"
    using lora_invD(1-5,7) [OF assms(1)] by (intro lora_invI) (simp_all add: drop_context_def)
  then show ?thesis using Drop_context t by (simp add: lora_step_def)
qed

inductive lora_reach :: "(nat \<Rightarrow> string \<Rightarrow> bool) \<Rightarrow> (string \<Rightarrow> string \<Rightarrow> string \<Rightarrow> bool) \<Rightarrow> nat \<Rightarrow> lora \<Rightarrow> bool" for readable pass c where
  start: "lora_reach readable pass c new_lora"
| step: "lora_reach readable pass c s \<Longrightarrow> allowed c x s \<Longrightarrow> lora_reach readable pass c (lora_step readable pass c x s)"

lemma lora_reach_inv: "lora_reach readable pass c s \<Longrightarrow> lora_inv c s"
proof (induction rule: lora_reach.induct)
  case start
  show ?case by (simp add: lora_inv_def new_lora_def entries_inv_def own_def fun_eq_iff)
qed (rule step_keeps)



text \<open>
  Unloading the hot adapter without its context leaves its name behind as the active one: loaded again, a swap to it is
  taken for done and nothing is applied.
\<close>

lemma unload_without_context_strands_name:
  "let s = unload_adapter ''a'' None (snd (swap_adapter (\<lambda>_ _ _. True) ''a'' 7 (snd (load_adapter (\<lambda>_ _. True) ''a'' ''a.gguf'' (Some 1) 1 new_lora))));
       s' = snd (load_adapter (\<lambda>_ _. True) ''a'' ''a.gguf'' (Some 1) 1 (drop_context 7 s))
   in fst (swap_adapter (\<lambda>_ _ _. True) ''a'' 7 s') \<and> applied (snd (swap_adapter (\<lambda>_ _ _. True) ''a'' 7 s')) = []"
  by code_simp

end
