(* ===== verification/Model_Backend.thy ===== *)
theory Model_Backend
  imports Placement Core_Types
begin

text \<open>
  The life cycle of a model (\<open>inference/backend.cpp\<close>): cold, warm, active, each transition under the transition mutex,
  and the guards in front of generation. The virtual functions of a backend are a record of functions on a world; the
  llama.cpp backend's own (\<open>inference/llama_cpp_backend.cpp\<close>) are modelled with the handles they hold and the ones the
  library has given out. Proved: a backend's functions are only called in the states they are made for, and what the
  llama.cpp backend holds fits its state.
\<close>

datatype model_state = COLD | WARM | ACTIVE

definition state_name :: "model_state \<Rightarrow> string" where
  "state_name s = (case s of COLD \<Rightarrow> ''COLD'' | WARM \<Rightarrow> ''WARM'' | ACTIVE \<Rightarrow> ''ACTIVE'')"

text \<open>The fields of a result the inference components read; timings are not modelled.\<close>

record grammar_provenance =
  gp_source :: string
  gp_key :: string
  gp_resolved :: bool
  gp_conflict_winner :: string

record gen_result =
  gr_content :: string
  gr_raw_content :: string
  gr_tool_calls :: "tool_call list"
  gr_finish_reason :: string
  gr_token_count :: int
  gr_seq_id :: int
  gr_grammar :: grammar_provenance
  gr_error_code :: entropic_error
  gr_error_message :: string

definition no_provenance :: grammar_provenance where
  "no_provenance = \<lparr>gp_source = ''none'', gp_key = [], gp_resolved = False, gp_conflict_winner = []\<rparr>"

definition new_gen_result :: gen_result where
  "new_gen_result = \<lparr>gr_content = [], gr_raw_content = [], gr_tool_calls = [], gr_finish_reason = ''stop'', gr_token_count = 0, gr_seq_id = 0,
     gr_grammar = no_provenance, gr_error_code = ENTROPIC_OK, gr_error_message = []\<rparr>"

definition error_result :: "entropic_error \<Rightarrow> string \<Rightarrow> gen_result" where
  "error_result e msg = new_gen_result\<lparr>gr_error_code := e, gr_error_message := msg, gr_finish_reason := ''error''\<rparr>"

record 'w vops =
  do_load :: "model_config \<Rightarrow> 'w \<Rightarrow> bool \<times> 'w"
  do_activate :: "model_config \<Rightarrow> 'w \<Rightarrow> bool \<times> 'w"
  do_deactivate :: "model_config \<Rightarrow> 'w \<Rightarrow> 'w"
  do_unload :: "'w \<Rightarrow> 'w"
  do_load_active :: "model_config \<Rightarrow> 'w \<Rightarrow> bool \<times> 'w"
  hook_pre_load :: "(string \<Rightarrow> 'w \<Rightarrow> int \<times> 'w) option"
  hook_unload :: "(string \<Rightarrow> 'w \<Rightarrow> 'w) option"

record backend =
  b_state :: model_state
  b_config :: model_config

definition new_backend :: backend where
  "new_backend = \<lparr>b_state = COLD, b_config = default_model_config\<rparr>"

definition is_loaded :: "backend \<Rightarrow> bool" where
  "is_loaded b \<longleftrightarrow> b_state b \<noteq> COLD"

definition is_active :: "backend \<Rightarrow> bool" where
  "is_active b \<longleftrightarrow> b_state b = ACTIVE"

subsection \<open>Transitions\<close>

definition fire_model_load_hook :: "'w vops \<Rightarrow> model_config \<Rightarrow> 'w \<Rightarrow> bool \<times> 'w" where
  "fire_model_load_hook v cfg w =
     (case hook_pre_load v of
        None \<Rightarrow> (False, w)
      | Some f \<Rightarrow> (case f (''{'' @ quoted ''model_path'' @ '':'' @ quoted (path cfg) @ ''}'') w of (rc, w') \<Rightarrow> (rc \<noteq> 0, w')))"

definition load :: "'w vops \<Rightarrow> model_config \<Rightarrow> backend \<Rightarrow> 'w \<Rightarrow> bool \<times> backend \<times> 'w" where
  "load v cfg b w =
     (if b_state b \<noteq> COLD then (True, b, w)
      else case fire_model_load_hook v cfg w of (cancelled, w1) \<Rightarrow>
        if cancelled then (False, b, w1)
        else case do_load v cfg w1 of (ok, w2) \<Rightarrow> (ok, b\<lparr>b_config := cfg, b_state := (if ok then WARM else COLD)\<rparr>, w2))"

definition promote_to_active :: "'w vops \<Rightarrow> backend \<Rightarrow> 'w \<Rightarrow> bool \<times> backend \<times> 'w" where
  "promote_to_active v b w =
     (if b_state b = ACTIVE then (True, b, w)
      else if b_state b \<noteq> WARM then (False, b, w)
      else case do_activate v (b_config b) w of (ok, w1) \<Rightarrow> (ok, if ok then b\<lparr>b_state := ACTIVE\<rparr> else b, w1))"

definition activate :: "'w vops \<Rightarrow> backend \<Rightarrow> 'w \<Rightarrow> bool \<times> backend \<times> 'w" where
  "activate v b w = promote_to_active v b w"

definition deactivate :: "'w vops \<Rightarrow> backend \<Rightarrow> 'w \<Rightarrow> backend \<times> 'w" where
  "deactivate v b w = (if b_state b \<noteq> ACTIVE then (b, w) else (b\<lparr>b_state := WARM\<rparr>, do_deactivate v (b_config b) w))"

definition unload :: "'w vops \<Rightarrow> backend \<Rightarrow> 'w \<Rightarrow> backend \<times> 'w" where
  "unload v b w =
     (let w1 = (case hook_unload v of None \<Rightarrow> w | Some f \<Rightarrow> f (''{'' @ quoted ''state'' @ '':'' @ quoted (state_name (b_state b)) @ ''}'') w)
      in (b\<lparr>b_state := COLD\<rparr>, do_unload v w1))"

definition load_and_activate :: "'w vops \<Rightarrow> model_config \<Rightarrow> backend \<Rightarrow> 'w \<Rightarrow> bool \<times> backend \<times> 'w" where
  "load_and_activate v cfg b w =
     (if b_state b \<noteq> COLD then promote_to_active v b w
      else case fire_model_load_hook v cfg w of (cancelled, w1) \<Rightarrow>
        if cancelled then (False, b, w1)
        else case do_load_active v cfg w1 of (ok, w2) \<Rightarrow> (ok, b\<lparr>b_config := cfg, b_state := (if ok then ACTIVE else COLD)\<rparr>, w2))"

subsection \<open>Generation\<close>

text \<open>The guard the generating functions share; \<open>run\<close> is the virtual function.\<close>

definition guarded :: "string \<Rightarrow> backend \<Rightarrow> ('w \<Rightarrow> gen_result \<times> 'w) \<Rightarrow> 'w \<Rightarrow> gen_result \<times> 'w" where
  "guarded name b run w =
     (if \<not> is_active b then (error_result ENTROPIC_ERROR_INVALID_STATE (name @ ''() requires ACTIVE state''), w) else run w)"

definition generate :: "backend \<Rightarrow> ('w \<Rightarrow> gen_result \<times> 'w) \<Rightarrow> 'w \<Rightarrow> gen_result \<times> 'w" where
  "generate b run w = guarded ''generate'' b run w"

definition generate_streaming :: "backend \<Rightarrow> ('w \<Rightarrow> gen_result \<times> 'w) \<Rightarrow> 'w \<Rightarrow> gen_result \<times> 'w" where
  "generate_streaming b run w = guarded ''generate_streaming'' b run w"

definition generate_speculative :: "backend \<Rightarrow> ('w \<Rightarrow> gen_result \<times> 'w) \<Rightarrow> 'w \<Rightarrow> gen_result \<times> 'w" where
  "generate_speculative b run w = guarded ''generate_speculative'' b run w"

definition do_generate_speculative :: "'w \<Rightarrow> gen_result \<times> 'w" where
  "do_generate_speculative w = (error_result ENTROPIC_ERROR_NOT_SUPPORTED ''speculative decoding not implemented for this backend'', w)"

definition complete :: "backend \<Rightarrow> ('w \<Rightarrow> gen_result \<times> 'w) \<Rightarrow> 'w \<Rightarrow> gen_result \<times> 'w" where
  "complete b run w = guarded ''complete'' b run w"

definition generate_batch :: "backend \<Rightarrow> ('w \<Rightarrow> gen_result list \<times> 'w) \<Rightarrow> 'w \<Rightarrow> gen_result list \<times> 'w" where
  "generate_batch b run w =
     (if \<not> is_active b then ([error_result ENTROPIC_ERROR_INVALID_STATE ''generate_batch() requires ACTIVE state''], w) else run w)"

definition generate_seq :: "int \<Rightarrow> backend \<Rightarrow> ('w \<Rightarrow> gen_result \<times> 'w) \<Rightarrow> 'w \<Rightarrow> gen_result \<times> 'w" where
  "generate_seq seq b run w =
     (if \<not> is_active b then (error_result ENTROPIC_ERROR_INVALID_STATE ''generate_seq() requires ACTIVE state'', w)
      else case run w of (r, w') \<Rightarrow> (r\<lparr>gr_seq_id := seq\<rparr>, w'))"

definition generate_streaming_seq :: "int \<Rightarrow> backend \<Rightarrow> ('w \<Rightarrow> gen_result \<times> 'w) \<Rightarrow> 'w \<Rightarrow> gen_result \<times> 'w" where
  "generate_streaming_seq seq b run w =
     (if \<not> is_active b then (error_result ENTROPIC_ERROR_INVALID_STATE ''generate_streaming_seq() requires ACTIVE state'', w)
      else case run w of (r, w') \<Rightarrow> (r\<lparr>gr_seq_id := seq\<rparr>, w'))"

text \<open>Log probabilities: \<^const>\<open>None\<close> is the exception; the sum is rounded at every addition and \<open>exp\<close> is the library's.\<close>

record logprob_result =
  logprobs :: "rat list"
  n_logprobs :: int
  total_logprob :: rat
  perplexity :: rat

definition evaluate_logprobs :: "(rat \<Rightarrow> rat) \<Rightarrow> backend \<Rightarrow> int \<Rightarrow> logprob_result \<Rightarrow> logprob_result option" where
  "evaluate_logprobs expf b n_tokens r =
     (if \<not> is_active b \<or> n_tokens < 2 then None
      else let total = foldl (\<lambda>t lp. f32 (t + lp)) 0 (logprobs r); mean = f32 (total / f32 (of_int (n_logprobs r)))
           in Some (r\<lparr>total_logprob := total, perplexity := expf (- mean)\<rparr>))"

definition compute_perplexity :: "(rat \<Rightarrow> rat) \<Rightarrow> backend \<Rightarrow> int \<Rightarrow> logprob_result \<Rightarrow> rat option" where
  "compute_perplexity expf b n_tokens r = map_option perplexity (evaluate_logprobs expf b n_tokens r)"

definition count_tokens :: "(string \<Rightarrow> int) \<Rightarrow> backend \<Rightarrow> string \<Rightarrow> int" where
  "count_tokens tokenizer b s = (if is_loaded b then tokenizer s else int (length s) div 4)"

definition save_state :: "backend \<Rightarrow> ('w \<Rightarrow> bool \<times> 'w) \<Rightarrow> 'w \<Rightarrow> bool \<times> 'w" where
  "save_state b run w = (if \<not> is_active b then (False, w) else run w)"

definition restore_state :: "backend \<Rightarrow> ('w \<Rightarrow> bool \<times> 'w) \<Rightarrow> 'w \<Rightarrow> bool \<times> 'w" where
  "restore_state b run w = (if \<not> is_active b then (False, w) else run w)"

definition clear_state :: "backend \<Rightarrow> ('w \<Rightarrow> bool \<times> 'w) \<Rightarrow> 'w \<Rightarrow> bool \<times> 'w" where
  "clear_state b run w = (if b_state b = COLD then (False, w) else run w)"

subsection \<open>The llama.cpp backend\<close>

text \<open>
  What the backend holds and what the library has given out and not got back. \<open>answers\<close> says, call by call, whether
  the library succeeds. A model is loaded to the host or to its target residency.
\<close>

record llama =
  l_model :: "nat option"
  l_ctx :: "nat option"
  l_mtmd :: "nat option"
  l_mtp_model :: "nat option"
  l_mtp_ctx :: "nat option"
  l_mtp_head_path :: string
  lib_calls :: nat
  lib_live :: "nat set"
  model_file_loads :: nat

definition new_llama :: llama where
  "new_llama = \<lparr>l_model = None, l_ctx = None, l_mtmd = None, l_mtp_model = None, l_mtp_ctx = None, l_mtp_head_path = [],
     lib_calls = 0, lib_live = {}, model_file_loads = 0\<rparr>"

text \<open>A call that makes an object, named by the number of the call, and one that frees it.\<close>

definition lib_new :: "(nat \<Rightarrow> bool) \<Rightarrow> llama \<Rightarrow> nat option \<times> llama" where
  "lib_new answers l =
     (let k = lib_calls l in
      if answers k then (Some k, l\<lparr>lib_calls := Suc k, lib_live := insert k (lib_live l)\<rparr>) else (None, l\<lparr>lib_calls := Suc k\<rparr>))"

definition lib_free :: "nat option \<Rightarrow> llama \<Rightarrow> llama" where
  "lib_free h l = (case h of None \<Rightarrow> l | Some k \<Rightarrow> l\<lparr>lib_live := lib_live l - {k}\<rparr>)"

definition load_tier_model :: "(nat \<Rightarrow> bool) \<Rightarrow> llama \<Rightarrow> nat option \<times> llama" where
  "load_tier_model answers l = lib_new answers (l\<lparr>model_file_loads := Suc (model_file_loads l)\<rparr>)"

definition llama_do_load :: "(nat \<Rightarrow> bool) \<Rightarrow> model_config \<Rightarrow> llama \<Rightarrow> bool \<times> llama" where
  "llama_do_load answers cfg l = (case load_tier_model answers l of (m, l1) \<Rightarrow> (m \<noteq> None, l1\<lparr>l_model := m\<rparr>))"

text \<open>The layers and experts of a model come from its file: a parameter by path.\<close>

definition expert_offload_admits :: "(string \<Rightarrow> int \<times> int) \<Rightarrow> model_config \<Rightarrow> llama \<Rightarrow> bool \<times> llama" where
  "expert_offload_admits shape cfg l =
     (case shape (path cfg) of (n_layer, n_expert) \<Rightarrow>
        if expert_offload_load_refusal (cpu_moe_layers cfg) n_layer n_expert = [] then (True, l)
        else (False, (lib_free (l_model l) l)\<lparr>l_model := None\<rparr>))"

definition create_inference_context :: "(nat \<Rightarrow> bool) \<Rightarrow> llama \<Rightarrow> bool \<times> llama" where
  "create_inference_context answers l = (case lib_new answers l of (c, l1) \<Rightarrow> (c \<noteq> None, l1\<lparr>l_ctx := c\<rparr>))"

definition init_mmproj_if_configured :: "(nat \<Rightarrow> bool) \<Rightarrow> model_config \<Rightarrow> llama \<Rightarrow> llama" where
  "init_mmproj_if_configured answers cfg l =
     (if mmproj_path cfg = [] then l else case lib_new answers l of (h, l1) \<Rightarrow> l1\<lparr>l_mtmd := h\<rparr>)"

definition finish_activation :: "(nat \<Rightarrow> bool) \<Rightarrow> model_config \<Rightarrow> llama \<Rightarrow> bool \<times> llama" where
  "finish_activation answers cfg l =
     (case create_inference_context answers l of (ok, l1) \<Rightarrow> if \<not> ok then (False, l1) else (True, init_mmproj_if_configured answers cfg l1))"

definition llama_do_load_active :: "(nat \<Rightarrow> bool) \<Rightarrow> (string \<Rightarrow> int \<times> int) \<Rightarrow> model_config \<Rightarrow> llama \<Rightarrow> bool \<times> llama" where
  "llama_do_load_active answers shape cfg l =
     (case load_tier_model answers l of (m, l1) \<Rightarrow>
        let l2 = l1\<lparr>l_model := m\<rparr> in
        if m = None then (False, l2)
        else case expert_offload_admits shape cfg l2 of (ok, l3) \<Rightarrow> if \<not> ok then (False, l3) else finish_activation answers cfg l3)"

definition load_gpu_model :: "(nat \<Rightarrow> bool) \<Rightarrow> (string \<Rightarrow> int \<times> int) \<Rightarrow> model_config \<Rightarrow> llama \<Rightarrow> bool \<times> llama" where
  "load_gpu_model answers shape cfg l =
     (case load_tier_model answers ((lib_free (l_model l) l)\<lparr>l_model := None\<rparr>) of (m, l1) \<Rightarrow>
        let l2 = l1\<lparr>l_model := m\<rparr> in if m = None then (False, l2) else expert_offload_admits shape cfg l2)"

definition llama_do_activate :: "(nat \<Rightarrow> bool) \<Rightarrow> (string \<Rightarrow> int \<times> int) \<Rightarrow> model_config \<Rightarrow> llama \<Rightarrow> bool \<times> llama" where
  "llama_do_activate answers shape cfg l =
     (case load_gpu_model answers shape cfg l of (ok, l1) \<Rightarrow> if \<not> ok then (False, l1) else finish_activation answers cfg l1)"

definition teardown_mtp_draft :: "llama \<Rightarrow> llama" where
  "teardown_mtp_draft l =
     (lib_free (l_mtp_model l) (lib_free (l_mtp_ctx l) l))\<lparr>l_mtp_ctx := None, l_mtp_model := None, l_mtp_head_path := []\<rparr>"

definition effective_n_draft :: "int \<Rightarrow> int" where
  "effective_n_draft n_max = (if n_max > 0 then n_max else 16)"

definition build_mtp_head :: "(nat \<Rightarrow> bool) \<Rightarrow> string \<Rightarrow> llama \<Rightarrow> bool \<times> llama" where
  "build_mtp_head answers head_path l =
     (if l_ctx l = None \<or> head_path = [] then (False, l)
      else case lib_new answers l of (m, l1) \<Rightarrow>
        case (if m = None then (None, l1) else lib_new answers l1) of (c, l2) \<Rightarrow>
          let l3 = l2\<lparr>l_mtp_model := m, l_mtp_ctx := c\<rparr>
          in if c \<noteq> None then (True, l3\<lparr>l_mtp_head_path := head_path\<rparr>) else (False, teardown_mtp_draft l3))"

definition setup_mtp_draft :: "(nat \<Rightarrow> bool) \<Rightarrow> string \<Rightarrow> llama \<Rightarrow> bool \<times> llama" where
  "setup_mtp_draft answers head_path l =
     (if l_mtp_ctx l \<noteq> None \<and> l_mtp_head_path l = head_path then (True, l) else build_mtp_head answers head_path (teardown_mtp_draft l))"

text \<open>What deactivation and unloading free before the model, and the reload to the host that deactivation ends with.\<close>

definition free_context :: "llama \<Rightarrow> llama" where
  "free_context l = (let l1 = teardown_mtp_draft l in (lib_free (l_ctx l1) (lib_free (l_mtmd l1) l1))\<lparr>l_mtmd := None, l_ctx := None\<rparr>)"

definition free_model :: "llama \<Rightarrow> llama" where
  "free_model l = (lib_free (l_model l) l)\<lparr>l_model := None\<rparr>"

definition llama_do_deactivate :: "(nat \<Rightarrow> bool) \<Rightarrow> model_config \<Rightarrow> llama \<Rightarrow> llama" where
  "llama_do_deactivate answers cfg l =
     (case load_tier_model answers (free_model (free_context l)) of (m, l1) \<Rightarrow> l1\<lparr>l_model := m\<rparr>)"

definition llama_do_unload :: "llama \<Rightarrow> llama" where
  "llama_do_unload l = free_model (free_context l)"

definition llama_vops :: "(nat \<Rightarrow> bool) \<Rightarrow> (string \<Rightarrow> int \<times> int) \<Rightarrow> llama vops" where
  "llama_vops answers shape =
     \<lparr>do_load = llama_do_load answers, do_activate = llama_do_activate answers shape, do_deactivate = llama_do_deactivate answers,
      do_unload = llama_do_unload, do_load_active = llama_do_load_active answers shape, hook_pre_load = None, hook_unload = None\<rparr>"

subsection \<open>The order of the calls\<close>

datatype life_op = Op_load model_config | Op_activate | Op_deactivate | Op_unload | Op_load_and_activate model_config | Op_generate

definition life_step :: "'w vops \<Rightarrow> ('w \<Rightarrow> gen_result \<times> 'w) \<Rightarrow> life_op \<Rightarrow> backend \<times> 'w \<Rightarrow> backend \<times> 'w" where
  "life_step v run x bw =
     (case bw of (b, w) \<Rightarrow>
        case x of
          Op_load cfg \<Rightarrow> snd (load v cfg b w)
        | Op_activate \<Rightarrow> snd (activate v b w)
        | Op_deactivate \<Rightarrow> deactivate v b w
        | Op_unload \<Rightarrow> unload v b w
        | Op_load_and_activate cfg \<Rightarrow> snd (load_and_activate v cfg b w)
        | Op_generate \<Rightarrow> (b, snd (generate b run w)))"

datatype vcall = C_load bool | C_load_active bool | C_activate bool | C_deactivate | C_unload | C_generate

text \<open>A backend that records the calls it gets and answers them in any way, and the calls a life cycle may make.\<close>

definition recording :: "(vcall list \<Rightarrow> bool) \<Rightarrow> vcall list vops" where
  "recording ans =
     \<lparr>do_load = (\<lambda>_ w. (ans w, w @ [C_load (ans w)])), do_activate = (\<lambda>_ w. (ans w, w @ [C_activate (ans w)])),
      do_deactivate = (\<lambda>_ w. w @ [C_deactivate]), do_unload = (\<lambda>w. w @ [C_unload]),
      do_load_active = (\<lambda>_ w. (ans w, w @ [C_load_active (ans w)])), hook_pre_load = None, hook_unload = None\<rparr>"

fun life_cycle :: "model_state \<Rightarrow> vcall \<Rightarrow> model_state option" where
  "life_cycle COLD (C_load ok) = Some (if ok then WARM else COLD)"
| "life_cycle COLD (C_load_active ok) = Some (if ok then ACTIVE else COLD)"
| "life_cycle WARM (C_activate ok) = Some (if ok then ACTIVE else WARM)"
| "life_cycle ACTIVE C_deactivate = Some WARM"
| "life_cycle ACTIVE C_generate = Some ACTIVE"
| "life_cycle _ C_unload = Some COLD"
| "life_cycle _ _ = None"

definition follows :: "vcall list \<Rightarrow> model_state option" where
  "follows cs = foldl (\<lambda>s c. Option.bind s (\<lambda>s. life_cycle s c)) (Some COLD) cs"

lemma follows_snoc [simp]: "follows (w @ [c]) = Option.bind (follows w) (\<lambda>s. life_cycle s c)"
  by (simp add: follows_def)

lemma recording_simps [simp]:
  "do_load (recording ans) cfg w = (ans w, w @ [C_load (ans w)])"
  "do_activate (recording ans) cfg w = (ans w, w @ [C_activate (ans w)])"
  "do_load_active (recording ans) cfg w = (ans w, w @ [C_load_active (ans w)])"
  "do_deactivate (recording ans) cfg w = w @ [C_deactivate]"
  "do_unload (recording ans) w = w @ [C_unload]"
  "hook_pre_load (recording ans) = None"
  "hook_unload (recording ans) = None"
  by (simp_all add: recording_def)

lemma life_cycle_unload [simp]: "life_cycle s C_unload = Some COLD"
  by (cases s) simp_all

text \<open>One step keeps the calls in order: operation by operation, and by the state it finds.\<close>

lemma promote_follows:
  assumes "follows w = Some (b_state b)"
  shows "follows (snd (snd (promote_to_active (recording ans) b w))) = Some (b_state (fst (snd (promote_to_active (recording ans) b w))))"
  using assms by (cases "b_state b") (simp_all add: promote_to_active_def)

lemma load_follows:
  assumes "follows w = Some (b_state b)"
  shows "follows (snd (snd (load (recording ans) cfg b w))) = Some (b_state (fst (snd (load (recording ans) cfg b w))))"
  using assms by (simp add: load_def fire_model_load_hook_def)

lemma load_and_activate_follows:
  assumes "follows w = Some (b_state b)"
  shows "follows (snd (snd (load_and_activate (recording ans) cfg b w))) = Some (b_state (fst (snd (load_and_activate (recording ans) cfg b w))))"
  using assms promote_follows [OF assms] by (simp add: load_and_activate_def fire_model_load_hook_def)

lemma life_step_follows:
  assumes "follows w = Some (b_state b)"
  shows "follows (snd (life_step (recording ans) (\<lambda>w. (r, w @ [C_generate])) x (b, w))) =
    Some (b_state (fst (life_step (recording ans) (\<lambda>w. (r, w @ [C_generate])) x (b, w))))"
  using assms load_follows [OF assms] promote_follows [OF assms] load_and_activate_follows [OF assms]
  by (cases x) (simp_all add: life_step_def activate_def deactivate_def unload_def generate_def guarded_def is_active_def)

text \<open>
  Claim C?. However a model is loaded, activated, deactivated, unloaded and asked to generate, and however its
  functions answer: they are called only in the order of the life cycle (loading when cold, activation when warm,
  deactivation and generation when active), and the state is the one that order leads to.
\<close>

theorem backend_calls_in_order:
  assumes "foldl (\<lambda>s x. life_step (recording ans) (\<lambda>w. (r, w @ [C_generate])) x s) (new_backend, []) ops = (b, calls)"
  shows "follows calls = Some (b_state b)"
proof -
  have "follows (snd s) = Some (b_state (fst s)) \<Longrightarrow>
      follows (snd (foldl (\<lambda>s x. life_step (recording ans) (\<lambda>w. (r, w @ [C_generate])) x s) s ops)) =
      Some (b_state (fst (foldl (\<lambda>s x. life_step (recording ans) (\<lambda>w. (r, w @ [C_generate])) x s) s ops)))" for s
  proof (induction ops arbitrary: s)
    case (Cons x ops)
    then show ?case using life_step_follows [of "snd s" "fst s" ans r x] by simp
  qed simp
  from this [of "(new_backend, [])"] show ?thesis using assms by (simp add: follows_def new_backend_def)
qed

theorem backend_calls_in_order_witness:
  "follows (snd (foldl (\<lambda>s x. life_step (recording (\<lambda>_. True)) (\<lambda>w. (new_gen_result, w @ [C_generate])) x s) (new_backend, [])
     [Op_generate, Op_load_and_activate default_model_config, Op_generate, Op_deactivate, Op_unload])) = Some COLD"
proof -
  let ?s = "foldl (\<lambda>s x. life_step (recording (\<lambda>_. True)) (\<lambda>w. (new_gen_result, w @ [C_generate])) x s) (new_backend, [])
     [Op_generate, Op_load_and_activate default_model_config, Op_generate, Op_deactivate, Op_unload]"
  have "b_state (fst ?s) = COLD" by code_simp
  then show ?thesis using backend_calls_in_order [of "\<lambda>_. True" new_gen_result _ "fst ?s" "snd ?s"] by (metis prod.collapse)
qed

subsection \<open>The handles\<close>

text \<open>
  What a llama.cpp backend holds is alive in the library and no two handles are the same object (\<open>sound\<close>); the library
  has given out nothing else (\<open>tight\<close>); and what it holds fits its state.
\<close>

definition held :: "llama \<Rightarrow> nat list" where
  "held l = List.map_filter id [l_model l, l_ctx l, l_mtmd l, l_mtp_model l, l_mtp_ctx l]"

definition sound :: "llama \<Rightarrow> bool" where
  "sound l \<longleftrightarrow> distinct (held l) \<and> set (held l) \<subseteq> lib_live l \<and> (\<forall>k \<in> lib_live l. k < lib_calls l)"

definition tight :: "llama \<Rightarrow> bool" where
  "tight l \<longleftrightarrow> lib_live l \<subseteq> set (held l)"

definition no_context :: "llama \<Rightarrow> bool" where
  "no_context l \<longleftrightarrow> l_ctx l = None \<and> l_mtmd l = None \<and> l_mtp_model l = None \<and> l_mtp_ctx l = None"

definition fits_state :: "model_state \<Rightarrow> llama \<Rightarrow> bool" where
  "fits_state s l \<longleftrightarrow> (if s = ACTIVE then l_model l \<noteq> None \<and> l_ctx l \<noteq> None else no_context l)"

lemma held_eq:
  "held l = (case l_model l of None \<Rightarrow> [] | Some k \<Rightarrow> [k]) @ (case l_ctx l of None \<Rightarrow> [] | Some k \<Rightarrow> [k]) @
     (case l_mtmd l of None \<Rightarrow> [] | Some k \<Rightarrow> [k]) @ (case l_mtp_model l of None \<Rightarrow> [] | Some k \<Rightarrow> [k]) @
     (case l_mtp_ctx l of None \<Rightarrow> [] | Some k \<Rightarrow> [k])"
  by (simp add: held_def List.map_filter_def split: option.splits)

lemma lib_free_simps [simp]:
  "l_model (lib_free h l) = l_model l" "l_ctx (lib_free h l) = l_ctx l" "l_mtmd (lib_free h l) = l_mtmd l"
  "l_mtp_model (lib_free h l) = l_mtp_model l" "l_mtp_ctx (lib_free h l) = l_mtp_ctx l" "lib_calls (lib_free h l) = lib_calls l"
  "lib_live (lib_free h l) = lib_live l - set_option h"
  by (cases h; simp add: lib_free_def)+

text \<open>A free with its slot cleared.\<close>

lemma sound_frees:
  assumes "sound l"
  shows sound_free_model: "sound (free_model l)"
    and sound_teardown: "sound (teardown_mtp_draft l)"
  using assms by (auto simp: sound_def held_eq free_model_def teardown_mtp_draft_def split: option.splits)

lemma tight_frees:
  assumes "tight l"
  shows tight_free_model: "tight (free_model l)"
    and tight_teardown: "tight (teardown_mtp_draft l)"
  using assms by (auto simp: tight_def held_eq free_model_def teardown_mtp_draft_def split: option.splits)

lemma sound_free_context:
  assumes "sound l"
  shows "sound (free_context l)"
  using sound_teardown [OF assms] by (auto simp: sound_def held_eq free_context_def Let_def split: option.splits)

lemma tight_free_context:
  assumes "tight l"
  shows "tight (free_context l)"
  using tight_teardown [OF assms] by (auto simp: tight_def held_eq free_context_def Let_def split: option.splits)

lemma free_context_no_context [simp]: "no_context (free_context l)"
  by (simp add: no_context_def free_context_def teardown_mtp_draft_def Let_def)

lemma free_model_no_context [simp]: "no_context (free_model l) = no_context l"
  by (simp add: no_context_def free_model_def)

lemma free_model_simps [simp]: "l_model (free_model l) = None"
  by (simp add: free_model_def)

text \<open>An object made into a slot; tight only where the slot was empty.\<close>

lemma lib_new_cases:
  assumes "lib_new answers l = (h, l1)"
  obtains (made) "h = Some (lib_calls l)" "l1 = l\<lparr>lib_calls := Suc (lib_calls l), lib_live := insert (lib_calls l) (lib_live l)\<rparr>"
        | (failed) "h = None" "l1 = l\<lparr>lib_calls := Suc (lib_calls l)\<rparr>"
  using assms by (auto simp: lib_new_def Let_def split: if_splits)

lemma fill_model:
  assumes "load_tier_model answers l = (h, l1)" "no_context l"
  shows "sound l \<Longrightarrow> sound (l1\<lparr>l_model := h\<rparr>)" "tight l \<Longrightarrow> l_model l = None \<Longrightarrow> tight (l1\<lparr>l_model := h\<rparr>)" "no_context (l1\<lparr>l_model := h\<rparr>)"
  using assms(1)[unfolded load_tier_model_def] assms(2)
  by (auto elim!: lib_new_cases simp: sound_def tight_def held_eq no_context_def less_Suc_eq split: option.splits)

lemma fill_ctx:
  assumes "lib_new answers l = (h, l1)" "l_ctx l = None"
  shows "sound l \<Longrightarrow> sound (l1\<lparr>l_ctx := h\<rparr>)" "tight l \<Longrightarrow> tight (l1\<lparr>l_ctx := h\<rparr>)" "l_model l1 = l_model l" "l_mtmd l1 = l_mtmd l"
    "l_mtp_model l1 = l_mtp_model l" "l_mtp_ctx l1 = l_mtp_ctx l"
  using assms by (fastforce elim!: lib_new_cases simp: sound_def tight_def held_eq less_Suc_eq split: option.splits)+

lemma fill_mtmd:
  assumes "lib_new answers l = (h, l1)" "l_mtmd l = None"
  shows "sound l \<Longrightarrow> sound (l1\<lparr>l_mtmd := h\<rparr>)" "tight l \<Longrightarrow> tight (l1\<lparr>l_mtmd := h\<rparr>)" "l_model l1 = l_model l" "l_ctx l1 = l_ctx l"
  using assms by (fastforce elim!: lib_new_cases simp: sound_def tight_def held_eq less_Suc_eq split: option.splits)+

lemma fill_mtp_model:
  assumes "lib_new answers l = (h, l1)" "l_mtp_model l = None"
  shows "sound l \<Longrightarrow> sound (l1\<lparr>l_mtp_model := h\<rparr>)" "tight l \<Longrightarrow> tight (l1\<lparr>l_mtp_model := h\<rparr>)" "l_model l1 = l_model l" "l_ctx l1 = l_ctx l"
    "l_mtp_ctx l1 = l_mtp_ctx l"
  using assms by (fastforce elim!: lib_new_cases simp: sound_def tight_def held_eq less_Suc_eq split: option.splits)+

lemma fill_mtp_ctx:
  assumes "lib_new answers l = (h, l1)" "l_mtp_ctx l = None"
  shows "sound l \<Longrightarrow> sound (l1\<lparr>l_mtp_ctx := h\<rparr>)" "tight l \<Longrightarrow> tight (l1\<lparr>l_mtp_ctx := h\<rparr>)" "l_model l1 = l_model l" "l_ctx l1 = l_ctx l"
  using assms by (fastforce elim!: lib_new_cases simp: sound_def tight_def held_eq less_Suc_eq split: option.splits)+

text \<open>The operations, each from a state without a context.\<close>

definition fine :: "llama \<Rightarrow> bool" where
  "fine l \<longleftrightarrow> sound l \<and> tight l"

lemma expert_offload_fine:
  assumes "expert_offload_admits shape cfg l = (ok, l1)" "sound l" "no_context l"
  shows "sound l1" "tight l \<Longrightarrow> tight l1" "no_context l1" "ok \<Longrightarrow> l1 = l"
  using assms sound_free_model [of l] tight_free_model [of l] free_model_no_context [of l]
  by (auto simp: expert_offload_admits_def free_model_def split: prod.splits if_splits)

lemma finish_activation_fine:
  assumes "finish_activation answers cfg l = (ok, l2)" "sound l" "no_context l"
  shows "sound l2" "tight l \<Longrightarrow> tight l2" "l_model l2 = l_model l" "ok \<Longrightarrow> l_ctx l2 \<noteq> None" "\<not> ok \<Longrightarrow> no_context l2"
proof -
  obtain c l1 where c: "lib_new answers l = (c, l1)" by fastforce
  note f = fill_ctx [OF c]
  define l1' where "l1' = l1\<lparr>l_ctx := c\<rparr>"
  have l1': "sound l1'" "tight l \<Longrightarrow> tight l1'" "l_model l1' = l_model l" "l_ctx l1' = c" "l_mtmd l1' = None" "l_mtp_model l1' = None" "l_mtp_ctx l1' = None"
    using f assms(2,3) by (simp_all add: l1'_def no_context_def)
  obtain h l3 where h: "lib_new answers l1' = (h, l3)" by fastforce
  note g = fill_mtmd [OF h]
  show "sound l2" "tight l \<Longrightarrow> tight l2" "l_model l2 = l_model l" "ok \<Longrightarrow> l_ctx l2 \<noteq> None" "\<not> ok \<Longrightarrow> no_context l2"
    using assms(1) g l1' h
    by (auto simp: finish_activation_def create_inference_context_def c init_mmproj_if_configured_def no_context_def
        simp flip: l1'_def split: if_splits)
qed

lemma load_gpu_model_free:
  "load_gpu_model answers shape cfg l =
     (case load_tier_model answers (free_model l) of (m, l1) \<Rightarrow>
        if m = None then (False, l1\<lparr>l_model := m\<rparr>) else expert_offload_admits shape cfg (l1\<lparr>l_model := m\<rparr>))"
  by (simp add: load_gpu_model_def free_model_def Let_def split: prod.splits)

lemma llama_do_load_fine:
  assumes "llama_do_load answers cfg l = (ok, l2)" "sound l" "no_context l"
  shows "sound l2" "tight l \<Longrightarrow> l_model l = None \<Longrightarrow> tight l2" "no_context l2"
  using assms fill_model [of answers l] by (auto simp: llama_do_load_def split: prod.splits)

lemma load_then_finish:
  assumes load: "load_tier_model answers l = (m, l1)" and m: "m \<noteq> None"
    and e: "expert_offload_admits shape cfg (l1\<lparr>l_model := m\<rparr>) = (ok, l2)" and l: "sound l" "no_context l"
  shows "sound l2" "tight l \<Longrightarrow> l_model l = None \<Longrightarrow> tight l2" "no_context l2" "ok \<Longrightarrow> l_model l2 \<noteq> None"
  using fill_model [OF load l(2)] expert_offload_fine [OF e] l m by auto

lemma llama_do_load_active_fine:
  assumes "llama_do_load_active answers shape cfg l = (ok, l2)" "sound l" "no_context l"
  shows "sound l2" "tight l \<Longrightarrow> l_model l = None \<Longrightarrow> tight l2" "fits_state (if ok then ACTIVE else COLD) l2"
proof -
  obtain m l1 where m: "load_tier_model answers l = (m, l1)" by fastforce
  obtain okx lx where x: "expert_offload_admits shape cfg (l1\<lparr>l_model := m\<rparr>) = (okx, lx)" by fastforce
  obtain okf lf where f: "finish_activation answers cfg lx = (okf, lf)" by fastforce
  note fm = fill_model [OF m assms(3)] and xm = load_then_finish [OF m _ x assms(2,3)] and fin = finish_activation_fine [OF f]
  show "sound l2" "tight l \<Longrightarrow> l_model l = None \<Longrightarrow> tight l2" "fits_state (if ok then ACTIVE else COLD) l2"
    using assms fm xm fin
    by (auto simp: llama_do_load_active_def m x f Let_def fits_state_def split: if_splits)
qed

lemma llama_do_activate_fine:
  assumes "llama_do_activate answers shape cfg l = (ok, l2)" "sound l" "no_context l"
  shows "sound l2" "tight l \<Longrightarrow> tight l2" "fits_state (if ok then ACTIVE else WARM) l2"
proof -
  let ?l = "free_model l"
  have fr: "sound ?l" "no_context ?l" "tight l \<Longrightarrow> tight ?l" "l_model ?l = None"
    using assms(2,3) by (simp_all add: sound_free_model tight_free_model)
  obtain m l1 where m: "load_tier_model answers ?l = (m, l1)" by fastforce
  obtain okx lx where x: "expert_offload_admits shape cfg (l1\<lparr>l_model := m\<rparr>) = (okx, lx)" by fastforce
  obtain okf lf where f: "finish_activation answers cfg lx = (okf, lf)" by fastforce
  note fm = fill_model [OF m fr(2)] and xm = load_then_finish [OF m _ x fr(1,2)] and fin = finish_activation_fine [OF f]
  show "sound l2" "tight l \<Longrightarrow> tight l2" "fits_state (if ok then ACTIVE else WARM) l2"
    using assms fr fm xm fin
    by (auto simp: llama_do_activate_def load_gpu_model_free m x f fits_state_def split: if_splits)
qed

lemma llama_do_deactivate_fine:
  assumes "sound l"
  shows "sound (llama_do_deactivate answers cfg l)" "tight l \<Longrightarrow> tight (llama_do_deactivate answers cfg l)"
    "no_context (llama_do_deactivate answers cfg l)"
proof -
  let ?l = "free_model (free_context l)"
  have fr: "sound ?l" "no_context ?l" "tight l \<Longrightarrow> tight ?l" "l_model ?l = None"
    using assms by (simp_all add: sound_free_model tight_free_model sound_free_context tight_free_context)
  obtain m l1 where m: "load_tier_model answers ?l = (m, l1)" by fastforce
  show "sound (llama_do_deactivate answers cfg l)" "tight l \<Longrightarrow> tight (llama_do_deactivate answers cfg l)"
    "no_context (llama_do_deactivate answers cfg l)"
    using fill_model [OF m fr(2)] fr by (simp_all add: llama_do_deactivate_def m)
qed

lemma llama_do_unload_fine:
  assumes "sound l"
  shows "sound (llama_do_unload l)" "tight l \<Longrightarrow> tight (llama_do_unload l)" "held (llama_do_unload l) = []"
proof -
  show "held (llama_do_unload l) = []"
    using free_context_no_context [of l] by (simp add: llama_do_unload_def held_eq free_model_def no_context_def)
qed (use assms in \<open>simp_all add: llama_do_unload_def sound_free_model tight_free_model sound_free_context tight_free_context\<close>)

text \<open>Drafting with an MTP head, the part of generation that makes and frees objects.\<close>

lemma teardown_simps [simp]:
  "l_model (teardown_mtp_draft l) = l_model l" "l_ctx (teardown_mtp_draft l) = l_ctx l"
  "l_mtp_model (teardown_mtp_draft l) = None" "l_mtp_ctx (teardown_mtp_draft l) = None"
  by (simp_all add: teardown_mtp_draft_def)

lemma setup_mtp_draft_fine:
  assumes "sound l"
  shows "sound (snd (setup_mtp_draft answers p l))" "tight l \<Longrightarrow> tight (snd (setup_mtp_draft answers p l))"
    "l_model (snd (setup_mtp_draft answers p l)) = l_model l" "l_ctx (snd (setup_mtp_draft answers p l)) = l_ctx l"
proof -
  let ?l = "teardown_mtp_draft l"
  have l: "sound ?l" "tight l \<Longrightarrow> tight ?l" using assms by (simp_all add: sound_teardown tight_teardown)
  obtain m l1 where m: "lib_new answers ?l = (m, l1)" by fastforce
  note fm = fill_mtp_model [OF m]
  let ?m = "l1\<lparr>l_mtp_model := m\<rparr>"
  obtain c l2 where c: "lib_new answers ?m = (c, l2)" by fastforce
  note fc = fill_mtp_ctx [OF c]
  have commute: "lib_new answers l1 = (c, l2\<lparr>l_mtp_model := l_mtp_model l1\<rparr>)" and m2: "l2\<lparr>l_mtp_model := m\<rparr> = l2"
    using c by (auto simp: lib_new_def Let_def split: if_splits)
  have none: "lib_new answers ?l = (None, l1) \<Longrightarrow> l1\<lparr>l_mtp_model := None\<rparr> = l1 \<and> l1\<lparr>l_mtp_model := None, l_mtp_ctx := None\<rparr> = l1"
    by (auto simp: lib_new_def Let_def teardown_mtp_draft_def split: if_splits)
  define l3 where "l3 = l2\<lparr>l_mtp_ctx := c\<rparr>"
  have l3: "sound l3" "tight l \<Longrightarrow> tight l3" "l_model l3 = l_model l" "l_ctx l3 = l_ctx l"
    using fm fc l by (simp_all add: l3_def)
  have l1: "sound l1" "tight l \<Longrightarrow> tight l1" "l_model l1 = l_model l" "l_ctx l1 = l_ctx l" if "m = None"
  proof -
    have "?m = l1" using m none that by auto
    then show "sound l1" "tight l \<Longrightarrow> tight l1" "l_model l1 = l_model l" "l_ctx l1 = l_ctx l" using fm l by simp_all
  qed
  have p: "sound (l3\<lparr>l_mtp_head_path := p\<rparr>)" "tight l \<Longrightarrow> tight (l3\<lparr>l_mtp_head_path := p\<rparr>)"
    using l3 by (simp_all add: sound_def tight_def held_eq)
  show "sound (snd (setup_mtp_draft answers p l))" "tight l \<Longrightarrow> tight (snd (setup_mtp_draft answers p l))"
    "l_model (snd (setup_mtp_draft answers p l)) = l_model l" "l_ctx (snd (setup_mtp_draft answers p l)) = l_ctx l"
    using assms l l1 l3 p m2 none m
    by (auto simp: setup_mtp_draft_def build_mtp_head_def m commute Let_def sound_teardown tight_teardown l3_def split: if_splits)
qed

subsection \<open>A backend's life\<close>

definition llama_step :: "(nat \<Rightarrow> bool) \<Rightarrow> (string \<Rightarrow> int \<times> int) \<Rightarrow> string \<Rightarrow> life_op \<Rightarrow> backend \<times> llama \<Rightarrow> backend \<times> llama" where
  "llama_step answers shape head x =
     life_step (llama_vops answers shape) (\<lambda>l. (new_gen_result, snd (setup_mtp_draft answers head l))) x"

definition llama_life :: "(nat \<Rightarrow> bool) \<Rightarrow> (string \<Rightarrow> int \<times> int) \<Rightarrow> string \<Rightarrow> life_op list \<Rightarrow> backend \<times> llama" where
  "llama_life answers shape head ops = foldl (\<lambda>s x. llama_step answers shape head x s) (new_backend, new_llama) ops"

text \<open>A cold backend that still has a model.\<close>

definition stranded_model :: "backend \<times> llama \<Rightarrow> bool" where
  "stranded_model s \<longleftrightarrow> b_state (fst s) = COLD \<and> l_model (snd s) \<noteq> None"

lemma llama_vops_simps [simp]:
  "do_load (llama_vops answers shape) = llama_do_load answers"
  "do_activate (llama_vops answers shape) = llama_do_activate answers shape"
  "do_load_active (llama_vops answers shape) = llama_do_load_active answers shape"
  "do_deactivate (llama_vops answers shape) = llama_do_deactivate answers"
  "do_unload (llama_vops answers shape) = llama_do_unload"
  "hook_pre_load (llama_vops answers shape) = None"
  "hook_unload (llama_vops answers shape) = None"
  by (simp_all add: llama_vops_def)

lemma held_no_context: "held l = [] \<Longrightarrow> no_context l"
  by (auto simp: held_eq no_context_def split: option.splits)

lemma fits_state_simps [simp]: "fits_state COLD l = no_context l" "fits_state WARM l = no_context l"
  by (simp_all add: fits_state_def)

definition life_ok :: "bool \<Rightarrow> backend \<times> llama \<Rightarrow> bool" where
  "life_ok leakless s \<longleftrightarrow> sound (snd s) \<and> fits_state (b_state (fst s)) (snd s) \<and> (leakless \<longrightarrow> tight (snd s))"

lemma promote_life_ok:
  assumes "life_ok t (b, l)"
  shows "life_ok t (snd (promote_to_active (llama_vops answers shape) b l))"
  using assms llama_do_activate_fine [of answers shape "b_config b" l]
  by (cases "b_state b") (auto simp: life_ok_def promote_to_active_def split: prod.splits if_splits)

lemma cold_load_life_ok:
  assumes "life_ok t (b, l)" "t \<Longrightarrow> \<not> stranded_model (b, l)" "b_state b = COLD"
  shows "life_ok t (snd (load (llama_vops answers shape) cfg b l))"
    and "life_ok t (snd (load_and_activate (llama_vops answers shape) cfg b l))"
proof -
  have l: "sound l" "no_context l" "t \<Longrightarrow> tight l" "t \<Longrightarrow> l_model l = None"
    using assms by (auto simp: life_ok_def stranded_model_def)
  show "life_ok t (snd (load (llama_vops answers shape) cfg b l))"
    using l assms(3) llama_do_load_fine [of answers cfg l]
    by (cases "llama_do_load answers cfg l") (simp add: life_ok_def load_def fire_model_load_hook_def fits_state_def)
  show "life_ok t (snd (load_and_activate (llama_vops answers shape) cfg b l))"
    using l assms(3) llama_do_load_active_fine [of answers shape cfg l]
    by (cases "llama_do_load_active answers shape cfg l") (simp add: life_ok_def load_and_activate_def fire_model_load_hook_def)
qed

lemma llama_step_ok:
  assumes "life_ok t (b, l)" "t \<Longrightarrow> \<not> stranded_model (b, l)"
  shows "life_ok t (llama_step answers shape head x (b, l))"
proof (cases x)
  case (Op_load cfg)
  then show ?thesis using assms cold_load_life_ok(1) [OF assms, of answers shape cfg]
    by (cases "b_state b = COLD") (simp_all add: llama_step_def life_step_def load_def)
next
  case (Op_load_and_activate cfg)
  then show ?thesis using assms cold_load_life_ok(2) [OF assms, of answers shape cfg] promote_life_ok [OF assms(1), of answers shape]
    by (cases "b_state b = COLD") (simp_all add: llama_step_def life_step_def load_and_activate_def)
next
  case Op_activate
  then show ?thesis using promote_life_ok [OF assms(1)] by (simp add: llama_step_def life_step_def activate_def)
next
  case Op_deactivate
  then show ?thesis using assms(1) llama_do_deactivate_fine [of l answers "b_config b"]
    by (simp add: llama_step_def life_step_def deactivate_def life_ok_def)
next
  case Op_unload
  then show ?thesis using assms(1) llama_do_unload_fine [of l] held_no_context
    by (simp add: llama_step_def life_step_def unload_def life_ok_def)
next
  case Op_generate
  then show ?thesis using assms(1) setup_mtp_draft_fine [of l answers head]
    by (simp add: llama_step_def life_step_def generate_def guarded_def is_active_def life_ok_def fits_state_def)
qed

text \<open>
  Claim C5. A llama.cpp backend through any life: what it holds is alive in the library and held once, an active one has a
  model and a context, one that is not active has no context and no draft, and the library has nothing of it but what it
  holds, provided no activation left its model in a cold backend on the way.
\<close>

theorem llama_handles_fit:
  assumes "t \<Longrightarrow> \<forall>n < length ops. \<not> stranded_model (llama_life answers shape head (take n ops))"
  shows "life_ok t (llama_life answers shape head ops)"
  using assms
proof (induction ops rule: rev_induct)
  case Nil
  show ?case by (simp add: life_ok_def llama_life_def new_backend_def new_llama_def no_context_def sound_def tight_def held_eq)
next
  case (snoc x ops)
  have "\<not> stranded_model (llama_life answers shape head ops)" if t
    using snoc.prems [OF that] by (metis append_eq_conv_conj length_append_singleton lessI)
  moreover have "life_ok t (llama_life answers shape head ops)"
  proof (rule snoc.IH, intro allI impI)
    fix n assume t "n < length ops"
    then show "\<not> stranded_model (llama_life answers shape head (take n ops))" using snoc.prems(1) by (auto dest: spec [of _ n])
  qed
  ultimately show ?case
    using llama_step_ok [of t "fst (llama_life answers shape head ops)" "snd (llama_life answers shape head ops)" answers shape head x]
    by (simp add: llama_life_def)
qed

theorem llama_handles_fit_witness:
  "life_ok True (llama_life (\<lambda>_. True) (\<lambda>_. (4, 0)) ''h.gguf'' [Op_load_and_activate default_model_config, Op_generate, Op_deactivate])"
proof -
  let ?ops = "[Op_load_and_activate default_model_config, Op_generate, Op_deactivate]"
  have "\<forall>n \<in> set [0, 1, 2]. \<not> stranded_model (llama_life (\<lambda>_. True) (\<lambda>_. (4, 0)) ''h.gguf'' (take n ?ops))" by code_simp
  then have "\<forall>n < length ?ops. \<not> stranded_model (llama_life (\<lambda>_. True) (\<lambda>_. (4, 0)) ''h.gguf'' (take n ?ops))"
    by (simp add: less_Suc_eq numeral_3_eq_3 numeral_2_eq_2)
  then show ?thesis by (rule llama_handles_fit)
qed

text \<open>The proviso is needed: a context that cannot be made leaves the model, and the next load loses it.\<close>

lemma failed_context_leaks_model:
  "let answers = (\<lambda>k. k \<noteq> 1); ops = [Op_load_and_activate default_model_config, Op_load_and_activate default_model_config];
       s = llama_life answers (\<lambda>_. (4, 0)) [] (take 1 ops); s' = llama_life answers (\<lambda>_. (4, 0)) [] ops
   in \<not> is_loaded (fst s) \<and> stranded_model s \<and> is_active (fst s') \<and> 0 \<in> lib_live (snd s') \<and> 0 \<notin> set (held (snd s'))"
  by code_simp

end
