(* ===== verification/Orchestrator.thy ===== *)
theory Orchestrator
  imports Grammar_Registry Lora_Manager Response_Parse Stream_Filter
begin

text \<open>
  The model orchestrator (\<open>inference/orchestrator.cpp\<close>, \<open>inference/secondary_model_loader.cpp\<close>): which tier's model
  is in memory, what may be brought in, the routing of a request to a tier, and the generation of a turn. Every backend is a
  llama.cpp backend, an object with a number, whose life cycle is the one of \<open>Model_Backend\<close>; what its functions do, the
  sizes and shapes of files, the device's memory and the clock are a record of parameters over a world. Proved: no two
  main models are active at once, and what is brought in fits the budget.
\<close>

subsection \<open>State\<close>

record orch_config = parsed_config +
  defer_load :: bool
  cfg_vram_reserve_mb :: int
  spec_enabled :: bool
  spec_mtp :: bool
  spec_n_draft :: int
  spec_draft :: model_config

record routing_result =
  rr_tier :: string
  rr_previous :: string
  rr_raw :: string
  rr_swap_action :: string
  rr_adapter :: string

datatype residency_event = Loaded | Evicted | ActivationSwap

record generation_record =
  rec_finish_reason :: string
  rec_token_count :: int
  rec_grammar :: grammar_provenance

record 'w platform =
  vops_of :: "nat \<Rightarrow> 'w vops"
  model_ptr :: "nat \<Rightarrow> 'w \<Rightarrow> nat option"
  context_ptr :: "nat \<Rightarrow> 'w \<Rightarrow> nat option"
  file_exists :: "string \<Rightarrow> bool"
  file_bytes :: "string \<Rightarrow> u64 option"
  shape_of :: "string \<Rightarrow> gguf_shape"
  memlock_limit :: u64
  env_budget :: "string option"
  free_vram :: "'w \<Rightarrow> u64"
  clock :: "'w \<Rightarrow> int"
  lora_readable :: "nat \<Rightarrow> string \<Rightarrow> bool"
  lora_pass :: "string \<Rightarrow> string \<Rightarrow> string \<Rightarrow> bool"
  memory_clear :: "nat \<Rightarrow> 'w \<Rightarrow> 'w"
  decode :: "nat \<Rightarrow> message list \<Rightarrow> gen_params \<Rightarrow> 'w \<Rightarrow> gen_result \<times> 'w"
  decode_stream :: "nat \<Rightarrow> message list \<Rightarrow> gen_params \<Rightarrow> 'w \<Rightarrow> (gen_result \<times> string list) \<times> 'w"
  decode_batch :: "nat \<Rightarrow> message list list \<Rightarrow> gen_params list \<Rightarrow> 'w \<Rightarrow> gen_result list \<times> 'w"
  complete_prompt :: "nat \<Rightarrow> string \<Rightarrow> gen_params \<Rightarrow> 'w \<Rightarrow> gen_result \<times> 'w"
  decode_mtp :: "nat \<Rightarrow> message list \<Rightarrow> gen_params \<Rightarrow> string \<Rightarrow> int \<Rightarrow> 'w \<Rightarrow> (gen_result \<times> string list) \<times> 'w"
  decode_draft :: "nat \<Rightarrow> nat \<Rightarrow> message list \<Rightarrow> gen_params \<Rightarrow> int \<Rightarrow> 'w \<Rightarrow> (gen_result \<times> string list) \<times> 'w"
  compat :: "nat \<Rightarrow> nat \<Rightarrow> bool \<times> string"
  layers_of :: "nat \<Rightarrow> int"
  stage_tools :: "nat \<Rightarrow> string \<Rightarrow> bool \<Rightarrow> 'w \<Rightarrow> 'w"
  tool_grammar :: "nat \<Rightarrow> 'w \<Rightarrow> string"
  template_of :: "nat \<Rightarrow> 'w \<Rightarrow> template_state"
  jlib :: json_lib
  parses_gbnf :: "string \<Rightarrow> bool"
  grammar_dir :: "fpath \<Rightarrow> (string \<times> string) list option"
  drop_prompt_cache :: "nat \<Rightarrow> 'w \<Rightarrow> 'w"
  drop_session_kv :: "nat \<Rightarrow> string \<Rightarrow> 'w \<Rightarrow> 'w"

text \<open>
  The maps are association lists in their order of iteration. \<open>model_pool\<close> and \<open>bound\<close> (the code's \<open>tiers_\<close>) hold the
  numbers of shared backends, \<open>slots\<close> those of the router and the draft.
\<close>

record 'w orch =
  o_config :: orch_config
  default_name :: string
  model_pool :: "(string \<times> nat) list"
  bound :: "(string \<times> nat) list"
  objs :: "nat \<Rightarrow> backend"
  next_obj :: nat
  o_adapters :: "(string \<times> chat_adapter) list"
  o_tier_map :: "(string \<times> string) list"
  o_handoffs :: "(string \<times> string list) list"
  main_tier :: string
  vram_budget :: u64
  budget_resolved :: bool
  budget_deferred :: bool
  footprints :: "(string \<times> u64) list"
  last_activation :: "(string \<times> int) list"
  residency_error :: entropic_error
  residency_message :: string
  o_lora :: lora
  slots :: "(string \<times> nat) list"
  slot_paths :: "(string \<times> string) list"
  o_grammars :: grammar_registry
  gen_records :: "generation_record list"
  last_routing :: routing_result
  tier_history :: "string list"
  observed :: bool
  announced :: "(residency_event \<times> string \<times> string \<times> u64) list"
  o_ids :: id_counters
  world :: 'w

definition no_routing :: routing_result where
  "no_routing = \<lparr>rr_tier = [], rr_previous = [], rr_raw = [], rr_swap_action = ''none'', rr_adapter = []\<rparr>"

definition new_orch :: "orch_config \<Rightarrow> bool \<Rightarrow> 'w \<Rightarrow> 'w orch" where
  "new_orch cfg watched w =
     \<lparr>o_config = cfg, default_name = [], model_pool = [], bound = [], objs = (\<lambda>_. new_backend), next_obj = 0, o_adapters = [],
      o_tier_map = [], o_handoffs = [], main_tier = [], vram_budget = 0, budget_resolved = False, budget_deferred = False,
      footprints = [], last_activation = [], residency_error = ENTROPIC_OK, residency_message = [], o_lora = new_lora, slots = [],
      slot_paths = [], o_grammars = [], gen_records = [], last_routing = no_routing, tier_history = [], observed = watched,
      announced = [], o_ids = \<lparr>base_ids = 0, qwen35_ids = 0, qwen36_ids = 0, nemotron3_ids = 0\<rparr>, world = w\<rparr>"

definition cfg_tiers :: "'w orch \<Rightarrow> (string \<times> tier_config) list" where
  "cfg_tiers s = tiers (models (o_config s))"

definition cfg_tier :: "'w orch \<Rightarrow> string \<Rightarrow> tier_config option" where
  "cfg_tier s name = map_of (cfg_tiers s) name"

definition set_cfg_tier :: "string \<Rightarrow> tier_config \<Rightarrow> 'w orch \<Rightarrow> 'w orch" where
  "set_cfg_tier name t s =
     s\<lparr>o_config := (o_config s)\<lparr>models := (models (o_config s))\<lparr>tiers := AList.update name t (cfg_tiers s)\<rparr>\<rparr>\<rparr>"

definition tier_path :: "'w orch \<Rightarrow> string \<Rightarrow> string" where
  "tier_path s name = (case cfg_tier s name of None \<Rightarrow> [] | Some t \<Rightarrow> path t)"

definition known_footprint :: "'w orch \<Rightarrow> string \<Rightarrow> u64" where
  "known_footprint s name = (case map_of (footprints s) name of None \<Rightarrow> 0 | Some b \<Rightarrow> b)"

text \<open>A backend's operation, on the object it is called on.\<close>

definition on_backend :: "nat \<Rightarrow> (backend \<Rightarrow> 'w \<Rightarrow> 'r \<times> backend \<times> 'w) \<Rightarrow> 'w orch \<Rightarrow> 'r \<times> 'w orch" where
  "on_backend i f s = (case f (objs s i) (world s) of (r, b, w) \<Rightarrow> (r, s\<lparr>objs := (objs s)(i := b), world := w\<rparr>))"

definition backend_loaded :: "'w orch \<Rightarrow> nat \<Rightarrow> bool" where
  "backend_loaded s i = is_loaded (objs s i)"

definition backend_active :: "'w orch \<Rightarrow> nat \<Rightarrow> bool" where
  "backend_active s i = is_active (objs s i)"

definition load_active_backend :: "'w platform \<Rightarrow> nat \<Rightarrow> model_config \<Rightarrow> 'w orch \<Rightarrow> bool \<times> 'w orch" where
  "load_active_backend P i cfg s = on_backend i (load_and_activate (vops_of P i) cfg) s"

definition unload_backend :: "'w platform \<Rightarrow> nat \<Rightarrow> 'w orch \<Rightarrow> 'w orch" where
  "unload_backend P i s = snd (on_backend i (\<lambda>b w. ((), unload (vops_of P i) b w)) s)"

definition deactivate_backend :: "'w platform \<Rightarrow> nat \<Rightarrow> 'w orch \<Rightarrow> 'w orch" where
  "deactivate_backend P i s = snd (on_backend i (\<lambda>b w. ((), deactivate (vops_of P i) b w)) s)"

text \<open>The end of the last reference to a backend: its destructor frees what it holds.\<close>

definition destroy_backend :: "'w platform \<Rightarrow> nat \<Rightarrow> 'w orch \<Rightarrow> 'w orch" where
  "destroy_backend P i s = s\<lparr>objs := (objs s)(i := new_backend), world := do_unload (vops_of P i) (world s)\<rparr>"

definition fire_residency_observer :: "residency_event \<Rightarrow> string \<Rightarrow> string \<Rightarrow> u64 \<Rightarrow> 'w orch \<Rightarrow> 'w orch" where
  "fire_residency_observer e tier p fp s = (if observed s then s\<lparr>announced := announced s @ [(e, tier, p, fp)]\<rparr> else s)"

subsection \<open>Secondary models\<close>

definition ensure_loaded :: "'w platform \<Rightarrow> string \<Rightarrow> model_config \<Rightarrow> 'w orch \<Rightarrow> bool \<times> 'w orch" where
  "ensure_loaded P rl cfg s =
     (if map_of (slot_paths s) rl = Some (path cfg) \<and>
         (case map_of (slots s) rl of None \<Rightarrow> False | Some i \<Rightarrow> backend_loaded s i)
      then (True, s)
      else
        let i = next_obj s; s0 = s\<lparr>next_obj := Suc i, objs := (objs s)(i := new_backend)\<rparr> in
        case load_active_backend P i cfg s0 of
          (False, s1) \<Rightarrow> (False, destroy_backend P i s1)
        | (True, s1) \<Rightarrow>
            let s2 = (case map_of (slots s1) rl of None \<Rightarrow> s1 | Some old \<Rightarrow> destroy_backend P old s1)
            in (True, s2\<lparr>slots := AList.update rl i (slots s2), slot_paths := AList.update rl (path cfg) (slot_paths s2)\<rparr>))"

definition get_role :: "'w orch \<Rightarrow> string \<Rightarrow> nat option" where
  "get_role s rl = map_of (slots s) rl"

definition role_loaded :: "'w orch \<Rightarrow> string \<Rightarrow> bool" where
  "role_loaded s rl = (case map_of (slots s) rl of None \<Rightarrow> False | Some i \<Rightarrow> backend_loaded s i)"

definition unload_if_loaded :: "'w platform \<Rightarrow> nat \<Rightarrow> 'w orch \<Rightarrow> 'w orch" where
  "unload_if_loaded P i s = (if backend_loaded s i then unload_backend P i s else s)"

definition release_role :: "'w platform \<Rightarrow> string \<Rightarrow> 'w orch \<Rightarrow> bool \<times> 'w orch" where
  "release_role P rl s =
     (case map_of (slots s) rl of
        None \<Rightarrow> (False, s)
      | Some i \<Rightarrow>
          let s1 = destroy_backend P i (unload_if_loaded P i s)
          in (True, s1\<lparr>slots := AList.delete rl (slots s1), slot_paths := AList.delete rl (slot_paths s1)\<rparr>))"

definition loaded_roles :: "'w orch \<Rightarrow> string list" where
  "loaded_roles s = sort (map fst (filter (\<lambda>(r, i). backend_loaded s i) (slots s)))"

definition secondary_shutdown :: "'w platform \<Rightarrow> 'w orch \<Rightarrow> 'w orch" where
  "secondary_shutdown P s =
     (let s1 = foldl (\<lambda>s (r, i). unload_if_loaded P i s) s (slots s); s2 = foldl (\<lambda>s (r, i). destroy_backend P i s) s1 (slots s)
      in s2\<lparr>slots := [], slot_paths := []\<rparr>)"

definition secondary_clear_prompt_caches :: "'w platform \<Rightarrow> 'w orch \<Rightarrow> 'w orch" where
  "secondary_clear_prompt_caches P s = s\<lparr>world := foldl (\<lambda>w (r, i). drop_prompt_cache P i w) (world s) (slots s)\<rparr>"

definition activate_router :: "'w platform \<Rightarrow> 'w orch \<Rightarrow> 'w orch" where
  "activate_router P s = (case router (models (o_config s)) of None \<Rightarrow> s | Some r \<Rightarrow> snd (ensure_loaded P ''router'' r s))"

definition activate_draft :: "'w platform \<Rightarrow> 'w orch \<Rightarrow> 'w orch" where
  "activate_draft P s =
     (let c = o_config s in
      if \<not> spec_enabled c \<or> path (spec_draft c) = [] \<or> spec_mtp c then s else snd (ensure_loaded P ''draft'' (spec_draft c) s))"

definition ensure_secondary_roles :: "'w platform \<Rightarrow> 'w orch \<Rightarrow> 'w orch" where
  "ensure_secondary_roles P s = activate_draft P (activate_router P s)"

subsection \<open>Memory\<close>

definition resolve_vram_budget_bytes :: "'w platform \<Rightarrow> 'w \<Rightarrow> u64" where
  "resolve_vram_budget_bytes P w =
     (case env_budget P of
        None \<Rightarrow> free_vram P w
      | Some e \<Rightarrow>
          (if e = [] then 0
           else case strtol10 e of
                  None \<Rightarrow> 0
                | Some v \<Rightarrow> if v < 0 \<or> v \<ge> 2 ^ 63 then 0 else of_int v))"

definition ensure_vram_budget :: "'w platform \<Rightarrow> 'w orch \<Rightarrow> 'w orch" where
  "ensure_vram_budget P s =
     (if budget_resolved s then s else s\<lparr>vram_budget := resolve_vram_budget_bytes P (world s), budget_resolved := True\<rparr>)"

definition budget_resolves_at_init :: "'w platform \<Rightarrow> orch_config \<Rightarrow> bool" where
  "budget_resolves_at_init P cfg \<longleftrightarrow> \<not> defer_load cfg \<or> env_budget P \<noteq> None"

definition footprint_inputs_for :: "'w platform \<Rightarrow> tier_config \<Rightarrow> u64 \<Rightarrow> int \<Rightarrow> footprint_inputs" where
  "footprint_inputs_for P t weights reserve =
     (let shape = shape_of P (path t)
      in \<lparr>weights_bytes = weights,
          mmproj_bytes = (if mmproj_path t = [] then 0 else case file_bytes P (mmproj_path t) of None \<Rightarrow> 0 | Some b \<Rightarrow> b),
          in_gpu_layers = gpu_layers t, in_context_length = model_config.context_length t,
          in_cache_type_k = cache_type_k t, in_cache_type_v = cache_type_v t,
          vram_reserve_mb = reserve, in_max_sessions = max_sessions t, draft_bytes = 0,
          in_block_count = (if shape_known shape then block_count shape else 0),
          in_block_bytes = (if shape_known shape then block_bytes shape else 0),
          in_non_block_bytes = (if shape_known shape then non_block_bytes shape else 0),
          host_expert_bytes = (if shape_known shape \<and> cpu_moe_layers t > 0
                               then expert_bytes_per_block shape * of_int (cpu_moe_layers t) else 0)\<rparr>)"

definition estimate_footprint_bytes :: "'w platform \<Rightarrow> 'w orch \<Rightarrow> string \<Rightarrow> u64" where
  "estimate_footprint_bytes P s name =
     (case cfg_tier s name of
        None \<Rightarrow> 0
      | Some t \<Rightarrow>
          (case file_bytes P (path t) of
             None \<Rightarrow> 0
           | Some weights \<Rightarrow> est_bytes (estimate_vram_footprint (footprint_inputs_for P t weights (cfg_vram_reserve_mb (o_config s))))))"

definition resident_draft_bytes :: "'w platform \<Rightarrow> 'w orch \<Rightarrow> u64" where
  "resident_draft_bytes P s =
     (if \<not> spec_enabled (o_config s) then 0
      else case file_bytes P (path (spec_draft (o_config s))) of None \<Rightarrow> 0 | Some b \<Rightarrow> b)"

definition fall_back_to_weights_estimate :: "string \<Rightarrow> u64 \<Rightarrow> 'w orch \<Rightarrow> 'w orch" where
  "fall_back_to_weights_estimate name bytes s =
     (case cfg_tier s name of
        None \<Rightarrow> s
      | Some t \<Rightarrow> set_cfg_tier name (t\<lparr>gpu_layers := partial_gpu_layers_for bytes (vram_budget s) 30\<rparr>) s)"

definition resolve_auto_gpu_layers :: "'w platform \<Rightarrow> string \<Rightarrow> 'w orch \<Rightarrow> 'w orch" where
  "resolve_auto_gpu_layers P name s =
     (case cfg_tier s name of
        None \<Rightarrow> s
      | Some t \<Rightarrow>
          if \<not> gpu_layers_auto t then s
          else case file_bytes P (path t) of
                 None \<Rightarrow> s
               | Some bytes \<Rightarrow>
                   if vram_budget s = 0 then s
                   else
                     let base = (footprint_inputs_for P t bytes (cfg_vram_reserve_mb (o_config s)))\<lparr>draft_bytes := resident_draft_bytes P s\<rparr>;
                         p = derive_auto_placement (shape_of P (path t)) base (vram_budget s) (n_ubatch t)
                     in if \<not> ap_known p then fall_back_to_weights_estimate name bytes s
                        else set_cfg_tier name
                               (t\<lparr>gpu_layers := ap_gpu_layers p, cpu_moe_layers := ap_cpu_moe_layers p,
                                  n_ubatch := (if ap_n_ubatch p > 0 then ap_n_ubatch p else n_ubatch t)\<rparr>) s)"

definition host_expert_bytes_for :: "'w platform \<Rightarrow> tier_config \<Rightarrow> u64" where
  "host_expert_bytes_for P t =
     (if cpu_moe_layers t \<le> 0 \<or> \<not> shape_known (shape_of P (path t)) then 0
      else expert_bytes_per_block (shape_of P (path t)) * of_int (cpu_moe_layers t))"

definition refuse_residency :: "string \<Rightarrow> entropic_error \<Rightarrow> string \<Rightarrow> 'w orch \<Rightarrow> 'w orch" where
  "refuse_residency name e why s = s\<lparr>residency_error := e, residency_message := ''Tier '' @ squoted name @ '': '' @ why\<rparr>"

definition show_u64 :: "u64 \<Rightarrow> string" where
  "show_u64 b = to_string_nat (unat b)"

definition config_admits :: "'w platform \<Rightarrow> string \<Rightarrow> 'w orch \<Rightarrow> bool \<times> 'w orch" where
  "config_admits P name s =
     (case cfg_tier s name of
        None \<Rightarrow> (True, s)
      | Some t \<Rightarrow>
          (case file_bytes P (path t) of
             None \<Rightarrow> (True, s)
           | Some bytes \<Rightarrow>
               let experts = host_expert_bytes_for P t in
               if mlock_refused (use_mlock t) bytes (gpu_layers t) (memlock_limit P) experts
               then (False, refuse_residency name ENTROPIC_ERROR_MLOCK_LIMIT_EXCEEDED
                      (''use_mlock would pin '' @ show_u64 (if experts > 0 then experts else bytes) @
                       '' bytes against an RLIMIT_MEMLOCK of '' @ show_u64 (memlock_limit P) @
                       '' bytes. Pinned pages cannot be reclaimed under pressure, so a partially offloaded model of this '' @
                       ''size is killed rather than paged. Set use_mlock: false for this tier.'') s)
               else if gpu_offload_refused bytes (gpu_layers t) (vram_budget s)
               then (False, refuse_residency name ENTROPIC_ERROR_TIER_MODEL_TOO_LARGE
                      (''gpu_layers='' @ to_string_int (gpu_layers t) @ '' cannot fit: '' @ show_u64 (vram_budget s div MiB) @
                       '' MiB of free VRAM is not enough for the compute buffers alone, so no positive layer count can work. '' @
                       ''Free VRAM, or set gpu_layers: 0 to run on the CPU.'') s)
               else (True, s)))"

definition residency_admits :: "'w platform \<Rightarrow> string \<Rightarrow> 'w orch \<Rightarrow> bool \<times> 'w orch" where
  "residency_admits P name s =
     (case config_admits P name (resolve_auto_gpu_layers P name (ensure_vram_budget P s)) of
        (False, s1) \<Rightarrow> (False, s1)
      | (True, s1) \<Rightarrow>
          let fp = estimate_footprint_bytes P s1 name;
              s2 = (if fp > 0 then s1\<lparr>footprints := AList.update name fp (footprints s1)\<rparr> else s1)
          in if vram_budget s2 > 0 \<and> fp > vram_budget s2
             then (False, s2\<lparr>residency_error := ENTROPIC_ERROR_TIER_MODEL_TOO_LARGE\<rparr>) else (True, s2))"

definition build_no_model_error :: "string \<Rightarrow> 'w orch \<Rightarrow> gen_result \<times> 'w orch" where
  "build_no_model_error name s =
     (if residency_error s \<noteq> ENTROPIC_OK
      then (error_result (residency_error s)
              (if residency_message s \<noteq> [] then residency_message s
               else ''Tier '' @ squoted name @ '' model exceeds the engine'' @ [CHR 0x27] @ ''s VRAM budget (gh#57)''),
            s\<lparr>residency_error := ENTROPIC_OK, residency_message := []\<rparr>)
      else (error_result ENTROPIC_ERROR_GENERATE_FAILED (''No model available for tier: '' @ name), s))"

subsection \<open>Residency\<close>

definition set_swap_action :: "string \<Rightarrow> 'w orch \<Rightarrow> 'w orch" where
  "set_swap_action a s = s\<lparr>last_routing := (last_routing s)\<lparr>rr_swap_action := a\<rparr>\<rparr>"

definition record_activation_reuse :: "'w platform \<Rightarrow> string \<Rightarrow> 'w orch \<Rightarrow> 'w orch" where
  "record_activation_reuse P name s =
     (let s1 = s\<lparr>last_activation := AList.update name (clock P (world s)) (last_activation s)\<rparr> in
      if main_tier s = name then s1
      else
        let fp = (case map_of (footprints s) name of Some b \<Rightarrow> b | None \<Rightarrow> estimate_footprint_bytes P s name)
        in fire_residency_observer ActivationSwap name (tier_path s name) fp
             (s1\<lparr>footprints := AList.update name fp (footprints s), main_tier := name\<rparr>))"

definition preload_adapters_for_model :: "'w platform \<Rightarrow> nat \<Rightarrow> 'w orch \<Rightarrow> 'w orch" where
  "preload_adapters_for_model P i s =
     (case model_ptr P i (world s) of
        None \<Rightarrow> s
      | Some m \<Rightarrow>
          s\<lparr>o_lora := foldl (\<lambda>l (name, t).
               case lora_path t of
                 None \<Rightarrow> l
               | Some p \<Rightarrow> if map_of (bound s) name = Some i \<and> lora_state l name = A_COLD
                           then snd (load_adapter (lora_readable P) name p (Some m) (lora_scale t) l) else l)
             (o_lora s) (cfg_tiers s)\<rparr>)"

definition activate_and_track :: "'w platform \<Rightarrow> string \<Rightarrow> nat \<Rightarrow> 'w orch \<Rightarrow> nat option \<times> 'w orch" where
  "activate_and_track P name i s =
     (case cfg_tier s name of
        None \<Rightarrow> (None, s)
      | Some t \<Rightarrow>
          (case load_active_backend P i (model_config.truncate t) s of
             (False, s1) \<Rightarrow> (None, s1)
           | (True, s1) \<Rightarrow>
               let s2 = set_swap_action ''loaded'' (s1\<lparr>main_tier := name\<rparr>);
                   s3 = s2\<lparr>last_activation := AList.update name (clock P (world s2)) (last_activation s2)\<rparr>;
                   s4 = preload_adapters_for_model P i s3
               in (Some i, fire_residency_observer Loaded name (path t) (known_footprint s4 name) s4)))"

definition unload_or_warm_current :: "'w platform \<Rightarrow> nat \<Rightarrow> 'w orch \<Rightarrow> 'w orch" where
  "unload_or_warm_current P i s =
     (if (case cfg_tier s (main_tier s) of None \<Rightarrow> False | Some t \<Rightarrow> keep_warm t) then deactivate_backend P i s
      else fire_residency_observer Evicted (main_tier s) (tier_path s (main_tier s)) (known_footprint s (main_tier s))
             (unload_backend P i s))"

definition deactivate_current_if_needed :: "'w platform \<Rightarrow> nat \<Rightarrow> 'w orch \<Rightarrow> 'w orch" where
  "deactivate_current_if_needed P incoming s =
     (case (if main_tier s = [] then None else map_of (bound s) (main_tier s)) of
        None \<Rightarrow> s
      | Some i \<Rightarrow>
          if i = incoming \<or> \<not> backend_loaded s i then s
          else unload_or_warm_current P i
                 (s\<lparr>o_lora := unload_all_for_model (model_ptr P i (world s)) (context_ptr P i (world s)) (o_lora s)\<rparr>))"

text \<open>The switch of a LoRA for a tier; an active backend has a context.\<close>

definition ensure_adapter_for_tier :: "'w platform \<Rightarrow> string \<Rightarrow> nat option \<Rightarrow> 'w orch \<Rightarrow> 'w orch" where
  "ensure_adapter_for_tier P name ctx s =
     (case cfg_tier s name of
        None \<Rightarrow> s
      | Some t \<Rightarrow>
          let (clear, l) =
                (case lora_path t of
                   None \<Rightarrow> if active_name (o_lora s) = [] then (False, o_lora s) else (True, deactivate_adapter ctx (o_lora s))
                 | Some p \<Rightarrow>
                     if active_name (o_lora s) = name then (False, o_lora s)
                     else case ctx of None \<Rightarrow> (False, o_lora s) | Some c \<Rightarrow> swap_adapter (lora_pass P) name c (o_lora s))
          in s\<lparr>o_lora := l, world := (case ctx of Some c \<Rightarrow> if clear then memory_clear P c (world s) else world s | None \<Rightarrow> world s)\<rparr>)"

definition ensure_tier_lora :: "'w platform \<Rightarrow> string \<Rightarrow> nat \<Rightarrow> 'w orch \<Rightarrow> 'w orch" where
  "ensure_tier_lora P name i s =
     (let s1 = ensure_adapter_for_tier P name (context_ptr P i (world s)) s
      in s1\<lparr>last_routing := (last_routing s1)\<lparr>rr_adapter := active_name (o_lora s1)\<rparr>\<rparr>)"

text \<open>The backend of a tier, of the fallback tier for a name that is not one.\<close>

definition effective_tier :: "'w orch \<Rightarrow> string \<Rightarrow> (string \<times> nat) option" where
  "effective_tier s name =
     (case map_of (bound s) name of
        Some i \<Rightarrow> Some (name, i)
      | None \<Rightarrow> map_option (Pair (fallback_tier (routing (o_config s)))) (map_of (bound s) (fallback_tier (routing (o_config s)))))"

definition get_model :: "'w platform \<Rightarrow> string \<Rightarrow> 'w orch \<Rightarrow> nat option \<times> 'w orch" where
  "get_model P name s =
     (let (result, s1) =
        (case effective_tier s name of
           None \<Rightarrow> (None, s)
         | Some (eff, i) \<Rightarrow>
             if backend_active s i then (Some i, record_activation_reuse P eff (set_swap_action ''reused'' s))
             else case residency_admits P eff s of
                    (False, s1) \<Rightarrow> (None, s1)
                  | (True, s1) \<Rightarrow> activate_and_track P eff i (deactivate_current_if_needed P i s1))
      in case result of
           None \<Rightarrow> (None, s1)
         | Some i \<Rightarrow> (Some i, ensure_secondary_roles P (ensure_tier_lora P name i s1)))"

definition ensure_model :: "'w platform \<Rightarrow> string \<Rightarrow> 'w orch \<Rightarrow> nat option \<times> 'w orch" where
  "ensure_model P name s = get_model P name s"

definition get_backend :: "'w orch \<Rightarrow> string \<Rightarrow> nat option" where
  "get_backend s name = map_of (bound s) name"

definition announce_eviction :: "nat \<Rightarrow> 'w orch \<Rightarrow> 'w orch" where
  "announce_eviction i s =
     foldl (\<lambda>s (name, j).
        if j \<noteq> i then s
        else fire_residency_observer Evicted name (tier_path s name) (known_footprint s name)
               (if main_tier s = name then s\<lparr>main_tier := []\<rparr> else s)) s (bound s)"

definition release_backend :: "'w platform \<Rightarrow> nat \<Rightarrow> 'w orch \<Rightarrow> 'w orch" where
  "release_backend P i s =
     (if \<not> backend_loaded s i then s
      else announce_eviction i (unload_backend P i
             (s\<lparr>o_lora := release_handles_for_model (model_ptr P i (world s)) (context_ptr P i (world s)) (o_lora s)\<rparr>)))"

definition release_models :: "'w platform \<Rightarrow> string \<Rightarrow> 'w orch \<Rightarrow> entropic_error \<times> 'w orch" where
  "release_models P name s =
     (if name \<noteq> []
      then case map_of (bound s) name of
             None \<Rightarrow> (ENTROPIC_ERROR_MODEL_NOT_FOUND, s)
           | Some i \<Rightarrow> (ENTROPIC_OK, release_backend P i s)
      else (ENTROPIC_OK, secondary_shutdown P
              (snd (foldl (\<lambda>(seen, s) (n, i). if i \<in> set seen then (seen, s) else (i # seen, release_backend P i s)) ([], s) (bound s)))))"

subsection \<open>Routing\<close>

definition extract_latest_user_message :: "message list \<Rightarrow> string" where
  "extract_latest_user_message ms = (case find (\<lambda>m. role m = ''user'') (rev ms) of None \<Rightarrow> [] | Some m \<Rightarrow> content m)"

definition router_space :: "char \<Rightarrow> bool" where
  "router_space c \<longleftrightarrow> c = CHR '' '' \<or> c = CHR 0x09 \<or> c = CHR 0x0A \<or> c = CHR 0x0D"

definition classify_task :: "'w platform \<Rightarrow> message list \<Rightarrow> 'w orch \<Rightarrow> (string \<times> string) \<times> 'w orch" where
  "classify_task P ms s =
     (let user = extract_latest_user_message ms; s1 = activate_router P s in
      case get_role s1 ''router'' of
        None \<Rightarrow> (([], []), s1)
      | Some i \<Rightarrow>
          let instructed = (case classification_prompt (routing (o_config s1)) of None \<Rightarrow> None | Some p \<Rightarrow> if p = [] then None else Some p);
              prompt = (case instructed of None \<Rightarrow> user @ '' ->'' | Some p \<Rightarrow> p @ [CHR 0x0A] @ user @ '' ->'');
              params = new_gen_params\<lparr>max_tokens := (if instructed = None then 1 else 4), temperature := 0\<rparr>
          in case complete (objs s1 i) (complete_prompt P i prompt params) (world s1) of (r, w) \<Rightarrow>
               let s2 = s1\<lparr>world := w\<rparr>;
                   trimmed = dropWhile router_space (gr_content r);
                   raw = (if trimmed = [] then gr_content r else trimmed)
               in case find (\<lambda>c. map_of (o_tier_map s2) [c] \<noteq> None) raw of
                    None \<Rightarrow> ((default_name s2, []), s2)
                  | Some c \<Rightarrow> ((the (map_of (o_tier_map s2) [c]), [c]), s2))"

definition route :: "'w platform \<Rightarrow> message list \<Rightarrow> 'w orch \<Rightarrow> string \<times> 'w orch" where
  "route P ms s =
     (if \<not> routing_enabled (routing (o_config s)) \<or> router (models (o_config s)) = None
      then (default_name s, s\<lparr>last_routing := no_routing\<lparr>rr_tier := default_name s\<rparr>\<rparr>)
      else case classify_task P ms s of ((tier, raw), s1) \<Rightarrow>
        let h = tier_history s1 @ [tier]
        in (tier, s1\<lparr>last_routing := \<lparr>rr_tier = tier, rr_previous = main_tier s1, rr_raw = raw, rr_swap_action = ''none'', rr_adapter = []\<rparr>,
              tier_history := (if length h > 5 then tl h else h)\<rparr>))"

definition can_handoff :: "'w orch \<Rightarrow> string \<Rightarrow> string \<Rightarrow> bool" where
  "can_handoff s src dst = (case map_of (o_handoffs s) src of None \<Rightarrow> False | Some ts \<Rightarrow> dst \<in> set ts)"

definition get_adapter :: "'w orch \<Rightarrow> string \<Rightarrow> chat_adapter option" where
  "get_adapter s name = map_of (o_adapters s) name"

definition has_capability :: "tier_config \<Rightarrow> string \<Rightarrow> bool" where
  "has_capability t c \<longleftrightarrow> c \<in> set (capabilities t)"

definition tier_declares_vision :: "'w orch \<Rightarrow> string \<Rightarrow> bool" where
  "tier_declares_vision s name =
     (case cfg_tier s name of None \<Rightarrow> False | Some t \<Rightarrow> has_capability t ''vision'' \<or> mmproj_path t \<noteq> [])"

definition has_vision_capable_tier :: "'w orch \<Rightarrow> bool" where
  "has_vision_capable_tier s \<longleftrightarrow> list_ex (\<lambda>(n, t). has_capability t ''vision'') (cfg_tiers s)"

definition select_vision_tier :: "'w orch \<Rightarrow> string" where
  "select_vision_tier s = (case find (\<lambda>(n, t). has_capability t ''vision'') (cfg_tiers s) of None \<Rightarrow> [] | Some (n, t) \<Rightarrow> n)"

definition last_used_tier :: "'w orch \<Rightarrow> string" where
  "last_used_tier s = main_tier s"

definition loaded_models :: "'w orch \<Rightarrow> string list" where
  "loaded_models s =
     map fst (filter (\<lambda>(n, i). backend_loaded s i) (bound s)) @ (if role_loaded s ''router'' then [''router''] else [])"

definition available_models :: "'w orch \<Rightarrow> string list" where
  "available_models s = map fst (bound s) @ (if router (models (o_config s)) \<noteq> None then [''router''] else [])"

subsection \<open>Speculative decoding\<close>

definition resolve_mtp_effective :: "'w orch \<Rightarrow> string \<Rightarrow> bool" where
  "resolve_mtp_effective s name =
     (case Option.bind (cfg_tier s name) tier_speculative_mtp of Some b \<Rightarrow> b | None \<Rightarrow> spec_mtp (o_config s))"

text \<open>The models of the target and the draft, or what is missing.\<close>

definition resolve_target_model :: "'w platform \<Rightarrow> 'w orch \<Rightarrow> nat \<Rightarrow> nat option" where
  "resolve_target_model P s i = (if backend_loaded s i then model_ptr P i (world s) else None)"

definition resolve_speculative_pair :: "'w platform \<Rightarrow> 'w orch \<Rightarrow> string + nat \<times> nat" where
  "resolve_speculative_pair P s =
     (case map_of (bound s) (main_tier s) of
        None \<Rightarrow> Inl ''no main tier loaded''
      | Some i \<Rightarrow>
          (case resolve_target_model P s i of
             None \<Rightarrow> Inl ''main tier backend is not a llama.cpp backend or is not loaded''
           | Some t \<Rightarrow>
               (case get_role s ''draft'' of
                  None \<Rightarrow> Inl ''no draft model configured for speculative decoding (set inference.speculative.draft_model)''
                | Some d \<Rightarrow>
                    if \<not> backend_loaded s d
                    then Inl ''no draft model configured for speculative decoding (set inference.speculative.draft_model)''
                    else case model_ptr P d (world s) of
                           None \<Rightarrow> Inl ''draft backend is not a llama.cpp backend''
                         | Some m \<Rightarrow> Inr (t, m))))"

definition check_speculative_compat :: "'w platform \<Rightarrow> 'w orch \<Rightarrow> bool \<times> string" where
  "check_speculative_compat P s = (case resolve_speculative_pair P s of Inl e \<Rightarrow> (False, e) | Inr (t, m) \<Rightarrow> compat P t m)"

definition looks_like_mtp_head :: "int \<Rightarrow> bool" where
  "looks_like_mtp_head n \<longleftrightarrow> n \<ge> 1 \<and> n \<le> 2"

definition mtp_head_classical_path_error :: "int \<Rightarrow> string" where
  "mtp_head_classical_path_error n =
     ''Draft model has '' @ to_string_int n @ '' layer(s) '' @ em_dash @
     '' this looks like an MTP head GGUF. Set speculative.mtp: true in your config to route through '' @
     ''the target-owned shared-KV MTP path instead of crashing.''"

definition mtp_head_guard_fires :: "'w platform \<Rightarrow> nat \<Rightarrow> 'w orch \<Rightarrow> gen_result option" where
  "mtp_head_guard_fires P d s =
     (case model_ptr P d (world s) of
        None \<Rightarrow> None
      | Some m \<Rightarrow>
          if looks_like_mtp_head (layers_of P m)
          then Some (error_result ENTROPIC_ERROR_SPECULATIVE_INCOMPATIBLE_CONFIG (mtp_head_classical_path_error (layers_of P m)))
          else None)"

text \<open>The result and the chunks given out when a speculative path owns the turn.\<close>

definition try_mtp_route :: "'w platform \<Rightarrow> nat \<Rightarrow> message list \<Rightarrow> gen_params \<Rightarrow> 'w orch \<Rightarrow> (gen_result \<times> string list) \<times> 'w orch" where
  "try_mtp_route P i ms p s =
     (case decode_mtp P i ms p (path (spec_draft (o_config s))) (spec_n_draft (o_config s)) (world s) of (r, w) \<Rightarrow> (r, s\<lparr>world := w\<rparr>))"

definition try_speculative_route_streaming ::
  "'w platform \<Rightarrow> nat \<Rightarrow> message list \<Rightarrow> gen_params \<Rightarrow> string \<Rightarrow> 'w orch \<Rightarrow> (gen_result \<times> string list) option \<times> 'w orch" where
  "try_speculative_route_streaming P i ms p name s =
     (if resolve_mtp_effective s name then (case try_mtp_route P i ms p s of (r, s1) \<Rightarrow> (Some r, s1))
      else if \<not> fst (check_speculative_compat P s) then (None, s)
      else case get_role s ''draft'' of
             None \<Rightarrow> (None, s)
           | Some d \<Rightarrow>
               (case mtp_head_guard_fires P d s of
                  Some r \<Rightarrow> (Some (r, []), s)
                | None \<Rightarrow>
                    (case decode_draft P i d ms p (spec_n_draft (o_config s)) (world s) of (spec, w) \<Rightarrow>
                       (if gr_error_code (fst spec) = ENTROPIC_ERROR_NOT_SUPPORTED then None else Some spec, s\<lparr>world := w\<rparr>))))"

definition try_speculative_route ::
  "'w platform \<Rightarrow> nat \<Rightarrow> message list \<Rightarrow> gen_params \<Rightarrow> string \<Rightarrow> 'w orch \<Rightarrow> gen_result option \<times> 'w orch" where
  "try_speculative_route P i ms p name s =
     (case try_speculative_route_streaming P i ms p name s of (r, s1) \<Rightarrow> (map_option fst r, s1))"

subsection \<open>Generation\<close>

definition run_generate_dispatch :: "'w platform \<Rightarrow> nat \<Rightarrow> message list \<Rightarrow> gen_params \<Rightarrow> string \<Rightarrow> 'w orch \<Rightarrow> gen_result \<times> 'w orch" where
  "run_generate_dispatch P i ms p name s =
     (case (if spec_enabled (o_config s) then try_speculative_route P i ms p name s else (None, s)) of
        (Some r, s1) \<Rightarrow> (r, s1)
      | (None, s1) \<Rightarrow> (case generate (objs s1 i) (decode P i ms p) (world s1) of (r, w) \<Rightarrow> (r, s1\<lparr>world := w\<rparr>)))"

definition resolve_and_stage :: "'w platform \<Rightarrow> nat \<Rightarrow> string \<Rightarrow> gen_params \<Rightarrow> 'w orch \<Rightarrow> gen_params \<times> 'w orch" where
  "resolve_and_stage P i name p s =
     (let p1 = apply_tier_sampler_defaults (cfg_tiers s) name p;
          require = (case Option.bind (cfg_tier s name) tier_require_tool_call of Some b \<Rightarrow> b | None \<Rightarrow> False)
      in (p1, s\<lparr>world := stage_tools P i (gen_tools p1) require (world s)\<rparr>))"

text \<open>\<^const>\<open>None\<close> where the parser throws.\<close>

definition apply_adapter_parse :: "'w platform \<Rightarrow> nat \<Rightarrow> string \<Rightarrow> gen_result \<Rightarrow> 'w orch \<Rightarrow> gen_result option \<times> 'w orch" where
  "apply_adapter_parse P i name r s =
     (if gr_content r = [] then (Some r, s)
      else case parse_model_response (jlib P) (o_ids s) (Some (template_of P i (world s))) (map_option kind (get_adapter s name)) (gr_content r) of
             (parsed, ids) \<Rightarrow>
               (map_option (\<lambda>q. r\<lparr>gr_raw_content := gr_content r, gr_content := out_content q, gr_tool_calls := out_calls q\<rparr>) parsed,
                s\<lparr>o_ids := ids\<rparr>))"

definition kMaxGenerationRecords :: nat where
  "kMaxGenerationRecords = 64"

definition make_generation_record :: "gen_result \<Rightarrow> generation_record" where
  "make_generation_record r = \<lparr>rec_finish_reason = gr_finish_reason r, rec_token_count = gr_token_count r, rec_grammar = gr_grammar r\<rparr>"

definition record_generation :: "'w platform \<Rightarrow> nat \<Rightarrow> gen_params \<Rightarrow> gen_result \<Rightarrow> 'w orch \<Rightarrow> gen_result \<times> 'w orch" where
  "record_generation P i p r s =
     (let r1 = r\<lparr>gr_grammar := describe_grammar p (tool_grammar P i (world s))\<rparr>;
          old = (if length (gen_records s) \<ge> kMaxGenerationRecords then tl (gen_records s) else gen_records s)
      in (r1, s\<lparr>gen_records := old @ [make_generation_record r1]\<rparr>))"

definition finish_generation :: "'w platform \<Rightarrow> nat \<Rightarrow> gen_params \<Rightarrow> string \<Rightarrow> gen_result \<Rightarrow> 'w orch \<Rightarrow> gen_result option \<times> 'w orch" where
  "finish_generation P i p name r s =
     (case apply_adapter_parse P i name r s of
        (None, s1) \<Rightarrow> (None, s1)
      | (Some r1, s1) \<Rightarrow> (case record_generation P i p r1 s1 of (r2, s2) \<Rightarrow> (Some r2, s2)))"

text \<open>The start of a turn: the tier, its grammar, its model, its settings.\<close>

definition prepare_turn ::
  "'w platform \<Rightarrow> message list \<Rightarrow> gen_params \<Rightarrow> string \<Rightarrow> (string \<Rightarrow> 'w orch \<Rightarrow> gen_result \<times> 'w orch) \<Rightarrow> 'w orch \<Rightarrow>
   (gen_result + string \<times> nat \<times> gen_params) \<times> 'w orch" where
  "prepare_turn P ms p name no_model s =
     (let (selected, s1) = (if name = [] then route P ms s else (name, s)) in
      case refuse_unresolved_tier_grammar (cfg_tiers s1) (o_grammars s1) selected p of
        (Some refusal, _) \<Rightarrow> (Inl refusal, s1)
      | (None, p1) \<Rightarrow>
          (case get_model P selected s1 of
             (None, s2) \<Rightarrow> (case no_model selected s2 of (r, s3) \<Rightarrow> (Inl r, s3))
           | (Some i, s2) \<Rightarrow> (case resolve_and_stage P i selected p1 s2 of (p2, s3) \<Rightarrow> (Inr (selected, i, p2), s3))))"

definition orch_generate :: "'w platform \<Rightarrow> message list \<Rightarrow> gen_params \<Rightarrow> string \<Rightarrow> 'w orch \<Rightarrow> gen_result option \<times> 'w orch" where
  "orch_generate P ms p name s =
     (case prepare_turn P ms p name build_no_model_error s of
        (Inl r, s1) \<Rightarrow> (Some r, s1)
      | (Inr (selected, i, p1), s1) \<Rightarrow>
          (case run_generate_dispatch P i ms p1 selected s1 of (r, s2) \<Rightarrow> finish_generation P i p1 selected r s2))"

definition orch_generate_cancellable :: "'w platform \<Rightarrow> message list \<Rightarrow> gen_params \<Rightarrow> string \<Rightarrow> 'w orch \<Rightarrow> gen_result option \<times> 'w orch" where
  "orch_generate_cancellable P ms p name s =
     (case prepare_turn P ms p name build_no_model_error s of
        (Inl r, s1) \<Rightarrow> (Some r, s1)
      | (Inr (selected, i, p1), s1) \<Rightarrow>
          (case generate (objs s1 i) (decode P i ms p1) (world s1) of (r, w) \<Rightarrow> finish_generation P i p1 selected r (s1\<lparr>world := w\<rparr>)))"

text \<open>Streaming has its own error for no model; the chunks of the decode pass the filter of the tier's markers.\<close>

definition no_stream_model :: "string \<Rightarrow> 'w orch \<Rightarrow> gen_result \<times> 'w orch" where
  "no_stream_model name s = (error_result ENTROPIC_ERROR_GENERATE_FAILED (''No model for tier: '' @ name), s)"

definition stream_decode :: "'w platform \<Rightarrow> nat \<Rightarrow> message list \<Rightarrow> gen_params \<Rightarrow> 'w orch \<Rightarrow> (gen_result \<times> string list) \<times> 'w orch" where
  "stream_decode P i ms p s =
     (if \<not> is_active (objs s i) then ((error_result ENTROPIC_ERROR_INVALID_STATE ''generate_streaming() requires ACTIVE state'', []), s)
      else case decode_stream P i ms p (world s) of (r, w) \<Rightarrow> (r, s\<lparr>world := w\<rparr>))"

definition orch_generate_streaming ::
  "'w platform \<Rightarrow> message list \<Rightarrow> gen_params \<Rightarrow> string \<Rightarrow> 'w orch \<Rightarrow> (gen_result option \<times> string list) \<times> 'w orch" where
  "orch_generate_streaming P ms p name s =
     (case prepare_turn P ms p name no_stream_model s of
        (Inl r, s1) \<Rightarrow> ((Some r, []), s1)
      | (Inr (selected, i, p1), s1) \<Rightarrow>
          let markers = (case get_adapter s1 selected of None \<Rightarrow> (''<think>'', ''</think>'') | Some a \<Rightarrow> thinking_markers (kind a));
              ((r, chunks), s2) =
                (case (if spec_enabled (o_config s1) then try_speculative_route_streaming P i ms p1 selected s1 else (None, s1)) of
                   (Some rc, s2) \<Rightarrow> (rc, s2)
                 | (None, s2) \<Rightarrow> stream_decode P i ms p1 s2);
              delivered = out (flush (foldl on_token (new_filter (fst markers) (snd markers)) chunks))
          in case finish_generation P i p1 selected r s2 of (res, s3) \<Rightarrow> ((res, delivered), s3))"

fun stage_batch_arms ::
  "'w platform \<Rightarrow> nat \<Rightarrow> string list \<Rightarrow> string \<Rightarrow> nat \<Rightarrow> gen_params list \<Rightarrow> 'w orch \<Rightarrow> gen_params list \<times> 'w orch" where
  "stage_batch_arms P i arms lead k [] s = ([], s)"
| "stage_batch_arms P i arms lead k (p # ps) s =
     (case resolve_and_stage P i (batch_arm_tier arms k lead) p s of (p1, s1) \<Rightarrow>
        case stage_batch_arms P i arms lead (Suc k) ps s1 of (ps1, s2) \<Rightarrow> (p1 # ps1, s2))"

text \<open>\<^const>\<open>None\<close> where the parser throws, and where there are more results than parameters, which is not defined.\<close>

fun finish_batch ::
  "'w platform \<Rightarrow> nat \<Rightarrow> string list \<Rightarrow> string \<Rightarrow> nat \<Rightarrow> gen_params list \<Rightarrow> gen_result list \<Rightarrow> 'w orch \<Rightarrow> gen_result list option \<times> 'w orch" where
  "finish_batch P i arms lead k ps [] s = (Some [], s)"
| "finish_batch P i arms lead k [] (r # rs) s = (None, s)"
| "finish_batch P i arms lead k (p # ps) (r # rs) s =
     (case finish_generation P i p (batch_arm_tier arms k lead) r s of
        (None, s1) \<Rightarrow> (None, s1)
      | (Some r1, s1) \<Rightarrow>
          (case finish_batch P i arms lead (Suc k) ps rs s1 of (rest, s2) \<Rightarrow> (map_option ((#) r1) rest, s2)))"

definition orch_generate_batch ::
  "'w platform \<Rightarrow> message list list \<Rightarrow> gen_params list \<Rightarrow> string list \<Rightarrow> 'w orch \<Rightarrow> gen_result list option \<times> 'w orch" where
  "orch_generate_batch P mss ps arms s =
     (let n = length mss; lead = (if arms = [] \<or> hd arms = [] then ''default'' else hd arms) in
      case refuse_unresolved_batch_grammars (cfg_tiers s) (o_grammars s) arms lead 0 ps of
        (Some refusal, _) \<Rightarrow> (Some (replicate n refusal), s)
      | (None, resolved) \<Rightarrow>
          (case get_model P lead s of
             (None, s1) \<Rightarrow> (case build_no_model_error lead s1 of (r, s2) \<Rightarrow> (Some (replicate n r), s2))
           | (Some i, s1) \<Rightarrow>
               (case stage_batch_arms P i arms lead 0 resolved s1 of (staged, s2) \<Rightarrow>
                  (case generate_batch (objs s2 i) (decode_batch P i mss staged) (world s2) of (rs, w) \<Rightarrow>
                     finish_batch P i arms lead 0 staged rs (s2\<lparr>world := w\<rparr>)))))"

subsection \<open>Start and end\<close>

fun create_tier_backends :: "'w platform \<Rightarrow> (string \<times> tier_config) list \<Rightarrow> 'w orch \<Rightarrow> bool \<times> 'w orch" where
  "create_tier_backends P [] s = (True, s)"
| "create_tier_backends P ((name, t) # ts) s =
     (if \<not> file_exists P (path t) then (False, s)
      else
        let s1 = (case map_of (model_pool s) (path t) of
                    Some i \<Rightarrow> s
                  | None \<Rightarrow> s\<lparr>model_pool := AList.update (path t) (next_obj s) (model_pool s), objs := (objs s)(next_obj s := new_backend),
                             next_obj := Suc (next_obj s)\<rparr>)
        in create_tier_backends P ts
             (s1\<lparr>bound := AList.update name (the (map_of (model_pool s1) (path t))) (bound s1),
                 o_adapters := AList.update name (create_adapter (adapter t) name []) (o_adapters s1)\<rparr>))"

definition build_routing_tables :: "routing_config \<Rightarrow> 'w orch \<Rightarrow> 'w orch" where
  "build_routing_tables r s =
     s\<lparr>o_tier_map := foldl (\<lambda>m (d, t). AList.update d t m) (o_tier_map s) (tier_map r),
       o_handoffs := foldl (\<lambda>m (d, ts). AList.update d ts m) (o_handoffs s) (handoff_rules r)\<rparr>"

definition activate_default_tier :: "'w platform \<Rightarrow> 'w orch \<Rightarrow> bool \<times> 'w orch" where
  "activate_default_tier P s =
     (if defer_load (o_config s) \<or> map_of (bound s) (default_name s) = None then (True, s)
      else case get_model P (default_name s) s of (m, s1) \<Rightarrow> (m \<noteq> None, s1))"

definition load_bundled_grammars :: "'w platform \<Rightarrow> 'w orch \<Rightarrow> 'w orch" where
  "load_bundled_grammars P s =
     (case config_dir (o_config s) of
        None \<Rightarrow> s
      | Some d \<Rightarrow> s\<lparr>o_grammars := snd (load_bundled (parses_gbnf P) (grammar_dir P (d @ [''grammars''])) (o_grammars s))\<rparr>)"

definition load_grammars_from :: "'w platform \<Rightarrow> fpath \<Rightarrow> 'w orch \<Rightarrow> nat \<times> 'w orch" where
  "load_grammars_from P d s =
     (case load_bundled (parses_gbnf P) (grammar_dir P d) (o_grammars s) of (n, g) \<Rightarrow> (n, s\<lparr>o_grammars := g\<rparr>))"

definition orch_initialize :: "'w platform \<Rightarrow> orch_config \<Rightarrow> 'w orch \<Rightarrow> bool \<times> 'w orch" where
  "orch_initialize P cfg s =
     (let s0 = s\<lparr>o_config := cfg, default_name := default_tier (models cfg)\<rparr>;
          s1 = (if budget_resolves_at_init P cfg then ensure_vram_budget P s0 else s0\<lparr>budget_deferred := True\<rparr>)
      in case create_tier_backends P (tiers (models cfg)) s1 of
           (False, s2) \<Rightarrow> (False, s2)
         | (True, s2) \<Rightarrow>
             (case activate_default_tier P (build_routing_tables (routing cfg) s2) of
                (False, s3) \<Rightarrow> (False, s3)
              | (True, s3) \<Rightarrow>
                  (True, load_bundled_grammars P (if defer_load cfg then s3 else activate_draft P (activate_router P s3)))))"

definition orch_shutdown :: "'w platform \<Rightarrow> 'w orch \<Rightarrow> 'w orch" where
  "orch_shutdown P s = secondary_shutdown P (foldl (\<lambda>s (p, i). unload_if_loaded P i s) s (model_pool s))"

definition clear_all_prompt_caches :: "'w platform \<Rightarrow> 'w orch \<Rightarrow> 'w orch" where
  "clear_all_prompt_caches P s =
     secondary_clear_prompt_caches P (s\<lparr>world := foldl (\<lambda>w (p, i). drop_prompt_cache P i w) (world s) (model_pool s)\<rparr>)"

definition forget_session_kv :: "'w platform \<Rightarrow> string \<Rightarrow> 'w orch \<Rightarrow> 'w orch" where
  "forget_session_kv P key s =
     s\<lparr>world := snd (foldl (\<lambda>(seen, w) (n, i).
         if \<not> backend_loaded s i \<or> i \<in> set seen then (seen, w) else (i # seen, drop_session_kv P i key w)) ([], world s) (bound s))\<rparr>"

subsection \<open>What is reported of memory\<close>

definition tier_footprint_bytes :: "'w platform \<Rightarrow> string \<Rightarrow> 'w orch \<Rightarrow> u64 \<times> 'w orch" where
  "tier_footprint_bytes P name s =
     (case map_of (footprints s) name of
        Some b \<Rightarrow> (b, s)
      | None \<Rightarrow>
          let v = estimate_footprint_bytes P s name
          in (v, if v > 0 then s\<lparr>footprints := AList.update name v (footprints s)\<rparr> else s))"

definition jsize :: "u64 \<Rightarrow> json" where
  "jsize b = JNum (int (unat b))"

definition make_residency_entry :: "'w platform \<Rightarrow> string \<Rightarrow> tier_config \<Rightarrow> u64 \<Rightarrow> int \<Rightarrow> int \<Rightarrow> json" where
  "make_residency_entry P name t fp reserve last_ms =
     JObject [(''footprint_bytes'', jsize fp), (''headroom_bytes'', jsize (of_int reserve * 1024 * 1024)),
       (''kv_cache_bytes'', jsize (of_int (model_config.context_length t) * 16 * 1024)), (''last_activation_ms'', JNum last_ms),
       (''model_path'', JString (path t)), (''tier'', JString name),
       (''weights_bytes'', jsize (case file_bytes P (path t) of None \<Rightarrow> 0 | Some b \<Rightarrow> b))]"

definition resident_tiers :: "'w orch \<Rightarrow> (string \<times> tier_config) list" where
  "resident_tiers s = concat (map (\<lambda>(n, i). if backend_loaded s i then (case cfg_tier s n of None \<Rightarrow> [] | Some t \<Rightarrow> [(n, t)]) else []) (bound s))"

definition shown_footprint :: "'w platform \<Rightarrow> 'w orch \<Rightarrow> string \<Rightarrow> u64" where
  "shown_footprint P s name = (case map_of (footprints s) name of Some b \<Rightarrow> b | None \<Rightarrow> estimate_footprint_bytes P s name)"

definition residency_snapshot :: "'w platform \<Rightarrow> 'w orch \<Rightarrow> json" where
  "residency_snapshot P s =
     (let in_use = foldl (\<lambda>b (n, t). b + shown_footprint P s n) 0 (resident_tiers s)
      in JObject [(''backend'', JString (if budget_deferred s \<and> \<not> budget_resolved s then ''deferred''
                                        else if vram_budget s > 0 then ''configured'' else ''unknown'')),
           (''residency'', JArray (map (\<lambda>(n, t). make_residency_entry P n t (shown_footprint P s n) (cfg_vram_reserve_mb (o_config s))
              (case map_of (last_activation s) n of None \<Rightarrow> 0 | Some ms \<Rightarrow> ms)) (resident_tiers s))),
           (''vram_budget_bytes'', jsize (vram_budget s)),
           (''vram_headroom_bytes'', jsize (if vram_budget s > in_use then vram_budget s - in_use else 0)),
           (''vram_total_bytes'', jsize (vram_budget s))])"

subsection \<open>One active model\<close>

declare map_of_eq_Some_iff [simp del]

text \<open>
  The part of the state residency is about, and its invariant: the backends of the tiers are of the pool, those of the
  secondary roles are not, and a backend of the pool that is active is the main tier's.
\<close>

definition core :: "'w orch \<Rightarrow> (string \<times> nat) list \<times> nat set \<times> string \<times> (nat \<Rightarrow> backend) \<times> nat \<times> nat set" where
  "core s = (bound s, snd ` set (model_pool s), main_tier s, objs s, next_obj s, snd ` set (slots s))"

definition core_inv :: "(string \<times> nat) list \<times> nat set \<times> string \<times> (nat \<Rightarrow> backend) \<times> nat \<times> nat set \<Rightarrow> bool" where
  "core_inv = (\<lambda>(b, pool, main, os, n, sec).
     distinct (map fst b) \<and> map_of b [] = None \<and> snd ` set b \<subseteq> pool \<and> (\<forall>i \<in> pool \<union> sec. i < n) \<and> pool \<inter> sec = {} \<and>
     (\<forall>i \<in> pool. is_active (os i) \<longrightarrow> map_of b main = Some i))"

definition orch_inv :: "'w orch \<Rightarrow> bool" where
  "orch_inv s \<longleftrightarrow> core_inv (core s)"

lemma core_inv_step:
  assumes "core_inv (b, pool, main, os, n, sec)" "\<And>i. i \<in> pool \<Longrightarrow> is_active (os' i) \<Longrightarrow> is_active (os i)"
    "n \<le> n'" "\<And>i. i \<in> sec' \<Longrightarrow> i \<in> sec \<or> n \<le> i \<and> i < n'"
  shows "core_inv (b, pool, main, os', n', sec')"
proof -
  have inv: "\<forall>i \<in> pool. i < n" "\<forall>i \<in> sec. i < n" "pool \<inter> sec = {}" "\<forall>i \<in> pool. is_active (os i) \<longrightarrow> map_of b main = Some i"
    "distinct (map fst b)" "map_of b [] = None" "snd ` set b \<subseteq> pool"
    using assms(1) by (auto simp: core_inv_def)
  have "\<forall>i \<in> pool. i < n'" using inv(1) assms(3) by (meson less_le_trans)
  moreover have "\<forall>i \<in> sec'. i < n'" using inv(2) assms(3,4) by (meson less_le_trans)
  moreover have "pool \<inter> sec' = {}"
  proof (rule Int_emptyI)
    fix i assume "i \<in> pool" "i \<in> sec'"
    then show False using inv(1,3) assms(4) [of i] by fastforce
  qed
  moreover have "\<forall>i \<in> pool. is_active (os' i) \<longrightarrow> map_of b main = Some i" using inv(4) assms(2) by blast
  ultimately show ?thesis using inv(5-7) by (simp add: core_inv_def ball_Un)
qed

lemma orch_inv_active:
  assumes "orch_inv s" "j \<in> snd ` set (model_pool s)" "is_active (objs s j)"
  shows "map_of (bound s) (main_tier s) = Some j" "main_tier s \<noteq> []"
proof -
  have inv: "\<forall>i \<in> snd ` set (model_pool s). is_active (objs s i) \<longrightarrow> map_of (bound s) (main_tier s) = Some i" "map_of (bound s) [] = None"
    using assms(1) unfolding orch_inv_def core_def core_inv_def prod.case by blast+
  show m: "map_of (bound s) (main_tier s) = Some j" using inv(1) assms(2,3) by blast
  show "main_tier s \<noteq> []" using m inv(2) by (metis option.distinct(1))
qed

lemma orch_inv_bound:
  assumes "orch_inv s" "map_of (bound s) name = Some i"
  shows "i \<in> snd ` set (model_pool s)"
proof -
  have "snd ` set (bound s) \<subseteq> snd ` set (model_pool s)" using assms(1) by (simp add: orch_inv_def core_def core_inv_def)
  moreover have "i \<in> snd ` set (bound s)" using map_of_SomeD [OF assms(2)] by (metis image_eqI snd_conv)
  ultimately show ?thesis by blast
qed

text \<open>What changes nothing of it.\<close>

lemma core_frame [simp]:
  "core (s\<lparr>world := w\<rparr>) = core s" "core (s\<lparr>o_lora := l\<rparr>) = core s" "core (s\<lparr>o_ids := ids\<rparr>) = core s"
  "core (s\<lparr>gen_records := rs\<rparr>) = core s" "core (s\<lparr>last_routing := r\<rparr>) = core s" "core (s\<lparr>tier_history := h\<rparr>) = core s"
  "core (s\<lparr>last_activation := la\<rparr>) = core s" "core (s\<lparr>footprints := fp\<rparr>) = core s" "core (s\<lparr>announced := a\<rparr>) = core s"
  "core (s\<lparr>residency_error := e\<rparr>) = core s" "core (s\<lparr>residency_message := m\<rparr>) = core s" "core (s\<lparr>o_config := c\<rparr>) = core s"
  "core (s\<lparr>o_grammars := g\<rparr>) = core s" "core (s\<lparr>slot_paths := sp\<rparr>) = core s"
  "core (s\<lparr>vram_budget := vb\<rparr>) = core s" "core (s\<lparr>budget_resolved := br\<rparr>) = core s" "core (s\<lparr>budget_deferred := bd\<rparr>) = core s"
  "core (s\<lparr>o_tier_map := tm\<rparr>) = core s" "core (s\<lparr>o_handoffs := hs\<rparr>) = core s" "core (s\<lparr>default_name := d\<rparr>) = core s"
  "core (s\<lparr>o_adapters := ads\<rparr>) = core s"
  by (simp_all add: core_def)

lemma core_observer [simp]: "core (fire_residency_observer e t p fp s) = core s"
  by (simp add: fire_residency_observer_def)

lemma core_memory [simp]:
  "core (ensure_vram_budget P s) = core s"
  "core (set_cfg_tier name t s) = core s"
  "core (resolve_auto_gpu_layers P name s) = core s"
  "core (refuse_residency name e why s) = core s"
  "core (set_swap_action a s) = core s"
  by (simp_all add: ensure_vram_budget_def set_cfg_tier_def resolve_auto_gpu_layers_def fall_back_to_weights_estimate_def
      refuse_residency_def set_swap_action_def Let_def split: option.splits)

lemma core_config_admits [simp]: "core (snd (config_admits P name s)) = core s"
  by (simp add: config_admits_def Let_def split: option.splits)

lemma core_residency_admits [simp]: "core (snd (residency_admits P name s)) = core s"
  using core_config_admits [of P name "resolve_auto_gpu_layers P name (ensure_vram_budget P s)"]
  by (auto simp: residency_admits_def Let_def simp del: core_config_admits split: prod.splits bool.splits)

lemma core_lora [simp]:
  "core (preload_adapters_for_model P i s) = core s"
  "core (ensure_adapter_for_tier P name ctx s) = core s"
  "core (ensure_tier_lora P name i s) = core s"
  by (simp_all add: preload_adapters_for_model_def ensure_adapter_for_tier_def ensure_tier_lora_def Let_def split: option.splits prod.splits)

lemma core_eqD:
  assumes "core s = core s'"
  shows "bound s = bound s'" "main_tier s = main_tier s'" "objs s = objs s'" "next_obj s = next_obj s'"
    "snd ` set (model_pool s) = snd ` set (model_pool s')" "snd ` set (slots s) = snd ` set (slots s')"
  using assms by (simp_all add: core_def)

text \<open>A backend that is loaded to activity is active exactly when that succeeded.\<close>

lemma load_and_activate_active: "load_and_activate v cfg b w = (ok, b', w') \<Longrightarrow> is_active b' = ok"
  by (cases "b_state b")
    (auto simp: load_and_activate_def promote_to_active_def fire_model_load_hook_def is_active_def split: prod.splits if_splits option.splits)

lemma load_active_backend_core:
  assumes "load_active_backend P i cfg s = (ok, s')"
  shows "core s' = (bound s, snd ` set (model_pool s), main_tier s, (objs s)(i := objs s' i), next_obj s, snd ` set (slots s))"
    "is_active (objs s' i) = ok" "o_config s' = o_config s" "slots s' = slots s"
  using assms by (auto simp: load_active_backend_def on_backend_def core_def dest: load_and_activate_active split: prod.splits)

lemma unload_backend_core:
  "core (unload_backend P i s) = (bound s, snd ` set (model_pool s), main_tier s, (objs s)(i := (objs s i)\<lparr>b_state := COLD\<rparr>), next_obj s, snd ` set (slots s))"
  by (simp add: unload_backend_def on_backend_def unload_def core_def Let_def)

lemma deactivate_backend_core:
  "\<exists>b. \<not> is_active b \<and>
     core (deactivate_backend P i s) = (bound s, snd ` set (model_pool s), main_tier s, (objs s)(i := b), next_obj s, snd ` set (slots s))"
  by (rule exI [of _ "objs (deactivate_backend P i s) i"])
    (auto simp: deactivate_backend_def on_backend_def deactivate_def core_def is_active_def)

lemma destroy_backend_core:
  "core (destroy_backend P i s) = (bound s, snd ` set (model_pool s), main_tier s, (objs s)(i := new_backend), next_obj s, snd ` set (slots s))"
  by (simp add: destroy_backend_def core_def)

lemma inactive_simps [simp]: "\<not> is_active new_backend" "\<not> is_active (b\<lparr>b_state := COLD\<rparr>)"
  by (simp_all add: is_active_def new_backend_def)

text \<open>Turning a backend off.\<close>

lemma inv_off:
  assumes "orch_inv s" "core s' = (bound s, snd ` set (model_pool s), main_tier s, (objs s)(i := b), next_obj s, snd ` set (slots s))" "\<not> is_active b"
  shows "orch_inv s'"
  unfolding orch_inv_def assms(2)
  by (rule core_inv_step [where os = "objs s" and n = "next_obj s" and sec = "snd ` set (slots s)"])
    (use assms in \<open>auto simp: orch_inv_def core_def split: if_splits\<close>)

lemma inv_unload_destroy:
  assumes "orch_inv s"
  shows inv_unload: "orch_inv (unload_backend P i s)" and inv_destroy: "orch_inv (destroy_backend P i s)"
    and inv_unload_if_loaded: "orch_inv (unload_if_loaded P i s)"
  using inv_off [OF assms unload_backend_core] inv_off [OF assms destroy_backend_core] assms by (simp_all add: unload_if_loaded_def)

subsection \<open>Secondary roles\<close>

lemma inv_slots:
  assumes "orch_inv s" "snd ` set sl \<subseteq> snd ` set (slots s)"
  shows "orch_inv (s\<lparr>slots := sl\<rparr>)"
  unfolding orch_inv_def core_def
  by (rule core_inv_step [where os = "objs s" and n = "next_obj s" and sec = "snd ` set (slots s)"])
    (use assms in \<open>auto simp: orch_inv_def core_def\<close>)

lemma set_delete: "set (AList.delete k xs) \<subseteq> set xs"
  by (simp add: AList.delete_eq)

lemma snd_set_update: "snd ` set (AList.update k v xs) \<subseteq> insert v (snd ` set xs)"
  by (induction xs) auto

lemma ensure_loaded_inv:
  assumes "orch_inv s" "ensure_loaded P r cfg s = (ok, s')"
  shows "orch_inv s' \<and> bound s' = bound s \<and> main_tier s' = main_tier s \<and> snd ` set (model_pool s') = snd ` set (model_pool s) \<and>
    (\<forall>i \<in> snd ` set (model_pool s). objs s' i = objs s i)"
proof (cases "map_of (slot_paths s) r = Some (path cfg) \<and> (case map_of (slots s) r of None \<Rightarrow> False | Some i \<Rightarrow> backend_loaded s i)")
  case True
  then show ?thesis using assms by (auto simp: ensure_loaded_def)
next
  case False
  let ?i = "next_obj s" and ?s0 = "s\<lparr>next_obj := Suc (next_obj s), objs := (objs s)(next_obj s := new_backend)\<rparr>"
  obtain okl s1 where l: "load_active_backend P ?i cfg ?s0 = (okl, s1)" by fastforce
  obtain x where c1: "bound s1 = bound s" "snd ` set (model_pool s1) = snd ` set (model_pool s)" "main_tier s1 = main_tier s"
    "objs s1 = (objs s)(?i := x)" "next_obj s1 = Suc ?i" "slots s1 = slots s"
    using load_active_backend_core(1,4) [OF l] by (simp add: core_def) metis
  have fresh: "?i \<notin> snd ` set (model_pool s)" "\<And>old. old \<in> snd ` set (slots s) \<Longrightarrow> old \<notin> snd ` set (model_pool s)"
    using assms(1) by (auto simp: orch_inv_def core_def core_inv_def)
  have inv: "core_inv (bound s, snd ` set (model_pool s), main_tier s, os, Suc ?i, sec)"
    if "\<And>i. i \<in> snd ` set (model_pool s) \<Longrightarrow> os i = objs s i" "sec \<subseteq> insert ?i (snd ` set (slots s))" for os sec
    by (rule core_inv_step [where os = "objs s" and n = ?i and sec = "snd ` set (slots s)"])
      (use assms(1) that in \<open>auto simp: orch_inv_def core_def\<close>)
  show ?thesis
  proof (cases okl)
    case no: False
    then have s': "s' = destroy_backend P ?i s1" using assms(2) False l by (simp add: ensure_loaded_def Let_def split: if_splits)
    have same: "((objs s)(?i := new_backend)) i = objs s i" if "i \<in> snd ` set (model_pool s)" for i
      using that fresh(1) by (cases "i = ?i") simp_all
    show ?thesis using inv [of "(objs s)(?i := new_backend)" "snd ` set (slots s)", OF same subset_insertI] same
      by (simp add: s' orch_inv_def core_def destroy_backend_def c1)
  next
    case yes: True
    define s2 where "s2 = (case map_of (slots s1) r of None \<Rightarrow> s1 | Some old \<Rightarrow> destroy_backend P old s1)"
    have s': "s' = s2\<lparr>slots := AList.update r ?i (slots s2), slot_paths := AList.update r (path cfg) (slot_paths s2)\<rparr>"
      using assms(2) False l yes by (simp add: ensure_loaded_def Let_def s2_def split: if_splits)
    have old: "old \<notin> snd ` set (model_pool s)" if "map_of (slots s1) r = Some old" for old
      using map_of_SomeD [OF that] fresh(2) [of old] by (force simp: c1)
    have c2: "bound s2 = bound s" "snd ` set (model_pool s2) = snd ` set (model_pool s)" "main_tier s2 = main_tier s" "next_obj s2 = Suc ?i"
      "slots s2 = slots s"
      using c1 by (simp_all add: s2_def destroy_backend_def split: option.splits)
    have same: "objs s2 i = objs s i" if "i \<in> snd ` set (model_pool s)" for i
    proof -
      have "i \<noteq> ?i" "map_of (slots s1) r \<noteq> Some i" using that old fresh(1) by metis+
      then show ?thesis by (simp add: s2_def destroy_backend_def c1(4) split: option.splits)
    qed
    show ?thesis using inv [of "objs s2" "snd ` set (AList.update r ?i (slots s2))"] c2 same snd_set_update [of r ?i "slots s2"]
      by (simp add: s' orch_inv_def core_def)
  qed
qed

lemma activate_router_draft_inv:
  assumes "orch_inv s"
  shows "orch_inv (activate_router P s)" "orch_inv (activate_draft P s)"
proof -
  have "orch_inv (snd (ensure_loaded P r cfg s))" for r cfg
    using ensure_loaded_inv [OF assms, of P r cfg "fst (ensure_loaded P r cfg s)" "snd (ensure_loaded P r cfg s)"] by simp
  then show "orch_inv (activate_router P s)" "orch_inv (activate_draft P s)"
    using assms by (simp_all add: activate_router_def activate_draft_def Let_def split: option.splits)
qed

lemma secondary_shutdown_inv:
  assumes "orch_inv s"
  shows "orch_inv (secondary_shutdown P s)"
proof -
  have u: "orch_inv (foldl (\<lambda>s (r, i). unload_if_loaded P i s) s xs)" if "orch_inv s" for s :: "'a orch" and xs :: "(string \<times> nat) list"
    using that by (induction xs arbitrary: s) (auto simp: inv_unload_if_loaded split: prod.splits)
  have d: "orch_inv (foldl (\<lambda>s (r, i). destroy_backend P i s) s xs)" if "orch_inv s" for s :: "'a orch" and xs :: "(string \<times> nat) list"
    using that by (induction xs arbitrary: s) (auto simp: inv_destroy split: prod.splits)
  show ?thesis using inv_slots [OF d [OF u [OF assms]], of "[]"]
    by (simp add: secondary_shutdown_def Let_def) (simp add: orch_inv_def core_def)
qed

lemma release_role_inv:
  assumes "orch_inv s"
  shows "orch_inv (snd (release_role P r s))"
proof (cases "map_of (slots s) r")
  case (Some i)
  let ?s = "destroy_backend P i (unload_if_loaded P i s)"
  have "snd ` set (AList.delete r (slots ?s)) \<subseteq> snd ` set (slots ?s)" by (rule image_mono [OF set_delete])
  from inv_slots [OF inv_destroy [OF inv_unload_if_loaded [OF assms]] this]
  show ?thesis by (simp add: release_role_def Some Let_def orch_inv_def core_def)
qed (use assms in \<open>simp add: release_role_def\<close>)

subsection \<open>The main models\<close>

text \<open>After the current model is put away, none of the pool but the incoming one can be active.\<close>

lemma deactivate_current_off:
  assumes "orch_inv s"
  shows "orch_inv (deactivate_current_if_needed P i s)" "bound (deactivate_current_if_needed P i s) = bound s"
    "snd ` set (model_pool (deactivate_current_if_needed P i s)) = snd ` set (model_pool s)"
    "\<And>j. j \<in> snd ` set (model_pool s) \<Longrightarrow> is_active (objs (deactivate_current_if_needed P i s) j) \<Longrightarrow> j = i"
proof -
  let ?d = "deactivate_current_if_needed P i s"
  have active: "main_tier s \<noteq> [] \<and> map_of (bound s) (main_tier s) = Some j" if "j \<in> snd ` set (model_pool s)" "is_active (objs s j)" for j
    using orch_inv_active [OF assms that] by simp
  have "orch_inv ?d \<and> bound ?d = bound s \<and> snd ` set (model_pool ?d) = snd ` set (model_pool s) \<and>
    (\<forall>j \<in> snd ` set (model_pool s). is_active (objs ?d j) \<longrightarrow> j = i)"
  proof (cases "if main_tier s = [] then None else map_of (bound s) (main_tier s)")
    case None
    then show ?thesis using assms active by (fastforce simp: deactivate_current_if_needed_def)
  next
    case (Some k)
    show ?thesis
    proof (cases "k = i \<or> \<not> backend_loaded s k")
      case True
      then have "?d = s" using Some by (auto simp: deactivate_current_if_needed_def)
      moreover have "j = i" if "j \<in> snd ` set (model_pool s)" "is_active (objs s j)" for j
        using active [OF that] Some True that(2) by (auto simp: backend_loaded_def is_loaded_def is_active_def)
      ultimately show ?thesis using assms by simp
    next
      case False
      let ?s = "s\<lparr>o_lora := unload_all_for_model (model_ptr P k (world s)) (context_ptr P k (world s)) (o_lora s)\<rparr>"
      have d: "?d = unload_or_warm_current P k ?s" using Some False by (simp add: deactivate_current_if_needed_def)
      obtain b where b: "\<not> is_active b"
        "core ?d = (bound s, snd ` set (model_pool s), main_tier s, (objs s)(k := b), next_obj s, snd ` set (slots s))"
      proof -
        obtain b where "\<not> is_active b" "core (deactivate_backend P k ?s) =
            (bound s, snd ` set (model_pool s), main_tier s, (objs s)(k := b), next_obj s, snd ` set (slots s))"
          using deactivate_backend_core [of P k ?s] by auto
        note warm = this
        show thesis
        proof (cases "case cfg_tier ?s (main_tier ?s) of None \<Rightarrow> False | Some t \<Rightarrow> keep_warm t")
          case True
          then have "?d = deactivate_backend P k ?s" by (simp only: d unload_or_warm_current_def if_True)
          then show thesis using warm that by simp
        next
          case False
          then have "core ?d = core (unload_backend P k ?s)" by (simp only: d unload_or_warm_current_def if_False core_observer)
          then show thesis using that [of "(objs s k)\<lparr>b_state := COLD\<rparr>"] unload_backend_core [of P k ?s] by simp
        qed
      qed
      have "j = i" if "j \<in> snd ` set (model_pool s)" "is_active (objs ?d j)" for j
        using active [OF that(1)] that(2) b Some by (auto simp: core_def split: if_splits)
      then show ?thesis using inv_off [OF assms b(2,1)] b(2) by (simp add: core_def)
    qed
  qed
  then show "orch_inv ?d" "bound ?d = bound s" "snd ` set (model_pool ?d) = snd ` set (model_pool s)"
    "\<And>j. j \<in> snd ` set (model_pool s) \<Longrightarrow> is_active (objs ?d j) \<Longrightarrow> j = i" by blast+
qed

lemma inv_main:
  assumes "orch_inv s" "map_of (bound s) name = Some i" "\<And>j. j \<in> snd ` set (model_pool s) \<Longrightarrow> is_active (objs s j) \<Longrightarrow> j = i"
  shows "orch_inv (s\<lparr>main_tier := name\<rparr>)"
  using assms by (auto simp: orch_inv_def core_def core_inv_def)

lemma orch_inv_core: "core s = core s' \<Longrightarrow> orch_inv s \<Longrightarrow> orch_inv s'"
  by (simp add: orch_inv_def)

text \<open>The part of the state the main models are in, which the secondary roles leave alone.\<close>

definition main_same :: "'w orch \<Rightarrow> 'w orch \<Rightarrow> bool" where
  "main_same s s' \<longleftrightarrow> bound s' = bound s \<and> main_tier s' = main_tier s \<and> snd ` set (model_pool s') = snd ` set (model_pool s) \<and>
     (\<forall>i \<in> snd ` set (model_pool s). objs s' i = objs s i)"

lemma main_same_refl [simp]: "main_same s s"
  by (simp add: main_same_def)

lemma main_same_trans: "main_same s s' \<Longrightarrow> main_same s' s'' \<Longrightarrow> main_same s s''"
  by (simp add: main_same_def)

lemma ensure_loaded_main: "orch_inv s \<Longrightarrow> orch_inv (snd (ensure_loaded P r cfg s)) \<and> main_same s (snd (ensure_loaded P r cfg s))"
  using ensure_loaded_inv [of s P r cfg "fst (ensure_loaded P r cfg s)" "snd (ensure_loaded P r cfg s)"] by (simp add: main_same_def)

lemma ensure_secondary_roles_main:
  assumes "orch_inv s"
  shows "orch_inv (ensure_secondary_roles P s)" "main_same s (ensure_secondary_roles P s)"
proof -
  have r: "orch_inv (activate_router P t) \<and> main_same t (activate_router P t)" if "orch_inv t" for t :: "'a orch"
    using that ensure_loaded_main [OF that] by (simp add: activate_router_def split: option.splits)
  have d: "orch_inv (activate_draft P t) \<and> main_same t (activate_draft P t)" if "orch_inv t" for t :: "'a orch"
    using that ensure_loaded_main [OF that] by (simp add: activate_draft_def Let_def)
  show "orch_inv (ensure_secondary_roles P s)" "main_same s (ensure_secondary_roles P s)"
    using r [OF assms] d [of "activate_router P s"] main_same_trans by (auto simp: ensure_secondary_roles_def)
qed

lemma record_activation_reuse_inv:
  assumes "orch_inv s" "map_of (bound s) name = Some i" "i \<in> snd ` set (model_pool s)" "is_active (objs s i)"
  shows "orch_inv (record_activation_reuse P name s)" "main_tier (record_activation_reuse P name s) = name"
    "bound (record_activation_reuse P name s) = bound s" "objs (record_activation_reuse P name s) = objs s"
    "model_pool (record_activation_reuse P name s) = model_pool s"
proof -
  have one: "j = i" if "j \<in> snd ` set (model_pool s)" "is_active (objs s j)" for j
    using orch_inv_active [OF assms(1) that] orch_inv_active [OF assms(1,3,4)] by simp
  have m: "orch_inv (s\<lparr>main_tier := name\<rparr>)" by (rule inv_main [OF assms(1,2) one])
  have c: "core (record_activation_reuse P name s) = core (s\<lparr>main_tier := name\<rparr>)"
    by (simp add: record_activation_reuse_def Let_def) (simp add: core_def)
  show "orch_inv (record_activation_reuse P name s)" using m c by (simp add: orch_inv_def)
  show "main_tier (record_activation_reuse P name s) = name" "bound (record_activation_reuse P name s) = bound s"
    "objs (record_activation_reuse P name s) = objs s" "model_pool (record_activation_reuse P name s) = model_pool s"
    by (simp_all add: record_activation_reuse_def Let_def fire_residency_observer_def)
qed

lemma activate_and_track_inv:
  assumes "orch_inv s" "map_of (bound s) name = Some i" "\<And>j. j \<in> snd ` set (model_pool s) \<Longrightarrow> is_active (objs s j) \<Longrightarrow> j = i"
    "activate_and_track P name i s = (m, s')"
  shows "orch_inv s' \<and> bound s' = bound s \<and> snd ` set (model_pool s') = snd ` set (model_pool s) \<and>
    (m = None \<or> m = Some i \<and> is_active (objs s' i) \<and> main_tier s' = name)"
proof (cases "cfg_tier s name")
  case None
  then show ?thesis using assms by (simp add: activate_and_track_def)
next
  case (Some t)
  obtain okl s1 where l: "load_active_backend P i (model_config.truncate t) s = (okl, s1)" by fastforce
  note c1 = load_active_backend_core [OF l]
  have ipool: "i \<in> snd ` set (model_pool s)"
    by (rule orch_inv_bound [OF assms(1,2)])
  have only: "j = i" if "j \<in> snd ` set (model_pool s)" "is_active (objs s1 j)" for j
  proof (rule ccontr)
    assume "j \<noteq> i"
    then have "is_active (objs s j)" using c1(1) that(2) unfolding core_def by (metis fun_upd_other prod.inject)
    then show False using assms(3) [OF that(1)] \<open>j \<noteq> i\<close> by simp
  qed
  show ?thesis
  proof (cases okl)
    case False
    then have "m = None" "s' = s1" using assms(4) by (simp_all add: activate_and_track_def Some l)
    moreover have "orch_inv s1" using inv_off [OF assms(1) c1(1)] c1(2) False by simp
    ultimately show ?thesis using c1(1) by (simp add: core_def)
  next
    case True
    have inv1: "orch_inv (s1\<lparr>main_tier := name\<rparr>)"
      using assms(1,2) c1(1) only by (auto simp: orch_inv_def core_def core_inv_def)
    have s': "m = Some i" "core s' = core (s1\<lparr>main_tier := name\<rparr>)"
      using assms(4) True by (auto simp: activate_and_track_def Some l Let_def)
    then show ?thesis using inv1 c1 True by (simp add: orch_inv_def core_def)
  qed
qed

lemma effective_tier_bound: "effective_tier s name = Some (eff, i) \<Longrightarrow> map_of (bound s) eff = Some i"
  by (auto simp: effective_tier_def split: option.splits)

lemma get_model_inv:
  assumes "orch_inv s" "get_model P name s = (m, s')"
  shows "orch_inv s'" "bound s' = bound s" "snd ` set (model_pool s') = snd ` set (model_pool s)"
    "\<And>i. m = Some i \<Longrightarrow> i \<in> snd ` set (model_pool s) \<and> is_active (objs s' i) \<and> effective_tier s name = Some (main_tier s', i)"
proof -
  have "orch_inv s' \<and> bound s' = bound s \<and> snd ` set (model_pool s') = snd ` set (model_pool s) \<and>
    (\<forall>i. m = Some i \<longrightarrow> i \<in> snd ` set (model_pool s) \<and> is_active (objs s' i) \<and> effective_tier s name = Some (main_tier s', i))"
  proof (cases "effective_tier s name")
    case None
    then show ?thesis using assms by (simp add: get_model_def)
  next
    case (Some ei)
    obtain eff i where e: "effective_tier s name = Some (eff, i)" using Some by (cases ei) simp
    note b = effective_tier_bound [OF e]
    have ipool: "i \<in> snd ` set (model_pool s)"
      by (rule orch_inv_bound [OF assms(1) b])
    define rs where "rs = (if backend_active s i then (Some i, record_activation_reuse P eff (set_swap_action ''reused'' s))
       else case residency_admits P eff s of
              (False, s1) \<Rightarrow> (None, s1)
            | (True, s1) \<Rightarrow> activate_and_track P eff i (deactivate_current_if_needed P i s1))"
    obtain r s1 where r: "rs = (r, s1)" by fastforce
    have first: "orch_inv s1 \<and> bound s1 = bound s \<and> snd ` set (model_pool s1) = snd ` set (model_pool s) \<and>
        (r = None \<or> r = Some i \<and> is_active (objs s1 i) \<and> main_tier s1 = eff)"
    proof (cases "backend_active s i")
      case True
      have c: "core (set_swap_action ''reused'' s) = core s" by simp
      show ?thesis
        using record_activation_reuse_inv [of "set_swap_action ''reused'' s" eff i P] assms(1) b ipool True r core_eqD [OF c]
        by (simp add: rs_def orch_inv_def backend_active_def)
    next
      case False
      obtain ok sa where a: "residency_admits P eff s = (ok, sa)" by fastforce
      have ca: "core sa = core s" using core_residency_admits [of P eff s] a by simp
      have inva: "orch_inv sa" using ca assms(1) by (simp add: orch_inv_def)
      note d = deactivate_current_off [OF inva, where P = P and i = i]
      show ?thesis
      proof (cases ok)
        case True
        have t: "activate_and_track P eff i (deactivate_current_if_needed P i sa) = (r, s1)" using r False True by (simp add: rs_def a)
        have bd: "map_of (bound (deactivate_current_if_needed P i sa)) eff = Some i" using b d(2) core_eqD(1) [OF ca] by simp
        have "orch_inv s1 \<and> bound s1 = bound (deactivate_current_if_needed P i sa) \<and>
            snd ` set (model_pool s1) = snd ` set (model_pool (deactivate_current_if_needed P i sa)) \<and>
            (r = None \<or> r = Some i \<and> is_active (objs s1 i) \<and> main_tier s1 = eff)"
          by (rule activate_and_track_inv [OF d(1) bd _ t]) (use d(3,4) in simp)
        then show ?thesis using d(2,3) core_eqD [OF ca] by simp
      next
        case no: False
        then show ?thesis using r False inva core_eqD [OF ca] by (simp add: rs_def a)
      qed
    qed
    have g: "get_model P name s = (case r of None \<Rightarrow> (None, s1) | Some i \<Rightarrow> (Some i, ensure_secondary_roles P (ensure_tier_lora P name i s1)))"
      using r by (simp add: get_model_def e Let_def rs_def)
    show ?thesis
    proof (cases r)
      case None
      then show ?thesis using g assms(2) first by simp
    next
      case (Some k)
      let ?l = "ensure_tier_lora P name i s1"
      have k: "k = i" using first Some by simp
      have cl: "core ?l = core s1" by simp
      have il: "orch_inv ?l" using first cl by (simp add: orch_inv_def)
      have s': "m = Some i" "s' = ensure_secondary_roles P ?l" using g assms(2) Some k by simp_all
      note sec = ensure_secondary_roles_main [OF il, of P]
      have ms: "main_same ?l s'" using sec(2) s'(2) by simp
      have "i \<in> snd ` set (model_pool ?l)" using ipool first core_eqD(5) [OF cl] by simp
      then have "objs s' i = objs s1 i" using ms core_eqD(3) [OF cl] unfolding main_same_def by metis
      then show ?thesis using ms sec(1) s' first Some k core_eqD [OF cl] ipool e by (simp add: main_same_def)
    qed
  qed
  then show "orch_inv s'" "bound s' = bound s" "snd ` set (model_pool s') = snd ` set (model_pool s)"
    "\<And>i. m = Some i \<Longrightarrow> i \<in> snd ` set (model_pool s) \<and> is_active (objs s' i) \<and> effective_tier s name = Some (main_tier s', i)" by blast+
qed

subsection \<open>Releasing\<close>

text \<open>What an eviction clears of the main tier is the name of a backend that is off.\<close>

lemma announce_core:
  "core (foldl (\<lambda>s (name, j).
        if j \<noteq> i then s
        else fire_residency_observer Evicted name (tier_path s name) (known_footprint s name)
               (if main_tier s = name then s\<lparr>main_tier := []\<rparr> else s)) s xs) =
   core (s\<lparr>main_tier := (if (main_tier s, i) \<in> set xs then [] else main_tier s)\<rparr>) \<or> ([], i) \<in> set xs"
proof (induction xs arbitrary: s)
  case Nil
  show ?case by simp
next
  case (Cons x xs)
  obtain name j where x: "x = (name, j)" by fastforce
  define s' where "s' = (if j \<noteq> i then s
     else fire_residency_observer Evicted name (tier_path s name) (known_footprint s name)
            (if main_tier s = name then s\<lparr>main_tier := []\<rparr> else s))"
  have m: "core s' = core (s\<lparr>main_tier := main_tier s'\<rparr>)" "main_tier s' = (if j = i \<and> main_tier s = name then [] else main_tier s)"
    by (auto simp: s'_def fire_residency_observer_def core_def)
  have c: "core (s'\<lparr>main_tier := mt\<rparr>) = core (s\<lparr>main_tier := mt\<rparr>)" for mt
    using m(1) by (simp add: core_def)
  let ?F = "\<lambda>s (name, j).
        if j \<noteq> i then s
        else fire_residency_observer Evicted name (tier_path s name) (known_footprint s name)
               (if main_tier s = name then s\<lparr>main_tier := []\<rparr> else s)"
  have f: "foldl ?F s (x # xs) = foldl ?F s' xs" by (simp add: x s'_def)
  have ih: "core (foldl ?F s' xs) =
      core (s\<lparr>main_tier := (if (main_tier s', i) \<in> set xs then [] else main_tier s')\<rparr>) \<or> ([], i) \<in> set xs"
    using Cons.IH [of s'] c by simp
  show ?case unfolding f using ih m(2) by (cases "j = i \<and> main_tier s = name") (auto simp: x)
qed

lemma release_backend_inv:
  assumes "orch_inv s"
  shows "orch_inv (release_backend P i s)" "bound (release_backend P i s) = bound s"
proof -
  let ?l = "s\<lparr>o_lora := release_handles_for_model (model_ptr P i (world s)) (context_ptr P i (world s)) (o_lora s)\<rparr>"
  let ?u = "unload_backend P i ?l"
  have cl: "core ?l = core s" by simp
  have u: "orch_inv ?u" using inv_unload [of ?l P i] assms by (simp add: orch_inv_def)
  have cu: "core ?u = (bound s, snd ` set (model_pool s), main_tier s, (objs s)(i := (objs s i)\<lparr>b_state := COLD\<rparr>), next_obj s, snd ` set (slots s))"
    using unload_backend_core [of P i ?l] by simp
  have nonempty: "([], i) \<notin> set (bound ?u)"
  proof
    assume "([], i) \<in> set (bound ?u)"
    moreover have "distinct (map fst (bound ?u))" "map_of (bound ?u) [] = None" using u unfolding orch_inv_def core_def core_inv_def prod.case by blast+
    ultimately show False by (simp add: map_of_eq_None_iff)
  qed
  define a where "a = announce_eviction i ?u"
  have ca: "core a = core (?u\<lparr>main_tier := (if (main_tier ?u, i) \<in> set (bound ?u) then [] else main_tier ?u)\<rparr>)"
    using announce_core [of i ?u "bound ?u"] nonempty by (simp add: a_def announce_eviction_def)
  have inva: "orch_inv a"
  proof (cases "(main_tier ?u, i) \<in> set (bound ?u)")
    case False
    then show ?thesis using ca u by (simp add: orch_inv_def)
  next
    case True
    have d: "distinct (map fst (bound ?u))" using u unfolding orch_inv_def core_def core_inv_def prod.case by blast
    have off: "\<not> is_active (objs ?u j)" if "j \<in> snd ` set (model_pool ?u)" for j
    proof
      assume on: "is_active (objs ?u j)"
      have "map_of (bound ?u) (main_tier ?u) = Some j" by (rule orch_inv_active [OF u that on])
      moreover have "map_of (bound ?u) (main_tier ?u) = Some i" using True d by (simp add: map_of_eq_Some_iff)
      ultimately have "j = i" by simp
      then show False using on cu by (simp add: core_def)
    qed
    show ?thesis using ca True u off unfolding orch_inv_def core_def core_inv_def by simp
  qed
  have r: "release_backend P i s = (if \<not> backend_loaded s i then s else a)" by (simp add: release_backend_def a_def)
  show "orch_inv (release_backend P i s)" using r inva assms by simp
  have "bound a = bound s" using ca cu by (simp add: core_def)
  then show "bound (release_backend P i s) = bound s" using r by simp
qed

lemma release_all_inv:
  assumes "orch_inv s"
  shows "orch_inv (snd (foldl (\<lambda>(seen, s) (n, i). if i \<in> set seen then (seen, s) else (i # seen, release_backend P i s)) (seen, s) xs))"
  using assms by (induction xs arbitrary: seen s) (auto simp: release_backend_inv(1) split: prod.splits)

lemma release_models_inv:
  assumes "orch_inv s"
  shows "orch_inv (snd (release_models P name s))"
  using release_backend_inv(1) [OF assms, of P] secondary_shutdown_inv [OF release_all_inv [OF assms, of P "[]" "bound s"], of P] assms
  by (simp add: release_models_def split: option.splits)

lemma orch_shutdown_inv:
  assumes "orch_inv s"
  shows "orch_inv (orch_shutdown P s)"
proof -
  have "orch_inv (foldl (\<lambda>s (p, i). unload_if_loaded P i s) s xs)" for xs :: "(string \<times> nat) list"
    using assms by (induction xs arbitrary: s) (auto simp: inv_unload_if_loaded split: prod.splits)
  then show ?thesis unfolding orch_shutdown_def by (rule secondary_shutdown_inv)
qed

subsection \<open>Turns\<close>

lemma route_inv:
  assumes "orch_inv s"
  shows "orch_inv (snd (classify_task P ms s))" "orch_inv (snd (route P ms s))"
proof -
  have r: "orch_inv (activate_router P s)" by (rule activate_router_draft_inv(1) [OF assms])
  show c: "orch_inv (snd (classify_task P ms s))"
    using r by (simp add: classify_task_def Let_def orch_inv_def split: option.splits prod.splits)
  show "orch_inv (snd (route P ms s))"
    using c assms by (cases "classify_task P ms s") (auto simp: route_def Let_def orch_inv_def split: prod.splits)
qed

lemma core_turn [simp]:
  "core (snd (try_mtp_route P i ms p s)) = core s"
  "core (snd (resolve_and_stage P i name p s)) = core s"
  "core (snd (apply_adapter_parse P i name r s)) = core s"
  "core (snd (record_generation P i p r s)) = core s"
  "core (snd (no_stream_model name s)) = core s"
  "core (snd (stream_decode P i ms p s)) = core s"
  by (simp_all add: try_mtp_route_def resolve_and_stage_def apply_adapter_parse_def record_generation_def
      no_stream_model_def stream_decode_def Let_def split: prod.splits)

lemma core_no_model_error [simp]: "core (snd (build_no_model_error name s)) = core s"
  by (simp add: build_no_model_error_def)

lemma core_speculative [simp]: "core (snd (try_speculative_route_streaming P i ms p name s)) = core s"
proof -
  have m: "core s1 = core s" if "try_mtp_route P i ms p s = (r, s1)" for r s1
    using core_turn(1) [of P i ms p s] that by simp
  show ?thesis by (auto simp: try_speculative_route_streaming_def split: option.splits prod.splits dest!: m)
qed

lemma core_dispatch [simp]: "core (snd (run_generate_dispatch P i ms p name s)) = core s"
  using core_speculative [of P i ms p name s]
  by (auto simp: run_generate_dispatch_def try_speculative_route_def simp del: core_speculative split: option.splits prod.splits)

lemma core_finish [simp]: "core (snd (finish_generation P i p name r s)) = core s"
proof -
  have a: "core s1 = core s" if "apply_adapter_parse P i name r s = (x, s1)" for x s1
    using core_turn(3) [of P i name r s] that by simp
  have g: "core s2 = core s1" if "record_generation P i p r1 s1 = (x, s2)" for x r1 s1 s2
    using core_turn(4) [of P i p r1 s1] that by simp
  show ?thesis by (auto simp: finish_generation_def split: prod.splits option.splits dest!: a g)
qed

lemma prepare_turn_inv:
  assumes "orch_inv s" "\<And>n t. core (snd (no_model n t)) = core t" "prepare_turn P ms p name no_model s = (x, s')"
  shows "orch_inv s'" "\<And>selected i p1. x = Inr (selected, i, p1) \<Longrightarrow> is_active (objs s' i) \<and> i \<in> snd ` set (model_pool s')"
proof -
  obtain tier s1 where sel: "(if name = [] then route P ms s else (name, s)) = (tier, s1)" by fastforce
  have i1: "orch_inv s1" using route_inv(2) [OF assms(1), of P ms] assms(1) sel by (auto split: if_splits)
  obtain m s2 where g: "get_model P tier s1 = (m, s2)" by fastforce
  note gi = get_model_inv [OF i1 g]
  have nm: "core s3 = core t" if "no_model n t = (r, s3)" for n t r s3 using assms(2) [of n t] that by simp
  have rs: "core s3 = core s2" if "resolve_and_stage P i n q s2 = (p2, s3)" for i n q p2 s3
    using core_turn(2) [of P i n q s2] that by simp
  have eq: "prepare_turn P ms p name no_model s =
     (case refuse_unresolved_tier_grammar (cfg_tiers s1) (o_grammars s1) tier p of
        (Some refusal, _) \<Rightarrow> (Inl refusal, s1)
      | (None, p1) \<Rightarrow>
          (case m of
             None \<Rightarrow> (case no_model tier s2 of (r, s3) \<Rightarrow> (Inl r, s3))
           | Some i \<Rightarrow> (case resolve_and_stage P i tier p1 s2 of (p2, s3) \<Rightarrow> (Inr (tier, i, p2), s3))))"
    by (cases m) (simp_all add: prepare_turn_def sel g cong: option.case_cong)
  have "orch_inv s' \<and> (\<forall>selected i p1. x = Inr (selected, i, p1) \<longrightarrow> is_active (objs s' i) \<and> i \<in> snd ` set (model_pool s'))"
  proof (cases "fst (refuse_unresolved_tier_grammar (cfg_tiers s1) (o_grammars s1) tier p)")
    case (Some refusal)
    then show ?thesis using assms(3) eq i1 by (auto split: prod.splits)
  next
    case None
    then obtain p1 where p1: "refuse_unresolved_tier_grammar (cfg_tiers s1) (o_grammars s1) tier p = (None, p1)"
      by (metis prod.collapse)
    show ?thesis
    proof (cases m)
      case None
      then obtain r s3 where n: "no_model tier s2 = (r, s3)" by fastforce
      have "x = Inl r" "s' = s3" using assms(3) eq p1 None n by auto
      then show ?thesis using nm [OF n] gi(1) by (simp add: orch_inv_def)
    next
      case (Some i)
      obtain p2 s3 where n: "resolve_and_stage P i tier p1 s2 = (p2, s3)" by fastforce
      have x: "x = Inr (tier, i, p2)" "s' = s3" using assms(3) eq p1 Some n by auto
      note c = rs [OF n]
      have "is_active (objs s' i)" "i \<in> snd ` set (model_pool s')" using gi(3,4) Some core_eqD(3,5) [OF c] x by auto
      then show ?thesis using c gi(1) x by (simp add: orch_inv_def)
    qed
  qed
  then show "orch_inv s'" "\<And>selected i p1. x = Inr (selected, i, p1) \<Longrightarrow> is_active (objs s' i) \<and> i \<in> snd ` set (model_pool s')"
    by blast+
qed

lemma orch_generate_inv:
  assumes "orch_inv s"
  shows "orch_inv (snd (orch_generate P ms p name s))" "orch_inv (snd (orch_generate_cancellable P ms p name s))"
proof -
  obtain x s1 where q: "prepare_turn P ms p name build_no_model_error s = (x, s1)" by fastforce
  have i1: "orch_inv s1" by (rule prepare_turn_inv(1) [OF assms _ q]) simp
  have d: "core s2 = core s1" if "run_generate_dispatch P i ms p1 n s1 = (r, s2)" for i p1 n r s2
    using core_dispatch [of P i ms p1 n s1] that by simp
  show "orch_inv (snd (orch_generate P ms p name s))" "orch_inv (snd (orch_generate_cancellable P ms p name s))"
    using i1 by (auto simp: orch_generate_def orch_generate_cancellable_def q orch_inv_def split: sum.splits prod.splits dest!: d)
qed

lemma orch_generate_streaming_inv:
  assumes "orch_inv s"
  shows "orch_inv (snd (orch_generate_streaming P ms p name s))"
proof -
  obtain x s1 where q: "prepare_turn P ms p name no_stream_model s = (x, s1)" by fastforce
  have i1: "orch_inv s1" by (rule prepare_turn_inv(1) [OF assms _ q]) simp
  show ?thesis
  proof (cases x)
    case (Inl r)
    then show ?thesis using i1 by (simp add: orch_generate_streaming_def q)
  next
    case (Inr y)
    obtain selected i p1 where y: "y = (selected, i, p1)" by (cases y)
    define t where "t = (case (if spec_enabled (o_config s1) then try_speculative_route_streaming P i ms p1 selected s1 else (None, s1)) of
                   (Some rc, s2) \<Rightarrow> (rc, s2)
                 | (None, s2) \<Rightarrow> stream_decode P i ms p1 s2)"
    have ct: "core (snd t) = core s1"
      using core_speculative [of P i ms p1 selected s1] by (auto simp: t_def simp del: core_speculative split: prod.splits option.splits)
    have "core (snd (orch_generate_streaming P ms p name s)) = core (snd t)"
      by (cases t; cases "fst t") (simp add: orch_generate_streaming_def q Inr y Let_def split: prod.splits flip: t_def,
        metis core_finish fst_conv snd_conv)
    then show ?thesis using i1 ct by (simp add: orch_inv_def)
  qed
qed

lemma core_stage_arms: "core (snd (stage_batch_arms P i arms lead k ps s)) = core s"
proof (induction ps arbitrary: k s)
  case (Cons p ps)
  obtain p1 s1 where r: "resolve_and_stage P i (batch_arm_tier arms k lead) p s = (p1, s1)" by fastforce
  have "core s1 = core s" using core_turn(2) [of P i "batch_arm_tier arms k lead" p s] r by simp
  then show ?case using Cons.IH [of "Suc k" s1] by (simp add: r split: prod.splits) (metis snd_conv)
qed simp

lemma core_finish_batch: "core (snd (finish_batch P i arms lead k ps rs s)) = core s"
proof (induction P i arms lead k ps rs s rule: finish_batch.induct)
  case (3 P i arms lead k p ps r rs s)
  obtain x s1 where f: "finish_generation P i p (batch_arm_tier arms k lead) r s = (x, s1)" by fastforce
  have c: "core s1 = core s" using core_finish [of P i p "batch_arm_tier arms k lead" r s] f by simp
  show ?case
  proof (cases x)
    case (Some r1)
    obtain y s2 where g: "finish_batch P i arms lead (Suc k) ps rs s1 = (y, s2)" by fastforce
    then show ?thesis using 3 [OF f [symmetric] Some] c by (simp add: f Some)
  qed (simp add: f c)
qed simp_all

lemma orch_generate_batch_inv:
  assumes "orch_inv s"
  shows "orch_inv (snd (orch_generate_batch P mss ps arms s))"
proof -
  define lead where "lead = (if arms = [] \<or> hd arms = [] then ''default'' else hd arms)"
  obtain m s1 where g: "get_model P lead s = (m, s1)" by fastforce
  note i1 = get_model_inv(1) [OF assms g]
  have n: "core s2 = core s1" if "build_no_model_error lead s1 = (r, s2)" for r s2
    using core_no_model_error [of lead s1] that by simp
  have b: "core s2 = core s1" if "stage_batch_arms P i arms lead 0 qs s1 = (st, s2)" for i qs st s2
    using core_stage_arms [of P i arms lead 0 qs s1] that by simp
  show ?thesis using assms i1
    by (auto simp: orch_generate_batch_def Let_def g orch_inv_def core_finish_batch simp flip: lead_def
        split: option.splits prod.splits dest!: n b)
qed

subsection \<open>A life of the orchestrator\<close>

definition all_off :: "'w orch \<Rightarrow> bool" where
  "all_off s \<longleftrightarrow> orch_inv s \<and> (\<forall>i \<in> snd ` set (model_pool s). \<not> is_active (objs s i))"

lemma update_new: "map_of xs k = None \<Longrightarrow> AList.update k v xs = xs @ [(k, v)]"
  by (induction xs) (auto split: if_splits)

text \<open>One tier bound: to a backend of the pool, a new one where its file is new.\<close>

lemma bind_tier_off:
  assumes "all_off s" "name \<noteq> []" "i \<in> snd ` set (model_pool s)"
  shows "all_off (s\<lparr>bound := AList.update name i (bound s), o_adapters := ads\<rparr>)"
proof -
  have "orch_inv (s\<lparr>bound := AList.update name i (bound s)\<rparr>)"
    using assms snd_set_update [of name i "bound s"] unfolding all_off_def orch_inv_def core_def core_inv_def
    by (auto simp: distinct_update update_conv')
  then show ?thesis using assms(1) by (simp add: all_off_def orch_inv_def core_def)
qed

lemma new_pool_off:
  assumes "all_off s" "map_of (model_pool s) p = None"
  shows "all_off (s\<lparr>model_pool := AList.update p (next_obj s) (model_pool s), objs := (objs s)(next_obj s := new_backend), next_obj := Suc (next_obj s)\<rparr>)"
proof -
  have "next_obj s \<notin> snd ` set (slots s)" using assms(1) by (auto simp: all_off_def orch_inv_def core_def core_inv_def)
  then show ?thesis using assms unfolding all_off_def orch_inv_def core_def core_inv_def
    by (auto simp: update_new less_Suc_eq)
qed

lemma create_tier_backends_off:
  assumes "all_off s" "[] \<notin> fst ` set ts"
  shows "all_off (snd (create_tier_backends P ts s))"
  using assms
proof (induction P ts s rule: create_tier_backends.induct)
  case (2 P name t ts s)
  show ?case
  proof (cases "file_exists P (path t)")
    case True
    define s1 where "s1 = (case map_of (model_pool s) (path t) of
                    Some i \<Rightarrow> s
                  | None \<Rightarrow> s\<lparr>model_pool := AList.update (path t) (next_obj s) (model_pool s), objs := (objs s)(next_obj s := new_backend),
                             next_obj := Suc (next_obj s)\<rparr>)"
    have s1: "all_off s1" using 2(2) new_pool_off [of s "path t"] by (simp add: s1_def split: option.splits)
    have "map_of (model_pool s1) (path t) \<noteq> None" by (simp add: s1_def update_conv' split: option.splits)
    then have "the (map_of (model_pool s1) (path t)) \<in> snd ` set (model_pool s1)"
      by (metis map_of_SomeD option.exhaust_sel image_eqI snd_conv)
    from bind_tier_off [OF s1 _ this, of name "AList.update name (create_adapter (adapter t) name []) (o_adapters s1)"]
    have b: "all_off (s1\<lparr>bound := AList.update name (the (map_of (model_pool s1) (path t))) (bound s1),
        o_adapters := AList.update name (create_adapter (adapter t) name []) (o_adapters s1)\<rparr>)" using 2(3) by auto
    have "[] \<notin> fst ` set ts" using 2(3) by auto
    from 2(1) [OF _ s1_def b this] True show ?thesis by (simp add: Let_def flip: s1_def)
  qed (use 2(2) in simp)
qed simp

lemma all_off_core: "all_off s \<Longrightarrow> core s' = core s \<Longrightarrow> all_off s'"
  using core_eqD [of s' s] by (simp add: all_off_def orch_inv_def)

lemma orch_initialize_inv:
  assumes "[] \<notin> fst ` set (tiers (models cfg))"
  shows "orch_inv (snd (orch_initialize P cfg (new_orch cfg0 watched w)))"
proof -
  define s1 where "s1 = (let s0 = (new_orch cfg0 watched w)\<lparr>o_config := cfg, default_name := default_tier (models cfg)\<rparr>
     in if budget_resolves_at_init P cfg then ensure_vram_budget P s0 else s0\<lparr>budget_deferred := True\<rparr>)"
  have "core s1 = core (new_orch cfg0 watched w)" by (simp add: s1_def Let_def)
  then have s1: "all_off s1"
    by (rule all_off_core [rotated]) (simp add: all_off_def orch_inv_def core_def core_inv_def new_orch_def)
  obtain ok s2 where c: "create_tier_backends P (tiers (models cfg)) s1 = (ok, s2)" by fastforce
  have s2: "orch_inv s2" using create_tier_backends_off [OF s1 assms, of P] c by (simp add: all_off_def)
  define s2' where "s2' = build_routing_tables (routing cfg) s2"
  have s2': "orch_inv s2'" using s2 by (simp add: s2'_def build_routing_tables_def orch_inv_def)
  obtain ok3 s3 where d: "activate_default_tier P s2' = (ok3, s3)" by fastforce
  have s3: "orch_inv s3" using d s2' get_model_inv(1) [OF s2', of P "default_name s2'"]
    by (auto simp: activate_default_tier_def split: if_splits prod.splits)
  define s4 where "s4 = (if defer_load cfg then s3 else activate_draft P (activate_router P s3))"
  have s4: "orch_inv s4" using s3 activate_router_draft_inv(2) [OF activate_router_draft_inv(1) [OF s3]] by (simp add: s4_def)
  have "orch_inv (load_bundled_grammars P s4)" using s4 by (simp add: load_bundled_grammars_def orch_inv_def split: option.splits)
  moreover have "snd (orch_initialize P cfg (new_orch cfg0 watched w)) = (if \<not> ok then s2 else if \<not> ok3 then s3 else load_bundled_grammars P s4)"
    using c d by (cases ok; cases ok3) (simp_all add: orch_initialize_def Let_def s1_def s2'_def s4_def)
  ultimately show ?thesis using s2 s3 by simp
qed

datatype orch_op =
  Op_get_model string | Op_release string | Op_release_role string | Op_turn "message list" gen_params string
| Op_cancellable "message list" gen_params string | Op_stream "message list" gen_params string
| Op_batch "message list list" "gen_params list" "string list" | Op_route "message list" | Op_forget string
| Op_clear_caches | Op_footprint string | Op_grammars fpath | Op_shutdown

definition orch_step :: "'w platform \<Rightarrow> orch_op \<Rightarrow> 'w orch \<Rightarrow> 'w orch" where
  "orch_step P x s =
     (case x of
        Op_get_model n \<Rightarrow> snd (get_model P n s)
      | Op_release n \<Rightarrow> snd (release_models P n s)
      | Op_release_role r \<Rightarrow> snd (release_role P r s)
      | Op_turn ms p n \<Rightarrow> snd (orch_generate P ms p n s)
      | Op_cancellable ms p n \<Rightarrow> snd (orch_generate_cancellable P ms p n s)
      | Op_stream ms p n \<Rightarrow> snd (orch_generate_streaming P ms p n s)
      | Op_batch mss ps arms \<Rightarrow> snd (orch_generate_batch P mss ps arms s)
      | Op_route ms \<Rightarrow> snd (route P ms s)
      | Op_forget k \<Rightarrow> forget_session_kv P k s
      | Op_clear_caches \<Rightarrow> clear_all_prompt_caches P s
      | Op_footprint n \<Rightarrow> snd (tier_footprint_bytes P n s)
      | Op_grammars d \<Rightarrow> snd (load_grammars_from P d s)
      | Op_shutdown \<Rightarrow> orch_shutdown P s)"

definition orch_life :: "'w platform \<Rightarrow> orch_config \<Rightarrow> bool \<Rightarrow> 'w \<Rightarrow> orch_op list \<Rightarrow> 'w orch" where
  "orch_life P cfg watched w ops = foldl (\<lambda>s x. orch_step P x s) (snd (orch_initialize P cfg (new_orch cfg watched w))) ops"

lemma orch_step_inv:
  assumes "orch_inv s"
  shows "orch_inv (orch_step P x s)"
proof (cases x)
  case (Op_get_model n)
  then show ?thesis using get_model_inv(1) [OF assms, of P n "fst (get_model P n s)" "snd (get_model P n s)"] by (simp add: orch_step_def)
next
  case (Op_forget k)
  then show ?thesis using assms by (simp add: orch_step_def forget_session_kv_def orch_inv_def)
next
  case Op_clear_caches
  then show ?thesis using assms
    by (simp add: orch_step_def clear_all_prompt_caches_def secondary_clear_prompt_caches_def orch_inv_def)
next
  case (Op_footprint n)
  then show ?thesis using assms by (simp add: orch_step_def tier_footprint_bytes_def Let_def orch_inv_def split: option.splits)
next
  case (Op_grammars d)
  then show ?thesis using assms by (simp add: orch_step_def load_grammars_from_def orch_inv_def split: prod.splits)
qed (simp_all add: orch_step_def assms release_models_inv release_role_inv orch_generate_inv orch_generate_streaming_inv
    orch_generate_batch_inv route_inv orch_shutdown_inv)

text \<open>
  Claim C7. After any start, with tiers that have names, and any sequence of requests, releases and ends, whatever loads,
  decodes and the device's memory do: of the backends of the tiers at most one is active, and it is the one the main
  tier is bound to.
\<close>

theorem one_active_model:
  assumes "[] \<notin> fst ` set (tiers (models cfg))" "s = orch_life P cfg watched w ops"
    and "i \<in> snd ` set (model_pool s)" "backend_active s i"
  shows "map_of (bound s) (main_tier s) = Some i \<and> (\<forall>j \<in> snd ` set (model_pool s). backend_active s j \<longrightarrow> j = i)"
proof -
  have "orch_inv (foldl (\<lambda>s x. orch_step P x s) t ops)" if "orch_inv t" for t
    using that by (induction ops arbitrary: t) (simp_all add: orch_step_inv)
  from this [OF orch_initialize_inv [OF assms(1)]] have inv: "orch_inv s" unfolding assms(2) orch_life_def .
  have m: "map_of (bound s) (main_tier s) = Some i" using orch_inv_active(1) [OF inv assms(3)] assms(4) by (simp add: backend_active_def)
  moreover have "j = i" if "j \<in> snd ` set (model_pool s)" "backend_active s j" for j
    using orch_inv_active(1) [OF inv that(1)] that(2) m by (simp add: backend_active_def)
  ultimately show ?thesis by blast
qed

definition bench_platform :: "(string \<Rightarrow> u64 option) \<Rightarrow> nat platform" where
  "bench_platform sizes =
     \<lparr>vops_of = (\<lambda>_. \<lparr>do_load = (\<lambda>_ w. (True, w + 1)), do_activate = (\<lambda>_ w. (True, w + 1)), do_deactivate = (\<lambda>_ w. w + 1),
        do_unload = (\<lambda>w. w + 1), do_load_active = (\<lambda>_ w. (True, w + 1)), hook_pre_load = None, hook_unload = None\<rparr>),
      model_ptr = (\<lambda>i _. Some i), context_ptr = (\<lambda>i _. Some i), file_exists = (\<lambda>_. True), file_bytes = sizes,
      shape_of = (\<lambda>_. \<lparr>shape_known = False, block_count = 0, expert_count = 0, block_bytes = 0, expert_bytes = 0, non_block_bytes = 0\<rparr>),
      memlock_limit = kMemlockUnlimited, env_budget = Some ''1000'', free_vram = (\<lambda>_. 0), clock = int, lora_readable = (\<lambda>_ _. True),
      lora_pass = (\<lambda>_ _ _. True), memory_clear = (\<lambda>_ w. w),
      decode = (\<lambda>_ _ _ w. (new_gen_result, w)), decode_stream = (\<lambda>_ _ _ w. ((new_gen_result, []), w)),
      decode_batch = (\<lambda>_ mss _ w. (map (\<lambda>_. new_gen_result) mss, w)), complete_prompt = (\<lambda>_ _ _ w. (new_gen_result, w)),
      decode_mtp = (\<lambda>_ _ _ _ _ w. ((new_gen_result, []), w)), decode_draft = (\<lambda>_ _ _ _ _ w. ((new_gen_result, []), w)),
      compat = (\<lambda>_ _. (False, [])), layers_of = (\<lambda>_. 32), stage_tools = (\<lambda>_ _ _ w. w), tool_grammar = (\<lambda>_ _. []),
      template_of = (\<lambda>_ _. chat_state []), jlib = chat_lib, parses_gbnf = (\<lambda>_. True), grammar_dir = (\<lambda>_. None),
      drop_prompt_cache = (\<lambda>_ w. w), drop_session_kv = (\<lambda>_ _ w. w)\<rparr>"

definition bench_tier :: "string \<Rightarrow> tier_config" where
  "bench_tier p = code_tier\<lparr>path := p, grammar := None, model_config.context_length := 0, use_mlock := False\<rparr>"

definition bench_config :: "(string \<times> string) list \<Rightarrow> orch_config" where
  "bench_config ts =
     \<lparr>models = \<lparr>tiers = map (\<lambda>(n, p). (n, bench_tier p)) ts, router = None, default_tier = ''a''\<rparr>,
      routing = \<lparr>routing_enabled = False, fallback_tier = ''a'', classification_prompt = None, tier_map = [], handoff_rules = []\<rparr>,
      compaction = \<lparr>enabled = False, threshold_percent = 1, preserve_recent_turns = 1, summary_max_tokens = 1, notify_user = False,
        save_full_history = False, tool_result_ttl = 1, warning_threshold_percent = 1\<rparr>,
      prompt_cache = \<lparr>max_bytes = 0, cache_enabled = False\<rparr>, config_dir = None, defer_load = False, cfg_vram_reserve_mb = 0,
      spec_enabled = False, spec_mtp = False, spec_n_draft = 4, spec_draft = default_model_config\<rparr>"

theorem one_active_model_witness:
  "let s = orch_life (bench_platform (\<lambda>_. None)) (bench_config [(''a'', ''a.gguf''), (''b'', ''b.gguf'')]) True 0 [Op_get_model ''b'']
   in map_of (bound s) (main_tier s) = Some 1 \<and> (\<forall>j \<in> snd ` set (model_pool s). backend_active s j \<longrightarrow> j = 1)"
proof -
  let ?cfg = "bench_config [(''a'', ''a.gguf''), (''b'', ''b.gguf'')]"
  let ?s = "orch_life (bench_platform (\<lambda>_. None)) ?cfg True 0 [Op_get_model ''b'']"
  have "[] \<notin> fst ` set (tiers (models ?cfg))" by (simp add: bench_config_def)
  moreover have "map snd (model_pool ?s) = [0, 1]" by code_simp
  then have "1 \<in> snd ` set (model_pool ?s)" unfolding list.set_map [symmetric] by simp
  moreover have "backend_active ?s 1" by code_simp
  ultimately show ?thesis using one_active_model [OF _ refl, of ?cfg 1 "bench_platform (\<lambda>_. None)" True 0 "[Op_get_model ''b'']"]
    by (simp add: Let_def)
qed

subsection \<open>What is let in\<close>

text \<open>A tier as the budget sees it: refused by neither gate, and its estimate within the budget, where one is known.\<close>

definition tier_fits :: "'w platform \<Rightarrow> 'w orch \<Rightarrow> string \<Rightarrow> bool" where
  "tier_fits P s name \<longleftrightarrow>
     (vram_budget s = 0 \<or> estimate_footprint_bytes P s name \<le> vram_budget s) \<and>
     (\<forall>t bytes. cfg_tier s name = Some t \<longrightarrow> file_bytes P (path t) = Some bytes \<longrightarrow>
        \<not> mlock_refused (use_mlock t) bytes (gpu_layers t) (memlock_limit P) (host_expert_bytes_for P t) \<and>
        \<not> gpu_offload_refused bytes (gpu_layers t) (vram_budget s))"

definition budget_view :: "'w orch \<Rightarrow> orch_config \<times> u64 \<times> bool" where
  "budget_view s = (o_config s, vram_budget s, budget_resolved s)"

lemma budget_view_frame [simp]:
  "budget_view (s\<lparr>world := w\<rparr>) = budget_view s" "budget_view (s\<lparr>o_lora := l\<rparr>) = budget_view s"
  "budget_view (s\<lparr>last_routing := r\<rparr>) = budget_view s" "budget_view (s\<lparr>last_activation := la\<rparr>) = budget_view s"
  "budget_view (s\<lparr>footprints := fp\<rparr>) = budget_view s" "budget_view (s\<lparr>announced := a\<rparr>) = budget_view s"
  "budget_view (s\<lparr>main_tier := m\<rparr>) = budget_view s" "budget_view (s\<lparr>objs := os\<rparr>) = budget_view s"
  "budget_view (s\<lparr>slots := sl\<rparr>) = budget_view s" "budget_view (s\<lparr>slot_paths := sp\<rparr>) = budget_view s"
  "budget_view (s\<lparr>next_obj := n\<rparr>) = budget_view s"
  by (simp_all add: budget_view_def)

lemma tier_fits_cong: "budget_view s = budget_view s' \<Longrightarrow> tier_fits P s name = tier_fits P s' name"
  by (simp add: budget_view_def tier_fits_def estimate_footprint_bytes_def cfg_tier_def cfg_tiers_def split: option.splits)

lemma budget_view_ops [simp]:
  "budget_view (fire_residency_observer e t p fp s) = budget_view s"
  "budget_view (unload_backend P i s) = budget_view s"
  "budget_view (deactivate_backend P i s) = budget_view s"
  "budget_view (destroy_backend P i s) = budget_view s"
  "budget_view (preload_adapters_for_model P i s) = budget_view s"
  "budget_view (ensure_tier_lora P name i s) = budget_view s"
  "budget_view (set_swap_action a s) = budget_view s"
  by (simp_all add: fire_residency_observer_def unload_backend_def deactivate_backend_def destroy_backend_def on_backend_def
      preload_adapters_for_model_def ensure_tier_lora_def ensure_adapter_for_tier_def set_swap_action_def Let_def
      split: option.splits prod.splits)

lemma budget_view_load: "load_active_backend P i cfg s = (ok, s') \<Longrightarrow> budget_view s' = budget_view s"
  by (auto simp: load_active_backend_def on_backend_def split: prod.splits)

lemma budget_view_deactivate [simp]: "budget_view (deactivate_current_if_needed P i s) = budget_view s"
  by (simp add: deactivate_current_if_needed_def unload_or_warm_current_def split: option.splits)

lemma budget_view_activate: "activate_and_track P name i s = (m, s') \<Longrightarrow> budget_view s' = budget_view s"
  by (auto simp: activate_and_track_def Let_def split: option.splits prod.splits bool.splits dest!: budget_view_load)

lemma budget_view_ensure_loaded [simp]: "budget_view (snd (ensure_loaded P r cfg s)) = budget_view s"
proof -
  have v: "budget_view s1 = budget_view s" if "load_active_backend P i cfg (s\<lparr>next_obj := n, objs := os\<rparr>) = (ok, s1)" for i n os ok s1
    using budget_view_load [OF that] by simp
  show ?thesis by (auto simp: ensure_loaded_def Let_def split: prod.splits bool.splits option.splits dest!: v)
qed

lemma budget_view_secondary [simp]: "budget_view (ensure_secondary_roles P s) = budget_view s"
  by (simp add: ensure_secondary_roles_def activate_router_def activate_draft_def Let_def split: option.splits)

lemma residency_admits_fits:
  assumes "residency_admits P name s = (True, s')"
  shows "tier_fits P s' name" "budget_resolved s'"
proof -
  let ?a = "resolve_auto_gpu_layers P name (ensure_vram_budget P s)"
  obtain s1 where c: "config_admits P name ?a = (True, s1)"
    and e: "s1 = ?a \<or> True" using assms by (auto simp: residency_admits_def split: prod.splits bool.splits)
  have s1: "s1 = ?a" using c by (auto simp: config_admits_def Let_def split: option.splits if_splits)
  have gates: "\<not> mlock_refused (use_mlock t) bytes (gpu_layers t) (memlock_limit P) (host_expert_bytes_for P t) \<and>
      \<not> gpu_offload_refused bytes (gpu_layers t) (vram_budget s1)"
    if "cfg_tier s1 name = Some t" "file_bytes P (path t) = Some bytes" for t bytes
    using c that by (simp add: s1 config_admits_def Let_def split: if_splits)
  have fp: "budget_view s' = budget_view s1" "vram_budget s1 = 0 \<or> estimate_footprint_bytes P s1 name \<le> vram_budget s1"
    using assms c by (auto simp: residency_admits_def Let_def word_neq_0_conv not_less split: if_splits)
  have "tier_fits P s1 name" using gates fp(2) by (auto simp: tier_fits_def)
  then show "tier_fits P s' name" using tier_fits_cong [OF fp(1)] by simp
  have "budget_resolved ?a"
    by (simp add: resolve_auto_gpu_layers_def fall_back_to_weights_estimate_def set_cfg_tier_def ensure_vram_budget_def Let_def split: option.splits)
  then show "budget_resolved s'" using fp(1) s1 by (simp add: budget_view_def)
qed

lemma activate_and_track_result: "activate_and_track P n k t = (m, t') \<Longrightarrow> m = None \<or> m = Some k"
  by (auto simp: activate_and_track_def Let_def split: option.splits prod.splits bool.splits)

text \<open>
  Claim C8. A model that is brought in for a tier passed the gates on what is then the tier's configuration: it would not pin more
  memory than may be pinned, its layers can be put on the device, and its estimated footprint is within the
  budget, wherever the budget is known; and the budget has been measured.
\<close>

theorem admitted_model_fits:
  assumes "get_model P name s = (Some i, s')" "\<not> backend_active s i"
  shows "\<exists>eff. effective_tier s name = Some (eff, i) \<and> tier_fits P s' eff \<and> budget_resolved s'"
proof -
  obtain eff j where e: "effective_tier s name = Some (eff, j)" using assms(1) by (cases "effective_tier s name") (auto simp: get_model_def)
  define rs where "rs = (if backend_active s j then (Some j, record_activation_reuse P eff (set_swap_action ''reused'' s))
       else case residency_admits P eff s of
              (False, s1) \<Rightarrow> (None, s1)
            | (True, s1) \<Rightarrow> activate_and_track P eff j (deactivate_current_if_needed P j s1))"
  obtain r s1 where r: "rs = (r, s1)" by fastforce
  have g: "get_model P name s = (case r of None \<Rightarrow> (None, s1) | Some k \<Rightarrow> (Some k, ensure_secondary_roles P (ensure_tier_lora P name k s1)))"
    using r by (simp add: get_model_def e Let_def rs_def)
  have rj: "r = Some i" "s' = ensure_secondary_roles P (ensure_tier_lora P name i s1)" using g assms(1) by (auto split: option.splits)
  have ij: "j = i" and off: "\<not> backend_active s j"
    using r rj(1) assms(2) by (auto simp: rs_def split: if_splits prod.splits bool.splits dest!: activate_and_track_result)
  obtain sa where a: "residency_admits P eff s = (True, sa)" "activate_and_track P eff j (deactivate_current_if_needed P j sa) = (r, s1)"
    using r rj(1) off by (auto simp: rs_def split: prod.splits bool.splits)
  have v: "budget_view s' = budget_view sa" using budget_view_activate [OF a(2)] rj(2) by simp
  have "tier_fits P s' eff" using residency_admits_fits(1) [OF a(1)] tier_fits_cong [OF v] by simp
  moreover have "budget_resolved s'" using residency_admits_fits(2) [OF a(1)] v by (simp add: budget_view_def)
  ultimately show ?thesis using e ij by blast
qed

text \<open>Nothing is rounded where there is no context to keep.\<close>

lemma kv_cache_bytes_code [code]:
  "kv_cache_bytes inp =
     (if in_context_length inp \<le> 0 then 0
      else u64_of_double (f64 (f64 (of_int (in_context_length inp) * of_int (if in_max_sessions inp > 0 then in_max_sessions inp else 1)) *
             kv_bytes_per_token inp)))"
proof -
  have "f64 0 = 0" by (simp add: f64_def round_sig_def)
  then show ?thesis by (simp add: kv_cache_bytes_def Let_def u64_of_double_def)
qed

theorem admitted_model_fits_witness:
  "let P = bench_platform (\<lambda>_. Some 900); s = orch_life P (bench_config [(''a'', ''a.gguf''), (''b'', ''b.gguf'')]) True 0 []
   in tier_fits P (snd (get_model P ''b'' s)) ''b'' \<and> vram_budget (snd (get_model P ''b'' s)) = 1000"
proof -
  let ?P = "bench_platform (\<lambda>_. Some 900)"
  let ?s = "orch_life ?P (bench_config [(''a'', ''a.gguf''), (''b'', ''b.gguf'')]) True 0 []"
  have g: "get_model ?P ''b'' ?s = (Some 1, snd (get_model ?P ''b'' ?s))"
  proof -
    have "fst (get_model ?P ''b'' ?s) = Some 1" by code_simp
    then show ?thesis by (metis prod.collapse)
  qed
  have "\<not> backend_active ?s 1" by code_simp
  moreover have "effective_tier ?s ''b'' = Some (''b'', 1)" by code_simp
  moreover have "vram_budget (snd (get_model ?P ''b'' ?s)) = 1000" by code_simp
  ultimately show ?thesis using admitted_model_fits [OF g] by (simp add: Let_def)
qed

subsection \<open>What is refused\<close>

lemma residency_admits_refuses:
  assumes "residency_admits P name s = (False, s')"
  shows "residency_error s' \<in> {ENTROPIC_ERROR_MLOCK_LIMIT_EXCEEDED, ENTROPIC_ERROR_TIER_MODEL_TOO_LARGE}" "world s' = world s" "core s' = core s"
proof -
  have w: "world (resolve_auto_gpu_layers P name (ensure_vram_budget P s)) = world s"
    by (simp add: resolve_auto_gpu_layers_def fall_back_to_weights_estimate_def set_cfg_tier_def ensure_vram_budget_def Let_def split: option.splits)
  have c: "world t' = world t \<and> (\<not> ok \<longrightarrow> residency_error t' \<in> {ENTROPIC_ERROR_MLOCK_LIMIT_EXCEEDED, ENTROPIC_ERROR_TIER_MODEL_TOO_LARGE})"
    if "config_admits P name t = (ok, t')" for t t' ok
    using that by (auto simp: config_admits_def refuse_residency_def Let_def split: option.splits if_splits)
  show "residency_error s' \<in> {ENTROPIC_ERROR_MLOCK_LIMIT_EXCEEDED, ENTROPIC_ERROR_TIER_MODEL_TOO_LARGE}" "world s' = world s"
    using assms w by (auto simp: residency_admits_def Let_def split: prod.splits bool.splits if_splits dest!: c)
  show "core s' = core s" using core_residency_admits [of P name s] assms by simp
qed

lemma get_model_refused:
  assumes "effective_tier s name = Some (eff, i)" "\<not> backend_active s i" "residency_admits P eff s = (False, s')"
  shows "get_model P name s = (None, s')"
  using assms by (simp add: get_model_def)

text \<open>
  Claim C9. A turn for a tier whose model is refused ends in the error of the gate that refused it, once, with no model
  unloaded or loaded for it and nothing run.
\<close>

theorem refused_turn_reported:
  assumes "effective_tier s name = Some (eff, i)" "\<not> backend_active s i" "residency_admits P eff s = (False, s')"
    and "name \<noteq> []" "fst (refuse_unresolved_tier_grammar (cfg_tiers s) (o_grammars s) name p) = None"
  shows "\<exists>r s2. orch_generate P ms p name s = (Some r, s2) \<and> gr_error_code r = residency_error s' \<and>
     residency_error s' \<in> {ENTROPIC_ERROR_MLOCK_LIMIT_EXCEEDED, ENTROPIC_ERROR_TIER_MODEL_TOO_LARGE} \<and>
     gr_content r = [] \<and> residency_error s2 = ENTROPIC_OK \<and> residency_message s2 = [] \<and>
     world s2 = world s \<and> core s2 = core s"
proof -
  obtain p1 where p1: "refuse_unresolved_tier_grammar (cfg_tiers s) (o_grammars s) name p = (None, p1)"
    using assms(5) by (metis prod.collapse)
  obtain r s2 where b: "build_no_model_error name s' = (r, s2)" by fastforce
  note ref = residency_admits_refuses [OF assms(3)]
  have e: "residency_error s' \<noteq> ENTROPIC_OK" using ref(1) by auto
  have "prepare_turn P ms p name build_no_model_error s = (Inl r, s2)"
    using assms(4) by (simp add: prepare_turn_def p1 get_model_refused [OF assms(1-3)] b)
  then have "orch_generate P ms p name s = (Some r, s2)" by (simp add: orch_generate_def)
  moreover have "gr_error_code r = residency_error s'" "gr_content r = []" "residency_error s2 = ENTROPIC_OK" "residency_message s2 = []"
    "world s2 = world s" using b e ref(2) by (auto simp: build_no_model_error_def error_result_def new_gen_result_def)
  moreover have "core s2 = core s" using core_no_model_error [of name s'] b ref(3) by simp
  ultimately show ?thesis using ref(1) by blast
qed

theorem refused_turn_reported_witness:
  "let P = bench_platform (\<lambda>_. Some 2000);
       s = orch_life P (bench_config [(''a'', ''a.gguf'')]) True 0 []
   in \<exists>r s2. orch_generate P [] new_gen_params ''a'' s = (Some r, s2) \<and> gr_error_code r = ENTROPIC_ERROR_TIER_MODEL_TOO_LARGE \<and> core s2 = core s"
proof -
  let ?P = "bench_platform (\<lambda>_. Some 2000)"
  let ?s = "orch_life ?P (bench_config [(''a'', ''a.gguf'')]) True 0 []"
  have "\<not> fst (residency_admits ?P ''a'' ?s)" by code_simp
  then have r: "residency_admits ?P ''a'' ?s = (False, snd (residency_admits ?P ''a'' ?s))" by (metis prod.collapse)
  have e: "effective_tier ?s ''a'' = Some (''a'', 0)" by code_simp
  have a: "\<not> backend_active ?s 0" by code_simp
  have "Option.bind (map_of (cfg_tiers ?s) ''a'') grammar = None" by code_simp
  then have g: "fst (refuse_unresolved_tier_grammar (cfg_tiers ?s) (o_grammars ?s) ''a'' new_gen_params) = None"
    by (simp add: refuse_unresolved_tier_grammar_def resolve_grammar_key_def tier_grammar_unresolved_def new_gen_params_def)
  have c: "residency_error (snd (residency_admits ?P ''a'' ?s)) = ENTROPIC_ERROR_TIER_MODEL_TOO_LARGE" by code_simp
  have n: "''a'' \<noteq> []" by simp
  obtain x s2 where "orch_generate ?P [] new_gen_params ''a'' ?s = (Some x, s2)"
    "gr_error_code x = residency_error (snd (residency_admits ?P ''a'' ?s))" "core s2 = core ?s"
    using refused_turn_reported [OF e a r n g, of "[]"] by blast
  then show ?thesis unfolding Let_def c by blast
qed

text \<open>A stream for a refused tier ends in the general error and leaves the refusal for whichever turn fails next.\<close>

lemma stream_refusal_left_behind:
  assumes "effective_tier s name = Some (eff, i)" "\<not> backend_active s i" "residency_admits P eff s = (False, s')"
    and "name \<noteq> []" "fst (refuse_unresolved_tier_grammar (cfg_tiers s) (o_grammars s) name p) = None"
  shows "\<exists>r. orch_generate_streaming P ms p name s = ((Some r, []), s') \<and> gr_error_code r = ENTROPIC_ERROR_GENERATE_FAILED \<and>
     residency_error s' \<noteq> ENTROPIC_OK \<and> gr_error_code (fst (build_no_model_error other s')) = residency_error s'"
proof -
  obtain p1 where p1: "refuse_unresolved_tier_grammar (cfg_tiers s) (o_grammars s) name p = (None, p1)"
    using assms(5) by (metis prod.collapse)
  have "residency_error s' \<noteq> ENTROPIC_OK" using residency_admits_refuses(1) [OF assms(3)] by auto
  moreover have "prepare_turn P ms p name no_stream_model s = (Inl (fst (no_stream_model name s')), s')"
    using assms(4) by (simp add: prepare_turn_def p1 get_model_refused [OF assms(1-3)] no_stream_model_def)
  ultimately show ?thesis
    by (simp add: orch_generate_streaming_def no_stream_model_def error_result_def new_gen_result_def build_no_model_error_def)
qed

text \<open>A refusal by size keeps the message of a refusal before it.\<close>

lemma too_large_keeps_message:
  assumes "config_admits P name (resolve_auto_gpu_layers P name (ensure_vram_budget P s)) = (True, s1)" "residency_admits P name s = (False, s')"
  shows "residency_message s' = residency_message s"
proof -
  have "residency_message (resolve_auto_gpu_layers P name (ensure_vram_budget P s)) = residency_message s"
    by (simp add: resolve_auto_gpu_layers_def fall_back_to_weights_estimate_def set_cfg_tier_def ensure_vram_budget_def Let_def split: option.splits)
  moreover have "residency_message s1 = residency_message (resolve_auto_gpu_layers P name (ensure_vram_budget P s))"
    using assms(1) by (auto simp: config_admits_def Let_def split: option.splits if_splits)
  ultimately show ?thesis using assms by (auto simp: residency_admits_def Let_def split: if_splits)
qed

text \<open>Without a loaded router a routed turn gets the empty tier, not the default one.\<close>

lemma router_miss_names_no_tier:
  "get_role (activate_router P s) ''router'' = None \<Longrightarrow> fst (classify_task P ms s) = ([], [])"
  by (simp add: classify_task_def Let_def)

text \<open>Two tiers of one file share a backend, and its memory is counted for each.\<close>

lemma shared_backend_counted_twice:
  "let P = bench_platform (\<lambda>_. Some 600); s = orch_life P (bench_config [(''a'', ''m.gguf''), (''b'', ''m.gguf'')]) True 0 []
   in length (model_pool s) = 1 \<and> estimate_footprint_bytes P s ''a'' = 600 \<and>
      foldl (\<lambda>b (n, t). b + shown_footprint P s n) 0 (resident_tiers s) = 1200 \<and> vram_budget s = 1000"
  by code_simp

text \<open>A tier that cannot be brought in leaves the tier it displaced as the main one, unloaded.\<close>

lemma failed_switch_keeps_name:
  "let P = (bench_platform (\<lambda>_. None))\<lparr>vops_of := (\<lambda>i. (vops_of (bench_platform (\<lambda>_. None)) i)\<lparr>do_load_active := (\<lambda>_ w. (i = 0, w + 1))\<rparr>)\<rparr>;
       s = orch_life P (bench_config [(''a'', ''a.gguf''), (''b'', ''b.gguf'')]) True 0 [Op_get_model ''b'']
   in last_used_tier s = ''a'' \<and> \<not> backend_loaded s 0 \<and> \<not> backend_loaded s 1"
  by code_simp

text \<open>The turns remembered are the last ones, at most as many as the bound.\<close>

lemma record_generation_bounded:
  "length (gen_records s) \<le> kMaxGenerationRecords \<Longrightarrow> length (gen_records (snd (record_generation P i p r s))) \<le> kMaxGenerationRecords"
  by (auto simp: record_generation_def kMaxGenerationRecords_def Let_def)

end
