(* ===== verification/Spec2Isabelle.thy ===== *)
theory Spec2Isabelle
  imports Engine_Turns Engine_Directives Stream_Filter Utf8_Sanitize Hooks Access_Control Tool_Results
    Tool_Executor Root_Lock Session_Slots Prompt_Cache Placement Fs_Server
    Config_Validate Response_Parse Constitutional_Validator Compactor_Registry Identity_Manager Lora_Manager
    Orchestrator
begin

text \<open>Header.\<close>

end
